(* ===== verification/Proxy_Prelude.thy ===== *)
theory Proxy_Prelude
  imports Complex_Main "HOL-Library.AList" "HOL-Library.Char_ord" "HOL-Library.List_Lexorder"
    "HOL-Library.Multiset"
begin

text \<open>
  What every component of the proxy uses of Go and of its standard library: 64-bit integers
  (saturating and wrapping), instants and durations, byte strings with the \<open>strings\<close> and
  \<open>strconv\<close> functions the sources call, maps as association lists, \<open>sort.Slice\<close> and
  \<open>sort.Search\<close>. The generic lemmas the components share are proved here once.

  A Go string is a byte string, so it is an Isabelle \<open>string\<close>; \<open>TrimSpace\<close>,
  \<open>ToLower\<close> and \<open>EqualFold\<close> are given on ASCII and leave bytes from 128 on as they are.
  A Go map is an association list with distinct keys; the order of the list is one order in
  which \<open>range\<close> may visit it, and the results that must not depend on it say so.
\<close>

named_theorems go_defs \<open>definitions of the language level, for evaluation\<close>

section \<open>Machine integers\<close>

abbreviation min_int64 :: int where
  "min_int64 \<equiv> - (2 ^ 63)"

abbreviation max_int64 :: int where
  "max_int64 \<equiv> 2 ^ 63 - 1"

definition int64 :: "int \<Rightarrow> bool" where
  "int64 x \<longleftrightarrow> min_int64 \<le> x \<and> x \<le> max_int64"

text \<open>Two's complement wrap-around of \<open>+\<close>, \<open>-\<close> and \<open>*\<close> at 64 bits.\<close>

definition wrap64 :: "int \<Rightarrow> int" where
  "wrap64 x = (x + 2 ^ 63) mod 2 ^ 64 - 2 ^ 63"

lemma wrap64_id [simp]: "int64 x \<Longrightarrow> wrap64 x = x"
  by (simp add: wrap64_def int64_def)

lemma int64_wrap64 [simp]: "int64 (wrap64 x)"
proof -
  have "0 \<le> (x + 2 ^ 63) mod 2 ^ 64" "(x + 2 ^ 63) mod 2 ^ 64 < 2 ^ 64"
    by simp_all
  then show ?thesis by (simp add: wrap64_def int64_def)
qed

text \<open>Go's \<open>/\<close> truncates towards zero; callers never divide by zero.\<close>

definition go_div :: "int \<Rightarrow> int \<Rightarrow> int" where
  "go_div a b = sgn a * sgn b * (\<bar>a\<bar> div \<bar>b\<bar>)"

lemma go_div_nonneg [simp]: "0 \<le> a \<Longrightarrow> 0 < b \<Longrightarrow> go_div a b = a div b"
  by (cases "a = 0") (simp_all add: go_div_def)

lemma go_div2_pos_iff: "0 < go_div a 2 \<longleftrightarrow> 2 \<le> a"
proof (cases "0 \<le> a")
  case True
  then show ?thesis by (simp, presburger)
next
  case False
  then have "go_div a 2 \<le> 0"
    by (simp add: go_div_def sgn_if pos_imp_zdiv_nonneg_iff)
  with False show ?thesis by simp
qed

definition clamp64 :: "int \<Rightarrow> int" where
  "clamp64 x = max min_int64 (min max_int64 x)"

lemma clamp64_id [simp]: "int64 x \<Longrightarrow> clamp64 x = x"
  by (simp add: clamp64_def int64_def)

lemma int64_clamp64 [simp]: "int64 (clamp64 x)"
  by (simp add: clamp64_def int64_def)

section \<open>Instants and durations\<close>

text \<open>
  A \<open>time.Time\<close> is the number of nanoseconds since the zero time, so \<open>IsZero\<close> is
  \<open>= 0\<close>, \<open>After\<close> is \<open>>\<close>, \<open>Before\<close> is \<open><\<close> and \<open>Equal\<close> is \<open>=\<close>. \<open>Sub\<close> saturates
  at the bounds of \<open>time.Duration\<close>.
\<close>

type_synonym time = int
type_synonym duration = int

definition time_sub :: "time \<Rightarrow> time \<Rightarrow> duration" where
  "time_sub a b = clamp64 (a - b)"

lemma time_sub_pos_iff [simp]: "0 < time_sub a b \<longleftrightarrow> b < a"
  by (auto simp: time_sub_def clamp64_def)

lemma int64_time_sub [simp]: "int64 (time_sub a b)"
  by (simp add: time_sub_def)

abbreviation go_hour :: duration where
  "go_hour \<equiv> 3600000000000"

section \<open>Strings\<close>

definition is_space :: "char \<Rightarrow> bool" where
  [go_defs]: "is_space c \<longleftrightarrow> c = CHR '' '' \<or> (9 \<le> (of_char c :: nat) \<and> (of_char c :: nat) \<le> 13)"

definition trim_space :: "string \<Rightarrow> string" where
  [go_defs]: "trim_space s = rev (dropWhile is_space (rev (dropWhile is_space s)))"

definition lower_char :: "char \<Rightarrow> char" where
  [go_defs]: "lower_char c =
     (if 65 \<le> (of_char c :: nat) \<and> (of_char c :: nat) \<le> 90
      then char_of ((of_char c :: nat) + 32) else c)"

definition to_lower :: "string \<Rightarrow> string" where
  [go_defs]: "to_lower s = map lower_char s"

definition equal_fold :: "string \<Rightarrow> string \<Rightarrow> bool" where
  [go_defs]: "equal_fold a b \<longleftrightarrow> to_lower a = to_lower b"

lemma lower_char_idem [simp]: "lower_char (lower_char c) = lower_char c"
  by (auto simp: lower_char_def)

lemma to_lower_idem [simp]: "to_lower (to_lower s) = to_lower s"
  by (simp add: to_lower_def)

lemma equal_fold_refl [simp]: "equal_fold s s"
  by (simp add: equal_fold_def)

lemma equal_fold_sym: "equal_fold a b \<Longrightarrow> equal_fold b a"
  by (simp add: equal_fold_def)

lemma equal_fold_trans: "equal_fold a b \<Longrightarrow> equal_fold b c \<Longrightarrow> equal_fold a c"
  by (simp add: equal_fold_def)

lemma equal_fold_to_lower [simp]:
  "equal_fold (to_lower a) b = equal_fold a b" "equal_fold a (to_lower b) = equal_fold a b"
  by (simp_all add: equal_fold_def)

lemma dropWhile_idem [simp]: "dropWhile P (dropWhile P xs) = dropWhile P xs"
  by (induction xs) auto

lemma dropWhile_rev_keeps_head:
  assumes "dropWhile P xs = xs"
  shows "dropWhile P (rev (dropWhile P (rev xs))) = rev (dropWhile P (rev xs))"
proof (cases xs)
  case Nil
  then show ?thesis by simp
next
  case (Cons x ys)
  with assms have "\<not> P x"
    by (metis dropWhile.simps(2) impossible_Cons length_dropWhile_le list.sel(1) order_refl)
  then show ?thesis
    by (simp add: Cons dropWhile_append)
qed

lemma trim_space_idem [simp]: "trim_space (trim_space s) = trim_space s"
  by (simp add: trim_space_def dropWhile_rev_keeps_head)

text \<open>\<open>strings.LastIndex\<close> for a one-byte pattern; \<open>None\<close> stands for \<open>-1\<close>.\<close>

fun last_index_of :: "char \<Rightarrow> string \<Rightarrow> nat option" where
  "last_index_of c [] = None"
| "last_index_of c (x # xs) =
     (case last_index_of c xs of
        Some i \<Rightarrow> Some (Suc i)
      | None \<Rightarrow> if x = c then Some 0 else None)"

lemma last_index_of_None_iff: "last_index_of c s = None \<longleftrightarrow> c \<notin> set s"
  by (induction s) (auto split: option.splits)

lemma last_index_of_split:
  "last_index_of c s = Some i \<Longrightarrow>
     i < length s \<and> s = take i s @ c # drop (Suc i) s \<and> c \<notin> set (drop (Suc i) s)"
proof (induction s arbitrary: i)
  case Nil
  then show ?case by simp
next
  case (Cons x xs)
  show ?case
  proof (cases "last_index_of c xs")
    case None
    with Cons.prems show ?thesis
      by (auto simp: last_index_of_None_iff split: if_splits)
  next
    case (Some j)
    with Cons.prems Cons.IH [of j] show ?thesis by auto
  qed
qed

lemma last_index_of_append:
  "c \<notin> set ys \<Longrightarrow> last_index_of c (xs @ c # ys) = Some (length xs)"
  by (induction xs) (simp_all add: last_index_of_None_iff [THEN iffD2])

section \<open>strconv\<close>

definition is_digit :: "char \<Rightarrow> bool" where
  [go_defs]: "is_digit c \<longleftrightarrow> 48 \<le> (of_char c :: nat) \<and> (of_char c :: nat) \<le> 57"

fun digits_value :: "int \<Rightarrow> string \<Rightarrow> int option" where
  "digits_value acc [] = Some acc"
| "digits_value acc (c # cs) =
     (if is_digit c then digits_value (10 * acc + (of_char c - 48)) cs else None)"

text \<open>
  \<open>strconv.Atoi\<close> and \<open>strconv.ParseInt(s, 10, 64)\<close>: an optional sign, at least one decimal
  digit, and a value of 64 bits; a syntax error and a range error are both \<open>None\<close>.
\<close>

definition parse_int :: "string \<Rightarrow> int option" where
  [go_defs]: "parse_int s =
     (let (neg, ds) =
        (case s of
           [] \<Rightarrow> (False, [])
         | c # cs \<Rightarrow> if c = CHR ''-'' then (True, cs)
                     else if c = CHR ''+'' then (False, cs) else (False, s))
      in if ds = [] then None
         else case digits_value 0 ds of
                None \<Rightarrow> None
              | Some v \<Rightarrow> (let w = (if neg then - v else v)
                           in if int64 w then Some w else None))"

lemma parse_int_int64: "parse_int s = Some v \<Longrightarrow> int64 v"
  by (auto simp: parse_int_def Let_def split: list.splits if_splits option.splits)

text \<open>\<open>strconv.Itoa\<close> and \<open>strconv.FormatInt(n, 10)\<close>.\<close>

definition digit_char :: "nat \<Rightarrow> char" where
  [go_defs]: "digit_char d = char_of (48 + d)"

fun format_nat :: "nat \<Rightarrow> string" where
  "format_nat n = (if n < 10 then [digit_char n] else format_nat (n div 10) @ [digit_char (n mod 10)])"

declare format_nat.simps [simp del]

definition format_int :: "int \<Rightarrow> string" where
  [go_defs]: "format_int i = (if i < 0 then CHR ''-'' # format_nat (nat (- i)) else format_nat (nat i))"

lemma digit_char_value:
  assumes "d < 10"
  shows "is_digit (digit_char d)" "of_char (digit_char d) = (48 + int d)" "\<not> is_space (digit_char d)"
proof -
  have v: "(of_char (digit_char d) :: nat) = 48 + d" using assms by (simp add: digit_char_def)
  then show "is_digit (digit_char d)" using assms by (simp add: is_digit_def)
  have "(of_char (digit_char d) :: int) = int (of_char (digit_char d))" by (rule of_nat_of_char [symmetric])
  with v show "of_char (digit_char d) = (48 + int d)" by simp
  show "\<not> is_space (digit_char d)" using v assms by (auto simp: is_space_def)
qed

lemma digits_value_append:
  "digits_value acc (xs @ ys) =
     (case digits_value acc xs of None \<Rightarrow> None | Some v \<Rightarrow> digits_value v ys)"
  by (induction xs arbitrary: acc) auto

lemma format_nat_digits:
  "format_nat n \<noteq> [] \<and> (\<forall>c\<in>set (format_nat n). is_digit c) \<and> digits_value 0 (format_nat n) = Some (int n)"
proof (induction n rule: format_nat.induct)
  case (1 n)
  show ?case
  proof (cases "n < 10")
    case True
    then show ?thesis by (simp add: format_nat.simps [of n] digit_char_value)
  next
    case False
    have "10 * int (n div 10) + int (n mod 10) = int n" by presburger
    with "1.IH" [OF False] False show ?thesis
      by (subst (1 2 3) format_nat.simps) (simp add: digit_char_value digits_value_append)
  qed
qed

lemma digit_not_sign: "is_digit c \<Longrightarrow> c \<noteq> CHR ''-'' \<and> c \<noteq> CHR ''+'' \<and> \<not> is_space c"
  by (auto simp: is_digit_def is_space_def)

lemma parse_format_int [simp]: "int64 i \<Longrightarrow> parse_int (format_int i) = Some i"
proof (cases "i < 0")
  case True
  assume "int64 i"
  with True format_nat_digits [of "nat (- i)"] show ?thesis by (simp add: parse_int_def format_int_def)
next
  case False
  assume i: "int64 i"
  obtain c cs where c: "format_nat (nat i) = c # cs" "is_digit c"
    using format_nat_digits [of "nat i"] by (cases "format_nat (nat i)") auto
  with digit_not_sign [OF c(2)] False i format_nat_digits [of "nat i"] show ?thesis
    by (simp add: parse_int_def format_int_def)
qed

lemma trim_space_id:
  assumes "\<forall>c\<in>set s. \<not> is_space c"
  shows "trim_space s = s"
proof -
  have d: "dropWhile is_space xs = xs" if "\<forall>c\<in>set xs. \<not> is_space c" for xs
    using that by (cases xs) auto
  show ?thesis using assms by (simp add: trim_space_def d)
qed

lemma trim_format_int [simp]: "trim_space (format_int i) = format_int i" "format_int i \<noteq> []"
proof -
  have "\<forall>c\<in>set (format_int i). \<not> is_space c"
    using format_nat_digits digit_not_sign by (auto simp: format_int_def is_space_def)
  then show "trim_space (format_int i) = format_int i" by (rule trim_space_id)
  show "format_int i \<noteq> []" using format_nat_digits by (auto simp: format_int_def)
qed

definition parse_bool :: "string \<Rightarrow> bool option" where
  [go_defs]: "parse_bool s =
     (if s \<in> {''1'', ''t'', ''T'', ''TRUE'', ''true'', ''True''} then Some True
      else if s \<in> {''0'', ''f'', ''F'', ''FALSE'', ''false'', ''False''} then Some False
      else None)"

section \<open>Maps as association lists\<close>

text \<open>
  Reading a missing key of a Go map gives the zero value of the element type:
  \<open>get_or z m k\<close>. Writing and deleting are \<open>AList.update\<close> and \<open>AList.delete\<close>.
\<close>

definition get_or :: "'v \<Rightarrow> ('k \<times> 'v) list \<Rightarrow> 'k \<Rightarrow> 'v" where
  [go_defs]: "get_or z m k = (case map_of m k of Some v \<Rightarrow> v | None \<Rightarrow> z)"

abbreviation wf_map :: "('k \<times> 'v) list \<Rightarrow> bool" where
  "wf_map m \<equiv> distinct (map fst m)"

lemma map_of_update [simp]: "map_of (AList.update k v m) = (map_of m)(k \<mapsto> v)"
  by (rule update_conv')

lemma map_of_delete [simp]: "map_of (AList.delete k m) = (map_of m)(k := None)"
  by (simp add: delete_conv')

lemma wf_map_update [simp]: "wf_map m \<Longrightarrow> wf_map (AList.update k v m)"
  by (rule distinct_update)

lemma wf_map_delete [simp]: "wf_map m \<Longrightarrow> wf_map (AList.delete k m)"
  by (rule distinct_delete)

lemma get_or_update [simp]:
  "get_or z (AList.update k v m) k' = (if k' = k then v else get_or z m k')"
  by (simp add: get_or_def)

lemma set_delete_fst: "(k', v) \<in> set (AList.delete k m) \<longleftrightarrow> k' \<noteq> k \<and> (k', v) \<in> set m"
  by (auto simp: AList.delete_eq)

section \<open>Sorting and searching\<close>

text \<open>
  \<open>sort.Search(n, f)\<close>, the standard library's binary search for the least index where \<open>f\<close>
  holds.
\<close>

function search_loop :: "(nat \<Rightarrow> bool) \<Rightarrow> nat \<Rightarrow> nat \<Rightarrow> nat" where
  "search_loop f i j =
     (if i < j then (let h = (i + j) div 2
                     in if \<not> f h then search_loop f (Suc h) j else search_loop f i h)
      else i)"
  by pat_completeness auto
termination
  by (relation "measure (\<lambda>(f, i, j). j - i)") auto

declare search_loop.simps [simp del]

definition sort_search :: "nat \<Rightarrow> (nat \<Rightarrow> bool) \<Rightarrow> nat" where
  "sort_search n f = search_loop f 0 n"

lemma search_loop_correct:
  assumes "\<And>a b. a \<le> b \<Longrightarrow> b < n \<Longrightarrow> f a \<Longrightarrow> f b"
    and "i \<le> j" "j \<le> n" "\<forall>k<i. \<not> f k" "\<forall>k. j \<le> k \<and> k < n \<longrightarrow> f k"
  shows "search_loop f i j \<le> n \<and> (\<forall>k<search_loop f i j. \<not> f k) \<and>
         (\<forall>k. search_loop f i j \<le> k \<and> k < n \<longrightarrow> f k)"
  using assms
proof (induction f i j rule: search_loop.induct)
  case (1 f i j)
  show ?case
  proof (cases "i < j")
    case False
    then have "search_loop f i j = i" by (simp add: search_loop.simps [of f i j])
    with False "1.prems"(2-5) show ?thesis by simp
  next
    case True
    define h where "h = (i + j) div 2"
    have h: "i \<le> h" "h < j" using True by (simp_all add: h_def)
    show ?thesis
    proof (cases "f h")
      case False
      have below: "\<forall>k<Suc h. \<not> f k"
      proof (intro allI impI notI)
        fix k assume "k < Suc h" "f k"
        with "1.prems"(1) [of k h] h "1.prems"(3) have "f h" by auto
        with False show False by simp
      qed
      have "search_loop f i j = search_loop f (Suc h) j"
        using True False by (subst search_loop.simps) (simp add: h_def)
      with "1.IH"(1) [OF True h_def False "1.prems"(1)] h below "1.prems" show ?thesis by simp
    next
      case True': True
      have above: "\<forall>k. h \<le> k \<and> k < n \<longrightarrow> f k"
        using "1.prems"(1) [of h] True' by blast
      have "search_loop f i j = search_loop f i h"
        using True True' by (subst search_loop.simps) (simp add: h_def)
      with "1.IH"(2) [OF True h_def _ "1.prems"(1)] h above True' "1.prems" show ?thesis by simp
    qed
  qed
qed

lemma sort_search_correct:
  assumes "\<And>a b. a \<le> b \<Longrightarrow> b < n \<Longrightarrow> f a \<Longrightarrow> f b"
  shows "sort_search n f \<le> n" "k < sort_search n f \<Longrightarrow> \<not> f k"
    "sort_search n f \<le> k \<Longrightarrow> k < n \<Longrightarrow> f k"
proof -
  have "search_loop f 0 n \<le> n \<and> (\<forall>k<search_loop f 0 n. \<not> f k) \<and>
        (\<forall>k. search_loop f 0 n \<le> k \<and> k < n \<longrightarrow> f k)"
    by (rule search_loop_correct) (use assms in auto)
  then show "sort_search n f \<le> n" "k < sort_search n f \<Longrightarrow> \<not> f k"
    "sort_search n f \<le> k \<Longrightarrow> k < n \<Longrightarrow> f k"
    by (auto simp: sort_search_def)
qed

text \<open>
  On a list with strictly increasing keys, searching for the first key above \<open>x\<close> splits the
  list into the keys up to \<open>x\<close> and the keys above it.
\<close>

lemma sort_search_split:
  fixes x :: "'k :: linorder"
  assumes "sorted_wrt (<) (map key xs)"
  defines "n \<equiv> sort_search (length xs) (\<lambda>i. x < key (xs ! i))"
  shows "n \<le> length xs" "\<forall>y \<in> set (take n xs). key y \<le> x" "\<forall>y \<in> set (drop n xs). x < key y"
proof -
  have mono: "x < key (xs ! b)" if "a \<le> b" "b < length xs" "x < key (xs ! a)" for a b
  proof (cases "a = b")
    case False
    with that assms(1) have "key (xs ! a) < key (xs ! b)"
      by (auto simp: sorted_wrt_iff_nth_less)
    with that show ?thesis by simp
  qed (use that in simp)
  note s = sort_search_correct [of "length xs" "\<lambda>i. x < key (xs ! i)", OF mono, folded n_def]
  show le: "n \<le> length xs" by (rule s(1))
  show "\<forall>y \<in> set (take n xs). key y \<le> x"
    using s(2) le by (auto simp: in_set_conv_nth not_less)
  show "\<forall>y \<in> set (drop n xs). x < key y"
    using s(3) by (auto simp: in_set_conv_nth)
qed

section \<open>State machines\<close>

text \<open>
  A component whose operations interleave is a step relation; what holds at the start and is
  kept by every step holds in every reachable state, and what every step keeps from some state on
  holds for the rest of the run.
\<close>

locale transition_system =
  fixes start :: 's and step :: "'s \<Rightarrow> 's \<Rightarrow> bool" and inv :: "'s \<Rightarrow> bool"
  assumes inv_start: "inv start"
    and inv_step: "inv s \<Longrightarrow> step s s' \<Longrightarrow> inv s'"
begin

lemma inv_run: "step\<^sup>*\<^sup>* s s' \<Longrightarrow> inv s \<Longrightarrow> inv s'"
  by (induction rule: rtranclp_induct) (simp_all add: inv_step)

lemma inv_reachable: "step\<^sup>*\<^sup>* start s \<Longrightarrow> inv s"
  by (rule inv_run [OF _ inv_start])

lemma stable_run:
  assumes "step\<^sup>*\<^sup>* s s'" "inv s" "P s" "\<And>a b. inv a \<Longrightarrow> P a \<Longrightarrow> step a b \<Longrightarrow> P b"
  shows "P s'"
proof -
  have "inv s' \<and> P s'"
    using assms(1-3) by (induction rule: rtranclp_induct) (auto intro: inv_step assms(4))
  then show ?thesis ..
qed

text \<open>If every state short of the goal can step closer to it, the goal can be reached.\<close>

lemma progress_run:
  fixes rank :: "'s \<Rightarrow> nat"
  assumes "inv s" "P s"
    and "\<And>a. inv a \<Longrightarrow> P a \<Longrightarrow> \<not> goal a \<Longrightarrow> \<exists>b. step a b \<and> P b \<and> rank b < rank a"
  shows "\<exists>s'. step\<^sup>*\<^sup>* s s' \<and> P s' \<and> goal s'"
  using assms(1,2)
proof (induction "rank s" arbitrary: s rule: less_induct)
  case less
  show ?case
  proof (cases "goal s")
    case True
    with less.prems show ?thesis by blast
  next
    case False
    with assms(3) less.prems obtain b where b: "step s b" "P b" "rank b < rank s" by blast
    with less.hyps inv_step less.prems obtain s' where "step\<^sup>*\<^sup>* b s'" "P s'" "goal s'" by metis
    with b(1) show ?thesis by (meson converse_rtranclp_into_rtranclp)
  qed
qed

end

end
