(* ===== verification/Thinking.thy ===== *)
theory Thinking
  imports Proxy_Prelude
begin

text \<open>
  The thinking configuration of a request (\<open>internal/thinking\<close>): the model-name suffix
  (\<open>suffix.go\<close>), the conversions between token budgets and effort levels (\<open>convert.go\<close>),
  the validation of a configuration against what a model supports (\<open>validate.go\<close>), and the
  registry of provider appliers (the first part of \<open>apply.go\<close>). Logging is left out. An
  error keeps its code and the values its message is formatted from.
\<close>

section \<open>Data (types.go, errors.go, ThinkingSupport and ModelInfo of the registry)\<close>

datatype ThinkingMode = ModeBudget | ModeLevel | ModeNone | ModeAuto

fun ThinkingMode_String :: "ThinkingMode \<Rightarrow> string" where
  "ThinkingMode_String ModeBudget = ''budget''"
| "ThinkingMode_String ModeLevel = ''level''"
| "ThinkingMode_String ModeNone = ''none''"
| "ThinkingMode_String ModeAuto = ''auto''"

type_synonym ThinkingLevel = string

abbreviation LevelNone :: ThinkingLevel where "LevelNone \<equiv> ''none''"
abbreviation LevelAuto :: ThinkingLevel where "LevelAuto \<equiv> ''auto''"
abbreviation LevelMinimal :: ThinkingLevel where "LevelMinimal \<equiv> ''minimal''"
abbreviation LevelLow :: ThinkingLevel where "LevelLow \<equiv> ''low''"
abbreviation LevelMedium :: ThinkingLevel where "LevelMedium \<equiv> ''medium''"
abbreviation LevelHigh :: ThinkingLevel where "LevelHigh \<equiv> ''high''"
abbreviation LevelXHigh :: ThinkingLevel where "LevelXHigh \<equiv> ''xhigh''"
abbreviation LevelMax :: ThinkingLevel where "LevelMax \<equiv> ''max''"

record ThinkingConfig =
  Mode :: ThinkingMode
  Budget :: int
  Level :: ThinkingLevel

record SuffixResult =
  ModelName :: string
  HasSuffix :: bool
  RawSuffix :: string

record ThinkingSupport =
  Min_budget :: int
  Max_budget :: int
  ZeroAllowed :: bool
  DynamicAllowed :: bool
  Levels :: "string list"

text \<open>The fields of \<open>registry.ModelInfo\<close> that the thinking code reads.\<close>

record ThinkingModelInfo =
  info_ID :: string
  info_Type :: string
  info_UserDefined :: bool
  info_Thinking :: "ThinkingSupport option"

datatype ThinkingError =
    ErrUnknownLevel string
  | ErrUnknownBudget int
  | ErrThinkingNotSupported string
  | ErrLevelNotSupported string "string list"
  | ErrBudgetOutOfRange int int int

definition zero_config :: ThinkingConfig where
  "zero_config = \<lparr>Mode = ModeBudget, Budget = 0, Level = ''''\<rparr>"

section \<open>Suffix parsing (suffix.go)\<close>

definition ParseSuffix :: "string \<Rightarrow> SuffixResult" where
  "ParseSuffix model =
     (case last_index_of CHR ''('' model of
        None \<Rightarrow> \<lparr>ModelName = model, HasSuffix = False, RawSuffix = ''''\<rparr>
      | Some lastOpen \<Rightarrow>
          if model = [] \<or> last model \<noteq> CHR '')''
          then \<lparr>ModelName = model, HasSuffix = False, RawSuffix = ''''\<rparr>
          else \<lparr>ModelName = take lastOpen model, HasSuffix = True,
                RawSuffix = drop (Suc lastOpen) (butlast model)\<rparr>)"

definition ParseNumericSuffix :: "string \<Rightarrow> int option" where
  "ParseNumericSuffix raw =
     (if raw = '''' then None
      else case parse_int raw of
             None \<Rightarrow> None
           | Some value \<Rightarrow> if value < 0 then None else Some value)"

definition ParseSpecialSuffix :: "string \<Rightarrow> ThinkingMode option" where
  "ParseSpecialSuffix raw =
     (if raw = '''' then None
      else let s = to_lower raw
           in if s = ''none'' then Some ModeNone
              else if s = ''auto'' \<or> s = ''-1'' then Some ModeAuto
              else None)"

definition ParseLevelSuffix :: "string \<Rightarrow> ThinkingLevel option" where
  "ParseLevelSuffix raw =
     (if raw = '''' then None
      else let s = to_lower raw
           in if s = ''minimal'' then Some LevelMinimal
              else if s = ''low'' then Some LevelLow
              else if s = ''medium'' then Some LevelMedium
              else if s = ''high'' then Some LevelHigh
              else if s = ''xhigh'' then Some LevelXHigh
              else if s = ''max'' then Some LevelMax
              else None)"

definition parseSuffixToConfig :: "string \<Rightarrow> ThinkingConfig" where
  "parseSuffixToConfig raw =
     (case ParseSpecialSuffix raw of
        Some ModeNone \<Rightarrow> \<lparr>Mode = ModeNone, Budget = 0, Level = ''''\<rparr>
      | Some ModeAuto \<Rightarrow> \<lparr>Mode = ModeAuto, Budget = -1, Level = ''''\<rparr>
      | _ \<Rightarrow>
          (case ParseLevelSuffix raw of
             Some level \<Rightarrow> \<lparr>Mode = ModeLevel, Budget = 0, Level = level\<rparr>
           | None \<Rightarrow>
               (case ParseNumericSuffix raw of
                  Some budget \<Rightarrow>
                    if budget = 0 then \<lparr>Mode = ModeNone, Budget = 0, Level = ''''\<rparr>
                    else \<lparr>Mode = ModeBudget, Budget = budget, Level = ''''\<rparr>
                | None \<Rightarrow> zero_config)))"

definition hasThinkingConfig :: "ThinkingConfig \<Rightarrow> bool" where
  "hasThinkingConfig config \<longleftrightarrow>
     Mode config \<noteq> ModeBudget \<or> Budget config \<noteq> 0 \<or> Level config \<noteq> ''''"

definition HasThinkingSuffix :: "string \<Rightarrow> bool" where
  "HasThinkingSuffix model \<longleftrightarrow>
     (let result = ParseSuffix model
      in HasSuffix result \<and> hasThinkingConfig (parseSuffixToConfig (RawSuffix result)))"

section \<open>Conversions (convert.go)\<close>

definition levelToBudgetMap :: "(string \<times> int) list" where
  "levelToBudgetMap =
     [(''none'', 0), (''auto'', -1), (''minimal'', 512), (''low'', 1024), (''medium'', 8192),
      (''high'', 24576), (''xhigh'', 32768), (''max'', 128000)]"

definition ConvertLevelToBudget :: "string \<Rightarrow> int option" where
  "ConvertLevelToBudget level = map_of levelToBudgetMap (to_lower level)"

definition ConvertBudgetToLevel :: "int \<Rightarrow> string option" where
  "ConvertBudgetToLevel budget =
     (if budget < -1 then None
      else if budget = -1 then Some LevelAuto
      else if budget = 0 then Some LevelNone
      else if budget \<le> 512 then Some LevelMinimal
      else if budget \<le> 1024 then Some LevelLow
      else if budget \<le> 8192 then Some LevelMedium
      else if budget \<le> 24576 then Some LevelHigh
      else Some LevelXHigh)"

definition HasLevel :: "string list \<Rightarrow> string \<Rightarrow> bool" where
  "HasLevel levels target \<longleftrightarrow> list_ex (\<lambda>level. equal_fold (trim_space level) target) levels"

definition MapToClaudeEffort :: "string \<Rightarrow> bool \<Rightarrow> string option" where
  "MapToClaudeEffort level0 supportsMax =
     (let level = to_lower (trim_space level0)
      in if level = '''' then None
         else if level = ''minimal'' then Some ''low''
         else if level = ''low'' \<or> level = ''medium'' \<or> level = ''high'' then Some level
         else if level = ''xhigh'' \<or> level = ''max''
              then (if supportsMax then Some ''max'' else Some ''high'')
         else if level = ''auto'' then Some ''high''
         else None)"

datatype ModelCapability =
    CapabilityUnknown | CapabilityNone | CapabilityBudgetOnly | CapabilityLevelOnly
  | CapabilityHybrid

definition detectModelCapability :: "ThinkingModelInfo option \<Rightarrow> ModelCapability" where
  "detectModelCapability modelInfo =
     (case modelInfo of
        None \<Rightarrow> CapabilityUnknown
      | Some mi \<Rightarrow>
          (case info_Thinking mi of
             None \<Rightarrow> CapabilityNone
           | Some support \<Rightarrow>
               (let hasBudget = (Min_budget support > 0 \<or> Max_budget support > 0);
                    hasLevels = (Levels support \<noteq> [])
                in if hasBudget \<and> hasLevels then CapabilityHybrid
                   else if hasBudget then CapabilityBudgetOnly
                   else if hasLevels then CapabilityLevelOnly
                   else CapabilityNone)))"

definition reasoningEffortFromConfig :: "ThinkingConfig \<Rightarrow> string" where
  "reasoningEffortFromConfig config =
     (if \<not> hasThinkingConfig config then ''''
      else case Mode config of
             ModeNone \<Rightarrow> LevelNone
           | ModeAuto \<Rightarrow> LevelAuto
           | ModeLevel \<Rightarrow> to_lower (trim_space (Level config))
           | ModeBudget \<Rightarrow>
               (case ConvertBudgetToLevel (Budget config) of None \<Rightarrow> '''' | Some level \<Rightarrow> level))"

definition reasoningEffortFromSuffix :: "SuffixResult \<Rightarrow> string" where
  "reasoningEffortFromSuffix suffix =
     (if \<not> HasSuffix suffix then ''''
      else reasoningEffortFromConfig (parseSuffixToConfig (RawSuffix suffix)))"

section \<open>Validation (validate.go)\<close>

definition isBudgetCapableProvider :: "string \<Rightarrow> bool" where
  "isBudgetCapableProvider provider \<longleftrightarrow> provider \<in> {''gemini'', ''antigravity'', ''claude''}"

definition isGeminiFamily :: "string \<Rightarrow> bool" where
  "isGeminiFamily provider \<longleftrightarrow> provider \<in> {''gemini'', ''antigravity''}"

definition isOpenAIFamily :: "string \<Rightarrow> bool" where
  "isOpenAIFamily provider \<longleftrightarrow> provider \<in> {''openai'', ''openai-response'', ''codex''}"

definition isSameProviderFamily :: "string \<Rightarrow> string \<Rightarrow> bool" where
  "isSameProviderFamily from to \<longleftrightarrow>
     from = to \<or> (isGeminiFamily from \<and> isGeminiFamily to) \<or>
     (isOpenAIFamily from \<and> isOpenAIFamily to)"

definition standardLevelOrder :: "ThinkingLevel list" where
  "standardLevelOrder = [LevelMinimal, LevelLow, LevelMedium, LevelHigh, LevelXHigh, LevelMax]"

definition isLevelSupported :: "string \<Rightarrow> string list \<Rightarrow> bool" where
  "isLevelSupported level supported \<longleftrightarrow>
     list_ex (\<lambda>s. equal_fold level (trim_space s)) supported"

fun level_index_from :: "int \<Rightarrow> string \<Rightarrow> ThinkingLevel list \<Rightarrow> int" where
  "level_index_from i level [] = -1"
| "level_index_from i level (l # ls) =
     (if equal_fold level l then i else level_index_from (i + 1) level ls)"

definition levelIndex :: "string \<Rightarrow> int" where
  "levelIndex level = level_index_from 0 level standardLevelOrder"

definition normalizeLevels :: "string list \<Rightarrow> string list" where
  "normalizeLevels levels = map (\<lambda>l. to_lower (trim_space l)) levels"

fun lowest_index :: "int \<Rightarrow> string list \<Rightarrow> int" where
  "lowest_index bestIdx [] = bestIdx"
| "lowest_index bestIdx (s # ss) =
     (let idx = levelIndex (trim_space s)
      in if idx \<noteq> -1 \<and> (bestIdx = -1 \<or> idx < bestIdx) then lowest_index idx ss
         else lowest_index bestIdx ss)"

definition lowestSupportedLevel :: "string list \<Rightarrow> ThinkingLevel option" where
  "lowestSupportedLevel supported =
     (let bestIdx = lowest_index (-1) supported
      in if bestIdx \<ge> 0 then Some (standardLevelOrder ! nat bestIdx) else None)"

text \<open>The loop of \<open>clampLevel\<close>: the best index so far and its distance from \<open>pos\<close>.\<close>

fun nearest_index :: "int \<Rightarrow> int \<Rightarrow> int \<Rightarrow> string list \<Rightarrow> int" where
  "nearest_index pos bestIdx bestDist [] = bestIdx"
| "nearest_index pos bestIdx bestDist (s # ss) =
     (let idx = levelIndex (trim_space s); dist = \<bar>pos - idx\<bar>
      in if idx \<noteq> -1 \<and> (dist < bestDist \<or> (dist = bestDist \<and> idx < bestIdx))
         then nearest_index pos idx dist ss
         else nearest_index pos bestIdx bestDist ss)"

definition clampLevel :: "ThinkingLevel \<Rightarrow> ThinkingModelInfo option \<Rightarrow> ThinkingLevel" where
  "clampLevel level modelInfo =
     (let supported = (case modelInfo of
                         None \<Rightarrow> []
                       | Some mi \<Rightarrow> (case info_Thinking mi of None \<Rightarrow> [] | Some t \<Rightarrow> Levels t))
      in if supported = [] \<or> isLevelSupported level supported then level
         else let pos = levelIndex level
              in if pos = -1 then level
                 else let bestIdx =
                        nearest_index pos (-1) (int (length standardLevelOrder) + 1) supported
                      in if bestIdx \<ge> 0 then standardLevelOrder ! nat bestIdx else level)"

definition clampBudget :: "int \<Rightarrow> ThinkingModelInfo option \<Rightarrow> int" where
  "clampBudget value modelInfo =
     (case (case modelInfo of None \<Rightarrow> None | Some mi \<Rightarrow> info_Thinking mi) of
        None \<Rightarrow> value
      | Some support \<Rightarrow>
          (if value = -1 then value
           else let mn = Min_budget support; mx = Max_budget support
                in if value = 0 \<and> \<not> ZeroAllowed support then mn
                   else if mn = 0 \<and> mx = 0 then value
                   else if value < mn
                        then (if value = 0 \<and> ZeroAllowed support then 0 else mn)
                   else if value > mx then mx
                   else value))"

definition convertAutoToMidRange :: "ThinkingConfig \<Rightarrow> ThinkingSupport \<Rightarrow> ThinkingConfig" where
  "convertAutoToMidRange config support =
     (if Levels support \<noteq> [] \<and> Min_budget support = 0 \<and> Max_budget support = 0
      then config\<lparr>Mode := ModeLevel, Level := LevelMedium, Budget := 0\<rparr>
      else let mid = go_div (wrap64 (Min_budget support + Max_budget support)) 2
           in if mid \<le> 0 \<and> ZeroAllowed support then config\<lparr>Mode := ModeNone, Budget := 0\<rparr>
              else if mid \<le> 0 then config\<lparr>Mode := ModeBudget, Budget := Min_budget support\<rparr>
              else config\<lparr>Mode := ModeBudget, Budget := mid\<rparr>)"

text \<open>
  \<open>ValidateConfig\<close> in its steps: the family checks, the switch on the capability (which also
  says whether a budget came from a level), the special values, the level check, the strict
  range check, the fallback for automatic thinking and the final clamping.
\<close>

definition modelFamilyMismatch :: "ThinkingModelInfo \<Rightarrow> string \<Rightarrow> string \<Rightarrow> bool" where
  "modelFamilyMismatch mi fromFormat toFormat \<longleftrightarrow>
     (let modelType = to_lower (trim_space (info_Type mi))
      in modelType \<noteq> '''' \<and>
         ((fromFormat \<noteq> '''' \<and> \<not> isSameProviderFamily fromFormat modelType) \<or>
          (toFormat \<noteq> '''' \<and> \<not> isSameProviderFamily toFormat modelType)))"

definition convertForCapability ::
    "ThinkingConfig \<Rightarrow> ThinkingModelInfo \<Rightarrow> ThinkingError + (ThinkingConfig \<times> bool)" where
  "convertForCapability config mi =
     (case detectModelCapability (Some mi) of
        CapabilityBudgetOnly \<Rightarrow>
          (if Mode config = ModeLevel then
             (if Level config = LevelAuto then Inr (config, False)
              else case ConvertLevelToBudget (Level config) of
                     None \<Rightarrow> Inl (ErrUnknownLevel (Level config))
                   | Some budget \<Rightarrow>
                       Inr (config\<lparr>Mode := ModeBudget, Budget := budget, Level := ''''\<rparr>, True))
           else Inr (config, False))
      | CapabilityLevelOnly \<Rightarrow>
          (if Mode config = ModeBudget then
             (case ConvertBudgetToLevel (Budget config) of
                None \<Rightarrow> Inl (ErrUnknownBudget (Budget config))
              | Some level \<Rightarrow>
                  Inr (config\<lparr>Mode := ModeLevel, Level := clampLevel level (Some mi),
                              Budget := 0\<rparr>, False))
           else Inr (config, False))
      | _ \<Rightarrow> Inr (config, False))"

definition normalizeSpecial :: "ThinkingConfig \<Rightarrow> ThinkingConfig" where
  "normalizeSpecial config0 =
     (let config1 = (if Mode config0 = ModeLevel \<and> Level config0 = LevelNone
                     then config0\<lparr>Mode := ModeNone, Budget := 0, Level := ''''\<rparr> else config0);
          config2 = (if Mode config1 = ModeLevel \<and> Level config1 = LevelAuto
                     then config1\<lparr>Mode := ModeAuto, Budget := -1, Level := ''''\<rparr> else config1)
      in if Mode config2 = ModeBudget \<and> Budget config2 = 0
         then config2\<lparr>Mode := ModeNone, Level := ''''\<rparr> else config2)"

definition checkLevel ::
    "ThinkingConfig \<Rightarrow> ThinkingModelInfo \<Rightarrow> ThinkingSupport \<Rightarrow> bool \<Rightarrow> ThinkingError + ThinkingConfig"
  where
  "checkLevel config mi support allowClampUnsupported =
     (if Levels support \<noteq> [] \<and> Mode config = ModeLevel \<and>
         \<not> isLevelSupported (Level config) (Levels support)
      then let config' = (if allowClampUnsupported
                          then config\<lparr>Level := clampLevel (Level config) (Some mi)\<rparr> else config)
           in if \<not> isLevelSupported (Level config') (Levels support)
              then Inl (ErrLevelNotSupported (to_lower (Level config'))
                          (normalizeLevels (Levels support)))
              else Inr config'
      else Inr config)"

definition budgetOutOfRange :: "ThinkingConfig \<Rightarrow> ThinkingSupport \<Rightarrow> bool" where
  "budgetOutOfRange config support \<longleftrightarrow>
     (Min_budget support \<noteq> 0 \<or> Max_budget support \<noteq> 0) \<and>
     (Budget config < Min_budget support \<or> Budget config > Max_budget support \<or>
      (Budget config = 0 \<and> \<not> ZeroAllowed support))"

definition autoFallback ::
    "ThinkingConfig \<Rightarrow> ThinkingModelInfo \<Rightarrow> ThinkingSupport \<Rightarrow> ThinkingConfig" where
  "autoFallback config mi support =
     (if Mode config = ModeAuto \<and> \<not> DynamicAllowed support
      then let config' = convertAutoToMidRange config support
           in if Mode config' = ModeLevel \<and> Levels support \<noteq> [] \<and>
                 \<not> isLevelSupported (Level config') (Levels support)
              then config'\<lparr>Level := clampLevel (Level config') (Some mi)\<rparr>
              else config'
      else config)"

definition finalClamp ::
    "ThinkingConfig \<Rightarrow> ThinkingModelInfo \<Rightarrow> ThinkingSupport \<Rightarrow> string \<Rightarrow> ThinkingConfig" where
  "finalClamp config mi support toFormat =
     (if Mode config = ModeNone \<and> toFormat = ''claude'' then
        (if \<not> ZeroAllowed support then
           (case lowestSupportedLevel (Levels support) of
              Some lowest \<Rightarrow> config\<lparr>Mode := ModeLevel, Budget := 0, Level := lowest\<rparr>
            | None \<Rightarrow> config\<lparr>Budget := 0, Level := ''''\<rparr>)
         else config\<lparr>Budget := 0, Level := ''''\<rparr>)
      else
        let config' = (if Mode config \<in> {ModeBudget, ModeAuto, ModeNone}
                       then config\<lparr>Budget := clampBudget (Budget config) (Some mi)\<rparr>
                       else config);
            cannotDisableLevelModel =
              (\<not> ZeroAllowed support \<and> \<not> isLevelSupported LevelNone (Levels support))
        in if Mode config' = ModeNone \<and> Levels support \<noteq> [] \<and>
              (Budget config' > 0 \<or> cannotDisableLevelModel)
           then (case lowestSupportedLevel (Levels support) of
                   Some lowest \<Rightarrow> config'\<lparr>Level := lowest\<rparr>
                 | None \<Rightarrow> config')
           else config')"

definition ValidateConfig ::
    "ThinkingConfig \<Rightarrow> ThinkingModelInfo option \<Rightarrow> string \<Rightarrow> string \<Rightarrow> bool
     \<Rightarrow> ThinkingError + ThinkingConfig" where
  "ValidateConfig config modelInfo fromFormat0 toFormat0 fromSuffix =
     (let fromFormat = to_lower (trim_space fromFormat0);
          toFormat = to_lower (trim_space toFormat0);
          model = (case modelInfo of
                     None \<Rightarrow> ''unknown''
                   | Some mi \<Rightarrow> if info_ID mi \<noteq> '''' then info_ID mi else ''unknown'')
      in case modelInfo of
           None \<Rightarrow> (if Mode config \<noteq> ModeNone then Inl (ErrThinkingNotSupported model)
                    else Inr config)
         | Some mi \<Rightarrow>
             (case info_Thinking mi of
                None \<Rightarrow> (if Mode config \<noteq> ModeNone then Inl (ErrThinkingNotSupported model)
                         else Inr config)
              | Some support \<Rightarrow>
                  (let capability = detectModelCapability modelInfo;
                       toHasLevelSupport =
                         (capability = CapabilityLevelOnly \<or> capability = CapabilityHybrid);
                       mismatch = modelFamilyMismatch mi fromFormat toFormat;
                       allowClampUnsupported =
                         (toHasLevelSupport \<and>
                          (\<not> isSameProviderFamily fromFormat toFormat \<or> mismatch));
                       strictBudget =
                         (\<not> fromSuffix \<and> fromFormat \<noteq> '''' \<and>
                          isSameProviderFamily fromFormat toFormat \<and> \<not> mismatch)
                   in case convertForCapability config mi of
                        Inl e \<Rightarrow> Inl e
                      | Inr (config1, budgetDerivedFromLevel) \<Rightarrow>
                          (case checkLevel (normalizeSpecial config1) mi support
                                  allowClampUnsupported of
                             Inl e \<Rightarrow> Inl e
                           | Inr config2 \<Rightarrow>
                               if strictBudget \<and> Mode config2 = ModeBudget \<and>
                                  \<not> budgetDerivedFromLevel \<and> budgetOutOfRange config2 support
                               then Inl (ErrBudgetOutOfRange (Budget config2)
                                           (Min_budget support) (Max_budget support))
                               else Inr (finalClamp (autoFallback config2 mi support) mi support
                                           toFormat)))))"

definition normalizeUserDefinedConfig :: "ThinkingConfig \<Rightarrow> string \<Rightarrow> ThinkingConfig" where
  "normalizeUserDefinedConfig config toFormat =
     (if Mode config \<noteq> ModeLevel then config
      else if toFormat = ''claude'' then config
      else if \<not> isBudgetCapableProvider toFormat then config
      else case ConvertLevelToBudget (Level config) of
             None \<Rightarrow> config
           | Some budget \<Rightarrow> config\<lparr>Mode := ModeBudget, Budget := budget, Level := ''''\<rparr>)"

definition mapConfiguredHighIntent :: "ThinkingLevel \<Rightarrow> ThinkingModelInfo option \<Rightarrow> ThinkingLevel"
  where
  "mapConfiguredHighIntent level0 modelInfo =
     (case (case modelInfo of None \<Rightarrow> None | Some mi \<Rightarrow> info_Thinking mi) of
        None \<Rightarrow> level0
      | Some t \<Rightarrow>
          (if Levels t = [] then level0
           else let level = to_lower (trim_space level0)
                in if level = LevelXHigh \<or> level = LevelMax
                   then (case List.find (\<lambda>c. isLevelSupported c (Levels t))
                                (if level = LevelXHigh then [LevelXHigh, LevelMax, LevelHigh]
                                 else [LevelMax, LevelXHigh, LevelHigh]) of
                           Some c \<Rightarrow> c
                         | None \<Rightarrow> level)
                   else level))"

definition shouldMapConfiguredHighIntent :: "string \<Rightarrow> string \<Rightarrow> ThinkingModelInfo option \<Rightarrow> bool"
  where
  "shouldMapConfiguredHighIntent fromFormat0 toFormat0 modelInfo \<longleftrightarrow>
     (let fromFormat = to_lower (trim_space fromFormat0);
          toFormat = to_lower (trim_space toFormat0)
      in fromFormat \<noteq> toFormat \<or>
         (case modelInfo of
            None \<Rightarrow> False
          | Some mi \<Rightarrow>
              (let modelType = to_lower (trim_space (info_Type mi))
               in modelType \<noteq> '''' \<and> \<not> isSameProviderFamily toFormat modelType)))"

section \<open>The applier registry (apply.go)\<close>

text \<open>
  Native appliers are registered by the program, plugin appliers by plugins; an applier is any
  value of type \<open>'a\<close>. A plugin applier that is nil is never registered.
\<close>

record 'a pluginProviderApplier =
  pp_owner :: string
  pp_priority :: int
  pp_applier :: 'a

record 'a applierRegistry =
  nativeProviderAppliers :: "(string \<times> 'a) list"
  pluginProviderAppliers :: "(string \<times> 'a pluginProviderApplier) list"

definition normalizedProviderName :: "string \<Rightarrow> string" where
  "normalizedProviderName provider = to_lower (trim_space provider)"

definition GetProviderApplier :: "'a applierRegistry \<Rightarrow> string \<Rightarrow> 'a option" where
  "GetProviderApplier r provider0 =
     (let provider = normalizedProviderName provider0
      in if provider = '''' then None
         else case map_of (nativeProviderAppliers r) provider of
                Some a \<Rightarrow> Some a
              | None \<Rightarrow> map_option pp_applier (map_of (pluginProviderAppliers r) provider))"

definition RegisterProvider :: "'a applierRegistry \<Rightarrow> string \<Rightarrow> 'a \<Rightarrow> 'a applierRegistry" where
  "RegisterProvider r name0 applier =
     (let name = normalizedProviderName name0
      in if name = '''' then r
         else r\<lparr>nativeProviderAppliers := AList.update name applier (nativeProviderAppliers r)\<rparr>)"

definition RegisterPluginProvider ::
    "'a applierRegistry \<Rightarrow> string \<Rightarrow> string \<Rightarrow> int \<Rightarrow> 'a option \<Rightarrow> 'a applierRegistry \<times> bool" where
  "RegisterPluginProvider r owner0 name0 priority applier =
     (let owner = trim_space owner0; name = normalizedProviderName name0
      in case applier of
           None \<Rightarrow> (r, False)
         | Some a \<Rightarrow>
             (if owner = '''' \<or> name = '''' then (r, False)
              else if map_of (nativeProviderAppliers r) name \<noteq> None then (r, False)
              else case map_of (pluginProviderAppliers r) name of
                     Some current \<Rightarrow>
                       (if pp_priority current > priority \<or>
                           (pp_priority current = priority \<and> pp_owner current \<le> owner)
                        then (r, False)
                        else (r\<lparr>pluginProviderAppliers := AList.update name
                                 \<lparr>pp_owner = owner, pp_priority = priority, pp_applier = a\<rparr>
                                 (pluginProviderAppliers r)\<rparr>, True))
                   | None \<Rightarrow>
                       (r\<lparr>pluginProviderAppliers := AList.update name
                          \<lparr>pp_owner = owner, pp_priority = priority, pp_applier = a\<rparr>
                          (pluginProviderAppliers r)\<rparr>, True)))"

definition UnregisterPluginProviders :: "'a applierRegistry \<Rightarrow> string \<Rightarrow> 'a applierRegistry" where
  "UnregisterPluginProviders r owner0 =
     (let owner = trim_space owner0
      in if owner = '''' then r
         else r\<lparr>pluginProviderAppliers :=
                  filter (\<lambda>(_, rec). pp_owner rec \<noteq> owner) (pluginProviderAppliers r)\<rparr>)"

definition ClearPluginProviders :: "'a applierRegistry \<Rightarrow> 'a applierRegistry" where
  "ClearPluginProviders r = r\<lparr>pluginProviderAppliers := []\<rparr>"

section \<open>Suffixes: parsing inverts writing\<close>

lemma ParseSuffix_written:
  assumes "CHR ''('' \<notin> set v"
  shows "ParseSuffix (m @ ''('' @ v @ '')'') = \<lparr>ModelName = m, HasSuffix = True, RawSuffix = v\<rparr>"
proof -
  have "last_index_of CHR ''('' (m @ CHR ''('' # (v @ '')'')) = Some (length m)"
    by (rule last_index_of_append) (use assms in auto)
  then show ?thesis by (simp add: ParseSuffix_def butlast_append)
qed

lemma ParseSuffix_found:
  assumes "HasSuffix (ParseSuffix s)"
  shows "s = ModelName (ParseSuffix s) @ ''('' @ RawSuffix (ParseSuffix s) @ '')''"
    and "CHR ''('' \<notin> set (RawSuffix (ParseSuffix s))"
proof -
  from assms obtain i where i: "last_index_of CHR ''('' s = Some i" and l: "s \<noteq> []" "last s = CHR '')''"
    by (auto simp: ParseSuffix_def split: option.splits if_splits)
  have p: "ParseSuffix s = \<lparr>ModelName = take i s, HasSuffix = True, RawSuffix = drop (Suc i) (butlast s)\<rparr>"
    using i l by (simp add: ParseSuffix_def)
  note sp = last_index_of_split [OF i]
  define t where "t = drop (Suc i) s"
  have st: "s = take i s @ CHR ''('' # t" and nt: "CHR ''('' \<notin> set t" "i < length s"
    using sp by (simp_all add: t_def)
  have "t \<noteq> []"
  proof
    assume "t = []"
    with st have "last s = CHR ''(''" by (metis last_snoc)
    with l show False by simp
  qed
  then obtain v where v: "t = v @ '')''"
    using l(2) st by (metis append_butlast_last_id last_ConsR last_appendR list.distinct(1))
  have "butlast s = take i s @ CHR ''('' # v"
    using arg_cong [OF st, of butlast] v by (simp add: butlast_append)
  then have "drop (Suc i) (butlast s) = v" using nt(2) by simp
  with p v st nt(1) show "s = ModelName (ParseSuffix s) @ ''('' @ RawSuffix (ParseSuffix s) @ '')''"
    and "CHR ''('' \<notin> set (RawSuffix (ParseSuffix s))" by simp_all
qed

lemma ParseSuffix_none: "\<not> HasSuffix (ParseSuffix s) \<Longrightarrow> ModelName (ParseSuffix s) = s \<and> RawSuffix (ParseSuffix s) = ''''"
  by (auto simp: ParseSuffix_def split: option.splits if_splits)

section \<open>Levels and budgets\<close>

lemma levelIndex_cases:
  "levelIndex s =
     (if equal_fold s ''minimal'' then 0 else if equal_fold s ''low'' then 1
      else if equal_fold s ''medium'' then 2 else if equal_fold s ''high'' then 3
      else if equal_fold s ''xhigh'' then 4 else if equal_fold s ''max'' then 5 else -1)"
  by (simp add: levelIndex_def standardLevelOrder_def)

lemma levelIndex_range: "levelIndex s = -1 \<or> (0 \<le> levelIndex s \<and> levelIndex s \<le> 5)"
  by (simp add: levelIndex_cases)

lemma standardLevelOrder_levelIndex:
  "0 \<le> levelIndex s \<Longrightarrow> equal_fold s (standardLevelOrder ! nat (levelIndex s))"
  by (auto simp: levelIndex_cases standardLevelOrder_def split: if_splits)

lemma length_standardLevelOrder [simp]: "length standardLevelOrder = 6"
  by (simp add: standardLevelOrder_def)

lemma levelIndex_standard:
  assumes "0 \<le> i" "i \<le> 5"
  shows "levelIndex (standardLevelOrder ! nat i) = i"
proof -
  from assms have "i \<in> {0, 1, 2, 3, 4, 5}" by auto
  then show ?thesis
    by (elim insertE) (simp_all add: levelIndex_cases standardLevelOrder_def go_defs)
qed

lemma isLevelSupported_standard:
  assumes "s \<in> set supported" "0 \<le> levelIndex (trim_space s)"
  shows "isLevelSupported (standardLevelOrder ! nat (levelIndex (trim_space s))) supported"
  using assms standardLevelOrder_levelIndex [of "trim_space s"]
  by (auto simp: isLevelSupported_def list_ex_iff intro: equal_fold_sym)

text \<open>What the two index loops compute: an index of the list, and the best one.\<close>

lemma lowest_index_spec:
  assumes "bestIdx = -1 \<or> 0 \<le> bestIdx"
  shows "(lowest_index bestIdx ss = bestIdx \<or>
           (\<exists>s \<in> set ss. lowest_index bestIdx ss = levelIndex (trim_space s) \<and>
              0 \<le> levelIndex (trim_space s))) \<and>
         (\<forall>s \<in> set ss. levelIndex (trim_space s) \<noteq> -1 \<longrightarrow>
           0 \<le> lowest_index bestIdx ss \<and> lowest_index bestIdx ss \<le> levelIndex (trim_space s)) \<and>
         (0 \<le> bestIdx \<longrightarrow> 0 \<le> lowest_index bestIdx ss \<and> lowest_index bestIdx ss \<le> bestIdx)"
  using assms
proof (induction ss arbitrary: bestIdx)
  case Nil
  then show ?case by simp
next
  case (Cons s ss)
  define idx where "idx = levelIndex (trim_space s)"
  have r: "idx = -1 \<or> 0 \<le> idx" using levelIndex_range [of "trim_space s"] by (auto simp: idx_def)
  show ?case
  proof (cases "idx \<noteq> -1 \<and> (bestIdx = -1 \<or> idx < bestIdx)")
    case True
    then have "lowest_index bestIdx (s # ss) = lowest_index idx ss" by (simp add: Let_def idx_def)
    with Cons.IH [OF r] True r show ?thesis by (auto simp: idx_def)
  next
    case False
    then have eq: "lowest_index bestIdx (s # ss) = lowest_index bestIdx ss"
      by (auto simp: Let_def idx_def)
    from False Cons.prems have "idx = -1 \<or> 0 \<le> bestIdx \<and> bestIdx \<le> idx" by auto
    with Cons.IH [OF Cons.prems] show ?thesis unfolding eq by (auto simp: idx_def)
  qed
qed

lemma lowestSupportedLevel_Some:
  assumes "lowestSupportedLevel supported = Some l"
  shows "isLevelSupported l supported" and "l \<in> set standardLevelOrder"
proof -
  have i: "0 \<le> lowest_index (-1) supported" "l = standardLevelOrder ! nat (lowest_index (-1) supported)"
    using assms by (auto simp: lowestSupportedLevel_def Let_def split: if_splits)
  then obtain s where s: "s \<in> set supported" "lowest_index (-1) supported = levelIndex (trim_space s)"
    using lowest_index_spec [of "-1" supported] by auto
  show "isLevelSupported l supported"
    using isLevelSupported_standard [OF s(1)] i s(2) by simp
  show "l \<in> set standardLevelOrder"
    using i s(2) levelIndex_range [of "trim_space s"]
    by (auto simp: length_standardLevelOrder intro!: nth_mem)
qed

lemma lowestSupportedLevel_None_iff:
  "lowestSupportedLevel supported = None \<longleftrightarrow> (\<forall>s \<in> set supported. levelIndex (trim_space s) = -1)"
proof (cases "0 \<le> lowest_index (-1) supported")
  case True
  then show ?thesis
    using lowest_index_spec [of "-1" supported] by (fastforce simp: lowestSupportedLevel_def)
next
  case False
  then show ?thesis
    using lowest_index_spec [of "-1" supported] by (auto simp: lowestSupportedLevel_def)
qed

text \<open>The order in which \<open>clampLevel\<close> prefers one index to another, seen from \<open>pos\<close>.\<close>

definition nearer :: "int \<Rightarrow> int \<Rightarrow> int \<Rightarrow> bool" where
  "nearer pos i j \<longleftrightarrow> \<bar>pos - i\<bar> < \<bar>pos - j\<bar> \<or> (\<bar>pos - i\<bar> = \<bar>pos - j\<bar> \<and> i \<le> j)"

lemma nearer_refl [simp]: "nearer pos i i"
  by (simp add: nearer_def)

lemma nearer_trans: "nearer pos i j \<Longrightarrow> nearer pos j k \<Longrightarrow> nearer pos i k"
  by (auto simp: nearer_def)

lemma nearest_index_spec:
  assumes "0 \<le> pos" "pos \<le> 5"
    and "(bestIdx = -1 \<and> bestDist = 7) \<or> (0 \<le> bestIdx \<and> bestDist = \<bar>pos - bestIdx\<bar>)"
  shows "(nearest_index pos bestIdx bestDist ss = bestIdx \<or>
           (\<exists>s \<in> set ss. nearest_index pos bestIdx bestDist ss = levelIndex (trim_space s) \<and>
              0 \<le> levelIndex (trim_space s))) \<and>
         (\<forall>s \<in> set ss. levelIndex (trim_space s) \<noteq> -1 \<longrightarrow>
            0 \<le> nearest_index pos bestIdx bestDist ss \<and>
            nearer pos (nearest_index pos bestIdx bestDist ss) (levelIndex (trim_space s))) \<and>
         (0 \<le> bestIdx \<longrightarrow> 0 \<le> nearest_index pos bestIdx bestDist ss \<and>
            nearer pos (nearest_index pos bestIdx bestDist ss) bestIdx)"
  using assms(3)
proof (induction ss arbitrary: bestIdx bestDist)
  case Nil
  then show ?case by simp
next
  case (Cons s ss)
  define idx where "idx = levelIndex (trim_space s)"
  define dist where "dist = \<bar>pos - idx\<bar>"
  have r: "idx = -1 \<or> (0 \<le> idx \<and> idx \<le> 5)"
    using levelIndex_range [of "trim_space s"] by (simp add: idx_def)
  show ?case
  proof (cases "idx \<noteq> -1 \<and> (dist < bestDist \<or> (dist = bestDist \<and> idx < bestIdx))")
    case True
    then have eq: "nearest_index pos bestIdx bestDist (s # ss) = nearest_index pos idx dist ss"
      by (simp add: Let_def idx_def dist_def)
    have idx: "0 \<le> idx" using True r by auto
    have "0 \<le> bestIdx \<longrightarrow> nearer pos idx bestIdx"
      using True Cons.prems by (auto simp: nearer_def dist_def)
    with Cons.IH [of idx dist] idx show ?thesis unfolding eq
      by (auto simp: dist_def idx_def intro: nearer_trans)
  next
    case False
    then have eq: "nearest_index pos bestIdx bestDist (s # ss) = nearest_index pos bestIdx bestDist ss"
      by (auto simp: Let_def idx_def dist_def)
    have "idx = -1 \<or> (0 \<le> bestIdx \<and> nearer pos bestIdx idx)"
      using False r Cons.prems assms(1,2) by (auto simp: nearer_def dist_def)
    with Cons.IH [OF Cons.prems] show ?thesis unfolding eq
      by (auto simp: idx_def intro: nearer_trans)
  qed
qed

lemma clampLevel_supported_id:
  "info_Thinking mi = Some t \<Longrightarrow> isLevelSupported level (Levels t) \<Longrightarrow> clampLevel level (Some mi) = level"
  by (simp add: clampLevel_def)

lemma clampLevel_nearest_aux:
  assumes t: "info_Thinking mi = Some t" and l: "levelIndex level \<noteq> -1"
    and s: "s \<in> set (Levels t)" "levelIndex (trim_space s) \<noteq> -1"
  shows "isLevelSupported (clampLevel level (Some mi)) (Levels t) \<and>
         nearer (levelIndex level) (levelIndex (clampLevel level (Some mi))) (levelIndex (trim_space s))"
proof (cases "isLevelSupported level (Levels t)")
  case True
  with t show ?thesis by (auto simp: clampLevel_supported_id nearer_def)
next
  case False
  define pos where "pos = levelIndex level"
  define r where "r = nearest_index pos (-1) 7 (Levels t)"
  have pos: "0 \<le> pos" "pos \<le> 5" using levelIndex_range [of level] l by (auto simp: pos_def)
  note spec = nearest_index_spec [OF pos, of "-1" 7 "Levels t", folded r_def]
  have r0: "0 \<le> r" "nearer pos r (levelIndex (trim_space s))" using spec s by auto
  then obtain s' where s': "s' \<in> set (Levels t)" "r = levelIndex (trim_space s')"
    using spec by auto
  have "r \<le> 5" using s'(2) levelIndex_range [of "trim_space s'"] by auto
  have "clampLevel level (Some mi) = standardLevelOrder ! nat r"
    using False t l s r0 by (auto simp: clampLevel_def Let_def r_def pos_def)
  then show ?thesis
    using isLevelSupported_standard [OF s'(1)] s' r0 \<open>r \<le> 5\<close> levelIndex_standard [of r]
    by (simp add: pos_def)
qed

lemma clampLevel_isLevelSupported:
  assumes "info_Thinking mi = Some t" "lowestSupportedLevel (Levels t) \<noteq> None" "levelIndex level \<noteq> -1"
  shows "isLevelSupported (clampLevel level (Some mi)) (Levels t)"
  using clampLevel_nearest_aux [OF assms(1,3)] assms(2) by (auto simp: lowestSupportedLevel_None_iff)

lemma clampBudget_range:
  assumes "info_Thinking mi = Some t" "Min_budget t \<le> Max_budget t"
    "Min_budget t \<noteq> 0 \<or> Max_budget t \<noteq> 0"
  shows "clampBudget b (Some mi) = -1 \<or>
         (Min_budget t \<le> clampBudget b (Some mi) \<and> clampBudget b (Some mi) \<le> Max_budget t) \<or>
         (clampBudget b (Some mi) = 0 \<and> b = 0 \<and> ZeroAllowed t)"
  using assms by (auto simp: clampBudget_def Let_def)

lemma clampBudget_inside:
  assumes "info_Thinking mi = Some t" "Min_budget t \<le> b" "b \<le> Max_budget t" "b \<noteq> 0"
  shows "clampBudget b (Some mi) = b"
  using assms by (auto simp: clampBudget_def Let_def)

section \<open>What a validated configuration satisfies\<close>

text \<open>A successful validation, step by step.\<close>

lemma ValidateConfig_InrE:
  assumes "ValidateConfig c (Some mi) from to sfx = Inr c'" "info_Thinking mi = Some t"
  obtains c1 derived c2 allow where
    "convertForCapability c mi = Inr (c1, derived)"
    "checkLevel (normalizeSpecial c1) mi t allow = Inr c2"
    "c' = finalClamp (autoFallback c2 mi t) mi t (to_lower (trim_space to))"
  using assms
  by (auto simp: ValidateConfig_def Let_def split: sum.splits prod.splits if_splits)

lemma checkLevel_Inr:
  assumes "checkLevel c mi t allow = Inr c'"
  shows "Mode c' = Mode c" "Budget c' = Budget c"
    "Mode c' = ModeLevel \<Longrightarrow> Levels t \<noteq> [] \<Longrightarrow> isLevelSupported (Level c') (Levels t)"
  using assms by (auto simp: checkLevel_def Let_def split: if_splits)

lemma autoFallback_Level:
  assumes t: "info_Thinking mi = Some t" and low: "lowestSupportedLevel (Levels t) \<noteq> None"
    and c: "Mode c = ModeLevel \<Longrightarrow> isLevelSupported (Level c) (Levels t)"
    and m: "Mode (autoFallback c mi t) = ModeLevel"
  shows "isLevelSupported (Level (autoFallback c mi t)) (Levels t)"
proof -
  have "levelIndex LevelMedium \<noteq> -1" by (simp add: levelIndex_cases)
  then show ?thesis
    using clampLevel_isLevelSupported [OF t low] c m low
    by (auto simp: autoFallback_def convertAutoToMidRange_def Let_def
        lowestSupportedLevel_None_iff split: if_splits)
qed

lemma autoFallback_not_Auto: "\<not> DynamicAllowed t \<Longrightarrow> Mode (autoFallback c mi t) \<noteq> ModeAuto"
  by (simp add: autoFallback_def convertAutoToMidRange_def Let_def)

lemma finalClamp_Mode:
  "Mode (finalClamp c mi t to) = Mode c \<or>
   (Mode c = ModeNone \<and> Mode (finalClamp c mi t to) = ModeLevel \<and>
    lowestSupportedLevel (Levels t) = Some (Level (finalClamp c mi t to)))"
  by (auto simp: finalClamp_def Let_def split: option.splits)

lemma finalClamp_Level:
  "Mode c = ModeLevel \<Longrightarrow> finalClamp c mi t to = c"
  by (simp add: finalClamp_def)

lemma finalClamp_Budget:
  "Mode c = ModeBudget \<Longrightarrow> finalClamp c mi t to = c\<lparr>Budget := clampBudget (Budget c) (Some mi)\<rparr>"
  by (simp add: finalClamp_def)

lemma validated_level_supported:
  assumes v: "ValidateConfig c (Some mi) from to sfx = Inr c'" and t: "info_Thinking mi = Some t"
    and low: "lowestSupportedLevel (Levels t) \<noteq> None" and m: "Mode c' = ModeLevel"
  shows "isLevelSupported (Level c') (Levels t)"
proof -
  obtain c1 d c2 allow where c2: "checkLevel (normalizeSpecial c1) mi t allow = Inr c2"
    and c': "c' = finalClamp (autoFallback c2 mi t) mi t (to_lower (trim_space to))"
    using v t by (rule ValidateConfig_InrE)
  define c3 where "c3 = autoFallback c2 mi t"
  have lv: "Levels t \<noteq> []" using low by (auto simp: lowestSupportedLevel_None_iff)
  have c3: "Mode c3 = ModeLevel \<Longrightarrow> isLevelSupported (Level c3) (Levels t)"
    unfolding c3_def using autoFallback_Level [OF t low] checkLevel_Inr(3) [OF c2 _ lv] by blast
  show ?thesis
    using finalClamp_Mode [of c3 mi t "to_lower (trim_space to)"] c3 finalClamp_Level [of c3] m
      lowestSupportedLevel_Some(1)
    unfolding c' c3_def [symmetric] by metis
qed

lemma validated_auto_dynamic:
  assumes v: "ValidateConfig c (Some mi) from to sfx = Inr c'" and t: "info_Thinking mi = Some t"
    and m: "Mode c' = ModeAuto"
  shows "DynamicAllowed t"
proof (rule ccontr)
  assume nd: "\<not> DynamicAllowed t"
  obtain c1 d c2 allow where
    c': "c' = finalClamp (autoFallback c2 mi t) mi t (to_lower (trim_space to))"
    using v t by (rule ValidateConfig_InrE)
  show False
    using finalClamp_Mode [of "autoFallback c2 mi t" mi t "to_lower (trim_space to)"] m
      autoFallback_not_Auto [OF nd, of c2 mi]
    unfolding c' by auto
qed

lemma validated_budget_in_range:
  assumes v: "ValidateConfig c (Some mi) from to sfx = Inr c'" and t: "info_Thinking mi = Some t"
    and r: "Min_budget t \<le> Max_budget t" "Min_budget t \<noteq> 0 \<or> Max_budget t \<noteq> 0"
    and m: "Mode c' = ModeBudget"
  shows "Budget c' = -1 \<or> (Min_budget t \<le> Budget c' \<and> Budget c' \<le> Max_budget t)"
proof -
  obtain c1 d c2 allow where c2: "checkLevel (normalizeSpecial c1) mi t allow = Inr c2"
    and c': "c' = finalClamp (autoFallback c2 mi t) mi t (to_lower (trim_space to))"
    using v t by (rule ValidateConfig_InrE)
  define c3 where "c3 = autoFallback c2 mi t"
  have m3: "Mode c3 = ModeBudget"
    using finalClamp_Mode [of c3 mi t "to_lower (trim_space to)"] m by (simp add: c' c3_def)
  have b: "Budget c' = clampBudget (Budget c3) (Some mi)"
    using finalClamp_Budget [OF m3] by (simp add: c' c3_def)
  have n: "Mode (normalizeSpecial c1) = ModeBudget \<Longrightarrow> Budget (normalizeSpecial c1) \<noteq> 0"
    by (auto simp: normalizeSpecial_def Let_def split: if_splits)
  have "Budget c3 \<noteq> 0 \<or> \<not> ZeroAllowed t \<or> Min_budget t \<le> 0 \<and> 0 \<le> Max_budget t"
    using m3 n checkLevel_Inr(1,2) [OF c2]
    by (auto simp: c3_def autoFallback_def convertAutoToMidRange_def Let_def split: if_splits)
  with clampBudget_range [OF t r, of "Budget c3"] show ?thesis
    unfolding b by auto
qed

text \<open>
  The strict path: a numeric budget sent in the body, between formats of one family, to a model
  that takes budgets is passed on as it is or refused.
\<close>

lemma validated_strict_budget:
  assumes t: "info_Thinking mi = Some t"
    and cap: "detectModelCapability (Some mi) \<in> {CapabilityBudgetOnly, CapabilityHybrid}"
    and m: "Mode c = ModeBudget" "Budget c \<noteq> 0"
    and fam: "to_lower (trim_space from) \<noteq> ''''"
      "isSameProviderFamily (to_lower (trim_space from)) (to_lower (trim_space to))"
      "\<not> modelFamilyMismatch mi (to_lower (trim_space from)) (to_lower (trim_space to))"
  shows "ValidateConfig c (Some mi) from to False =
           (if Min_budget t \<le> Budget c \<and> Budget c \<le> Max_budget t then Inr c
            else Inl (ErrBudgetOutOfRange (Budget c) (Min_budget t) (Max_budget t)))"
proof -
  have conv: "convertForCapability c mi = Inr (c, False)"
    using cap m by (auto simp: convertForCapability_def)
  have norm: "normalizeSpecial c = c" using m by (simp add: normalizeSpecial_def)
  have lvl: "checkLevel c mi t allow = Inr c" for allow using m by (simp add: checkLevel_def)
  have auto: "autoFallback c mi t = c" using m by (simp add: autoFallback_def)
  have nz: "Min_budget t \<noteq> 0 \<or> Max_budget t \<noteq> 0"
    using cap t by (auto simp: detectModelCapability_def Let_def split: if_splits)
  have fin: "finalClamp c mi t f = c" if "Min_budget t \<le> Budget c" "Budget c \<le> Max_budget t" for f
    using that m finalClamp_Budget [of c mi t f] clampBudget_inside [OF t, of "Budget c"] by simp
  show ?thesis
    using t m fam nz
    by (simp add: ValidateConfig_def Let_def conv norm lvl auto fin budgetOutOfRange_def)
qed

lemma ValidateConfig_claude_cannot_disable:
  assumes v: "ValidateConfig c (Some mi) from to sfx = Inr c'" and t: "info_Thinking mi = Some t"
    and z: "\<not> ZeroAllowed t" and low: "lowestSupportedLevel (Levels t) \<noteq> None"
    and to: "to_lower (trim_space to) = ''claude''"
  shows "Mode c' \<noteq> ModeNone"
proof -
  obtain c1 d c2 allow where
    c': "c' = finalClamp (autoFallback c2 mi t) mi t (to_lower (trim_space to))"
    using v t by (rule ValidateConfig_InrE)
  show ?thesis using z low unfolding c' to
    by (auto simp: finalClamp_def Let_def split: option.splits)
qed

section \<open>Arbitration between plugin appliers\<close>

text \<open>
  A registration is an owner, a priority and an applier for one provider name. A higher
  priority wins, then the smaller owner; between equals the first one stays.
\<close>

type_synonym 'a registration = "string \<times> int \<times> 'a"

definition register_all :: "string \<Rightarrow> 'a registration list \<Rightarrow> 'a applierRegistry \<Rightarrow> 'a applierRegistry" where
  "register_all name regs r =
     fold (\<lambda>(owner, priority, a) s. fst (RegisterPluginProvider s owner name priority (Some a))) regs r"

definition registration_beats :: "string \<times> int \<Rightarrow> string \<times> int \<Rightarrow> bool" where
  "registration_beats x y \<longleftrightarrow> snd x > snd y \<or> (snd x = snd y \<and> fst x < fst y)"

abbreviation registration_of :: "'a pluginProviderApplier \<Rightarrow> 'a registration" where
  "registration_of e \<equiv> (pp_owner e, pp_priority e, pp_applier e)"

lemma RegisterPluginProvider_entry:
  fixes r :: "'a applierRegistry"
  assumes "owner \<noteq> ''''" "trim_space owner = owner" "name \<noteq> ''''" "normalizedProviderName name = name"
    "map_of (nativeProviderAppliers r) name = None"
  shows "map_of (pluginProviderAppliers (fst (RegisterPluginProvider r owner name p (Some a)))) name =
           (case map_of (pluginProviderAppliers r) name of
              None \<Rightarrow> Some \<lparr>pp_owner = owner, pp_priority = p, pp_applier = a\<rparr>
            | Some e \<Rightarrow> if registration_beats (owner, p) (pp_owner e, pp_priority e)
                        then Some \<lparr>pp_owner = owner, pp_priority = p, pp_applier = a\<rparr> else Some e)"
    and "nativeProviderAppliers (fst (RegisterPluginProvider r owner name p (Some a))) =
           nativeProviderAppliers r"
  using assms
  by (auto simp: RegisterPluginProvider_def Let_def registration_beats_def split: option.splits)

lemma registration_beats_trans:
  "registration_beats x y \<Longrightarrow> registration_beats y z \<Longrightarrow> registration_beats x z"
  by (auto simp: registration_beats_def)

lemma registration_not_beats_trans:
  "\<not> registration_beats x y \<Longrightarrow> registration_beats z y \<Longrightarrow> \<not> registration_beats x z"
  by (auto simp: registration_beats_def)

lemma register_all_winner:
  fixes r :: "'a applierRegistry"
  assumes "\<forall>(owner, p, a) \<in> set regs. owner \<noteq> '''' \<and> trim_space owner = owner"
    and n: "name \<noteq> ''''" "normalizedProviderName name = name"
    and "map_of (nativeProviderAppliers r) name = None"
    and "map_of (pluginProviderAppliers r) name = Some e0"
  shows "\<exists>e. map_of (pluginProviderAppliers (register_all name regs r)) name = Some e \<and>
           registration_of e \<in> insert (registration_of e0) (set regs) \<and>
           (\<forall>(owner, p, a) \<in> insert (registration_of e0) (set regs).
              \<not> registration_beats (owner, p) (pp_owner e, pp_priority e)) \<and>
           map_of (nativeProviderAppliers (register_all name regs r)) name = None"
  using assms
proof (induction regs arbitrary: r e0)
  case Nil
  then show ?case by (simp add: register_all_def registration_beats_def)
next
  case (Cons x regs)
  obtain owner p a where x: "x = (owner, p, a)" by (cases x)
  have o: "owner \<noteq> ''''" "trim_space owner = owner" using Cons.prems(1) x by auto
  define r' where "r' = fst (RegisterPluginProvider r owner name p (Some a))"
  note ent = RegisterPluginProvider_entry [OF o n Cons.prems(4), of p a, folded r'_def]
  define e1 where "e1 = (if registration_beats (owner, p) (pp_owner e0, pp_priority e0)
    then \<lparr>pp_owner = owner, pp_priority = p, pp_applier = a\<rparr> else e0)"
  have e1: "map_of (pluginProviderAppliers r') name = Some e1"
    using ent(1) Cons.prems(5) by (simp add: e1_def)
  have all: "register_all name (x # regs) r = register_all name regs r'"
    by (simp add: register_all_def x r'_def)
  obtain e where e: "map_of (pluginProviderAppliers (register_all name regs r')) name = Some e"
      "registration_of e \<in> insert (registration_of e1) (set regs)"
      "\<forall>(owner, p, a) \<in> insert (registration_of e1) (set regs).
         \<not> registration_beats (owner, p) (pp_owner e, pp_priority e)"
      "map_of (nativeProviderAppliers (register_all name regs r')) name = None"
    using Cons.IH [of r' e1] Cons.prems n e1 ent(2) by auto
  have k1: "\<not> registration_beats (pp_owner e1, pp_priority e1) (pp_owner e, pp_priority e)"
    using e(3) by auto
  have in1: "registration_of e1 \<in> insert (registration_of e0) (set (x # regs))"
    by (auto simp: e1_def x)
  have k: "\<not> registration_beats (pp_owner e0, pp_priority e0) (pp_owner e, pp_priority e)"
    "\<not> registration_beats (owner, p) (pp_owner e, pp_priority e)"
    using k1 by (auto simp: e1_def registration_beats_def split: if_splits)
  show ?case
    unfolding all using e k in1 by (intro exI [of _ e]) (auto simp: x)
qed

lemma register_all_first_winner:
  fixes r :: "'a applierRegistry"
  assumes "\<forall>(owner, p, a) \<in> set regs. owner \<noteq> '''' \<and> trim_space owner = owner" "regs \<noteq> []"
    and n: "name \<noteq> ''''" "normalizedProviderName name = name"
    and native: "map_of (nativeProviderAppliers r) name = None"
    and plugin: "map_of (pluginProviderAppliers r) name = None"
  shows "\<exists>(owner, p, a) \<in> set regs.
           (\<forall>(owner', p', a') \<in> set regs. \<not> registration_beats (owner', p') (owner, p)) \<and>
           GetProviderApplier (register_all name regs r) name = Some a"
proof -
  obtain owner p a rest where regs: "regs = (owner, p, a) # rest"
    using assms(2) by (metis list.exhaust prod.collapse)
  have o: "owner \<noteq> ''''" "trim_space owner = owner" using assms(1) regs by auto
  define r' where "r' = fst (RegisterPluginProvider r owner name p (Some a))"
  note ent = RegisterPluginProvider_entry [OF o n native, of p a, folded r'_def]
  define e0 where "e0 = \<lparr>pp_owner = owner, pp_priority = p, pp_applier = a\<rparr>"
  have "map_of (pluginProviderAppliers r') name = Some e0" "map_of (nativeProviderAppliers r') name = None"
    using ent plugin native by (simp_all add: e0_def)
  then obtain e where e: "map_of (pluginProviderAppliers (register_all name rest r')) name = Some e"
      "registration_of e \<in> insert (registration_of e0) (set rest)"
      "\<forall>(owner, p, a) \<in> insert (registration_of e0) (set rest).
         \<not> registration_beats (owner, p) (pp_owner e, pp_priority e)"
      "map_of (nativeProviderAppliers (register_all name rest r')) name = None"
    using register_all_winner [of rest name r' e0] assms(1) n by (auto simp: regs)
  have "register_all name regs r = register_all name rest r'"
    by (simp add: register_all_def regs r'_def)
  moreover have "insert (registration_of e0) (set rest) = set regs" by (simp add: e0_def regs)
  ultimately show ?thesis
    using e n by (intro bexI [of _ "registration_of e"]) (auto simp: GetProviderApplier_def)
qed

lemma registration_winner_unique:
  assumes "x \<in> S" "y \<in> S" "\<forall>z \<in> S. \<not> registration_beats z x" "\<forall>z \<in> S. \<not> registration_beats z y"
  shows "x = y"
proof -
  have "\<not> registration_beats x y" "\<not> registration_beats y x" using assms by blast+
  then show ?thesis by (cases x; cases y) (auto simp: registration_beats_def)
qed

section \<open>Properties\<close>

text \<open>
  \<open>ParseSuffix\<close> inverts the notation \<open>model(value)\<close>: it reports the suffix \<open>v\<close> of the
  model \<open>m\<close> exactly for the names that are written as \<open>m(v)\<close> with no opening parenthesis
  in \<open>v\<close>; any other name is returned whole, without a suffix.
\<close>

lemma ParseSuffix_iff:
  "(ParseSuffix s = \<lparr>ModelName = m, HasSuffix = True, RawSuffix = v\<rparr> \<longleftrightarrow>
      s = m @ ''('' @ v @ '')'' \<and> CHR ''('' \<notin> set v) \<and>
   (HasSuffix (ParseSuffix s) \<or> ParseSuffix s = \<lparr>ModelName = s, HasSuffix = False, RawSuffix = ''''\<rparr>)"
proof (intro conjI iffI)
  assume p: "ParseSuffix s = \<lparr>ModelName = m, HasSuffix = True, RawSuffix = v\<rparr>"
  then have "HasSuffix (ParseSuffix s)" by simp
  from ParseSuffix_found [OF this] p show "s = m @ ''('' @ v @ '')''" "CHR ''('' \<notin> set v" by simp_all
next
  assume "s = m @ ''('' @ v @ '')'' \<and> CHR ''('' \<notin> set v"
  then show "ParseSuffix s = \<lparr>ModelName = m, HasSuffix = True, RawSuffix = v\<rparr>"
    using ParseSuffix_written [of v m] by simp
next
  show "HasSuffix (ParseSuffix s) \<or> ParseSuffix s = \<lparr>ModelName = s, HasSuffix = False, RawSuffix = ''''\<rparr>"
    using ParseSuffix_none [of s] by (cases "ParseSuffix s") auto
qed

text \<open>
  A budget is converted to the cheapest level that covers it: for a positive budget up to
  24576 the level exists, its own budget is at least the given one, and every standard level
  (up to xhigh) whose budget covers it costs at least as much. Above 24576 the level is xhigh.
\<close>

theorem ConvertBudgetToLevel_least_cover:
  assumes "1 \<le> b"
  shows "\<exists>l lb. ConvertBudgetToLevel b = Some l \<and> ConvertLevelToBudget l = Some lb \<and>
           (b \<le> 24576 \<longrightarrow> b \<le> lb) \<and> (24576 < b \<longrightarrow> l = LevelXHigh) \<and>
           (\<forall>l' lb'. l' \<in> {LevelMinimal, LevelLow, LevelMedium, LevelHigh, LevelXHigh} \<longrightarrow>
              ConvertLevelToBudget l' = Some lb' \<longrightarrow> b \<le> lb' \<longrightarrow> lb \<le> lb')"
  using assms
  by (auto simp: ConvertBudgetToLevel_def ConvertLevelToBudget_def levelToBudgetMap_def go_defs)

theorem ConvertBudgetToLevel_least_cover_witness:
  "\<exists>l lb. ConvertBudgetToLevel 4096 = Some l \<and> ConvertLevelToBudget l = Some lb \<and>
     ((4096::int) \<le> 24576 \<longrightarrow> 4096 \<le> lb) \<and> (24576 < (4096::int) \<longrightarrow> l = LevelXHigh) \<and>
     (\<forall>l' lb'. l' \<in> {LevelMinimal, LevelLow, LevelMedium, LevelHigh, LevelXHigh} \<longrightarrow>
        ConvertLevelToBudget l' = Some lb' \<longrightarrow> 4096 \<le> lb' \<longrightarrow> lb \<le> lb')"
  by (rule ConvertBudgetToLevel_least_cover) simp

text \<open>
  \<open>clampLevel\<close> returns a level the model supports, and among the supported standard
  levels one that is nearest to the requested level, the lower one on a tie.
\<close>

theorem clampLevel_nearest:
  assumes "info_Thinking mi = Some t" "levelIndex level \<noteq> -1"
    "s \<in> set (Levels t)" "levelIndex (trim_space s) \<noteq> -1"
  shows "isLevelSupported (clampLevel level (Some mi)) (Levels t) \<and>
         (\<bar>levelIndex level - levelIndex (clampLevel level (Some mi))\<bar>
            < \<bar>levelIndex level - levelIndex (trim_space s)\<bar> \<or>
          (\<bar>levelIndex level - levelIndex (clampLevel level (Some mi))\<bar>
            = \<bar>levelIndex level - levelIndex (trim_space s)\<bar> \<and>
           levelIndex (clampLevel level (Some mi)) \<le> levelIndex (trim_space s)))"
  using clampLevel_nearest_aux [OF assms] by (simp add: nearer_def)

definition example_levels_model :: "string list \<Rightarrow> ThinkingModelInfo" where
  "example_levels_model levels = \<lparr>info_ID = ''m'', info_Type = '''', info_UserDefined = False,
     info_Thinking = Some \<lparr>Min_budget = 0, Max_budget = 0, ZeroAllowed = False,
       DynamicAllowed = False, Levels = levels\<rparr>\<rparr>"

theorem clampLevel_nearest_witness:
  "isLevelSupported (clampLevel ''medium'' (Some (example_levels_model ['' Low'', ''high''])))
     ['' Low'', ''high'']"
  using clampLevel_nearest [where mi = "example_levels_model ['' Low'', ''high'']"
      and level = "''medium''" and s = "''high''"]
  by (simp add: example_levels_model_def levelIndex_cases go_defs)


lemma ValidateConfig_example_auto:
  "ValidateConfig \<lparr>Mode = ModeAuto, Budget = -1, Level = ''''\<rparr>
     (Some (example_levels_model [''low'', ''high''])) ''openai'' ''openai'' False
   = Inr \<lparr>Mode = ModeLevel, Budget = 0, Level = ''low''\<rparr>"
  by (simp add: ValidateConfig_def Let_def convertForCapability_def detectModelCapability_def
      example_levels_model_def normalizeSpecial_def checkLevel_def autoFallback_def
      convertAutoToMidRange_def finalClamp_def isLevelSupported_def clampLevel_def
      standardLevelOrder_def levelIndex_cases go_defs)

lemma example_levels_lowest:
  "lowestSupportedLevel [''low'', ''high''] = Some ''low''"
  by (simp add: lowestSupportedLevel_def standardLevelOrder_def levelIndex_cases go_defs)


text \<open>
  Validation keeps numeric budgets in the model's range: a configuration that comes out in
  budget mode has the automatic value -1 or a budget between the model's minimum and maximum.
\<close>

lemma ValidateConfig_budget_in_range:
  assumes "ValidateConfig c (Some mi) from to sfx = Inr c'" "info_Thinking mi = Some t"
    "Min_budget t \<le> Max_budget t" "Min_budget t \<noteq> 0 \<or> Max_budget t \<noteq> 0" "Mode c' = ModeBudget"
  shows "Budget c' = -1 \<or> (Min_budget t \<le> Budget c' \<and> Budget c' \<le> Max_budget t)"
  using assms by (rule validated_budget_in_range)

definition example_budget_model :: ThinkingModelInfo where
  "example_budget_model = \<lparr>info_ID = ''m'', info_Type = ''claude'', info_UserDefined = False,
     info_Thinking = Some \<lparr>Min_budget = 1024, Max_budget = 20000, ZeroAllowed = True,
       DynamicAllowed = False, Levels = []\<rparr>\<rparr>"

lemma ValidateConfig_example_max:
  "ValidateConfig \<lparr>Mode = ModeLevel, Budget = 0, Level = ''max''\<rparr>
     (Some example_budget_model) ''openai'' ''claude'' False
   = Inr \<lparr>Mode = ModeBudget, Budget = 20000, Level = ''''\<rparr>"
  by (simp add: ValidateConfig_def Let_def convertForCapability_def detectModelCapability_def
      example_budget_model_def normalizeSpecial_def checkLevel_def autoFallback_def
      finalClamp_def clampBudget_def ConvertLevelToBudget_def levelToBudgetMap_def
      modelFamilyMismatch_def isSameProviderFamily_def isGeminiFamily_def isOpenAIFamily_def go_defs)

lemma ValidateConfig_budget_in_range_witness:
  "\<exists>c'. ValidateConfig \<lparr>Mode = ModeLevel, Budget = 0, Level = ''max''\<rparr>
     (Some example_budget_model) ''openai'' ''claude'' False = Inr c' \<and>
     (Budget c' = -1 \<or> (1024 \<le> Budget c' \<and> Budget c' \<le> 20000))"
  using ValidateConfig_example_max ValidateConfig_budget_in_range [OF ValidateConfig_example_max,
      of "\<lparr>Min_budget = 1024, Max_budget = 20000, ZeroAllowed = True, DynamicAllowed = False,
           Levels = []\<rparr>"]
  by (simp add: example_budget_model_def)



text \<open>
  Automatic thinking leaves the validation only for models that allow it, and a Claude
  request to a model that cannot be switched off never leaves it in the disabled mode.
\<close>

theorem ValidateConfig_mode_allowed:
  assumes "ValidateConfig c (Some mi) from to sfx = Inr c'" "info_Thinking mi = Some t"
  shows "(Mode c' = ModeAuto \<longrightarrow> DynamicAllowed t) \<and>
         (to_lower (trim_space to) = ''claude'' \<and> \<not> ZeroAllowed t \<and>
          lowestSupportedLevel (Levels t) \<noteq> None \<longrightarrow> Mode c' \<noteq> ModeNone)"
  using validated_auto_dynamic [OF assms] ValidateConfig_claude_cannot_disable [OF assms] by blast

lemma ValidateConfig_example_none:
  "ValidateConfig \<lparr>Mode = ModeNone, Budget = 0, Level = ''''\<rparr>
     (Some (example_levels_model [''low'', ''high''])) ''openai'' ''claude'' False
   = Inr \<lparr>Mode = ModeLevel, Budget = 0, Level = ''low''\<rparr>"
  by (simp add: ValidateConfig_def Let_def convertForCapability_def detectModelCapability_def
      example_levels_model_def normalizeSpecial_def checkLevel_def autoFallback_def
      finalClamp_def example_levels_lowest go_defs)

theorem ValidateConfig_mode_allowed_witness:
  "\<exists>c'. ValidateConfig \<lparr>Mode = ModeNone, Budget = 0, Level = ''''\<rparr>
     (Some (example_levels_model [''low'', ''high''])) ''openai'' ''claude'' False = Inr c' \<and>
     Mode c' \<noteq> ModeAuto \<and> Mode c' \<noteq> ModeNone"
  using ValidateConfig_example_none ValidateConfig_mode_allowed [OF ValidateConfig_example_none,
      of "\<lparr>Min_budget = 0, Max_budget = 0, ZeroAllowed = False, DynamicAllowed = False,
           Levels = [''low'', ''high'']\<rparr>"]
  by (simp add: example_levels_model_def example_levels_lowest go_defs)

text \<open>
  Which plugin serves a provider does not depend on the order in which plugins register:
  two orders of the same registrations, with no two of the same owner and priority, give the
  same applier.
\<close>

theorem plugin_applier_order_independent:
  fixes r :: "'a applierRegistry"
  assumes "mset regs = mset regs'" "inj_on (\<lambda>(owner, p, a). (owner, p)) (set regs)"
    "\<forall>(owner, p, a) \<in> set regs. owner \<noteq> '''' \<and> trim_space owner = owner"
    "name \<noteq> ''''" "normalizedProviderName name = name"
    "map_of (nativeProviderAppliers r) name = None" "map_of (pluginProviderAppliers r) name = None"
  shows "GetProviderApplier (register_all name regs r) name =
         GetProviderApplier (register_all name regs' r) name"
proof (cases "regs = []")
  case True
  with assms(1) show ?thesis by simp
next
  case False
  have S: "set regs' = set regs" "regs' \<noteq> []" using assms(1) False
    by (metis set_mset_mset) (use assms(1) False in auto)
  obtain o1 p1 a1 where w1: "(o1, p1, a1) \<in> set regs"
      "\<forall>(owner', p', a') \<in> set regs. \<not> registration_beats (owner', p') (o1, p1)"
      "GetProviderApplier (register_all name regs r) name = Some a1"
    using register_all_first_winner [OF assms(3) False assms(4-7)] by auto
  obtain o2 p2 a2 where w2: "(o2, p2, a2) \<in> set regs"
      "\<forall>(owner', p', a') \<in> set regs. \<not> registration_beats (owner', p') (o2, p2)"
      "GetProviderApplier (register_all name regs' r) name = Some a2"
    using register_all_first_winner [of regs' name r] assms(3-7) S by auto
  have "(o1, p1) = (o2, p2)"
    by (rule registration_winner_unique [of _ "(\<lambda>(owner, p, a). (owner, p)) ` set regs"])
      (use w1 w2 in force)+
  with assms(2) w1(1) w2(1) have "a1 = a2" by (auto simp: inj_on_def)
  with w1(3) w2(3) show ?thesis by simp
qed

theorem plugin_applier_order_independent_witness:
  "GetProviderApplier (register_all ''acme'' [(''p'', 1, 0::nat), (''q'', 2, 1)]
     \<lparr>nativeProviderAppliers = [], pluginProviderAppliers = []\<rparr>) ''acme'' =
   GetProviderApplier (register_all ''acme'' [(''q'', 2, 1), (''p'', 1, 0)]
     \<lparr>nativeProviderAppliers = [], pluginProviderAppliers = []\<rparr>) ''acme''"
  by (rule plugin_applier_order_independent)
    (auto simp: inj_on_def normalizedProviderName_def go_defs)

end
