(* ===== verification/Execution_Registry.thy ===== *)
theory Execution_Registry
  imports Proxy_Prelude
begin

text \<open>
  The registry of executions that Home dispatched (\<open>sdk/cliproxy/executionregistry\<close>): a
  dispatch is reserved, installed as a scope, bound to a resource, and ended; draining and
  closing the registry stop new work and close the resources.

  Each region that holds a mutex is one function here. A value behind a pointer lives in a
  store keyed by its id (\<open>once_done\<close> for \<open>PendingDispatch\<close>, \<open>heap\<close> for \<open>Scope\<close>), because the
  maps of the registry and the callers share it. The \<open>sync.Once\<close> of a scope is its phase:
  the step of \<open>EndWithRelease\<close> that has been reached. A channel is \<open>None\<close> when nil and
  otherwise tells whether it has been closed. The counters are unbounded: a 64-bit counter
  would have to be incremented \<open>2 ^ 63\<close> times to differ.
\<close>

section \<open>Data\<close>

datatype RegistryError =
    ErrRegistryNotAccepting | ErrRegistryClosed | ErrInvalidPendingDispatch
  | ErrInvalidExecutionResource | ErrExecutionResourceAlreadyBound

datatype RegistryState = StateAccepting | StateDraining | StateClosed

record ScopeSpec =
  spec_RequestID :: string
  spec_CredentialID :: string
  spec_Model :: string
  spec_Kind :: string
  spec_StartedAt :: time
  spec_Accounted :: bool

record ReleaseGroup =
  group_CredentialID :: string
  group_Model :: string

record ReleaseTicket =
  ticket_Group :: ReleaseGroup
  ticket_Sequence :: int
  ticket_done :: nat

type_synonym ReleaseSink = "ReleaseGroup \<Rightarrow> int \<Rightarrow> ReleaseTicket option"

text \<open>How far the body of \<open>EndWithRelease\<close> has run; a close function is a handle.\<close>

datatype EndPhase =
    NotEnded
  | MarkedInactive
  | AwaitingClose
  | Releasing "ReleaseSink option" ReleaseGroup int
  | TicketStored
  | Ended

record Scope =
  sc_spec :: ScopeSpec
  sc_closeFn :: "nat option"
  sc_closeDone :: "bool option"
  sc_releaseTicket :: "ReleaseTicket option"
  sc_active :: bool
  sc_phase :: EndPhase

record Registry =
  reg_state :: RegistryState
  reg_next :: nat
  snapshotRevision :: int
  observedBarrier :: int
  pendingBarrierSequence :: nat
  publishedBarrier :: int
  reg_pending :: "nat list"
  reg_scopes :: "nat list"
  releaseSequences :: "(ReleaseGroup \<times> int) list"
  releaseSink :: "ReleaseSink option"
  closeStarted :: bool
  closeFinished :: bool
  once_done :: "nat \<rightharpoonup> bool"
  heap :: "nat \<rightharpoonup> Scope"

section \<open>Tickets\<close>

definition NewReleaseTicket :: "ReleaseGroup \<Rightarrow> int \<Rightarrow> nat option \<Rightarrow> ReleaseTicket option" where
  "NewReleaseTicket grp sequence done_ch =
     (case done_ch of
        None \<Rightarrow> None
      | Some ch \<Rightarrow> if sequence \<le> 0 then None
                   else Some \<lparr>ticket_Group = grp, ticket_Sequence = sequence, ticket_done = ch\<rparr>)"

text \<open>
  The outcomes \<open>Wait\<close> may return at once: \<open>None\<close> is a nil error; the set is empty while it
  blocks, and has two elements when both channels of the \<open>select\<close> are ready.
\<close>

definition ReleaseTicket_Wait ::
    "ReleaseTicket option \<Rightarrow> (nat \<Rightarrow> bool) \<Rightarrow> string option \<Rightarrow> string option set" where
  "ReleaseTicket_Wait t isClosed ctxErr =
     (case t of
        None \<Rightarrow> {None}
      | Some tk \<Rightarrow> (if isClosed (ticket_done tk) then {None} else {}) \<union>
                   (case ctxErr of None \<Rightarrow> {} | Some e \<Rightarrow> {Some e}))"

section \<open>Dispatches\<close>

definition New :: Registry where
  "New = \<lparr>reg_state = StateAccepting, reg_next = 0, snapshotRevision = 0, observedBarrier = 0,
     pendingBarrierSequence = 0, publishedBarrier = 0, reg_pending = [], reg_scopes = [],
     releaseSequences = [], releaseSink = None, closeStarted = False, closeFinished = False,
     once_done = Map.empty, heap = Map.empty\<rparr>"

definition BeginDispatch :: "Registry \<Rightarrow> RegistryError + (nat \<times> Registry)" where
  "BeginDispatch r =
     (if reg_state r \<noteq> StateAccepting then Inl ErrRegistryNotAccepting
      else let i = reg_next r + 1
           in Inr (i, r\<lparr>reg_next := i, reg_pending := i # reg_pending r,
                        once_done := (once_done r)(i \<mapsto> False)\<rparr>))"

text \<open>\<open>WaitPending\<close> returns nil exactly when it sees no pending dispatch under the lock.\<close>

definition WaitPending_ready :: "Registry \<Rightarrow> bool" where
  "WaitPending_ready r \<longleftrightarrow> reg_pending r = []"

definition PendingDispatch_End :: "Registry \<Rightarrow> nat \<Rightarrow> Registry" where
  "PendingDispatch_End r i =
     (if once_done r i = Some False
      then r\<lparr>reg_pending := remove1 i (reg_pending r), once_done := (once_done r)(i \<mapsto> True)\<rparr>
      else r)"

definition Install :: "Registry \<Rightarrow> nat \<Rightarrow> ScopeSpec \<Rightarrow> (RegistryError + nat) \<times> Registry" where
  "Install r i spec =
     (if once_done r i = None then (Inl ErrInvalidPendingDispatch, r)
      else if reg_state r \<noteq> StateAccepting
      then (Inl ErrRegistryNotAccepting,
            r\<lparr>reg_pending := remove1 i (reg_pending r), once_done := (once_done r)(i \<mapsto> True)\<rparr>)
      else if i \<notin> set (reg_pending r) then (Inl ErrInvalidPendingDispatch, r)
      else (Inr i,
            r\<lparr>reg_pending := remove1 i (reg_pending r), once_done := (once_done r)(i \<mapsto> True),
              heap := (heap r)(i \<mapsto> \<lparr>sc_spec = spec, sc_closeFn = None, sc_closeDone = None,
                                   sc_releaseTicket = None, sc_active = True,
                                   sc_phase = NotEnded\<rparr>),
              reg_scopes := i # reg_scopes r\<rparr>))"

section \<open>Sinks\<close>

datatype RawSink =
    RawNil
  | RawReleaseSink "ReleaseSink option"
  | RawTicketFunc "ReleaseSink option"
  | RawLegacyFunc
  | RawOther

definition typedSink :: "RawSink \<Rightarrow> ReleaseSink option option" where
  "typedSink raw =
     (case raw of
        RawNil \<Rightarrow> Some None
      | RawReleaseSink f \<Rightarrow> Some f
      | RawTicketFunc f \<Rightarrow> Some f
      | RawLegacyFunc \<Rightarrow> Some (Some (\<lambda>_ _. None))
      | RawOther \<Rightarrow> None)"

text \<open>The new registry and the calls that replay the known groups into the sink.\<close>

definition SetReleaseSink :: "Registry \<Rightarrow> RawSink \<Rightarrow> Registry \<times> (ReleaseGroup \<times> int) list" where
  "SetReleaseSink r raw =
     (case typedSink raw of
        None \<Rightarrow> (r, [])
      | Some sink \<Rightarrow>
          (r\<lparr>releaseSink := sink\<rparr>,
           if sink = None then [] else filter (\<lambda>(_, sequence). sequence > 0) (releaseSequences r)))"

section \<open>Scopes\<close>

definition Scope_Bind :: "Registry \<Rightarrow> nat \<Rightarrow> nat option \<Rightarrow> RegistryError option \<times> Registry" where
  "Scope_Bind r i closeFn =
     (case (heap r i, closeFn) of
        (Some s, Some f) \<Rightarrow>
          (if reg_state r \<noteq> StateAccepting \<or> \<not> sc_active s
           then (Some ErrRegistryNotAccepting, r)
           else if sc_closeFn s \<noteq> None \<or> sc_closeDone s \<noteq> None
           then (Some ErrExecutionResourceAlreadyBound, r)
           else (None, r\<lparr>heap := (heap r)(i \<mapsto> s\<lparr>sc_closeFn := Some f\<rparr>)\<rparr>))
      | _ \<Rightarrow> (Some ErrInvalidExecutionResource, r))"

text \<open>
  \<open>startBoundResourceClose\<close>: starts the goroutine that closes a bound resource. The result says
  whether there is a channel to wait for; \<open>finishResourceClose\<close> is that goroutine's end.
\<close>

definition startBoundResourceClose :: "Scope \<Rightarrow> bool \<times> Scope" where
  "startBoundResourceClose s =
     (if sc_closeDone s \<noteq> None then (True, s)
      else case sc_closeFn s of
             None \<Rightarrow> (False, s)
           | Some f \<Rightarrow> (True, s\<lparr>sc_closeFn := None, sc_closeDone := Some False\<rparr>))"

definition finishResourceClose :: "Scope \<Rightarrow> Scope" where
  "finishResourceClose s = s\<lparr>sc_closeDone := Some True\<rparr>"

definition releaseGroup_of :: "ScopeSpec \<Rightarrow> ReleaseGroup" where
  "releaseGroup_of spec =
     \<lparr>group_CredentialID = spec_CredentialID spec, group_Model = spec_Model spec\<rparr>"

definition markReleasedLocked ::
    "Registry \<Rightarrow> Scope \<Rightarrow> (ReleaseSink option \<times> ReleaseGroup \<times> int) \<times> Registry" where
  "markReleasedLocked r s =
     (if \<not> spec_Accounted (sc_spec s)
      then ((None, \<lparr>group_CredentialID = '''', group_Model = ''''\<rparr>, 0), r)
      else let grp = releaseGroup_of (sc_spec s);
               sequence = get_or 0 (releaseSequences r) grp + 1
           in ((releaseSink r, grp, sequence),
               r\<lparr>releaseSequences := AList.update grp sequence (releaseSequences r)\<rparr>))"

text \<open>
  The regions of \<open>EndWithRelease\<close>, in order: the scope is marked inactive, the close of its
  resource is started, then (when there is nothing to wait for or the channel is closed) the
  release is recorded, the sink is called and its ticket stored, and the scope is deleted.
\<close>

definition end_markInactive :: "Registry \<Rightarrow> nat \<Rightarrow> Scope \<Rightarrow> Registry" where
  "end_markInactive r i s =
     r\<lparr>heap := (heap r)(i \<mapsto> s\<lparr>sc_active := False, sc_phase := MarkedInactive\<rparr>)\<rparr>"

definition end_startClose :: "Registry \<Rightarrow> nat \<Rightarrow> Scope \<Rightarrow> Registry" where
  "end_startClose r i s =
     r\<lparr>heap := (heap r)(i \<mapsto> (snd (startBoundResourceClose s))\<lparr>sc_phase := AwaitingClose\<rparr>)\<rparr>"

definition end_closeAwaited :: "Scope \<Rightarrow> bool" where
  "end_closeAwaited s \<longleftrightarrow> sc_closeDone s = None \<or> sc_closeDone s = Some True"

definition end_release :: "Registry \<Rightarrow> nat \<Rightarrow> Scope \<Rightarrow> Registry" where
  "end_release r i s =
     (let ((sink, grp, sequence), r') = markReleasedLocked r s
      in r'\<lparr>heap := (heap r')(i \<mapsto> s\<lparr>sc_phase := Releasing sink grp sequence\<rparr>)\<rparr>)"

definition end_storeTicket ::
    "Registry \<Rightarrow> nat \<Rightarrow> Scope \<Rightarrow> ReleaseSink option \<Rightarrow> ReleaseGroup \<Rightarrow> int \<Rightarrow> Registry" where
  "end_storeTicket r i s sink grp sequence =
     (let ticket = (case sink of
                      None \<Rightarrow> None
                    | Some f \<Rightarrow> if sequence > 0 then f grp sequence else None)
      in r\<lparr>heap := (heap r)(i \<mapsto> s\<lparr>sc_releaseTicket := ticket, sc_phase := TicketStored\<rparr>)\<rparr>)"

definition end_deleteScope :: "Registry \<Rightarrow> nat \<Rightarrow> Scope \<Rightarrow> Registry" where
  "end_deleteScope r i s =
     r\<lparr>reg_scopes := remove1 i (reg_scopes r), heap := (heap r)(i \<mapsto> s\<lparr>sc_phase := Ended\<rparr>)\<rparr>"

section \<open>Draining and closing\<close>

text \<open>The regions of \<open>Drain\<close> and \<open>Close\<close>.\<close>

definition Drain_enter :: "Registry \<Rightarrow> RegistryError + Registry" where
  "Drain_enter r =
     (if reg_state r = StateAccepting then Inr (r\<lparr>reg_state := StateDraining\<rparr>)
      else if reg_state r = StateDraining then Inr r
      else Inl ErrRegistryClosed)"

definition closeScopeResource :: "Registry \<Rightarrow> nat \<Rightarrow> Registry" where
  "closeScopeResource r i =
     (case heap r i of
        None \<Rightarrow> r
      | Some s \<Rightarrow> r\<lparr>heap := (heap r)(i \<mapsto> snd (startBoundResourceClose s))\<rparr>)"

definition Drain_idle :: "Registry \<Rightarrow> bool" where
  "Drain_idle r \<longleftrightarrow> reg_pending r = [] \<and> reg_scopes r = []"

definition Drain_finish :: "Registry \<Rightarrow> Registry" where
  "Drain_finish r = r\<lparr>reg_state := StateClosed\<rparr>"

datatype CloseEntry = CloseJoins | CloseAlready | CloseRuns

definition Close_enter :: "Registry \<Rightarrow> CloseEntry \<times> Registry" where
  "Close_enter r =
     (if closeStarted r then (CloseJoins, r)
      else if reg_state r = StateClosed then (CloseAlready, r)
      else (CloseRuns, r\<lparr>closeStarted := True\<rparr>))"

definition Close_markClosed :: "Registry \<Rightarrow> Registry" where
  "Close_markClosed r = r\<lparr>reg_state := StateClosed\<rparr>"

definition Close_finish :: "Registry \<Rightarrow> Registry" where
  "Close_finish r = r\<lparr>closeFinished := True\<rparr>"

section \<open>Observation (observation.go)\<close>

record Observation =
  obs_RequestID :: string
  obs_CredentialID :: string
  obs_Model :: string
  obs_RequestKind :: string
  obs_StartedAt :: time
  obs_Accounted :: bool

record Freeze =
  fr_Revision :: int
  fr_BarrierRevision :: int
  fr_Executions :: "Observation list"

definition ObserveBarrier :: "Registry \<Rightarrow> int \<Rightarrow> Registry" where
  "ObserveBarrier r revision =
     (if revision \<le> 0 then r
      else if revision > observedBarrier r
      then r\<lparr>observedBarrier := revision, pendingBarrierSequence := reg_next r\<rparr>
      else r)"

definition observation_of :: "ScopeSpec \<Rightarrow> Observation" where
  "observation_of spec =
     \<lparr>obs_RequestID = spec_RequestID spec, obs_CredentialID = spec_CredentialID spec,
      obs_Model = spec_Model spec, obs_RequestKind = spec_Kind spec,
      obs_StartedAt = spec_StartedAt spec, obs_Accounted = spec_Accounted spec\<rparr>"

definition FreezeInFlight :: "Registry \<Rightarrow> Freeze \<times> Registry" where
  "FreezeInFlight r =
     (let blocked = list_ex (\<lambda>sequence. sequence \<le> pendingBarrierSequence r) (reg_pending r);
          published = (if observedBarrier r > publishedBarrier r \<and> \<not> blocked
                       then observedBarrier r else publishedBarrier r);
          r' = r\<lparr>publishedBarrier := published, snapshotRevision := snapshotRevision r + 1\<rparr>
      in (\<lparr>fr_Revision = snapshotRevision r', fr_BarrierRevision = published,
           fr_Executions =
             map (observation_of \<circ> sc_spec) (List.map_filter (heap r) (reg_scopes r))\<rparr>, r'))"

section \<open>The registry as a state machine\<close>

text \<open>
  Any number of goroutines call the operations; each step is one region under a mutex, so the
  steps interleave in every order. The threads that run \<open>Drain\<close> are numbered; \<open>Close\<close> has one
  runner, the others join it.
\<close>

datatype DrainPC =
    DrainNotStarted | DrainEntered | DrainClosing "nat list" | DrainWaiting | DrainCancelled
  | DrainReturned "RegistryError option"

datatype ClosePC = CloseNotStarted | CloseEntered | CloseMarked | CloseWaiting "nat list" | CloseReturned

record RegistrySystem =
  sys_reg :: Registry
  sys_drain :: "nat \<Rightarrow> DrainPC"
  sys_close :: ClosePC

definition init_system :: RegistrySystem where
  "init_system = \<lparr>sys_reg = New, sys_drain = (\<lambda>_. DrainNotStarted), sys_close = CloseNotStarted\<rparr>"

abbreviation set_drain :: "nat \<Rightarrow> DrainPC \<Rightarrow> RegistrySystem \<Rightarrow> RegistrySystem" where
  "set_drain t pc s \<equiv> s\<lparr>sys_drain := (sys_drain s)(t := pc)\<rparr>"

inductive registry_step :: "RegistrySystem \<Rightarrow> RegistrySystem \<Rightarrow> bool" where
  step_begin: "BeginDispatch (sys_reg s) = Inr (i, r) \<Longrightarrow> registry_step s (s\<lparr>sys_reg := r\<rparr>)"
| step_pending_end: "registry_step s (s\<lparr>sys_reg := PendingDispatch_End (sys_reg s) i\<rparr>)"
| step_install: "registry_step s (s\<lparr>sys_reg := snd (Install (sys_reg s) i spec)\<rparr>)"
| step_sink: "registry_step s (s\<lparr>sys_reg := fst (SetReleaseSink (sys_reg s) raw)\<rparr>)"
| step_bind: "registry_step s (s\<lparr>sys_reg := snd (Scope_Bind (sys_reg s) i f)\<rparr>)"
| step_end_mark: "heap (sys_reg s) i = Some sc \<Longrightarrow> sc_phase sc = NotEnded \<Longrightarrow>
    registry_step s (s\<lparr>sys_reg := end_markInactive (sys_reg s) i sc\<rparr>)"
| step_end_close: "heap (sys_reg s) i = Some sc \<Longrightarrow> sc_phase sc = MarkedInactive \<Longrightarrow>
    registry_step s (s\<lparr>sys_reg := end_startClose (sys_reg s) i sc\<rparr>)"
| step_resource_closed: "heap (sys_reg s) i = Some sc \<Longrightarrow> sc_closeDone sc = Some False \<Longrightarrow>
    registry_step s (s\<lparr>sys_reg := (sys_reg s)\<lparr>heap := (heap (sys_reg s))(i \<mapsto> finishResourceClose sc)\<rparr>\<rparr>)"
| step_end_release: "heap (sys_reg s) i = Some sc \<Longrightarrow> sc_phase sc = AwaitingClose \<Longrightarrow>
    end_closeAwaited sc \<Longrightarrow>
    registry_step s (s\<lparr>sys_reg := end_release (sys_reg s) i sc\<rparr>)"
| step_end_ticket: "heap (sys_reg s) i = Some sc \<Longrightarrow> sc_phase sc = Releasing sink grp n \<Longrightarrow>
    registry_step s (s\<lparr>sys_reg := end_storeTicket (sys_reg s) i sc sink grp n\<rparr>)"
| step_end_delete: "heap (sys_reg s) i = Some sc \<Longrightarrow> sc_phase sc = TicketStored \<Longrightarrow>
    registry_step s (s\<lparr>sys_reg := end_deleteScope (sys_reg s) i sc\<rparr>)"
| step_drain_enter: "sys_drain s t = DrainNotStarted \<Longrightarrow> Drain_enter (sys_reg s) = Inr r \<Longrightarrow>
    registry_step s (set_drain t DrainEntered (s\<lparr>sys_reg := r\<rparr>))"
| step_drain_refused: "sys_drain s t = DrainNotStarted \<Longrightarrow> Drain_enter (sys_reg s) = Inl e \<Longrightarrow>
    registry_step s (set_drain t (DrainReturned (Some e)) s)"
| step_drain_snapshot: "sys_drain s t = DrainEntered \<Longrightarrow>
    registry_step s (set_drain t (DrainClosing (reg_scopes (sys_reg s))) s)"
| step_drain_close: "sys_drain s t = DrainClosing (i # rest) \<Longrightarrow>
    registry_step s (set_drain t (DrainClosing rest) (s\<lparr>sys_reg := closeScopeResource (sys_reg s) i\<rparr>))"
| step_drain_wait: "sys_drain s t = DrainClosing [] \<Longrightarrow> registry_step s (set_drain t DrainWaiting s)"
| step_drain_cancel: "sys_drain s t = DrainWaiting \<Longrightarrow> registry_step s (set_drain t DrainCancelled s)"
| step_drain_done: "sys_drain s t = DrainWaiting \<Longrightarrow> Drain_idle (sys_reg s) \<Longrightarrow>
    registry_step s (set_drain t (DrainReturned None) (s\<lparr>sys_reg := Drain_finish (sys_reg s)\<rparr>))"
| step_close_enter: "sys_close s = CloseNotStarted \<Longrightarrow> Close_enter (sys_reg s) = (CloseRuns, r) \<Longrightarrow>
    registry_step s (s\<lparr>sys_close := CloseEntered, sys_reg := r\<rparr>)"
| step_close_mark: "sys_close s = CloseEntered \<Longrightarrow>
    registry_step s (s\<lparr>sys_close := CloseMarked, sys_reg := Close_markClosed (sys_reg s)\<rparr>)"
| step_close_snapshot: "sys_close s = CloseMarked \<Longrightarrow>
    registry_step s (s\<lparr>sys_close := CloseWaiting (reg_scopes (sys_reg s))\<rparr>)"
| step_close_start: "sys_close s = CloseWaiting (i # rest) \<Longrightarrow>
    registry_step s (s\<lparr>sys_reg := closeScopeResource (sys_reg s) i\<rparr>)"
| step_close_next: "sys_close s = CloseWaiting (i # rest) \<Longrightarrow> heap (sys_reg s) i = Some sc \<Longrightarrow>
    sc_closeFn sc = None \<Longrightarrow> end_closeAwaited sc \<Longrightarrow>
    registry_step s (s\<lparr>sys_close := CloseWaiting rest\<rparr>)"
| step_close_finish: "sys_close s = CloseWaiting [] \<Longrightarrow>
    registry_step s (s\<lparr>sys_close := CloseReturned, sys_reg := Close_finish (sys_reg s)\<rparr>)"
| step_observe: "registry_step s (s\<lparr>sys_reg := ObserveBarrier (sys_reg s) revision\<rparr>)"
| step_freeze: "registry_step s (s\<lparr>sys_reg := snd (FreezeInFlight (sys_reg s))\<rparr>)"

abbreviation registry_reachable :: "RegistrySystem \<Rightarrow> bool" where
  "registry_reachable s \<equiv> registry_step\<^sup>*\<^sup>* init_system s"

section \<open>Invariants\<close>

text \<open>Which identifiers exist: a dispatch is pending until its \<open>sync.Once\<close> has run.\<close>

definition ids_inv :: "Registry \<Rightarrow> bool" where
  "ids_inv r \<longleftrightarrow>
     distinct (reg_pending r) \<and> distinct (reg_scopes r) \<and>
     set (reg_pending r) = {i. once_done r i = Some False} \<and>
     (\<forall>i. once_done r i \<noteq> None \<longrightarrow> i \<le> reg_next r) \<and>
     (\<forall>i. heap r i \<noteq> None \<longrightarrow> once_done r i = Some True) \<and>
     set (reg_scopes r) = {i. \<exists>sc. heap r i = Some sc \<and> sc_phase sc \<noteq> Ended}"

text \<open>What a scope looks like in each phase of its end.\<close>

fun released_phase :: "EndPhase \<Rightarrow> bool" where
  "released_phase (Releasing sink grp n) = True"
| "released_phase TicketStored = True"
| "released_phase Ended = True"
| "released_phase _ = False"

definition scope_inv :: "Scope \<Rightarrow> bool" where
  "scope_inv sc \<longleftrightarrow>
     (sc_active sc \<longleftrightarrow> sc_phase sc = NotEnded) \<and>
     (sc_closeDone sc \<noteq> None \<longrightarrow> sc_closeFn sc = None) \<and>
     (sc_phase sc = AwaitingClose \<or> released_phase (sc_phase sc) \<longrightarrow> sc_closeFn sc = None) \<and>
     (released_phase (sc_phase sc) \<longrightarrow> sc_closeDone sc \<noteq> Some False)"

definition scopes_inv :: "Registry \<Rightarrow> bool" where
  "scopes_inv r \<longleftrightarrow> (\<forall>i sc. heap r i = Some sc \<longrightarrow> scope_inv sc)"

text \<open>The accounted scopes of a group whose release has been recorded.\<close>

definition released_scopes :: "Registry \<Rightarrow> ReleaseGroup \<Rightarrow> nat set" where
  "released_scopes r grp =
     {i. \<exists>sc. heap r i = Some sc \<and> spec_Accounted (sc_spec sc) \<and>
         releaseGroup_of (sc_spec sc) = grp \<and> released_phase (sc_phase sc)}"

definition release_inv :: "Registry \<Rightarrow> bool" where
  "release_inv r \<longleftrightarrow> (\<forall>grp. get_or 0 (releaseSequences r) grp = int (card (released_scopes r grp)))"

definition drain_unbound :: "Registry \<Rightarrow> nat set \<Rightarrow> bool" where
  "drain_unbound r S \<longleftrightarrow>
     (\<forall>i sc. i \<in> set (reg_scopes r) \<longrightarrow> i \<notin> S \<longrightarrow> heap r i = Some sc \<longrightarrow> sc_closeFn sc = None)"

fun drain_inv :: "Registry \<Rightarrow> DrainPC \<Rightarrow> bool" where
  "drain_inv r DrainNotStarted = True"
| "drain_inv r DrainEntered = (reg_state r \<noteq> StateAccepting)"
| "drain_inv r (DrainClosing is) = (reg_state r \<noteq> StateAccepting \<and> drain_unbound r (set is))"
| "drain_inv r DrainWaiting = (reg_state r \<noteq> StateAccepting \<and> drain_unbound r {})"
| "drain_inv r DrainCancelled = (reg_state r \<noteq> StateAccepting \<and> drain_unbound r {})"
| "drain_inv r (DrainReturned None) = (reg_state r = StateClosed \<and> Drain_idle r)"
| "drain_inv r (DrainReturned (Some e)) = (reg_state r = StateClosed)"

definition system_inv :: "RegistrySystem \<Rightarrow> bool" where
  "system_inv s \<longleftrightarrow> ids_inv (sys_reg s) \<and> scopes_inv (sys_reg s) \<and> release_inv (sys_reg s) \<and>
     (\<forall>t. drain_inv (sys_reg s) (sys_drain s t)) \<and>
     publishedBarrier (sys_reg s) \<le> observedBarrier (sys_reg s)"

lemmas region_defs = BeginDispatch_def PendingDispatch_End_def Install_def SetReleaseSink_def
  Scope_Bind_def end_markInactive_def end_startClose_def startBoundResourceClose_def
  finishResourceClose_def end_closeAwaited_def end_release_def markReleasedLocked_def
  end_storeTicket_def end_deleteScope_def Drain_enter_def closeScopeResource_def Drain_idle_def
  Drain_finish_def Close_enter_def Close_markClosed_def Close_finish_def ObserveBarrier_def
  FreezeInFlight_def Let_def

lemma system_inv_init: "system_inv init_system"
  by (simp add: system_inv_def init_system_def New_def ids_inv_def scopes_inv_def release_inv_def
      released_scopes_def get_or_def)

lemma ids_inv_fresh:
  assumes "ids_inv r"
  shows "once_done r (Suc (reg_next r)) = None" "heap r (Suc (reg_next r)) = None"
proof -
  show "once_done r (Suc (reg_next r)) = None"
    using assms Suc_n_not_le_n unfolding ids_inv_def by blast
  then show "heap r (Suc (reg_next r)) = None"
    using assms unfolding ids_inv_def by (metis option.distinct(1))
qed

lemma ids_inv_begin:
  "ids_inv r \<Longrightarrow> BeginDispatch r = Inr (i, r') \<Longrightarrow> ids_inv r'"
  using ids_inv_fresh [of r]
  by (auto simp: BeginDispatch_def Let_def ids_inv_def le_Suc_eq split: if_splits)

lemma ids_inv_step: "registry_step s s' \<Longrightarrow> ids_inv (sys_reg s) \<Longrightarrow> ids_inv (sys_reg s')"
proof (induction rule: registry_step.induct)
  case (step_begin s i r)
  then show ?case by (simp add: ids_inv_begin)
qed (auto simp: ids_inv_def region_defs set_remove1_eq split: if_splits option.splits)

lemma scopes_inv_step: "registry_step s s' \<Longrightarrow> scopes_inv (sys_reg s) \<Longrightarrow> scopes_inv (sys_reg s')"
  by (induction rule: registry_step.induct)
    (auto simp: scopes_inv_def scope_inv_def region_defs split: if_splits option.splits)

lemma drain_inv_mono:
  assumes "drain_inv r pc" "reg_state r \<noteq> StateAccepting \<Longrightarrow> reg_state r' \<noteq> StateAccepting"
    "reg_state r = StateClosed \<Longrightarrow> reg_state r' = StateClosed"
    "reg_state r \<noteq> StateAccepting \<Longrightarrow> set (reg_scopes r') \<subseteq> set (reg_scopes r)"
    "reg_state r \<noteq> StateAccepting \<Longrightarrow> set (reg_pending r') \<subseteq> set (reg_pending r)"
    "\<And>i sc'. reg_state r \<noteq> StateAccepting \<Longrightarrow> heap r' i = Some sc' \<Longrightarrow>
       \<exists>sc. heap r i = Some sc \<and> (sc_closeFn sc = None \<longrightarrow> sc_closeFn sc' = None)"
  shows "drain_inv r' pc"
proof -
  have ub: "drain_unbound r' S" if u: "drain_unbound r S" and st: "reg_state r \<noteq> StateAccepting" for S
    unfolding drain_unbound_def
  proof (intro allI impI)
    fix i sc' assume i: "i \<in> set (reg_scopes r')" "i \<notin> S" "heap r' i = Some sc'"
    obtain sc where "heap r i = Some sc" "sc_closeFn sc = None \<longrightarrow> sc_closeFn sc' = None"
      using assms(6) [OF st i(3)] by (elim exE conjE)
    moreover have "i \<in> set (reg_scopes r)" using i(1) assms(4) [OF st] by (rule rev_subsetD)
    ultimately show "sc_closeFn sc' = None" using u i(2) by (simp add: drain_unbound_def)
  qed
  have idle: "Drain_idle r'" if "Drain_idle r" "reg_state r = StateClosed"
    using that assms(4,5) by (simp add: Drain_idle_def)
  show ?thesis
    using assms(1-3) ub idle by (cases "(r, pc)" rule: drain_inv.cases) auto
qed

text \<open>Every step leaves a registry that no longer accepts closed to new work.\<close>

lemma step_when_stopped:
  assumes "registry_step s s'" "reg_state (sys_reg s) \<noteq> StateAccepting"
  shows "reg_state (sys_reg s') \<noteq> StateAccepting"
    "reg_state (sys_reg s) = StateClosed \<Longrightarrow> reg_state (sys_reg s') = StateClosed"
    "set (reg_scopes (sys_reg s')) \<subseteq> set (reg_scopes (sys_reg s))"
    "set (reg_pending (sys_reg s')) \<subseteq> set (reg_pending (sys_reg s))"
    "heap (sys_reg s') i = Some sc' \<Longrightarrow>
       \<exists>sc. heap (sys_reg s) i = Some sc \<and> (sc_closeFn sc = None \<longrightarrow> sc_closeFn sc' = None)"
  using assms
  by (induction rule: registry_step.induct)
    (auto simp: region_defs split: if_splits option.splits dest: in_set_takeD
      set_remove1_subset [THEN subsetD])

lemma drain_inv_keeps:
  assumes "registry_step s s'" "drain_inv (sys_reg s) pc"
  shows "drain_inv (sys_reg s') pc"
  by (rule drain_inv_mono [OF assms(2)]) (use step_when_stopped [OF assms(1)] in auto)

lemma drain_unbound_close:
  assumes "scopes_inv r" "drain_unbound r (set (i # rest))"
  shows "drain_unbound (closeScopeResource r i) (set rest)"
  using assms
  by (auto simp: drain_unbound_def closeScopeResource_def startBoundResourceClose_def
      scopes_inv_def scope_inv_def split: option.splits if_splits)

lemma drain_inv_step:
  assumes step: "registry_step s s'" and inv: "\<forall>t. drain_inv (sys_reg s) (sys_drain s t)"
    and sc: "scopes_inv (sys_reg s)"
  shows "drain_inv (sys_reg s') (sys_drain s' t)"
proof (cases "sys_drain s' t = sys_drain s t")
  case True
  with drain_inv_keeps [OF step] inv show ?thesis by simp
next
  case False
  with step show ?thesis
  proof (cases rule: registry_step.cases)
    case (step_drain_enter t' r)
    with False show ?thesis by (auto simp: Drain_enter_def split: if_splits)
  next
    case (step_drain_refused t' e)
    with False show ?thesis by (cases "reg_state (sys_reg s)") (auto simp: Drain_enter_def split: if_splits)
  next
    case (step_drain_snapshot t')
    with False inv have "drain_inv (sys_reg s) DrainEntered" by (metis fun_upd_apply select_convs(2) surjective update_convs(2))
    with step_drain_snapshot False show ?thesis by (auto simp: drain_unbound_def)
  next
    case (step_drain_close t' i rest)
    have "drain_inv (sys_reg s) (DrainClosing (i # rest))" using inv step_drain_close by metis
    then show ?thesis
      using step_drain_close False drain_unbound_close [OF sc, of i rest]
      by (auto simp: closeScopeResource_def split: option.splits)
  next
    case (step_drain_wait t')
    have "drain_inv (sys_reg s) (DrainClosing [])" using inv step_drain_wait by metis
    then show ?thesis using step_drain_wait False by auto
  next
    case (step_drain_cancel t')
    have "drain_inv (sys_reg s) DrainWaiting" using inv step_drain_cancel by metis
    then show ?thesis using step_drain_cancel False by auto
  next
    case (step_drain_done t')
    then show ?thesis using False by (auto simp: Drain_finish_def Drain_idle_def)
  qed auto
qed

text \<open>Recording a release adds exactly one scope to exactly one group.\<close>

lemma finite_released:
  assumes "ids_inv r"
  shows "finite (released_scopes r grp)"
proof (rule finite_subset)
  show "released_scopes r grp \<subseteq> {.. reg_next r}"
  proof
    fix i assume "i \<in> released_scopes r grp"
    then have "once_done r i = Some True"
      using assms by (auto simp: released_scopes_def ids_inv_def)
    then show "i \<in> {.. reg_next r}" using assms by (auto simp: ids_inv_def)
  qed
qed simp

text \<open>The part of the heap the accounting depends on: the specs of the released scopes.\<close>

definition release_view :: "Registry \<Rightarrow> nat \<Rightarrow> ScopeSpec option" where
  "release_view r i =
     (case heap r i of
        None \<Rightarrow> None
      | Some sc \<Rightarrow> if released_phase (sc_phase sc) then Some (sc_spec sc) else None)"

lemma released_scopes_view:
  "released_scopes r grp =
     {i. \<exists>spec. release_view r i = Some spec \<and> spec_Accounted spec \<and> releaseGroup_of spec = grp}"
  by (force simp: released_scopes_def release_view_def split: option.splits)

lemma end_release_view:
  assumes "heap r i = Some sc"
  shows "release_view (end_release r i sc) = (release_view r)(i \<mapsto> sc_spec sc)"
    and "releaseSequences (end_release r i sc) =
           (if spec_Accounted (sc_spec sc)
            then AList.update (releaseGroup_of (sc_spec sc))
                   (get_or 0 (releaseSequences r) (releaseGroup_of (sc_spec sc)) + 1) (releaseSequences r)
            else releaseSequences r)"
  by (cases "spec_Accounted (sc_spec sc)",
      auto simp: fun_eq_iff release_view_def end_release_def markReleasedLocked_def Let_def)+

lemma release_inv_end_release:
  assumes "ids_inv r" "release_inv r" "heap r i = Some sc" "sc_phase sc = AwaitingClose"
  shows "release_inv (end_release r i sc)"
  unfolding release_inv_def
proof
  fix grp
  note view = end_release_view [OF assms(3)]
  have i: "release_view r i = None" using assms(3,4) by (simp add: release_view_def)
  then have notin: "i \<notin> released_scopes r grp" by (simp add: released_scopes_view)
  show "get_or 0 (releaseSequences (end_release r i sc)) grp =
        int (card (released_scopes (end_release r i sc) grp))"
  proof (cases "spec_Accounted (sc_spec sc) \<and> releaseGroup_of (sc_spec sc) = grp")
    case True
    then have "released_scopes (end_release r i sc) grp = insert i (released_scopes r grp)"
      by (auto simp: released_scopes_view view)
    with True view(2) assms(2) notin finite_released [OF assms(1)] show ?thesis
      by (auto simp: release_inv_def)
  next
    case False
    then have "released_scopes (end_release r i sc) grp = released_scopes r grp"
      using i by (auto simp: released_scopes_view view)
    with False view(2) assms(2) show ?thesis by (auto simp: release_inv_def)
  qed
qed

lemma install_view:
  assumes "ids_inv r"
  shows "release_view (snd (Install r i spec)) = release_view r"
proof (cases "i \<in> set (reg_pending r)")
  case True
  with assms have "heap r i = None" unfolding ids_inv_def by fastforce
  then show ?thesis by (auto simp: fun_eq_iff release_view_def Install_def)
next
  case False
  then show ?thesis by (auto simp: fun_eq_iff release_view_def Install_def)
qed

lemma release_view_step:
  assumes "registry_step s s'" "ids_inv (sys_reg s)"
  shows "(\<exists>i sc. heap (sys_reg s) i = Some sc \<and> sc_phase sc = AwaitingClose \<and>
             sys_reg s' = end_release (sys_reg s) i sc) \<or>
         (release_view (sys_reg s') = release_view (sys_reg s) \<and>
          releaseSequences (sys_reg s') = releaseSequences (sys_reg s))"
  using assms
proof (cases rule: registry_step.cases)
  case (step_install i spec)
  then show ?thesis using install_view [OF assms(2)] by (simp add: Install_def)
next
  case (step_end_release i sc)
  then show ?thesis by auto
qed (auto simp: fun_eq_iff release_view_def BeginDispatch_def PendingDispatch_End_def
    SetReleaseSink_def Scope_Bind_def end_markInactive_def end_startClose_def
    startBoundResourceClose_def finishResourceClose_def end_storeTicket_def end_deleteScope_def
    Drain_enter_def closeScopeResource_def Drain_finish_def Close_enter_def Close_markClosed_def
    Close_finish_def ObserveBarrier_def FreezeInFlight_def Let_def split: if_splits option.splits)

lemma release_inv_step:
  assumes "registry_step s s'" "ids_inv (sys_reg s)" "release_inv (sys_reg s)"
  shows "release_inv (sys_reg s')"
  using release_view_step [OF assms(1,2)] release_inv_end_release [OF assms(2,3)] assms(3)
  by (auto simp: release_inv_def released_scopes_view)

lemma barrier_step:
  "registry_step s s' \<Longrightarrow> publishedBarrier (sys_reg s) \<le> observedBarrier (sys_reg s) \<Longrightarrow>
   publishedBarrier (sys_reg s') \<le> observedBarrier (sys_reg s')"
  by (induction rule: registry_step.induct)
    (auto simp: region_defs split: if_splits option.splits)

lemma system_inv_step: "registry_step s s' \<Longrightarrow> system_inv s \<Longrightarrow> system_inv s'"
  by (simp add: system_inv_def ids_inv_step scopes_inv_step release_inv_step drain_inv_step
      barrier_step)

interpretation er: transition_system init_system registry_step system_inv
  by unfold_locales (simp_all add: system_inv_init system_inv_step)

lemmas reachable_system_inv = er.inv_reachable

section \<open>What holds in every run\<close>

text \<open>
  (C35) Releases are counted exactly once: in every reachable state the cumulative sequence of a
  group is the number of accounted scopes of the group whose release was recorded, however the
  callers interleave and however often \<open>End\<close> is called; so the scope that is released next
  reports that number plus one, and no other group changes.
\<close>

theorem release_sequence_counts:
  assumes "registry_reachable s" and "heap (sys_reg s) i = Some sc" and "sc_phase sc = AwaitingClose"
    and "spec_Accounted (sc_spec sc)" and "grp = releaseGroup_of (sc_spec sc)"
  shows "markReleasedLocked (sys_reg s) sc =
           ((releaseSink (sys_reg s), grp, int (card (released_scopes (sys_reg s) grp)) + 1),
            (sys_reg s)\<lparr>releaseSequences :=
               AList.update grp (int (card (released_scopes (sys_reg s) grp)) + 1)
                 (releaseSequences (sys_reg s))\<rparr>)
         \<and> (\<forall>g. released_scopes (end_release (sys_reg s) i sc) g =
                 (if g = grp then insert i (released_scopes (sys_reg s) g)
                  else released_scopes (sys_reg s) g))
         \<and> i \<notin> released_scopes (sys_reg s) grp"
proof -
  have inv: "release_inv (sys_reg s)"
    using reachable_system_inv [OF assms(1)] by (simp add: system_inv_def)
  have view: "release_view (sys_reg s) i = None"
    using assms(2,3) by (simp add: release_view_def)
  show ?thesis
    using inv view assms(4,5) end_release_view(1) [OF assms(2)]
    by (auto simp: markReleasedLocked_def Let_def release_inv_def released_scopes_view)
qed

text \<open>The phases of one scope only move forward, and the last one removes it.\<close>

fun scope_rank :: "Scope option \<Rightarrow> nat" where
  "scope_rank None = 0"
| "scope_rank (Some sc) =
     (case sc_phase sc of
        NotEnded \<Rightarrow> 6 | MarkedInactive \<Rightarrow> 5
      | AwaitingClose \<Rightarrow> (if sc_closeDone sc = Some False then 4 else 3)
      | Releasing _ _ _ \<Rightarrow> 2 | TicketStored \<Rightarrow> 1 | Ended \<Rightarrow> 0)"

definition drain_work :: "RegistrySystem \<Rightarrow> nat" where
  "drain_work s = length (reg_pending (sys_reg s)) +
     sum_list (map (\<lambda>i. scope_rank (heap (sys_reg s) i)) (reg_scopes (sys_reg s)))"

lemma sum_list_less:
  fixes f g :: "'a \<Rightarrow> nat"
  assumes "distinct xs" "i \<in> set xs" "f i < g i" "\<And>j. j \<noteq> i \<Longrightarrow> f j = g j"
  shows "sum_list (map f xs) < sum_list (map g xs)"
  using assms(1,2)
proof (induction xs)
  case Nil
  then show ?case by simp
next
  case (Cons x xs)
  show ?case
  proof (cases "x = i")
    case True
    with Cons.prems have "\<forall>j\<in>set xs. f j = g j" by (auto intro: assms(4))
    then have "map f xs = map g xs" by simp
    then have "sum_list (map f xs) = sum_list (map g xs)" by (rule arg_cong)
    with True assms(3) show ?thesis by simp
  next
    case False
    with Cons.prems assms(4) have "f x = g x" "i \<in> set xs" by auto
    with Cons show ?thesis by simp
  qed
qed

lemma drain_work_update:
  assumes "ids_inv (sys_reg s)" "i \<in> set (reg_scopes (sys_reg s))"
    and "sys_reg s' = r'" "scope_rank (Some sc') < scope_rank (heap (sys_reg s) i)"
    and "heap r' = (heap (sys_reg s))(i \<mapsto> sc')"
    and "reg_pending r' = reg_pending (sys_reg s)" "reg_scopes r' = reg_scopes (sys_reg s)"
  shows "drain_work s' < drain_work s"
  using sum_list_less [OF _ assms(2), of "\<lambda>j. scope_rank (heap r' j)" "\<lambda>j. scope_rank (heap (sys_reg s) j)"]
    assms by (simp add: drain_work_def ids_inv_def)

lemma drain_progress_scope:
  assumes "ids_inv (sys_reg s)" "i \<in> set (reg_scopes (sys_reg s))"
  shows "\<exists>s'. registry_step s s' \<and> sys_drain s' = sys_drain s \<and> drain_work s' < drain_work s"
proof -
  from assms obtain sc where sc: "heap (sys_reg s) i = Some sc" "sc_phase sc \<noteq> Ended"
    unfolding ids_inv_def by blast
  note smaller = drain_work_update [OF assms refl, where s' = "s\<lparr>sys_reg := r\<rparr>" for r, simplified]
  show ?thesis
  proof (cases "sc_phase sc")
    case NotEnded
    show ?thesis
      by (intro exI conjI, rule step_end_mark [OF sc(1) NotEnded], simp,
          rule smaller) (simp_all add: end_markInactive_def sc NotEnded)
  next
    case MarkedInactive
    show ?thesis
      by (intro exI conjI, rule step_end_close [OF sc(1) MarkedInactive], simp,
          rule smaller) (simp_all add: end_startClose_def sc MarkedInactive)
  next
    case AwaitingClose
    show ?thesis
    proof (cases "sc_closeDone sc = Some False")
      case True
      show ?thesis
        by (intro exI conjI, rule step_resource_closed [OF sc(1) True], simp,
            rule smaller) (simp_all add: finishResourceClose_def sc AwaitingClose True)
    next
      case False
      then have aw: "end_closeAwaited sc" by (cases "sc_closeDone sc") (auto simp: end_closeAwaited_def)
      have "drain_work (s\<lparr>sys_reg := end_release (sys_reg s) i sc\<rparr>) < drain_work s"
        by (cases "spec_Accounted (sc_spec sc)"; rule smaller)
          (simp_all add: end_release_def markReleasedLocked_def Let_def sc AwaitingClose False)
      then show ?thesis using step_end_release [OF sc(1) AwaitingClose aw] by fastforce
    qed
  next
    case (Releasing sink grp n)
    show ?thesis
      by (intro exI conjI, rule step_end_ticket [OF sc(1) Releasing], simp,
          rule smaller) (simp_all add: end_storeTicket_def Let_def sc Releasing)
  next
    case TicketStored
    let ?rest = "remove1 i (reg_scopes (sys_reg s))"
    have notin: "i \<notin> set ?rest" using assms(1) by (simp add: ids_inv_def)
    have "map (\<lambda>j. scope_rank (heap (end_deleteScope (sys_reg s) i sc) j)) ?rest =
          map (\<lambda>j. scope_rank (heap (sys_reg s) j)) ?rest"
      by (rule map_cong) (use notin in \<open>auto simp: end_deleteScope_def\<close>)
    then have "drain_work (s\<lparr>sys_reg := end_deleteScope (sys_reg s) i sc\<rparr>) < drain_work s"
      using sc TicketStored
        sum_list_map_remove1 [OF assms(2), of "\<lambda>j. scope_rank (heap (sys_reg s) j)"]
      by (simp add: drain_work_def end_deleteScope_def del: map_eq_conv)
    then show ?thesis using step_end_delete [OF sc(1) TicketStored] by fastforce
  next
    case Ended
    with sc show ?thesis by simp
  qed
qed

lemma drain_progress_pending:
  assumes "ids_inv (sys_reg s)" "i \<in> set (reg_pending (sys_reg s))"
  shows "\<exists>s'. registry_step s s' \<and> sys_drain s' = sys_drain s \<and> drain_work s' < drain_work s"
proof (intro exI conjI)
  show "registry_step s (s\<lparr>sys_reg := PendingDispatch_End (sys_reg s) i\<rparr>)" by (rule step_pending_end)
  have "once_done (sys_reg s) i = Some False" using assms by (simp add: ids_inv_def)
  then show "drain_work (s\<lparr>sys_reg := PendingDispatch_End (sys_reg s) i\<rparr>) < drain_work s"
    using assms(2) length_pos_if_in_set [OF assms(2)]
    by (simp add: drain_work_def PendingDispatch_End_def length_remove1)
qed simp


text \<open>
  Once a \<open>Drain\<close> has returned nil the registry stays closed and empty whatever is called
  later, so no dispatch can begin and none can be installed.
\<close>

theorem Drain_returned_is_final:
  assumes "registry_reachable s" and "sys_drain s t = DrainReturned None"
    and "registry_step\<^sup>*\<^sup>* s s'"
  shows "reg_state (sys_reg s') = StateClosed \<and> reg_pending (sys_reg s') = [] \<and>
         reg_scopes (sys_reg s') = [] \<and>
         BeginDispatch (sys_reg s') = Inl ErrRegistryNotAccepting \<and>
         (\<forall>i spec. \<exists>e. fst (Install (sys_reg s') i spec) = Inl e)"
proof -
  have "drain_inv (sys_reg s) (DrainReturned None)"
    using reachable_system_inv [OF assms(1)] assms(2) unfolding system_inv_def by metis
  then have "drain_inv (sys_reg s') (DrainReturned None)"
    using er.stable_run [OF assms(3) reachable_system_inv [OF assms(1)],
        where P = "\<lambda>a. drain_inv (sys_reg a) (DrainReturned None)"] drain_inv_keeps by blast
  then show ?thesis by (simp add: Drain_idle_def BeginDispatch_def Install_def)
qed

text \<open>
  (C37) A resource is never leaked by a shutdown. When \<open>Drain\<close> waits or was cancelled, the close of
  every resource bound to a scope still listed has been started, and no further resource can be
  bound; and in every reachable state a scope whose release was recorded had no resource, or
  its close function had returned before.
\<close>

theorem resources_closed:
  assumes "registry_reachable s" and "heap (sys_reg s) i = Some sc"
  shows "(sys_drain s t \<in> {DrainWaiting, DrainCancelled} \<longrightarrow> i \<in> set (reg_scopes (sys_reg s)) \<longrightarrow>
            sc_closeFn sc = None \<and>
            Scope_Bind (sys_reg s) i (Some f) = (Some ErrRegistryNotAccepting, sys_reg s)) \<and>
         (released_phase (sc_phase sc) \<longrightarrow> sc_closeFn sc = None \<and> sc_closeDone sc \<noteq> Some False)"
proof -
  have inv: "drain_inv (sys_reg s) (sys_drain s t)" "scope_inv sc"
    using reachable_system_inv [OF assms(1)] assms(2) by (auto simp: system_inv_def scopes_inv_def)
  then show ?thesis
    using assms(2) by (auto simp: drain_unbound_def Scope_Bind_def scope_inv_def)
qed


section \<open>Concrete runs\<close>

text \<open>
  One accounted dispatch is installed and bound, a \<open>Drain\<close> starts closing its resource, and its
  owner ends it: the close function has returned and the release is about to be recorded.
\<close>

definition demo_spec :: ScopeSpec where
  "demo_spec = \<lparr>spec_RequestID = ''r'', spec_CredentialID = ''c'', spec_Model = ''m'',
     spec_Kind = ''chat'', spec_StartedAt = 1, spec_Accounted = True\<rparr>"

definition demo_scope :: "nat option \<Rightarrow> bool option \<Rightarrow> bool \<Rightarrow> EndPhase \<Rightarrow> Scope" where
  "demo_scope closeFn closeDone active phase =
     \<lparr>sc_spec = demo_spec, sc_closeFn = closeFn, sc_closeDone = closeDone, sc_releaseTicket = None,
      sc_active = active, sc_phase = phase\<rparr>"

definition demo_state :: "RegistryState \<Rightarrow> Scope \<Rightarrow> DrainPC \<Rightarrow> RegistrySystem" where
  "demo_state st sc pc =
     init_system\<lparr>sys_reg := New\<lparr>reg_state := st, reg_next := 1, reg_scopes := [1],
        once_done := [1 \<mapsto> True], heap := [1 \<mapsto> sc]\<rparr>,
      sys_drain := (\<lambda>_. DrainNotStarted)(0 := pc)\<rparr>"

lemmas demo_defs = demo_state_def demo_scope_def init_system_def New_def region_defs

lemma demo_bound:
  "registry_reachable (demo_state StateAccepting (demo_scope (Some 7) None True NotEnded) DrainNotStarted)"
proof -
  let ?r1 = "New\<lparr>reg_next := 1, reg_pending := [1], once_done := [1 \<mapsto> False]\<rparr>"
  have "registry_reachable (init_system\<lparr>sys_reg := ?r1\<rparr>)"
    using step_begin [of init_system 1 ?r1]
    by (intro r_into_rtranclp) (simp add: init_system_def BeginDispatch_def New_def)
  then have "registry_reachable (init_system\<lparr>sys_reg := snd (Install ?r1 1 demo_spec)\<rparr>)"
    using step_install [of "init_system\<lparr>sys_reg := ?r1\<rparr>" 1 demo_spec]
    by (auto intro: rtranclp.rtrancl_into_rtrancl)
  then have "registry_reachable (init_system\<lparr>sys_reg :=
      snd (Scope_Bind (snd (Install ?r1 1 demo_spec)) 1 (Some 7))\<rparr>)"
    using step_bind [of "init_system\<lparr>sys_reg := snd (Install ?r1 1 demo_spec)\<rparr>" 1 "Some 7"]
    by (auto intro: rtranclp.rtrancl_into_rtrancl)
  moreover have "(\<lambda>_. DrainNotStarted)(0 := DrainNotStarted) = (\<lambda>_::nat. DrainNotStarted)" by auto
  ultimately show ?thesis by (simp add: demo_defs)
qed

lemma demo_waiting:
  "registry_reachable (demo_state StateDraining (demo_scope None (Some False) True NotEnded) DrainWaiting)"
proof -
  let ?a = "demo_scope (Some 7) None True NotEnded"
  let ?b = "demo_scope None (Some False) True NotEnded"
  have "registry_step (demo_state StateAccepting ?a DrainNotStarted) (demo_state StateDraining ?a DrainEntered)"
    using step_drain_enter [of "demo_state StateAccepting ?a DrainNotStarted" 0]
    by (simp add: demo_defs)
  moreover have "registry_step (demo_state StateDraining ?a DrainEntered) (demo_state StateDraining ?a (DrainClosing [1]))"
    using step_drain_snapshot [of "demo_state StateDraining ?a DrainEntered" 0]
    by (simp add: demo_defs)
  moreover have "registry_step (demo_state StateDraining ?a (DrainClosing [1])) (demo_state StateDraining ?b (DrainClosing []))"
    using step_drain_close [of "demo_state StateDraining ?a (DrainClosing [1])" 0 1 "[]"]
    by (simp add: demo_defs)
  moreover have "registry_step (demo_state StateDraining ?b (DrainClosing [])) (demo_state StateDraining ?b DrainWaiting)"
    using step_drain_wait [of "demo_state StateDraining ?b (DrainClosing [])" 0]
    by (simp add: demo_defs)
  ultimately show ?thesis using demo_bound by (meson rtranclp.rtrancl_into_rtrancl)
qed

abbreviation demo_awaiting :: Scope where
  "demo_awaiting \<equiv> demo_scope None (Some True) False AwaitingClose"

lemma demo_releasing: "registry_reachable (demo_state StateDraining demo_awaiting DrainWaiting)"
proof -
  let ?c = "\<lambda>sc. demo_state StateDraining sc DrainWaiting"
  have "registry_step (?c (demo_scope None (Some False) True NotEnded))
      (?c (demo_scope None (Some False) False MarkedInactive))"
    using step_end_mark [of "?c (demo_scope None (Some False) True NotEnded)" 1] by (simp add: demo_defs)
  moreover have "registry_step (?c (demo_scope None (Some False) False MarkedInactive))
      (?c (demo_scope None (Some False) False AwaitingClose))"
    using step_end_close [of "?c (demo_scope None (Some False) False MarkedInactive)" 1]
    by (simp add: demo_defs del: not_None_eq)
  moreover have "registry_step (?c (demo_scope None (Some False) False AwaitingClose)) (?c demo_awaiting)"
    using step_resource_closed [of "?c (demo_scope None (Some False) False AwaitingClose)" 1] by (simp add: demo_defs)
  ultimately show ?thesis using demo_waiting by (meson rtranclp.rtrancl_into_rtrancl)
qed

lemma demo_empty_drain:
  "registry_reachable (init_system\<lparr>sys_reg := New\<lparr>reg_state := StateClosed\<rparr>,
     sys_drain := (\<lambda>_. DrainNotStarted)(0 := DrainReturned None)\<rparr>)"
proof -
  let ?s = "\<lambda>st pc. init_system\<lparr>sys_reg := New\<lparr>reg_state := st\<rparr>,
     sys_drain := (\<lambda>_. DrainNotStarted)(0 := pc)\<rparr>"
  have "registry_step init_system (?s StateDraining DrainEntered)"
    using step_drain_enter [of init_system 0] by (simp add: demo_defs)
  moreover have "registry_step (?s StateDraining DrainEntered) (?s StateDraining (DrainClosing []))"
    using step_drain_snapshot [of "?s StateDraining DrainEntered" 0] by (simp add: demo_defs)
  moreover have "registry_step (?s StateDraining (DrainClosing [])) (?s StateDraining DrainWaiting)"
    using step_drain_wait [of "?s StateDraining (DrainClosing [])" 0] by (simp add: demo_defs)
  moreover have "registry_step (?s StateDraining DrainWaiting) (?s StateClosed (DrainReturned None))"
    using step_drain_done [of "?s StateDraining DrainWaiting" 0] by (simp add: demo_defs)
  ultimately show ?thesis by (meson rtranclp.rtrancl_into_rtrancl rtranclp.rtrancl_refl)
qed

theorem release_sequence_counts_witness:
  "\<exists>s. registry_reachable s \<and> heap (sys_reg s) 1 = Some demo_awaiting \<and>
       sc_phase demo_awaiting = AwaitingClose \<and> spec_Accounted (sc_spec demo_awaiting) \<and>
       snd (snd (fst (markReleasedLocked (sys_reg s) demo_awaiting))) = 1"
proof (intro exI [of _ "demo_state StateDraining demo_awaiting DrainWaiting"] conjI)
  let ?s = "demo_state StateDraining demo_awaiting DrainWaiting"
  show "registry_reachable ?s" by (rule demo_releasing)
  show heap: "heap (sys_reg ?s) 1 = Some demo_awaiting" by (simp add: demo_state_def)
  show ph: "sc_phase demo_awaiting = AwaitingClose" and acc: "spec_Accounted (sc_spec demo_awaiting)"
    by (simp_all add: demo_scope_def demo_spec_def)
  have "released_scopes (sys_reg ?s) g = {}" for g
    by (auto simp: released_scopes_def demo_state_def demo_scope_def)
  then show "snd (snd (fst (markReleasedLocked (sys_reg ?s) demo_awaiting))) = 1"
    using release_sequence_counts [OF demo_releasing heap ph acc refl] by simp
qed


theorem Drain_returned_is_final_witness:
  "\<exists>s. registry_reachable s \<and> sys_drain s 0 = DrainReturned None \<and> registry_step\<^sup>*\<^sup>* s s \<and>
       BeginDispatch (sys_reg s) = Inl ErrRegistryNotAccepting"
proof -
  let ?s = "init_system\<lparr>sys_reg := New\<lparr>reg_state := StateClosed\<rparr>,
     sys_drain := (\<lambda>_. DrainNotStarted)(0 := DrainReturned None)\<rparr>"
  have "BeginDispatch (sys_reg ?s) = Inl ErrRegistryNotAccepting"
    using Drain_returned_is_final [OF demo_empty_drain _ rtranclp.rtrancl_refl, of 0] by simp
  with demo_empty_drain show ?thesis by (intro exI [of _ ?s]) simp
qed

theorem resources_closed_witness:
  "\<exists>s. registry_reachable s \<and> sys_drain s 0 = DrainWaiting \<and> 1 \<in> set (reg_scopes (sys_reg s)) \<and>
       heap (sys_reg s) 1 = Some demo_awaiting \<and>
       Scope_Bind (sys_reg s) 1 (Some 9) = (Some ErrRegistryNotAccepting, sys_reg s)"
proof (intro exI [of _ "demo_state StateDraining demo_awaiting DrainWaiting"] conjI)
  show h: "heap (sys_reg (demo_state StateDraining demo_awaiting DrainWaiting)) 1 = Some demo_awaiting"
    by (simp add: demo_state_def)
  show "Scope_Bind (sys_reg (demo_state StateDraining demo_awaiting DrainWaiting)) 1 (Some 9) =
      (Some ErrRegistryNotAccepting, sys_reg (demo_state StateDraining demo_awaiting DrainWaiting))"
    using resources_closed [OF demo_releasing h, of 0 9] by (simp add: demo_state_def)
qed (simp_all add: demo_releasing, simp_all add: demo_state_def)


end
