(* ===== verification/Credential.thy ===== *)
theory Credential
  imports Thinking "HOL-Library.Word"
begin

text \<open>
  One credential and whether it may serve a model: the part of \<open>Auth\<close>
  (\<open>sdk/cliproxy/auth/types.go\<close>) that routing reads, the credential weights
  (\<open>internal/credentialweight\<close>, \<open>weight.go\<close>, \<open>priority.go\<close>), the errors a selection returns
  (\<open>errors.go\<close>) and the availability test of \<open>selector.go\<close>.

  A pointer to an \<open>Auth\<close> is the record it points to; the operations here only read it, and the
  lists they get hold no nil. \<open>AccessTokenExpiration\<close> is what \<open>AccessTokenExpirationTime\<close> derives
  from the stored token, \<open>None\<close> when it reports no expiration; \<open>AccessToken\<close>, \<open>SIWCAccessToken\<close> and
  \<open>HasRefreshCredential\<close> are what \<open>authAccessToken\<close>, \<open>authSIWCTokenField\<close> and
  \<open>authHasRefreshCredential\<close> read from it. A finite \<open>float64\<close> is the rational it denotes.
\<close>

section \<open>Data\<close>

datatype float64 = F64_NaN | F64_PosInf | F64_NegInf | F64 rat

text \<open>
  The dynamic types a metadata value can have: the signed integers, \<open>uint8\<close> and \<open>uint16\<close>, the
  other unsigned integers, and the rest.
\<close>

datatype GoValue =
    VBool bool | VString string | VInt int | VUintSmall "16 word" | VUint "64 word" | VFloat float64
  | VNumber string | VNil | VOther

record AuthError =
  err_Code :: string
  err_Message :: string
  err_Retryable :: bool
  err_HTTPStatus :: int

abbreviation StatusError :: string where "StatusError \<equiv> ''error''"
abbreviation StatusDisabled :: string where "StatusDisabled \<equiv> ''disabled''"
abbreviation StatusActive :: string where "StatusActive \<equiv> ''active''"

record QuotaState =
  quota_Exceeded :: bool
  quota_Reason :: string
  quota_NextRecoverAt :: time
  quota_BackoffLevel :: int
  quota_ObservedAt :: time
  quota_Signals :: "(string \<times> string) list"

text \<open>
  A \<open>ModelState\<close> and the state of its own failures that a propagated credential quota covers. The
  covered state has none beneath it (\<open>cloneShallow\<close>), so it is a layer without that field.
\<close>

record ModelLayer =
  ms_Status :: string
  ms_StatusMessage :: string
  ms_Unavailable :: bool
  ms_NextRetryAfter :: time
  ms_LastError :: "AuthError option"
  ms_Quota :: QuotaState
  ms_UpdatedAt :: time
  ms_cooldownRecordedSeq :: nat
  ms_credentialQuotaPropagated :: bool

record ModelState = ModelLayer +
  ms_credentialQuotaShadow :: "ModelLayer option"

record CapacityWindow =
  win_ScopeModel :: string
  win_RemainingPercent :: float64
  win_ResetAt :: time
  win_Known :: bool
  win_HardExhausted :: bool
  win_Routing :: bool
  win_PeriodSeconds :: int

record CapacityState =
  cap_Supported :: bool
  cap_FetchedAt :: time
  cap_StaleAt :: time
  cap_Windows :: "CapacityWindow list"

record Auth =
  auth_ID :: string
  auth_RegistrationEpoch :: nat
  auth_Generation :: nat
  auth_Provider :: string
  auth_Label :: string
  auth_Status :: string
  auth_StatusMessage :: string
  auth_Disabled :: bool
  auth_Unavailable :: bool
  auth_Attributes :: "(string \<times> string) list"
  auth_Metadata :: "(string \<times> GoValue) list"
  auth_Quota :: QuotaState
  auth_Capacity :: CapacityState
  auth_LastError :: "AuthError option"
  auth_UpdatedAt :: time
  auth_NextRefreshAfter :: time
  auth_NextRetryAfter :: time
  auth_ModelStates :: "(string \<times> ModelState option) list"
  auth_CredentialVersion :: nat
  auth_Success :: int
  auth_Failed :: int
  auth_LastRefreshedAt :: time
  auth_cooldownRecordedSeq :: nat
  auth_RejectedAccessToken :: string
  auth_RejectedSIWCAccessToken :: string
  auth_FileName :: string
  AccessToken :: string
  SIWCAccessToken :: string
  HasRefreshCredential :: bool
  AccessTokenExpiration :: "time option"

section \<open>Errors (errors.go, selector.go)\<close>

text \<open>
  The error values of a selection: an \<open>*Error\<close>, the wrappers that add a cause, and the text of
  \<open>errors.New\<close>, which carries no status.
\<close>

datatype GoError =
    PlainError AuthError
  | TextError string
  | ErrorWithCause AuthError GoError
  | TerminalAuthError AuthError "GoError option"
  | AuthUnavailableError AuthError duration "GoError option"
  | ModelCooldownError string string duration "GoError option"

definition plain_error :: "string \<Rightarrow> string \<Rightarrow> AuthError" where
  "plain_error code msg = \<lparr>err_Code = code, err_Message = msg, err_Retryable = False, err_HTTPStatus = 0\<rparr>"

definition WithCause :: "AuthError \<Rightarrow> GoError option \<Rightarrow> GoError" where
  "WithCause err cause = (case cause of None \<Rightarrow> PlainError err | Some c \<Rightarrow> ErrorWithCause err c)"

definition NewTerminalAuthError :: "AuthError \<Rightarrow> GoError option \<Rightarrow> GoError" where
  "NewTerminalAuthError err cause = TerminalAuthError err cause"

definition newModelCooldownErrorWithCause ::
    "string \<Rightarrow> string \<Rightarrow> duration \<Rightarrow> GoError option \<Rightarrow> GoError" where
  "newModelCooldownErrorWithCause model provider resetIn cause =
     ModelCooldownError model provider (if resetIn < 0 then 0 else resetIn) cause"

definition newAuthUnavailableErrorWithCause :: "time \<Rightarrow> time \<Rightarrow> GoError option \<Rightarrow> GoError" where
  "newAuthUnavailableErrorWithCause next now cause =
     (let err = plain_error ''auth_unavailable'' ''no auth available''
      in if next > now
         then AuthUnavailableError (err\<lparr>err_HTTPStatus := 503, err_Retryable := True\<rparr>)
                (time_sub next now) cause
         else WithCause err cause)"

fun StatusCode :: "GoError \<Rightarrow> int" where
  "StatusCode (PlainError e) = err_HTTPStatus e"
| "StatusCode (TextError _) = 0"
| "StatusCode (ErrorWithCause e _) = err_HTTPStatus e"
| "StatusCode (TerminalAuthError e _) = err_HTTPStatus e"
| "StatusCode (AuthUnavailableError e _ _) = err_HTTPStatus e"
| "StatusCode (ModelCooldownError _ _ _ _) = 429"

fun Unwrap :: "GoError \<Rightarrow> GoError option" where
  "Unwrap (PlainError e) = None"
| "Unwrap (TextError s) = None"
| "Unwrap (ErrorWithCause e c) = Some c"
| "Unwrap (TerminalAuthError e c) = c"
| "Unwrap (AuthUnavailableError e d c) = c"
| "Unwrap (ModelCooldownError m p d c) = c"

fun IsTerminalAuthError :: "GoError \<Rightarrow> bool" where
  "IsTerminalAuthError (PlainError e) = False"
| "IsTerminalAuthError (TextError s) = False"
| "IsTerminalAuthError (ErrorWithCause e c) = IsTerminalAuthError c"
| "IsTerminalAuthError (TerminalAuthError e c) = True"
| "IsTerminalAuthError (AuthUnavailableError e d None) = False"
| "IsTerminalAuthError (AuthUnavailableError e d (Some c)) = IsTerminalAuthError c"
| "IsTerminalAuthError (ModelCooldownError m p d None) = False"
| "IsTerminalAuthError (ModelCooldownError m p d (Some c)) = IsTerminalAuthError c"

section \<open>Weights and priorities\<close>

datatype WeightError = WeightNotInteger | WeightExceedsMax

abbreviation Default_weight :: int where "Default_weight \<equiv> 1"
abbreviation Max_weight :: int where "Max_weight \<equiv> 1000000"

definition Normalize :: "int \<Rightarrow> WeightError + int" where
  "Normalize weight =
     (if weight \<le> 0 then Inr 0 else if weight > Max_weight then Inl WeightExceedsMax else Inr weight)"

definition ParseString :: "string \<Rightarrow> WeightError + int" where
  "ParseString raw =
     (let raw = trim_space raw
      in if raw = '''' then Inr Default_weight
         else case parse_int raw of None \<Rightarrow> Inl WeightNotInteger | Some w \<Rightarrow> Normalize w)"

fun ParseValue :: "GoValue \<Rightarrow> WeightError + int" where
  "ParseValue (VInt i) = Normalize i"
| "ParseValue (VUintSmall n) = Inr (uint n)"
| "ParseValue (VUint n) = (if uint n > Max_weight then Inl WeightExceedsMax else Inr (uint n))"
| "ParseValue (VFloat (F64 r)) =
     (if rat_of_int \<lfloor>r\<rfloor> \<noteq> r then Inl WeightNotInteger
      else if r \<le> 0 then Inr 0
      else if r > rat_of_int Max_weight then Inl WeightExceedsMax
      else Inr \<lfloor>r\<rfloor>)"
| "ParseValue (VFloat _) = Inl WeightNotInteger"
| "ParseValue (VNumber s) = (case parse_int s of None \<Rightarrow> Inl WeightNotInteger | Some w \<Rightarrow> Normalize w)"
| "ParseValue (VString s) = ParseString s"
| "ParseValue _ = Inl WeightNotInteger"

definition authWeight :: "Auth \<Rightarrow> int" where
  "authWeight a =
     (case map_of (auth_Attributes a) ''weight'' of
        Some raw \<Rightarrow>
          if trim_space raw \<noteq> '''' then (case ParseString raw of Inl _ \<Rightarrow> 0 | Inr w \<Rightarrow> w)
          else (case map_of (auth_Metadata a) ''weight'' of
                  Some v \<Rightarrow> (case ParseValue v of Inl _ \<Rightarrow> 0 | Inr w \<Rightarrow> w)
                | None \<Rightarrow> Default_weight)
      | None \<Rightarrow>
          (case map_of (auth_Metadata a) ''weight'' of
             Some v \<Rightarrow> (case ParseValue v of Inl _ \<Rightarrow> 0 | Inr w \<Rightarrow> w)
           | None \<Rightarrow> Default_weight))"

definition authPriority :: "Auth \<Rightarrow> int" where
  "authPriority a =
     (let raw = trim_space (get_or '''' (auth_Attributes a) ''priority'')
      in if raw = '''' then 0
         else case parse_int raw of None \<Rightarrow> 0 | Some p \<Rightarrow> p)"

datatype AuthWeightError = InvalidAttributesWeight WeightError | InvalidMetadataWeight WeightError

definition ValidateAuthWeight :: "Auth \<Rightarrow> AuthWeightError option" where
  "ValidateAuthWeight a =
     (case (case map_of (auth_Attributes a) ''weight'' of
              None \<Rightarrow> None
            | Some raw \<Rightarrow> (case ParseString raw of Inl e \<Rightarrow> Some (InvalidAttributesWeight e) | Inr _ \<Rightarrow> None)) of
        Some e \<Rightarrow> Some e
      | None \<Rightarrow>
          (case map_of (auth_Metadata a) ''weight'' of
             None \<Rightarrow> None
           | Some v \<Rightarrow> (case ParseValue v of Inl e \<Rightarrow> Some (InvalidMetadataWeight e) | Inr _ \<Rightarrow> None)))"

text \<open>A nil map is the empty one: reading and writing through either gives the same.\<close>

definition ApplyAuthWeightMetadata :: "Auth \<Rightarrow> (string \<times> GoValue) list \<Rightarrow> AuthWeightError + Auth" where
  "ApplyAuthWeightMetadata a metadata =
     (case ValidateAuthWeight a of
        Some e \<Rightarrow> Inl e
      | None \<Rightarrow>
          (case map_of metadata ''weight'' of
             None \<Rightarrow> Inr a
           | Some v \<Rightarrow>
               (case ParseValue v of
                  Inl e \<Rightarrow> Inl (InvalidMetadataWeight e)
                | Inr w \<Rightarrow> Inr (a\<lparr>auth_Attributes :=
                     AList.update ''weight'' (format_int w) (auth_Attributes a)\<rparr>))))"

text \<open>\<open>int(value)\<close> of a \<open>float64\<close> truncates towards zero; it is undefined when out of range.\<close>

definition float_to_int :: "rat \<Rightarrow> int" where
  "float_to_int r = (if r < 0 then \<lceil>r\<rceil> else \<lfloor>r\<rfloor>)"

definition ApplyAuthPriorityMetadata :: "Auth \<Rightarrow> (string \<times> GoValue) list \<Rightarrow> Auth" where
  "ApplyAuthPriorityMetadata a metadata =
     (let a = a\<lparr>auth_Attributes := AList.delete ''file_priority'' (auth_Attributes a)\<rparr>;
          put = (\<lambda>raw priority. a\<lparr>
             auth_Metadata := AList.update ''priority'' raw (auth_Metadata a),
             auth_Attributes := AList.update ''file_priority'' ''true''
                                  (AList.update ''priority'' priority (auth_Attributes a))\<rparr>)
      in case map_of metadata ''priority'' of
           Some (VFloat (F64 r)) \<Rightarrow> put (VFloat (F64 r)) (format_int (float_to_int r))
         | Some (VString s) \<Rightarrow>
             (if parse_int (trim_space s) = None then a else put (VString s) (trim_space s))
         | _ \<Rightarrow> a)"

section \<open>Keys\<close>

definition canonicalModelKey :: "string \<Rightarrow> string" where
  "canonicalModelKey model =
     (let model = trim_space model
      in if model = '''' then ''''
         else let modelName = trim_space (ModelName (ParseSuffix model))
              in if modelName = '''' then model else modelName)"

definition has_prefix :: "string \<Rightarrow> string \<Rightarrow> bool" where
  [go_defs]: "has_prefix s p \<longleftrightarrow> take (length p) s = p"

definition OpenAICompatibleProviderKey :: "string \<Rightarrow> string" where
  "OpenAICompatibleProviderKey name =
     (let name = to_lower (trim_space name)
      in if name = '''' \<or> name = ''openai-compatibility'' \<or> has_prefix name ''openai-compatible-''
         then (if name = '''' then ''openai-compatibility'' else name)
         else ''openai-compatible-'' @ name)"

definition canonicalSchedulingProvider :: "string \<Rightarrow> string" where
  "canonicalSchedulingProvider key =
     (let lower = to_lower (trim_space key)
      in if lower = ''kimi.com'' then ''kimi''
         else if lower = ''kimi.ai'' then ''kimi-ai''
         else lower)"

definition executorKeyFromAuth :: "Auth \<Rightarrow> string" where
  "executorKeyFromAuth a =
     (let providerKey = trim_space (get_or '''' (auth_Attributes a) ''provider_key'');
          compatName = trim_space (get_or '''' (auth_Attributes a) ''compat_name'')
      in if compatName \<noteq> ''''
         then OpenAICompatibleProviderKey (if providerKey = '''' then compatName else providerKey)
         else if equal_fold (trim_space (auth_Provider a)) ''openai-compatibility''
         then (let label = trim_space (auth_Label a)
               in OpenAICompatibleProviderKey (if label = '''' then ''openai-compatibility'' else label))
         else (let provider = to_lower (trim_space (auth_Provider a))
               in if provider = ''kimi.com'' then ''kimi''
                  else if provider = ''kimi.ai'' then ''kimi-ai''
                  else provider))"

definition authWebsocketsEnabled :: "Auth \<Rightarrow> bool" where
  "authWebsocketsEnabled a =
     (let raw = trim_space (get_or '''' (auth_Attributes a) ''websockets'')
      in case (if raw = '''' then None else parse_bool raw) of
           Some b \<Rightarrow> b
         | None \<Rightarrow>
             (case map_of (auth_Metadata a) ''websockets'' of
                Some (VBool b) \<Rightarrow> b
              | Some (VString s) \<Rightarrow> (case parse_bool (trim_space s) of Some b \<Rightarrow> b | None \<Rightarrow> False)
              | _ \<Rightarrow> False))"

section \<open>Availability\<close>

datatype blockReason = blockReasonNone | blockReasonCooldown | blockReasonDisabled | blockReasonOther

definition hasUnauthorizedAuthFailure :: "Auth \<Rightarrow> bool" where
  "hasUnauthorizedAuthFailure a \<longleftrightarrow>
     (case auth_LastError a of
        None \<Rightarrow> False
      | Some e \<Rightarrow>
          auth_Unavailable a \<and> auth_Status a = StatusError \<and> auth_NextRefreshAfter a = 0 \<and>
          auth_NextRetryAfter a = 0 \<and>
          (err_HTTPStatus e = 401 \<or> equal_fold (err_Code e) ''unauthorized''))"

definition availabilityBlock ::
    "bool \<Rightarrow> bool \<Rightarrow> time \<Rightarrow> time \<Rightarrow> time \<Rightarrow> bool \<times> blockReason \<times> time" where
  "availabilityBlock unavailable quotaExceeded nextRetryAfter nextRecoverAt now =
     (if \<not> unavailable \<and> \<not> quotaExceeded then (False, blockReasonNone, 0)
      else let hasRecoveryTime = (nextRetryAfter \<noteq> 0 \<or> nextRecoverAt \<noteq> 0);
               next = fold (\<lambda>candidate next.
                          if candidate > now \<and> (next = 0 \<or> candidate > next) then candidate else next)
                        [nextRetryAfter, nextRecoverAt] 0
           in if next \<noteq> 0
              then (if quotaExceeded then (True, blockReasonCooldown, next)
                    else (True, blockReasonOther, next))
              else if hasRecoveryTime then (False, blockReasonNone, 0)
              else (True, blockReasonOther, 0))"

text \<open>
  The loop over \<open>ModelStates\<close>: \<open>Inl\<close> is the early return, \<open>Inr\<close> carries \<open>matched\<close>, \<open>blocked\<close>,
  \<open>blockedReason\<close> and \<open>nextRetry\<close>.
\<close>

fun scanModelStates ::
    "string \<Rightarrow> time \<Rightarrow> (string \<times> ModelState option) list \<Rightarrow> bool \<times> bool \<times> blockReason \<times> time \<Rightarrow>
     (bool \<times> blockReason \<times> time) + (bool \<times> bool \<times> blockReason \<times> time)" where
  "scanModelStates modelKey now [] acc = Inr acc"
| "scanModelStates modelKey now ((stateModel, None) # states) acc =
     scanModelStates modelKey now states acc"
| "scanModelStates modelKey now ((stateModel, Some state) # states) (matched, blocked, blockedReason, nextRetry) =
     (if canonicalModelKey stateModel \<noteq> modelKey
      then scanModelStates modelKey now states (matched, blocked, blockedReason, nextRetry)
      else if ms_Status state = StatusDisabled then Inl (True, blockReasonDisabled, 0)
      else let (stateBlocked, reason, next) =
                 availabilityBlock (ms_Unavailable state) (quota_Exceeded (ms_Quota state))
                   (ms_NextRetryAfter state) (quota_NextRecoverAt (ms_Quota state)) now
           in if \<not> stateBlocked
              then scanModelStates modelKey now states (True, blocked, blockedReason, nextRetry)
              else if next = 0 then Inl (True, reason, 0)
              else if \<not> blocked \<or> next > nextRetry \<or> (next = nextRetry \<and> reason = blockReasonCooldown)
              then scanModelStates modelKey now states (True, True, reason, next)
              else scanModelStates modelKey now states (True, blocked, blockedReason, nextRetry))"

text \<open>
  The last part of the test, per model or for the credential as a whole, once the tests of the
  credential itself have passed.
\<close>

definition modelBlock :: "Auth \<Rightarrow> string \<Rightarrow> time \<Rightarrow> bool \<times> blockReason \<times> time" where
  "modelBlock a model now =
     (if model \<noteq> ''''
      then (if auth_ModelStates a \<noteq> []
            then (case scanModelStates (canonicalModelKey model) now (auth_ModelStates a)
                         (False, False, blockReasonNone, 0) of
                    Inl result \<Rightarrow> result
                  | Inr (matched, blocked, reason, nextRetry) \<Rightarrow>
                      (if matched then (blocked, reason, nextRetry) else (False, blockReasonNone, 0)))
            else availabilityBlock (auth_Unavailable a) (quota_Exceeded (auth_Quota a))
                   (auth_NextRetryAfter a) (quota_NextRecoverAt (auth_Quota a)) now)
      else let quotaExceeded =
                 (if auth_ModelStates a \<noteq> [] \<and> quota_Reason (auth_Quota a) \<noteq> ''credential_quota'' \<and>
                     \<not> auth_Unavailable a
                  then False else quota_Exceeded (auth_Quota a))
           in availabilityBlock (auth_Unavailable a) quotaExceeded (auth_NextRetryAfter a)
                (quota_NextRecoverAt (auth_Quota a)) now)"

definition tokenExpired :: "Auth \<Rightarrow> time \<Rightarrow> bool" where
  "tokenExpired a now \<longleftrightarrow>
     (case AccessTokenExpiration a of None \<Rightarrow> False | Some e \<Rightarrow> e \<noteq> 0 \<and> \<not> e > now)"

definition credentialQuotaActive :: "Auth \<Rightarrow> time \<Rightarrow> bool" where
  "credentialQuotaActive a now \<longleftrightarrow>
     quota_Exceeded (auth_Quota a) \<and> quota_Reason (auth_Quota a) = ''credential_quota'' \<and>
     quota_NextRecoverAt (auth_Quota a) > now"

definition isAuthBlockedForModel :: "Auth \<Rightarrow> string \<Rightarrow> time \<Rightarrow> bool \<times> blockReason \<times> time" where
  "isAuthBlockedForModel a model now =
     (if auth_Disabled a \<or> auth_Status a = StatusDisabled then (True, blockReasonDisabled, 0)
      else if hasUnauthorizedAuthFailure a then (True, blockReasonOther, 0)
      else if tokenExpired a now then (True, blockReasonOther, 0)
      else if credentialQuotaActive a now
      then (True, blockReasonCooldown, quota_NextRecoverAt (auth_Quota a))
      else modelBlock a model now)"

section \<open>Weights are bounded and survive being written down\<close>

lemma Normalize_bounds: "Normalize i = Inr w \<Longrightarrow> 0 \<le> w \<and> w \<le> Max_weight"
  by (auto simp: Normalize_def split: if_splits)

lemma ParseString_bounds: "ParseString s = Inr w \<Longrightarrow> 0 \<le> w \<and> w \<le> Max_weight"
  by (auto simp: ParseString_def Let_def dest: Normalize_bounds split: if_splits option.splits)

lemma ParseValue_bounds: "ParseValue v = Inr w \<Longrightarrow> 0 \<le> w \<and> w \<le> Max_weight"
proof (induction v rule: ParseValue.induct)
  case (2 n)
  then show ?case using uint_lt2p [of n] by auto
next
  case (4 r)
  then show ?case by (auto simp: floor_le_iff split: if_splits)
qed (auto dest: Normalize_bounds ParseString_bounds split: if_splits option.splits)

lemma authWeight_bounds: "0 \<le> authWeight a" "authWeight a \<le> Max_weight"
  by (auto simp: authWeight_def dest: ParseString_bounds ParseValue_bounds split: option.splits sum.splits)

lemma ParseString_format: "0 \<le> w \<Longrightarrow> w \<le> Max_weight \<Longrightarrow> ParseString (format_int w) = Inr w"
  by (simp add: ParseString_def Normalize_def int64_def)

text \<open>
  A weight taken from the metadata of an auth file is the weight that routing uses. When
  \<open>ApplyAuthWeightMetadata\<close> accepts the value, it is an integer between 0 and the maximum, and the
  decimal text it stores in the attributes parses back to that same weight, whatever the
  attributes and the metadata of the credential said before.
\<close>

theorem ApplyAuthWeightMetadata_roundtrip:
  assumes "ApplyAuthWeightMetadata a metadata = Inr a'" and "map_of metadata ''weight'' = Some v"
  shows "ParseValue v = Inr (authWeight a') \<and> 0 \<le> authWeight a' \<and> authWeight a' \<le> Max_weight \<and>
         ValidateAuthWeight a' = None"
proof -
  obtain w where w: "ParseValue v = Inr w" and valid: "ValidateAuthWeight a = None"
    and a': "a' = a\<lparr>auth_Attributes := AList.update ''weight'' (format_int w) (auth_Attributes a)\<rparr>"
    using assms by (auto simp: ApplyAuthWeightMetadata_def split: option.splits sum.splits)
  have "authWeight a' = w"
    using ParseValue_bounds [OF w] by (simp add: a' authWeight_def ParseString_format)
  moreover have "ValidateAuthWeight a' = None"
    using ParseValue_bounds [OF w] valid
    by (auto simp: a' ValidateAuthWeight_def ParseString_format split: option.splits sum.splits)
  ultimately show ?thesis using w ParseValue_bounds [OF w] by simp
qed

definition sample_auth :: "string \<Rightarrow> Auth" where
  "sample_auth i = \<lparr>auth_ID = i, auth_RegistrationEpoch = 0, auth_Generation = 0,
     auth_Provider = ''gemini'', auth_Label = '''', auth_Status = StatusActive,
     auth_StatusMessage = '''', auth_Disabled = False,
     auth_Unavailable = False, auth_Attributes = [], auth_Metadata = [],
     auth_Quota = \<lparr>quota_Exceeded = False, quota_Reason = '''', quota_NextRecoverAt = 0,
       quota_BackoffLevel = 0, quota_ObservedAt = 0, quota_Signals = []\<rparr>,
     auth_Capacity = \<lparr>cap_Supported = False, cap_FetchedAt = 0, cap_StaleAt = 0, cap_Windows = []\<rparr>,
     auth_LastError = None, auth_UpdatedAt = 0, auth_NextRefreshAfter = 0, auth_NextRetryAfter = 0,
     auth_ModelStates = [], auth_CredentialVersion = 1, auth_Success = 0, auth_Failed = 0,
     auth_LastRefreshedAt = 0, auth_cooldownRecordedSeq = 0, auth_RejectedAccessToken = '''',
     auth_RejectedSIWCAccessToken = '''', auth_FileName = '''', AccessToken = '''', SIWCAccessToken = '''',
     HasRefreshCredential = False, AccessTokenExpiration = None\<rparr>"

theorem ApplyAuthWeightMetadata_roundtrip_witness:
  "\<exists>a'. ApplyAuthWeightMetadata (sample_auth ''a'') [(''weight'', VInt 42)] = Inr a' \<and>
        map_of [(''weight'', VInt 42)] ''weight'' = Some (VInt 42) \<and> authWeight a' = 42"
proof -
  obtain a' where a': "ApplyAuthWeightMetadata (sample_auth ''a'') [(''weight'', VInt 42)] = Inr a'"
    by (simp add: ApplyAuthWeightMetadata_def ValidateAuthWeight_def sample_auth_def Normalize_def)
  with ApplyAuthWeightMetadata_roundtrip [OF a', of "VInt 42"] show ?thesis
    by (simp add: Normalize_def)
qed

lemma authPriority_delete [simp]:
  "authPriority (a\<lparr>auth_Attributes := AList.delete ''file_priority'' (auth_Attributes a)\<rparr>) = authPriority a"
  by (simp add: authPriority_def get_or_def)

lemma authPriority_put:
  assumes "parse_int (trim_space p) = Some n"
  shows "authPriority (a\<lparr>auth_Metadata := m, auth_Attributes :=
           AList.update ''file_priority'' ''true'' (AList.update ''priority'' p attrs)\<rparr>) = n"
proof -
  have "trim_space p \<noteq> []" using assms by (auto simp: parse_int_def)
  with assms show ?thesis by (simp add: authPriority_def get_or_def)
qed

text \<open>
  A numeric priority from an auth file is the priority that routing uses: the text stored in
  the attributes parses back to the value truncated to an integer, and an unusable metadata
  value leaves the priority as it was.
\<close>

theorem ApplyAuthPriorityMetadata_priority:
  assumes "\<forall>r. map_of metadata ''priority'' = Some (VFloat (F64 r)) \<longrightarrow> int64 (float_to_int r)"
  shows "authPriority (ApplyAuthPriorityMetadata a metadata) =
     (case map_of metadata ''priority'' of
        Some (VFloat (F64 r)) \<Rightarrow> float_to_int r
      | Some (VString s) \<Rightarrow>
          (case parse_int (trim_space s) of Some p \<Rightarrow> p | None \<Rightarrow> authPriority a)
      | _ \<Rightarrow> authPriority a)"
proof (cases "map_of metadata ''priority''")
  case None
  then show ?thesis by (simp add: ApplyAuthPriorityMetadata_def authPriority_delete)
next
  case (Some v)
  show ?thesis
  proof (cases v)
    case (VString s)
    with Some show ?thesis
      by (cases "parse_int (trim_space s)")
        (auto simp: ApplyAuthPriorityMetadata_def Let_def authPriority_delete authPriority_put)
  next
    case (VFloat f)
    with Some assms show ?thesis
      by (cases f) (simp_all add: ApplyAuthPriorityMetadata_def Let_def authPriority_delete
          authPriority_put)
  qed (simp_all add: Some ApplyAuthPriorityMetadata_def authPriority_delete)
qed

theorem ApplyAuthPriorityMetadata_priority_witness:
  "authPriority (ApplyAuthPriorityMetadata (sample_auth ''a'') [(''priority'', VFloat (F64 (7 / 2)))]) = 3"
  using ApplyAuthPriorityMetadata_priority [of "[(''priority'', VFloat (F64 (7 / 2)))]" "sample_auth ''a''"]
  by (simp add: float_to_int_def int64_def floor_eq_iff)

section \<open>When a credential is blocked, and until when\<close>

text \<open>The instants a state waits for, and the two ways it can block without any.\<close>

definition blockedUntil :: "ModelState \<Rightarrow> time" where
  "blockedUntil st = max (ms_NextRetryAfter st) (quota_NextRecoverAt (ms_Quota st))"

definition hardBlock :: "ModelState \<Rightarrow> bool" where
  "hardBlock st \<longleftrightarrow> ms_Status st = StatusDisabled \<or>
     ((ms_Unavailable st \<or> quota_Exceeded (ms_Quota st)) \<and>
      ms_NextRetryAfter st = 0 \<and> quota_NextRecoverAt (ms_Quota st) = 0)"

definition tempBlock :: "time \<Rightarrow> ModelState \<Rightarrow> bool" where
  "tempBlock now st \<longleftrightarrow> ms_Status st \<noteq> StatusDisabled \<and>
     (ms_Unavailable st \<or> quota_Exceeded (ms_Quota st)) \<and> blockedUntil st > now"

definition matchingStates :: "string \<Rightarrow> (string \<times> ModelState option) list \<Rightarrow> ModelState set" where
  "matchingStates key states = {st. \<exists>k. (k, Some st) \<in> set states \<and> canonicalModelKey k = key}"

definition stateReason :: "ModelState \<Rightarrow> blockReason" where
  "stateReason st = (if quota_Exceeded (ms_Quota st) then blockReasonCooldown else blockReasonOther)"

definition tempBlocks :: "time \<Rightarrow> ModelState set \<Rightarrow> (blockReason \<times> time) set" where
  "tempBlocks now S = (\<lambda>st. (stateReason st, blockedUntil st)) ` {st \<in> S. tempBlock now st}"

text \<open>The strongest of a set of temporary blocks: the latest, a cooldown before another reason.\<close>

definition strongest :: "(blockReason \<times> time) set \<Rightarrow> bool \<times> blockReason \<times> time \<Rightarrow> bool" where
  "strongest S acc = (case acc of (b, r, n) \<Rightarrow>
     (b \<longleftrightarrow> S \<noteq> {}) \<and> (\<not> b \<longrightarrow> r = blockReasonNone \<and> n = 0) \<and>
     (b \<longrightarrow> (r, n) \<in> S \<and> (\<forall>(r', n') \<in> S. n' \<le> n) \<and>
            ((blockReasonCooldown, n) \<in> S \<longrightarrow> r = blockReasonCooldown)))"

lemma strongest_insert:
  assumes "strongest S (b, r, n)"
  shows "strongest (insert (r', n') S)
    (if \<not> b \<or> n' > n \<or> (n' = n \<and> r' = blockReasonCooldown) then (True, r', n') else (b, r, n))"
  using assms by (fastforce simp: strongest_def)

lemma strongest_unique:
  "strongest S (b, r, n) \<Longrightarrow> strongest S (b', r', n') \<Longrightarrow>
   b = b' \<and> n = n' \<and> (r = blockReasonCooldown \<longleftrightarrow> r' = blockReasonCooldown)"
  by (fastforce simp: strongest_def)

lemma availabilityBlock_eq:
  assumes "0 \<le> now"
  shows "availabilityBlock u q c1 c2 now =
    (if \<not> u \<and> \<not> q then (False, blockReasonNone, 0)
     else if max c1 c2 > now then (True, if q then blockReasonCooldown else blockReasonOther, max c1 c2)
     else if c1 \<noteq> 0 \<or> c2 \<noteq> 0 then (False, blockReasonNone, 0)
     else (True, blockReasonOther, 0))"
  using assms by (auto simp: availabilityBlock_def Let_def max_def)

lemma matchingStates_simps [simp]:
  "matchingStates key [] = {}"
  "matchingStates key ((k, None) # states) = matchingStates key states"
  "matchingStates key ((k, Some st) # states) =
     (if canonicalModelKey k = key then insert st (matchingStates key states)
      else matchingStates key states)"
  by (auto simp: matchingStates_def)

lemma tempBlocks_insert:
  "tempBlocks now (insert st S) =
     (if tempBlock now st
      then insert (stateReason st, blockedUntil st) (tempBlocks now S)
      else tempBlocks now S)"
  by (auto simp: tempBlocks_def)

lemma scan_step:
  assumes "0 \<le> now" "canonicalModelKey k = key"
  shows "tempBlock now st \<Longrightarrow> scanModelStates key now ((k, Some st) # states) (m, b, r, n) =
      scanModelStates key now states (True,
        if \<not> b \<or> blockedUntil st > n \<or> (blockedUntil st = n \<and> stateReason st = blockReasonCooldown)
        then (True, stateReason st, blockedUntil st) else (b, r, n))"
    and "\<not> tempBlock now st \<Longrightarrow> \<not> hardBlock st \<Longrightarrow>
      scanModelStates key now ((k, Some st) # states) (m, b, r, n) =
      scanModelStates key now states (True, b, r, n)"
proof -
  assume t: "tempBlock now st"
  then have blk: "availabilityBlock (ms_Unavailable st) (quota_Exceeded (ms_Quota st))
      (ms_NextRetryAfter st) (quota_NextRecoverAt (ms_Quota st)) now = (True, stateReason st, blockedUntil st)"
    "blockedUntil st \<noteq> 0" "ms_Status st \<noteq> StatusDisabled"
    using assms(1) by (auto simp: availabilityBlock_eq tempBlock_def blockedUntil_def stateReason_def)
  then show "scanModelStates key now ((k, Some st) # states) (m, b, r, n) =
      scanModelStates key now states (True,
        if \<not> b \<or> blockedUntil st > n \<or> (blockedUntil st = n \<and> stateReason st = blockReasonCooldown)
        then (True, stateReason st, blockedUntil st) else (b, r, n))"
    by (simp add: assms(2))
next
  assume "\<not> tempBlock now st" "\<not> hardBlock st"
  then have "availabilityBlock (ms_Unavailable st) (quota_Exceeded (ms_Quota st))
      (ms_NextRetryAfter st) (quota_NextRecoverAt (ms_Quota st)) now = (False, blockReasonNone, 0)"
    "ms_Status st \<noteq> StatusDisabled"
    using assms(1) by (auto simp: availabilityBlock_eq tempBlock_def blockedUntil_def hardBlock_def)
  then show "scanModelStates key now ((k, Some st) # states) (m, b, r, n) =
      scanModelStates key now states (True, b, r, n)"
    by (simp add: assms(2))
qed

lemma scan_step_hard:
  assumes "0 \<le> now" "canonicalModelKey k = key" "hardBlock st"
  shows "\<exists>r. scanModelStates key now ((k, Some st) # states) acc = Inl (True, r, 0) \<and> r \<noteq> blockReasonCooldown"
proof (cases "ms_Status st = StatusDisabled")
  case True
  then show ?thesis using assms(2) by (cases acc) simp
next
  case False
  with assms have "availabilityBlock (ms_Unavailable st) (quota_Exceeded (ms_Quota st))
      (ms_NextRetryAfter st) (quota_NextRecoverAt (ms_Quota st)) now = (True, blockReasonOther, 0)"
    by (simp add: availabilityBlock_eq hardBlock_def)
  with False show ?thesis using assms(2) by (cases acc) simp
qed

lemma scan_hard:
  assumes "0 \<le> now" "\<exists>st \<in> matchingStates key states. hardBlock st"
  shows "\<exists>r. scanModelStates key now states acc = Inl (True, r, 0) \<and> r \<noteq> blockReasonCooldown"
  using assms(2)
proof (induction states arbitrary: acc)
  case (Cons kv states)
  obtain k v where kv: "kv = (k, v)" by (cases kv)
  obtain m b r n where acc: "acc = (m, b, r, n)" by (cases acc)
  show ?case
  proof (cases "\<exists>st. v = Some st \<and> canonicalModelKey k = key")
    case False
    then have "scanModelStates key now (kv # states) acc = scanModelStates key now states acc"
      "matchingStates key (kv # states) = matchingStates key states"
      by (cases v; simp add: kv acc)+
    with Cons show ?thesis by simp
  next
    case True
    then obtain st where st: "v = Some st" "canonicalModelKey k = key" by blast
    show ?thesis
    proof (cases "hardBlock st")
      case True
      with scan_step_hard [OF assms(1) st(2)] st show ?thesis by (simp add: kv)
    next
      case False
      with Cons.prems st have "\<exists>st \<in> matchingStates key states. hardBlock st" by (auto simp: kv)
      from Cons.IH [OF this] scan_step [OF assms(1) st(2), of st states m b r n] False st
      show ?thesis unfolding kv acc st(1) by (cases "tempBlock now st") simp_all
    qed
  qed
qed simp

lemma scan_temp:
  assumes "0 \<le> now" "\<not> (\<exists>st \<in> matchingStates key states. hardBlock st)"
    and "strongest S acc"
  shows "\<exists>acc'. scanModelStates key now states (m, acc) =
           Inr (m \<or> matchingStates key states \<noteq> {}, acc') \<and>
         strongest (S \<union> tempBlocks now (matchingStates key states)) acc'"
  using assms
proof (induction states arbitrary: S m acc)
  case Nil
  then show ?case by (cases acc) (simp add: tempBlocks_def)
next
  case (Cons kv states)
  obtain k v where kv: "kv = (k, v)" by (cases kv)
  obtain b r n where acc: "acc = (b, r, n)" by (cases acc)
  show ?case
  proof (cases "\<exists>st. v = Some st \<and> canonicalModelKey k = key")
    case False
    then have "scanModelStates key now (kv # states) (m, acc) = scanModelStates key now states (m, acc)"
      "matchingStates key (kv # states) = matchingStates key states"
      by (cases v; simp add: kv acc)+
    with Cons show ?thesis by simp
  next
    case True
    then obtain st where st: "v = Some st" "canonicalModelKey k = key" by blast
    have soft: "\<not> hardBlock st" "\<not> (\<exists>st \<in> matchingStates key states. hardBlock st)"
      using Cons.prems(2) kv st by auto
    note step = scan_step [OF Cons.prems(1) st(2), of st states m b r n]
    show ?thesis
    proof (cases "tempBlock now st")
      case temp: True
      note ins = strongest_insert [OF Cons.prems(3) [unfolded acc], of "stateReason st" "blockedUntil st"]
      from Cons.IH [OF Cons.prems(1) soft(2) ins, of True] step(1) [OF temp] temp st
      show ?thesis by (simp add: kv acc tempBlocks_insert)
    next
      case False
      from Cons.IH [OF Cons.prems(1) soft(2) Cons.prems(3), of True] step(2) [OF False soft(1)] False st
      show ?thesis by (simp add: kv acc tempBlocks_insert)
    qed
  qed
qed

text \<open>
  The states the test of a model depends on: the matching model states, or the credential's own
  fields seen as one state.
\<close>

definition ownState :: "Auth \<Rightarrow> bool \<Rightarrow> ModelState" where
  "ownState a q = \<lparr>ms_Status = StatusActive, ms_StatusMessage = auth_StatusMessage a,
     ms_Unavailable = auth_Unavailable a, ms_NextRetryAfter = auth_NextRetryAfter a,
     ms_LastError = auth_LastError a, ms_Quota = (auth_Quota a)\<lparr>quota_Exceeded := q\<rparr>,
     ms_UpdatedAt = auth_UpdatedAt a, ms_cooldownRecordedSeq = auth_cooldownRecordedSeq a,
     ms_credentialQuotaPropagated = False, ms_credentialQuotaShadow = None\<rparr>"

definition relevantStates :: "Auth \<Rightarrow> string \<Rightarrow> ModelState set" where
  "relevantStates a model =
     (if model \<noteq> ''''
      then (if auth_ModelStates a \<noteq> [] then matchingStates (canonicalModelKey model) (auth_ModelStates a)
            else {ownState a (quota_Exceeded (auth_Quota a))})
      else {ownState a (if auth_ModelStates a \<noteq> [] \<and> quota_Reason (auth_Quota a) \<noteq> ''credential_quota'' \<and>
                           \<not> auth_Unavailable a then False else quota_Exceeded (auth_Quota a))})"

lemma ownState_sel [simp]:
  "ms_Status (ownState a q) = StatusActive" "ms_Unavailable (ownState a q) = auth_Unavailable a"
  "ms_NextRetryAfter (ownState a q) = auth_NextRetryAfter a"
  "quota_Exceeded (ms_Quota (ownState a q)) = q"
  "quota_NextRecoverAt (ms_Quota (ownState a q)) = quota_NextRecoverAt (auth_Quota a)"
  by (simp_all add: ownState_def)

lemma ownState_block:
  assumes "0 \<le> now"
  shows "hardBlock (ownState a q) \<Longrightarrow>
           availabilityBlock (auth_Unavailable a) q (auth_NextRetryAfter a)
             (quota_NextRecoverAt (auth_Quota a)) now = (True, blockReasonOther, 0)"
    and "\<not> hardBlock (ownState a q) \<Longrightarrow>
           strongest (tempBlocks now {ownState a q})
             (availabilityBlock (auth_Unavailable a) q (auth_NextRetryAfter a)
                (quota_NextRecoverAt (auth_Quota a)) now)"
proof -
  assume "hardBlock (ownState a q)"
  with assms show "availabilityBlock (auth_Unavailable a) q (auth_NextRetryAfter a)
             (quota_NextRecoverAt (auth_Quota a)) now = (True, blockReasonOther, 0)"
    by (simp add: availabilityBlock_eq hardBlock_def)
next
  assume soft: "\<not> hardBlock (ownState a q)"
  have "availabilityBlock (auth_Unavailable a) q (auth_NextRetryAfter a)
          (quota_NextRecoverAt (auth_Quota a)) now =
        (if tempBlock now (ownState a q)
         then (True, stateReason (ownState a q), blockedUntil (ownState a q))
         else (False, blockReasonNone, 0))"
    using soft assms
    by (simp add: availabilityBlock_eq hardBlock_def tempBlock_def blockedUntil_def stateReason_def) blast
  then show "strongest (tempBlocks now {ownState a q})
      (availabilityBlock (auth_Unavailable a) q (auth_NextRetryAfter a)
        (quota_NextRecoverAt (auth_Quota a)) now)"
    by (simp add: strongest_def tempBlocks_insert) (simp add: tempBlocks_def)
qed

lemma modelBlock_spec:
  assumes "0 \<le> now"
  shows "if \<exists>st \<in> relevantStates a model. hardBlock st
         then \<exists>r. modelBlock a model now = (True, r, 0) \<and> r \<noteq> blockReasonCooldown
         else strongest (tempBlocks now (relevantStates a model)) (modelBlock a model now)"
proof (cases "model \<noteq> '''' \<and> auth_ModelStates a \<noteq> []")
  case True
  let ?S = "matchingStates (canonicalModelKey model) (auth_ModelStates a)"
  have S: "relevantStates a model = ?S" using True by (simp add: relevantStates_def)
  have init: "strongest {} (False, blockReasonNone, 0)" by (simp add: strongest_def)
  show ?thesis
  proof (cases "\<exists>st \<in> ?S. hardBlock st")
    case hard: True
    with scan_hard [OF assms hard, of "(False, False, blockReasonNone, 0)"] True S show ?thesis
      by (auto simp: modelBlock_def)
  next
    case False
    from scan_temp [OF assms False init, of False] obtain b r n where
      scan: "scanModelStates (canonicalModelKey model) now (auth_ModelStates a)
               (False, False, blockReasonNone, 0) = Inr (?S \<noteq> {}, b, r, n)"
      and st: "strongest (tempBlocks now ?S) (b, r, n)" by auto
    have "modelBlock a model now = (b, r, n)"
      using True scan st by (cases "?S = {}") (auto simp: modelBlock_def strongest_def tempBlocks_def)
    with st False S show ?thesis by simp
  qed
next
  case False
  define q where "q = (if model = '''' \<and> auth_ModelStates a \<noteq> [] \<and>
    quota_Reason (auth_Quota a) \<noteq> ''credential_quota'' \<and> \<not> auth_Unavailable a then False
    else quota_Exceeded (auth_Quota a))"
  have S: "relevantStates a model = {ownState a q}"
    using False by (auto simp: relevantStates_def q_def)
  have "modelBlock a model now = availabilityBlock (auth_Unavailable a) q (auth_NextRetryAfter a)
      (quota_NextRecoverAt (auth_Quota a)) now"
    using False by (auto simp: modelBlock_def q_def Let_def)
  with ownState_block [OF assms, of a q] S show ?thesis by auto
qed

lemma strongest_tempBlocks:
  assumes "strongest (tempBlocks now S) (b, r, n)"
  shows "b \<longleftrightarrow> (\<exists>st \<in> S. tempBlock now st)"
    and "b \<Longrightarrow> (\<exists>st \<in> S. tempBlock now st \<and> blockedUntil st = n)"
    and "b \<Longrightarrow> st \<in> S \<Longrightarrow> tempBlock now st \<Longrightarrow> blockedUntil st \<le> n"
  using assms by (auto simp: strongest_def tempBlocks_def)

lemma modelBlock_iff:
  assumes "0 \<le> now"
  shows "fst (modelBlock a model now) \<longleftrightarrow>
           (\<exists>st \<in> relevantStates a model. hardBlock st \<or> tempBlock now st)"
proof -
  obtain b r n where m: "modelBlock a model now = (b, r, n)" by (cases "modelBlock a model now")
  show ?thesis
    using modelBlock_spec [OF assms, of a model] strongest_tempBlocks(1) [of now _ b r n]
    by (auto simp: m split: if_splits)
qed

lemma tempBlock_until: "tempBlock now st \<Longrightarrow> t < blockedUntil st \<Longrightarrow> tempBlock t st"
  by (simp add: tempBlock_def)

lemma tempBlock_later: "tempBlock t st \<Longrightarrow> now \<le> t \<Longrightarrow> tempBlock now st"
  by (simp add: tempBlock_def)

lemma credentialQuotaActive_later: "credentialQuotaActive a t \<Longrightarrow> now \<le> t \<Longrightarrow> credentialQuotaActive a now"
  by (simp add: credentialQuotaActive_def)

lemma tokenExpired_later: "tokenExpired a now \<Longrightarrow> now \<le> t \<Longrightarrow> tokenExpired a t"
  by (simp add: tokenExpired_def split: option.splits)

lemma isAuthBlocked_cases:
  obtains (always) "auth_Disabled a \<or> auth_Status a = StatusDisabled \<or> hasUnauthorizedAuthFailure a"
      "\<And>t. \<exists>r. isAuthBlockedForModel a model t = (True, r, 0) \<and> r \<noteq> blockReasonCooldown"
  | (usual) "\<And>t. isAuthBlockedForModel a model t =
      (if tokenExpired a t then (True, blockReasonOther, 0)
       else if credentialQuotaActive a t then (True, blockReasonCooldown, quota_NextRecoverAt (auth_Quota a))
       else modelBlock a model t)"
  by (cases "auth_Disabled a \<or> auth_Status a = StatusDisabled \<or> hasUnauthorizedAuthFailure a")
    (auto simp: isAuthBlockedForModel_def)

lemma quota_block_until:
  assumes "isAuthBlockedForModel a model now = (True, reason, next)" "next \<noteq> 0" "0 \<le> now"
    "credentialQuotaActive a now"
  shows "next = quota_NextRecoverAt (auth_Quota a)"
  using assms by (cases rule: isAuthBlocked_cases [of a model]) (metis prod.inject, auto split: if_splits)

lemma soft_block_states:
  assumes "isAuthBlockedForModel a model now = (True, reason, next)" "next \<noteq> 0" "0 \<le> now"
    "\<not> credentialQuotaActive a now"
  shows "\<not> (\<exists>st \<in> relevantStates a model. hardBlock st) \<and>
         strongest (tempBlocks now (relevantStates a model)) (True, reason, next)"
proof (cases rule: isAuthBlocked_cases [of a model])
  case always
  with assms show ?thesis by (metis prod.inject)
next
  case usual
  with assms have "modelBlock a model now = (True, reason, next)" by (auto split: if_splits)
  with modelBlock_spec [OF assms(3), of a model] assms(2) show ?thesis by (auto split: if_splits)
qed

text \<open>A block that carries an instant lies ahead of it and holds until then.\<close>

lemma blocked_before:
  assumes "isAuthBlockedForModel a model now = (True, reason, next)" "next \<noteq> 0" "0 \<le> now"
  shows "now < next" and "now \<le> t \<Longrightarrow> t < next \<Longrightarrow> fst (isAuthBlockedForModel a model t)"
proof -
  have both: "now < next \<and> (\<forall>t. now \<le> t \<and> t < next \<longrightarrow> fst (isAuthBlockedForModel a model t))"
  proof (cases rule: isAuthBlocked_cases [of a model])
    case always
    with assms show ?thesis by (metis prod.inject)
  next
    case usual
    show ?thesis
    proof (cases "credentialQuotaActive a now")
      case True
      with quota_block_until [OF assms True] usual show ?thesis by (auto simp: credentialQuotaActive_def)
    next
      case False
      from soft_block_states [OF assms False]
      have st: "strongest (tempBlocks now (relevantStates a model)) (True, reason, next)" ..
      note best = strongest_tempBlocks [OF st]
      have "fst (isAuthBlockedForModel a model t)" if "now \<le> t" "t < next" for t
        using best(2) that assms(3) usual by (auto simp: modelBlock_iff intro: tempBlock_until)
      with best(2) show ?thesis by (auto simp: tempBlock_def)
    qed
  qed
  then show "now < next" "now \<le> t \<Longrightarrow> t < next \<Longrightarrow> fst (isAuthBlockedForModel a model t)" by auto
qed

text \<open>A block that carries no instant is not ended by time.\<close>

lemma hard_block_stays:
  assumes "isAuthBlockedForModel a model now = (True, reason, 0)" "0 \<le> now" "now \<le> t"
  shows "fst (isAuthBlockedForModel a model t)"
proof (cases rule: isAuthBlocked_cases [of a model])
  case always
  then show ?thesis by (metis fst_conv)
next
  case usual
  show ?thesis
  proof (cases "tokenExpired a now")
    case True
    with usual tokenExpired_later [OF True assms(3)] show ?thesis by simp
  next
    case False
    with usual assms(1,2) have "modelBlock a model now = (True, reason, 0)"
      by (auto simp: credentialQuotaActive_def split: if_splits)
    moreover have "\<not> strongest (tempBlocks now S) (True, reason, 0)" for S
      using strongest_tempBlocks(2) [of now S True reason 0] assms(2) by (auto simp: tempBlock_def)
    ultimately have "\<exists>st \<in> relevantStates a model. hardBlock st"
      using modelBlock_spec [OF assms(2), of a model] by (auto split: if_splits)
    with assms(2,3) have "fst (modelBlock a model t)" by (auto simp: modelBlock_iff)
    with usual show ?thesis by simp
  qed
qed

lemma stays_available:
  assumes "\<not> fst (isAuthBlockedForModel a model now)" "0 \<le> now" "now \<le> t" "\<not> tokenExpired a t"
  shows "isAuthBlockedForModel a model t = (False, blockReasonNone, 0)"
proof (cases rule: isAuthBlocked_cases [of a model])
  case always
  with assms(1) show ?thesis by (metis fst_conv)
next
  case usual
  with assms(1) have free: "\<not> credentialQuotaActive a now" "\<not> fst (modelBlock a model now)"
    by (auto split: if_splits)
  then have "\<not> (\<exists>st \<in> relevantStates a model. hardBlock st \<or> tempBlock t st)"
    using assms(2,3) by (auto simp: modelBlock_iff dest: tempBlock_later)
  moreover from this have "strongest (tempBlocks t (relevantStates a model)) (modelBlock a model t)"
    using modelBlock_spec [of t a model] assms(2,3) by auto
  ultimately have "modelBlock a model t = (False, blockReasonNone, 0)"
    by (cases "modelBlock a model t") (auto simp: strongest_def tempBlocks_def)
  with usual free(1) credentialQuotaActive_later [of a t now] assms(3,4) show ?thesis by auto
qed

text \<open>
  (C34) The recovery time reported for a blocked credential is exact. If the availability test
  says that a credential is blocked for a model until an instant, that instant lies in the
  future, at every moment before it the credential is still blocked, and from it on the
  credential is available, unless its access token has expired or the block came from an
  exhausted quota of the whole credential, below which a model may be blocked for longer.
\<close>

theorem blocked_exactly_until:
  assumes "isAuthBlockedForModel a model now = (True, reason, next)" and "next \<noteq> 0" and "0 \<le> now"
  shows "now < next \<and>
         (\<forall>t. now \<le> t \<and> t < next \<longrightarrow> fst (isAuthBlockedForModel a model t)) \<and>
         (\<forall>t. next \<le> t \<and> \<not> credentialQuotaActive a now \<and> \<not> tokenExpired a t \<longrightarrow>
              \<not> fst (isAuthBlockedForModel a model t))"
proof -
  have "\<not> fst (isAuthBlockedForModel a model t)"
    if t: "next \<le> t" "\<not> credentialQuotaActive a now" "\<not> tokenExpired a t" for t
  proof (cases rule: isAuthBlocked_cases [of a model])
    case always
    with assms show ?thesis by (metis prod.inject)
  next
    case usual
    note soft = soft_block_states [OF assms t(2)] and future = blocked_before(1) [OF assms]
    note best = strongest_tempBlocks(3) [OF conjunct2 [OF soft]]
    have "\<not> tempBlock t s" if s: "s \<in> relevantStates a model" for s
      using best [OF _ s] tempBlock_later [of t s now] t(1) future by (auto simp: tempBlock_def)
    with soft t usual credentialQuotaActive_later [of a t now] future assms(3) show ?thesis
      by (auto simp: modelBlock_iff)
  qed
  with blocked_before [OF assms] show ?thesis by blast
qed

theorem blocked_exactly_until_witness:
  "\<exists>a. isAuthBlockedForModel a ''m'' 10 = (True, blockReasonCooldown, 20) \<and>
       \<not> credentialQuotaActive a 10 \<and> \<not> tokenExpired a 25 \<and>
       fst (isAuthBlockedForModel a ''m'' 19) \<and> \<not> fst (isAuthBlockedForModel a ''m'' 25)"
proof -
  define a where "a = (sample_auth ''a'')\<lparr>auth_Quota :=
    \<lparr>quota_Exceeded = True, quota_Reason = ''quota'', quota_NextRecoverAt = 20, quota_BackoffLevel = 0,
     quota_ObservedAt = 0, quota_Signals = []\<rparr>\<rparr>"
  have blk: "isAuthBlockedForModel a ''m'' 10 = (True, blockReasonCooldown, 20)"
    and open_end: "\<not> credentialQuotaActive a 10" "\<not> tokenExpired a 25"
    by (simp_all add: a_def sample_auth_def isAuthBlockedForModel_def hasUnauthorizedAuthFailure_def
        tokenExpired_def credentialQuotaActive_def modelBlock_def availabilityBlock_def)
  have "\<forall>t. 10 \<le> t \<and> t < 20 \<longrightarrow> fst (isAuthBlockedForModel a ''m'' t)"
    "\<forall>t. 20 \<le> t \<and> \<not> credentialQuotaActive a 10 \<and> \<not> tokenExpired a t \<longrightarrow>
       \<not> fst (isAuthBlockedForModel a ''m'' t)"
    using blocked_exactly_until [OF blk] by simp_all
  with blk open_end show ?thesis by (intro exI [of _ a]) simp
qed

text \<open>
  An available credential stays available: once the availability test lets a credential serve a
  model, time alone never blocks it again, except by the expiration of its access token.
\<close>

theorem available_stays_available:
  assumes "\<not> fst (isAuthBlockedForModel a model now)" and "0 \<le> now" and "now \<le> t"
    and "\<not> tokenExpired a t"
  shows "isAuthBlockedForModel a model t = (False, blockReasonNone, 0)"
  using assms by (rule stays_available)

theorem available_stays_available_witness:
  "\<not> fst (isAuthBlockedForModel (sample_auth ''a'') ''m'' 10) \<and>
   isAuthBlockedForModel (sample_auth ''a'') ''m'' 99 = (False, blockReasonNone, 0)"
proof -
  have now: "\<not> fst (isAuthBlockedForModel (sample_auth ''a'') ''m'' 10)"
    by (simp add: sample_auth_def isAuthBlockedForModel_def hasUnauthorizedAuthFailure_def
        tokenExpired_def credentialQuotaActive_def modelBlock_def availabilityBlock_def)
  have "\<not> tokenExpired (sample_auth ''a'') 99" by (simp add: sample_auth_def tokenExpired_def)
  with available_stays_available [OF now, of 99] now show ?thesis by simp
qed

text \<open>
  The order in which Go happens to visit the map of model states does not matter for routing:
  for every permutation of the states the credential is blocked or not alike, with the same
  recovery time, and the reason is a cooldown for one order exactly when it is for the other.
\<close>

lemma blocked_order_independent:
  assumes "mset states = mset (auth_ModelStates a)" and "0 \<le> now"
    and "isAuthBlockedForModel a model now = (blocked, reason, next)"
    and "isAuthBlockedForModel (a\<lparr>auth_ModelStates := states\<rparr>) model now = (blocked', reason', next')"
  shows "blocked' = blocked \<and> next' = next \<and>
         (reason' = blockReasonCooldown \<longleftrightarrow> reason = blockReasonCooldown)"
proof -
  let ?a = "a\<lparr>auth_ModelStates := states\<rparr>"
  have nil: "states = [] \<longleftrightarrow> auth_ModelStates a = []" and sets: "set states = set (auth_ModelStates a)"
    using assms(1) by (metis mset_zero_iff, metis set_mset_mset)
  then have rel: "relevantStates ?a model = relevantStates a model"
    by (simp add: relevantStates_def matchingStates_def ownState_def)
  have same: "hasUnauthorizedAuthFailure ?a = hasUnauthorizedAuthFailure a"
    "tokenExpired ?a now = tokenExpired a now" "credentialQuotaActive ?a now = credentialQuotaActive a now"
    by (simp_all add: hasUnauthorizedAuthFailure_def tokenExpired_def credentialQuotaActive_def
        split: option.split)
  obtain b r n b' r' n' where m: "modelBlock a model now = (b, r, n)"
    "modelBlock ?a model now = (b', r', n')" by (metis prod.exhaust)
  have "b' = b \<and> n' = n \<and> (r' = blockReasonCooldown \<longleftrightarrow> r = blockReasonCooldown)"
    using modelBlock_spec [OF assms(2), of a model] modelBlock_spec [OF assms(2), of ?a model]
      strongest_unique [of _ b' r' n' b r n]
    by (auto simp: m rel split: if_splits)
  then show ?thesis
    using assms(3,4) m same by (auto simp: isAuthBlockedForModel_def split: if_splits)
qed

lemma blocked_order_independent_witness:
  "\<exists>s1 s2 a. mset [s2, s1] = mset (auth_ModelStates a) \<and> s1 \<noteq> s2 \<and>
     isAuthBlockedForModel a ''m'' 10 = (True, blockReasonCooldown, 30) \<and>
     fst (isAuthBlockedForModel (a\<lparr>auth_ModelStates := [s2, s1]\<rparr>) ''m'' 10)"
proof -
  define st :: "bool \<Rightarrow> time \<Rightarrow> ModelState" where
    "st q t = \<lparr>ms_Status = StatusActive, ms_StatusMessage = '''', ms_Unavailable = True,
       ms_NextRetryAfter = t, ms_LastError = None,
       ms_Quota = \<lparr>quota_Exceeded = q, quota_Reason = '''', quota_NextRecoverAt = 0,
         quota_BackoffLevel = 0, quota_ObservedAt = 0, quota_Signals = []\<rparr>,
       ms_UpdatedAt = 0, ms_cooldownRecordedSeq = 0, ms_credentialQuotaPropagated = False,
       ms_credentialQuotaShadow = None\<rparr>" for q t
  define s1 where "s1 = (''m'', Some (st False 20))"
  define s2 where "s2 = (''m(high)'', Some (st True 30))"
  define a where "a = (sample_auth ''a'')\<lparr>auth_ModelStates := [s1, s2]\<rparr>"
  have key: "canonicalModelKey ''m'' = ''m''" "canonicalModelKey ''m(high)'' = ''m''"
    by code_simp+
  have blk: "isAuthBlockedForModel a ''m'' 10 = (True, blockReasonCooldown, 30)"
    by (simp add: a_def s1_def s2_def st_def sample_auth_def isAuthBlockedForModel_def key
        hasUnauthorizedAuthFailure_def tokenExpired_def credentialQuotaActive_def modelBlock_def
        availabilityBlock_def)
  have perm: "mset [s2, s1] = mset (auth_ModelStates a)" "s1 \<noteq> s2"
    by (simp_all add: a_def s1_def s2_def)
  obtain b r n where b: "isAuthBlockedForModel (a\<lparr>auth_ModelStates := [s2, s1]\<rparr>) ''m'' 10 = (b, r, n)"
    by (rule prod_cases3)
  from blocked_order_independent [OF perm(1) _ blk b] have b by simp
  with perm blk b show ?thesis by (metis fst_conv)
qed

end
