(* ===== verification/Rotation.thy ===== *)
theory Rotation
  imports Credential
begin

text \<open>
  The two disciplines by which the proxy spreads requests over equal credentials, each of them
  written twice in the code (for the selectors of \<open>selector.go\<close> and for the scheduled entries of
  \<open>scheduler.go\<close>): rotation that resumes after the identifier picked last, and smooth weighted
  round-robin. The interfaces are locales; what a client relies on is proved inside them once.
\<close>

section \<open>Saturating credits\<close>

definition saturatingAddInt64 :: "int \<Rightarrow> int \<Rightarrow> int" where
  "saturatingAddInt64 value delta =
     (if delta > 0 \<and> value > wrap64 (max_int64 - delta) then max_int64
      else if delta < 0 \<and> value < wrap64 (min_int64 - delta) then min_int64
      else wrap64 (value + delta))"

lemma saturatingAddInt64_clamp:
  assumes "int64 value" "int64 delta"
  shows "saturatingAddInt64 value delta = clamp64 (value + delta)"
proof -
  have "wrap64 (max_int64 - delta) = max_int64 - delta" if "delta > 0"
    using that assms by (intro wrap64_id) (simp add: int64_def)
  moreover have "wrap64 (min_int64 - delta) = min_int64 - delta" if "delta < 0"
    using that assms by (intro wrap64_id) (simp add: int64_def)
  moreover have "wrap64 (value + delta) = value + delta" if "int64 (value + delta)"
    using that by simp
  ultimately show ?thesis
    using assms unfolding saturatingAddInt64_def clamp64_def int64_def by auto
qed

lemma saturatingAddInt64_exact [simp]:
  "int64 value \<Longrightarrow> int64 delta \<Longrightarrow> int64 (value + delta) \<Longrightarrow> saturatingAddInt64 value delta = value + delta"
  by (simp add: saturatingAddInt64_clamp)

section \<open>Rotation by identifier\<close>

text \<open>The least element of a set of identifiers above \<open>l\<close>, or the least of all: the next one on the ring.\<close>

definition ring_next :: "string set \<Rightarrow> string \<Rightarrow> string" where
  "ring_next A l = (if \<exists>a \<in> A. l < a then Min {a \<in> A. l < a} else Min A)"

text \<open>
  A provider of rotation: over candidates sorted by identifier it gives the position of the first
  one after the last identifier, and position 0 when there is none or no last identifier.
\<close>

locale rotation =
  fixes key :: "'a \<Rightarrow> string" and successor :: "'a list \<Rightarrow> string \<Rightarrow> nat"
  assumes successor_start: "successor xs '''' = 0"
    and successor_split: "l \<noteq> '''' \<Longrightarrow> sorted_wrt (<) (map key xs) \<Longrightarrow> \<exists>x \<in> set xs. l < key x \<Longrightarrow>
       successor xs l < length xs \<and> l < key (xs ! successor xs l) \<and>
       (\<forall>i < successor xs l. key (xs ! i) \<le> l)"
    and successor_wrap: "l \<noteq> '''' \<Longrightarrow> sorted_wrt (<) (map key xs) \<Longrightarrow> \<forall>x \<in> set xs. key x \<le> l \<Longrightarrow>
       successor xs l = 0"
begin

lemma successor_less:
  assumes "xs \<noteq> []" "sorted_wrt (<) (map key xs)"
  shows "successor xs l < length xs"
proof (cases "l = ''''")
  case True
  with assms show ?thesis by (simp add: successor_start)
next
  case False
  show ?thesis
  proof (cases "\<exists>x \<in> set xs. l < key x")
    case True
    with successor_split [OF False assms(2)] show ?thesis by blast
  next
    case nomore: False
    with successor_wrap [OF False assms(2)] assms(1) show ?thesis by (simp add: not_less)
  qed
qed

text \<open>What is picked depends on the identifiers only: it is the next one on the ring.\<close>

lemma successor_ring_next:
  assumes "xs \<noteq> []" "sorted_wrt (<) (map key xs)" "'''' \<notin> key ` set xs"
  shows "key (xs ! successor xs l) = ring_next (key ` set xs) l"
proof -
  have sorted: "key (xs ! i) < key (xs ! j)" if "i < j" "j < length xs" for i j
    using assms(2) that by (simp add: sorted_wrt_iff_nth_less)
  have first: "key (xs ! 0) = Min (key ` set xs)"
  proof (rule Min_eqI [symmetric])
    fix k assume "k \<in> key ` set xs"
    then obtain i where "i < length xs" "k = key (xs ! i)" by (auto simp: in_set_conv_nth)
    with sorted [of 0 i] show "key (xs ! 0) \<le> k" by (cases "i = 0") auto
  qed (use assms(1) in auto)
  show ?thesis
  proof (cases "l \<noteq> '''' \<and> (\<exists>x \<in> set xs. l < key x)")
    case True
    let ?s = "successor xs l"
    from True successor_split [OF _ assms(2)] have s: "?s < length xs" "l < key (xs ! ?s)"
      "\<forall>i < ?s. key (xs ! i) \<le> l" by blast+
    have "Min {a \<in> key ` set xs. l < a} = key (xs ! ?s)"
    proof (rule Min_eqI)
      fix k assume "k \<in> {a \<in> key ` set xs. l < a}"
      then obtain i where i: "i < length xs" "k = key (xs ! i)" "l < k" by (auto simp: in_set_conv_nth)
      with s(3) have "\<not> i < ?s" using leD by blast
      with sorted [of ?s i] i show "key (xs ! ?s) \<le> k" by (cases "i = ?s") auto
    qed (use s in auto)
    with True show ?thesis by (auto simp: ring_next_def)
  next
    case False
    have zero: "successor xs l = 0"
    proof (cases "l = ''''")
      case l: False
      with False have "\<forall>x \<in> set xs. key x \<le> l" by (auto simp: not_less)
      with l show ?thesis by (rule successor_wrap [OF _ assms(2)])
    qed (simp add: successor_start)
    show ?thesis
    proof (cases "l = ''''")
      case True
      have "'''' < a \<longleftrightarrow> a \<noteq> ''''" for a :: string by (cases a) auto
      then have "{a \<in> key ` set xs. '''' < a} = key ` set xs" using assms(3) by (auto simp: image_iff)
      with True first zero assms(1) show ?thesis by (auto simp: ring_next_def)
    next
      case l: False
      with False first zero show ?thesis by (auto simp: ring_next_def)
    qed
  qed
qed

text \<open>
  A client may also search the whole ring, from the successor on, for the first candidate that
  passes a test: it finds the next one on the ring of those that do.
\<close>

lemma find_sorted_Min:
  assumes "sorted_wrt (<) (map key ys)" "find P ys = Some x"
  shows "key x = Min (key ` {y \<in> set ys. P y})"
proof -
  from assms(2) obtain i where i: "i < length ys" "P (ys ! i)" "x = ys ! i" "\<forall>j < i. \<not> P (ys ! j)"
    by (auto simp: find_Some_iff)
  have "key x \<le> key y" if "y \<in> set ys" "P y" for y
  proof -
    from that obtain j where j: "j < length ys" "y = ys ! j" by (auto simp: in_set_conv_nth)
    with i(4) that(2) have "i \<le> j" by (meson not_le)
    with assms(1) i j show ?thesis
      by (cases "i = j") (auto simp: sorted_wrt_iff_nth_less intro: order.strict_implies_order)
  qed
  with i show ?thesis by (intro Min_eqI [symmetric]) auto
qed

lemma find_rotate_ring:
  assumes "sorted_wrt (<) (map key xs)" "'''' \<notin> key ` set xs" "find P (rotate (successor xs l) xs) = Some x"
  shows "key x = ring_next (key ` {y \<in> set xs. P y}) l"
proof -
  define s where "s = successor xs l"
  have ne: "xs \<noteq> []" using assms(3) by auto
  have s: "s < length xs" using successor_less [OF ne assms(1)] by (simp add: s_def)
  have rot: "rotate s xs = drop s xs @ take s xs" using s by (simp add: rotate_drop_take)
  have parts: "sorted_wrt (<) (map key (drop s xs))" "sorted_wrt (<) (map key (take s xs))"
    using assms(1) by (simp_all add: sorted_wrt_drop sorted_wrt_take flip: drop_map take_map)
  have split: "set xs = set (drop s xs) \<union> set (take s xs)"
    by (metis Un_commute append_take_drop_id set_append)
  have nn: "'''' < a \<longleftrightarrow> a \<noteq> ''''" for a :: string by (cases a) auto
  have cut: "(\<forall>y \<in> set (drop s xs). l < key y) \<and> (\<forall>y \<in> set (take s xs). key y \<le> l) \<or>
      s = 0 \<and> (\<forall>y \<in> set xs. key y \<le> l)"
  proof (cases "l = ''''")
    case True
    then have "s = 0" by (simp add: s_def successor_start)
    with True assms(2) nn show ?thesis by (auto simp: image_iff)
  next
    case l: False
    show ?thesis
    proof (cases "\<exists>y \<in> set xs. l < key y")
      case True
      note sp = successor_split [OF l assms(1) True, folded s_def]
      have "l < key y" if "y \<in> set (drop s xs)" for y
      proof -
        from that obtain j where "j < length xs - s" "y = xs ! (s + j)" by (auto simp: in_set_conv_nth)
        then have "s + j < length xs" "y = xs ! (s + j)" by auto
        moreover have "key (xs ! s) < key (xs ! (s + j))" if "j \<noteq> 0" "s + j < length xs"
          using sorted_wrt_nth_less [OF assms(1), of s "s + j"] that by simp
        ultimately show ?thesis using sp by (cases "j = 0") (auto intro: order.strict_trans)
      qed
      moreover have "key y \<le> l" if "y \<in> set (take s xs)" for y
        using that sp by (auto simp: in_set_conv_nth)
      ultimately show ?thesis by blast
    next
      case False
      then have "\<forall>y \<in> set xs. key y \<le> l" by (auto simp: not_less)
      with successor_wrap [OF l assms(1)] show ?thesis by (simp add: s_def)
    qed
  qed
  have f: "find P (drop s xs @ take s xs) = Some x" using assms(3) rot by (simp add: s_def)
  have find_app: "find P (ys @ zs) = (case find P ys of None \<Rightarrow> find P zs | r \<Rightarrow> r)" for ys zs :: "'a list"
    by (induction ys) auto
  from cut show ?thesis
  proof
    assume c: "(\<forall>y \<in> set (drop s xs). l < key y) \<and> (\<forall>y \<in> set (take s xs). key y \<le> l)"
    show ?thesis
    proof (cases "find P (drop s xs)")
      case (Some z)
      then have z: "key x = Min (key ` {y \<in> set (drop s xs). P y})"
        using f find_sorted_Min [OF parts(1)] by (simp add: find_app)
      have up: "{a \<in> key ` {y \<in> set xs. P y}. l < a} = key ` {y \<in> set (drop s xs). P y}"
        using c unfolding split by (auto simp: not_less [symmetric])
      have "z \<in> set ys \<and> P z" if "find P ys = Some z" for ys
        using that by (induction ys) (auto split: if_splits)
      then have "key ` {y \<in> set (drop s xs). P y} \<noteq> {}" using Some by blast
      then have "\<exists>a \<in> key ` {y \<in> set xs. P y}. l < a" unfolding up [symmetric] by blast
      with z up show ?thesis by (simp add: ring_next_def)
    next
      case None
      then have x: "find P (take s xs) = Some x" using f by (simp add: find_app)
      have "{y \<in> set xs. P y} = {y \<in> set (take s xs). P y}"
        using None unfolding split by (auto simp: find_None_iff)
      with c find_sorted_Min [OF parts(2) x] show ?thesis by (auto simp: ring_next_def leD)
    qed
  next
    assume c: "s = 0 \<and> (\<forall>y \<in> set xs. key y \<le> l)"
    then have "key x = Min (key ` {y \<in> set xs. P y})" using f find_sorted_Min [OF assms(1)] by simp
    with c show ?thesis by (auto simp: ring_next_def leD)
  qed
qed

end

text \<open>The binary search both providers run satisfies the laws of the interface.\<close>

lemma sort_search_no_hit:
  assumes "\<forall>i < n. \<not> f i"
  shows "sort_search n f = n"
proof -
  have mono: "f b" if "a \<le> b" "b < n" "f a" for a b
    using assms [rule_format, OF le_less_trans [OF that(1,2)]] that(3) by (rule notE)
  have "sort_search n f \<le> n" by (rule sort_search_correct(1)) (rule mono)
  moreover have "\<not> sort_search n f < n"
  proof
    assume lt: "sort_search n f < n"
    have "f (sort_search n f)"
    proof (rule sort_search_correct(3) [OF _ order_refl lt])
      fix a b assume "a \<le> b" "b < n" "f a"
      then show "f b" by (rule mono)
    qed
    with lt assms show False by simp
  qed
  ultimately show ?thesis by simp
qed

lemma successor_search:
  fixes l :: string
  assumes "sorted_wrt (<) (map key xs)"
  defines "n \<equiv> sort_search (length xs) (\<lambda>i. key (xs ! i) > l)"
  shows "\<exists>x \<in> set xs. l < key x \<Longrightarrow> n < length xs \<and> l < key (xs ! n) \<and> (\<forall>i < n. key (xs ! i) \<le> l)"
    and "\<forall>x \<in> set xs. key x \<le> l \<Longrightarrow> n = length xs"
proof -
  note split = sort_search_split [OF assms(1), of l, folded n_def]
  have le: "key (xs ! i) \<le> l" if "i < n" for i
    using split(1,2) that by (force simp: in_set_conv_nth)
  show "n < length xs \<and> l < key (xs ! n) \<and> (\<forall>i < n. key (xs ! i) \<le> l)" if "\<exists>x \<in> set xs. l < key x"
  proof -
    from that obtain j where j: "j < length xs" "l < key (xs ! j)" by (auto simp: in_set_conv_nth)
    with le have "n \<le> j" by (meson leD not_le_imp_less)
    then have n: "n < length xs" using j by simp
    then have "xs ! n \<in> set (drop n xs)" by (metis Cons_nth_drop_Suc list.set_intros(1))
    with n le split(3) show ?thesis by blast
  qed
  show "n = length xs" if "\<forall>x \<in> set xs. key x \<le> l"
    unfolding n_def by (rule sort_search_no_hit) (use that in \<open>auto simp: not_less\<close>)
qed

text \<open>
  Rotation cannot pass over a credential that stays available, whatever else comes and goes:
  between two picks of one identifier every identifier that was in all the pools is picked.
\<close>

fun ring_picks :: "string set list \<Rightarrow> string \<Rightarrow> string list" where
  "ring_picks [] l = []"
| "ring_picks (A # As) l = ring_next A l # ring_picks As (ring_next A l)"

definition before_on_ring :: "string \<Rightarrow> string \<Rightarrow> string \<Rightarrow> bool" where
  "before_on_ring y a b \<longleftrightarrow> (if y < a then b < y \<or> a < b else a < b \<and> b < y)"

lemma before_on_ring_trans:
  "before_on_ring y a b \<Longrightarrow> before_on_ring y b c \<Longrightarrow> before_on_ring y a c"
  by (auto simp: before_on_ring_def split: if_splits)

lemma ring_next_before:
  assumes "finite A" "y \<in> A" "l \<noteq> y" "ring_next A l \<noteq> y"
  shows "before_on_ring y l (ring_next A l)"
proof -
  have fin: "finite {a \<in> A. l < a}" using assms(1) by simp
  show ?thesis
  proof (cases "\<exists>a \<in> A. l < a")
    case True
    with fin have "Min {a \<in> A. l < a} \<in> {a \<in> A. l < a}" by (intro Min_in) auto
    moreover have "Min {a \<in> A. l < a} \<le> y" if "l < y" using fin that assms(2) by (intro Min_le) auto
    moreover have "l < y" if "\<not> y < l" using that assms(3) by auto
    ultimately show ?thesis
      using True assms(4) by (cases "y < l") (auto simp: before_on_ring_def ring_next_def order.strict_iff_order)
  next
    case False
    with assms have "y < l" by (meson linorder_neqE)
    moreover have "Min A \<le> y" using assms by (intro Min_le) auto
    ultimately show ?thesis using False assms(4) by (auto simp: before_on_ring_def ring_next_def)
  qed
qed

lemma ring_picks_before:
  assumes "\<forall>A \<in> set As. finite A \<and> y \<in> A" "l \<noteq> y" "y \<notin> set (ring_picks As l)" "As \<noteq> []"
  shows "before_on_ring y l (last (ring_picks As l))"
  using assms
proof (induction As arbitrary: l)
  case (Cons A As)
  then have step: "before_on_ring y l (ring_next A l)" by (intro ring_next_before) auto
  show ?case
  proof (cases "As = []")
    case True
    with step show ?thesis by simp
  next
    case False
    with Cons have "before_on_ring y (ring_next A l) (last (ring_picks As (ring_next A l)))"
      by (intro Cons.IH) auto
    moreover have "ring_picks As (ring_next A l) \<noteq> []" using False by (cases As) auto
    ultimately show ?thesis using step by (auto intro: before_on_ring_trans)
  qed
qed simp

lemma ring_no_starvation:
  assumes "\<forall>A \<in> set As. finite A \<and> y \<in> A" "As \<noteq> []" "l \<noteq> y" "last (ring_picks As l) = l"
  shows "y \<in> set (ring_picks As l)"
proof (rule ccontr)
  assume "y \<notin> set (ring_picks As l)"
  from ring_picks_before [OF assms(1,3) this assms(2)] assms(4) show False
    by (auto simp: before_on_ring_def split: if_splits)
qed

section \<open>Smooth weighted round-robin\<close>

text \<open>
  The reference: every candidate gains its weight as credit, the first one with the largest credit is
  picked and pays the total weight of the round.
\<close>

definition smooth_step ::
    "('a \<Rightarrow> string) \<Rightarrow> ('a \<Rightarrow> int) \<Rightarrow> 'a \<Rightarrow> 'a option \<times> int \<times> int \<times> (string \<times> int) list \<Rightarrow>
     'a option \<times> int \<times> int \<times> (string \<times> int) list" where
  "smooth_step key weight x = (\<lambda>(picked, pickedCurrent, totalWeight, current).
     (let c = saturatingAddInt64 (get_or 0 current (key x)) (weight x);
          current = AList.update (key x) c current;
          totalWeight = saturatingAddInt64 totalWeight (weight x)
      in if picked = None \<or> c > pickedCurrent then (Some x, c, totalWeight, current)
         else (picked, pickedCurrent, totalWeight, current)))"

definition smooth_finish ::
    "('a \<Rightarrow> string) \<Rightarrow> 'a option \<times> int \<times> int \<times> (string \<times> int) list \<Rightarrow> 'a option \<times> (string \<times> int) list" where
  "smooth_finish key = (\<lambda>(picked, pickedCurrent, totalWeight, current).
     case picked of
       None \<Rightarrow> (None, current)
     | Some p \<Rightarrow> (Some p, AList.update (key p)
                    (saturatingAddInt64 (get_or 0 current (key p)) (- totalWeight)) current))"

definition smooth_pick ::
    "('a \<Rightarrow> string) \<Rightarrow> ('a \<Rightarrow> int) \<Rightarrow> 'a list \<Rightarrow> (string \<times> int) list \<Rightarrow> 'a option \<times> (string \<times> int) list" where
  "smooth_pick key weight xs current =
     smooth_finish key (fold (smooth_step key weight) xs (None, 0, 0, current))"

definition pool_ok :: "('a \<Rightarrow> string) \<Rightarrow> ('a \<Rightarrow> int) \<Rightarrow> 'a list \<Rightarrow> bool" where
  "pool_ok key weight xs \<longleftrightarrow> distinct (map key xs) \<and> length xs \<le> 2000000 \<and>
     (\<forall>x \<in> set xs. 0 < weight x \<and> weight x \<le> Max_weight)"

abbreviation total_weight :: "('a \<Rightarrow> int) \<Rightarrow> 'a list \<Rightarrow> int" where
  "total_weight weight xs \<equiv> sum weight (set xs)"

definition credits_ok :: "('a \<Rightarrow> int) \<Rightarrow> 'a list \<Rightarrow> ('a \<Rightarrow> int) \<Rightarrow> bool" where
  "credits_ok weight xs c \<longleftrightarrow> sum c (set xs) = 0 \<and> (\<forall>x \<in> set xs. - total_weight weight xs < c x)"

lemma total_weight_bounds:
  assumes "pool_ok key weight xs"
  shows "0 \<le> total_weight weight xs" "total_weight weight xs \<le> int (length xs) * Max_weight"
    "xs \<noteq> [] \<Longrightarrow> 0 < total_weight weight xs"
proof -
  have w: "0 < weight x \<and> weight x \<le> Max_weight" if "x \<in> set xs" for x
    using assms that by (simp add: pool_ok_def)
  show "0 \<le> total_weight weight xs" using w by (intro sum_nonneg) force
  have "total_weight weight xs \<le> int (card (set xs)) * Max_weight" using w by (intro sum_bounded_above) simp
  also have "\<dots> \<le> int (length xs) * Max_weight" by (simp add: card_length)
  finally show "total_weight weight xs \<le> int (length xs) * Max_weight" .
  show "0 < total_weight weight xs" if "xs \<noteq> []" using w that by (intro sum_pos) auto
qed

text \<open>Credits that sum to zero and are above minus the total cannot overflow 64 bits.\<close>

lemma credits_range:
  assumes "pool_ok key weight xs" "credits_ok weight xs c" "x \<in> set xs"
  shows "- total_weight weight xs < c x" "c x \<le> int (length xs) * total_weight weight xs"
    "int (length xs) * total_weight weight xs \<le> 4000000000000000000"
proof -
  let ?W = "total_weight weight xs"
  show "- ?W < c x" using assms by (simp add: credits_ok_def)
  have "sum (\<lambda>y. - c y) (set xs - {x}) \<le> int (card (set xs - {x})) * ?W"
    using assms(2) by (intro sum_bounded_above) (force simp: credits_ok_def)
  moreover have "sum c (set xs) = c x + sum c (set xs - {x})" using assms(3) by (simp add: sum.remove)
  ultimately have "c x \<le> int (card (set xs - {x})) * ?W"
    using assms(2) by (simp add: credits_ok_def sum_negf)
  also have "\<dots> \<le> int (length xs) * ?W"
  proof (rule mult_right_mono)
    have "card (set xs - {x}) \<le> card (set xs)" by (rule card_mono) auto
    then show "int (card (set xs - {x})) \<le> int (length xs)" using card_length [of xs] by simp
  qed (rule total_weight_bounds(1) [OF assms(1)])
  finally show "c x \<le> int (length xs) * ?W" .
  have n: "int (length xs) \<le> 2000000" using assms(1) by (simp add: pool_ok_def)
  have "?W \<le> 2000000 * Max_weight" using total_weight_bounds(2) [OF assms(1)] n by linarith
  then have "int (length xs) * ?W \<le> 2000000 * (2000000 * Max_weight)"
    using n total_weight_bounds(1) [OF assms(1)] by (intro mult_mono) auto
  then show "int (length xs) * ?W \<le> 4000000000000000000" by simp
qed

lemma smooth_fold:
  assumes "distinct (map key xs)" "\<forall>x \<in> set xs. 0 < weight x \<and> weight x \<le> Max_weight"
    and "\<forall>x \<in> set xs. int64 (get_or 0 cur (key x)) \<and> int64 (get_or 0 cur (key x) + weight x)"
    and "length xs \<le> 2000000"
  shows "\<exists>picked c tot cur'. fold (smooth_step key weight) xs (None, 0, 0, cur) = (picked, c, tot, cur') \<and>
     tot = sum weight (set xs) \<and>
     (\<forall>k. get_or 0 cur' k = get_or 0 cur k + (\<Sum>x \<in> {x \<in> set xs. key x = k}. weight x)) \<and>
     (if xs = [] then picked = None
      else \<exists>p \<in> set xs. picked = Some p \<and> c = get_or 0 cur (key p) + weight p \<and>
             (\<forall>y \<in> set xs. get_or 0 cur (key y) + weight y \<le> c))"
  using assms
proof (induction xs rule: rev_induct)
  case Nil
  then show ?case by simp
next
  case (snoc x xs)
  from snoc.IH snoc.prems obtain picked c tot cur' where
    f: "fold (smooth_step key weight) xs (None, 0, 0, cur) = (picked, c, tot, cur')"
    and tot: "tot = sum weight (set xs)"
    and cur': "\<And>k. get_or 0 cur' k = get_or 0 cur k + (\<Sum>x \<in> {x \<in> set xs. key x = k}. weight x)"
    and best: "if xs = [] then picked = None
      else \<exists>p \<in> set xs. picked = Some p \<and> c = get_or 0 cur (key p) + weight p \<and>
             (\<forall>y \<in> set xs. get_or 0 cur (key y) + weight y \<le> c)" by auto
  have "key x \<notin> key ` set xs" using snoc.prems(1) by simp
  then have new: "x \<notin> set xs" "\<And>y. y \<in> set xs \<Longrightarrow> key y \<noteq> key x" by (auto simp: image_iff)
  then have same: "get_or 0 cur' (key x) = get_or 0 cur (key x)" using cur' [of "key x"]
    by (metis (mono_tags, lifting) add.right_neutral empty_Collect_eq sum.empty)
  have W: "0 \<le> tot" "tot \<le> 2000000 * Max_weight" "int64 tot" "int64 (tot + weight x)" "int64 (weight x)"
  proof -
    have "pool_ok key weight xs" using snoc.prems by (simp add: pool_ok_def)
    from total_weight_bounds(1,2) [OF this] snoc.prems(4)
    show "0 \<le> tot" "tot \<le> 2000000 * Max_weight" unfolding tot by auto
    with snoc.prems(2) show "int64 tot" "int64 (tot + weight x)" "int64 (weight x)" by (auto simp: int64_def)
  qed
  have "{y \<in> set (xs @ [x]). key y = k} =
        (if key x = k then {x} else {y \<in> set xs. key y = k})" for k using new by auto
  moreover have "{y \<in> set xs. key y = key x} = {}" using new by auto
  ultimately have upd: "(if k = key x then get_or 0 cur (key x) + weight x else get_or 0 cur' k) =
      get_or 0 cur k + (\<Sum>y \<in> {y \<in> set (xs @ [x]). key y = k}. weight y)" for k
    using cur' [of k] by auto
  let ?cx = "get_or 0 cur (key x) + weight x"
  let ?cur = "AList.update (key x) ?cx cur'"
  have step: "fold (smooth_step key weight) (xs @ [x]) (None, 0, 0, cur) =
      (if picked = None \<or> ?cx > c then (Some x, ?cx, tot + weight x, ?cur)
       else (picked, c, tot + weight x, ?cur))"
    using same W snoc.prems(3) unfolding fold_append comp_def f
    by (simp add: smooth_step_def Let_def)
  have cur: "\<forall>k. get_or 0 ?cur k = get_or 0 cur k + (\<Sum>y \<in> {y \<in> set (xs @ [x]). key y = k}. weight y)"
    using upd by simp
  have total: "tot + weight x = sum weight (set (xs @ [x]))" using new(1) by (simp add: tot)
  show ?case
  proof (cases "picked = None \<or> ?cx > c")
    case True
    have "\<forall>y \<in> set xs. get_or 0 cur (key y) + weight y \<le> ?cx"
      using True best by (cases "xs = []") force+
    then show ?thesis
      using step True cur total by (intro exI [of _ "Some x"] exI [of _ ?cx] exI [of _ "tot + weight x"] exI [of _ ?cur]) simp
  next
    case False
    then have "xs \<noteq> []" using best by (cases "xs = []") auto
    with False best obtain p where "p \<in> set xs" "picked = Some p" "c = get_or 0 cur (key p) + weight p"
      "\<forall>y \<in> set xs. get_or 0 cur (key y) + weight y \<le> c" by auto
    then show ?thesis
      using step False cur total by (intro exI [of _ picked] exI [of _ c] exI [of _ "tot + weight x"] exI [of _ ?cur]) auto
  qed
qed

abbreviation credit :: "('a \<Rightarrow> string) \<Rightarrow> (string \<times> int) list \<Rightarrow> 'a \<Rightarrow> int" where
  "credit key cur \<equiv> (\<lambda>x. get_or 0 cur (key x))"

lemma credits_int64:
  assumes "pool_ok key weight xs" "credits_ok weight xs c" "x \<in> set xs"
  shows "int64 (c x)" "int64 (c x + weight x)"
proof -
  have "- 2000000000000 \<le> c x" "c x \<le> 4000000000000000000" "0 < weight x" "weight x \<le> Max_weight"
    using credits_range [OF assms] total_weight_bounds(2) [OF assms(1)] assms(1,3)
    by (auto simp: pool_ok_def)
  then show "int64 (c x)" "int64 (c x + weight x)" by (auto simp: int64_def)
qed

text \<open>One pick, exactly: everyone gains its weight and the picked one pays the total.\<close>

lemma smooth_pick_exact:
  assumes "pool_ok key weight xs" "xs \<noteq> []" "credits_ok weight xs (credit key cur)"
  shows "\<exists>p cur'. smooth_pick key weight xs cur = (Some p, cur') \<and> p \<in> set xs \<and>
     (\<forall>y \<in> set xs. credit key cur y + weight y \<le> credit key cur p + weight p) \<and>
     (\<forall>x \<in> set xs. credit key cur' x =
        credit key cur x + weight x - (if x = p then total_weight weight xs else 0)) \<and>
     credits_ok weight xs (credit key cur')"
proof -
  let ?W = "total_weight weight xs"
  have dist: "distinct (map key xs)" and w: "\<forall>x \<in> set xs. 0 < weight x \<and> weight x \<le> Max_weight"
    and n: "length xs \<le> 2000000" using assms(1) by (auto simp: pool_ok_def)
  have rng: "\<forall>x \<in> set xs. int64 (credit key cur x) \<and> int64 (credit key cur x + weight x)"
    using credits_int64 [OF assms(1,3)] by blast
  from smooth_fold [OF dist w rng n] assms(2) obtain p mid where
    f: "fold (smooth_step key weight) xs (None, 0, 0, cur) = (Some p, credit key cur p + weight p, ?W, mid)"
    and p: "p \<in> set xs" and mid: "\<And>k. get_or 0 mid k = get_or 0 cur k + (\<Sum>x \<in> {x \<in> set xs. key x = k}. weight x)"
    and max: "\<forall>y \<in> set xs. credit key cur y + weight y \<le> credit key cur p + weight p"
    by auto
  have own: "{y \<in> set xs. key y = key x} = {x}" if "x \<in> set xs" for x
    using dist that by (auto simp: distinct_map inj_on_def)
  have gain: "credit key mid x = credit key cur x + weight x" if "x \<in> set xs" for x
    using mid [of "key x"] own [OF that] by simp
  let ?c = "\<lambda>x. credit key cur x + weight x - (if x = p then ?W else 0)"
  have sum: "(\<Sum>x \<in> set xs. credit key cur x + weight x) = ?W"
    using assms(3) by (simp add: credits_ok_def sum.distrib)
  have pos: "0 < credit key cur p + weight p"
  proof (rule ccontr)
    assume "\<not> ?thesis"
    with max have "\<forall>x \<in> set xs. credit key cur x + weight x \<le> 0" by force
    then have "(\<Sum>x \<in> set xs. credit key cur x + weight x) \<le> 0" by (intro sum_nonpos) auto
    with sum total_weight_bounds(3) [OF assms(1,2)] show False by simp
  qed
  have "(\<Sum>x \<in> set xs. if x = p then ?W else 0) = ?W" using p by (simp add: sum.delta)
  then have "sum ?c (set xs) = 0" using sum by (simp add: sum_subtractf)
  moreover have "- ?W < ?c x" if "x \<in> set xs" for x
    using pos assms(3) w that by (force simp: credits_ok_def)
  ultimately have ok: "credits_ok weight xs ?c" by (simp add: credits_ok_def)
  let ?cur = "AList.update (key p) (credit key cur p + weight p - ?W) mid"
  have "int64 (credit key cur p + weight p)" "int64 ?W" "int64 (- ?W)" "int64 (credit key cur p + weight p - ?W)"
    using credits_int64(2) [OF assms(1,3) p] credits_int64(1) [OF assms(1) ok p]
      total_weight_bounds(1,2) [OF assms(1)] n by (auto simp: int64_def)
  then have "smooth_pick key weight xs cur = (Some p, ?cur)"
    unfolding smooth_pick_def f smooth_finish_def
    using gain [OF p] saturatingAddInt64_exact [of "credit key cur p + weight p" "- ?W"] by simp
  moreover have eq: "credit key ?cur x = ?c x" if "x \<in> set xs" for x
    using gain [OF that] own [OF p] that by auto
  moreover have "credits_ok weight xs (credit key ?cur)"
    using ok eq unfolding credits_ok_def by (metis (no_types, lifting) sum.cong)
  ultimately show ?thesis using p max by blast
qed

text \<open>A run of picks, collecting what was picked.\<close>

fun iterate_picks :: "('s \<Rightarrow> 'a option \<times> 's) \<Rightarrow> nat \<Rightarrow> 's \<Rightarrow> 'a list \<times> 's" where
  "iterate_picks f 0 s = ([], s)"
| "iterate_picks f (Suc n) s =
     (case f s of
        (None, s') \<Rightarrow> iterate_picks f n s'
      | (Some x, s') \<Rightarrow> (let (xs, s'') = iterate_picks f n s' in (x # xs, s'')))"

lemma smooth_run:
  assumes "pool_ok key weight xs" "xs \<noteq> []" "credits_ok weight xs (credit key cur)"
    and "iterate_picks (smooth_pick key weight xs) k cur = (ps, cur')"
  shows "length ps = k \<and> set ps \<subseteq> set xs \<and> credits_ok weight xs (credit key cur') \<and>
    (\<forall>x \<in> set xs. credit key cur' x =
       credit key cur x + int k * weight x - total_weight weight xs * int (count_list ps x))"
  using assms(3,4)
proof (induction k arbitrary: cur ps)
  case 0
  then show ?case by simp
next
  case (Suc k)
  from smooth_pick_exact [OF assms(1,2) Suc.prems(1)] obtain p mid where
    m: "smooth_pick key weight xs cur = (Some p, mid)" "p \<in> set xs" "credits_ok weight xs (credit key mid)"
    and mid: "\<And>x. x \<in> set xs \<Longrightarrow> credit key mid x =
      credit key cur x + weight x - (if x = p then total_weight weight xs else 0)" by blast
  from m Suc.prems(2) obtain qs where qs: "iterate_picks (smooth_pick key weight xs) k mid = (qs, cur')"
    "ps = p # qs" by (auto split: prod.splits)
  from Suc.IH [OF m(3) qs(1)] qs(2) m(2) show ?case
    by (auto simp: mid algebra_simps)
qed

lemma smooth_step_picked:
  "fst (smooth_step key weight x s) = Some x \<or> (fst (smooth_step key weight x s) = fst s \<and> fst s \<noteq> None)"
  by (cases s) (simp add: smooth_step_def Let_def)

lemma smooth_fold_picked:
  "(fst (fold (smooth_step key weight) xs s) = fst s \<and> (xs = [] \<or> fst s \<noteq> None)) \<or>
   (\<exists>x \<in> set xs. fst (fold (smooth_step key weight) xs s) = Some x)"
proof (induction xs arbitrary: s)
  case (Cons x xs)
  then show ?case
    using smooth_step_picked [of key weight x s] Cons.IH [of "smooth_step key weight x s"] by force
qed simp

lemma smooth_pick_picked:
  "if xs = [] then fst (smooth_pick key weight xs cur) = None
   else \<exists>x \<in> set xs. fst (smooth_pick key weight xs cur) = Some x"
proof -
  have "fst (smooth_finish key s) = fst s" for s :: "'a option \<times> int \<times> int \<times> (string \<times> int) list"
    by (cases s) (simp add: smooth_finish_def split: option.split)
  then show ?thesis
    using smooth_fold_picked [of key weight xs "(None, 0, 0, cur)"] by (auto simp: smooth_pick_def)
qed

text \<open>
  The interface: a picker that runs the reference on the candidates of positive weight that pass the
  request's filter.
\<close>

locale smooth_weighted =
  fixes key :: "'a \<Rightarrow> string" and weight :: "'a \<Rightarrow> int"
    and pick :: "('a \<Rightarrow> bool) \<Rightarrow> 'a list \<Rightarrow> (string \<times> int) list \<Rightarrow> 'a option \<times> (string \<times> int) list"
  assumes pick_reference:
      "pick P xs cur = smooth_pick key weight (filter (\<lambda>x. 0 < weight x \<and> P x) xs) cur"
begin

definition candidates :: "('a \<Rightarrow> bool) \<Rightarrow> 'a list \<Rightarrow> 'a list" where
  "candidates P xs = filter (\<lambda>x. 0 < weight x \<and> P x) xs"

lemma candidates_ok:
  assumes "distinct (map key xs)" "length xs \<le> 2000000" "\<forall>x \<in> set xs. weight x \<le> Max_weight"
  shows "pool_ok key weight (candidates P xs)"
  unfolding pool_ok_def
proof (intro conjI)
  show "distinct (map key (candidates P xs))" using assms(1) by (simp add: candidates_def distinct_map_filter)
  show "length (candidates P xs) \<le> 2000000"
    unfolding candidates_def by (rule order_trans [OF length_filter_le assms(2)])
qed (use assms(3) in \<open>auto simp: candidates_def\<close>)

lemma pick_none_iff: "fst (pick P xs cur) = None \<longleftrightarrow> candidates P xs = []"
  using smooth_pick_picked [where xs = "candidates P xs" and key = key and weight = weight and cur = cur]
  unfolding pick_reference candidates_def [symmetric] by (auto split: if_splits)

lemma pick_in: "fst (pick P xs cur) = Some p \<Longrightarrow> p \<in> set (candidates P xs)"
  using smooth_pick_picked [where xs = "candidates P xs" and key = key and weight = weight and cur = cur]
  unfolding pick_reference candidates_def [symmetric] by (auto split: if_splits)

lemma fair_run:
  assumes "distinct (map key xs)" "length xs \<le> 2000000" "\<forall>x \<in> set xs. weight x \<le> Max_weight"
    and "candidates P xs \<noteq> []"
    and "\<forall>x \<in> set (candidates P xs). credit key cur x = 0"
    and "iterate_picks (pick P xs) k cur = (ps, cur')"
    and "W = total_weight weight (candidates P xs)"
  shows "length ps = k \<and>
    (\<forall>x \<in> set (candidates P xs). W * int (count_list ps x) < int k * weight x + W \<and>
       (int k = W \<longrightarrow> int (count_list ps x) = weight x \<and> credit key cur' x = 0))"
proof -
  let ?xs = "candidates P xs"
  note ok = candidates_ok [OF assms(1-3), of P]
  have W: "0 < W" using total_weight_bounds(3) [OF ok assms(4)] assms(7) by simp
  have zero: "credits_ok weight ?xs (credit key cur)"
    using assms(5,7) W by (simp add: credits_ok_def)
  have "pick P xs = smooth_pick key weight ?xs" by (simp add: fun_eq_iff pick_reference candidates_def)
  from smooth_run [OF ok assms(4) zero] assms(6) this
  have run: "length ps = k" "set ps \<subseteq> set ?xs" "credits_ok weight ?xs (credit key cur')"
    and cr: "\<And>x. x \<in> set ?xs \<Longrightarrow> credit key cur' x = int k * weight x - W * int (count_list ps x)"
    using assms(5,7) by auto
  have low: "W * int (count_list ps x) < int k * weight x + W" if "x \<in> set ?xs" for x
    using run(3) cr [OF that] that assms(7) by (force simp: credits_ok_def)
  have "int (count_list ps x) = weight x \<and> credit key cur' x = 0" if k: "int k = W" and x: "x \<in> set ?xs" for x
  proof -
    have le: "int (count_list ps y) \<le> weight y" if "y \<in> set ?xs" for y
    proof -
      have "W * int (count_list ps y) < W * (weight y + 1)" using low [OF that] k by (simp add: algebra_simps)
      then show ?thesis using W by simp
    qed
    have "(\<Sum>y \<in> set ?xs. count_list ps y) = length ps" by (rule sum_count_set) (use run(2) in auto)
    then have "(\<Sum>y \<in> set ?xs. int (count_list ps y)) = (\<Sum>y \<in> set ?xs. weight y)"
      using run(1) k assms(7) by (metis of_nat_sum)
    from sum_mono_inv [OF this le x] have "int (count_list ps x) = weight x" by simp
    with cr [OF x] k show ?thesis by simp
  qed
  with low run(1) show ?thesis by blast
qed

end

end
