(* ===== verification/Capacity.thy ===== *)
theory Capacity
  imports Credential
begin

text \<open>
  Ranking credentials by the quota they have left (\<open>sdk/cliproxy/auth/capacity.go\<close>) and the pin
  that keeps quota-drain routing on one of them (\<open>quota_pin.go\<close>). Percentages and urgencies are
  rationals: the rounding of \<open>float64\<close> division is not modelled, the comparisons with a tolerance
  are.
\<close>

section \<open>Capacity ranks (capacity.go)\<close>

abbreviation capacityPercentEpsilon :: rat where "capacityPercentEpsilon \<equiv> 1 / 10000"
abbreviation capacityUrgencyEpsilon :: rat where "capacityUrgencyEpsilon \<equiv> 1 / 1000000000"
abbreviation budgetWindowMinPeriod :: duration where "budgetWindowMinPeriod \<equiv> 24 * go_hour"
abbreviation minUrgencyHorizon :: duration where "minUrgencyHorizon \<equiv> go_hour"

record capacityWindowRank =
  wr_remaining :: rat
  wr_resetAt :: time

record capacityRank =
  rank_known :: bool
  rank_exhausted :: bool
  rank_remaining :: rat
  rank_resetAt :: time
  rank_windows :: "capacityWindowRank list"
  rank_urgencyKnown :: bool
  rank_urgency :: rat
  rank_budgetResetAt :: time

definition zero_rank :: capacityRank where
  "zero_rank = \<lparr>rank_known = False, rank_exhausted = False, rank_remaining = 0, rank_resetAt = 0,
     rank_windows = [], rank_urgencyKnown = False, rank_urgency = 0, rank_budgetResetAt = 0\<rparr>"

fun normalizedCapacityPercent :: "float64 \<Rightarrow> rat" where
  "normalizedCapacityPercent (F64 v) = (if v < 0 then 0 else if v > 100 then 100 else v)"
| "normalizedCapacityPercent _ = 0"

definition capacityScopeMatches :: "string \<Rightarrow> string \<Rightarrow> bool" where
  "capacityScopeMatches scopeModel model \<longleftrightarrow>
     (let scopeModel = to_lower (canonicalModelKey scopeModel)
      in if scopeModel = '''' then True
         else let model = to_lower (canonicalModelKey model)
              in model \<noteq> '''' \<and> scopeModel = model)"

definition resetBefore :: "time \<Rightarrow> time \<Rightarrow> bool" where
  "resetBefore left right \<longleftrightarrow> (if left = 0 then False else right = 0 \<or> left < right)"

definition capacityWindowRankLess :: "capacityWindowRank \<Rightarrow> capacityWindowRank \<Rightarrow> bool" where
  "capacityWindowRankLess left right \<longleftrightarrow>
     (if \<bar>wr_remaining left - wr_remaining right\<bar> > capacityPercentEpsilon
      then wr_remaining left < wr_remaining right
      else if wr_resetAt left \<noteq> wr_resetAt right
      then resetBefore (wr_resetAt left) (wr_resetAt right)
      else False)"

definition capacityWindowRanksEqual :: "capacityWindowRank \<Rightarrow> capacityWindowRank \<Rightarrow> bool" where
  "capacityWindowRanksEqual left right \<longleftrightarrow>
     \<bar>wr_remaining left - wr_remaining right\<bar> \<le> capacityPercentEpsilon \<and>
     wr_resetAt left = wr_resetAt right"

text \<open>
  \<open>sort.SliceStable\<close>: the insertion sort the library runs on up to 20 elements, each element
  moving left while it is less than its neighbour.
\<close>

fun insert_left :: "('a \<Rightarrow> 'a \<Rightarrow> bool) \<Rightarrow> 'a \<Rightarrow> 'a list \<Rightarrow> 'a list" where
  "insert_left lt x [] = [x]"
| "insert_left lt x (y # ys) = (if lt x y then y # insert_left lt x ys else x # y # ys)"

definition slice_stable :: "('a \<Rightarrow> 'a \<Rightarrow> bool) \<Rightarrow> 'a list \<Rightarrow> 'a list" where
  "slice_stable lt xs = rev (fold (insert_left lt) xs [])"

definition windowActive :: "CapacityWindow \<Rightarrow> string \<Rightarrow> time \<Rightarrow> bool" where
  "windowActive w model now \<longleftrightarrow>
     win_Routing w \<and> win_Known w \<and> capacityScopeMatches (win_ScopeModel w) model \<and>
     \<not> (win_ResetAt w \<noteq> 0 \<and> \<not> win_ResetAt w > now)"

definition budgetWindow :: "CapacityWindow \<Rightarrow> bool" where
  "budgetWindow w \<longleftrightarrow> wrap64 (win_PeriodSeconds w * 1000000000) \<ge> budgetWindowMinPeriod"

definition windowUrgency :: "CapacityWindow \<Rightarrow> time \<Rightarrow> rat" where
  "windowUrgency w now =
     (let period = wrap64 (win_PeriodSeconds w * 1000000000);
          horizon = (if win_ResetAt w \<noteq> 0 then time_sub (win_ResetAt w) now else period);
          horizon = (if horizon < minUrgencyHorizon then minUrgencyHorizon else horizon)
      in normalizedCapacityPercent (win_RemainingPercent w) / (rat_of_int horizon / rat_of_int go_hour))"

text \<open>The body of the loop over the windows, for a window that is active.\<close>

definition rankWindow :: "time \<Rightarrow> CapacityWindow \<Rightarrow> capacityRank \<Rightarrow> capacityRank" where
  "rankWindow now w rank =
     (let remaining = normalizedCapacityPercent (win_RemainingPercent w);
          rank = rank\<lparr>rank_known := True,
                      rank_windows := rank_windows rank @
                        [\<lparr>wr_remaining = remaining, wr_resetAt = win_ResetAt w\<rparr>]\<rparr>;
          rank = (if budgetWindow w
                  then (let rank = (if win_ResetAt w \<noteq> 0 \<and> win_ResetAt w > rank_budgetResetAt rank
                                    then rank\<lparr>rank_budgetResetAt := win_ResetAt w\<rparr> else rank);
                            urgency = windowUrgency w now
                        in rank\<lparr>rank_urgency :=
                                  (if \<not> rank_urgencyKnown rank \<or> urgency < rank_urgency rank
                                   then urgency else rank_urgency rank),
                                rank_urgencyKnown := True\<rparr>)
                  else rank)
      in if win_HardExhausted w
         then rank\<lparr>rank_exhausted := True,
                   rank_resetAt := (if resetBefore (win_ResetAt w) (rank_resetAt rank)
                                    then win_ResetAt w else rank_resetAt rank)\<rparr>
         else rank)"

definition quotaCapacityRank :: "Auth \<Rightarrow> string \<Rightarrow> time \<Rightarrow> capacityRank" where
  "quotaCapacityRank a model now =
     (let state = auth_Capacity a
      in if \<not> cap_Supported state \<or> cap_FetchedAt state = 0 then zero_rank
         else if cap_StaleAt state \<noteq> 0 \<and> \<not> now < cap_StaleAt state then zero_rank
         else let rank = fold (\<lambda>w rank. if windowActive w model now then rankWindow now w rank else rank)
                           (cap_Windows state) (zero_rank\<lparr>rank_remaining := 100\<rparr>)
              in if \<not> rank_known rank then rank
                 else let windows = slice_stable capacityWindowRankLess (rank_windows rank);
                          rank = rank\<lparr>rank_windows := windows, rank_remaining := wr_remaining (hd windows)\<rparr>
                      in if \<not> rank_exhausted rank then rank\<lparr>rank_resetAt := wr_resetAt (hd windows)\<rparr>
                         else rank)"

definition quotaCapacityExhausted :: "Auth \<Rightarrow> string \<Rightarrow> time \<Rightarrow> bool" where
  "quotaCapacityExhausted a model now \<longleftrightarrow>
     (let rank = quotaCapacityRank a model now in rank_known rank \<and> rank_exhausted rank)"

fun windowsLess :: "capacityWindowRank list \<Rightarrow> capacityWindowRank list \<Rightarrow> bool" where
  "windowsLess (l # ls) (r # rs) =
     (if capacityWindowRanksEqual l r then windowsLess ls rs else capacityWindowRankLess l r)"
| "windowsLess ls rs = (length ls > length rs)"

definition urgencyDecides :: "capacityRank \<Rightarrow> capacityRank \<Rightarrow> bool" where
  "urgencyDecides left right \<longleftrightarrow> rank_urgencyKnown left \<and> rank_urgencyKnown right \<and>
     \<bar>rank_urgency left - rank_urgency right\<bar> > capacityUrgencyEpsilon"

definition quotaRankLess :: "capacityRank \<Rightarrow> capacityRank \<Rightarrow> bool" where
  "quotaRankLess left right \<longleftrightarrow>
     (if rank_known left \<noteq> rank_known right then rank_known left
      else if \<not> rank_known left then False
      else if urgencyDecides left right then rank_urgency left > rank_urgency right
      else windowsLess (rank_windows left) (rank_windows right))"

definition quotaRanksEqual :: "capacityRank \<Rightarrow> capacityRank \<Rightarrow> bool" where
  "quotaRanksEqual left right \<longleftrightarrow>
     (if rank_known left \<noteq> rank_known right then False
      else if \<not> rank_known left then True
      else if urgencyDecides left right then False
      else list_all2 capacityWindowRanksEqual (rank_windows left) (rank_windows right))"

definition quotaDrainPriorities :: "(int \<times> 'a list) list \<Rightarrow> int list" where
  "quotaDrainPriorities available = rev (sort (map fst available))"

section \<open>The pin (quota_pin.go)\<close>

abbreviation budgetRolloverTolerance :: duration where "budgetRolloverTolerance \<equiv> go_hour"

record quotaPinCandidate =
  cand_id :: string
  cand_rank :: capacityRank
  cand_allowed :: bool

record quotaDrainPin =
  pin_authID :: string
  pin_members :: "(string \<times> time) list"

definition empty_pin :: quotaDrainPin where
  "empty_pin = \<lparr>pin_authID = '''', pin_members = []\<rparr>"

definition budgetRolledOver :: "time \<Rightarrow> time \<Rightarrow> bool" where
  "budgetRolledOver recorded current \<longleftrightarrow>
     (if (recorded = 0) \<noteq> (current = 0) then True
      else let diff = time_sub current recorded;
               diff = (if diff < 0 then wrap64 (- diff) else diff)
           in diff > budgetRolloverTolerance)"

text \<open>\<open>validFor\<close>: the index of the pinned candidate, \<open>None\<close> when the pin is not valid.\<close>

definition memberCurrent :: "quotaDrainPin \<Rightarrow> quotaPinCandidate \<Rightarrow> bool" where
  "memberCurrent p c \<longleftrightarrow>
     (case map_of (pin_members p) (cand_id c) of
        None \<Rightarrow> False
      | Some recorded \<Rightarrow> \<not> budgetRolledOver recorded (rank_budgetResetAt (cand_rank c)))"

definition validFor :: "quotaDrainPin option \<Rightarrow> quotaPinCandidate list \<Rightarrow> nat option" where
  "validFor pin candidates =
     (case pin of
        None \<Rightarrow> None
      | Some p \<Rightarrow>
          if pin_authID p = '''' then None
          else if list_ex (\<lambda>c. \<not> memberCurrent p c) candidates then None
          else find (\<lambda>i. cand_id (candidates ! i) = pin_authID p) (rev [0..<length candidates]))"

definition pin_set :: "string \<Rightarrow> quotaPinCandidate list \<Rightarrow> quotaDrainPin" where
  "pin_set authID candidates =
     \<lparr>pin_authID = authID,
      pin_members = fold (\<lambda>c. AList.update (cand_id c) (rank_budgetResetAt (cand_rank c))) candidates []\<rparr>"

fun bestQuotaFrom :: "quotaPinCandidate list \<Rightarrow> bool \<Rightarrow> nat list \<Rightarrow> nat option \<Rightarrow> nat option" where
  "bestQuotaFrom candidates allowedOnly [] best = best"
| "bestQuotaFrom candidates allowedOnly (i # order) best =
     (let candidate = candidates ! i
      in if allowedOnly \<and> \<not> cand_allowed candidate then bestQuotaFrom candidates allowedOnly order best
         else if best = None \<or> quotaRankLess (cand_rank candidate) (cand_rank (candidates ! the best))
         then bestQuotaFrom candidates allowedOnly order (Some i)
         else bestQuotaFrom candidates allowedOnly order best)"

definition bestQuotaCandidate :: "quotaPinCandidate list \<Rightarrow> nat list \<Rightarrow> bool \<Rightarrow> nat option" where
  "bestQuotaCandidate candidates order allowedOnly = bestQuotaFrom candidates allowedOnly order None"

definition pickQuotaPinned ::
    "quotaDrainPin option \<Rightarrow> quotaPinCandidate list \<Rightarrow> nat list \<Rightarrow> nat option \<times> quotaDrainPin option" where
  "pickQuotaPinned pin candidates order =
     (if candidates = [] then (None, pin)
      else case validFor pin candidates of
        Some pinned \<Rightarrow>
          (if cand_allowed (candidates ! pinned) then (Some pinned, pin)
           else (bestQuotaCandidate candidates order True, pin))
      | None \<Rightarrow>
          (case bestQuotaCandidate candidates order False of
             None \<Rightarrow> (bestQuotaCandidate candidates order True, pin)
           | Some best \<Rightarrow>
               (let pin' = (case pin of None \<Rightarrow> None
                            | Some _ \<Rightarrow> Some (pin_set (cand_id (candidates ! best)) candidates))
                in if cand_allowed (candidates ! best) then (Some best, pin')
                   else (bestQuotaCandidate candidates order True, pin'))))"

section \<open>What a rank says\<close>

lemma mset_insert_left [simp]: "mset (insert_left lt x ys) = add_mset x (mset ys)"
  by (induction ys) auto

lemma mset_slice_stable [simp]: "mset (slice_stable lt xs) = mset xs"
proof -
  have "mset (fold (insert_left lt) xs ys) = mset xs + mset ys" for ys
    by (induction xs arbitrary: ys) auto
  then show ?thesis by (simp add: slice_stable_def)
qed

lemma slice_stable_Nil_iff [simp]: "slice_stable lt xs = [] \<longleftrightarrow> xs = []"
  by (metis mset_slice_stable mset_zero_iff)

lemma fold_filter: "fold (\<lambda>x s. if P x then f x s else s) xs s = fold f (filter P xs) s"
  by (induction xs arbitrary: s) auto

lemma normalizedCapacityPercent_bounds: "0 \<le> normalizedCapacityPercent v" "normalizedCapacityPercent v \<le> 100"
  by (cases v; simp)+

definition capacityFresh :: "Auth \<Rightarrow> time \<Rightarrow> bool" where
  "capacityFresh a now \<longleftrightarrow> (let st = auth_Capacity a in
     cap_Supported st \<and> cap_FetchedAt st \<noteq> 0 \<and> (cap_StaleAt st = 0 \<or> now < cap_StaleAt st))"

definition activeWindows :: "Auth \<Rightarrow> string \<Rightarrow> time \<Rightarrow> CapacityWindow list" where
  "activeWindows a model now =
     (if capacityFresh a now then filter (\<lambda>w. windowActive w model now) (cap_Windows (auth_Capacity a)) else [])"

definition windowRank :: "CapacityWindow \<Rightarrow> capacityWindowRank" where
  "windowRank w = \<lparr>wr_remaining = normalizedCapacityPercent (win_RemainingPercent w), wr_resetAt = win_ResetAt w\<rparr>"

abbreviation rankWindows :: "time \<Rightarrow> CapacityWindow list \<Rightarrow> capacityRank" where
  "rankWindows now ws \<equiv> fold (rankWindow now) ws (zero_rank\<lparr>rank_remaining := 100\<rparr>)"

lemma rankWindow_sel [simp]:
  "rank_known (rankWindow now w r) = True"
  "rank_windows (rankWindow now w r) = rank_windows r @ [windowRank w]"
  "rank_exhausted (rankWindow now w r) = (rank_exhausted r \<or> win_HardExhausted w)"
  "rank_urgencyKnown (rankWindow now w r) = (rank_urgencyKnown r \<or> budgetWindow w)"
  "rank_resetAt (rankWindow now w r) =
     (if win_HardExhausted w \<and> resetBefore (win_ResetAt w) (rank_resetAt r) then win_ResetAt w else rank_resetAt r)"
  "rank_urgency (rankWindow now w r) =
     (if budgetWindow w \<and> (\<not> rank_urgencyKnown r \<or> windowUrgency w now < rank_urgency r)
      then windowUrgency w now else rank_urgency r)"
  by (auto simp: rankWindow_def windowRank_def Let_def)

lemma rankWindows_flags:
  "rank_known (rankWindows now ws) \<longleftrightarrow> ws \<noteq> []"
  "rank_windows (rankWindows now ws) = map windowRank ws"
  "rank_exhausted (rankWindows now ws) \<longleftrightarrow> (\<exists>w \<in> set ws. win_HardExhausted w)"
  "rank_urgencyKnown (rankWindows now ws) \<longleftrightarrow> (\<exists>w \<in> set ws. budgetWindow w)"
  by (induction ws rule: rev_induct) (auto simp: zero_rank_def)

lemma rankWindows_urgency:
  "\<exists>w \<in> set ws. budgetWindow w \<Longrightarrow>
   (\<exists>w \<in> set ws. budgetWindow w \<and> rank_urgency (rankWindows now ws) = windowUrgency w now) \<and>
   (\<forall>w \<in> set ws. budgetWindow w \<longrightarrow> rank_urgency (rankWindows now ws) \<le> windowUrgency w now)"
proof (induction ws rule: rev_induct)
  case (snoc w ws)
  show ?case
  proof (cases "\<exists>w \<in> set ws. budgetWindow w")
    case True
    with snoc.IH show ?thesis by (auto simp: rankWindows_flags)
  next
    case False
    with snoc.prems show ?thesis by (auto simp: rankWindows_flags)
  qed
qed simp

lemma rankWindows_resetAt:
  "(rank_resetAt (rankWindows now ws) = 0 \<longleftrightarrow> (\<forall>w \<in> set ws. win_HardExhausted w \<longrightarrow> win_ResetAt w = 0)) \<and>
   (\<forall>w \<in> set ws. win_HardExhausted w \<and> win_ResetAt w \<noteq> 0 \<longrightarrow> rank_resetAt (rankWindows now ws) \<le> win_ResetAt w) \<and>
   (rank_resetAt (rankWindows now ws) \<noteq> 0 \<longrightarrow>
      (\<exists>w \<in> set ws. win_HardExhausted w \<and> win_ResetAt w = rank_resetAt (rankWindows now ws)))"
  by (induction ws rule: rev_induct) (auto simp: zero_rank_def resetBefore_def)

lemma quotaCapacityRank_eq:
  "quotaCapacityRank a model now =
     (if activeWindows a model now = []
      then (if capacityFresh a now then zero_rank\<lparr>rank_remaining := 100\<rparr> else zero_rank)
      else let r = rankWindows now (activeWindows a model now);
               ws = slice_stable capacityWindowRankLess (rank_windows r)
           in r\<lparr>rank_windows := ws, rank_remaining := wr_remaining (hd ws),
                rank_resetAt := (if rank_exhausted r then rank_resetAt r else wr_resetAt (hd ws))\<rparr>)"
proof (cases "capacityFresh a now")
  case False
  then show ?thesis
    by (auto simp: quotaCapacityRank_def activeWindows_def capacityFresh_def Let_def)
next
  case True
  then show ?thesis
    by (auto simp: quotaCapacityRank_def activeWindows_def capacityFresh_def Let_def fold_filter
        rankWindows_flags(1)) (simp_all add: zero_rank_def)
qed

text \<open>
  A capacity rank says what the active windows of a fresh snapshot say. It is known exactly when
  there is an active window, exhausted exactly when one of them is hard-exhausted, and then its
  reset is the earliest reported one of the exhausted windows; the remaining percentage lies
  between 0 and 100, and the urgency is the smallest one among the budget windows.
\<close>

theorem quotaCapacityRank_meaning:
  assumes "ws = activeWindows a model now" and "rank = quotaCapacityRank a model now"
  shows "(rank_known rank \<longleftrightarrow> ws \<noteq> []) \<and>
    (quotaCapacityExhausted a model now \<longleftrightarrow> (\<exists>w \<in> set ws. win_HardExhausted w)) \<and>
    mset (rank_windows rank) = mset (map windowRank ws) \<and>
    0 \<le> rank_remaining rank \<and> rank_remaining rank \<le> 100 \<and>
    (quotaCapacityExhausted a model now \<longrightarrow>
       (\<forall>w \<in> set ws. win_HardExhausted w \<and> win_ResetAt w \<noteq> 0 \<longrightarrow>
          rank_resetAt rank \<noteq> 0 \<and> rank_resetAt rank \<le> win_ResetAt w) \<and>
       (rank_resetAt rank \<noteq> 0 \<longrightarrow>
          (\<exists>w \<in> set ws. win_HardExhausted w \<and> win_ResetAt w = rank_resetAt rank))) \<and>
    (rank_urgencyKnown rank \<longleftrightarrow> (\<exists>w \<in> set ws. budgetWindow w)) \<and>
    (rank_urgencyKnown rank \<longrightarrow>
       (\<exists>w \<in> set ws. budgetWindow w \<and> rank_urgency rank = windowUrgency w now) \<and>
       (\<forall>w \<in> set ws. budgetWindow w \<longrightarrow> rank_urgency rank \<le> windowUrgency w now))"
proof (cases "ws = []")
  case True
  with assms show ?thesis
    by (simp add: quotaCapacityRank_eq quotaCapacityExhausted_def Let_def zero_rank_def)
next
  case False
  let ?sorted = "slice_stable capacityWindowRankLess (map windowRank ws)"
  have "hd ?sorted \<in> set ?sorted" using False by (intro hd_in_set) simp
  then have "hd ?sorted \<in> windowRank ` set ws"
    using mset_eq_setD [OF mset_slice_stable, of capacityWindowRankLess "map windowRank ws"] by simp
  then have "0 \<le> wr_remaining (hd ?sorted)" "wr_remaining (hd ?sorted) \<le> 100"
    by (auto simp: windowRank_def normalizedCapacityPercent_bounds)
  moreover have "rank = (rankWindows now ws)\<lparr>rank_windows := ?sorted, rank_remaining := wr_remaining (hd ?sorted),
      rank_resetAt := (if \<exists>w \<in> set ws. win_HardExhausted w then rank_resetAt (rankWindows now ws)
                       else wr_resetAt (hd ?sorted))\<rparr>"
    using False assms by (simp add: quotaCapacityRank_eq rankWindows_flags Let_def)
  ultimately show ?thesis
    using False rankWindows_flags [of now ws] rankWindows_urgency [of ws now] rankWindows_resetAt [of now ws]
      assms(2) by (auto simp: quotaCapacityExhausted_def Let_def)
qed

definition sample_window :: "rat \<Rightarrow> time \<Rightarrow> bool \<Rightarrow> int \<Rightarrow> CapacityWindow" where
  "sample_window remaining reset hard period =
     \<lparr>win_ScopeModel = '''', win_RemainingPercent = F64 remaining, win_ResetAt = reset, win_Known = True,
      win_HardExhausted = hard, win_Routing = True, win_PeriodSeconds = period\<rparr>"

definition sample_capacity :: "CapacityWindow list \<Rightarrow> Auth" where
  "sample_capacity ws = (sample_auth ''a'')\<lparr>auth_Capacity :=
     \<lparr>cap_Supported = True, cap_FetchedAt = 1, cap_StaleAt = 0, cap_Windows = ws\<rparr>\<rparr>"

theorem quotaCapacityRank_meaning_witness:
  "quotaCapacityExhausted (sample_capacity [sample_window 0 50 True 18000, sample_window 40 90 False 604800]) ''m'' 10 \<and>
   rank_resetAt (quotaCapacityRank (sample_capacity [sample_window 0 50 True 18000, sample_window 40 90 False 604800]) ''m'' 10) = 50"
proof -
  let ?ws = "[sample_window 0 50 True 18000, sample_window 40 90 False 604800]"
  let ?a = "sample_capacity ?ws"
  have scope: "capacityScopeMatches '''' m" for m
    by (simp add: capacityScopeMatches_def canonicalModelKey_def trim_space_def to_lower_def)
  have "activeWindows ?a ''m'' 10 = ?ws"
    by (simp add: activeWindows_def capacityFresh_def sample_capacity_def windowActive_def
        sample_window_def scope)
  with quotaCapacityRank_meaning [of "activeWindows ?a ''m'' 10" ?a "''m''" 10, OF refl refl]
  show ?thesis by (auto simp: sample_window_def)
qed

section \<open>What the pin does\<close>

lemma bestQuotaFrom_in:
  "bestQuotaFrom candidates allowedOnly order best = Some k \<Longrightarrow>
   best = Some k \<or> (k \<in> set order \<and> (allowedOnly \<longrightarrow> cand_allowed (candidates ! k)))"
  by (induction candidates allowedOnly order best rule: bestQuotaFrom.induct)
    (auto simp: Let_def split: if_splits)

lemma bestQuotaFrom_Some: "bestQuotaFrom candidates allowedOnly order (Some i) \<noteq> None"
  by (induction order arbitrary: i) (auto simp: Let_def)

lemma bestQuotaCandidate_None:
  "bestQuotaCandidate candidates order allowedOnly = None \<longleftrightarrow>
     (\<forall>k \<in> set order. allowedOnly \<and> \<not> cand_allowed (candidates ! k))"
proof -
  have "bestQuotaFrom candidates allowedOnly order None = None \<longleftrightarrow>
     (\<forall>k \<in> set order. allowedOnly \<and> \<not> cand_allowed (candidates ! k))"
    by (induction order) (auto simp: Let_def bestQuotaFrom_Some)
  then show ?thesis by (simp add: bestQuotaCandidate_def)
qed

lemma bestQuotaCandidate_in:
  "bestQuotaCandidate candidates order allowedOnly = Some k \<Longrightarrow>
   k \<in> set order \<and> (allowedOnly \<longrightarrow> cand_allowed (candidates ! k))"
  by (auto simp: bestQuotaCandidate_def dest: bestQuotaFrom_in)

lemma find_rev_upt:
  "find P (rev [0..<n]) = Some i \<Longrightarrow> i < n \<and> P i"
  by (auto simp: find_Some_iff rev_nth)

lemma validFor_Some:
  "validFor pin candidates = Some i \<Longrightarrow>
   \<exists>p. pin = Some p \<and> i < length candidates \<and> cand_id (candidates ! i) = pin_authID p \<and>
       (\<forall>c \<in> set candidates. memberCurrent p c)"
  by (auto simp: validFor_def list_ex_iff dest: find_rev_upt split: option.splits if_splits)

lemma pickQuotaPinned_cases:
  assumes "candidates \<noteq> []" "pickQuotaPinned pin candidates order = (picked, pin')"
  obtains (direct) k where "picked = Some k" "cand_allowed (candidates ! k)"
      "validFor pin candidates = Some k \<or> bestQuotaCandidate candidates order False = Some k"
  | (fallback) "picked = bestQuotaCandidate candidates order True"
proof (cases "validFor pin candidates")
  case (Some i)
  with assms have "picked = (if cand_allowed (candidates ! i) then Some i
      else bestQuotaCandidate candidates order True)"
    by (simp add: pickQuotaPinned_def split: if_splits)
  with Some direct [of i] fallback show thesis by (cases "cand_allowed (candidates ! i)") simp_all
next
  case None
  show thesis
  proof (cases "bestQuotaCandidate candidates order False")
    case None': None
    with None assms show thesis by (intro fallback) (simp add: pickQuotaPinned_def)
  next
    case (Some k)
    with None assms have "picked = (if cand_allowed (candidates ! k) then Some k
        else bestQuotaCandidate candidates order True)"
      by (simp add: pickQuotaPinned_def Let_def split: if_splits)
    with Some direct [of k] fallback show thesis by (cases "cand_allowed (candidates ! k)") simp_all
  qed
qed

lemma pickQuotaPinned_sound:
  assumes "set order = {..<length candidates}"
    and "pickQuotaPinned pin candidates order = (picked, pin')"
  shows "(\<forall>k. picked = Some k \<longrightarrow> k < length candidates \<and> cand_allowed (candidates ! k)) \<and>
         (picked = None \<longleftrightarrow> (\<forall>c \<in> set candidates. \<not> cand_allowed c))"
proof (cases "candidates = []")
  case True
  with assms(2) show ?thesis by (simp add: pickQuotaPinned_def)
next
  case False
  have all: "(\<forall>k \<in> set order. P (candidates ! k)) \<longleftrightarrow> (\<forall>c \<in> set candidates. P c)" for P
    using assms(1) by (metis all_set_conv_all_nth lessThan_iff)
  have found: ?thesis if "picked = Some k" "k < length candidates" "cand_allowed (candidates ! k)" for k
    using that nth_mem [OF that(2)] by auto
  have none_left: ?thesis if "picked = bestQuotaCandidate candidates order True"
  proof (cases picked)
    case None
    with that all [of "\<lambda>c. \<not> cand_allowed c"] bestQuotaCandidate_None [of candidates order True]
    show ?thesis by simp
  next
    case (Some k)
    with that assms(1) bestQuotaCandidate_in [of candidates order True k] show ?thesis
      by (intro found [of k]) simp_all
  qed
  from False assms(2) show ?thesis
  proof (cases rule: pickQuotaPinned_cases)
    case (direct k)
    then have "k < length candidates"
      using assms(1) bestQuotaCandidate_in validFor_Some by fastforce
    with direct(1,2) show ?thesis by (intro found)
  qed (rule none_left)
qed

text \<open>
  Quota-drain routing only returns a candidate the request may use and finds one whenever there
  is one: given a rotation that lists every candidate, the chosen index is that of an allowed
  candidate, and no index is returned exactly when no candidate is allowed.
\<close>

lemma pickQuotaPinned_allowed:
  assumes "set order = {..<length candidates}"
    and "pickQuotaPinned pin candidates order = (picked, pin')"
  shows "(\<forall>k. picked = Some k \<longrightarrow> k < length candidates \<and> cand_allowed (candidates ! k)) \<and>
         (picked = None \<longleftrightarrow> (\<forall>c \<in> set candidates. \<not> cand_allowed c))"
  using assms by (rule pickQuotaPinned_sound)

definition sample_candidate :: "string \<Rightarrow> capacityRank \<Rightarrow> bool \<Rightarrow> quotaPinCandidate" where
  "sample_candidate i r ok = \<lparr>cand_id = i, cand_rank = r, cand_allowed = ok\<rparr>"

lemma pickQuotaPinned_allowed_witness:
  "set [1, 0] = {..<length [sample_candidate ''a'' zero_rank False, sample_candidate ''b'' zero_rank True]} \<and>
   (\<exists>k pin'. pickQuotaPinned None [sample_candidate ''a'' zero_rank False, sample_candidate ''b'' zero_rank True] [1, 0] =
             (Some k, pin') \<and> cand_allowed ([sample_candidate ''a'' zero_rank False, sample_candidate ''b'' zero_rank True] ! k))"
proof -
  let ?c = "[sample_candidate ''a'' zero_rank False, sample_candidate ''b'' zero_rank True]"
  have order: "set [1, 0] = {..<length ?c}" by auto
  obtain picked pin' where p: "pickQuotaPinned None ?c [1, 0] = (picked, pin')" by (rule prod.exhaust)
  from pickQuotaPinned_allowed [OF order p] obtain k where "picked = Some k" "cand_allowed (?c ! k)"
    by (cases picked) (auto simp: sample_candidate_def)
  with p order show ?thesis by blast
qed

lemma map_of_pin_members:
  "map_of (pin_members (pin_set i candidates)) =
     (\<lambda>x. case find (\<lambda>c. cand_id c = x) (rev candidates) of
            None \<Rightarrow> None | Some c \<Rightarrow> Some (rank_budgetResetAt (cand_rank c)))"
proof -
  have f: "map_of (fold (\<lambda>c. AList.update (cand_id c) (rank_budgetResetAt (cand_rank c))) cs m) =
     (\<lambda>x. case find (\<lambda>c. cand_id c = x) (rev cs) of
            None \<Rightarrow> map_of m x | Some c \<Rightarrow> Some (rank_budgetResetAt (cand_rank c)))" for cs m
    by (induction cs rule: rev_induct) (auto simp: fun_eq_iff)
  show ?thesis by (auto simp: pin_set_def f [of candidates "[]"] fun_eq_iff split: option.split)
qed

lemma find_rev_unique:
  assumes "distinct (map key xs)" "x \<in> set xs"
  shows "find (\<lambda>y. key y = key x) (rev xs) = Some x"
proof (cases "find (\<lambda>y. key y = key x) (rev xs)")
  case None
  with assms(2) show ?thesis by (auto simp: find_None_iff)
next
  case (Some y)
  then have "y \<in> set (rev xs)" "key y = key x" unfolding find_Some_iff by (metis nth_mem)+
  then have "y \<in> set xs" "key y = key x" by simp_all
  with assms Some show ?thesis by (metis eq_key_imp_eq_value inj_on_contraD distinct_map)
qed

text \<open>
  The pin is sticky. After a pick that pinned a credential, a later pick over a pool in which no
  credential is new and no budget window rolled over returns the pinned credential whenever it is
  still in the pool and allowed, in whatever order and with whatever other ranks, and keeps the
  pin; so a credential that drops out of the pool, or one the request excludes, does not move it.
\<close>

theorem pin_sticky:
  assumes "pickQuotaPinned (Some p) candidates order = (picked, Some pin)"
    and "candidates \<noteq> []" and "validFor (Some p) candidates = None"
    and "bestQuotaCandidate candidates order False = Some k"
    and "distinct (map cand_id candidates)" and "cand_id (candidates ! k) \<noteq> ''''"
    and "\<forall>c \<in> set later. \<exists>d \<in> set candidates. cand_id d = cand_id c \<and>
           \<not> budgetRolledOver (rank_budgetResetAt (cand_rank d)) (rank_budgetResetAt (cand_rank c))"
    and "distinct (map cand_id later)" and "j < length later"
    and "cand_id (later ! j) = cand_id (candidates ! k)"
  shows "pickQuotaPinned (Some pin) later order' =
           (if cand_allowed (later ! j) then Some j else bestQuotaCandidate later order' True, Some pin)"
proof -
  have pin: "pin = pin_set (cand_id (candidates ! k)) candidates"
    using assms(1-4) by (auto simp: pickQuotaPinned_def Let_def split: if_splits)
  have "memberCurrent pin c" if "c \<in> set later" for c
  proof -
    from assms(7) that obtain d where d: "d \<in> set candidates" "cand_id d = cand_id c"
      "\<not> budgetRolledOver (rank_budgetResetAt (cand_rank d)) (rank_budgetResetAt (cand_rank c))" by blast
    with find_rev_unique [OF assms(5) d(1)] show ?thesis
      by (simp add: memberCurrent_def pin map_of_pin_members)
  qed
  moreover have "find (\<lambda>i. cand_id (later ! i) = pin_authID pin) (rev [0..<length later]) = Some j"
  proof (cases "find (\<lambda>i. cand_id (later ! i) = pin_authID pin) (rev [0..<length later])")
    case None
    then show ?thesis using assms(9,10) by (auto simp: find_None_iff pin pin_set_def)
  next
    case (Some i)
    then have "i < length later" "cand_id (later ! i) = cand_id (later ! j)"
      using find_rev_upt [OF Some] assms(10) by (simp_all add: pin pin_set_def)
    with assms(8,9) Some show ?thesis by (simp add: distinct_conv_nth) (metis nth_map)
  qed
  ultimately have "validFor (Some pin) later = Some j"
    using assms(6) by (auto simp: validFor_def list_ex_iff pin pin_set_def)
  then show ?thesis using assms(9) by (auto simp: pickQuotaPinned_def)
qed

theorem pin_sticky_witness:
  "\<exists>pin. pickQuotaPinned (Some empty_pin)
           [sample_candidate ''a'' zero_rank True, sample_candidate ''b'' zero_rank True] [1, 0] =
           (Some 1, Some pin) \<and>
         fst (pickQuotaPinned (Some pin)
           [sample_candidate ''a'' zero_rank True, sample_candidate ''b'' zero_rank True] [0, 1]) = Some 1"
proof -
  let ?c = "[sample_candidate ''a'' zero_rank True, sample_candidate ''b'' zero_rank True]"
  define pin where "pin = pin_set ''b'' ?c"
  have v: "validFor (Some empty_pin) ?c = None" by (simp add: validFor_def empty_pin_def)
  have b: "bestQuotaCandidate ?c [1, 0] False = Some 1"
    by (simp add: bestQuotaCandidate_def sample_candidate_def quotaRankLess_def zero_rank_def)
  have p: "pickQuotaPinned (Some empty_pin) ?c [1, 0] = (Some 1, Some pin)"
    using v b by (simp add: pickQuotaPinned_def pin_def sample_candidate_def)
  have "pickQuotaPinned (Some pin) ?c [0, 1] =
      (if cand_allowed (?c ! 1) then Some 1 else bestQuotaCandidate ?c [0, 1] True, Some pin)"
    by (rule pin_sticky [OF p _ v b])
      (auto simp: sample_candidate_def zero_rank_def budgetRolledOver_def time_sub_def clamp64_def)
  with p show ?thesis by (auto simp: sample_candidate_def)
qed

text \<open>
  A credential that clearly ranks first is chosen: when one candidate ranks before every other
  one and none ranks before it, quota drain without a valid pin takes it, wherever the rotation
  starts.
\<close>

theorem bestQuotaCandidate_winner:
  assumes "k \<in> set order" and "distinct order"
    and "\<forall>i \<in> set order. i \<noteq> k \<longrightarrow>
           quotaRankLess (cand_rank (candidates ! k)) (cand_rank (candidates ! i)) \<and>
           \<not> quotaRankLess (cand_rank (candidates ! i)) (cand_rank (candidates ! k))"
  shows "bestQuotaCandidate candidates order False = Some k"
proof -
  have keep: "bestQuotaFrom candidates False xs (Some k) = Some k" if "k \<notin> set xs" "set xs \<subseteq> set order" for xs
    using that assms(3) by (induction xs) (auto simp: Let_def)
  have "bestQuotaFrom candidates False xs best = Some k"
    if "k \<in> set xs" "set xs \<subseteq> set order" "distinct xs" "\<forall>b. best = Some b \<longrightarrow> b \<in> set order \<and> b \<noteq> k" for xs best
    using that
  proof (induction xs arbitrary: best)
    case (Cons i xs)
    show ?case
    proof (cases "i = k")
      case True
      with Cons.prems keep [of xs] assms(3) show ?thesis by (cases best) auto
    next
      case False
      with Cons show ?thesis by (simp add: Let_def)
    qed
  qed simp
  then show ?thesis using assms(1,2) by (simp add: bestQuotaCandidate_def)
qed

definition sample_rank :: "rat \<Rightarrow> time \<Rightarrow> bool \<Rightarrow> rat \<Rightarrow> capacityRank" where
  "sample_rank remaining reset urgencyKnown urgency =
     zero_rank\<lparr>rank_known := True, rank_windows := [\<lparr>wr_remaining = remaining, wr_resetAt = reset\<rparr>],
       rank_urgencyKnown := urgencyKnown, rank_urgency := urgency\<rparr>"

lemmas rank_eval = quotaRankLess_def urgencyDecides_def sample_rank_def zero_rank_def
  capacityWindowRanksEqual_def capacityWindowRankLess_def resetBefore_def

theorem bestQuotaCandidate_winner_witness:
  "bestQuotaCandidate [sample_candidate ''a'' (sample_rank 50 9 True 1) True,
     sample_candidate ''b'' (sample_rank 50 9 True 2) True] [0, 1] False = Some 1"
  using bestQuotaCandidate_winner [of 1 "[0, 1]" "[sample_candidate ''a'' (sample_rank 50 9 True 1) True,
     sample_candidate ''b'' (sample_rank 50 9 True 2) True]"]
  by (simp add: sample_candidate_def rank_eval)

text \<open>
  The ranking of quota drain is not an order: with a credential that has no budget window
  between two that have one, three ranks can each be placed before the next one in a circle, so
  the choice among them depends on where the rotation starts.
\<close>

theorem quotaRankLess_not_transitive:
  "\<exists>a b c. quotaRankLess a b \<and> quotaRankLess b c \<and> quotaRankLess c a \<and>
     bestQuotaCandidate [sample_candidate ''a'' a True, sample_candidate ''b'' b True, sample_candidate ''c'' c True]
       [0, 1, 2] False \<noteq>
     bestQuotaCandidate [sample_candidate ''a'' a True, sample_candidate ''b'' b True, sample_candidate ''c'' c True]
       [1, 2, 0] False"
  by (rule exI [of _ "sample_rank 10 9 True 1"], rule exI [of _ "sample_rank 20 9 False 0"],
      rule exI [of _ "sample_rank 30 9 True 2"])
    (simp add: rank_eval bestQuotaCandidate_def sample_candidate_def)

end
