(* ===== verification/Selectors.thy ===== *)
theory Selectors
  imports Rotation Capacity
begin

text \<open>
  The selectors of \<open>sdk/cliproxy/auth/selector.go\<close>: from the candidates of a request they keep the
  available ones of the highest priority and choose one by rotation, by weight, first-fit or by
  the quota left. A selector's maps are part of its state, which every \<open>Pick\<close> returns; what the
  code reads from the context is a record, and the clock is an argument.
\<close>

record SelectorContext =
  ctx_prevalidated :: bool
  ctx_downstreamWebsocket :: bool
  ctx_stateModel :: string

section \<open>Available candidates\<close>

definition preferCodexWebsocketAuths :: "SelectorContext \<Rightarrow> string \<Rightarrow> Auth list \<Rightarrow> Auth list" where
  "preferCodexWebsocketAuths ctx provider available =
     (if available = [] then available
      else if \<not> ctx_downstreamWebsocket ctx then available
      else if \<not> equal_fold (trim_space provider) ''codex'' then available
      else let wsEnabled = filter authWebsocketsEnabled available
           in if wsEnabled \<noteq> [] then wsEnabled else available)"

definition collectStep ::
    "string \<Rightarrow> time \<Rightarrow> Auth \<Rightarrow> (int \<times> Auth list) list \<times> nat \<times> time \<Rightarrow> (int \<times> Auth list) list \<times> nat \<times> time" where
  "collectStep model now candidate = (\<lambda>(available, cooldownCount, earliest).
     (let (blocked, reason, next) = isAuthBlockedForModel candidate model now
      in if \<not> blocked
         then (AList.update (authPriority candidate)
                 (get_or [] available (authPriority candidate) @ [candidate]) available,
               cooldownCount, earliest)
         else (available,
               if reason = blockReasonCooldown then cooldownCount + 1 else cooldownCount,
               if reason \<noteq> blockReasonDisabled \<and> next > now \<and> (earliest = 0 \<or> next < earliest)
               then next else earliest)))"

definition collectAvailableByPriority ::
    "Auth list \<Rightarrow> string \<Rightarrow> time \<Rightarrow> (int \<times> Auth list) list \<times> nat \<times> time" where
  "collectAvailableByPriority auths model now = fold (collectStep model now) auths ([], 0, 0)"

definition betterPriority :: "int \<times> Auth list \<Rightarrow> int \<times> bool \<Rightarrow> int \<times> bool" where
  "betterPriority = (\<lambda>(priority, _) (bestPriority, found).
     if \<not> found \<or> priority > bestPriority then (priority, True) else (bestPriority, found))"

definition availableAuthsFromPriorityBuckets :: "(int \<times> Auth list) list \<Rightarrow> bool \<Rightarrow> Auth list" where
  "availableAuthsFromPriorityBuckets availableByPriority allPriorities =
     (let candidates =
        (if allPriorities then concat (map snd availableByPriority)
         else let (bestPriority, found) =
                    fold betterPriority availableByPriority (0, False)
              in get_or [] availableByPriority bestPriority)
      in sort_key auth_ID candidates)"

definition providerForError :: "string \<Rightarrow> string" where
  "providerForError provider = (if provider = ''mixed'' then '''' else provider)"

definition getAvailableAuthsWithPriorityMode ::
    "Auth list \<Rightarrow> string \<Rightarrow> string \<Rightarrow> time \<Rightarrow> bool \<Rightarrow> GoError + Auth list" where
  "getAvailableAuthsWithPriorityMode auths provider model now allPriorities =
     (if auths = [] then Inl (PlainError (plain_error ''auth_not_found'' ''no auth candidates''))
      else let (availableByPriority, cooldownCount, earliest) = collectAvailableByPriority auths model now
           in if availableByPriority = []
              then (if cooldownCount = length auths \<and> earliest \<noteq> 0
                    then Inl (newModelCooldownErrorWithCause model (providerForError provider)
                                (let resetIn = time_sub earliest now in if resetIn < 0 then 0 else resetIn) None)
                    else Inl (newAuthUnavailableErrorWithCause earliest now None))
              else Inr (availableAuthsFromPriorityBuckets availableByPriority allPriorities))"

definition highestPriorityAuths :: "Auth list \<Rightarrow> Auth list" where
  "highestPriorityAuths auths =
     (if length auths \<le> 1 then auths
      else let (bestPriority, bestCount) =
                 fold (\<lambda>a (best, n).
                     let priority = authPriority a
                     in if n = 0 \<or> priority > best then (priority, 1)
                        else if priority = best then (best, n + 1)
                        else (best, n))
                   auths (0, 0 :: nat)
           in if bestCount = length auths then auths
              else filter (\<lambda>a. authPriority a = bestPriority) auths)"

definition getSelectorAvailableAuthsWithPriorityMode ::
    "SelectorContext \<Rightarrow> Auth list \<Rightarrow> string \<Rightarrow> string \<Rightarrow> time \<Rightarrow> bool \<Rightarrow> GoError + Auth list" where
  "getSelectorAvailableAuthsWithPriorityMode ctx auths provider model now allPriorities =
     (if ctx_prevalidated ctx \<and> auths \<noteq> []
      then Inr (if \<not> allPriorities then highestPriorityAuths auths else auths)
      else getAvailableAuthsWithPriorityMode auths provider model now allPriorities)"

abbreviation getSelectorAvailableAuths ::
    "SelectorContext \<Rightarrow> Auth list \<Rightarrow> string \<Rightarrow> string \<Rightarrow> time \<Rightarrow> GoError + Auth list" where
  "getSelectorAvailableAuths ctx auths provider model now \<equiv>
     getSelectorAvailableAuthsWithPriorityMode ctx auths provider model now False"

section \<open>Round robin\<close>

definition successorIndex :: "Auth list \<Rightarrow> string \<Rightarrow> nat" where
  "successorIndex available lastID =
     (if lastID = '''' then 0
      else let index = sort_search (length available) (\<lambda>i. auth_ID (available ! i) > lastID)
           in if index \<ge> length available then 0 else index)"

record RoundRobinSelector =
  rr_lastPicked :: "(string \<times> string) list"
  rr_maxKeys :: int

definition keyLimit :: "int \<Rightarrow> nat" where
  "keyLimit maxKeys = (if maxKeys \<le> 0 then 4096 else nat maxKeys)"

text \<open>The maps of the selectors are emptied when a new key would exceed the limit.\<close>

definition ensureKey :: "(string \<times> 'v) list \<Rightarrow> string \<Rightarrow> nat \<Rightarrow> (string \<times> 'v) list" where
  "ensureKey m key limit = (if map_of m key = None \<and> length m \<ge> limit then [] else m)"

definition ensureRotationKey :: "RoundRobinSelector \<Rightarrow> string \<Rightarrow> nat \<Rightarrow> RoundRobinSelector" where
  "ensureRotationKey s key limit = s\<lparr>rr_lastPicked := ensureKey (rr_lastPicked s) key limit\<rparr>"

definition RoundRobin_Pick ::
    "RoundRobinSelector \<Rightarrow> SelectorContext \<Rightarrow> string \<Rightarrow> string \<Rightarrow> Auth list \<Rightarrow> time \<Rightarrow>
     (GoError + Auth) \<times> RoundRobinSelector" where
  "RoundRobin_Pick s ctx provider model auths now =
     (case getSelectorAvailableAuths ctx auths provider model now of
        Inl err \<Rightarrow> (Inl err, s)
      | Inr available \<Rightarrow>
          (let available = preferCodexWebsocketAuths ctx provider available;
               key = provider @ '':'' @ canonicalModelKey model;
               s = ensureRotationKey s key (keyLimit (rr_maxKeys s));
               picked = available ! successorIndex available (get_or '''' (rr_lastPicked s) key)
           in (Inr picked, s\<lparr>rr_lastPicked := AList.update key (auth_ID picked) (rr_lastPicked s)\<rparr>)))"

section \<open>Weighted round robin\<close>

record smoothWeightedState =
  sw_current :: "(string \<times> int) list"
  sw_weights :: "(string \<times> int) list"

definition empty_weighted :: smoothWeightedState where
  "empty_weighted = \<lparr>sw_current = [], sw_weights = []\<rparr>"

definition weightsConfigChanged :: "(string \<times> int) list \<Rightarrow> (string \<times> int) list \<Rightarrow> bool" where
  "weightsConfigChanged left right \<longleftrightarrow>
     (if left = [] then False
      else list_ex (\<lambda>(authID, weight).
             case map_of left authID of Some previous \<Rightarrow> previous \<noteq> weight | None \<Rightarrow> False) right)"

abbreviation maxSmoothWeightedStateEntries :: nat where "maxSmoothWeightedStateEntries \<equiv> 1024"

definition pruneStale :: "(string \<times> int) list \<Rightarrow> smoothWeightedState \<Rightarrow> smoothWeightedState" where
  "pruneStale weights s =
     (if length (sw_current s) \<le> maxSmoothWeightedStateEntries \<and>
         length (sw_weights s) \<le> maxSmoothWeightedStateEntries
      then s
      else s\<lparr>sw_current := filter (\<lambda>(authID, _). map_of weights authID \<noteq> None) (sw_current s),
             sw_weights := filter (\<lambda>(authID, _). map_of weights authID \<noteq> None) (sw_weights s)\<rparr>)"

definition prepare :: "(string \<times> int) list \<Rightarrow> smoothWeightedState \<Rightarrow> smoothWeightedState" where
  "prepare weights s =
     (let s = (if weightsConfigChanged (sw_weights s) weights then s\<lparr>sw_current := []\<rparr> else s);
          s = s\<lparr>sw_weights := fold (\<lambda>(authID, weight). AList.update authID weight) weights (sw_weights s)\<rparr>
      in pruneStale weights s)"

definition positiveWeightAuths :: "Auth list \<Rightarrow> Auth list" where
  "positiveWeightAuths auths = filter (\<lambda>a. authWeight a > 0) auths"

definition authWeightVector :: "Auth list \<Rightarrow> (string \<times> int) list" where
  "authWeightVector auths =
     fold (\<lambda>a weights. if authWeight a > 0 then AList.update (auth_ID a) (authWeight a) weights else weights)
       auths []"

definition smoothAuthStep ::
    "Auth \<Rightarrow> Auth option \<times> int \<times> int \<times> (string \<times> int) list \<Rightarrow> Auth option \<times> int \<times> int \<times> (string \<times> int) list" where
  "smoothAuthStep a = (\<lambda>(picked, pickedCurrent, totalWeight, current).
     (let weight = authWeight a
      in if weight \<le> 0 then (picked, pickedCurrent, totalWeight, current)
         else let current = AList.update (auth_ID a)
                              (saturatingAddInt64 (get_or 0 current (auth_ID a)) weight) current;
                  totalWeight = saturatingAddInt64 totalWeight weight
              in if picked = None \<or> get_or 0 current (auth_ID a) > pickedCurrent
                 then (Some a, get_or 0 current (auth_ID a), totalWeight, current)
                 else (picked, pickedCurrent, totalWeight, current)))"

definition pickSmoothWeightedAuth :: "Auth list \<Rightarrow> (string \<times> int) list \<Rightarrow> Auth option \<times> (string \<times> int) list" where
  "pickSmoothWeightedAuth auths current =
     (case fold smoothAuthStep auths (None, 0, 0, current) of
        (None, _, _, current) \<Rightarrow> (None, current)
      | (Some picked, _, totalWeight, current) \<Rightarrow>
          (Some picked, AList.update (auth_ID picked)
             (saturatingAddInt64 (get_or 0 current (auth_ID picked)) (- totalWeight)) current))"

record WeightedRoundRobinSelector =
  wrr_states :: "(string \<times> smoothWeightedState) list"
  wrr_maxKeys :: int

definition weightedSelectorStateModel :: "SelectorContext \<Rightarrow> string \<Rightarrow> string" where
  "weightedSelectorStateModel ctx availabilityModel =
     (if trim_space (ctx_stateModel ctx) \<noteq> '''' then ctx_stateModel ctx else availabilityModel)"

definition WeightedRoundRobin_Pick ::
    "WeightedRoundRobinSelector \<Rightarrow> SelectorContext \<Rightarrow> string \<Rightarrow> string \<Rightarrow> Auth list \<Rightarrow> time \<Rightarrow>
     (GoError + Auth) \<times> WeightedRoundRobinSelector" where
  "WeightedRoundRobin_Pick s ctx provider model auths now =
     (case getSelectorAvailableAuths ctx (positiveWeightAuths auths) provider model now of
        Inl err \<Rightarrow> (Inl err, s)
      | Inr available \<Rightarrow>
          (let available = preferCodexWebsocketAuths ctx provider available;
               key = provider @ '':'' @ canonicalModelKey (weightedSelectorStateModel ctx model);
               states = ensureKey (wrr_states s) key (keyLimit (wrr_maxKeys s));
               state = prepare (authWeightVector available) (get_or empty_weighted states key);
               (picked, current) = pickSmoothWeightedAuth available (sw_current state);
               s = s\<lparr>wrr_states := AList.update key (state\<lparr>sw_current := current\<rparr>) states\<rparr>
           in case picked of
                None \<Rightarrow> (Inl (PlainError (plain_error ''auth_unavailable''
                                            ''no auth available with positive weight'')), s)
              | Some p \<Rightarrow> (Inr p, s)))"

section \<open>Fill first\<close>

definition FillFirst_Pick ::
    "SelectorContext \<Rightarrow> string \<Rightarrow> string \<Rightarrow> Auth list \<Rightarrow> time \<Rightarrow> GoError + Auth" where
  "FillFirst_Pick ctx provider model auths now =
     (case getSelectorAvailableAuths ctx auths provider model now of
        Inl err \<Rightarrow> Inl err
      | Inr available \<Rightarrow> Inr (preferCodexWebsocketAuths ctx provider available ! 0))"

section \<open>Quota drain\<close>

record QuotaDrainSelector =
  qd_cursors :: "(string \<times> nat) list"
  qd_pins :: "(string \<times> quotaDrainPin) list"
  qd_maxKeys :: int

definition nextCursorIndex :: "QuotaDrainSelector \<Rightarrow> string \<Rightarrow> nat \<Rightarrow> nat \<times> QuotaDrainSelector" where
  "nextCursorIndex s key n =
     (if n = 0 then (0, s)
      else let cursors = ensureKey (qd_cursors s) key (keyLimit (qd_maxKeys s));
               index = get_or 0 cursors key mod n
           in (index, s\<lparr>qd_cursors := AList.update key (index + 1) cursors\<rparr>))"

definition pinLocked :: "QuotaDrainSelector \<Rightarrow> string \<Rightarrow> quotaDrainPin \<times> QuotaDrainSelector" where
  "pinLocked s key =
     (case map_of (qd_pins s) key of
        Some pin \<Rightarrow> (pin, s)
      | None \<Rightarrow>
          (let pins = (if length (qd_pins s) \<ge> keyLimit (qd_maxKeys s) then [] else qd_pins s)
           in (empty_pin, s\<lparr>qd_pins := AList.update key empty_pin pins\<rparr>)))"

definition pickWithinProvider ::
    "QuotaDrainSelector \<Rightarrow> string \<Rightarrow> string \<Rightarrow> Auth list \<Rightarrow> time \<Rightarrow> Auth option \<times> QuotaDrainSelector" where
  "pickWithinProvider s provider model auths now =
     (let kept = filter (\<lambda>a. \<not> quotaCapacityExhausted a model now) auths;
          candidates = map (\<lambda>a. \<lparr>cand_id = auth_ID a, cand_rank = quotaCapacityRank a model now,
                                 cand_allowed = True\<rparr>) kept
      in if candidates = [] then (None, s)
         else let byID = sort_key (\<lambda>i. cand_id (candidates ! i)) [0..<length candidates];
                  key = to_lower (trim_space provider) @ '':'' @ canonicalModelKey model;
                  (offset, s) = nextCursorIndex s key (length byID);
                  order = drop offset byID @ take offset byID;
                  (pin, s) = pinLocked s key;
                  (picked, pin') = pickQuotaPinned (Some pin) candidates order;
                  s = (case pin' of None \<Rightarrow> s | Some p \<Rightarrow> s\<lparr>qd_pins := AList.update key p (qd_pins s)\<rparr>)
              in (case picked of None \<Rightarrow> None | Some i \<Rightarrow> Some (kept ! i), s))"

fun pickRotated ::
    "(string \<Rightarrow> Auth list) \<Rightarrow> SelectorContext \<Rightarrow> string \<Rightarrow> time \<Rightarrow> string list \<Rightarrow> QuotaDrainSelector \<Rightarrow>
     Auth option \<times> QuotaDrainSelector" where
  "pickRotated groups ctx model now [] s = (None, s)"
| "pickRotated groups ctx model now (providerKey # providers) s =
     (case pickWithinProvider s providerKey model
             (preferCodexWebsocketAuths ctx providerKey (groups providerKey)) now of
        (Some selected, s) \<Rightarrow> (Some selected, s)
      | (None, s) \<Rightarrow> pickRotated groups ctx model now providers s)"

definition pickMixedProvider ::
    "QuotaDrainSelector \<Rightarrow> SelectorContext \<Rightarrow> string \<Rightarrow> Auth list \<Rightarrow> time \<Rightarrow> Auth option \<times> QuotaDrainSelector" where
  "pickMixedProvider s ctx model auths now =
     (let providers = sort (remdups (filter (\<lambda>p. p \<noteq> '''') (map executorKeyFromAuth auths)));
          groups = (\<lambda>p. filter (\<lambda>a. executorKeyFromAuth a = p) auths)
      in if providers = [] then (None, s)
         else let (start, s) = nextCursorIndex s (''mixed:'' @ canonicalModelKey model) (length providers)
              in pickRotated groups ctx model now (drop start providers @ take start providers) s)"

fun pickPriorities ::
    "SelectorContext \<Rightarrow> string \<Rightarrow> string \<Rightarrow> time \<Rightarrow> (int \<times> Auth list) list \<Rightarrow> int list \<Rightarrow> QuotaDrainSelector \<Rightarrow>
     Auth option \<times> QuotaDrainSelector" where
  "pickPriorities ctx provider model now available [] s = (None, s)"
| "pickPriorities ctx provider model now available (priority # priorities) s =
     (let auths = get_or [] available priority;
          (selected, s) =
            (if equal_fold (trim_space provider) ''mixed''
             then pickMixedProvider s ctx model auths now
             else pickWithinProvider s provider model (preferCodexWebsocketAuths ctx provider auths) now)
      in case selected of
           Some a \<Rightarrow> (Some a, s)
         | None \<Rightarrow> pickPriorities ctx provider model now available priorities s)"

definition earliestCapacityReset :: "Auth list \<Rightarrow> string \<Rightarrow> time \<Rightarrow> time" where
  "earliestCapacityReset auths model now =
     fold (\<lambda>a earliest.
         let rank = quotaCapacityRank a model now
         in if \<not> rank_known rank \<or> \<not> rank_exhausted rank \<or> rank_resetAt rank = 0 then earliest
            else if earliest = 0 \<or> rank_resetAt rank < earliest then rank_resetAt rank else earliest)
       auths 0"

definition QuotaDrain_Pick ::
    "QuotaDrainSelector \<Rightarrow> SelectorContext \<Rightarrow> string \<Rightarrow> string \<Rightarrow> Auth list \<Rightarrow> time \<Rightarrow>
     (GoError + Auth) \<times> QuotaDrainSelector" where
  "QuotaDrain_Pick s ctx provider model auths now =
     (let (availableByPriority, cooldownCount, earliestCooldown) = collectAvailableByPriority auths model now
      in if availableByPriority = []
         then (if cooldownCount = length auths \<and> earliestCooldown \<noteq> 0
               then (Inl (newModelCooldownErrorWithCause model (providerForError provider)
                            (time_sub earliestCooldown now) None), s)
               else (Inl (PlainError (plain_error ''auth_unavailable'' ''no auth available'')), s))
         else case pickPriorities ctx provider model now availableByPriority
                     (quotaDrainPriorities availableByPriority) s of
                (Some a, s) \<Rightarrow> (Inr a, s)
              | (None, s) \<Rightarrow>
                  (let earliest = earliestCapacityReset auths model now
                   in if earliest \<noteq> 0
                      then (Inl (newModelCooldownErrorWithCause model (providerForError provider)
                                   (time_sub earliest now) None), s)
                      else (Inl (PlainError (plain_error ''auth_unavailable'' ''no auth available'')), s)))"

section \<open>Which candidates are available\<close>

abbreviation usable :: "string \<Rightarrow> time \<Rightarrow> Auth \<Rightarrow> bool" where
  "usable model now a \<equiv> \<not> fst (isAuthBlockedForModel a model now)"

definition tier :: "string \<Rightarrow> time \<Rightarrow> int \<Rightarrow> Auth list \<Rightarrow> Auth list" where
  "tier model now p auths = filter (\<lambda>a. usable model now a \<and> authPriority a = p) auths"

definition topPriority :: "string \<Rightarrow> time \<Rightarrow> Auth list \<Rightarrow> int" where
  "topPriority model now auths = Max (authPriority ` {a \<in> set auths. usable model now a})"

definition waiting :: "string \<Rightarrow> time \<Rightarrow> Auth list \<Rightarrow> time set" where
  "waiting model now auths = {next. \<exists>a \<in> set auths. \<exists>reason.
     isAuthBlockedForModel a model now = (True, reason, next) \<and> reason \<noteq> blockReasonDisabled \<and> now < next}"

lemma tier_snoc:
  "tier model now p (auths @ [a]) =
     tier model now p auths @ (if usable model now a \<and> authPriority a = p then [a] else [])"
  by (simp add: tier_def)

lemma waiting_snoc:
  "waiting model now (auths @ [a]) = waiting model now auths \<union> waiting model now [a]"
  by (auto simp: waiting_def)

lemma finite_waiting: "finite (waiting model now auths)"
proof -
  have "waiting model now auths \<subseteq> (\<lambda>a. snd (snd (isAuthBlockedForModel a model now))) ` set auths"
    by (force simp: waiting_def)
  then show ?thesis by (rule finite_subset) simp
qed

lemma collect_spec:
  assumes "0 \<le> now"
  shows "\<exists>m n e. collectAvailableByPriority auths model now = (m, n, e) \<and> wf_map m \<and>
     (\<forall>p. map_of m p = (if tier model now p auths = [] then None else Some (tier model now p auths))) \<and>
     n = length (filter (\<lambda>a. fst (snd (isAuthBlockedForModel a model now)) = blockReasonCooldown \<and>
                             \<not> usable model now a) auths) \<and>
     e = (if waiting model now auths = {} then 0 else Min (waiting model now auths))"
proof (induction auths rule: rev_induct)
  case Nil
  show ?case by (simp add: collectAvailableByPriority_def tier_def waiting_def)
next
  case (snoc a auths)
  then obtain m n e where IH: "collectAvailableByPriority auths model now = (m, n, e)" "wf_map m"
    "\<And>p. map_of m p = (if tier model now p auths = [] then None else Some (tier model now p auths))"
    "n = length (filter (\<lambda>a. fst (snd (isAuthBlockedForModel a model now)) = blockReasonCooldown \<and>
                             \<not> usable model now a) auths)"
    "e = (if waiting model now auths = {} then 0 else Min (waiting model now auths))" by auto
  obtain b r t where blk: "isAuthBlockedForModel a model now = (b, r, t)" by (rule prod_cases3)
  have step: "collectAvailableByPriority (auths @ [a]) model now = collectStep model now a (m, n, e)"
    using IH(1) by (simp add: collectAvailableByPriority_def)
  have bucket: "get_or [] m (authPriority a) = tier model now (authPriority a) auths"
    by (simp add: get_or_def IH(3))
  have wa: "waiting model now [a] = (if b \<and> r \<noteq> blockReasonDisabled \<and> now < t then {t} else {})"
    by (auto simp: waiting_def blk)
  have pos: "x \<noteq> 0" if "x \<in> waiting model now auths" for x using that assms by (auto simp: waiting_def)
  have e0: "e = 0 \<longleftrightarrow> waiting model now auths = {}"
    using IH(5) pos Min_in [OF finite_waiting, of model now auths] by auto
  have earliest: "(if waiting model now (auths @ [a]) = {} then 0 else Min (waiting model now (auths @ [a]))) =
      (if b \<and> r \<noteq> blockReasonDisabled \<and> t > now \<and> (e = 0 \<or> t < e) then t else e)"
  proof (cases "b \<and> r \<noteq> blockReasonDisabled \<and> now < t")
    case True
    then have "waiting model now (auths @ [a]) = insert t (waiting model now auths)"
      by (simp add: waiting_snoc wa)
    moreover have "Min (insert t (waiting model now auths)) = min t e" if "waiting model now auths \<noteq> {}"
      using that IH(5) finite_waiting [of model now auths] by simp
    ultimately show ?thesis
      using True e0 by (cases "waiting model now auths = {}") (simp_all add: min_def)
  next
    case False
    then have "waiting model now (auths @ [a]) = waiting model now auths" by (auto simp: waiting_snoc wa)
    then show ?thesis using False IH(5) by auto
  qed
  show ?case
  proof (cases b)
    case False
    with step blk bucket have "collectAvailableByPriority (auths @ [a]) model now =
        (AList.update (authPriority a) (tier model now (authPriority a) auths @ [a]) m, n, e)"
      by (simp add: collectStep_def)
    with False blk IH earliest show ?thesis by (auto simp: tier_snoc)
  next
    case True
    with step blk have "collectAvailableByPriority (auths @ [a]) model now =
        (m, if r = blockReasonCooldown then n + 1 else n,
         if r \<noteq> blockReasonDisabled \<and> t > now \<and> (e = 0 \<or> t < e) then t else e)"
      by (simp add: collectStep_def)
    with True blk IH earliest show ?thesis by (auto simp: tier_snoc)
  qed
qed

lemma length_filter_all: "length (filter P xs) = length xs \<longleftrightarrow> (\<forall>x \<in> set xs. P x)"
  using length_filter_less [of _ xs P] filter_True [of xs P] by fastforce

lemma best_priority_fold_from:
  "fold betterPriority m (x, True) = (Max (insert x (fst ` set m)), True)"
proof (induction m arbitrary: x)
  case (Cons pa m)
  obtain p l where pa: "pa = (p, l)" by (cases pa)
  have "Max (insert x (insert p (fst ` set m))) = Max (insert (max x p) (fst ` set m))"
    by (cases "m = []") (auto simp: max.assoc)
  with Cons.IH [of "max x p"] show ?case by (auto simp: pa max_def betterPriority_def)
qed simp

lemma best_priority_fold:
  assumes "m \<noteq> []"
  shows "fold betterPriority m (0, False) = (Max (fst ` set m), True)"
proof -
  obtain p l rest where m: "m = (p, l) # rest" using assms by (metis neq_Nil_conv surj_pair)
  have "betterPriority (p, l) (0, False) = (p, True)" by (simp add: betterPriority_def)
  with best_priority_fold_from [of rest p] show ?thesis by (simp add: m)
qed

lemma available_exact:
  assumes "0 \<le> now" and "auths \<noteq> []"
  shows "getAvailableAuthsWithPriorityMode auths provider model now False =
    (if \<exists>a \<in> set auths. usable model now a
     then Inr (sort_key auth_ID (tier model now (topPriority model now auths) auths))
     else if (\<forall>a \<in> set auths. fst (snd (isAuthBlockedForModel a model now)) = blockReasonCooldown) \<and>
             waiting model now auths \<noteq> {}
     then Inl (ModelCooldownError model (providerForError provider)
                 (time_sub (Min (waiting model now auths)) now) None)
     else Inl (newAuthUnavailableErrorWithCause
                 (if waiting model now auths = {} then 0 else Min (waiting model now auths)) now None))"
proof -
  obtain m n e where c: "collectAvailableByPriority auths model now = (m, n, e)" "wf_map m"
    "\<And>p. map_of m p = (if tier model now p auths = [] then None else Some (tier model now p auths))"
    "n = length (filter (\<lambda>a. fst (snd (isAuthBlockedForModel a model now)) = blockReasonCooldown \<and>
                             \<not> usable model now a) auths)"
    "e = (if waiting model now auths = {} then 0 else Min (waiting model now auths))"
    using collect_spec [OF assms(1), of auths model] by auto
  have keys: "fst ` set m = authPriority ` {a \<in> set auths. usable model now a}"
  proof -
    have "fst ` set m = dom (map_of m)" by (simp add: dom_map_of_conv_image_fst)
    also have "\<dots> = authPriority ` {a \<in> set auths. usable model now a}"
      by (auto simp: dom_def c(3) tier_def filter_empty_conv split: if_splits)
    finally show ?thesis .
  qed
  have min: "Min (waiting model now auths) \<in> waiting model now auths" if "waiting model now auths \<noteq> {}"
    using finite_waiting that by (rule Min_in)
  show ?thesis
  proof (cases "\<exists>a \<in> set auths. usable model now a")
    case True
    with keys have "m \<noteq> []" by auto
    moreover have "get_or [] m p = tier model now p auths" for p by (simp add: get_or_def c(3))
    ultimately show ?thesis
      using True assms(2) c(1) best_priority_fold [of m] keys
      by (simp add: getAvailableAuthsWithPriorityMode_def availableAuthsFromPriorityBuckets_def topPriority_def)
  next
    case False
    then have "{a \<in> set auths. usable model now a} = {}" by auto
    with keys have "m = []" by simp
    moreover have "n = length auths \<longleftrightarrow> (\<forall>a \<in> set auths. fst (snd (isAuthBlockedForModel a model now)) = blockReasonCooldown)"
      using False unfolding c(4) length_filter_all by auto
    moreover have "e \<noteq> 0 \<longleftrightarrow> waiting model now auths \<noteq> {}"
      using c(5) min assms(1) by (auto simp: waiting_def split: if_splits)
    moreover have "0 \<le> time_sub (Min (waiting model now auths)) now" if "waiting model now auths \<noteq> {}"
      using min [OF that] by (auto simp: waiting_def intro: less_imp_le)
    ultimately show ?thesis
      using False assms(2) c(1,5)
      by (cases "waiting model now auths = {}")
        (simp_all add: getAvailableAuthsWithPriorityMode_def newModelCooldownErrorWithCause_def Let_def)
  qed
qed

text \<open>
  (C1) The candidates a selector chooses from are exactly the available ones of the highest priority
  that has any, in the order of their identifiers. If there is none, the request fails: with a
  cooldown error carrying the earliest recovery when every candidate is cooling down, and
  otherwise with the error that no credential is available.
\<close>

theorem getAvailableAuths_exact:
  assumes "0 \<le> now" and "auths \<noteq> []"
  shows "getAvailableAuthsWithPriorityMode auths provider model now False =
    (if \<exists>a \<in> set auths. usable model now a
     then Inr (sort_key auth_ID (tier model now (topPriority model now auths) auths))
     else if (\<forall>a \<in> set auths. fst (snd (isAuthBlockedForModel a model now)) = blockReasonCooldown) \<and>
             waiting model now auths \<noteq> {}
     then Inl (ModelCooldownError model (providerForError provider)
                 (time_sub (Min (waiting model now auths)) now) None)
     else Inl (newAuthUnavailableErrorWithCause
                 (if waiting model now auths = {} then 0 else Min (waiting model now auths)) now None))"
  using assms by (rule available_exact)

definition prioritized :: "string \<Rightarrow> string \<Rightarrow> Auth" where
  "prioritized i p = (sample_auth i)\<lparr>auth_Attributes := [(''priority'', p)]\<rparr>"

lemma sample_usable [simp]:
  "isAuthBlockedForModel (sample_auth i) m t = (False, blockReasonNone, 0)"
  "isAuthBlockedForModel (prioritized i p) m t = (False, blockReasonNone, 0)"
  by (simp_all add: prioritized_def sample_auth_def isAuthBlockedForModel_def hasUnauthorizedAuthFailure_def
      tokenExpired_def credentialQuotaActive_def modelBlock_def availabilityBlock_def)

lemma sample_priority [simp]:
  "authPriority (sample_auth i) = 0" "authPriority (prioritized i ''5'') = 5"
proof -
  show "authPriority (sample_auth i) = 0"
    by (simp add: authPriority_def sample_auth_def get_or_def trim_space_def)
  have "authPriority (prioritized i ''5'') =
      (let raw = trim_space ''5'' in if raw = '''' then 0 else case parse_int raw of None \<Rightarrow> 0 | Some p \<Rightarrow> p)"
    by (simp add: authPriority_def prioritized_def get_or_def)
  also have "\<dots> = 5" by code_simp
  finally show "authPriority (prioritized i ''5'') = 5" .
qed

theorem getAvailableAuths_exact_witness:
  "getAvailableAuthsWithPriorityMode [sample_auth ''a'', prioritized ''c'' ''5'', prioritized ''b'' ''5'']
     ''gemini'' ''m'' 10 False = Inr [prioritized ''b'' ''5'', prioritized ''c'' ''5'']"
proof -
  let ?as = "[sample_auth ''a'', prioritized ''c'' ''5'', prioritized ''b'' ''5'']"
  have "{a. (a = sample_auth ''a'' \<or> a = prioritized ''c'' ''5'' \<or> a = prioritized ''b'' ''5'') \<and> usable ''m'' 10 a} = set ?as"
    by auto
  then have "topPriority ''m'' 10 ?as = 5" by (simp add: topPriority_def)
  moreover have "auth_ID (prioritized i ''5'') = i" for i by (simp add: prioritized_def sample_auth_def)
  moreover have "(''c'' :: string) \<le> ''b'' \<longleftrightarrow> False" "(''b'' :: string) \<le> ''c''" by code_simp+
  ultimately show ?thesis
    using getAvailableAuths_exact [of 10 ?as "''gemini''" "''m''"] by (simp add: tier_def insort_key.simps)
qed

section \<open>Rotation does not starve anyone\<close>

interpretation auth_ring: rotation auth_ID successorIndex
proof
  fix xs and l :: string
  show "successorIndex xs '''' = 0" by (simp add: successorIndex_def)
  assume l: "l \<noteq> ''''" and sorted: "sorted_wrt (<) (map auth_ID xs)"
  note search = successor_search [OF sorted, of l]
  show "successorIndex xs l < length xs \<and> l < auth_ID (xs ! successorIndex xs l) \<and>
      (\<forall>i < successorIndex xs l. auth_ID (xs ! i) \<le> l)" if "\<exists>x \<in> set xs. l < auth_ID x"
    using search(1) [OF that] l by (simp add: successorIndex_def Let_def)
  show "successorIndex xs l = 0" if "\<forall>x \<in> set xs. auth_ID x \<le> l"
    using search(2) [OF that] l by (simp add: successorIndex_def Let_def)
qed

definition selectorPool :: "SelectorContext \<Rightarrow> string \<Rightarrow> string \<Rightarrow> Auth list \<Rightarrow> time \<Rightarrow> Auth list" where
  "selectorPool ctx provider model auths now =
     (case getSelectorAvailableAuths ctx auths provider model now of
        Inl _ \<Rightarrow> [] | Inr available \<Rightarrow> preferCodexWebsocketAuths ctx provider available)"

text \<open>What the manager guarantees of the candidates it passes.\<close>

definition request_ok :: "SelectorContext \<Rightarrow> Auth list \<Rightarrow> time \<Rightarrow> bool" where
  "request_ok ctx auths now \<longleftrightarrow> 0 \<le> now \<and> distinct (map auth_ID auths) \<and> '''' \<notin> auth_ID ` set auths \<and>
     (ctx_prevalidated ctx \<longrightarrow> sorted_wrt (<) (map auth_ID auths))"

lemma sort_key_strict:
  assumes "distinct (map f xs)"
  shows "sorted_wrt (<) (map f (sort_key f xs :: 'a list) :: 'b :: linorder list)"
proof -
  have "distinct (map f (sort_key f xs))" using assms by (simp add: distinct_map)
  then show ?thesis by (simp add: strict_sorted_iff)
qed

lemma strict_filter: "sorted_wrt (<) (map f xs) \<Longrightarrow> sorted_wrt (<) (map f (filter P xs))"
  by (simp add: sorted_wrt_map sorted_wrt_filter)

lemma prefer_filter: "\<exists>P. preferCodexWebsocketAuths ctx provider xs = filter P xs \<and>
    (xs \<noteq> [] \<longrightarrow> preferCodexWebsocketAuths ctx provider xs \<noteq> [])"
proof -
  have "preferCodexWebsocketAuths ctx provider xs = xs \<or>
      preferCodexWebsocketAuths ctx provider xs = filter authWebsocketsEnabled xs \<and>
      filter authWebsocketsEnabled xs \<noteq> []"
    by (auto simp: preferCodexWebsocketAuths_def Let_def)
  moreover have "xs = filter (\<lambda>_. True) xs" by simp
  ultimately show ?thesis by metis
qed

lemma highestPriorityAuths_filter: "\<exists>P. highestPriorityAuths auths = filter P auths"
proof -
  have "highestPriorityAuths auths = auths \<or> (\<exists>p. highestPriorityAuths auths = filter (\<lambda>a. authPriority a = p) auths)"
    by (auto simp: highestPriorityAuths_def Let_def split: prod.split)
  moreover have "auths = filter (\<lambda>_. True) auths" by simp
  ultimately show ?thesis by metis
qed

lemma highestPriority_fold:
  "fold (\<lambda>a (best, n). let priority = authPriority a
         in if n = 0 \<or> priority > best then (priority, 1) else if priority = best then (best, n + 1) else (best, n))
     auths (b, Suc n) = (p, k) \<Longrightarrow> p = b \<or> p \<in> authPriority ` set auths"
  by (induction auths arbitrary: b n) (auto simp: Let_def split: if_splits)

lemma highestPriorityAuths_nonempty:
  assumes "auths \<noteq> []"
  shows "highestPriorityAuths auths \<noteq> []"
proof -
  obtain a rest where a: "auths = a # rest" using assms by (cases auths) auto
  obtain p k where f: "fold (\<lambda>a (best, n). let priority = authPriority a
         in if n = 0 \<or> priority > best then (priority, 1) else if priority = best then (best, n + 1) else (best, n))
     rest (authPriority a, Suc 0) = (p, k :: nat)" by (rule prod.exhaust)
  from highestPriority_fold [OF this] have "p \<in> authPriority ` set auths" using a by auto
  then have "filter (\<lambda>a. authPriority a = p) auths \<noteq> []" by (auto simp: filter_empty_conv)
  with f assms show ?thesis by (simp add: highestPriorityAuths_def a Let_def)
qed

lemma tier_top:
  assumes "\<exists>a \<in> set auths. usable model now a"
  shows "tier model now (topPriority model now auths) auths \<noteq> []"
proof -
  have "topPriority model now auths \<in> authPriority ` {a \<in> set auths. usable model now a}"
    unfolding topPriority_def using assms by (intro Max_in) auto
  then show ?thesis by (auto simp: tier_def filter_empty_conv)
qed

lemma available_sorted:
  assumes "request_ok ctx auths now" "getSelectorAvailableAuths ctx auths provider model now = Inr available"
  shows "sorted_wrt (<) (map auth_ID available) \<and> set available \<subseteq> set auths"
proof (cases "ctx_prevalidated ctx \<and> auths \<noteq> []")
  case True
  with assms have "available = highestPriorityAuths auths"
    by (simp add: getSelectorAvailableAuthsWithPriorityMode_def)
  with highestPriorityAuths_filter [of auths] obtain P where "available = filter P auths" by auto
  with True assms(1) show ?thesis by (simp add: request_ok_def strict_filter)
next
  case False
  with assms(2) have get: "getAvailableAuthsWithPriorityMode auths provider model now False = Inr available"
    by (simp add: getSelectorAvailableAuthsWithPriorityMode_def split: if_splits)
  then have "auths \<noteq> []" by (auto simp: getAvailableAuthsWithPriorityMode_def)
  with get assms(1) have "available = sort_key auth_ID (tier model now (topPriority model now auths) auths)"
    using available_exact [of now auths provider model]
    by (simp add: request_ok_def newAuthUnavailableErrorWithCause_def split: if_splits)
  then show ?thesis
    using assms(1) by (auto simp: request_ok_def tier_def distinct_map_filter intro!: sort_key_strict)
qed

lemma selectorPool_sorted:
  assumes "request_ok ctx auths now"
  shows "sorted_wrt (<) (map auth_ID (selectorPool ctx provider model auths now))"
    "set (selectorPool ctx provider model auths now) \<subseteq> set auths"
proof -
  have "sorted_wrt (<) (map auth_ID (selectorPool ctx provider model auths now)) \<and>
        set (selectorPool ctx provider model auths now) \<subseteq> set auths"
  proof (cases "getSelectorAvailableAuths ctx auths provider model now")
    case (Inr available)
    obtain P where "preferCodexWebsocketAuths ctx provider available = filter P available"
      using prefer_filter by blast
    with Inr available_sorted [OF assms Inr] show ?thesis
      by (auto simp: selectorPool_def intro: strict_filter)
  qed (simp add: selectorPool_def)
  then show "sorted_wrt (<) (map auth_ID (selectorPool ctx provider model auths now))"
    "set (selectorPool ctx provider model auths now) \<subseteq> set auths" by auto
qed

lemma available_nonempty:
  assumes "request_ok ctx auths now" "getSelectorAvailableAuths ctx auths provider model now = Inr available"
  shows "available \<noteq> []"
proof (cases "ctx_prevalidated ctx \<and> auths \<noteq> []")
  case True
  with assms(2) have "available = highestPriorityAuths auths"
    by (simp add: getSelectorAvailableAuthsWithPriorityMode_def)
  with True highestPriorityAuths_nonempty show ?thesis by simp
next
  case False
  with assms(2) have get: "getAvailableAuthsWithPriorityMode auths provider model now False = Inr available"
    by (simp add: getSelectorAvailableAuthsWithPriorityMode_def split: if_splits)
  then have ne: "auths \<noteq> []" by (auto simp: getAvailableAuthsWithPriorityMode_def)
  with get assms(1) have use: "\<exists>a \<in> set auths. usable model now a"
    and av: "available = sort_key auth_ID (tier model now (topPriority model now auths) auths)"
    using available_exact [of now auths provider model]
    by (simp_all add: request_ok_def newAuthUnavailableErrorWithCause_def WithCause_def Let_def split: if_splits)
  show ?thesis using tier_top [OF use] unfolding av by (metis set_empty set_sort)
qed

lemma pool_nonempty:
  assumes "request_ok ctx auths now" "getSelectorAvailableAuths ctx auths provider model now = Inr available"
  shows "selectorPool ctx provider model auths now \<noteq> []"
  using available_nonempty [OF assms] prefer_filter [of ctx provider available] assms(2)
  by (auto simp: selectorPool_def)

abbreviation poolIDs :: "SelectorContext \<Rightarrow> string \<Rightarrow> string \<Rightarrow> Auth list \<times> time \<Rightarrow> string set" where
  "poolIDs ctx provider model req \<equiv> auth_ID ` set (selectorPool ctx provider model (fst req) (snd req))"

abbreviation rotationKey :: "string \<Rightarrow> string \<Rightarrow> string" where
  "rotationKey provider model \<equiv> provider @ '':'' @ canonicalModelKey model"

lemma RoundRobin_Pick_ring:
  assumes "request_ok ctx auths now" "selectorPool ctx provider model auths now \<noteq> []"
  shows "\<exists>a s'. RoundRobin_Pick s ctx provider model auths now = (Inr a, s') \<and>
     a \<in> set (selectorPool ctx provider model auths now) \<and>
     map_of (rr_lastPicked s') (rotationKey provider model) = Some (auth_ID a) \<and>
     (\<forall>l. map_of (rr_lastPicked s) (rotationKey provider model) = Some l \<longrightarrow>
        auth_ID a = ring_next (poolIDs ctx provider model (auths, now)) l)"
proof -
  let ?pool = "selectorPool ctx provider model auths now"
  let ?s = "ensureRotationKey s (rotationKey provider model) (keyLimit (rr_maxKeys s))"
  let ?l = "get_or '''' (rr_lastPicked ?s) (rotationKey provider model)"
  let ?a = "?pool ! successorIndex ?pool ?l"
  have sorted: "sorted_wrt (<) (map auth_ID ?pool)" "'''' \<notin> auth_ID ` set ?pool"
    using selectorPool_sorted [OF assms(1), of provider model] assms(1) by (auto simp: request_ok_def)
  have pick: "RoundRobin_Pick s ctx provider model auths now =
      (Inr ?a, ?s\<lparr>rr_lastPicked := AList.update (rotationKey provider model) (auth_ID ?a) (rr_lastPicked ?s)\<rparr>)"
    using assms(2) by (simp add: RoundRobin_Pick_def selectorPool_def Let_def split: sum.splits)
  have "?a \<in> set ?pool" by (rule nth_mem) (rule auth_ring.successor_less [OF assms(2) sorted(1)])
  moreover have "auth_ID ?a = ring_next (auth_ID ` set ?pool) ?l"
    by (rule auth_ring.successor_ring_next [OF assms(2) sorted])
  moreover have "?l = l" if "map_of (rr_lastPicked s) (rotationKey provider model) = Some l" for l
    using that by (simp add: ensureRotationKey_def ensureKey_def get_or_def)
  ultimately show ?thesis using pick by auto
qed

text \<open>A run of picks for one provider and model, with the candidates and the clock of each request.\<close>

fun rr_run :: "RoundRobinSelector \<Rightarrow> SelectorContext \<Rightarrow> string \<Rightarrow> string \<Rightarrow> (Auth list \<times> time) list \<Rightarrow> (GoError + Auth) list" where
  "rr_run s ctx provider model [] = []"
| "rr_run s ctx provider model ((auths, now) # reqs) =
     (let (r, s') = RoundRobin_Pick s ctx provider model auths now
      in r # rr_run s' ctx provider model reqs)"

lemma rr_run_ring:
  assumes "map_of (rr_lastPicked s) (rotationKey provider model) = Some l"
    and "\<forall>req \<in> set reqs. request_ok ctx (fst req) (snd req) \<and> poolIDs ctx provider model req \<noteq> {}"
  shows "\<exists>as. rr_run s ctx provider model reqs = map Inr as \<and>
     map auth_ID as = ring_picks (map (poolIDs ctx provider model) reqs) l"
  using assms
proof (induction reqs arbitrary: s l)
  case (Cons req reqs)
  obtain auths now where req: "req = (auths, now)" by (cases req)
  from Cons.prems req have ok: "request_ok ctx auths now" "selectorPool ctx provider model auths now \<noteq> []" by auto
  from RoundRobin_Pick_ring [OF ok, of s] obtain a s' where
    p: "RoundRobin_Pick s ctx provider model auths now = (Inr a, s')"
    "map_of (rr_lastPicked s') (rotationKey provider model) = Some (auth_ID a)"
    "auth_ID a = ring_next (poolIDs ctx provider model (auths, now)) l" using Cons.prems(1) by blast
  from Cons.IH [OF p(2)] Cons.prems(2) obtain as where as: "rr_run s' ctx provider model reqs = map Inr as"
    "map auth_ID as = ring_picks (map (poolIDs ctx provider model) reqs) (auth_ID a)" by auto
  with p req show ?case by (intro exI [of _ "a # as"]) simp
qed simp

text \<open>
  (C2) Round robin starves no credential. However the candidates of successive requests for a provider
  and model change (retries exclude credentials, others enter a cooldown), a credential that is
  in the pool of all of them is picked between any two picks of another credential.
\<close>

theorem RoundRobin_no_starvation:
  assumes "\<forall>req \<in> set (req0 # reqs). request_ok ctx (fst req) (snd req)"
    and "\<forall>req \<in> set reqs. y \<in> poolIDs ctx provider model req"
    and "rr_run s ctx provider model (req0 # reqs) = Inr x # results"
    and "reqs \<noteq> []" and "last results = Inr x'" and "auth_ID x' = auth_ID x" and "auth_ID x \<noteq> y"
  shows "\<exists>a. Inr a \<in> set results \<and> auth_ID a = y"
proof -
  obtain auths now where r0: "req0 = (auths, now)" by (cases req0)
  have ok: "request_ok ctx auths now" using assms(1) r0 by simp
  have pool: "selectorPool ctx provider model auths now \<noteq> []"
  proof
    assume "selectorPool ctx provider model auths now = []"
    then have "\<exists>e. getSelectorAvailableAuths ctx auths provider model now = Inl e"
      using ok pool_nonempty by (metis (no_types, lifting) old.sum.exhaust)
    with assms(3) r0 show False by (auto simp: RoundRobin_Pick_def)
  qed
  from RoundRobin_Pick_ring [OF ok pool, of s] assms(3) r0 obtain s' where
    s': "map_of (rr_lastPicked s') (rotationKey provider model) = Some (auth_ID x)"
    "rr_run s' ctx provider model reqs = results" by auto
  have later: "\<forall>req \<in> set reqs. request_ok ctx (fst req) (snd req) \<and> poolIDs ctx provider model req \<noteq> {}"
    using assms(1,2) by (metis empty_iff list.set_intros(2))
  from rr_run_ring [OF s'(1) later] s'(2) obtain as where as: "results = map Inr as"
    "map auth_ID as = ring_picks (map (poolIDs ctx provider model) reqs) (auth_ID x)" by metis
  have "as \<noteq> []" using as(2) assms(4) by (cases reqs) auto
  then have "last (map auth_ID as) = auth_ID x" using assms(5,6) as(1) by (simp add: last_map)
  then have "y \<in> set (map auth_ID as)"
    unfolding as(2) using assms(2,4,7) by (intro ring_no_starvation) auto
  then show ?thesis using as(1) by auto
qed

definition sample_ctx :: SelectorContext where
  "sample_ctx = \<lparr>ctx_prevalidated = False, ctx_downstreamWebsocket = False, ctx_stateModel = ''''\<rparr>"

definition sample_rr :: RoundRobinSelector where
  "sample_rr = \<lparr>rr_lastPicked = [], rr_maxKeys = 0\<rparr>"

lemma sample_rr_run:
  "rr_run sample_rr sample_ctx ''gemini'' ''m''
     [([sample_auth ''a'', sample_auth ''b''], 10), ([sample_auth ''a'', sample_auth ''b''], 11),
      ([sample_auth ''b'', sample_auth ''a''], 12)] =
   [Inr (sample_auth ''a''), Inr (sample_auth ''b''), Inr (sample_auth ''a'')]"
  by code_simp

theorem RoundRobin_no_starvation_witness:
  "\<exists>reqs. request_ok sample_ctx [sample_auth ''a'', sample_auth ''b''] 10 \<and>
     (\<forall>req \<in> set reqs. ''b'' \<in> poolIDs sample_ctx ''gemini'' ''m'' req) \<and>
     rr_run sample_rr sample_ctx ''gemini'' ''m'' (([sample_auth ''a'', sample_auth ''b''], 10) # reqs) =
       [Inr (sample_auth ''a''), Inr (sample_auth ''b''), Inr (sample_auth ''a'')] \<and>
     (\<exists>a. Inr a \<in> set [Inr (sample_auth ''b''), Inr (sample_auth ''a'') :: GoError + Auth] \<and> auth_ID a = ''b'')"
proof -
  let ?reqs = "[([sample_auth ''a'', sample_auth ''b''], 11), ([sample_auth ''b'', sample_auth ''a''], 12)]"
  have ids: "auth_ID (sample_auth i) = i" for i by (simp add: sample_auth_def)
  have ok: "\<forall>req \<in> set (([sample_auth ''a'', sample_auth ''b''], 10) # ?reqs). request_ok sample_ctx (fst req) (snd req)"
    by (simp add: request_ok_def sample_ctx_def ids)
  have "selectorPool sample_ctx ''gemini'' ''m'' [sample_auth ''a'', sample_auth ''b''] 11 =
      [sample_auth ''a'', sample_auth ''b'']"
    "selectorPool sample_ctx ''gemini'' ''m'' [sample_auth ''b'', sample_auth ''a''] 12 =
      [sample_auth ''a'', sample_auth ''b'']" by code_simp+
  then have pools: "\<forall>req \<in> set ?reqs. ''b'' \<in> poolIDs sample_ctx ''gemini'' ''m'' req" by (simp add: ids)
  have "\<exists>a. Inr a \<in> set [Inr (sample_auth ''b''), Inr (sample_auth ''a'') :: GoError + Auth] \<and> auth_ID a = ''b''"
    using RoundRobin_no_starvation [OF ok pools sample_rr_run, of "sample_auth ''a''"] by (simp add: ids)
  with ok pools sample_rr_run show ?thesis by (intro exI [of _ ?reqs]) simp
qed

section \<open>Weighted selection is fair\<close>

lemma smoothAuthStep_eq:
  "smoothAuthStep a s = (if 0 < authWeight a then smooth_step auth_ID authWeight a s else s)"
  by (cases s) (simp add: smoothAuthStep_def smooth_step_def Let_def)

lemma pickSmoothWeightedAuth_reference:
  "pickSmoothWeightedAuth xs cur = smooth_pick auth_ID authWeight (filter (\<lambda>a. 0 < authWeight a) xs) cur"
proof -
  have "fold smoothAuthStep xs s = fold (smooth_step auth_ID authWeight) (filter (\<lambda>a. 0 < authWeight a) xs) s" for s
    by (induction xs arbitrary: s) (simp_all add: smoothAuthStep_eq)
  then show ?thesis
    by (simp add: pickSmoothWeightedAuth_def smooth_pick_def smooth_finish_def split: prod.split option.split)
qed

interpretation auth_weighted:
  smooth_weighted auth_ID authWeight "\<lambda>P xs. pickSmoothWeightedAuth (filter P xs)"
  by unfold_locales (simp_all add: pickSmoothWeightedAuth_reference conj_commute)

text \<open>Where the accumulator stays while the configured weights do not change.\<close>

lemma wf_map_length:
  assumes "wf_map m" "fst ` set m \<subseteq> key ` set xs"
  shows "length m \<le> length xs"
proof -
  have "length m = card (fst ` set m)" using assms(1) by (metis distinct_card length_map set_map)
  also have "\<dots> \<le> card (key ` set xs)" using assms(2) by (intro card_mono) auto
  also have "\<dots> \<le> length xs" by (metis card_image_le card_length finite_set le_trans)
  finally show ?thesis .
qed

lemma fold_update_le:
  assumes "set ys \<subseteq> set vec" "wf_map vec" "map_of m \<subseteq>\<^sub>m map_of vec" "wf_map m"
  shows "map_of (fold (\<lambda>(k, v). AList.update k v) ys m) \<subseteq>\<^sub>m map_of vec \<and>
         wf_map (fold (\<lambda>(k, v). AList.update k v) ys m)"
  using assms(1,3,4)
proof (induction ys arbitrary: m)
  case (Cons kv ys)
  obtain k v where kv: "kv = (k, v)" by (cases kv)
  then have "map_of vec k = Some v" using Cons.prems(1) assms(2) by simp
  with Cons.prems kv have "map_of (AList.update k v m) \<subseteq>\<^sub>m map_of vec" by (simp add: map_le_def)
  with Cons kv show ?case by simp
qed simp

definition steady :: "('a \<Rightarrow> string) \<Rightarrow> 'a list \<Rightarrow> (string \<times> int) list \<Rightarrow> smoothWeightedState \<Rightarrow> bool" where
  "steady key pool vec st \<longleftrightarrow> wf_map (sw_current st) \<and> fst ` set (sw_current st) \<subseteq> key ` set pool \<and>
     wf_map (sw_weights st) \<and> map_of (sw_weights st) \<subseteq>\<^sub>m map_of vec"

lemma prepare_steady:
  assumes "steady key pool vec st" "wf_map vec" "fst ` set vec \<subseteq> key ` set pool" "length pool \<le> 1024"
  shows "sw_current (prepare vec st) = sw_current st" "steady key pool vec (prepare vec st)"
proof -
  let ?w = "fold (\<lambda>(k, v). AList.update k v) vec (sw_weights st)"
  have same: "\<not> weightsConfigChanged (sw_weights st) vec"
  proof -
    have "p = w" if "(i, w) \<in> set vec" "map_of (sw_weights st) i = Some p" for i w p
    proof -
      have "map_of vec i = Some p" using assms(1) that(2) by (force simp: steady_def map_le_def)
      moreover have "map_of vec i = Some w" using assms(2) that(1) by simp
      ultimately show ?thesis by simp
    qed
    then show ?thesis by (auto simp: weightsConfigChanged_def list_ex_iff split: option.splits)
  qed
  have w: "map_of ?w \<subseteq>\<^sub>m map_of vec" "wf_map ?w"
    using fold_update_le [OF order_refl assms(2)] assms(1) by (auto simp: steady_def)
  have "fst ` set ?w \<subseteq> key ` set pool"
    using map_le_implies_dom_le [OF w(1)] assms(3) by (simp add: dom_map_of_conv_image_fst)
  then have "length ?w \<le> 1024" using wf_map_length [OF w(2)] assms(4) by (meson le_trans)
  moreover have "length (sw_current st) \<le> 1024"
    using assms(1,4) wf_map_length [of "sw_current st" key pool] by (auto simp: steady_def)
  ultimately have "prepare vec st = st\<lparr>sw_weights := ?w\<rparr>"
    using same by (simp add: prepare_def pruneStale_def)
  with w assms(1) show "sw_current (prepare vec st) = sw_current st" "steady key pool vec (prepare vec st)"
    by (simp_all add: steady_def)
qed

lemma smooth_pick_keys:
  assumes "wf_map cur" "fst ` set cur \<subseteq> K" "key ` set xs \<subseteq> K"
  shows "wf_map (snd (smooth_pick key weight xs cur)) \<and> fst ` set (snd (smooth_pick key weight xs cur)) \<subseteq> K"
proof -
  let ?ok = "\<lambda>(pk, c, t, m). wf_map m \<and> fst ` set m \<subseteq> K \<and> (\<forall>p. pk = Some p \<longrightarrow> key p \<in> K)"
  have "?ok (fold (smooth_step key weight) ys s)" if "?ok s" "key ` set ys \<subseteq> K"
    for ys and s :: "'a option \<times> int \<times> int \<times> (string \<times> int) list"
    using that
  proof (induction ys arbitrary: s)
    case (Cons y ys)
    have "?ok (smooth_step key weight y s)"
      using Cons.prems by (cases s) (auto simp: smooth_step_def Let_def dom_update)
    with Cons show ?case by simp
  qed simp
  from this [of "(None, 0, 0, cur)" xs] assms show ?thesis
    by (auto simp: smooth_pick_def smooth_finish_def dom_update split: prod.splits option.splits)
qed

lemma authWeightVector_props:
  "wf_map (authWeightVector auths)" "fst ` set (authWeightVector auths) \<subseteq> auth_ID ` set auths"
proof -
  let ?f = "\<lambda>a ws. if authWeight a > 0 then AList.update (auth_ID a) (authWeight a) ws else ws"
  have "wf_map (fold ?f xs m) \<and> fst ` set (fold ?f xs m) \<subseteq> fst ` set m \<union> auth_ID ` set xs" if "wf_map m" for xs m
    using that
  proof (induction xs arbitrary: m)
    case (Cons x xs)
    have wf: "wf_map (?f x m)" using Cons.prems by simp
    have "fst ` set (?f x m) \<subseteq> insert (auth_ID x) (fst ` set m)"
      by (simp add: dom_update subset_insertI)
    then have "fst ` set (?f x m) \<union> auth_ID ` set xs \<subseteq> fst ` set m \<union> auth_ID ` set (x # xs)"
      unfolding list.set(2) image_insert by blast
    with Cons.IH [OF wf] show ?case unfolding fold_simps(2) by (meson order_trans)
  qed simp
  from this [of "[]" auths] show "wf_map (authWeightVector auths)"
    "fst ` set (authWeightVector auths) \<subseteq> auth_ID ` set auths" by (auto simp: authWeightVector_def)
qed

fun wrr_run ::
    "WeightedRoundRobinSelector \<Rightarrow> SelectorContext \<Rightarrow> string \<Rightarrow> string \<Rightarrow> Auth list \<Rightarrow> time \<Rightarrow> nat \<Rightarrow> (GoError + Auth) list" where
  "wrr_run s ctx provider model auths now 0 = []"
| "wrr_run s ctx provider model auths now (Suc n) =
     (let (r, s') = WeightedRoundRobin_Pick s ctx provider model auths now
      in r # wrr_run s' ctx provider model auths now n)"

abbreviation weightedPool :: "SelectorContext \<Rightarrow> string \<Rightarrow> string \<Rightarrow> Auth list \<Rightarrow> time \<Rightarrow> Auth list" where
  "weightedPool ctx provider model auths now \<equiv>
     selectorPool ctx provider model (positiveWeightAuths auths) now"

abbreviation weightedKey :: "SelectorContext \<Rightarrow> string \<Rightarrow> string \<Rightarrow> string" where
  "weightedKey ctx provider model \<equiv> provider @ '':'' @ canonicalModelKey (weightedSelectorStateModel ctx model)"

definition weightedState :: "WeightedRoundRobinSelector \<Rightarrow> string \<Rightarrow> smoothWeightedState" where
  "weightedState s key = get_or empty_weighted (ensureKey (wrr_states s) key (keyLimit (wrr_maxKeys s))) key"

lemma WeightedRoundRobin_Pick_step:
  assumes pool: "pool = weightedPool ctx provider model auths now" "pool \<noteq> []" "length pool \<le> 1024"
    and ok: "request_ok ctx (positiveWeightAuths auths) now"
    and st: "steady auth_ID pool (authWeightVector pool) (weightedState s (weightedKey ctx provider model))"
  shows "\<exists>p s'. WeightedRoundRobin_Pick s ctx provider model auths now = (Inr p, s') \<and>
     fst (pickSmoothWeightedAuth pool (sw_current (weightedState s (weightedKey ctx provider model)))) = Some p \<and>
     sw_current (weightedState s' (weightedKey ctx provider model)) =
       snd (pickSmoothWeightedAuth pool (sw_current (weightedState s (weightedKey ctx provider model)))) \<and>
     steady auth_ID pool (authWeightVector pool) (weightedState s' (weightedKey ctx provider model))"
proof -
  let ?key = "weightedKey ctx provider model" and ?vec = "authWeightVector pool"
  let ?st = "weightedState s ?key"
  let ?prep = "prepare ?vec ?st"
  note prep = prepare_steady [OF st authWeightVector_props pool(3)]
  have pos: "\<forall>a \<in> set pool. 0 < authWeight a"
    using selectorPool_sorted(2) [OF ok, of provider model] pool(1) by (auto simp: positiveWeightAuths_def)
  obtain p cur where pick: "pickSmoothWeightedAuth pool (sw_current ?st) = (Some p, cur)"
    using smooth_pick_picked [where xs = pool and key = auth_ID and weight = authWeight and cur = "sw_current ?st"]
      pos pool(2) by (cases "pickSmoothWeightedAuth pool (sw_current ?st)")
      (auto simp: pickSmoothWeightedAuth_reference)
  define s' where "s' = s\<lparr>wrr_states := AList.update ?key (?prep\<lparr>sw_current := cur\<rparr>)
      (ensureKey (wrr_states s) ?key (keyLimit (wrr_maxKeys s)))\<rparr>"
  have avail: "\<exists>av. getSelectorAvailableAuths ctx (positiveWeightAuths auths) provider model now = Inr av \<and>
      preferCodexWebsocketAuths ctx provider av = pool"
    using pool(1,2) by (auto simp: selectorPool_def split: sum.splits)
  have "WeightedRoundRobin_Pick s ctx provider model auths now = (Inr p, s')"
    using avail pick prep(1)
    by (auto simp: WeightedRoundRobin_Pick_def Let_def s'_def weightedState_def)
  moreover have st': "weightedState s' ?key = ?prep\<lparr>sw_current := cur\<rparr>"
    by (simp add: s'_def weightedState_def ensureKey_def get_or_def)
  moreover have "wf_map cur \<and> fst ` set cur \<subseteq> auth_ID ` set pool"
    using smooth_pick_keys [of "sw_current ?st" "auth_ID ` set pool" auth_ID pool authWeight] st pick pos
    by (simp add: steady_def pickSmoothWeightedAuth_reference)
  ultimately show ?thesis using pick prep(2) by (auto simp: steady_def)
qed

lemma wrr_run_iterate:
  assumes pool: "pool = weightedPool ctx provider model auths now" "pool \<noteq> []" "length pool \<le> 1024"
    and ok: "request_ok ctx (positiveWeightAuths auths) now"
    and st: "steady auth_ID pool (authWeightVector pool) (weightedState s (weightedKey ctx provider model))"
  shows "wrr_run s ctx provider model auths now n = map Inr (fst (iterate_picks (pickSmoothWeightedAuth pool) n
           (sw_current (weightedState s (weightedKey ctx provider model)))))"
  using st
proof (induction n arbitrary: s)
  case (Suc n)
  from WeightedRoundRobin_Pick_step [OF pool ok Suc.prems] obtain p s' where
    step: "WeightedRoundRobin_Pick s ctx provider model auths now = (Inr p, s')"
    "pickSmoothWeightedAuth pool (sw_current (weightedState s (weightedKey ctx provider model))) =
       (Some p, sw_current (weightedState s' (weightedKey ctx provider model)))"
    "steady auth_ID pool (authWeightVector pool) (weightedState s' (weightedKey ctx provider model))"
    by (metis prod.collapse)
  with Suc.IH [OF step(3)] show ?case by (simp split: prod.split)
qed simp

text \<open>
  (C3) Weighted round robin is fair. Over a pool that does not change, started without credits, the
  selector never fails, no credential is ever chosen a whole round ahead of its share, and after
  as many picks as the sum of the weights every credential has been chosen exactly as often as
  its weight says.
\<close>

theorem WeightedRoundRobin_fair:
  assumes "request_ok ctx (positiveWeightAuths auths) now"
    and "pool = weightedPool ctx provider model auths now" and "pool \<noteq> []" and "length pool \<le> 1024"
    and "map_of (wrr_states s) (weightedKey ctx provider model) = None"
    and "results = wrr_run s ctx provider model auths now k" and "W = sum authWeight (set pool)"
  shows "length results = k \<and> set results \<subseteq> Inr ` set pool \<and>
         (\<forall>a \<in> set pool. W * int (count_list results (Inr a)) < int k * authWeight a + W \<and>
            (int k = W \<longrightarrow> int (count_list results (Inr a)) = authWeight a))"
proof -
  have empty: "weightedState s (weightedKey ctx provider model) = empty_weighted"
    using assms(5) by (simp add: weightedState_def ensureKey_def get_or_def)
  then have st: "steady auth_ID pool (authWeightVector pool) (weightedState s (weightedKey ctx provider model))"
    by (simp add: steady_def empty_weighted_def)
  obtain ps cur where run: "iterate_picks (pickSmoothWeightedAuth pool) k [] = (ps, cur)" by (rule prod.exhaust)
  then have res: "results = map Inr ps"
    using wrr_run_iterate [OF assms(2-4,1) st, of k] assms(6) empty by (simp add: empty_weighted_def)
  have pos: "filter (\<lambda>a. 0 < authWeight a) pool = pool"
    using selectorPool_sorted(2) [OF assms(1), of provider model] assms(2)
    by (auto simp: positiveWeightAuths_def filter_id_conv)
  have cands: "auth_weighted.candidates (\<lambda>_. True) pool = pool"
    by (simp add: auth_weighted.candidates_def pos)
  have dist: "distinct (map auth_ID pool)"
    using selectorPool_sorted(1) [OF assms(1), of provider model] assms(2) by (simp add: strict_sorted_iff)
  have fair: "length ps = k \<and> (\<forall>a \<in> set pool. W * int (count_list ps a) < int k * authWeight a + W \<and>
      (int k = W \<longrightarrow> int (count_list ps a) = authWeight a \<and> credit auth_ID cur a = 0))"
    using auth_weighted.fair_run [OF dist, of "\<lambda>_. True" "[]" k ps cur W] assms(3,4,7) run cands
    by (simp add: get_or_def authWeight_bounds)
  have "pool_ok auth_ID authWeight pool" using auth_weighted.candidates_ok [OF dist, of "\<lambda>_. True"] assms(4) cands
    by (simp add: authWeight_bounds)
  moreover have "credits_ok authWeight pool (credit auth_ID [])"
    using total_weight_bounds(3) [OF calculation assms(3)] by (simp add: credits_ok_def get_or_def)
  moreover have "pickSmoothWeightedAuth pool = smooth_pick auth_ID authWeight pool"
    by (simp add: fun_eq_iff pickSmoothWeightedAuth_reference pos)
  ultimately have "set ps \<subseteq> set pool" using smooth_run assms(3) run by metis
  moreover have "count_list (map Inr ps) (Inr a :: GoError + Auth) = count_list ps a" for a
    by (induction ps) auto
  ultimately show ?thesis using fair by (auto simp: res)
qed

definition weighted :: "string \<Rightarrow> string \<Rightarrow> Auth" where
  "weighted i w = (sample_auth i)\<lparr>auth_Attributes := [(''weight'', w)]\<rparr>"

definition sample_wrr :: WeightedRoundRobinSelector where
  "sample_wrr = \<lparr>wrr_states = [], wrr_maxKeys = 0\<rparr>"

theorem WeightedRoundRobin_fair_witness:
  "let results = wrr_run sample_wrr sample_ctx ''gemini'' ''m'' [weighted ''a'' ''2'', weighted ''b'' ''1''] 10 3
   in length results = 3 \<and> count_list results (Inr (weighted ''a'' ''2'')) = 2 \<and>
      count_list results (Inr (weighted ''b'' ''1'')) = 1"
proof -
  let ?as = "[weighted ''a'' ''2'', weighted ''b'' ''1'']"
  let ?pool = "weightedPool sample_ctx ''gemini'' ''m'' ?as 10"
  have pool: "?pool = ?as" by code_simp
  have pos: "positiveWeightAuths ?as = ?as" by code_simp
  have w: "authWeight (weighted ''a'' ''2'') = 2" "authWeight (weighted ''b'' ''1'') = 1" by code_simp+
  have ne: "weighted ''a'' ''2'' \<noteq> weighted ''b'' ''1''" by (simp add: weighted_def sample_auth_def)
  have ok: "request_ok sample_ctx (positiveWeightAuths ?as) 10"
    unfolding pos by (simp add: request_ok_def sample_ctx_def weighted_def sample_auth_def)
  have "int 3 = sum authWeight (set ?pool)" using ne by (simp add: pool w)
  with WeightedRoundRobin_fair [OF ok refl, of "''gemini''" "''m''" sample_wrr _ 3, OF _ _ _ refl refl] pool w
  show ?thesis by (simp add: sample_wrr_def Let_def)
qed

section \<open>Fill first and quota drain\<close>

text \<open>
  Fill first always uses up the same credential first: on candidates without equal identifiers it
  returns the available credential of the highest priority whose identifier is the least, and it
  fails exactly when no candidate is available.
\<close>

theorem FillFirst_least:
  assumes "0 \<le> now" and "distinct (map auth_ID auths)" and "\<not> ctx_prevalidated ctx"
    and "\<not> ctx_downstreamWebsocket ctx"
  shows "case FillFirst_Pick ctx provider model auths now of
           Inl e \<Rightarrow> \<not> (\<exists>a \<in> set auths. usable model now a)
         | Inr a \<Rightarrow> a \<in> set auths \<and> usable model now a \<and>
             (\<forall>b \<in> set auths. usable model now b \<longrightarrow>
                authPriority b < authPriority a \<or>
                (authPriority b = authPriority a \<and> auth_ID a \<le> auth_ID b))"
proof (cases "\<exists>a \<in> set auths. usable model now a")
  case False
  then show ?thesis
    using available_exact [OF assms(1), of auths provider model] assms(3)
    by (cases "auths = []")
      (auto simp: FillFirst_Pick_def getSelectorAvailableAuthsWithPriorityMode_def
        getAvailableAuthsWithPriorityMode_def split: sum.splits if_splits)
next
  case True
  let ?t = "tier model now (topPriority model now auths) auths"
  have t: "?t \<noteq> []" by (rule tier_top [OF True])
  have ne: "auths \<noteq> []" using True by auto
  let ?s = "sort_key auth_ID ?t"
  have "FillFirst_Pick ctx provider model auths now = Inr (?s ! 0)"
    using available_exact [OF assms(1) ne, of provider model] True assms(3,4)
    by (simp add: FillFirst_Pick_def getSelectorAvailableAuthsWithPriorityMode_def preferCodexWebsocketAuths_def)
  moreover have "?s ! 0 \<in> set ?t" using t by (metis length_greater_0_conv length_sort nth_mem set_sort)
  moreover have "auth_ID (?s ! 0) \<le> auth_ID b" if "b \<in> set ?t" for b
  proof -
    from that obtain i where "i < length ?s" "b = ?s ! i" by (metis in_set_conv_nth set_sort)
    then show ?thesis using sorted_nth_mono [of "map auth_ID ?s" 0 i] t by simp
  qed
  moreover have "authPriority b \<le> topPriority model now auths" if "b \<in> set auths" "usable model now b" for b
    unfolding topPriority_def using that by (intro Max_ge) auto
  ultimately show ?thesis by (force simp: tier_def)
qed

theorem FillFirst_least_witness:
  "FillFirst_Pick sample_ctx ''gemini'' ''m'' [sample_auth ''a'', prioritized ''c'' ''5'', prioritized ''b'' ''5''] 10 =
   Inr (prioritized ''b'' ''5'')"
proof -
  let ?as = "[sample_auth ''a'', prioritized ''c'' ''5'', prioritized ''b'' ''5'']"
  have ids: "auth_ID (sample_auth i) = i" "auth_ID (prioritized i p) = i" for i p
    by (simp_all add: sample_auth_def prioritized_def)
  have cmp: "((''c'' :: string) \<le> ''b'') = False" by code_simp
  show ?thesis
    using FillFirst_least [of 10 ?as sample_ctx "''m''" "''gemini''"]
    by (auto simp: ids sample_ctx_def cmp split: sum.splits)
qed

lemma map_of_tiers:
  assumes "0 \<le> now" "collectAvailableByPriority auths model now = (m, n, e)"
  shows "wf_map m" "get_or [] m p = tier model now p auths"
    "set (quotaDrainPriorities m) = authPriority ` {a \<in> set auths. usable model now a}"
    "sorted (rev (quotaDrainPriorities m))"
proof -
  from collect_spec [OF assms(1), of auths model] assms(2)
  have m: "wf_map m" "\<And>p. map_of m p = (if tier model now p auths = [] then None else Some (tier model now p auths))"
    by auto
  show "wf_map m" by (rule m(1))
  show "get_or [] m p = tier model now p auths" by (simp add: get_or_def m(2))
  have "set (quotaDrainPriorities m) = dom (map_of m)"
    by (simp add: quotaDrainPriorities_def dom_map_of_conv_image_fst)
  also have "\<dots> = authPriority ` {a \<in> set auths. usable model now a}"
    by (auto simp: dom_def m(2) tier_def filter_empty_conv split: if_splits)
  finally show "set (quotaDrainPriorities m) = authPriority ` {a \<in> set auths. usable model now a}" .
  show "sorted (rev (quotaDrainPriorities m))" by (simp add: quotaDrainPriorities_def)
qed

lemma pickWithinProvider_spec:
  "(\<forall>a. fst (pickWithinProvider s provider model auths now) = Some a \<longrightarrow>
      a \<in> set auths \<and> \<not> quotaCapacityExhausted a model now) \<and>
   (fst (pickWithinProvider s provider model auths now) = None \<longleftrightarrow>
      (\<forall>a \<in> set auths. quotaCapacityExhausted a model now))"
proof -
  let ?kept = "filter (\<lambda>a. \<not> quotaCapacityExhausted a model now) auths"
  define cs where "cs = map (\<lambda>a. \<lparr>cand_id = auth_ID a, cand_rank = quotaCapacityRank a model now,
      cand_allowed = True\<rparr>) ?kept"
  define byID where "byID = sort_key (\<lambda>i. cand_id (cs ! i)) [0..<length cs]"
  show ?thesis
  proof (cases "cs = []")
    case True
    then have "?kept = []" by (simp add: cs_def)
    then show ?thesis by (auto simp: pickWithinProvider_def filter_empty_conv)
  next
    case False
    let ?key = "to_lower (trim_space provider) @ '':'' @ canonicalModelKey model"
    obtain off s1 where o: "nextCursorIndex s ?key (length byID) = (off, s1)" by (rule prod.exhaust)
    obtain pin s2 where p: "pinLocked s1 ?key = (pin, s2)" by (rule prod.exhaust)
    define order where "order = drop off byID @ take off byID"
    obtain picked pin' where pk: "pickQuotaPinned (Some pin) cs order = (picked, pin')" by (rule prod.exhaust)
    have "set order = set byID" unfolding order_def by (metis append_take_drop_id set_append sup_commute)
    then have "set order = {..<length cs}" by (simp add: byID_def atLeast0LessThan)
    note sound = pickQuotaPinned_sound [OF this pk]
    have all: "\<forall>c \<in> set cs. cand_allowed c" by (simp add: cs_def)
    have res: "fst (pickWithinProvider s provider model auths now) =
        (case picked of None \<Rightarrow> None | Some i \<Rightarrow> Some (?kept ! i))"
      using False o p pk unfolding pickWithinProvider_def Let_def cs_def [symmetric] byID_def [symmetric]
      by (simp add: order_def)
    obtain c where "c \<in> set cs" using False by (cases cs) auto
    with all sound obtain i where i: "picked = Some i" "i < length cs" by blast
    then have "?kept ! i \<in> set ?kept" by (intro nth_mem) (simp add: cs_def)
    with res i False show ?thesis by (auto simp: cs_def filter_empty_conv)
  qed
qed

lemma pickRotated_spec:
  assumes "\<not> ctx_downstreamWebsocket ctx"
  shows "(\<forall>a. fst (pickRotated groups ctx model now ps s) = Some a \<longrightarrow>
      (\<exists>p \<in> set ps. a \<in> set (groups p)) \<and> \<not> quotaCapacityExhausted a model now) \<and>
   (fst (pickRotated groups ctx model now ps s) = None \<longleftrightarrow>
      (\<forall>p \<in> set ps. \<forall>a \<in> set (groups p). quotaCapacityExhausted a model now))"
proof (induction ps arbitrary: s)
  case (Cons p ps)
  have pref: "preferCodexWebsocketAuths ctx q xs = xs" for q xs
    using assms by (simp add: preferCodexWebsocketAuths_def)
  obtain r s' where r: "pickWithinProvider s p model (groups p) now = (r, s')" by (rule prod.exhaust)
  with pickWithinProvider_spec [of s p model "groups p" now] Cons.IH [of s'] show ?case
    by (cases r) (auto simp: pref)
qed simp

lemma pickMixedProvider_spec:
  assumes "\<not> ctx_downstreamWebsocket ctx"
  shows "(\<forall>a. fst (pickMixedProvider s ctx model auths now) = Some a \<longrightarrow>
      a \<in> set auths \<and> executorKeyFromAuth a \<noteq> '''' \<and> \<not> quotaCapacityExhausted a model now) \<and>
   (fst (pickMixedProvider s ctx model auths now) = None \<longleftrightarrow>
      (\<forall>a \<in> set auths. executorKeyFromAuth a \<noteq> '''' \<longrightarrow> quotaCapacityExhausted a model now))"
proof -
  define ps where "ps = sort (remdups (filter (\<lambda>p. p \<noteq> '''') (map executorKeyFromAuth auths)))"
  define gs where "gs = (\<lambda>p. filter (\<lambda>a. executorKeyFromAuth a = p) auths)"
  have set_ps: "set ps = executorKeyFromAuth ` set auths - {''''}" by (auto simp: ps_def)
  show ?thesis
  proof (cases "ps = []")
    case True
    then have "set ps = {}" by simp
    then have "\<forall>a \<in> set auths. executorKeyFromAuth a = ''''" unfolding set_ps by auto
    with True show ?thesis by (auto simp: pickMixedProvider_def Let_def ps_def [symmetric])
  next
    case False
    obtain start s1 where c: "nextCursorIndex s (''mixed:'' @ canonicalModelKey model) (length ps) = (start, s1)"
      by (rule prod.exhaust)
    let ?rot = "drop start ps @ take start ps"
    have rot: "set ?rot = set ps" by (metis append_take_drop_id set_append sup_commute)
    have "pickMixedProvider s ctx model auths now = pickRotated gs ctx model now ?rot s1"
      using False c by (simp add: pickMixedProvider_def Let_def ps_def [symmetric] gs_def)
    then show ?thesis
      using pickRotated_spec [OF assms, of gs model now ?rot s1] unfolding rot set_ps
      by (auto simp: gs_def)
  qed
qed

text \<open>The credentials quota drain may return for a request.\<close>

definition drainable :: "string \<Rightarrow> string \<Rightarrow> time \<Rightarrow> Auth \<Rightarrow> bool" where
  "drainable provider model now a \<longleftrightarrow> usable model now a \<and> \<not> quotaCapacityExhausted a model now \<and>
     (equal_fold (trim_space provider) ''mixed'' \<longrightarrow> executorKeyFromAuth a \<noteq> '''')"

lemma pickPriorities_spec:
  assumes "\<not> ctx_downstreamWebsocket ctx" "\<And>p. get_or [] m p = tier model now p auths" "sorted (rev ps)"
  shows "(\<forall>a. fst (pickPriorities ctx provider model now m ps s) = Some a \<longrightarrow>
      a \<in> set auths \<and> drainable provider model now a \<and>
      (\<forall>b \<in> set auths. drainable provider model now b \<longrightarrow> authPriority b \<in> set ps \<longrightarrow> authPriority b \<le> authPriority a)) \<and>
    (fst (pickPriorities ctx provider model now m ps s) = None \<longleftrightarrow>
      (\<forall>b \<in> set auths. drainable provider model now b \<longrightarrow> authPriority b \<notin> set ps))"
  using assms(3)
proof (induction ps arbitrary: s)
  case (Cons p ps)
  let ?r = "if equal_fold (trim_space provider) ''mixed''
             then pickMixedProvider s ctx model (get_or [] m p) now
             else pickWithinProvider s provider model (preferCodexWebsocketAuths ctx provider (get_or [] m p)) now"
  obtain r s' where r: "?r = (r, s')" by (rule prod.exhaust)
  have pref: "preferCodexWebsocketAuths ctx provider xs = xs" for xs
    using assms(1) by (simp add: preferCodexWebsocketAuths_def)
  have one: "(\<forall>a. r = Some a \<longrightarrow> a \<in> set auths \<and> drainable provider model now a \<and> authPriority a = p) \<and>
    (r = None \<longleftrightarrow> (\<forall>a \<in> set auths. drainable provider model now a \<longrightarrow> authPriority a \<noteq> p))"
  proof (cases "equal_fold (trim_space provider) ''mixed''")
    case True
    with r have "fst (pickMixedProvider s ctx model (tier model now p auths) now) = r"
      by (simp add: assms(2))
    then show ?thesis
      using True pickMixedProvider_spec [OF assms(1), of s model "tier model now p auths" now]
      by (auto simp: drainable_def tier_def)
  next
    case False
    with r have "fst (pickWithinProvider s provider model (tier model now p auths) now) = r"
      by (simp add: assms(2) pref)
    then show ?thesis
      using False pickWithinProvider_spec [of s provider model "tier model now p auths" now]
      by (auto simp: drainable_def tier_def)
  qed
  have step: "pickPriorities ctx provider model now m (p # ps) s =
      (case r of Some a \<Rightarrow> (Some a, s') | None \<Rightarrow> pickPriorities ctx provider model now m ps s')"
    using r by (simp add: Let_def)
  from Cons.prems have below: "sorted (rev ps)" "\<forall>q \<in> set ps. q \<le> p" by (auto simp: sorted_append)
  show ?case
  proof (cases r)
    case None
    with step one Cons.IH [OF below(1), of s'] show ?thesis by auto
  next
    case (Some a)
    with step one below(2) show ?thesis by auto
  qed
qed simp

text \<open>
  Quota drain falls through to a lower priority only when it must, and fails only when it must:
  it returns an available credential with quota left of the highest priority that has one, and an
  error exactly when no candidate is available with quota left.
\<close>

theorem QuotaDrain_highest:
  assumes "0 \<le> now" and "\<not> ctx_downstreamWebsocket ctx"
  shows "case fst (QuotaDrain_Pick s ctx provider model auths now) of
           Inr a \<Rightarrow> a \<in> set auths \<and> drainable provider model now a \<and>
             (\<forall>b \<in> set auths. drainable provider model now b \<longrightarrow> authPriority b \<le> authPriority a)
         | Inl e \<Rightarrow> \<not> (\<exists>a \<in> set auths. drainable provider model now a)"
proof -
  obtain m n e where c: "collectAvailableByPriority auths model now = (m, n, e)" by (rule prod_cases3)
  note tiers = map_of_tiers [OF assms(1) c]
  have usable: "drainable provider model now b \<Longrightarrow> b \<in> set auths \<Longrightarrow> authPriority b \<in> set (quotaDrainPriorities m)" for b
    unfolding tiers(3) by (auto simp: drainable_def)
  show ?thesis
  proof (cases "m = []")
    case True
    then have "quotaDrainPriorities m = []" by (simp add: quotaDrainPriorities_def)
    with usable have "\<not> (\<exists>a \<in> set auths. drainable provider model now a)" by auto
    with True c show ?thesis by (simp add: QuotaDrain_Pick_def)
  next
    case False
    obtain r s' where r: "pickPriorities ctx provider model now m (quotaDrainPriorities m) s = (r, s')"
      by (rule prod.exhaust)
    note spec = pickPriorities_spec [OF assms(2) tiers(2,4), of provider s, unfolded r fst_conv]
    show ?thesis
      using False c r spec usable by (cases r) (auto simp: QuotaDrain_Pick_def Let_def)
  qed
qed

definition sample_qd :: QuotaDrainSelector where
  "sample_qd = \<lparr>qd_cursors = [], qd_pins = [], qd_maxKeys = 0\<rparr>"

theorem QuotaDrain_highest_witness:
  "\<exists>a b. quotaCapacityExhausted a ''m'' 10 \<and> drainable ''gemini'' ''m'' 10 b \<and>
     fst (QuotaDrain_Pick sample_qd sample_ctx ''gemini'' ''m'' [a, b] 10) = Inr b"
proof -
  define a where "a = (sample_capacity [sample_window 0 50 True 18000])\<lparr>auth_Attributes := [(''priority'', ''5'')]\<rparr>"
  define b where "b = sample_auth ''b''"
  have ex: "quotaCapacityExhausted a ''m'' 10" by (simp only: a_def) code_simp
  have "drainable ''gemini'' ''m'' 10 b" by (simp only: b_def) code_simp
  moreover have "\<not> drainable ''gemini'' ''m'' 10 a" using ex by (simp add: drainable_def)
  ultimately have "fst (QuotaDrain_Pick sample_qd sample_ctx ''gemini'' ''m'' [a, b] 10) = Inr b"
    using QuotaDrain_highest [where now = 10 and ctx = sample_ctx and s = sample_qd and
        provider = "''gemini''" and model = "''m''" and auths = "[a, b]"]
    by (auto simp: sample_ctx_def split: sum.splits)
  with ex \<open>drainable ''gemini'' ''m'' 10 b\<close> show ?thesis by blast
qed

end
