(* ===== verification/Shard.thy ===== *)
theory Shard
  imports Selectors
begin

text \<open>
  One shard of the scheduler, \<open>modelScheduler\<close> of \<open>sdk/cliproxy/auth/scheduler.go\<close>: the credentials
  of a provider that support one model, their state at the last evaluation, and the indexes that
  picking reads. The ready views and the queue of blocked entries hold pointers to entries of the
  map; here they hold the identifiers, read through the map, so an update of an entry is seen
  through every index as in the program.

  The operations run while the scheduler's mutex is held. The time they read is an argument, read
  once per critical section. The predicate of a request is a function on entries and never nil.
  The pin of quota drain belongs to the provider and is passed in and out.
\<close>

section \<open>Data\<close>

datatype schedulerStrategy =
    schedulerStrategyCurrent | schedulerStrategyCustom | schedulerStrategyRoundRobin
  | schedulerStrategyFillFirst | schedulerStrategyWeightedRoundRobin | schedulerStrategyQuotaDrain

datatype scheduledState =
    scheduledStateReady | scheduledStateCooldown | scheduledStateBlocked | scheduledStateDisabled

text \<open>A nil set of models is \<open>None\<close>; otherwise the keys, each once.\<close>

record scheduledAuthMeta =
  m_auth :: Auth
  m_providerKey :: string
  m_priority :: int
  m_weight :: int
  m_websocketEnabled :: bool
  m_supportedModelSet :: "string list option"
  m_registryEpoch :: nat

record scheduledAuth =
  se_meta :: scheduledAuthMeta
  se_state :: scheduledState
  se_nextRetryAt :: time

abbreviation se_auth :: "scheduledAuth \<Rightarrow> Auth" where "se_auth e \<equiv> m_auth (se_meta e)"
abbreviation se_id :: "scheduledAuth \<Rightarrow> string" where "se_id e \<equiv> auth_ID (se_auth e)"
abbreviation m_id :: "scheduledAuthMeta \<Rightarrow> string" where "m_id meta \<equiv> auth_ID (m_auth meta)"

record readyViewCursorState =
  cur_lastPicked :: string
  cur_weightedState :: smoothWeightedState

record readyBucketCursorState =
  cur_all :: readyViewCursorState
  cur_ws :: readyViewCursorState

record readyView =
  rv_flat :: "string list"
  rv_lastPicked :: string
  rv_weightedState :: smoothWeightedState

record readyBucket =
  rb_all :: readyView
  rb_ws :: readyView

type_synonym entryMap = "(string \<times> scheduledAuth) list"

record modelScheduler =
  sh_modelKey :: string
  sh_entries :: entryMap
  sh_priorityOrder :: "int list"
  sh_readyByPriority :: "(int \<times> readyBucket) list"
  sh_blocked :: "string list"

definition newShard :: "string \<Rightarrow> modelScheduler" where
  "newShard modelKey = \<lparr>sh_modelKey = modelKey, sh_entries = [], sh_priorityOrder = [],
     sh_readyByPriority = [], sh_blocked = []\<rparr>"

definition deref :: "entryMap \<Rightarrow> string list \<Rightarrow> scheduledAuth list" where
  "deref entries ids = List.map_filter (map_of entries) ids"

definition supportsModel :: "scheduledAuthMeta \<Rightarrow> string \<Rightarrow> bool" where
  "supportsModel m modelKey \<longleftrightarrow>
     (let modelKey = canonicalModelKey modelKey
      in if modelKey = '''' then True
         else case m_supportedModelSet m of None \<Rightarrow> False | Some models \<Rightarrow> modelKey \<in> set models)"

section \<open>Picking from a view\<close>

definition pickFirst :: "(scheduledAuth \<Rightarrow> bool) \<Rightarrow> scheduledAuth list \<Rightarrow> scheduledAuth option" where
  "pickFirst predicate flat = find predicate flat"

definition scheduledSuccessorIndex :: "scheduledAuth list \<Rightarrow> string \<Rightarrow> nat" where
  "scheduledSuccessorIndex entries lastID =
     (if lastID = '''' then 0
      else let index = sort_search (length entries) (\<lambda>i. se_id (entries ! i) > lastID)
           in if index \<ge> length entries then 0 else index)"

text \<open>The loop over \<open>(start + offset) % len\<close> visits the view rotated to start at \<open>start\<close>.\<close>

definition pickRoundRobin ::
    "entryMap \<Rightarrow> (scheduledAuth \<Rightarrow> bool) \<Rightarrow> readyView \<Rightarrow> scheduledAuth option \<times> readyView" where
  "pickRoundRobin entries predicate v =
     (let flat = deref entries (rv_flat v)
      in if flat = [] then (None, v)
         else let start = scheduledSuccessorIndex flat (rv_lastPicked v)
              in case find predicate (rotate start flat) of
                   None \<Rightarrow> (None, v)
                 | Some entry \<Rightarrow> (Some entry, v\<lparr>rv_lastPicked := se_id entry\<rparr>))"

definition scheduledWeightVectorMatching ::
    "scheduledAuth list \<Rightarrow> (scheduledAuth \<Rightarrow> bool) \<Rightarrow> (string \<times> int) list" where
  "scheduledWeightVectorMatching entries predicate =
     fold (\<lambda>entry weights.
         if m_weight (se_meta entry) \<le> 0 then weights
         else if \<not> predicate entry then weights
         else AList.update (se_id entry) (m_weight (se_meta entry)) weights)
       entries []"

definition scheduledWeightVector :: "scheduledAuth list \<Rightarrow> (string \<times> int) list" where
  "scheduledWeightVector entries = scheduledWeightVectorMatching entries (\<lambda>_. True)"

definition smoothScheduledStep ::
    "(scheduledAuth \<Rightarrow> bool) \<Rightarrow> scheduledAuth \<Rightarrow>
     scheduledAuth option \<times> int \<times> int \<times> (string \<times> int) list \<Rightarrow>
     scheduledAuth option \<times> int \<times> int \<times> (string \<times> int) list" where
  "smoothScheduledStep predicate entry = (\<lambda>(picked, pickedCurrent, totalWeight, current).
     (let weight = m_weight (se_meta entry)
      in if weight \<le> 0 then (picked, pickedCurrent, totalWeight, current)
         else if \<not> predicate entry then (picked, pickedCurrent, totalWeight, current)
         else let current = AList.update (se_id entry)
                              (saturatingAddInt64 (get_or 0 current (se_id entry)) weight) current;
                  totalWeight = saturatingAddInt64 totalWeight weight
              in if picked = None \<or> get_or 0 current (se_id entry) > pickedCurrent
                 then (Some entry, get_or 0 current (se_id entry), totalWeight, current)
                 else (picked, pickedCurrent, totalWeight, current)))"

definition pickSmoothWeightedScheduled ::
    "(scheduledAuth \<Rightarrow> bool) \<Rightarrow> scheduledAuth list \<Rightarrow> (string \<times> int) list \<Rightarrow>
     scheduledAuth option \<times> (string \<times> int) list" where
  "pickSmoothWeightedScheduled predicate entries current =
     (case fold (smoothScheduledStep predicate) entries (None, 0, 0, current) of
        (None, _, _, current) \<Rightarrow> (None, current)
      | (Some picked, _, totalWeight, current) \<Rightarrow>
          (Some picked, AList.update (se_id picked)
             (saturatingAddInt64 (get_or 0 current (se_id picked)) (- totalWeight)) current))"

definition pickWeighted ::
    "entryMap \<Rightarrow> (scheduledAuth \<Rightarrow> bool) \<Rightarrow> readyView \<Rightarrow> scheduledAuth option \<times> readyView" where
  "pickWeighted entries predicate v =
     (let flat = deref entries (rv_flat v)
      in if flat = [] then (None, v)
         else let state = prepare (scheduledWeightVectorMatching flat predicate) (rv_weightedState v);
                  (picked, current) = pickSmoothWeightedScheduled predicate flat (sw_current state)
              in (picked, v\<lparr>rv_weightedState := state\<lparr>sw_current := current\<rparr>\<rparr>))"

text \<open>The candidates keep the order of the rotated view; those known to be exhausted are left out.\<close>

definition pickQuotaDrain ::
    "entryMap \<Rightarrow> string \<Rightarrow> time \<Rightarrow> (scheduledAuth \<Rightarrow> bool) \<Rightarrow> quotaDrainPin \<Rightarrow> readyView \<Rightarrow>
     scheduledAuth option \<times> readyView \<times> quotaDrainPin" where
  "pickQuotaDrain entries model now predicate pin v =
     (let flat = deref entries (rv_flat v)
      in if flat = [] then (None, v, pin)
         else let start = scheduledSuccessorIndex flat (rv_lastPicked v);
                  kept = filter (\<lambda>e. \<not> quotaCapacityExhausted (se_auth e) model now) (rotate start flat);
                  candidates = map (\<lambda>e. \<lparr>cand_id = se_id e,
                                         cand_rank = quotaCapacityRank (se_auth e) model now,
                                         cand_allowed = predicate e\<rparr>) kept;
                  (picked, pin') = pickQuotaPinned (Some pin) candidates [0..<length candidates];
                  pin' = (case pin' of None \<Rightarrow> pin | Some p \<Rightarrow> p)
              in case picked of
                   None \<Rightarrow> (None, v, pin')
                 | Some i \<Rightarrow> (Some (kept ! i), v\<lparr>rv_lastPicked := se_id (kept ! i)\<rparr>, pin'))"

definition hasQuotaDrainCandidate ::
    "string \<Rightarrow> time \<Rightarrow> (scheduledAuth \<Rightarrow> bool) \<Rightarrow> scheduledAuth list \<Rightarrow> bool" where
  "hasQuotaDrainCandidate model now predicate flat \<longleftrightarrow>
     list_ex (\<lambda>e. predicate e \<and> \<not> quotaCapacityExhausted (se_auth e) model now) flat"

section \<open>Indexes\<close>

definition snapshotReadyViewCursors :: "readyView \<Rightarrow> readyViewCursorState" where
  "snapshotReadyViewCursors view =
     \<lparr>cur_lastPicked = rv_lastPicked view, cur_weightedState = rv_weightedState view\<rparr>"

definition restoreReadyViewCursors :: "entryMap \<Rightarrow> readyView \<Rightarrow> readyViewCursorState \<Rightarrow> readyView" where
  "restoreReadyViewCursors entries view state =
     (let view = view\<lparr>rv_lastPicked := cur_lastPicked state\<rparr>;
          flat = deref entries (rv_flat view);
          weights = scheduledWeightVector flat;
          saved = cur_weightedState state
      in if sw_current saved = [] \<or> weightsConfigChanged (sw_weights saved) weights then view
         else let current = fold (\<lambda>entry current.
                              case map_of (sw_current saved) (se_id entry) of
                                Some val \<Rightarrow> AList.update (se_id entry) val current
                              | None \<Rightarrow> current) flat []
              in view\<lparr>rv_weightedState := \<lparr>sw_current = current, sw_weights = weights\<rparr>\<rparr>)"

definition buildReadyView :: "scheduledAuth list \<Rightarrow> readyView" where
  "buildReadyView entries =
     \<lparr>rv_flat = map se_id entries, rv_lastPicked = '''', rv_weightedState = empty_weighted\<rparr>"

definition buildReadyBucket :: "scheduledAuth list \<Rightarrow> readyBucket" where
  "buildReadyBucket entries =
     \<lparr>rb_all = buildReadyView entries,
      rb_ws = buildReadyView (filter (\<lambda>e. m_websocketEnabled (se_meta e)) entries)\<rparr>"

text \<open>The order of the queue of blocked entries: by the time of the retry, those without one last.\<close>

definition blockedLess :: "scheduledAuth \<Rightarrow> scheduledAuth \<Rightarrow> bool" where
  "blockedLess left right \<longleftrightarrow>
     (if se_nextRetryAt left = se_nextRetryAt right then se_id left < se_id right
      else if se_nextRetryAt left = 0 then False
      else if se_nextRetryAt right = 0 then True
      else se_nextRetryAt left < se_nextRetryAt right)"

definition bucketCursors :: "readyBucket \<Rightarrow> readyBucketCursorState" where
  "bucketCursors bucket = \<lparr>cur_all = snapshotReadyViewCursors (rb_all bucket),
                           cur_ws = snapshotReadyViewCursors (rb_ws bucket)\<rparr>"

definition rebuildBucket ::
    "entryMap \<Rightarrow> readyBucketCursorState option \<Rightarrow> scheduledAuth list \<Rightarrow> readyBucket" where
  "rebuildBucket entries cursorState ready =
     (let bucket = buildReadyBucket (sort_key se_id ready)
      in case cursorState of
           None \<Rightarrow> bucket
         | Some st \<Rightarrow> \<lparr>rb_all = restoreReadyViewCursors entries (rb_all bucket) (cur_all st),
                       rb_ws = restoreReadyViewCursors entries (rb_ws bucket) (cur_ws st)\<rparr>)"

definition rebuildIndexesLocked :: "modelScheduler \<Rightarrow> modelScheduler" where
  "rebuildIndexesLocked m =
     (let cursorStates = map (\<lambda>(priority, bucket). (priority, bucketCursors bucket)) (sh_readyByPriority m);
          all = map snd (sh_entries m);
          ready = filter (\<lambda>e. se_state e = scheduledStateReady) all;
          priorities = remdups (map (\<lambda>e. m_priority (se_meta e)) ready);
          blocked = filter (\<lambda>e. se_state e = scheduledStateCooldown \<or> se_state e = scheduledStateBlocked) all
      in m\<lparr>sh_readyByPriority := map (\<lambda>priority.
             (priority, rebuildBucket (sh_entries m) (map_of cursorStates priority)
                          (filter (\<lambda>e. m_priority (se_meta e) = priority) ready))) priorities,
           sh_priorityOrder := rev (sort priorities),
           sh_blocked := map se_id (slice_stable blockedLess blocked)\<rparr>)"

section \<open>Entries\<close>

text \<open>How the verdict of the availability test becomes a state, the same in all three places.\<close>

fun classifyState :: "bool \<times> blockReason \<times> time \<Rightarrow> scheduledState \<times> time" where
  "classifyState (blocked, reason, next) =
     (if \<not> blocked then (scheduledStateReady, 0)
      else if reason = blockReasonCooldown then (scheduledStateCooldown, next)
      else if reason = blockReasonDisabled then (scheduledStateDisabled, 0)
      else (scheduledStateBlocked, next))"

definition evaluateEntry :: "string \<Rightarrow> time \<Rightarrow> scheduledAuthMeta \<Rightarrow> scheduledAuth" where
  "evaluateEntry modelKey now meta =
     (let (state, next) = classifyState (isAuthBlockedForModel (m_auth meta) modelKey now)
      in \<lparr>se_meta = meta, se_state = state, se_nextRetryAt = next\<rparr>)"

definition upsertEntryLocked :: "scheduledAuthMeta \<Rightarrow> time \<Rightarrow> modelScheduler \<Rightarrow> modelScheduler" where
  "upsertEntryLocked meta now m =
     (let previous = map_of (sh_entries m) (m_id meta);
          entry = evaluateEntry (sh_modelKey m) now meta;
          m = m\<lparr>sh_entries := AList.update (m_id meta) entry (sh_entries m)\<rparr>
      in case previous of
           None \<Rightarrow> rebuildIndexesLocked m
         | Some p \<Rightarrow>
             (if se_state p = se_state entry \<and> se_nextRetryAt p = se_nextRetryAt entry \<and>
                 m_priority (se_meta p) = m_priority meta \<and>
                 m_websocketEnabled (se_meta p) = m_websocketEnabled meta
              then m else rebuildIndexesLocked m))"

definition removeEntryLocked :: "string \<Rightarrow> modelScheduler \<Rightarrow> modelScheduler" where
  "removeEntryLocked authID m =
     (if authID = '''' then m
      else if map_of (sh_entries m) authID = None then m
      else rebuildIndexesLocked (m\<lparr>sh_entries := AList.delete authID (sh_entries m)\<rparr>))"

definition mustDemote :: "string \<Rightarrow> time \<Rightarrow> scheduledAuth \<Rightarrow> bool" where
  "mustDemote modelKey now e \<longleftrightarrow> se_state e = scheduledStateReady \<and> tokenExpired (se_auth e) now \<and>
     fst (isAuthBlockedForModel (se_auth e) modelKey now)"

definition demoteExpiredTokensLocked :: "time \<Rightarrow> modelScheduler \<Rightarrow> bool \<times> modelScheduler" where
  "demoteExpiredTokensLocked now m =
     (list_ex (\<lambda>(i, e). mustDemote (sh_modelKey m) now e) (sh_entries m),
      m\<lparr>sh_entries := map (\<lambda>(i, e). (i, if mustDemote (sh_modelKey m) now e
                                         then evaluateEntry (sh_modelKey m) now (se_meta e) else e))
                          (sh_entries m)\<rparr>)"

definition promoteStep :: "string \<Rightarrow> time \<Rightarrow> string \<Rightarrow> bool \<times> entryMap \<Rightarrow> bool \<times> entryMap" where
  "promoteStep modelKey now i = (\<lambda>(changed, entries).
     case map_of entries i of
       None \<Rightarrow> (changed, entries)
     | Some e \<Rightarrow>
         (if se_nextRetryAt e = 0 \<or> se_nextRetryAt e > now then (changed, entries)
          else (True, AList.update i (evaluateEntry modelKey now (se_meta e)) entries)))"

definition promoteExpiredLocked :: "time \<Rightarrow> modelScheduler \<Rightarrow> modelScheduler" where
  "promoteExpiredLocked now m =
     (let (changed, m) = demoteExpiredTokensLocked now m;
          (changed, entries) = fold (promoteStep (sh_modelKey m) now) (sh_blocked m) (changed, sh_entries m);
          m = m\<lparr>sh_entries := entries\<rparr>
      in if changed then rebuildIndexesLocked m else m)"

section \<open>Picking\<close>

abbreviation flatAll :: "modelScheduler \<Rightarrow> readyBucket \<Rightarrow> scheduledAuth list" where
  "flatAll m bucket \<equiv> deref (sh_entries m) (rv_flat (rb_all bucket))"

abbreviation flatWs :: "modelScheduler \<Rightarrow> readyBucket \<Rightarrow> scheduledAuth list" where
  "flatWs m bucket \<equiv> deref (sh_entries m) (rv_flat (rb_ws bucket))"

text \<open>The first priority, from the highest, whose bucket passes a test on one of its views.\<close>

definition firstPriority :: "modelScheduler \<Rightarrow> (readyBucket \<Rightarrow> bool) \<Rightarrow> int option" where
  "firstPriority m test =
     find (\<lambda>priority. case map_of (sh_readyByPriority m) priority of
                        None \<Rightarrow> False | Some bucket \<Rightarrow> test bucket)
       (sh_priorityOrder m)"

definition highestReadyPriorityLocked ::
    "modelScheduler \<Rightarrow> bool \<Rightarrow> (scheduledAuth \<Rightarrow> bool) \<Rightarrow> int option" where
  "highestReadyPriorityLocked m preferWebsocket predicate =
     (case (if preferWebsocket then firstPriority m (\<lambda>b. pickFirst predicate (flatWs m b) \<noteq> None) else None) of
        Some priority \<Rightarrow> Some priority
      | None \<Rightarrow> firstPriority m (\<lambda>b. pickFirst predicate (flatAll m b) \<noteq> None))"

definition highestSelectablePriorityLocked ::
    "modelScheduler \<Rightarrow> bool \<Rightarrow> schedulerStrategy \<Rightarrow> (scheduledAuth \<Rightarrow> bool) \<Rightarrow> time \<Rightarrow> int option" where
  "highestSelectablePriorityLocked m preferWebsocket strategy predicate now =
     (if strategy \<noteq> schedulerStrategyQuotaDrain
      then highestReadyPriorityLocked m preferWebsocket predicate
      else case (if preferWebsocket
                 then firstPriority m (\<lambda>b. hasQuotaDrainCandidate (sh_modelKey m) now predicate (flatWs m b))
                 else None) of
             Some priority \<Rightarrow> Some priority
           | None \<Rightarrow> firstPriority m (\<lambda>b. hasQuotaDrainCandidate (sh_modelKey m) now predicate (flatAll m b)))"

definition useWebsocketView ::
    "modelScheduler \<Rightarrow> bool \<Rightarrow> schedulerStrategy \<Rightarrow> (scheduledAuth \<Rightarrow> bool) \<Rightarrow> time \<Rightarrow> readyBucket \<Rightarrow> bool" where
  "useWebsocketView m preferWebsocket strategy predicate now bucket \<longleftrightarrow> preferWebsocket \<and>
     (if strategy = schedulerStrategyQuotaDrain
      then hasQuotaDrainCandidate (sh_modelKey m) now predicate (flatWs m bucket)
      else pickFirst predicate (flatWs m bucket) \<noteq> None)"

definition pickFromView ::
    "modelScheduler \<Rightarrow> schedulerStrategy \<Rightarrow> (scheduledAuth \<Rightarrow> bool) \<Rightarrow> time \<Rightarrow> quotaDrainPin \<Rightarrow> readyView \<Rightarrow>
     scheduledAuth option \<times> readyView \<times> quotaDrainPin" where
  "pickFromView m strategy predicate now pin view =
     (case strategy of
        schedulerStrategyFillFirst \<Rightarrow> (pickFirst predicate (deref (sh_entries m) (rv_flat view)), view, pin)
      | schedulerStrategyQuotaDrain \<Rightarrow>
          pickQuotaDrain (sh_entries m) (sh_modelKey m) now predicate pin view
      | schedulerStrategyWeightedRoundRobin \<Rightarrow>
          (let (picked, view) = pickWeighted (sh_entries m) predicate view in (picked, view, pin))
      | _ \<Rightarrow> (let (picked, view) = pickRoundRobin (sh_entries m) predicate view in (picked, view, pin)))"

definition pickReadyAtPriorityLocked ::
    "bool \<Rightarrow> int \<Rightarrow> schedulerStrategy \<Rightarrow> (scheduledAuth \<Rightarrow> bool) \<Rightarrow> time \<Rightarrow> quotaDrainPin \<Rightarrow> modelScheduler \<Rightarrow>
     Auth option \<times> modelScheduler \<times> quotaDrainPin" where
  "pickReadyAtPriorityLocked preferWebsocket priority strategy predicate now pin m =
     (case map_of (sh_readyByPriority m) priority of
        None \<Rightarrow> (None, m, pin)
      | Some bucket \<Rightarrow>
          (if useWebsocketView m preferWebsocket strategy predicate now bucket
           then let (picked, view, pin) = pickFromView m strategy predicate now pin (rb_ws bucket)
                in (map_option se_auth picked,
                    m\<lparr>sh_readyByPriority := AList.update priority (bucket\<lparr>rb_ws := view\<rparr>) (sh_readyByPriority m)\<rparr>,
                    pin)
           else let (picked, view, pin) = pickFromView m strategy predicate now pin (rb_all bucket)
                in (map_option se_auth picked,
                    m\<lparr>sh_readyByPriority := AList.update priority (bucket\<lparr>rb_all := view\<rparr>) (sh_readyByPriority m)\<rparr>,
                    pin)))"

definition pickReadyLocked ::
    "bool \<Rightarrow> schedulerStrategy \<Rightarrow> (scheduledAuth \<Rightarrow> bool) \<Rightarrow> time \<Rightarrow> quotaDrainPin \<Rightarrow> modelScheduler \<Rightarrow>
     Auth option \<times> modelScheduler \<times> quotaDrainPin" where
  "pickReadyLocked preferWebsocket strategy predicate now pin m =
     (let m = promoteExpiredLocked now m
      in case highestSelectablePriorityLocked m preferWebsocket strategy predicate now of
           None \<Rightarrow> (None, m, pin)
         | Some priority \<Rightarrow>
             pickReadyAtPriorityLocked preferWebsocket priority strategy predicate now pin m)"

definition readyCountAtPriorityLocked ::
    "modelScheduler \<Rightarrow> bool \<Rightarrow> int \<Rightarrow> (scheduledAuth \<Rightarrow> bool) \<Rightarrow> nat" where
  "readyCountAtPriorityLocked m preferWebsocket priority predicate =
     (case map_of (sh_readyByPriority m) priority of
        None \<Rightarrow> 0
      | Some bucket \<Rightarrow>
          (let flat = (if preferWebsocket \<and> pickFirst predicate (flatWs m bucket) \<noteq> None
                       then flatWs m bucket else flatAll m bucket)
           in length (filter predicate flat)))"

definition selectableCountAtPriorityLocked ::
    "modelScheduler \<Rightarrow> bool \<Rightarrow> int \<Rightarrow> schedulerStrategy \<Rightarrow> (scheduledAuth \<Rightarrow> bool) \<Rightarrow> time \<Rightarrow> nat" where
  "selectableCountAtPriorityLocked m preferWebsocket priority strategy predicate now =
     (if strategy \<noteq> schedulerStrategyQuotaDrain
      then readyCountAtPriorityLocked m preferWebsocket priority predicate
      else case map_of (sh_readyByPriority m) priority of
        None \<Rightarrow> 0
      | Some bucket \<Rightarrow>
          (let flat = (if preferWebsocket \<and>
                          hasQuotaDrainCandidate (sh_modelKey m) now predicate (flatWs m bucket)
                       then flatWs m bucket else flatAll m bucket)
           in length (filter (\<lambda>e. predicate e \<and> \<not> quotaCapacityExhausted (se_auth e) (sh_modelKey m) now) flat)))"

section \<open>Errors\<close>

definition quotaDrainSummaryStep ::
    "string \<Rightarrow> time \<Rightarrow> (scheduledAuth \<Rightarrow> bool) \<Rightarrow> scheduledAuth \<Rightarrow> nat \<times> nat \<times> time \<Rightarrow> nat \<times> nat \<times> time" where
  "quotaDrainSummaryStep model now predicate entry = (\<lambda>(total, unavailableCount, earliest).
     if \<not> predicate entry then (total, unavailableCount, earliest)
     else let rank = quotaCapacityRank (se_auth entry) model now;
              later = (\<lambda>retryAt. if retryAt \<noteq> 0 \<and> (earliest = 0 \<or> retryAt < earliest) then retryAt else earliest)
          in case se_state entry of
               scheduledStateCooldown \<Rightarrow> (total + 1, unavailableCount + 1, later (se_nextRetryAt entry))
             | scheduledStateReady \<Rightarrow>
                 (if \<not> rank_known rank \<or> \<not> rank_exhausted rank then (total + 1, unavailableCount, earliest)
                  else (total + 1, unavailableCount + 1, later (rank_resetAt rank)))
             | _ \<Rightarrow> (total + 1, unavailableCount, earliest))"

definition quotaDrainAvailabilitySummaryLocked ::
    "modelScheduler \<Rightarrow> (scheduledAuth \<Rightarrow> bool) \<Rightarrow> time \<Rightarrow> nat \<times> nat \<times> time" where
  "quotaDrainAvailabilitySummaryLocked m predicate now =
     fold (quotaDrainSummaryStep (sh_modelKey m) now predicate) (map snd (sh_entries m)) (0, 0, 0)"

definition quotaDrainUnavailableErrorLocked ::
    "modelScheduler \<Rightarrow> string \<Rightarrow> string \<Rightarrow> (scheduledAuth \<Rightarrow> bool) \<Rightarrow> time \<Rightarrow> GoError option" where
  "quotaDrainUnavailableErrorLocked m provider model predicate now =
     (let (total, unavailableCount, earliest) = quotaDrainAvailabilitySummaryLocked m predicate now
      in if total = 0 \<or> unavailableCount \<noteq> total \<or> earliest = 0 then None
         else Some (newModelCooldownErrorWithCause model (providerForError provider) (time_sub earliest now) None))"

definition summaryStep ::
    "(scheduledAuth \<Rightarrow> bool) \<Rightarrow> scheduledAuth \<Rightarrow> nat \<times> nat \<times> nat \<times> time \<Rightarrow> nat \<times> nat \<times> nat \<times> time" where
  "summaryStep predicate entry = (\<lambda>(total, cooldownCount, unauthorizedCount, earliest).
     if \<not> predicate entry then (total, cooldownCount, unauthorizedCount, earliest)
     else (total + 1,
           if se_state entry = scheduledStateCooldown then cooldownCount + 1 else cooldownCount,
           if hasUnauthorizedAuthFailure (se_auth entry) then unauthorizedCount + 1 else unauthorizedCount,
           if (se_state entry = scheduledStateCooldown \<or> se_state entry = scheduledStateBlocked) \<and>
              se_nextRetryAt entry \<noteq> 0 \<and> (earliest = 0 \<or> se_nextRetryAt entry < earliest)
           then se_nextRetryAt entry else earliest))"

definition availabilitySummaryLocked ::
    "modelScheduler \<Rightarrow> (scheduledAuth \<Rightarrow> bool) \<Rightarrow> nat \<times> nat \<times> nat \<times> time" where
  "availabilitySummaryLocked m predicate =
     fold (summaryStep predicate) (map snd (sh_entries m)) (0, 0, 0, 0)"

text \<open>An error with the time and the credential it was recorded for; the latest one is kept.\<close>

type_synonym datedError = "GoError \<times> time \<times> string"

definition laterError :: "datedError option \<Rightarrow> datedError option \<Rightarrow> datedError option" where
  "laterError cur latest =
     (case cur of
        None \<Rightarrow> latest
      | Some (err, t, i) \<Rightarrow>
          (case latest of
             None \<Rightarrow> Some (err, t, i)
           | Some (_, lt, li) \<Rightarrow> if t > lt \<or> (t = lt \<and> i > li) then Some (err, t, i) else latest))"

definition stateError :: "ModelState \<Rightarrow> (GoError \<times> time) option" where
  "stateError state =
     (case ms_LastError state of
        Some e \<Rightarrow> Some (PlainError e, ms_UpdatedAt state)
      | None \<Rightarrow> if trim_space (ms_StatusMessage state) \<noteq> ''''
                then Some (TextError (ms_StatusMessage state), ms_UpdatedAt state) else None)"

definition modelErrorOf :: "Auth \<Rightarrow> string \<Rightarrow> string \<Rightarrow> datedError option" where
  "modelErrorOf a model modelKey =
     (let found = (case map_of (auth_ModelStates a) model of
                     Some (Some state) \<Rightarrow> stateError state
                   | _ \<Rightarrow> (case map_of (auth_ModelStates a) modelKey of
                             Some (Some state) \<Rightarrow> stateError state
                           | _ \<Rightarrow> None))
      in case found of
           None \<Rightarrow> None
         | Some (err, t) \<Rightarrow> Some (err, if t = 0 then auth_UpdatedAt a else t, auth_ID a))"

definition authErrorOf :: "Auth \<Rightarrow> datedError option" where
  "authErrorOf a =
     (case auth_LastError a of
        Some e \<Rightarrow> Some (PlainError e, auth_UpdatedAt a, auth_ID a)
      | None \<Rightarrow> if trim_space (auth_StatusMessage a) \<noteq> ''''
                then Some (TextError (auth_StatusMessage a), auth_UpdatedAt a, auth_ID a) else None)"

definition candidateErrorsLocked ::
    "modelScheduler \<Rightarrow> string \<Rightarrow> (scheduledAuth \<Rightarrow> bool) \<Rightarrow> datedError option \<times> datedError option" where
  "candidateErrorsLocked m model predicate =
     fold (\<lambda>entry (modelErr, authErr).
         if \<not> predicate entry then (modelErr, authErr)
         else (laterError (modelErrorOf (se_auth entry) model (canonicalModelKey model)) modelErr,
               laterError (authErrorOf (se_auth entry)) authErr))
       (map snd (sh_entries m)) (None, None)"

definition latestCandidateErrorWithTimeLocked ::
    "modelScheduler \<Rightarrow> string \<Rightarrow> (scheduledAuth \<Rightarrow> bool) \<Rightarrow> datedError option" where
  "latestCandidateErrorWithTimeLocked m model predicate =
     (case candidateErrorsLocked m model predicate of
        (Some modelErr, _) \<Rightarrow> Some modelErr
      | (None, authErr) \<Rightarrow> authErr)"

definition terminalError :: "GoError option \<Rightarrow> GoError" where
  "terminalError cause = NewTerminalAuthError
     \<lparr>err_Code = ''auth_unavailable'', err_Message = ''no auth available'', err_Retryable = False,
      err_HTTPStatus = 503\<rparr> cause"

text \<open>
  The error for a request that found no credential, from the counts over the candidates; the same
  for one shard and for several.
\<close>

definition unavailableError ::
    "string \<Rightarrow> string \<Rightarrow> time \<Rightarrow> nat \<times> nat \<times> nat \<times> time \<Rightarrow> GoError option \<Rightarrow> GoError option \<Rightarrow> GoError" where
  "unavailableError model provider now = (\<lambda>(total, cooldownCount, unauthorizedCount, earliest) authErr lastErr.
     if total = 0 then WithCause (plain_error ''auth_not_found'' ''no auth available'') lastErr
     else if cooldownCount = total \<and> earliest \<noteq> 0
     then newModelCooldownErrorWithCause model provider
            (let resetIn = time_sub earliest now in if resetIn < 0 then 0 else resetIn) lastErr
     else if unauthorizedCount = total
     then terminalError (case authErr of None \<Rightarrow> lastErr | Some e \<Rightarrow> Some e)
     else newAuthUnavailableErrorWithCause earliest now lastErr)"

definition unavailableErrorLocked ::
    "modelScheduler \<Rightarrow> string \<Rightarrow> string \<Rightarrow> (scheduledAuth \<Rightarrow> bool) \<Rightarrow> time \<Rightarrow> GoError" where
  "unavailableErrorLocked m provider model predicate now =
     unavailableError model (providerForError provider) now (availabilitySummaryLocked m predicate)
       (map_option fst (snd (candidateErrorsLocked m model predicate)))
       (map_option fst (latestCandidateErrorWithTimeLocked m model predicate))"

section \<open>The invariant of a shard\<close>

abbreviation entryAt :: "modelScheduler \<Rightarrow> string \<Rightarrow> scheduledAuth option" where
  "entryAt m \<equiv> map_of (sh_entries m)"

definition readyIDs :: "modelScheduler \<Rightarrow> int \<Rightarrow> string set" where
  "readyIDs m p = {i. \<exists>e. entryAt m i = Some e \<and> se_state e = scheduledStateReady \<and>
                        m_priority (se_meta e) = p}"

definition wsIDs :: "modelScheduler \<Rightarrow> int \<Rightarrow> string set" where
  "wsIDs m p = {i. \<exists>e. entryAt m i = Some e \<and> se_state e = scheduledStateReady \<and>
                     m_priority (se_meta e) = p \<and> m_websocketEnabled (se_meta e)}"

definition blockedIDs :: "modelScheduler \<Rightarrow> string set" where
  "blockedIDs m = {i. \<exists>e. entryAt m i = Some e \<and>
     (se_state e = scheduledStateCooldown \<or> se_state e = scheduledStateBlocked)}"

text \<open>Entries are stored under the identifier of their credential.\<close>

definition keyed :: "modelScheduler \<Rightarrow> bool" where
  "keyed m \<longleftrightarrow> wf_map (sh_entries m) \<and> (\<forall>i e. entryAt m i = Some e \<longrightarrow> se_id e = i)"

text \<open>The indexes say of the entries what a rebuild would say.\<close>

definition bucketOk :: "modelScheduler \<Rightarrow> int \<Rightarrow> readyBucket option \<Rightarrow> bool" where
  "bucketOk m p b \<longleftrightarrow>
     (case b of
        None \<Rightarrow> readyIDs m p = {}
      | Some bucket \<Rightarrow> readyIDs m p \<noteq> {} \<and>
          rv_flat (rb_all bucket) = sorted_list_of_set (readyIDs m p) \<and>
          rv_flat (rb_ws bucket) = sorted_list_of_set (wsIDs m p))"

definition indexed :: "modelScheduler \<Rightarrow> bool" where
  "indexed m \<longleftrightarrow> wf_map (sh_readyByPriority m) \<and>
     (\<forall>p. bucketOk m p (map_of (sh_readyByPriority m) p)) \<and>
     sorted_wrt (>) (sh_priorityOrder m) \<and> set (sh_priorityOrder m) = fst ` set (sh_readyByPriority m) \<and>
     set (sh_blocked m) = blockedIDs m"

text \<open>Every entry carries the verdict of an earlier evaluation.\<close>

definition evaluatedBy :: "string \<Rightarrow> time \<Rightarrow> scheduledAuth \<Rightarrow> bool" where
  "evaluatedBy modelKey t e \<longleftrightarrow> (\<exists>t0. 0 \<le> t0 \<and> t0 \<le> t \<and> e = evaluateEntry modelKey t0 (se_meta e))"

definition shard_ok :: "time \<Rightarrow> modelScheduler \<Rightarrow> bool" where
  "shard_ok t m \<longleftrightarrow> keyed m \<and> indexed m \<and>
     (\<forall>i e. entryAt m i = Some e \<longrightarrow> evaluatedBy (sh_modelKey m) t e)"

lemma evaluateEntry_sel [simp]:
  "se_meta (evaluateEntry k now meta) = meta"
  "se_state (evaluateEntry k now meta) = fst (classifyState (isAuthBlockedForModel (m_auth meta) k now))"
  "se_nextRetryAt (evaluateEntry k now meta) = snd (classifyState (isAuthBlockedForModel (m_auth meta) k now))"
  by (simp_all add: evaluateEntry_def split: prod.split)

lemma evaluateEntry_ready_iff [simp]:
  "fst (classifyState v) = scheduledStateReady \<longleftrightarrow> \<not> fst v"
  by (cases v rule: prod_cases3) auto

lemma evaluatedBy_now [intro]: "0 \<le> now \<Longrightarrow> evaluatedBy k now (evaluateEntry k now meta)"
  by (auto simp: evaluatedBy_def)

lemma evaluatedBy_mono: "evaluatedBy k t e \<Longrightarrow> t \<le> t' \<Longrightarrow> evaluatedBy k t' e"
  by (meson evaluatedBy_def order_trans)

lemma finite_readyIDs [simp]: "finite (readyIDs m p)" "finite (wsIDs m p)"
proof -
  have "readyIDs m p \<subseteq> dom (entryAt m)" "wsIDs m p \<subseteq> dom (entryAt m)"
    by (auto simp: readyIDs_def wsIDs_def)
  then show "finite (readyIDs m p)" "finite (wsIDs m p)"
    by (simp_all add: finite_subset [OF _ finite_dom_map_of])
qed

lemma indexes_of_entries:
  "readyIDs (m\<lparr>sh_readyByPriority := r, sh_priorityOrder := o', sh_blocked := b\<rparr>) = readyIDs m"
  "wsIDs (m\<lparr>sh_readyByPriority := r, sh_priorityOrder := o', sh_blocked := b\<rparr>) = wsIDs m"
  "blockedIDs (m\<lparr>sh_readyByPriority := r, sh_priorityOrder := o', sh_blocked := b\<rparr>) = blockedIDs m"
  "readyIDs (m\<lparr>sh_readyByPriority := r\<rparr>) = readyIDs m"
  "wsIDs (m\<lparr>sh_readyByPriority := r\<rparr>) = wsIDs m"
  "blockedIDs (m\<lparr>sh_readyByPriority := r\<rparr>) = blockedIDs m"
  by (simp_all add: fun_eq_iff readyIDs_def wsIDs_def blockedIDs_def)

lemma keyed_indexes [simp]:
  "keyed (m\<lparr>sh_readyByPriority := r, sh_priorityOrder := o', sh_blocked := b\<rparr>) = keyed m"
  "keyed (m\<lparr>sh_readyByPriority := r\<rparr>) = keyed m"
  by (simp_all add: keyed_def)

text \<open>The identifiers of the entries that pass a test, sorted, whichever way they are computed.\<close>

lemma sorted_ids:
  assumes "keyed m"
  shows "map se_id (sort_key se_id (filter P (map snd (sh_entries m)))) =
         sorted_list_of_set {i. \<exists>e. entryAt m i = Some e \<and> P e}"
proof -
  have wf: "wf_map (sh_entries m)" and k: "\<And>i e. (i, e) \<in> set (sh_entries m) \<Longrightarrow> se_id e = i"
    using assms by (auto simp: keyed_def)
  have "map se_id (filter P (map snd (sh_entries m))) = map (\<lambda>x. se_id (snd x)) (filter (P \<circ> snd) (sh_entries m))"
    by (simp add: filter_map comp_def)
  also have "\<dots> = map fst (filter (P \<circ> snd) (sh_entries m))"
    by (rule map_cong [OF refl]) (metis k filter_is_subset prod.collapse subsetD)
  finally have ids: "map se_id (filter P (map snd (sh_entries m))) = map fst (filter (P \<circ> snd) (sh_entries m))" .
  have eq: "set (map fst (filter (P \<circ> snd) (sh_entries m))) = {i. \<exists>e. entryAt m i = Some e \<and> P e}"
    unfolding map_of_eq_Some_iff [OF wf] by (auto intro: rev_image_eqI)
  have "distinct (map fst (filter (P \<circ> snd) (sh_entries m)))"
    using wf by (rule distinct_map_filter)
  then have "sorted_list_of_set {i. \<exists>e. entryAt m i = Some e \<and> P e} =
      sort (map fst (filter (P \<circ> snd) (sh_entries m)))"
    unfolding eq [symmetric] sorted_list_of_set_sort_remdups by (simp only: distinct_remdups_id)
  also have "\<dots> = map se_id (sort_key se_id (filter P (map snd (sh_entries m))))"
    unfolding ids [symmetric] by (rule properties_for_sort) simp_all
  finally show ?thesis by simp
qed

lemma ids_of_entries:
  assumes "keyed m"
  shows "se_id ` {e. (\<exists>i. entryAt m i = Some e) \<and> Q e} = {i. \<exists>e. entryAt m i = Some e \<and> Q e}"
proof -
  have k: "entryAt m i = Some e \<Longrightarrow> se_id e = i" for i e using assms by (simp add: keyed_def)
  show ?thesis
  proof (intro set_eqI iffI)
    fix j assume "j \<in> se_id ` {e. (\<exists>i. entryAt m i = Some e) \<and> Q e}"
    then obtain i e where "entryAt m i = Some e" "Q e" "j = se_id e" by blast
    with k [of i e] show "j \<in> {i. \<exists>e. entryAt m i = Some e \<and> Q e}" by auto
  next
    fix j assume "j \<in> {i. \<exists>e. entryAt m i = Some e \<and> Q e}"
    then obtain e where e: "entryAt m j = Some e" "Q e" by blast
    show "j \<in> se_id ` {e. (\<exists>i. entryAt m i = Some e) \<and> Q e}"
      by (rule image_eqI [of _ _ e]) (use e k [OF e(1)] in auto)
  qed
qed

lemma restore_flat [simp]: "rv_flat (restoreReadyViewCursors entries view st) = rv_flat view"
  by (simp add: restoreReadyViewCursors_def Let_def)

lemma rebuildBucket_flat:
  "rv_flat (rb_all (rebuildBucket entries st ready)) = map se_id (sort_key se_id ready)"
  "rv_flat (rb_ws (rebuildBucket entries st ready)) =
     map se_id (sort_key se_id (filter (\<lambda>e. m_websocketEnabled (se_meta e)) ready))"
  by (simp_all add: rebuildBucket_def Let_def buildReadyBucket_def buildReadyView_def filter_sort
      split: option.split)

lemma sorted_rev_sort:
  assumes "distinct xs"
  shows "sorted_wrt (>) (rev (sort xs))"
proof -
  have "sorted_wrt (<) (sort xs)" using assms by (simp add: strict_sorted_iff)
  then show ?thesis by (simp add: sorted_wrt_rev)
qed

lemma rebuild_entries [simp]:
  "sh_entries (rebuildIndexesLocked m) = sh_entries m" "sh_modelKey (rebuildIndexesLocked m) = sh_modelKey m"
  by (simp_all add: rebuildIndexesLocked_def Let_def)

lemma rebuild_indexed:
  assumes "keyed m"
  shows "indexed (rebuildIndexesLocked m)"
proof -
  define ready where "ready = filter (\<lambda>e. se_state e = scheduledStateReady) (map snd (sh_entries m))"
  define ps where "ps = remdups (map (\<lambda>e. m_priority (se_meta e)) ready)"
  define bucket where "bucket p = rebuildBucket (sh_entries m)
      (map_of (map (\<lambda>(priority, bucket). (priority, bucketCursors bucket)) (sh_readyByPriority m)) p)
      (filter (\<lambda>e. m_priority (se_meta e) = p) ready)" for p
  let ?r = "rebuildIndexesLocked m"
  have r: "sh_readyByPriority ?r = map (\<lambda>p. (p, bucket p)) ps" "sh_priorityOrder ?r = rev (sort ps)"
    "sh_blocked ?r = map se_id (slice_stable blockedLess (filter (\<lambda>e. se_state e = scheduledStateCooldown \<or>
        se_state e = scheduledStateBlocked) (map snd (sh_entries m))))"
    by (simp_all add: rebuildIndexesLocked_def Let_def bucket_def ps_def ready_def)
  have all: "(e \<in> snd ` set (sh_entries m)) = (\<exists>i. entryAt m i = Some e)" for e
    unfolding map_of_eq_Some_iff [OF conjunct1 [OF assms [unfolded keyed_def]]] by force
  have in_ready: "e \<in> set ready \<longleftrightarrow> (\<exists>i. entryAt m i = Some e) \<and> se_state e = scheduledStateReady" for e
    using all [of e] by (auto simp: ready_def)
  have flat: "rv_flat (rb_all (bucket p)) = sorted_list_of_set (readyIDs m p)"
    "rv_flat (rb_ws (bucket p)) = sorted_list_of_set (wsIDs m p)" for p
    unfolding bucket_def rebuildBucket_flat ready_def filter_filter
    by (simp_all add: sorted_ids [OF assms] readyIDs_def wsIDs_def conj_commute conj_left_commute)
  have ps: "p \<in> set ps \<longleftrightarrow> readyIDs m p \<noteq> {}" for p
  proof -
    have "p \<in> set ps \<longleftrightarrow> (\<exists>e \<in> set ready. m_priority (se_meta e) = p)" by (auto simp: ps_def)
    then show ?thesis using in_ready unfolding readyIDs_def by blast
  qed
  have "map_of (map (\<lambda>p. (p, bucket p)) ps) p = (if p \<in> set ps then Some (bucket p) else None)" for p
    by (simp add: map_of_map_restrict)
  moreover have "set (sh_blocked ?r) = blockedIDs m"
  proof -
    have "set (slice_stable lt xs) = set xs" for lt and xs :: "scheduledAuth list"
      by (metis mset_slice_stable set_mset_mset)
    then have "set (sh_blocked ?r) = se_id ` {e. (\<exists>i. entryAt m i = Some e) \<and>
        (se_state e = scheduledStateCooldown \<or> se_state e = scheduledStateBlocked)}"
      using all by (simp add: r)
    then show ?thesis by (simp only: ids_of_entries [OF assms] blockedIDs_def)
  qed
  moreover have "readyIDs ?r p = readyIDs m p" "wsIDs ?r p = wsIDs m p" "blockedIDs ?r = blockedIDs m" for p
    by (simp_all add: readyIDs_def wsIDs_def blockedIDs_def)
  moreover have "distinct ps" by (simp add: ps_def)
  ultimately show ?thesis
    using flat ps unfolding indexed_def
    by (simp add: r bucketOk_def comp_def sorted_rev_sort image_image)
qed

lemma keyed_rebuild [simp]: "keyed (rebuildIndexesLocked m) = keyed m"
  by (simp add: keyed_def)

section \<open>Operations keep the invariant\<close>

lemma upsert_entries [simp]:
  "sh_entries (upsertEntryLocked meta now m) =
     AList.update (m_id meta) (evaluateEntry (sh_modelKey m) now meta) (sh_entries m)"
  "sh_modelKey (upsertEntryLocked meta now m) = sh_modelKey m"
  by (simp_all add: upsertEntryLocked_def Let_def split: option.split)

lemma indexed_cong:
  assumes "indexed m" "readyIDs m' = readyIDs m" "wsIDs m' = wsIDs m" "blockedIDs m' = blockedIDs m"
    "sh_readyByPriority m' = sh_readyByPriority m" "sh_priorityOrder m' = sh_priorityOrder m"
    "sh_blocked m' = sh_blocked m"
  shows "indexed m'"
  using assms(1) unfolding indexed_def bucketOk_def assms(2-7) .

text \<open>An entry whose indexed fields do not change needs no rebuild.\<close>

lemma same_indexes:
  assumes "entryAt m i = Some p" "se_state p = se_state e" "m_priority (se_meta p) = m_priority (se_meta e)"
    "m_websocketEnabled (se_meta p) = m_websocketEnabled (se_meta e)"
  defines "m' \<equiv> m\<lparr>sh_entries := AList.update i e (sh_entries m)\<rparr>"
  shows "readyIDs m' = readyIDs m" "wsIDs m' = wsIDs m" "blockedIDs m' = blockedIDs m"
proof -
  have iff: "(\<exists>x. entryAt m' j = Some x \<and> Q (se_state x) (m_priority (se_meta x)) (m_websocketEnabled (se_meta x))) \<longleftrightarrow>
        (\<exists>x. entryAt m j = Some x \<and> Q (se_state x) (m_priority (se_meta x)) (m_websocketEnabled (se_meta x)))"
    for j and Q :: "scheduledState \<Rightarrow> int \<Rightarrow> bool \<Rightarrow> bool"
    using assms(1-4) by (simp add: m'_def)
  show "readyIDs m' = readyIDs m" "wsIDs m' = wsIDs m" "blockedIDs m' = blockedIDs m"
    using iff [of _ "\<lambda>s p w. s = scheduledStateReady \<and> p = _"]
      iff [of _ "\<lambda>s p w. s = scheduledStateReady \<and> p = _ \<and> w"]
      iff [of _ "\<lambda>s p w. s = scheduledStateCooldown \<or> s = scheduledStateBlocked"]
    by (simp_all add: fun_eq_iff readyIDs_def wsIDs_def blockedIDs_def)
qed

lemma keyed_upsert: "keyed m \<Longrightarrow> keyed (upsertEntryLocked meta now m)"
  by (auto simp: keyed_def)

lemma upsert_indexed:
  assumes "keyed m" "indexed m"
  shows "indexed (upsertEntryLocked meta now m)"
proof -
  let ?e = "evaluateEntry (sh_modelKey m) now meta"
  let ?m = "m\<lparr>sh_entries := AList.update (m_id meta) ?e (sh_entries m)\<rparr>"
  have "keyed ?m" using assms(1) by (auto simp: keyed_def)
  then have rebuilt: "indexed (rebuildIndexesLocked ?m)" by (rule rebuild_indexed)
  show ?thesis
  proof (cases "entryAt m (m_id meta)")
    case (Some p)
    with rebuilt same_indexes [OF Some, of ?e] show ?thesis
      by (auto simp: upsertEntryLocked_def Let_def intro: indexed_cong [OF assms(2)])
  qed (use rebuilt in \<open>simp add: upsertEntryLocked_def Let_def\<close>)
qed

lemma upsert_ok:
  assumes "shard_ok t m" "t \<le> now" "0 \<le> now"
  shows "shard_ok now (upsertEntryLocked meta now m)"
  using assms by (auto simp: shard_ok_def keyed_upsert upsert_indexed intro: evaluatedBy_mono)

lemma remove_entries:
  assumes "keyed m" "authID \<noteq> ''''"
  shows "entryAt (removeEntryLocked authID m) = (entryAt m)(authID := None)"
    "sh_modelKey (removeEntryLocked authID m) = sh_modelKey m"
  using assms by (auto simp: removeEntryLocked_def)

lemma remove_ok:
  assumes "shard_ok t m"
  shows "shard_ok t (removeEntryLocked authID m)"
proof (cases "authID = '''' \<or> entryAt m authID = None")
  case True
  with assms show ?thesis by (auto simp: removeEntryLocked_def)
next
  case False
  have "keyed (m\<lparr>sh_entries := AList.delete authID (sh_entries m)\<rparr>)"
    using assms by (auto simp: shard_ok_def keyed_def)
  then have "keyed (removeEntryLocked authID m)" "indexed (removeEntryLocked authID m)"
    using False rebuild_indexed by (auto simp: removeEntryLocked_def)
  with assms False remove_entries [of m authID] show ?thesis
    by (auto simp: shard_ok_def)
qed

lemma shard_ok_mono: "shard_ok t m \<Longrightarrow> t \<le> t' \<Longrightarrow> shard_ok t' m"
  by (auto simp: shard_ok_def intro: evaluatedBy_mono)

lemma newShard_ok: "shard_ok t (newShard k)"
  by (simp add: shard_ok_def newShard_def keyed_def indexed_def bucketOk_def readyIDs_def blockedIDs_def)

section \<open>Promotion brings a shard up to date\<close>

lemma temporary_not_disabled:
  assumes "isAuthBlockedForModel a model now = (True, reason, n)" "n \<noteq> 0" "0 \<le> now"
  shows "reason \<noteq> blockReasonDisabled"
proof (cases "credentialQuotaActive a now")
  case True
  with assms show ?thesis
    by (cases rule: isAuthBlocked_cases [of a model]) (metis prod.inject, auto split: if_splits)
next
  case False
  from soft_block_states [OF assms False] show ?thesis
    by (auto simp: strongest_def tempBlocks_def stateReason_def split: if_splits)
qed

lemma token_expired_blocked: "tokenExpired a now \<Longrightarrow> fst (isAuthBlockedForModel a model now)"
  by (cases rule: isAuthBlocked_cases [of a model]) (metis fst_conv, simp)

definition due :: "time \<Rightarrow> scheduledAuth \<Rightarrow> bool" where
  "due now e \<longleftrightarrow> se_nextRetryAt e \<noteq> 0 \<and> se_nextRetryAt e \<le> now"

definition promoted :: "string \<Rightarrow> time \<Rightarrow> scheduledAuth \<Rightarrow> scheduledAuth" where
  "promoted k now e =
     (if mustDemote k now e \<or> due now e then evaluateEntry k now (se_meta e) else e)"

lemma promoted_exact:
  assumes "evaluatedBy k t e" "t \<le> now"
  shows "se_state (promoted k now e) = scheduledStateReady \<longleftrightarrow> usable k now (se_auth e)"
proof (cases "mustDemote k now e \<or> due now e")
  case True
  then show ?thesis by (simp add: promoted_def)
next
  case False
  from assms obtain t0 where t0: "0 \<le> t0" "t0 \<le> now" "e = evaluateEntry k t0 (se_meta e)"
    by (auto simp: evaluatedBy_def)
  obtain b r n where blk: "isAuthBlockedForModel (se_auth e) k t0 = (b, r, n)" by (rule prod_cases3)
  have st: "se_state e = fst (classifyState (b, r, n))" "se_nextRetryAt e = snd (classifyState (b, r, n))"
    by (metis t0(3) evaluateEntry_sel(2) blk, metis t0(3) evaluateEntry_sel(3) blk)
  have same: "promoted k now e = e" using False by (simp add: promoted_def)
  show ?thesis
  proof (cases b)
    case False
    then have "se_state e = scheduledStateReady" using st by simp
    with \<open>\<not> (mustDemote k now e \<or> due now e)\<close> have "\<not> tokenExpired (se_auth e) now"
      using token_expired_blocked by (auto simp: mustDemote_def)
    with stays_available [of "se_auth e" k t0 now] False blk t0 st same show ?thesis by simp
  next
    case True
    have "fst (isAuthBlockedForModel (se_auth e) k now)"
    proof (cases "n = 0")
      case True
      with blk \<open>b\<close> t0 show ?thesis by (auto intro: hard_block_stays)
    next
      case n: False
      with blk True t0(1) have "r \<noteq> blockReasonDisabled" by (auto dest: temporary_not_disabled)
      with st True have "se_nextRetryAt e = n" by simp
      with False n have "now < n" by (auto simp: due_def)
      with blocked_before(2) [of "se_auth e" k t0 r n now] blk True n t0 show ?thesis by simp
    qed
    with True st same show ?thesis by simp
  qed
qed

lemma promoted_evaluated: "evaluatedBy k t e \<Longrightarrow> t \<le> now \<Longrightarrow> 0 \<le> now \<Longrightarrow> evaluatedBy k now (promoted k now e)"
  by (auto simp: promoted_def intro: evaluatedBy_mono)

lemma promote_fold:
  "\<exists>c' es'. fold (promoteStep k now) ids (c, es) = (c', es') \<and>
     (\<forall>i. map_of es' i = map_option (\<lambda>e. if i \<in> set ids \<and> due now e then evaluateEntry k now (se_meta e) else e)
            (map_of es i)) \<and>
     (c' \<longleftrightarrow> c \<or> (\<exists>i \<in> set ids. \<exists>e. map_of es i = Some e \<and> due now e)) \<and>
     (wf_map es \<longrightarrow> wf_map es') \<and> (c' \<or> es' = es)"
proof (induction ids rule: rev_induct)
  case Nil
  show ?case by (simp add: option.map_ident)
next
  case (snoc j ids)
  then obtain c' es' where IH: "fold (promoteStep k now) ids (c, es) = (c', es')"
    "\<And>i. map_of es' i = map_option (\<lambda>e. if i \<in> set ids \<and> due now e then evaluateEntry k now (se_meta e) else e)
            (map_of es i)"
    "c' \<longleftrightarrow> c \<or> (\<exists>i \<in> set ids. \<exists>e. map_of es i = Some e \<and> due now e)"
    "wf_map es \<longrightarrow> wf_map es'" "c' \<or> es' = es" by auto
  have step: "fold (promoteStep k now) (ids @ [j]) (c, es) = promoteStep k now j (c', es')"
    using IH(1) by simp
  have new: "map_of es'' i = map_option (\<lambda>e. if i \<in> set (ids @ [j]) \<and> due now e
        then evaluateEntry k now (se_meta e) else e) (map_of es i)"
    if "map_of es'' i = (if i = j then map_option (\<lambda>e. if due now e
        then evaluateEntry k now (se_meta e) else e) (map_of es j) else map_of es' i)" for es'' i
    using that IH(2) [of i] by (cases "i = j") simp_all
  show ?case
  proof (cases "\<exists>e. map_of es' j = Some e \<and> due now e")
    case False
    then have stay: "promoteStep k now j (c', es') = (c', es')"
      by (auto simp: promoteStep_def due_def split: option.split)
    have same: "map_of es' j = map_option (\<lambda>e. if due now e then evaluateEntry k now (se_meta e) else e) (map_of es j)"
      and old: "j \<in> set ids" if "due now (the (map_of es j))" "map_of es j \<noteq> None"
      using False IH(2) [of j] that by (auto split: if_splits)
    have "map_of es' j = map_option (\<lambda>e. if due now e then evaluateEntry k now (se_meta e) else e) (map_of es j)"
      using same IH(2) [of j] by (cases "map_of es j") auto
    then have "map_of es' i = map_option (\<lambda>e. if i \<in> set (ids @ [j]) \<and> due now e
        then evaluateEntry k now (se_meta e) else e) (map_of es i)" for i by (intro new) simp
    moreover have "c' \<longleftrightarrow> c \<or> (\<exists>i \<in> set (ids @ [j]). \<exists>e. map_of es i = Some e \<and> due now e)"
      using IH(3) old by force
    ultimately show ?thesis using step stay IH(4,5) by simp
  next
    case True
    then obtain e' where e': "map_of es' j = Some e'" "due now e'" by blast
    then obtain e where e: "map_of es j = Some e" "due now e" "se_meta e' = se_meta e"
      using IH(2) [of j] by (auto split: if_splits)
    let ?es = "AList.update j (evaluateEntry k now (se_meta e)) es'"
    have go: "promoteStep k now j (c', es') = (True, ?es)"
      using e' e(3) by (simp add: promoteStep_def due_def)
    have "map_of ?es i = map_option (\<lambda>e. if i \<in> set (ids @ [j]) \<and> due now e
        then evaluateEntry k now (se_meta e) else e) (map_of es i)" for i
      using e by (intro new) simp
    moreover have "\<exists>i \<in> set (ids @ [j]). \<exists>e. map_of es i = Some e \<and> due now e" using e by auto
    ultimately show ?thesis using step go IH(4) by (intro exI [of _ True] exI [of _ ?es]) simp
  qed
qed

lemma evaluated_due:
  assumes "evaluatedBy k t e" "due now e"
  shows "se_state e = scheduledStateCooldown \<or> se_state e = scheduledStateBlocked"
proof -
  from assms(1) obtain t0 where "e = evaluateEntry k t0 (se_meta e)" by (auto simp: evaluatedBy_def)
  then obtain v where "se_state e = fst (classifyState v)" "se_nextRetryAt e = snd (classifyState v)"
    by (metis evaluateEntry_sel(2,3))
  with assms(2) show ?thesis by (cases v rule: prod_cases3) (auto simp: due_def split: if_splits)
qed

lemma promote_spec:
  assumes "shard_ok t m" "t \<le> now"
  shows "entryAt (promoteExpiredLocked now m) i = map_option (promoted (sh_modelKey m) now) (entryAt m i)"
    and "sh_modelKey (promoteExpiredLocked now m) = sh_modelKey m"
    and "keyed (promoteExpiredLocked now m)" "indexed (promoteExpiredLocked now m)"
proof -
  let ?k = "sh_modelKey m"
  define d where "d e = (if mustDemote ?k now e then evaluateEntry ?k now (se_meta e) else e)" for e
  define es where "es = map (\<lambda>(i, e). (i, d e)) (sh_entries m)"
  define c where "c = list_ex (\<lambda>(i, e). mustDemote ?k now e) (sh_entries m)"
  have demote: "demoteExpiredTokensLocked now m = (c, m\<lparr>sh_entries := es\<rparr>)"
    by (simp add: demoteExpiredTokensLocked_def es_def c_def d_def)
  obtain c' es' where f: "fold (promoteStep ?k now) (sh_blocked m) (c, es) = (c', es')"
    and es': "\<And>i. map_of es' i = map_option (\<lambda>e. if i \<in> set (sh_blocked m) \<and> due now e
                 then evaluateEntry ?k now (se_meta e) else e) (map_of es i)"
    and c': "c' \<longleftrightarrow> c \<or> (\<exists>i \<in> set (sh_blocked m). \<exists>e. map_of es i = Some e \<and> due now e)"
    and wf: "wf_map es \<longrightarrow> wf_map es'" and unchanged: "c' \<or> es' = es"
    using promote_fold by blast
  have p: "promoteExpiredLocked now m =
      (if c' then rebuildIndexesLocked (m\<lparr>sh_entries := es'\<rparr>) else m\<lparr>sh_entries := es'\<rparr>)"
    by (simp add: promoteExpiredLocked_def demote f)
  have ok: "keyed m" "indexed m" "\<And>i e. entryAt m i = Some e \<Longrightarrow> evaluatedBy ?k t e"
    using assms(1) by (auto simp: shard_ok_def)
  have es: "map_of es i = map_option d (entryAt m i)" for i by (simp add: es_def map_of_map)
  have blocked: "i \<in> set (sh_blocked m)" if "entryAt m i = Some e" "due now (d e)" "\<not> mustDemote ?k now e" for i e
    using evaluated_due [OF ok(3) [OF that(1)], of now] that ok(2) by (auto simp: indexed_def blockedIDs_def d_def)
  have "map_of es' i = map_option (promoted ?k now) (entryAt m i)" for i
  proof (cases "entryAt m i")
    case (Some e)
    show ?thesis
    proof (cases "mustDemote ?k now e")
      case True
      then show ?thesis using Some es [of i] es' [of i] by (simp add: d_def promoted_def)
    next
      case False
      then have "i \<in> set (sh_blocked m)" if "due now e" using blocked [OF Some _ False] that by (simp add: d_def)
      then show ?thesis using Some es [of i] es' [of i] False by (simp add: d_def promoted_def)
    qed
  qed (simp add: es es')
  then show at: "entryAt (promoteExpiredLocked now m) i = map_option (promoted ?k now) (entryAt m i)" for i
    by (simp add: p)
  show "sh_modelKey (promoteExpiredLocked now m) = sh_modelKey m" by (simp add: p)
  have "map fst es = map fst (sh_entries m)" by (auto simp: es_def)
  then have "wf_map es" using ok(1) by (simp add: keyed_def)
  with wf ok(1) at show key: "keyed (promoteExpiredLocked now m)"
    by (auto simp: keyed_def p promoted_def split: if_splits)
  show "indexed (promoteExpiredLocked now m)"
  proof (cases c')
    case True
    with key show ?thesis by (simp add: p rebuild_indexed)
  next
    case False
    have "\<not> mustDemote ?k now e" if "(i, e) \<in> set (sh_entries m)" for i e
      using False c' that by (force simp: c_def list_ex_iff)
    then have "es = sh_entries m" by (force simp: es_def d_def intro: map_idI)
    with False unchanged ok(2) show ?thesis by (simp add: p)
  qed
qed

lemma promote_ok:
  assumes "shard_ok t m" "t \<le> now" "0 \<le> now"
  shows "shard_ok now (promoteExpiredLocked now m)"
  using promote_spec [OF assms(1,2)] assms
  by (auto simp: shard_ok_def intro: promoted_evaluated)

section \<open>A shard is a pool of credentials\<close>

text \<open>
  The contract of a shard towards the scheduler, without its indexes: a map of credentials that
  answers, once refreshed, which of them may serve the model now.
\<close>

locale credential_pool =
  fixes empty :: 's
    and insert :: "scheduledAuthMeta \<Rightarrow> time \<Rightarrow> 's \<Rightarrow> 's"
    and remove :: "string \<Rightarrow> 's \<Rightarrow> 's"
    and refresh :: "time \<Rightarrow> 's \<Rightarrow> 's"
    and pool :: "'s \<Rightarrow> string \<Rightarrow> scheduledAuthMeta option"
    and ready :: "'s \<Rightarrow> string set"
    and invar :: "time \<Rightarrow> 's \<Rightarrow> bool"
    and model :: string
  assumes invar_empty: "invar t empty"
    and pool_empty: "pool empty i = None"
    and invar_mono: "invar t s \<Longrightarrow> t \<le> t' \<Longrightarrow> invar t' s"
    and invar_insert: "invar t s \<Longrightarrow> t \<le> now \<Longrightarrow> 0 \<le> now \<Longrightarrow> invar now (insert meta now s)"
    and pool_insert: "invar t s \<Longrightarrow> pool (insert meta now s) = (pool s)(m_id meta \<mapsto> meta)"
    and invar_remove: "invar t s \<Longrightarrow> invar t (remove i s)"
    and pool_remove: "invar t s \<Longrightarrow> i \<noteq> '''' \<Longrightarrow> pool (remove i s) = (pool s)(i := None)"
    and invar_refresh: "invar t s \<Longrightarrow> t \<le> now \<Longrightarrow> 0 \<le> now \<Longrightarrow> invar now (refresh now s)"
    and pool_refresh: "invar t s \<Longrightarrow> t \<le> now \<Longrightarrow> pool (refresh now s) = pool s"
    and ready_refresh: "invar t s \<Longrightarrow> t \<le> now \<Longrightarrow>
       ready (refresh now s) = {i. \<exists>meta. pool s i = Some meta \<and> usable model now (m_auth meta)}"
begin

text \<open>Filling a pool from a list of credentials.\<close>

lemma fill_invar:
  assumes "invar t s" "t \<le> now" "0 \<le> now"
  shows "invar now (fold (\<lambda>meta. insert meta now) metas s)"
  using assms
proof (induction metas arbitrary: s t)
  case Nil
  then show ?case by (simp add: invar_mono)
next
  case (Cons meta metas)
  show ?case using Cons.IH [OF invar_insert [OF Cons.prems]] Cons.prems(3) by simp
qed

lemma fill_pool:
  assumes "invar t s" "t \<le> now" "0 \<le> now" "distinct (map m_id metas)"
  shows "pool (fold (\<lambda>meta. insert meta now) metas s) i =
           (case find (\<lambda>meta. m_id meta = i) metas of Some meta \<Rightarrow> Some meta | None \<Rightarrow> pool s i)"
  using assms
proof (induction metas arbitrary: s t)
  case (Cons meta metas)
  have "find (\<lambda>x. m_id x = m_id meta) metas = None"
    unfolding find_None_iff using Cons.prems(4) by (auto simp: image_iff)
  with Cons.IH [OF invar_insert [OF Cons.prems(1-3)] order_refl Cons.prems(3)] Cons.prems(4)
    pool_insert [OF Cons.prems(1)] show ?case by (auto split: option.split)
qed simp

end

definition metaAt :: "modelScheduler \<Rightarrow> string \<Rightarrow> scheduledAuthMeta option" where
  "metaAt m i = map_option se_meta (entryAt m i)"

text \<open>What the ready views list, over all priorities.\<close>

definition listedReady :: "modelScheduler \<Rightarrow> string set" where
  "listedReady m = (\<Union>(p, bucket) \<in> set (sh_readyByPriority m). set (rv_flat (rb_all bucket)))"

lemma listedReady_eq:
  assumes "indexed m"
  shows "listedReady m = {i. \<exists>e. entryAt m i = Some e \<and> se_state e = scheduledStateReady}"
proof -
  have wf: "wf_map (sh_readyByPriority m)" and ok: "\<And>p. bucketOk m p (map_of (sh_readyByPriority m) p)"
    using assms by (auto simp: indexed_def)
  have "set (rv_flat (rb_all b)) = readyIDs m p" if "(p, b) \<in> set (sh_readyByPriority m)" for p b
    using ok [of p] that wf by (simp add: bucketOk_def)
  then have "listedReady m = (\<Union>(p, b) \<in> set (sh_readyByPriority m). readyIDs m p)"
    unfolding listedReady_def by (intro SUP_cong) auto
  moreover define ps where "ps = fst ` set (sh_readyByPriority m)"
  ultimately have "listedReady m = (\<Union>p \<in> ps. readyIDs m p)"
    by (simp add: image_image split_beta)
  moreover have "p \<in> ps" if "x \<in> readyIDs m p" for p x
    using ok [of p] that unfolding ps_def
    by (auto simp: bucketOk_def split: option.splits dest: map_of_SomeD intro: rev_image_eqI)
  ultimately have "listedReady m = (\<Union>p. readyIDs m p)" by auto blast
  then show ?thesis by (auto simp: readyIDs_def)
qed

interpretation shard: credential_pool "newShard k" upsertEntryLocked removeEntryLocked promoteExpiredLocked
  metaAt listedReady "\<lambda>t m. shard_ok t m \<and> sh_modelKey m = k" k for k
proof unfold_locales
  fix t t' now :: time and s meta i
  show "shard_ok t (newShard k) \<and> sh_modelKey (newShard k) = k"
    by (simp add: newShard_ok) (simp add: newShard_def)
  show "metaAt (newShard k) i = None" by (simp add: metaAt_def newShard_def)
  assume inv: "shard_ok t s \<and> sh_modelKey s = k"
  then show "t \<le> t' \<Longrightarrow> shard_ok t' s \<and> sh_modelKey s = k" by (auto intro: shard_ok_mono)
  from inv show "t \<le> now \<Longrightarrow> 0 \<le> now \<Longrightarrow>
      shard_ok now (upsertEntryLocked meta now s) \<and> sh_modelKey (upsertEntryLocked meta now s) = k"
    by (auto intro: upsert_ok)
  show "metaAt (upsertEntryLocked meta now s) = (metaAt s)(m_id meta \<mapsto> meta)"
    by (simp add: metaAt_def fun_eq_iff)
  have key: "keyed s" using inv by (simp add: shard_ok_def)
  from inv show "shard_ok t (removeEntryLocked i s) \<and> sh_modelKey (removeEntryLocked i s) = k"
    by (auto simp: remove_ok) (simp add: removeEntryLocked_def)
  show "i \<noteq> '''' \<Longrightarrow> metaAt (removeEntryLocked i s) = (metaAt s)(i := None)"
    by (simp add: metaAt_def fun_eq_iff remove_entries [OF key])
  assume now: "t \<le> now"
  note p = promote_spec [OF conjunct1 [OF inv] now]
  show "0 \<le> now \<Longrightarrow> shard_ok now (promoteExpiredLocked now s) \<and> sh_modelKey (promoteExpiredLocked now s) = k"
    using inv now p(2) by (auto intro: promote_ok)
  have "se_meta (promoted k now e) = se_meta e" for e by (simp add: promoted_def)
  then show "metaAt (promoteExpiredLocked now s) = metaAt s"
    using inv by (simp add: metaAt_def fun_eq_iff p(1) option.map_comp comp_def)
  have "se_state (promoted (sh_modelKey s) now e) = scheduledStateReady \<longleftrightarrow> usable (sh_modelKey s) now (se_auth e)"
    if "entryAt s j = Some e" for j e
    using inv now that by (intro promoted_exact [of _ t]) (auto simp: shard_ok_def)
  then show "listedReady (promoteExpiredLocked now s) =
      {i. \<exists>meta. metaAt s i = Some meta \<and> usable k now (m_auth meta)}"
    using inv by (auto simp: listedReady_eq [OF p(4)] p(1) metaAt_def)
qed

section \<open>What a pick returns\<close>

lemma deref_props:
  assumes "keyed m" "finite A" "A \<subseteq> dom (entryAt m)"
  shows "map se_id (deref (sh_entries m) (sorted_list_of_set A)) = sorted_list_of_set A"
    and "set (deref (sh_entries m) (sorted_list_of_set A)) = {e. \<exists>i \<in> A. entryAt m i = Some e}"
proof -
  have "map se_id (deref (sh_entries m) ids) = ids" if "set ids \<subseteq> dom (entryAt m)" for ids
    using that
  proof (induction ids)
    case (Cons i ids)
    then obtain e where "entryAt m i = Some e" by auto
    with Cons assms(1) show ?case by (simp add: deref_def map_filter_simps keyed_def)
  qed (simp add: deref_def map_filter_simps)
  with assms(2,3) show "map se_id (deref (sh_entries m) (sorted_list_of_set A)) = sorted_list_of_set A" by simp
  show "set (deref (sh_entries m) (sorted_list_of_set A)) = {e. \<exists>i \<in> A. entryAt m i = Some e}"
    using assms(2) by (auto simp: deref_def List.map_filter_def) (metis (mono_tags) mem_Collect_eq image_eqI option.distinct(1) option.sel)
qed

abbreviation readyEntry :: "modelScheduler \<Rightarrow> int \<Rightarrow> scheduledAuth \<Rightarrow> bool" where
  "readyEntry m p e \<equiv> entryAt m (se_id e) = Some e \<and> se_state e = scheduledStateReady \<and>
     m_priority (se_meta e) = p"

lemma flat_props:
  assumes "keyed m" "indexed m" "map_of (sh_readyByPriority m) p = Some bucket"
  shows "set (flatAll m bucket) = {e. readyEntry m p e}"
    and "set (flatWs m bucket) = {e. readyEntry m p e \<and> m_websocketEnabled (se_meta e)}"
    and "sorted_wrt (<) (map se_id (flatAll m bucket))" "sorted_wrt (<) (map se_id (flatWs m bucket))"
proof -
  have b: "rv_flat (rb_all bucket) = sorted_list_of_set (readyIDs m p)"
    "rv_flat (rb_ws bucket) = sorted_list_of_set (wsIDs m p)"
    using assms(2,3) by (auto simp: indexed_def bucketOk_def dest: spec [of _ p])
  have k: "se_id e = i" if "entryAt m i = Some e" for i e using assms(1) that by (simp add: keyed_def)
  have sub: "readyIDs m p \<subseteq> dom (entryAt m)" "wsIDs m p \<subseteq> dom (entryAt m)"
    by (auto simp: readyIDs_def wsIDs_def)
  note d = deref_props [OF assms(1) finite_readyIDs(1) sub(1)] deref_props [OF assms(1) finite_readyIDs(2) sub(2)]
  show "set (flatAll m bucket) = {e. readyEntry m p e}"
    unfolding b d by (auto simp: readyIDs_def k)
  show "set (flatWs m bucket) = {e. readyEntry m p e \<and> m_websocketEnabled (se_meta e)}"
    unfolding b d by (auto simp: wsIDs_def k)
  show "sorted_wrt (<) (map se_id (flatAll m bucket))" "sorted_wrt (<) (map se_id (flatWs m bucket))"
    unfolding b d by (simp_all add: strict_sorted_list_of_set)
qed

lemma bucket_exists:
  assumes "indexed m" "readyEntry m p e"
  shows "\<exists>bucket. map_of (sh_readyByPriority m) p = Some bucket"
proof -
  have "bucketOk m p (map_of (sh_readyByPriority m) p)" using assms(1) by (simp add: indexed_def)
  moreover have "se_id e \<in> readyIDs m p" using assms(2) by (auto simp: readyIDs_def)
  ultimately show ?thesis by (auto simp: bucketOk_def split: option.splits)
qed

lemma find_sorted_down:
  assumes "sorted_wrt (>) ps"
  shows "find P ps = Some p \<longleftrightarrow> p \<in> set ps \<and> P p \<and> (\<forall>q \<in> set ps. P q \<longrightarrow> q \<le> (p :: int))"
  using assms by (induction ps) (auto intro: order.strict_implies_order dest: leD)

lemma firstPriority_iff:
  assumes "indexed m"
  shows "firstPriority m test = Some p \<longleftrightarrow>
    (\<exists>b. map_of (sh_readyByPriority m) p = Some b \<and> test b) \<and>
    (\<forall>q b. map_of (sh_readyByPriority m) q = Some b \<and> test b \<longrightarrow> q \<le> p)"
    and "firstPriority m test = None \<longleftrightarrow> (\<forall>q b. map_of (sh_readyByPriority m) q = Some b \<longrightarrow> \<not> test b)"
proof -
  have srt: "sorted_wrt (>) (sh_priorityOrder m)"
    and mem: "q \<in> set (sh_priorityOrder m) \<longleftrightarrow> (\<exists>b. map_of (sh_readyByPriority m) q = Some b)" for q
    using assms by (auto simp: indexed_def map_of_eq_None_iff dest: map_of_SomeD intro: rev_image_eqI)
  show "firstPriority m test = Some p \<longleftrightarrow>
    (\<exists>b. map_of (sh_readyByPriority m) p = Some b \<and> test b) \<and>
    (\<forall>q b. map_of (sh_readyByPriority m) q = Some b \<and> test b \<longrightarrow> q \<le> p)"
    unfolding firstPriority_def find_sorted_down [OF srt] Ball_def mem by (auto split: option.splits)
  show "firstPriority m test = None \<longleftrightarrow> (\<forall>q b. map_of (sh_readyByPriority m) q = Some b \<longrightarrow> \<not> test b)"
    unfolding firstPriority_def find_None_iff using mem by (auto split: option.splits)
qed

lemma smoothScheduledStep_eq:
  "smoothScheduledStep P e s =
     (if 0 < m_weight (se_meta e) \<and> P e then smooth_step se_id (\<lambda>e. m_weight (se_meta e)) e s else s)"
  by (cases s) (auto simp: smoothScheduledStep_def smooth_step_def Let_def)

lemma pickSmoothWeightedScheduled_reference:
  "pickSmoothWeightedScheduled P xs cur =
     smooth_pick se_id (\<lambda>e. m_weight (se_meta e)) (filter (\<lambda>e. 0 < m_weight (se_meta e) \<and> P e) xs) cur"
proof -
  have "fold (smoothScheduledStep P) xs s =
      fold (smooth_step se_id (\<lambda>e. m_weight (se_meta e))) (filter (\<lambda>e. 0 < m_weight (se_meta e) \<and> P e) xs) s" for s
    by (induction xs arbitrary: s) (simp_all add: smoothScheduledStep_eq)
  then show ?thesis
    by (simp add: pickSmoothWeightedScheduled_def smooth_pick_def smooth_finish_def split: prod.split option.split)
qed

interpretation scheduled_weighted:
  smooth_weighted se_id "\<lambda>e. m_weight (se_meta e)" pickSmoothWeightedScheduled
  by unfold_locales (rule pickSmoothWeightedScheduled_reference)

interpretation scheduled_ring: rotation se_id scheduledSuccessorIndex
proof unfold_locales
  fix l :: string and xs :: "scheduledAuth list"
  show "scheduledSuccessorIndex xs '''' = 0" by (simp add: scheduledSuccessorIndex_def)
  assume l: "l \<noteq> ''''" and srt: "sorted_wrt (<) (map se_id xs)"
  note search = successor_search [OF srt, of l]
  show "scheduledSuccessorIndex xs l < length xs \<and> l < se_id (xs ! scheduledSuccessorIndex xs l) \<and>
      (\<forall>i < scheduledSuccessorIndex xs l. se_id (xs ! i) \<le> l)" if "\<exists>x \<in> set xs. l < se_id x"
    using search(1) [OF that] l by (simp add: scheduledSuccessorIndex_def)
  show "scheduledSuccessorIndex xs l = 0" if "\<forall>x \<in> set xs. se_id x \<le> l"
    using search(2) [OF that] l by (simp add: scheduledSuccessorIndex_def)
qed

definition selectable ::
    "string \<Rightarrow> time \<Rightarrow> schedulerStrategy \<Rightarrow> (scheduledAuth \<Rightarrow> bool) \<Rightarrow> scheduledAuth \<Rightarrow> bool" where
  "selectable k now strategy P e \<longleftrightarrow>
     P e \<and> (strategy = schedulerStrategyQuotaDrain \<longrightarrow> \<not> quotaCapacityExhausted (se_auth e) k now)"

definition picks_from :: "(scheduledAuth \<Rightarrow> bool) \<Rightarrow> scheduledAuth list \<Rightarrow> scheduledAuth option \<Rightarrow> bool" where
  "picks_from S flat picked \<longleftrightarrow>
     (case picked of None \<Rightarrow> \<not> (\<exists>e \<in> set flat. S e) | Some e \<Rightarrow> e \<in> set flat \<and> S e)"

lemma find_picks_from: "set ys = set flat \<Longrightarrow> picks_from S flat (find S ys)"
  by (auto simp: picks_from_def find_None_iff find_Some_iff split: option.split)

lemma pickQuotaDrain_spec:
  assumes "pickQuotaDrain entries k now P pin v = (picked, v', pin')"
  shows "rv_flat v' = rv_flat v \<and>
    picks_from (\<lambda>e. P e \<and> \<not> quotaCapacityExhausted (se_auth e) k now) (deref entries (rv_flat v)) picked"
proof (cases "deref entries (rv_flat v) = []")
  case True
  with assms show ?thesis by (auto simp: pickQuotaDrain_def picks_from_def)
next
  case False
  define start where "start = scheduledSuccessorIndex (deref entries (rv_flat v)) (rv_lastPicked v)"
  define kept where "kept = filter (\<lambda>e. \<not> quotaCapacityExhausted (se_auth e) k now)
      (rotate start (deref entries (rv_flat v)))"
  define cands where "cands = map (\<lambda>e. \<lparr>cand_id = se_id e, cand_rank = quotaCapacityRank (se_auth e) k now,
      cand_allowed = P e\<rparr>) kept"
  obtain i q where iq: "pickQuotaPinned (Some pin) cands [0..<length cands] = (i, q)" by (rule prod.exhaust)
  have sound: "case i of None \<Rightarrow> \<not> (\<exists>j < length cands. cand_allowed (cands ! j))
      | Some j \<Rightarrow> j < length cands \<and> cand_allowed (cands ! j)"
    using pickQuotaPinned_sound [OF _ iq] by (auto simp: atLeast0LessThan split: option.splits)
  have "pickQuotaDrain entries k now P pin v =
      (case pickQuotaPinned (Some pin) cands [0..<length cands] of (i, q) \<Rightarrow>
         let q = (case q of None \<Rightarrow> pin | Some p \<Rightarrow> p)
         in case i of None \<Rightarrow> (None, v, q)
            | Some j \<Rightarrow> (Some (kept ! j), v\<lparr>rv_lastPicked := se_id (kept ! j)\<rparr>, q))"
    unfolding pickQuotaDrain_def Let_def start_def [symmetric] kept_def [symmetric] cands_def [symmetric]
    using False by simp
  then have pick: "picked = map_option ((!) kept) i" "rv_flat v' = rv_flat v"
    using assms unfolding iq by (auto simp: Let_def split: option.splits)
  have "\<exists>j < length kept. kept ! j = e" if "e \<in> set kept" for e using that by (simp add: in_set_conv_nth)
  then show ?thesis
    using sound pick by (auto simp: picks_from_def cands_def kept_def split: option.splits dest: nth_mem)
qed

lemma pickFromView_spec:
  assumes "pickFromView m strategy P now pin v = (picked, v', pin')"
    and "strategy = schedulerStrategyWeightedRoundRobin \<Longrightarrow> \<forall>e. P e \<longrightarrow> 0 < m_weight (se_meta e)"
  shows "rv_flat v' = rv_flat v"
    and "picks_from (selectable (sh_modelKey m) now strategy P) (deref (sh_entries m) (rv_flat v)) picked"
proof -
  let ?flat = "deref (sh_entries m) (rv_flat v)"
  have sel: "selectable (sh_modelKey m) now strategy P = P" if "strategy \<noteq> schedulerStrategyQuotaDrain"
    using that by (simp add: fun_eq_iff selectable_def)
  have rr: "rv_flat (snd (pickRoundRobin (sh_entries m) P v)) = rv_flat v \<and>
      picks_from P ?flat (fst (pickRoundRobin (sh_entries m) P v))"
    using find_picks_from [of "rotate (scheduledSuccessorIndex ?flat (rv_lastPicked v)) ?flat" ?flat P]
    by (cases "?flat = []") (auto simp: pickRoundRobin_def Let_def picks_from_def split: option.splits)
  have wt: "rv_flat (snd (pickWeighted (sh_entries m) P v)) = rv_flat v \<and>
      picks_from P ?flat (fst (pickWeighted (sh_entries m) P v))"
    if pos: "\<forall>e. P e \<longrightarrow> 0 < m_weight (se_meta e)"
  proof (cases "?flat = []")
    case True
    then show ?thesis by (simp add: pickWeighted_def picks_from_def)
  next
    case False
    define st where "st = prepare (scheduledWeightVectorMatching ?flat P) (rv_weightedState v)"
    have c: "scheduled_weighted.candidates P ?flat = filter P ?flat"
      using pos by (auto simp: scheduled_weighted.candidates_def intro: filter_cong)
    obtain x cur where x: "pickSmoothWeightedScheduled P ?flat (sw_current st) = (x, cur)" by (rule prod.exhaust)
    have "picks_from P ?flat x"
      using scheduled_weighted.pick_none_iff [of P ?flat "sw_current st"]
        scheduled_weighted.pick_in [of P ?flat "sw_current st"] x c
      by (cases x) (auto simp: picks_from_def filter_empty_conv)
    with False x show ?thesis by (simp add: pickWeighted_def Let_def st_def)
  qed
  have "rv_flat v' = rv_flat v \<and> picks_from (selectable (sh_modelKey m) now strategy P) ?flat picked"
  proof (cases strategy)
    case schedulerStrategyQuotaDrain
    moreover from this have "selectable (sh_modelKey m) now strategy P =
        (\<lambda>e. P e \<and> \<not> quotaCapacityExhausted (se_auth e) (sh_modelKey m) now)"
      by (simp add: fun_eq_iff selectable_def)
    ultimately show ?thesis
      using pickQuotaDrain_spec [of "sh_entries m" "sh_modelKey m" now P pin v picked v' pin'] assms(1)
      by (simp add: pickFromView_def)
  next
    case schedulerStrategyFillFirst
    with assms(1) sel find_picks_from [OF refl, of P ?flat] show ?thesis
      by (auto simp: pickFromView_def pickFirst_def)
  next
    case schedulerStrategyWeightedRoundRobin
    with assms sel wt show ?thesis by (auto simp: pickFromView_def split: prod.splits)
  qed (use assms(1) sel rr in \<open>auto simp: pickFromView_def split: prod.splits\<close>)
  then show "rv_flat v' = rv_flat v"
    and "picks_from (selectable (sh_modelKey m) now strategy P) ?flat picked" by auto
qed

text \<open>The tests of the code on a view ask whether it holds a selectable entry.\<close>

lemma view_tests:
  "pickFirst P flat \<noteq> None \<longleftrightarrow> (\<exists>e \<in> set flat. P e)"
  "hasQuotaDrainCandidate k now P flat \<longleftrightarrow>
     (\<exists>e \<in> set flat. P e \<and> \<not> quotaCapacityExhausted (se_auth e) k now)"
  by (auto simp: pickFirst_def find_None_iff hasQuotaDrainCandidate_def list_ex_iff)

lemma highest_eq:
  "highestSelectablePriorityLocked m preferWebsocket strategy P now =
     (case (if preferWebsocket
            then firstPriority m (\<lambda>b. \<exists>e \<in> set (flatWs m b). selectable (sh_modelKey m) now strategy P e)
            else None) of
        Some p \<Rightarrow> Some p
      | None \<Rightarrow> firstPriority m (\<lambda>b. \<exists>e \<in> set (flatAll m b). selectable (sh_modelKey m) now strategy P e))"
  unfolding highestSelectablePriorityLocked_def highestReadyPriorityLocked_def view_tests selectable_def
  by (cases "strategy = schedulerStrategyQuotaDrain") (simp_all cong: option.case_cong)

lemma useWebsocketView_eq:
  "useWebsocketView m preferWebsocket strategy P now bucket \<longleftrightarrow>
     preferWebsocket \<and> (\<exists>e \<in> set (flatWs m bucket). selectable (sh_modelKey m) now strategy P e)"
  unfolding useWebsocketView_def view_tests selectable_def by simp

lemma first_ready:
  assumes "keyed m" "indexed m"
  shows "firstPriority m (\<lambda>b. \<exists>e \<in> set (flatAll m b). S e) = Some p \<longleftrightarrow>
      (\<exists>e. readyEntry m p e \<and> S e) \<and> (\<forall>q e. readyEntry m q e \<and> S e \<longrightarrow> q \<le> p)"
    and "firstPriority m (\<lambda>b. \<exists>e \<in> set (flatAll m b). S e) = None \<longleftrightarrow> \<not> (\<exists>q e. readyEntry m q e \<and> S e)"
    and "firstPriority m (\<lambda>b. \<exists>e \<in> set (flatWs m b). S e) = Some p \<longleftrightarrow>
      (\<exists>e. readyEntry m p e \<and> S e \<and> m_websocketEnabled (se_meta e)) \<and>
      (\<forall>q e. readyEntry m q e \<and> S e \<and> m_websocketEnabled (se_meta e) \<longrightarrow> q \<le> p)"
    and "firstPriority m (\<lambda>b. \<exists>e \<in> set (flatWs m b). S e) = None \<longleftrightarrow>
      \<not> (\<exists>q e. readyEntry m q e \<and> S e \<and> m_websocketEnabled (se_meta e))"
proof -
  let ?R = "sh_readyByPriority m"
  have all: "(\<exists>b. map_of ?R q = Some b \<and> (\<exists>e \<in> set (flatAll m b). S e)) \<longleftrightarrow> (\<exists>e. readyEntry m q e \<and> S e)" for q
    using flat_props(1) [OF assms, of q] bucket_exists [OF assms(2), where p = q] by blast
  have ws: "(\<exists>b. map_of ?R q = Some b \<and> (\<exists>e \<in> set (flatWs m b). S e)) \<longleftrightarrow>
      (\<exists>e. readyEntry m q e \<and> S e \<and> m_websocketEnabled (se_meta e))" for q
    using flat_props(2) [OF assms, of q] bucket_exists [OF assms(2), where p = q] by blast
  show "firstPriority m (\<lambda>b. \<exists>e \<in> set (flatAll m b). S e) = Some p \<longleftrightarrow>
      (\<exists>e. readyEntry m p e \<and> S e) \<and> (\<forall>q e. readyEntry m q e \<and> S e \<longrightarrow> q \<le> p)"
    unfolding firstPriority_iff [OF assms(2)] all [symmetric] using all by blast
  show "firstPriority m (\<lambda>b. \<exists>e \<in> set (flatWs m b). S e) = Some p \<longleftrightarrow>
      (\<exists>e. readyEntry m p e \<and> S e \<and> m_websocketEnabled (se_meta e)) \<and>
      (\<forall>q e. readyEntry m q e \<and> S e \<and> m_websocketEnabled (se_meta e) \<longrightarrow> q \<le> p)"
    unfolding firstPriority_iff [OF assms(2)] ws [symmetric] using ws by blast
  show "firstPriority m (\<lambda>b. \<exists>e \<in> set (flatAll m b). S e) = None \<longleftrightarrow> \<not> (\<exists>q e. readyEntry m q e \<and> S e)"
    unfolding firstPriority_iff [OF assms(2)] using all by blast
  show "firstPriority m (\<lambda>b. \<exists>e \<in> set (flatWs m b). S e) = None \<longleftrightarrow>
      \<not> (\<exists>q e. readyEntry m q e \<and> S e \<and> m_websocketEnabled (se_meta e))"
    unfolding firstPriority_iff [OF assms(2)] using ws by blast
qed

lemma update_view_ok:
  assumes "shard_ok t m" "map_of (sh_readyByPriority m) p = Some b"
    "rv_flat (rb_all b') = rv_flat (rb_all b)" "rv_flat (rb_ws b') = rv_flat (rb_ws b)"
  shows "shard_ok t (m\<lparr>sh_readyByPriority := AList.update p b' (sh_readyByPriority m)\<rparr>)"
proof -
  let ?m = "m\<lparr>sh_readyByPriority := AList.update p b' (sh_readyByPriority m)\<rparr>"
  have ok: "wf_map (sh_readyByPriority m)" "\<And>q. bucketOk m q (map_of (sh_readyByPriority m) q)"
    using assms(1) by (auto simp: shard_ok_def indexed_def)
  have "bucketOk ?m = bucketOk m" unfolding bucketOk_def fun_eq_iff by (simp only: indexes_of_entries) simp
  then have "bucketOk ?m q (map_of (sh_readyByPriority ?m) q)" for q
    using ok(2) [of q] assms(2-4) by (auto simp: bucketOk_def)
  moreover have "fst ` set (AList.update p b' (sh_readyByPriority m)) = fst ` set (sh_readyByPriority m)"
    using assms(2) by (auto simp: dom_map_of_conv_image_fst [symmetric])
  ultimately show ?thesis
    using assms(1) ok(1) by (simp add: shard_ok_def indexed_def indexes_of_entries)
qed

abbreviation weights_positive :: "schedulerStrategy \<Rightarrow> (scheduledAuth \<Rightarrow> bool) \<Rightarrow> bool" where
  "weights_positive strategy P \<equiv>
     strategy = schedulerStrategyWeightedRoundRobin \<longrightarrow> (\<forall>e. P e \<longrightarrow> 0 < m_weight (se_meta e))"

lemma pickAt_spec:
  assumes "shard_ok t m" "weights_positive strategy P"
    and "pickReadyAtPriorityLocked preferWebsocket p strategy P now pin m = (a, m', pin')"
  defines "S \<equiv> selectable (sh_modelKey m) now strategy P"
  shows "shard_ok t m' \<and> sh_entries m' = sh_entries m \<and> sh_modelKey m' = sh_modelKey m"
    and "a = None \<Longrightarrow> \<not> (\<exists>e. readyEntry m p e \<and> S e)"
    and "a = Some x \<Longrightarrow> \<exists>e. readyEntry m p e \<and> S e \<and> x = se_auth e \<and>
      (preferWebsocket \<and> (\<exists>e. readyEntry m p e \<and> S e \<and> m_websocketEnabled (se_meta e)) \<longrightarrow>
       m_websocketEnabled (se_meta e))"
proof -
  have ok: "keyed m" "indexed m" using assms(1) by (auto simp: shard_ok_def)
  have "shard_ok t m' \<and> sh_entries m' = sh_entries m \<and> sh_modelKey m' = sh_modelKey m \<and>
    (case a of None \<Rightarrow> \<not> (\<exists>e. readyEntry m p e \<and> S e)
     | Some x \<Rightarrow> \<exists>e. readyEntry m p e \<and> S e \<and> x = se_auth e \<and>
      (preferWebsocket \<and> (\<exists>e. readyEntry m p e \<and> S e \<and> m_websocketEnabled (se_meta e)) \<longrightarrow>
       m_websocketEnabled (se_meta e)))"
  proof (cases "map_of (sh_readyByPriority m) p")
    case None
    then have "\<not> readyEntry m p e" for e using bucket_exists [OF ok(2), where p = p and e = e] by auto
    with None assms(1,3) show ?thesis by (auto simp: pickReadyAtPriorityLocked_def)
  next
    case (Some b)
    note flat = flat_props [OF ok Some]
    define ws where "ws \<longleftrightarrow> useWebsocketView m preferWebsocket strategy P now b"
    have ws_iff: "ws \<longleftrightarrow> preferWebsocket \<and> (\<exists>e. readyEntry m p e \<and> S e \<and> m_websocketEnabled (se_meta e))"
      unfolding ws_def useWebsocketView_eq S_def [symmetric] using flat(2) by blast
    obtain picked view q where pv:
      "pickFromView m strategy P now pin (if ws then rb_ws b else rb_all b) = (picked, view, q)"
      by (rule prod_cases3)
    have res: "a = map_option se_auth picked"
      "m' = m\<lparr>sh_readyByPriority := AList.update p (if ws then b\<lparr>rb_ws := view\<rparr> else b\<lparr>rb_all := view\<rparr>)
               (sh_readyByPriority m)\<rparr>"
      using assms(3) Some pv by (auto simp: pickReadyAtPriorityLocked_def ws_def split: if_splits)
    note spec = pickFromView_spec [OF pv] assms(2)
    have "shard_ok t m'" unfolding res
      by (rule update_view_ok [OF assms(1) Some]) (use spec in auto)
    moreover have "set (if ws then flatWs m b else flatAll m b) =
        {e. readyEntry m p e \<and> (ws \<longrightarrow> m_websocketEnabled (se_meta e))}" using flat(1,2) by simp
    moreover have "picks_from S (if ws then flatWs m b else flatAll m b) picked"
      using spec by (auto simp: S_def)
    ultimately have ok': "shard_ok t m'" and pf: "case picked of
        None \<Rightarrow> \<not> (\<exists>e. readyEntry m p e \<and> (ws \<longrightarrow> m_websocketEnabled (se_meta e)) \<and> S e)
      | Some e \<Rightarrow> readyEntry m p e \<and> (ws \<longrightarrow> m_websocketEnabled (se_meta e)) \<and> S e"
      by (simp_all add: picks_from_def split: option.splits)
    show ?thesis
    proof (cases picked)
      case None
      with pf ws_iff have "\<not> (\<exists>e. readyEntry m p e \<and> S e)" by (cases ws) auto
      with None res ok' show ?thesis by simp
    next
      case (Some e)
      with pf res ok' ws_iff show ?thesis by auto
    qed
  qed
  then show "shard_ok t m' \<and> sh_entries m' = sh_entries m \<and> sh_modelKey m' = sh_modelKey m"
    and "a = None \<Longrightarrow> \<not> (\<exists>e. readyEntry m p e \<and> S e)"
    and "a = Some x \<Longrightarrow> \<exists>e. readyEntry m p e \<and> S e \<and> x = se_auth e \<and>
      (preferWebsocket \<and> (\<exists>e. readyEntry m p e \<and> S e \<and> m_websocketEnabled (se_meta e)) \<longrightarrow>
       m_websocketEnabled (se_meta e))" by auto
qed

text \<open>
  What a request may be served by: the credentials of the pool that are usable now and pass the
  request's test (and have quota left, for quota drain), restricted to those with a websocket
  transport when that is preferred and there is one.
\<close>

definition pool_choices ::
    "string \<Rightarrow> (string \<Rightarrow> scheduledAuthMeta option) \<Rightarrow> time \<Rightarrow> bool \<Rightarrow> schedulerStrategy \<Rightarrow>
     (scheduledAuthMeta \<Rightarrow> bool) \<Rightarrow> scheduledAuthMeta set" where
  "pool_choices k pool now preferWebsocket strategy P =
     (let S = {meta. pool (m_id meta) = Some meta \<and> usable k now (m_auth meta) \<and> P meta \<and>
                 (strategy = schedulerStrategyQuotaDrain \<longrightarrow> \<not> quotaCapacityExhausted (m_auth meta) k now)}
      in if preferWebsocket \<and> (\<exists>x \<in> S. m_websocketEnabled x) then {x \<in> S. m_websocketEnabled x} else S)"

abbreviation choices ::
    "modelScheduler \<Rightarrow> time \<Rightarrow> bool \<Rightarrow> schedulerStrategy \<Rightarrow> (scheduledAuthMeta \<Rightarrow> bool) \<Rightarrow> scheduledAuthMeta set" where
  "choices m \<equiv> pool_choices (sh_modelKey m) (metaAt m)"

abbreviation on_meta :: "(scheduledAuthMeta \<Rightarrow> bool) \<Rightarrow> scheduledAuth \<Rightarrow> bool" where
  "on_meta P \<equiv> (\<lambda>e. P (se_meta e))"

definition highest_of :: "scheduledAuthMeta set \<Rightarrow> Auth option \<Rightarrow> bool" where
  "highest_of C a \<longleftrightarrow>
     (case a of None \<Rightarrow> C = {}
      | Some x \<Rightarrow> \<exists>meta \<in> C. x = m_auth meta \<and> (\<forall>y \<in> C. m_priority y \<le> m_priority meta))"

text \<open>Once promoted, the ready entries of a shard are its usable credentials.\<close>

lemma ready_is_usable:
  assumes "shard_ok t m" "t \<le> now"
  defines "m' \<equiv> promoteExpiredLocked now m"
  shows "(\<exists>e. readyEntry m' p e \<and> se_meta e = meta) \<longleftrightarrow>
     metaAt m (m_id meta) = Some meta \<and> usable (sh_modelKey m) now (m_auth meta) \<and> m_priority meta = p"
proof -
  note spec = promote_spec [OF assms(1,2), folded m'_def]
  have exact: "se_state (promoted (sh_modelKey m) now e) = scheduledStateReady \<longleftrightarrow>
      usable (sh_modelKey m) now (se_auth e)" if "entryAt m i = Some e" for i e
    using assms(1,2) that by (intro promoted_exact [of _ t]) (auto simp: shard_ok_def)
  have same: "se_meta (promoted k now e) = se_meta e" for k e by (simp add: promoted_def)
  show ?thesis
  proof
    assume "\<exists>e. readyEntry m' p e \<and> se_meta e = meta"
    then obtain e where e: "readyEntry m' p e" "se_meta e = meta" by blast
    then obtain e0 where "entryAt m (m_id meta) = Some e0" "e = promoted (sh_modelKey m) now e0"
      using spec(1) [of "m_id meta"] by auto
    with e exact [of "m_id meta" e0] same show "metaAt m (m_id meta) = Some meta \<and>
        usable (sh_modelKey m) now (m_auth meta) \<and> m_priority meta = p" by (simp add: metaAt_def)
  next
    assume a: "metaAt m (m_id meta) = Some meta \<and> usable (sh_modelKey m) now (m_auth meta) \<and> m_priority meta = p"
    then obtain e0 where "entryAt m (m_id meta) = Some e0" "se_meta e0 = meta" by (auto simp: metaAt_def)
    with a exact [of "m_id meta" e0] same spec(1) [of "m_id meta"]
    show "\<exists>e. readyEntry m' p e \<and> se_meta e = meta"
      by (intro exI [of _ "promoted (sh_modelKey m) now e0"]) simp
  qed
qed

lemma pickReady_spec:
  assumes "shard_ok t m" "t \<le> now" "0 \<le> now" "weights_positive strategy (on_meta P)"
    and "pickReadyLocked preferWebsocket strategy (on_meta P) now pin m = (a, m', pin')"
  shows "shard_ok now m' \<and> sh_modelKey m' = sh_modelKey m \<and> metaAt m' = metaAt m"
    and "highest_of (choices m now preferWebsocket strategy P) a"
proof -
  define m1 where "m1 = promoteExpiredLocked now m"
  let ?k = "sh_modelKey m" and ?S = "selectable (sh_modelKey m) now strategy (on_meta P)"
  let ?C = "choices m now preferWebsocket strategy P"
  have ok1: "shard_ok now m1" "sh_modelKey m1 = ?k" "metaAt m1 = metaAt m" "keyed m1" "indexed m1"
    using promote_ok [OF assms(1-3)] promote_spec [OF assms(1,2)] shard.pool_refresh [of t m ?k now] assms(1,2)
    by (auto simp: m1_def shard_ok_def)
  have R: "{se_meta e | e p. readyEntry m1 p e \<and> R (se_meta e)} =
      {meta. metaAt m (m_id meta) = Some meta \<and> usable ?k now (m_auth meta) \<and> R meta}" for R
  proof (rule set_eqI)
    fix x
    have "x \<in> {se_meta e | e p. readyEntry m1 p e \<and> R (se_meta e)} \<longleftrightarrow>
        (\<exists>p. \<exists>e. readyEntry m1 p e \<and> se_meta e = x) \<and> R x" by auto
    also have "\<dots> \<longleftrightarrow> (\<exists>p. metaAt m (m_id x) = Some x \<and> usable ?k now (m_auth x) \<and> m_priority x = p) \<and> R x"
      using ready_is_usable [OF assms(1,2), folded m1_def, of _ x] by (simp only:)
    finally show "x \<in> {se_meta e | e p. readyEntry m1 p e \<and> R (se_meta e)} \<longleftrightarrow>
        x \<in> {meta. metaAt m (m_id meta) = Some meta \<and> usable ?k now (m_auth meta) \<and> R meta}" by simp
  qed
  have S: "{se_meta e | e p. readyEntry m1 p e \<and> ?S e \<and> Q (se_meta e)} =
      {meta. metaAt m (m_id meta) = Some meta \<and> usable ?k now (m_auth meta) \<and> P meta \<and>
        (strategy = schedulerStrategyQuotaDrain \<longrightarrow> \<not> quotaCapacityExhausted (m_auth meta) ?k now) \<and> Q meta}" for Q
    using R [of "\<lambda>meta. (P meta \<and> (strategy = schedulerStrategyQuotaDrain \<longrightarrow>
        \<not> quotaCapacityExhausted (m_auth meta) ?k now)) \<and> Q meta"] by (simp add: selectable_def)
  define ws where "ws \<longleftrightarrow> preferWebsocket \<and> (\<exists>p e. readyEntry m1 p e \<and> ?S e \<and> m_websocketEnabled (se_meta e))"
  have C: "?C = {se_meta e | e p. readyEntry m1 p e \<and> ?S e \<and> (ws \<longrightarrow> m_websocketEnabled (se_meta e))}"
  proof -
    define U where "U = {meta. metaAt m (m_id meta) = Some meta \<and> usable ?k now (m_auth meta) \<and> P meta \<and>
        (strategy = schedulerStrategyQuotaDrain \<longrightarrow> \<not> quotaCapacityExhausted (m_auth meta) ?k now)}"
    have U: "{se_meta e | e p. readyEntry m1 p e \<and> ?S e \<and> Q (se_meta e)} = {x \<in> U. Q x}" for Q
      unfolding S U_def by simp
    have "(\<exists>p e. readyEntry m1 p e \<and> ?S e \<and> m_websocketEnabled (se_meta e)) \<longleftrightarrow>
        {se_meta e | e p. readyEntry m1 p e \<and> ?S e \<and> m_websocketEnabled (se_meta e)} \<noteq> {}" by blast
    then have "ws \<longleftrightarrow> preferWebsocket \<and> (\<exists>x \<in> U. m_websocketEnabled x)"
      unfolding ws_def U [of m_websocketEnabled] by blast
    then have "?C = {x \<in> U. ws \<longrightarrow> m_websocketEnabled x}"
      unfolding pool_choices_def Let_def U_def [symmetric] by auto
    then show ?thesis unfolding U [of "\<lambda>x. ws \<longrightarrow> m_websocketEnabled x"] .

  qed
  have high: "highestSelectablePriorityLocked m1 preferWebsocket strategy (on_meta P) now =
      (if ws then firstPriority m1 (\<lambda>b. \<exists>e \<in> set (flatWs m1 b). ?S e)
       else firstPriority m1 (\<lambda>b. \<exists>e \<in> set (flatAll m1 b). ?S e))"
    unfolding highest_eq ok1(2) using first_ready(4) [OF ok1(4,5), of ?S]
    by (auto simp: ws_def split: option.split)
  have run: "(case highestSelectablePriorityLocked m1 preferWebsocket strategy (on_meta P) now of
      None \<Rightarrow> (None, m1, pin)
    | Some p \<Rightarrow> pickReadyAtPriorityLocked preferWebsocket p strategy (on_meta P) now pin m1) = (a, m', pin')"
    using assms(5) unfolding pickReadyLocked_def Let_def m1_def .
  have "(shard_ok now m' \<and> sh_modelKey m' = ?k \<and> metaAt m' = metaAt m) \<and> highest_of ?C a"
  proof (cases "highestSelectablePriorityLocked m1 preferWebsocket strategy (on_meta P) now")
    case None
    then have "?C = {}"
      using high first_ready(2,4) [OF ok1(4,5), of ?S] unfolding C by (auto split: if_splits)
    with None run ok1 show ?thesis by (simp add: highest_of_def)
  next
    case (Some p)
    then have "pickReadyAtPriorityLocked preferWebsocket p strategy (on_meta P) now pin m1 = (a, m', pin')"
      using run by simp
    note at = pickAt_spec [OF ok1(1) assms(4) this, unfolded ok1(2)]
    have top: "(\<exists>e. readyEntry m1 p e \<and> ?S e \<and> (ws \<longrightarrow> m_websocketEnabled (se_meta e))) \<and>
        (\<forall>q e. readyEntry m1 q e \<and> ?S e \<and> (ws \<longrightarrow> m_websocketEnabled (se_meta e)) \<longrightarrow> q \<le> p)"
      using high Some first_ready(1,3) [OF ok1(4,5), of ?S p] by (auto split: if_splits)
    have meta: "metaAt m' = metaAt m"
      using at(1) ok1(3) by (simp add: metaAt_def fun_eq_iff)
    obtain x where x: "a = Some x" using at(2) top by (cases a) auto
    with at(3) obtain e where e: "readyEntry m1 p e" "?S e" "x = se_auth e"
      "preferWebsocket \<and> (\<exists>e. readyEntry m1 p e \<and> ?S e \<and> m_websocketEnabled (se_meta e)) \<longrightarrow>
       m_websocketEnabled (se_meta e)" by blast
    have w: "ws \<longrightarrow> m_websocketEnabled (se_meta e)" using e(4) top by (auto simp: ws_def)
    have "se_meta e \<in> ?C" using e w unfolding C by blast
    moreover have "m_priority y \<le> m_priority (se_meta e)" if y: "y \<in> ?C" for y
    proof -
      from y obtain e' q where "y = se_meta e'" "readyEntry m1 q e' \<and> ?S e' \<and>
          (ws \<longrightarrow> m_websocketEnabled (se_meta e'))" unfolding C by blast
      with top e(1) show ?thesis by auto
    qed
    ultimately show ?thesis using x e(3) at(1) meta ok1(2) by (auto simp: highest_of_def)
  qed
  then show "shard_ok now m' \<and> sh_modelKey m' = sh_modelKey m \<and> metaAt m' = metaAt m"
    and "highest_of (choices m now preferWebsocket strategy P) a" by auto
qed

end
