(* ===== verification/Shard_Runs.thy ===== *)
theory Shard_Runs
  imports Shard
begin

text \<open>
  Sequences of operations on one shard. The abstract specification of a shard is a map of
  credentials: a request is answered by any credential of highest priority among those the map
  allows. The indexed shard refines it on every sequence, each credential that stays available has
  its turn under round-robin, and weighted picks follow the weights exactly.
\<close>

section \<open>A shard refines a map of credentials\<close>

datatype shardOp =
    Put scheduledAuthMeta
  | Drop string
  | Pick bool schedulerStrategy "scheduledAuthMeta \<Rightarrow> bool" quotaDrainPin

text \<open>One operation at a time; a pick also answers.\<close>

fun shardStep :: "time \<times> shardOp \<Rightarrow> modelScheduler \<Rightarrow> Auth option option \<times> modelScheduler" where
  "shardStep (now, Put meta) m = (None, upsertEntryLocked meta now m)"
| "shardStep (now, Drop i) m = (None, removeEntryLocked i m)"
| "shardStep (now, Pick preferWebsocket strategy P pin) m =
     (let (a, m', pin') = pickReadyLocked preferWebsocket strategy (on_meta P) now pin m in (Some a, m'))"

fun shardRun :: "(time \<times> shardOp) list \<Rightarrow> modelScheduler \<Rightarrow> Auth option option list \<times> modelScheduler" where
  "shardRun [] m = ([], m)"
| "shardRun (x # xs) m =
     (let (out, m') = shardStep x m; (outs, m'') = shardRun xs m' in (out # outs, m''))"

text \<open>The same on the map.\<close>

type_synonym credentialMap = "string \<Rightarrow> scheduledAuthMeta option"

fun specStep :: "time \<times> shardOp \<Rightarrow> credentialMap \<Rightarrow> credentialMap" where
  "specStep (now, Put meta) pool = pool(m_id meta \<mapsto> meta)"
| "specStep (now, Drop i) pool = (if i = '''' then pool else pool(i := None))"
| "specStep (now, Pick _ _ _ _) pool = pool"

fun specAllows :: "string \<Rightarrow> time \<times> shardOp \<Rightarrow> credentialMap \<Rightarrow> Auth option option \<Rightarrow> bool" where
  "specAllows k (now, Pick preferWebsocket strategy P pin) pool out \<longleftrightarrow>
     (\<exists>a. out = Some a \<and> highest_of (pool_choices k pool now preferWebsocket strategy P) a)"
| "specAllows k x pool out \<longleftrightarrow> out = None"

fun specRun :: "string \<Rightarrow> (time \<times> shardOp) list \<Rightarrow> credentialMap \<Rightarrow> Auth option option list \<Rightarrow> credentialMap \<Rightarrow> bool"
where
  "specRun k [] pool outs pool' \<longleftrightarrow> outs = [] \<and> pool' = pool"
| "specRun k (x # xs) pool outs pool' \<longleftrightarrow>
     (\<exists>out outs'. outs = out # outs' \<and> specAllows k x pool out \<and> specRun k xs (specStep x pool) outs' pool')"

text \<open>
  The clock does not go back, and a weighted pick is asked for credentials of positive weight only,
  as the scheduler's predicate does.
\<close>

fun opOk :: "shardOp \<Rightarrow> bool" where
  "opOk (Pick _ strategy P _) \<longleftrightarrow> weights_positive strategy (on_meta P)"
| "opOk _ \<longleftrightarrow> True"

abbreviation clocked :: "time \<Rightarrow> (time \<times> shardOp) list \<Rightarrow> bool" where
  "clocked t xs \<equiv> 0 \<le> t \<and> sorted (t # map fst xs) \<and> (\<forall>(_, x) \<in> set xs. opOk x)"

lemma clocked_append:
  assumes "clocked 0 (xs @ ys)"
  shows "clocked 0 xs" "clocked (last (0 # map fst xs)) ys"
proof -
  show "clocked 0 xs" using assms by (auto simp: sorted_append)
  have "sorted ((0 # map fst xs) @ map fst ys)" using assms by simp
  then have "\<forall>s \<in> set (0 # map fst xs). \<forall>u \<in> set (map fst ys). s \<le> u" "sorted (map fst ys)"
    by (auto simp: sorted_append)
  moreover define s where "s = last (0 # map fst xs)"
  moreover have "s \<in> set (0 # map fst xs)" unfolding s_def by (rule last_in_set) simp
  moreover from this have "0 \<le> s" using assms by auto
  ultimately have "0 \<le> s" "\<forall>u \<in> set (map fst ys). s \<le> u" "sorted (map fst ys)" by blast+
  then show "clocked (last (0 # map fst xs)) ys" using assms unfolding s_def [symmetric] by simp
qed

lemma remove_modelKey [simp]: "sh_modelKey (removeEntryLocked i m) = sh_modelKey m"
  by (simp add: removeEntryLocked_def)

lemma step_refines:
  assumes "shard_ok t m" "t \<le> now" "0 \<le> now" "opOk x" "shardStep (now, x) m = (out, m')"
  shows "shard_ok now m' \<and> sh_modelKey m' = sh_modelKey m \<and> metaAt m' = specStep (now, x) (metaAt m) \<and>
         specAllows (sh_modelKey m) (now, x) (metaAt m) out"
proof -
  let ?k = "sh_modelKey m"
  have inv: "shard_ok t m \<and> sh_modelKey m = ?k" using assms(1) by simp
  show ?thesis
  proof (cases x)
    case (Put meta)
    with assms(5) shard.invar_insert [OF inv assms(2,3), of meta] shard.pool_insert [OF inv, of meta now]
    show ?thesis by auto
  next
    case (Drop i)
    have "removeEntryLocked '''' m = m" by (simp add: removeEntryLocked_def)
    with Drop assms(2,5) shard.invar_remove [OF inv, of i] shard.pool_remove [OF inv, of i]
    show ?thesis by (auto intro: shard_ok_mono)
  next
    case (Pick w strategy P pin)
    obtain a m1 pin' where p: "pickReadyLocked w strategy (on_meta P) now pin m = (a, m1, pin')"
      by (rule prod_cases3)
    with Pick assms(5) have eq: "out = Some a" "m' = m1" by auto
    have "weights_positive strategy (on_meta P)" using Pick assms(4) by simp
    with pickReady_spec [OF assms(1-3) _ p] Pick eq show ?thesis by simp
  qed
qed

lemma run_refines:
  assumes "shard_ok t m" "clocked t xs" "shardRun xs m = (outs, m')"
  shows "specRun (sh_modelKey m) xs (metaAt m) outs (metaAt m') \<and> sh_modelKey m' = sh_modelKey m \<and>
         shard_ok (last (t # map fst xs)) m'"
  using assms
proof (induction xs arbitrary: t m outs)
  case Nil
  then show ?case by simp
next
  case (Cons y xs)
  obtain now x where y: "y = (now, x)" by (rule prod.exhaust)
  obtain out m1 where st: "shardStep (now, x) m = (out, m1)" by (rule prod.exhaust)
  obtain outs' where r: "shardRun xs m1 = (outs', m')" "outs = out # outs'"
    using Cons.prems(3) st y by (auto split: prod.splits)
  have "t \<le> now" "0 \<le> now" "opOk x" "clocked now xs" using Cons.prems(2) y by auto
  with step_refines [OF Cons.prems(1) _ _ _ st] Cons.IH [OF _ _ r(1), of now] y r(2)
  show ?case by auto
qed

text \<open>
  (C22) A shard refines a map of credentials. On any sequence of insertions, removals and picks, with a
  clock that does not go back, the answers of the indexed shard are ones that the plain map of the
  credentials inserted and not removed allows: each pick answers with a usable credential that passes
  the request's test, of the highest priority among them (among those with a websocket transport when
  that is preferred and there is one), and with nothing only when there is none. At the end the shard
  holds the credentials of the map.
\<close>

theorem shard_refines_map:
  assumes "clocked 0 xs" "shardRun xs (newShard k) = (outs, m)"
  shows "specRun k xs Map.empty outs (metaAt m)"
proof -
  have "metaAt (newShard k) = Map.empty" by (simp add: fun_eq_iff shard.pool_empty)
  with run_refines [OF newShard_ok assms] show ?thesis by (simp add: newShard_def)
qed

definition sample_meta :: "string \<Rightarrow> int \<Rightarrow> int \<Rightarrow> bool \<Rightarrow> scheduledAuthMeta" where
  "sample_meta i priority weight ws =
     \<lparr>m_auth = sample_auth i, m_providerKey = ''codex'', m_priority = priority, m_weight = weight,
      m_websocketEnabled = ws, m_supportedModelSet = Some [''m''], m_registryEpoch = 1\<rparr>"

definition sample_ops :: "(time \<times> shardOp) list" where
  "sample_ops =
     [(1, Put (sample_meta ''a'' 0 1 False)), (2, Put (sample_meta ''b'' 5 1 False)),
      (2, Pick False schedulerStrategyRoundRobin (\<lambda>_. True) empty_pin), (3, Drop ''b''),
      (4, Pick False schedulerStrategyFillFirst (\<lambda>_. True) empty_pin),
      (4, Pick False schedulerStrategyFillFirst (\<lambda>m. m_weight m > 7) empty_pin)]"

lemma sample_ops_run:
  "fst (shardRun sample_ops (newShard ''m'')) =
     [None, None, Some (Some (sample_auth ''b'')), None, Some (Some (sample_auth ''a'')), Some None]"
  by code_simp

theorem shard_refines_map_witness:
  "specRun ''m'' sample_ops Map.empty
     [None, None, Some (Some (sample_auth ''b'')), None, Some (Some (sample_auth ''a'')), Some None]
     (metaAt (snd (shardRun sample_ops (newShard ''m''))))"
proof -
  have "clocked 0 sample_ops" by (simp add: sample_ops_def)
  then show ?thesis
    using shard_refines_map [of sample_ops "''m''"] sample_ops_run by (metis prod.collapse)
qed

lemma specRun_final: "specRun k xs pool outs pool' \<Longrightarrow> pool' = fold specStep xs pool"
  by (induction xs arbitrary: pool outs) auto

text \<open>
  After any such sequence, once the shard is promoted to a time not before the last operation,
  its ready views list exactly the credentials of the map that are usable for the model at that time:
  no cooldown that has ended is missed, and no credential whose token has run out is left ready.
\<close>

lemma promotion_lists_usable:
  assumes "clocked 0 xs" "shardRun xs (newShard k) = (outs, m)" "last (0 # map fst xs) \<le> now"
  shows "listedReady (promoteExpiredLocked now m) =
    {i. \<exists>meta. fold specStep xs Map.empty i = Some meta \<and> usable k now (m_auth meta)}"
proof -
  have key: "sh_modelKey (newShard k) = k" by (simp add: newShard_def)
  note r = run_refines [OF newShard_ok assms(1,2), unfolded key]
  have "metaAt m = fold specStep xs Map.empty"
    using specRun_final r by (metis ext shard.pool_empty)
  with r shard.ready_refresh [OF _ assms(3), of m k] show ?thesis by simp
qed

definition cooling_meta :: scheduledAuthMeta where
  "cooling_meta = (sample_meta ''c'' 0 1 False)
     \<lparr>m_auth := (sample_auth ''c'')\<lparr>auth_Unavailable := True, auth_NextRetryAfter := 9\<rparr>\<rparr>"

lemma promotion_lists_usable_witness:
  "\<exists>m. shardRun [(1, Put cooling_meta), (2, Put (sample_meta ''a'' 0 1 False))] (newShard ''m'') = ([None, None], m) \<and>
     listedReady (promoteExpiredLocked 5 m) = {''a''} \<and> listedReady (promoteExpiredLocked 9 m) = {''a'', ''c''}"
proof -
  let ?xs = "[(1, Put cooling_meta), (2, Put (sample_meta ''a'' 0 1 False))]"
  obtain outs m where r: "shardRun ?xs (newShard ''m'') = (outs, m)" by (rule prod.exhaust)
  have ids: "m_id cooling_meta = ''c''" "m_id (sample_meta ''a'' 0 1 False) = ''a''"
    by (simp_all add: cooling_meta_def sample_meta_def sample_auth_def)
  have "\<not> usable ''m'' 5 (m_auth cooling_meta) \<and> usable ''m'' 9 (m_auth cooling_meta) \<and>
      usable ''m'' 5 (m_auth (sample_meta ''a'' 0 1 False)) \<and> usable ''m'' 9 (m_auth (sample_meta ''a'' 0 1 False))"
    by code_simp
  with promotion_lists_usable [OF _ r, of 5] promotion_lists_usable [OF _ r, of 9] ids
  have "listedReady (promoteExpiredLocked 5 m) = {''a''}" "listedReady (promoteExpiredLocked 9 m) = {''a'', ''c''}"
    by (auto split: if_splits)
  with r show ?thesis by (auto split: prod.splits)
qed

section \<open>Round-robin\<close>

text \<open>The identifier the rotation of a priority continues after.\<close>

definition lastAt :: "modelScheduler \<Rightarrow> int \<Rightarrow> string" where
  "lastAt m p = (case map_of (sh_readyByPriority m) p of None \<Rightarrow> '''' | Some b \<Rightarrow> rv_lastPicked (rb_all b))"

lemma rebuild_last:
  assumes "keyed m" "readyIDs m p \<noteq> {}"
  shows "lastAt (rebuildIndexesLocked m) p = lastAt m p"
proof -
  define ready where "ready = filter (\<lambda>e. se_state e = scheduledStateReady) (map snd (sh_entries m))"
  have wf: "wf_map (sh_entries m)" using assms(1) by (simp add: keyed_def)
  have "p \<in> (\<lambda>e. m_priority (se_meta e)) ` set ready"
    using assms(2) unfolding readyIDs_def map_of_eq_Some_iff [OF wf]
    by (force simp: ready_def intro!: image_eqI)
  then have "map_of (sh_readyByPriority (rebuildIndexesLocked m)) p = Some (rebuildBucket (sh_entries m)
      (map_of (map (\<lambda>(p, b). (p, bucketCursors b)) (sh_readyByPriority m)) p)
      (filter (\<lambda>e. m_priority (se_meta e) = p) ready))"
    by (simp add: rebuildIndexesLocked_def Let_def ready_def [symmetric] map_of_map_restrict del: filter_filter)
  moreover have "map_of (map (\<lambda>(p, b). (p, bucketCursors b)) (sh_readyByPriority m)) p =
      map_option bucketCursors (map_of (sh_readyByPriority m) p)"
    by (simp add: map_of_map)
  ultimately show ?thesis
    by (auto simp: lastAt_def rebuildBucket_def Let_def buildReadyBucket_def buildReadyView_def
        restoreReadyViewCursors_def bucketCursors_def snapshotReadyViewCursors_def split: option.split)
qed

lemma lastAt_entries [simp]: "lastAt (m\<lparr>sh_entries := es\<rparr>) p = lastAt m p"
  by (simp add: lastAt_def)

lemma readyIDs_rebuild [simp]: "readyIDs (rebuildIndexesLocked m) = readyIDs m"
  by (simp add: fun_eq_iff readyIDs_def)

text \<open>Insertions, removals and promotions do not disturb the rotation of a priority that stays in use.\<close>

lemma kept_last:
  assumes "m' = rebuildIndexesLocked (m\<lparr>sh_entries := es\<rparr>) \<or> m' = m\<lparr>sh_entries := es\<rparr>"
    and "keyed m'" "readyIDs m' p \<noteq> {}"
  shows "lastAt m' p = lastAt m p"
  using assms(1)
proof
  assume m': "m' = rebuildIndexesLocked (m\<lparr>sh_entries := es\<rparr>)"
  with assms rebuild_last [of "m\<lparr>sh_entries := es\<rparr>" p] show ?thesis
    by simp
qed simp

lemma upsert_last:
  assumes "keyed m" "readyIDs (upsertEntryLocked meta now m) p \<noteq> {}"
  shows "lastAt (upsertEntryLocked meta now m) p = lastAt m p"
  by (rule kept_last [OF _ keyed_upsert [OF assms(1)] assms(2)])
    (auto simp: upsertEntryLocked_def Let_def split: option.split)

lemma remove_last:
  assumes "shard_ok t m" "readyIDs (removeEntryLocked i m) p \<noteq> {}"
  shows "lastAt (removeEntryLocked i m) p = lastAt m p"
proof (cases "i = '''' \<or> entryAt m i = None")
  case True
  then show ?thesis by (auto simp: removeEntryLocked_def)
next
  case False
  then have "removeEntryLocked i m = rebuildIndexesLocked (m\<lparr>sh_entries := AList.delete i (sh_entries m)\<rparr>)"
    by (auto simp: removeEntryLocked_def)
  with remove_ok [OF assms(1), of i] assms(2) show ?thesis
    by (intro kept_last [where es = "AList.delete i (sh_entries m)"]) (auto simp: shard_ok_def)
qed

lemma promote_last:
  assumes "shard_ok t m" "t \<le> now" "readyIDs (promoteExpiredLocked now m) p \<noteq> {}"
  shows "lastAt (promoteExpiredLocked now m) p = lastAt m p"
proof -
  obtain c d where d: "demoteExpiredTokensLocked now m = (c, m\<lparr>sh_entries := d\<rparr>)"
    by (simp add: demoteExpiredTokensLocked_def)
  obtain c' es where "fold (promoteStep (sh_modelKey m) now) (sh_blocked m) (c, d) = (c', es)"
    by (rule prod.exhaust)
  with d have "promoteExpiredLocked now m = rebuildIndexesLocked (m\<lparr>sh_entries := es\<rparr>) \<or>
      promoteExpiredLocked now m = m\<lparr>sh_entries := es\<rparr>"
    by (simp add: promoteExpiredLocked_def Let_def)
  from kept_last [OF this promote_spec(3) [OF assms(1,2)] assms(3)] show ?thesis .
qed

text \<open>One pick: with a credential of the highest priority in the pool, the next one on the ring.\<close>

lemma ring_pick:
  assumes "shard_ok t m" "t \<le> now" "0 \<le> now" "metaAt m '''' = None"
    and "y \<in> choices m now False schedulerStrategyRoundRobin P"
    and "\<forall>z \<in> choices m now False schedulerStrategyRoundRobin P. m_priority z \<le> m_priority y"
    and "pickReadyLocked False schedulerStrategyRoundRobin (on_meta P) now pin m = (a, m', pin')"
  defines "p \<equiv> m_priority y"
  shows "\<exists>A x. a = Some x \<and> finite A \<and> m_id y \<in> A \<and> auth_ID x = ring_next A (lastAt m p) \<and>
    lastAt m' p = auth_ID x \<and> m_id y \<in> readyIDs m' p"
proof -
  let ?S = "schedulerStrategyRoundRobin"
  define m1 where "m1 = promoteExpiredLocked now m"
  have inv: "shard_ok t m \<and> sh_modelKey m = sh_modelKey m" using assms(1) by simp
  have ok1: "keyed m1" "indexed m1" "sh_modelKey m1 = sh_modelKey m" "metaAt m1 = metaAt m"
    using promote_spec [OF assms(1,2)] shard.pool_refresh [OF inv assms(2)] by (auto simp: m1_def)
  have ready: "(\<exists>e. readyEntry m1 q e \<and> se_meta e = z \<and> P z) \<longleftrightarrow>
      z \<in> choices m now False ?S P \<and> m_priority z = q" for q z
    using ready_is_usable [OF assms(1,2), folded m1_def, of q z] by (auto simp: pool_choices_def)
  from ready [of p y] assms(5) obtain ey where ey: "readyEntry m1 p ey" "se_meta ey = y" "P y"
    by (auto simp: p_def)
  have top: "(\<exists>e. readyEntry m1 p e \<and> P (se_meta e)) \<and> (\<forall>q e. readyEntry m1 q e \<and> P (se_meta e) \<longrightarrow> q \<le> p)"
    using ey ready assms(6) unfolding p_def by metis
  then have "highestSelectablePriorityLocked m1 False ?S (on_meta P) now = Some p"
    unfolding highest_eq using first_ready(1) [OF ok1(1,2), of "on_meta P" p] by (simp add: selectable_def)
  then have pick: "pickReadyAtPriorityLocked False p ?S (on_meta P) now pin m1 = (a, m', pin')"
    using assms(7) by (simp add: pickReadyLocked_def m1_def)
  from bucket_exists [OF ok1(2) ey(1)] obtain b where b: "map_of (sh_readyByPriority m1) p = Some b" by blast
  note flat = flat_props [OF ok1(1,2) b]
  let ?flat = "flatAll m1 b"
  have in_flat: "ey \<in> set ?flat" using flat(1) ey(1) by simp
  have "se_id e \<noteq> ''''" if "e \<in> set ?flat" for e
  proof
    assume "se_id e = ''''"
    with that flat(1) have "entryAt m1 '''' = Some e" by simp
    then have "metaAt m1 '''' = Some (se_meta e)" by (simp add: metaAt_def)
    with assms(4) ok1(4) show False by simp
  qed
  then have nonempty: "'''' \<notin> se_id ` set ?flat" by force
  have last1: "lastAt m1 p = rv_lastPicked (rb_all b)" using b by (simp add: lastAt_def)
  define ring where "ring = rotate (scheduledSuccessorIndex ?flat (lastAt m1 p)) ?flat"
  have "ey \<in> set ring" using in_flat by (simp add: ring_def)
  then have "find (on_meta P) ring \<noteq> None" using ey(2,3) unfolding find_None_iff by blast
  then obtain e where e: "find (on_meta P) ring = Some e" by blast
  have next_id: "se_id e = ring_next (se_id ` {x \<in> set ?flat. P (se_meta x)}) (lastAt m1 p)"
    by (rule scheduled_ring.find_rotate_ring [OF flat(3) nonempty e [unfolded ring_def]])
  have res: "a = Some (se_auth e)" "m' = m1\<lparr>sh_readyByPriority := AList.update p
      (b\<lparr>rb_all := (rb_all b)\<lparr>rv_lastPicked := se_id e\<rparr>\<rparr>) (sh_readyByPriority m1)\<rparr>"
  proof -
    have "?flat \<noteq> []" using in_flat by auto
    with e last1 have "pickRoundRobin (sh_entries m1) (on_meta P) (rb_all b) =
        (Some e, (rb_all b)\<lparr>rv_lastPicked := se_id e\<rparr>)" by (simp add: pickRoundRobin_def ring_def)
    with pick b show "a = Some (se_auth e)" "m' = m1\<lparr>sh_readyByPriority := AList.update p
        (b\<lparr>rb_all := (rb_all b)\<lparr>rv_lastPicked := se_id e\<rparr>\<rparr>) (sh_readyByPriority m1)\<rparr>"
      by (auto simp: pickReadyAtPriorityLocked_def useWebsocketView_def pickFromView_def)
  qed
  have y: "m_id y \<in> readyIDs m1 p" using ey by (auto simp: readyIDs_def)
  have "lastAt m1 p = lastAt m p"
    unfolding m1_def by (rule promote_last [OF assms(1,2)]) (use y in \<open>auto simp: m1_def\<close>)
  moreover have "m_id y \<in> se_id ` {x \<in> set ?flat. P (se_meta x)}" using in_flat ey(2,3) by force
  ultimately show ?thesis
    using next_id res y by (intro exI [of _ "se_id ` {x \<in> set ?flat. P (se_meta x)}"] exI [of _ "se_auth e"])
      (auto simp: lastAt_def indexes_of_entries)
qed

text \<open>
  A stretch of operations during which a credential stays in service: it is usable throughout, it is
  not replaced or removed, and every pick is a round-robin pick that accepts it and finds none of
  higher priority. Everything else may come and go.
\<close>

fun in_service :: "string \<Rightarrow> scheduledAuthMeta \<Rightarrow> (time \<times> shardOp) list \<Rightarrow> credentialMap \<Rightarrow> bool" where
  "in_service k y [] pool \<longleftrightarrow> True"
| "in_service k y ((now, x) # xs) pool \<longleftrightarrow>
     pool (m_id y) = Some y \<and> usable k now (m_auth y) \<and>
     (case x of
        Put meta \<Rightarrow> m_id meta \<noteq> m_id y \<and> m_id meta \<noteq> ''''
      | Drop i \<Rightarrow> i \<noteq> m_id y
      | Pick preferWebsocket strategy P pin \<Rightarrow>
          \<not> preferWebsocket \<and> strategy = schedulerStrategyRoundRobin \<and> P y \<and>
          (\<forall>z \<in> pool_choices k pool now False strategy P. m_priority z \<le> m_priority y)) \<and>
     in_service k y xs (specStep (now, x) pool)"

definition picked_ids :: "Auth option option list \<Rightarrow> string list" where
  "picked_ids outs = map auth_ID (List.map_filter (\<lambda>out. Option.bind out id) outs)"

lemma picked_ids_simps [simp]:
  "picked_ids [] = []" "picked_ids (None # outs) = picked_ids outs"
  "picked_ids (Some (Some a) # outs) = auth_ID a # picked_ids outs"
  by (simp_all add: picked_ids_def map_filter_simps)

lemma ring_step:
  assumes "shard_ok t m" "t \<le> now" "0 \<le> now" "opOk x" "metaAt m '''' = None"
    and "in_service (sh_modelKey m) y ((now, x) # xs) (metaAt m)" "shardStep (now, x) m = (out, m')"
  shows "shard_ok now m' \<and> sh_modelKey m' = sh_modelKey m \<and> metaAt m' '''' = None \<and>
      in_service (sh_modelKey m) y xs (metaAt m')"
    and "case out of
        None \<Rightarrow> m_id y \<in> readyIDs m (m_priority y) \<longrightarrow>
          m_id y \<in> readyIDs m' (m_priority y) \<and> lastAt m' (m_priority y) = lastAt m (m_priority y)
      | Some a \<Rightarrow> \<exists>A b. a = Some b \<and> finite A \<and> m_id y \<in> A \<and>
          auth_ID b = ring_next A (lastAt m (m_priority y)) \<and> lastAt m' (m_priority y) = auth_ID b \<and>
          m_id y \<in> readyIDs m' (m_priority y)"
proof -
  note r = step_refines [OF assms(1-4,7)]
  have "specStep (now, x) (metaAt m) '''' = None" using assms(5,6) by (cases x) auto
  with r assms(6) show "shard_ok now m' \<and> sh_modelKey m' = sh_modelKey m \<and> metaAt m' '''' = None \<and>
      in_service (sh_modelKey m) y xs (metaAt m')" by simp
  have key: "keyed m" using assms(1) by (simp add: shard_ok_def)
  show "case out of
        None \<Rightarrow> m_id y \<in> readyIDs m (m_priority y) \<longrightarrow>
          m_id y \<in> readyIDs m' (m_priority y) \<and> lastAt m' (m_priority y) = lastAt m (m_priority y)
      | Some a \<Rightarrow> \<exists>A b. a = Some b \<and> finite A \<and> m_id y \<in> A \<and>
          auth_ID b = ring_next A (lastAt m (m_priority y)) \<and> lastAt m' (m_priority y) = auth_ID b \<and>
          m_id y \<in> readyIDs m' (m_priority y)"
  proof (cases x)
    case (Put meta)
    have "m_id y \<in> readyIDs m' (m_priority y)" if "m_id y \<in> readyIDs m (m_priority y)"
      using that Put assms(6,7) by (auto simp: readyIDs_def)
    with Put assms(7) upsert_last [OF key, of meta now "m_priority y"] show ?thesis by auto
  next
    case (Drop i)
    have "m_id y \<in> readyIDs m' (m_priority y)" if "m_id y \<in> readyIDs m (m_priority y)"
      using that Drop assms(6,7) by (auto simp: readyIDs_def removeEntryLocked_def)
    with Drop assms(7) remove_last [OF assms(1), of i "m_priority y"] show ?thesis by auto
  next
    case (Pick w strategy P pin)
    obtain a m1 pin' where p: "pickReadyLocked w strategy (on_meta P) now pin m = (a, m1, pin')"
      by (rule prod_cases3)
    have eq: "out = Some a" "m' = m1" "w = False" "strategy = schedulerStrategyRoundRobin"
      using Pick assms(6,7) p by auto
    have "y \<in> choices m now False schedulerStrategyRoundRobin P"
      using assms(6) Pick eq by (simp add: pool_choices_def)
    moreover have "\<forall>z \<in> choices m now False schedulerStrategyRoundRobin P. m_priority z \<le> m_priority y"
      using assms(6) Pick eq by simp
    ultimately show ?thesis
      using ring_pick [OF assms(1-3,5)] p unfolding eq by simp
  qed
qed

lemma ring_run:
  assumes "shard_ok t m" "clocked t xs" "metaAt m '''' = None"
    and "in_service (sh_modelKey m) y xs (metaAt m)" "shardRun xs m = (outs, m')"
    and "m_id y \<in> readyIDs m (m_priority y)"
  shows "\<exists>As. picked_ids outs = ring_picks As (lastAt m (m_priority y)) \<and> (\<forall>A \<in> set As. finite A \<and> m_id y \<in> A)"
  using assms
proof (induction xs arbitrary: t m outs)
  case Nil
  then show ?case by (intro exI [of _ "[]"]) simp
next
  case (Cons z xs)
  obtain now x where z: "z = (now, x)" by (rule prod.exhaust)
  obtain out m1 where st: "shardStep (now, x) m = (out, m1)" by (rule prod.exhaust)
  obtain outs' where r: "shardRun xs m1 = (outs', m')" "outs = out # outs'"
    using Cons.prems(5) st z by (auto split: prod.splits)
  have c: "t \<le> now" "0 \<le> now" "opOk x" "clocked now xs" using Cons.prems(2) z by auto
  note step = ring_step [OF Cons.prems(1) c(1-3) Cons.prems(3) Cons.prems(4) [unfolded z] st]
  have IH: "\<exists>As. picked_ids outs' = ring_picks As (lastAt m1 (m_priority y)) \<and>
      (\<forall>A \<in> set As. finite A \<and> m_id y \<in> A)" if "m_id y \<in> readyIDs m1 (m_priority y)"
    using Cons.IH [OF _ c(4) _ _ r(1) that] step(1) by simp
  show ?case
  proof (cases out)
    case None
    with step(2) Cons.prems(6) IH r(2) show ?thesis by simp
  next
    case (Some a)
    with step(2) obtain A b where b: "a = Some b" "finite A" "m_id y \<in> A"
      "auth_ID b = ring_next A (lastAt m (m_priority y))" "lastAt m1 (m_priority y) = auth_ID b"
      "m_id y \<in> readyIDs m1 (m_priority y)" by auto
    from IH [OF b(6)] obtain As where "picked_ids outs' = ring_picks As (lastAt m1 (m_priority y))"
      "\<forall>A \<in> set As. finite A \<and> m_id y \<in> A" by blast
    with b Some r(2) show ?thesis by (intro exI [of _ "A # As"]) simp
  qed
qed

text \<open>Up to the first pick the rotation may start over; from then on it is kept.\<close>

lemma ring_run_start:
  assumes "shard_ok t m" "clocked t xs" "metaAt m '''' = None"
    and "in_service (sh_modelKey m) y xs (metaAt m)" "shardRun xs m = (outs, m')"
  shows "picked_ids outs = [] \<or> (\<exists>l As. picked_ids outs = l # ring_picks As l \<and> (\<forall>A \<in> set As. finite A \<and> m_id y \<in> A))"
  using assms
proof (induction xs arbitrary: t m outs)
  case Nil
  then show ?case by simp
next
  case (Cons z xs)
  obtain now x where z: "z = (now, x)" by (rule prod.exhaust)
  obtain out m1 where st: "shardStep (now, x) m = (out, m1)" by (rule prod.exhaust)
  obtain outs' where r: "shardRun xs m1 = (outs', m')" "outs = out # outs'"
    using Cons.prems(5) st z by (auto split: prod.splits)
  have c: "t \<le> now" "0 \<le> now" "opOk x" "clocked now xs" using Cons.prems(2) z by auto
  note step = ring_step [OF Cons.prems(1) c(1-3) Cons.prems(3) Cons.prems(4) [unfolded z] st]
  show ?case
  proof (cases out)
    case None
    with Cons.IH [OF _ c(4) _ _ r(1)] step(1) r(2) show ?thesis by simp
  next
    case (Some a)
    with step(2) obtain b where b: "a = Some b" "lastAt m1 (m_priority y) = auth_ID b"
      "m_id y \<in> readyIDs m1 (m_priority y)" by auto
    from ring_run [OF _ c(4) _ _ r(1) b(3)] step(1) b(2) obtain As where
      "picked_ids outs' = ring_picks As (auth_ID b)" "\<forall>A \<in> set As. finite A \<and> m_id y \<in> A" by auto
    with b Some r(2) show ?thesis by auto
  qed
qed

text \<open>
  Round-robin starves no credential. Take any stretch of operations on a shard that was filled and
  used in any way before: while a credential stays in service, if some identifier is picked at the
  beginning of the stretch and again at its end, the credential is picked in between. Credentials may
  be added, removed or fall into cooldown meanwhile, and requests may exclude others: the rebuilds of
  the indexes do not lose the position of the rotation.
\<close>

theorem round_robin_no_starvation:
  assumes "clocked 0 (before @ xs)" "shardRun before (newShard k) = (outs0, m)" "metaAt m '''' = None"
    and "in_service k y xs (metaAt m)" "shardRun xs m = (outs, m')"
    and "2 \<le> length (picked_ids outs)" "last (picked_ids outs) = hd (picked_ids outs)"
  shows "m_id y \<in> set (picked_ids outs)"
proof -
  have c: "clocked 0 before" "clocked (last (0 # map fst before)) xs"
    using clocked_append [OF assms(1)] by auto
  have key: "sh_modelKey (newShard k) = k" by (simp add: newShard_def)
  note r = run_refines [OF newShard_ok c(1) assms(2), unfolded key]
  have "shard_ok (last (0 # map fst before)) m" "sh_modelKey m = k" using r by auto
  from ring_run_start [OF this(1) c(2) assms(3) _ assms(5), unfolded this(2), OF assms(4)] obtain l As where
    la: "picked_ids outs = l # ring_picks As l" "\<forall>A \<in> set As. finite A \<and> m_id y \<in> A"
    using assms(6) by auto
  have ne: "As \<noteq> []" using la(1) assms(6) by auto
  then have "ring_picks As l \<noteq> []" by (cases As) auto
  with la assms(7) have "l \<noteq> m_id y \<Longrightarrow> m_id y \<in> set (ring_picks As l)"
    by (intro ring_no_starvation [OF la(2) ne]) auto
  with la(1) show ?thesis by auto
qed

definition ring_before :: "(time \<times> shardOp) list" where
  "ring_before = [(1, Put (sample_meta ''a'' 0 1 False)), (2, Put (sample_meta ''b'' 0 1 False))]"

definition ring_ops :: "(time \<times> shardOp) list" where
  "ring_ops = [(3, Pick False schedulerStrategyRoundRobin (\<lambda>_. True) empty_pin),
     (4, Put (sample_meta ''c'' 0 1 False)),
     (5, Pick False schedulerStrategyRoundRobin (\<lambda>_. True) empty_pin), (5, Drop ''c''),
     (6, Pick False schedulerStrategyRoundRobin (\<lambda>_. True) empty_pin)]"

lemma ring_ops_run:
  "picked_ids (fst (shardRun ring_ops (snd (shardRun ring_before (newShard ''m''))))) = [''a'', ''b'', ''a'']"
  by code_simp

theorem round_robin_no_starvation_witness:
  "m_id (sample_meta ''b'' 0 1 False) \<in>
     set (picked_ids (fst (shardRun ring_ops (snd (shardRun ring_before (newShard ''m''))))))"
proof -
  let ?b = "sample_meta ''b'' 0 1 False"
  obtain outs0 m where m: "shardRun ring_before (newShard ''m'') = (outs0, m)" by (rule prod.exhaust)
  obtain outs m' where o: "shardRun ring_ops m = (outs, m')" by (rule prod.exhaust)
  have c: "clocked 0 (ring_before @ ring_ops)" by (simp add: ring_before_def ring_ops_def)
  have ids: "m_id (sample_meta i p w ws) = i" "m_priority (sample_meta i p w ws) = p" for i p w ws
    by (simp_all add: sample_meta_def sample_auth_def)
  have "metaAt m = fold specStep ring_before (metaAt (newShard ''m''))"
    using run_refines [OF newShard_ok clocked_append(1) [OF c] m] specRun_final by blast
  then have pool: "metaAt m = [''a'' \<mapsto> sample_meta ''a'' 0 1 False, ''b'' \<mapsto> ?b]"
    by (simp add: ring_before_def fun_eq_iff shard.pool_empty ids)
  have u: "usable ''m'' t (m_auth ?b)" if "t \<in> {3, 4, 5, 6}" for t
  proof -
    have "\<forall>t \<in> set [3, 4, 5, 6 :: time]. usable ''m'' t (m_auth ?b)" by code_simp
    with that show ?thesis by auto
  qed
  have low: "\<forall>z \<in> pool_choices ''m'' pool now False st P. m_priority z \<le> 0"
    if "\<And>i z. pool i = Some z \<Longrightarrow> m_priority z = 0" for pool now st P
    using that by (auto simp: pool_choices_def)
  have zero: "m_priority z = 0" if "([''a'' \<mapsto> sample_meta ''a'' 0 1 False, ''b'' \<mapsto> ?b]) i = Some z \<or>
      ([''a'' \<mapsto> sample_meta ''a'' 0 1 False, ''b'' \<mapsto> ?b, ''c'' \<mapsto> sample_meta ''c'' 0 1 False]) i = Some z" for i z
    using that by (auto simp: ids split: if_splits)
  have "([''a'' \<mapsto> sample_meta ''a'' 0 1 False, ''b'' \<mapsto> ?b, ''c'' \<mapsto> sample_meta ''c'' 0 1 False])(''c'' := None) =
      [''a'' \<mapsto> sample_meta ''a'' 0 1 False, ''b'' \<mapsto> ?b]" by (simp add: fun_eq_iff)
  then have "in_service ''m'' ?b ring_ops (metaAt m)"
    unfolding pool ring_ops_def using u low [OF zero [OF disjI1]] low [OF zero [OF disjI2]]
    by (simp add: ids fun_upd_same fun_upd_other del: fun_upd_apply)
  with round_robin_no_starvation [OF c m _ _ o, of ?b] ring_ops_run m o pool show ?thesis by simp
qed

section \<open>Weighted picks\<close>

abbreviation entryWeight :: "scheduledAuth \<Rightarrow> int" where "entryWeight e \<equiv> m_weight (se_meta e)"

definition weightedPickAt :: "int \<Rightarrow> (scheduledAuth \<Rightarrow> bool) \<Rightarrow> time \<Rightarrow> quotaDrainPin \<Rightarrow> modelScheduler \<Rightarrow>
    Auth option \<times> modelScheduler" where
  "weightedPickAt p P now pin m =
     (let (a, m', pin') = pickReadyAtPriorityLocked False p schedulerStrategyWeightedRoundRobin P now pin m
      in (a, m'))"

lemma weightVector_props:
  "wf_map (scheduledWeightVectorMatching es P)"
  "fst ` set (scheduledWeightVectorMatching es P) \<subseteq> se_id ` set es"
proof -
  let ?f = "\<lambda>e ws. if entryWeight e \<le> 0 then ws else if \<not> P e then ws
      else AList.update (se_id e) (entryWeight e) ws"
  have "wf_map (fold ?f xs ws) \<and> fst ` set (fold ?f xs ws) \<subseteq> fst ` set ws \<union> se_id ` set xs" if "wf_map ws" for xs ws
    using that
  proof (induction xs arbitrary: ws)
    case (Cons x xs)
    have wf: "wf_map (?f x ws)" using Cons.prems by simp
    have "fst ` set (?f x ws) \<subseteq> insert (se_id x) (fst ` set ws)" by (simp add: dom_update subset_insertI)
    then have "fst ` set (?f x ws) \<union> se_id ` set xs \<subseteq> fst ` set ws \<union> se_id ` set (x # xs)"
      unfolding list.set(2) image_insert by blast
    with Cons.IH [OF wf] show ?case unfolding fold_simps(2) by (meson order_trans)
  qed simp
  from this [of "[]" es] show "wf_map (scheduledWeightVectorMatching es P)"
    "fst ` set (scheduledWeightVectorMatching es P) \<subseteq> se_id ` set es"
    by (auto simp: scheduledWeightVectorMatching_def)
qed

lemma weightedPickAt_step:
  assumes "map_of (sh_readyByPriority m) p = Some b" "length (flatAll m b) \<le> 1024" "flatAll m b \<noteq> []"
    and "steady se_id (flatAll m b) (scheduledWeightVectorMatching (flatAll m b) P) (rv_weightedState (rb_all b))"
    and "pickSmoothWeightedScheduled P (flatAll m b) (sw_current (rv_weightedState (rb_all b))) = (x, cur)"
  shows "\<exists>m' b'. weightedPickAt p P now pin m = (map_option se_auth x, m') \<and>
    map_of (sh_readyByPriority m') p = Some b' \<and> flatAll m' b' = flatAll m b \<and>
    sw_current (rv_weightedState (rb_all b')) = cur \<and>
    steady se_id (flatAll m b) (scheduledWeightVectorMatching (flatAll m b) P) (rv_weightedState (rb_all b'))"
proof -
  let ?flat = "flatAll m b" and ?vec = "scheduledWeightVectorMatching (flatAll m b) P"
  let ?st = "rv_weightedState (rb_all b)"
  note prep = prepare_steady [OF assms(4) weightVector_props assms(2)]
  let ?view = "(rb_all b)\<lparr>rv_weightedState := (prepare ?vec ?st)\<lparr>sw_current := cur\<rparr>\<rparr>"
  have "pickWeighted (sh_entries m) P (rb_all b) = (x, ?view)"
    using assms(3,5) prep(1) by (simp add: pickWeighted_def)
  then have "weightedPickAt p P now pin m = (map_option se_auth x,
      m\<lparr>sh_readyByPriority := AList.update p (b\<lparr>rb_all := ?view\<rparr>) (sh_readyByPriority m)\<rparr>)"
    using assms(1) by (simp add: weightedPickAt_def pickReadyAtPriorityLocked_def useWebsocketView_def pickFromView_def)
  moreover have "wf_map cur \<and> fst ` set cur \<subseteq> se_id ` set ?flat"
    using smooth_pick_keys [of "sw_current ?st" "se_id ` set ?flat" se_id
        "filter (\<lambda>e. 0 < entryWeight e \<and> P e) ?flat" entryWeight] assms(4,5)
    by (auto simp: steady_def pickSmoothWeightedScheduled_reference)
  ultimately show ?thesis using prep(2) by (auto simp: steady_def)
qed

lemma weightedPickAt_run:
  assumes "map_of (sh_readyByPriority m) p = Some b" "length (flatAll m b) \<le> 1024" "flatAll m b \<noteq> []"
    and "steady se_id (flatAll m b) (scheduledWeightVectorMatching (flatAll m b) P) (rv_weightedState (rb_all b))"
  shows "fst (iterate_picks (weightedPickAt p P now pin) k m) =
    map se_auth (fst (iterate_picks (pickSmoothWeightedScheduled P (flatAll m b)) k (sw_current (rv_weightedState (rb_all b)))))"
  using assms
proof (induction k arbitrary: m b)
  case (Suc k)
  obtain x cur where x: "pickSmoothWeightedScheduled P (flatAll m b) (sw_current (rv_weightedState (rb_all b))) = (x, cur)"
    by (rule prod.exhaust)
  from weightedPickAt_step [OF Suc.prems x, of now pin] obtain m' b' where
    s: "weightedPickAt p P now pin m = (map_option se_auth x, m')" "map_of (sh_readyByPriority m') p = Some b'"
    "flatAll m' b' = flatAll m b" "sw_current (rv_weightedState (rb_all b')) = cur"
    "steady se_id (flatAll m b) (scheduledWeightVectorMatching (flatAll m b) P) (rv_weightedState (rb_all b'))"
    by blast
  have "fst (iterate_picks (weightedPickAt p P now pin) k m') =
      map se_auth (fst (iterate_picks (pickSmoothWeightedScheduled P (flatAll m b)) k cur))"
    using Suc.IH [OF s(2)] Suc.prems(2,3) s(3-5) by simp
  with s(1) x show ?case by (cases x) (auto split: prod.split)
qed simp

lemma iterate_picks_in:
  assumes "\<And>s x. fst (f s) = Some x \<Longrightarrow> x \<in> A"
  shows "set (fst (iterate_picks f k s)) \<subseteq> A"
proof (induction k arbitrary: s)
  case (Suc k)
  obtain r s' where r: "f s = (r, s')" by (rule prod.exhaust)
  with Suc [of s'] assms [of s] show ?case by (cases r) (auto split: prod.split)
qed simp

lemma count_map_inj: "inj_on f (insert x (set xs)) \<Longrightarrow> count_list (map f xs) (f x) = count_list xs x"
  by (induction xs) (auto simp: inj_on_def)

text \<open>
  Weighted picks follow the weights exactly. In a shard, take the entries ready at a priority that
  pass the request's test, with no credit recorded yet: over any number of picks none exceeds its
  share by a whole turn, and over as many picks as the total of the weights each is picked exactly
  its weight times. The arithmetic saturates at 64 bits; within the bounds of the configuration it
  never does.
\<close>

theorem weighted_shares:
  assumes "shard_ok t m" "map_of (sh_readyByPriority m) p = Some b"
    and "rv_weightedState (rb_all b) = empty_weighted" "length (flatAll m b) \<le> 1024"
    and "\<forall>e \<in> set (flatAll m b). entryWeight e \<le> Max_weight"
    and "E = {e. readyEntry m p e \<and> P e \<and> 0 < entryWeight e}" "W = sum entryWeight E" "E \<noteq> {}"
    and "picks = fst (iterate_picks (weightedPickAt p P now pin) k m)"
  shows "length picks = k \<and>
    (\<forall>e \<in> E. W * int (count_list picks (se_auth e)) < int k * entryWeight e + W \<and>
       (int k = W \<longrightarrow> int (count_list picks (se_auth e)) = entryWeight e))"
proof -
  let ?flat = "flatAll m b"
  have ok: "keyed m" "indexed m" using assms(1) by (auto simp: shard_ok_def)
  note flat = flat_props [OF ok assms(2)]
  have E: "set (scheduled_weighted.candidates P ?flat) = E"
    using flat(1) assms(6) by (auto simp: scheduled_weighted.candidates_def)
  have dist: "distinct (map se_id ?flat)" using flat(3) by (simp add: strict_sorted_iff)
  have ne: "scheduled_weighted.candidates P ?flat \<noteq> []" using E assms(8) by auto
  then have ne2: "?flat \<noteq> []" by (auto simp: scheduled_weighted.candidates_def)
  obtain ps cur where ps: "iterate_picks (pickSmoothWeightedScheduled P ?flat) k [] = (ps, cur)" by (rule prod.exhaust)
  have "steady se_id ?flat (scheduledWeightVectorMatching ?flat P) empty_weighted"
    by (simp add: steady_def empty_weighted_def)
  then have picks: "picks = map se_auth ps"
    using weightedPickAt_run [OF assms(2,4) ne2, of P now pin k] ps assms(3,9) by (simp add: empty_weighted_def)
  have fair: "length ps = k \<and> (\<forall>e \<in> E. W * int (count_list ps e) < int k * entryWeight e + W \<and>
      (int k = W \<longrightarrow> int (count_list ps e) = entryWeight e \<and> credit se_id cur e = 0))"
    using scheduled_weighted.fair_run [OF dist _ assms(5) ne _ ps, of W] assms(4,7) E by (simp add: get_or_def)
  have "set (scheduled_weighted.candidates P ?flat) \<subseteq> set ?flat" by (auto simp: scheduled_weighted.candidates_def)
  moreover have "set (fst (iterate_picks (pickSmoothWeightedScheduled P ?flat) k [])) \<subseteq>
      set (scheduled_weighted.candidates P ?flat)"
    by (rule iterate_picks_in) (rule scheduled_weighted.pick_in)
  ultimately have in_flat: "set ps \<subseteq> set ?flat" using ps by simp
  have inj: "inj_on se_auth (set ?flat)"
    using dist by (auto simp: distinct_map inj_on_def)
  have "count_list picks (se_auth e) = count_list ps e" if "e \<in> E" for e
  proof -
    have "e \<in> set ?flat" using that E by (auto simp: scheduled_weighted.candidates_def)
    with inj in_flat show ?thesis unfolding picks
      by (intro count_map_inj [OF inj_on_subset [OF inj]]) auto
  qed
  with fair picks show ?thesis by simp
qed

definition weighted_shard :: modelScheduler where
  "weighted_shard = fold (\<lambda>meta. upsertEntryLocked meta 1)
     [sample_meta ''a'' 0 2 False, sample_meta ''b'' 0 1 False, sample_meta ''c'' 0 0 False] (newShard ''m'')"

theorem weighted_shares_witness:
  "fst (iterate_picks (weightedPickAt 0 (\<lambda>_. True) 1 empty_pin) 3 weighted_shard) =
     [sample_auth ''a'', sample_auth ''b'', sample_auth ''a''] \<and>
   int (count_list (fst (iterate_picks (weightedPickAt 0 (\<lambda>_. True) 1 empty_pin) 3 weighted_shard))
     (sample_auth ''a'')) = 2"
proof -
  let ?e = "\<lambda>i w. evaluateEntry ''m'' 1 (sample_meta i 0 w False)"
  have key: "sh_modelKey (newShard ''m'') = ''m''" by (simp add: newShard_def)
  have "shard_ok 1 (fold (\<lambda>meta. upsertEntryLocked meta 1) metas (newShard ''m''))" for metas
    using shard.fill_invar [of 0 "newShard ''m''" "''m''" 1] newShard_ok key by simp
  then have ok: "shard_ok 1 weighted_shard" unfolding weighted_shard_def .
  have "case map_of (sh_readyByPriority weighted_shard) 0 of None \<Rightarrow> False
    | Some b \<Rightarrow> rv_weightedState (rb_all b) = empty_weighted \<and>
        flatAll weighted_shard b = [?e ''a'' 2, ?e ''b'' 1, ?e ''c'' 0]" by code_simp
  then obtain b where b: "map_of (sh_readyByPriority weighted_shard) 0 = Some b"
    "rv_weightedState (rb_all b) = empty_weighted" "flatAll weighted_shard b = [?e ''a'' 2, ?e ''b'' 1, ?e ''c'' 0]"
    by (auto split: option.splits)
  have run: "fst (iterate_picks (weightedPickAt 0 (\<lambda>_. True) 1 empty_pin) 3 weighted_shard) =
     [sample_auth ''a'', sample_auth ''b'', sample_auth ''a'']" by code_simp
  have w: "entryWeight (?e i w) = w" "se_auth (?e i w) = sample_auth i" for i w by (simp_all add: sample_meta_def)
  have "{e. readyEntry weighted_shard 0 e} = set (flatAll weighted_shard b)"
    using flat_props(1) [OF _ _ b(1)] ok by (simp add: shard_ok_def)
  then have E: "{e. readyEntry weighted_shard 0 e \<and> True \<and> 0 < entryWeight e} = {?e ''a'' 2, ?e ''b'' 1}"
    using b(3) w by auto
  have "?e ''a'' 2 \<noteq> ?e ''b'' 1" using w by (metis numeral_One numeral_eq_iff semiring_norm(85))
  then have W: "sum entryWeight {?e ''a'' 2, ?e ''b'' 1} = 3" by (simp add: sample_meta_def)
  have max: "\<forall>e \<in> set (flatAll weighted_shard b). entryWeight e \<le> Max_weight" using b(3) w by simp
  have len: "length (flatAll weighted_shard b) \<le> 1024" using b(3) by simp
  from weighted_shares [OF ok b(1,2) len max E [symmetric] W [symmetric] _ refl, of 1 empty_pin 3] run w
  show ?thesis by simp
qed

end
