(* ===== verification/Scheduler.thy ===== *)
theory Scheduler
  imports Shard_Runs
begin

text \<open>
  The scheduler of \<open>sdk/cliproxy/auth/scheduler.go\<close>: \<open>authScheduler\<close>, which follows the credentials of
  the manager incrementally, and \<open>providerScheduler\<close>, which keeps the metadata of one provider's
  credentials and one shard per model.

  Every operation runs while the mutex is held and is one step here; the time it reads is an argument,
  read once per critical section. What the operations read of the model registry (the models of a
  client and its registration epoch) is an argument as well. The pins of quota drain are shared
  between the scheduler and its providers by pointers and survive rebuilds; they are one map of the
  scheduler here, under the provider and the model. A nil map reads as an empty one.
\<close>

section \<open>Data\<close>

record scheduledGenerationMeta =
  g_epoch :: nat
  g_generation :: nat
  g_updatedAt :: time

record providerScheduler =
  ps_providerKey :: string
  ps_auths :: "(string \<times> scheduledAuthMeta) list"
  ps_modelShards :: "(string \<times> modelScheduler) list"

record authScheduler =
  s_strategy :: schedulerStrategy
  s_providers :: "(string \<times> providerScheduler) list"
  s_authProviders :: "(string \<times> string) list"
  s_authGenerations :: "(string \<times> scheduledGenerationMeta) list"
  s_mixedCursors :: "(string \<times> nat) list"
  s_mixedWeightedStates :: "(string \<times> smoothWeightedState) list"
  s_quotaPins :: "((string \<times> string) \<times> quotaDrainPin) list"

text \<open>The selectors as the scheduler tells them apart.\<close>

datatype Selector =
    NilSelector | RoundRobinSelectorKind | FillFirstSelectorKind | WeightedRoundRobinSelectorKind
  | QuotaDrainSelectorKind | OtherSelector

text \<open>What the registry answers at the time of a call.\<close>

record modelDirectory =
  dir_GetModelsForClient :: "string \<Rightarrow> string list"
  dir_ClientRegistrationEpoch :: "string \<Rightarrow> nat"

text \<open>What a request carries: its eligibility test, the pinned credential, those tried, the transport.\<close>

record pickRequest =
  rq_allows :: "Auth \<Rightarrow> bool"
  rq_pinnedAuthID :: string
  rq_tried :: "string list"
  rq_downstreamWebsocket :: bool

abbreviation uint64_modulus :: nat where "uint64_modulus \<equiv> 18446744073709551616"

section \<open>Construction\<close>

fun selectorStrategy :: "Selector \<Rightarrow> schedulerStrategy" where
  "selectorStrategy FillFirstSelectorKind = schedulerStrategyFillFirst"
| "selectorStrategy QuotaDrainSelectorKind = schedulerStrategyQuotaDrain"
| "selectorStrategy WeightedRoundRobinSelectorKind = schedulerStrategyWeightedRoundRobin"
| "selectorStrategy NilSelector = schedulerStrategyRoundRobin"
| "selectorStrategy RoundRobinSelectorKind = schedulerStrategyRoundRobin"
| "selectorStrategy OtherSelector = schedulerStrategyCustom"

definition newAuthScheduler :: "Selector \<Rightarrow> authScheduler" where
  "newAuthScheduler selector =
     \<lparr>s_strategy = selectorStrategy selector, s_providers = [], s_authProviders = [],
      s_authGenerations = [], s_mixedCursors = [], s_mixedWeightedStates = [], s_quotaPins = []\<rparr>"

definition setSelector :: "Selector \<Rightarrow> authScheduler \<Rightarrow> authScheduler" where
  "setSelector selector s =
     s\<lparr>s_strategy := selectorStrategy selector, s_mixedCursors := [], s_mixedWeightedStates := [],
       s_quotaPins := map (\<lambda>(key, pin). (key, empty_pin)) (s_quotaPins s)\<rparr>"

definition isSchedulableAuth :: "Auth \<Rightarrow> (string \<times> string) option" where
  "isSchedulableAuth a =
     (if auth_Disabled a \<or> auth_Status a = StatusDisabled then None
      else let authID = trim_space (auth_ID a)
           in if authID = '''' then None
              else let providerKey = executorKeyFromAuth a
                   in if providerKey = '''' then None else Some (authID, providerKey))"

section \<open>Metadata\<close>

definition supportedModelSetForAuth :: "modelDirectory \<Rightarrow> string \<Rightarrow> string list option" where
  "supportedModelSetForAuth dir authID =
     (let authID = trim_space authID
      in if authID = '''' then None
         else let models = dir_GetModelsForClient dir authID
              in if models = [] then None
                 else Some (remdups (filter (\<lambda>k. k \<noteq> '''') (map canonicalModelKey models))))"

definition buildScheduledAuthMetaWithModelSet ::
    "Auth \<Rightarrow> string list option \<Rightarrow> nat \<Rightarrow> scheduledAuthMeta" where
  "buildScheduledAuthMetaWithModelSet a modelSet regEpoch =
     \<lparr>m_auth = a, m_providerKey = executorKeyFromAuth a, m_priority = authPriority a,
      m_weight = authWeight a, m_websocketEnabled = authWebsocketsEnabled a,
      m_supportedModelSet = modelSet, m_registryEpoch = regEpoch\<rparr>"

section \<open>One provider\<close>

definition newProvider :: "string \<Rightarrow> providerScheduler" where
  "newProvider providerKey = \<lparr>ps_providerKey = providerKey, ps_auths = [], ps_modelShards = []\<rparr>"

text \<open>One shard brought up to date with the metadata of a credential: entered or taken out.\<close>

definition refreshShard :: "scheduledAuthMeta \<Rightarrow> time \<Rightarrow> string \<Rightarrow> modelScheduler \<Rightarrow> modelScheduler" where
  "refreshShard meta now modelKey shard =
     (if \<not> supportsModel meta modelKey then removeEntryLocked (m_id meta) shard
      else upsertEntryLocked meta now shard)"

definition refreshShardAt :: "scheduledAuthMeta \<Rightarrow> time \<Rightarrow> string \<Rightarrow> providerScheduler \<Rightarrow> providerScheduler" where
  "refreshShardAt meta now modelKey p =
     (case map_of (ps_modelShards p) modelKey of
        None \<Rightarrow> p
      | Some shard \<Rightarrow>
          p\<lparr>ps_modelShards := AList.update modelKey (refreshShard meta now modelKey shard) (ps_modelShards p)\<rparr>)"

definition updateTargetShardsLocked ::
    "scheduledAuthMeta \<Rightarrow> string list \<Rightarrow> time \<Rightarrow> providerScheduler \<Rightarrow> providerScheduler" where
  "updateTargetShardsLocked meta targetModels now p =
     (let p = refreshShardAt meta now '''' p;
          keys = rev (remdups (rev (map canonicalModelKey targetModels)))
      in fold (refreshShardAt meta now) keys p)"

definition upsertAuthForModelsLocked ::
    "scheduledAuthMeta \<Rightarrow> string list \<Rightarrow> bool \<Rightarrow> time \<Rightarrow> providerScheduler \<Rightarrow> providerScheduler" where
  "upsertAuthForModelsLocked meta targetModels credentialScoped now p =
     (let p = p\<lparr>ps_auths := AList.update (m_id meta) meta (ps_auths p)\<rparr>
      in if credentialScoped \<or> targetModels = []
         then p\<lparr>ps_modelShards := map (\<lambda>(k, shard). (k, refreshShard meta now k shard)) (ps_modelShards p)\<rparr>
         else updateTargetShardsLocked meta targetModels now p)"

definition providerRemoveAuthLocked :: "string \<Rightarrow> providerScheduler \<Rightarrow> providerScheduler" where
  "providerRemoveAuthLocked authID p =
     (if authID = '''' then p
      else p\<lparr>ps_auths := AList.delete authID (ps_auths p),
             ps_modelShards := map (\<lambda>(k, shard). (k, removeEntryLocked authID shard)) (ps_modelShards p)\<rparr>)"

text \<open>The shard of a model, built from the provider's credentials at its first use.\<close>

definition ensureModelLocked :: "string \<Rightarrow> time \<Rightarrow> providerScheduler \<Rightarrow> modelScheduler \<times> providerScheduler" where
  "ensureModelLocked modelKey now p =
     (let modelKey = canonicalModelKey modelKey;
          shard = (case map_of (ps_modelShards p) modelKey of
                     Some shard \<Rightarrow> promoteExpiredLocked now shard
                   | None \<Rightarrow> fold (\<lambda>(i, meta) shard.
                                 if supportsModel meta modelKey then upsertEntryLocked meta now shard else shard)
                               (ps_auths p) (newShard modelKey))
      in (shard, p\<lparr>ps_modelShards := AList.update modelKey shard (ps_modelShards p)\<rparr>))"

section \<open>Credentials come and go\<close>

definition isStaleScheduledAuth :: "string \<Rightarrow> nat \<Rightarrow> nat \<Rightarrow> time \<Rightarrow> authScheduler \<Rightarrow> bool" where
  "isStaleScheduledAuth authID incomingEpoch incomingGen incomingUpdatedAt s \<longleftrightarrow>
     (case map_of (s_authGenerations s) authID of
        None \<Rightarrow> False
      | Some existing \<Rightarrow>
          (if g_epoch existing > incomingEpoch then True
           else if g_epoch existing = incomingEpoch
           then g_generation existing > incomingGen \<or>
                (g_generation existing = incomingGen \<and> g_updatedAt existing > incomingUpdatedAt)
           else False))"

definition recordGeneration :: "string \<Rightarrow> nat \<Rightarrow> nat \<Rightarrow> time \<Rightarrow> authScheduler \<Rightarrow> authScheduler" where
  "recordGeneration authID epoch generation updatedAt s =
     s\<lparr>s_authGenerations := AList.update authID
         \<lparr>g_epoch = epoch, g_generation = generation, g_updatedAt = updatedAt\<rparr> (s_authGenerations s)\<rparr>"

text \<open>The change of a provider in place, where there is one.\<close>

definition onProvider :: "string \<Rightarrow> (providerScheduler \<Rightarrow> providerScheduler) \<Rightarrow> authScheduler \<Rightarrow> authScheduler" where
  "onProvider providerKey f s =
     (case map_of (s_providers s) providerKey of
        None \<Rightarrow> s
      | Some p \<Rightarrow> s\<lparr>s_providers := AList.update providerKey (f p) (s_providers s)\<rparr>)"

definition removeAuthFromProvidersLocked :: "string \<Rightarrow> authScheduler \<Rightarrow> authScheduler" where
  "removeAuthFromProvidersLocked authID s =
     (let providerKey = get_or '''' (s_authProviders s) authID
      in if providerKey = '''' then s
         else let s = onProvider providerKey (providerRemoveAuthLocked authID) s
              in s\<lparr>s_authProviders := AList.delete authID (s_authProviders s)\<rparr>)"

text \<open>A credential that changes provider leaves the shards of the old one.\<close>

definition leavePreviousProvider :: "string \<Rightarrow> string \<Rightarrow> authScheduler \<Rightarrow> authScheduler" where
  "leavePreviousProvider authID providerKey s =
     (let previousProvider = get_or '''' (s_authProviders s) authID
      in if previousProvider \<noteq> '''' \<and> previousProvider \<noteq> providerKey
         then onProvider previousProvider (providerRemoveAuthLocked authID) s else s)"

definition ensureProviderLocked :: "string \<Rightarrow> authScheduler \<Rightarrow> authScheduler" where
  "ensureProviderLocked providerKey s =
     (case map_of (s_providers s) providerKey of
        Some p \<Rightarrow> s
      | None \<Rightarrow> s\<lparr>s_providers := AList.update providerKey (newProvider providerKey) (s_providers s)\<rparr>)"

text \<open>The end of every insertion: the provider is made, the owner noted, the shards updated.\<close>

definition scheduleMeta ::
    "string \<Rightarrow> string \<Rightarrow> scheduledAuthMeta \<Rightarrow> string list \<Rightarrow> bool \<Rightarrow> time \<Rightarrow> authScheduler \<Rightarrow> authScheduler" where
  "scheduleMeta authID providerKey meta targetModels credentialScoped now s =
     (let s = ensureProviderLocked providerKey s;
          s = s\<lparr>s_authProviders := AList.update authID providerKey (s_authProviders s)\<rparr>
      in onProvider providerKey (upsertAuthForModelsLocked meta targetModels credentialScoped now) s)"

definition upsertAuthLifecycleLocked :: "modelDirectory \<Rightarrow> Auth \<Rightarrow> time \<Rightarrow> authScheduler \<Rightarrow> authScheduler" where
  "upsertAuthLifecycleLocked dir a now s =
     (let authID = trim_space (auth_ID a)
      in if authID = '''' then s
         else if isStaleScheduledAuth authID (auth_RegistrationEpoch a) (auth_Generation a) (auth_UpdatedAt a) s then s
         else let s = recordGeneration authID (auth_RegistrationEpoch a) (auth_Generation a) (auth_UpdatedAt a) s;
                  providerKey = executorKeyFromAuth a
              in if providerKey = '''' \<or> auth_Disabled a \<or> auth_Status a = StatusDisabled
                 then removeAuthFromProvidersLocked authID s
                 else let s = leavePreviousProvider authID providerKey s;
                          regEpoch = dir_ClientRegistrationEpoch dir authID;
                          meta = buildScheduledAuthMetaWithModelSet a (supportedModelSetForAuth dir (auth_ID a)) regEpoch
                      in scheduleMeta authID providerKey meta [] True now s)"

definition isCredentialBlocked :: "Auth \<Rightarrow> nat \<Rightarrow> time \<Rightarrow> bool" where
  "isCredentialBlocked a supportedModelCount now \<longleftrightarrow>
     (if auth_Disabled a \<or> auth_Status a = StatusDisabled then True
      else if hasUnauthorizedAuthFailure a then True
      else if tokenExpired a now then True
      else if credentialQuotaActive a now then True
      else if auth_ModelStates a = []
      then auth_Unavailable a \<or> quota_Exceeded (auth_Quota a) \<or>
           (auth_NextRetryAfter a \<noteq> 0 \<and> auth_NextRetryAfter a > now)
      else if supportedModelCount > 0 \<and> length (auth_ModelStates a) < supportedModelCount then False
      else auth_Unavailable a)"

definition upsertAuthResultLocked ::
    "modelDirectory \<Rightarrow> Auth \<Rightarrow> string list \<Rightarrow> bool \<Rightarrow> time \<Rightarrow> authScheduler \<Rightarrow> authScheduler" where
  "upsertAuthResultLocked dir a targetModels credentialScoped now s =
     (let authID = trim_space (auth_ID a)
      in if authID = '''' then s
         else let providerKey = executorKeyFromAuth a
         in if isStaleScheduledAuth authID (auth_RegistrationEpoch a) (auth_Generation a) (auth_UpdatedAt a) s
         then (if providerKey = '''' then s
               else onProvider providerKey (\<lambda>p. case map_of (ps_auths p) authID of
                      None \<Rightarrow> p
                    | Some latestMeta \<Rightarrow> upsertAuthForModelsLocked latestMeta targetModels credentialScoped now p) s)
         else let s = recordGeneration authID (auth_RegistrationEpoch a) (auth_Generation a) (auth_UpdatedAt a) s
         in if providerKey = '''' \<or> auth_Disabled a \<or> auth_Status a = StatusDisabled
         then removeAuthFromProvidersLocked authID s
         else let s = leavePreviousProvider authID providerKey s;
                  existingMeta = Option.bind (map_of (s_providers s) providerKey) (\<lambda>p. map_of (ps_auths p) authID);
                  currentRegEpoch = dir_ClientRegistrationEpoch dir authID;
                  modelSetChanged = (case existingMeta of
                      None \<Rightarrow> True
                    | Some m \<Rightarrow> m_supportedModelSet m = None \<or> m_registryEpoch m \<noteq> currentRegEpoch);
                  modelSet = (if modelSetChanged then supportedModelSetForAuth dir (auth_ID a)
                              else m_supportedModelSet (the existingMeta));
                  meta = buildScheduledAuthMetaWithModelSet a modelSet currentRegEpoch;
                  modelCount = (case modelSet of None \<Rightarrow> 0 | Some ms \<Rightarrow> length ms);
                  wasBlocked = (case existingMeta of None \<Rightarrow> False
                                | Some m \<Rightarrow> isCredentialBlocked (m_auth m) modelCount now);
                  isBlocked = isCredentialBlocked a modelCount now
              in if modelSetChanged \<or> credentialScoped \<or> wasBlocked \<noteq> isBlocked \<or> targetModels = []
                 then scheduleMeta authID providerKey meta [] True now s
                 else scheduleMeta authID providerKey meta targetModels credentialScoped now s)"

definition recordRemovalTombstoneLocked :: "string \<Rightarrow> nat \<Rightarrow> time \<Rightarrow> authScheduler \<Rightarrow> authScheduler" where
  "recordRemovalTombstoneLocked authID tombstoneEpoch now s =
     (if authID = '''' then s
      else if (case map_of (s_authGenerations s) authID of None \<Rightarrow> False
               | Some existing \<Rightarrow> tombstoneEpoch < g_epoch existing) then s
      else removeAuthFromProvidersLocked authID (recordGeneration authID tombstoneEpoch 0 now s))"

definition RecordRemovalTombstone :: "string \<Rightarrow> nat \<Rightarrow> time \<Rightarrow> authScheduler \<Rightarrow> authScheduler" where
  "RecordRemovalTombstone authID tombstoneEpoch now s =
     recordRemovalTombstoneLocked (trim_space authID) tombstoneEpoch now s"

definition removeAuthLocked :: "string \<Rightarrow> time \<Rightarrow> authScheduler \<Rightarrow> authScheduler" where
  "removeAuthLocked authID now s =
     (if authID = '''' then s
      else let epoch = (case map_of (s_authGenerations s) authID of
                          None \<Rightarrow> 1 | Some existing \<Rightarrow> (g_epoch existing + 1) mod uint64_modulus)
           in removeAuthFromProvidersLocked authID (recordGeneration authID epoch 0 now s))"

definition removeAuth :: "string \<Rightarrow> time \<Rightarrow> authScheduler \<Rightarrow> authScheduler" where
  "removeAuth authID now s = removeAuthLocked (trim_space authID) now s"

definition ResetAuthGeneration :: "string \<Rightarrow> authScheduler \<Rightarrow> authScheduler" where
  "ResetAuthGeneration authID s =
     (let authID = trim_space authID
      in if authID = '''' then s
         else s\<lparr>s_authGenerations := AList.delete authID (s_authGenerations s)\<rparr>)"

section \<open>Rebuilding from a snapshot\<close>

definition existingMetas :: "authScheduler \<Rightarrow> (string \<times> scheduledAuthMeta) list" where
  "existingMetas s = fold (\<lambda>(pk, p) metas. fold (\<lambda>(i, meta) metas. AList.update i meta metas) (ps_auths p) metas)
     (s_providers s) []"

definition upsertAuthRebuildLocked ::
    "modelDirectory \<Rightarrow> (string \<times> scheduledAuthMeta) list \<Rightarrow> time \<Rightarrow> Auth \<Rightarrow> authScheduler \<Rightarrow> authScheduler" where
  "upsertAuthRebuildLocked dir metas now a s =
     (let authID = trim_space (auth_ID a);
          existing = map_of (s_authGenerations s) authID
      in if authID = '''' then s
         else if (case existing of None \<Rightarrow> False | Some g \<Rightarrow> g_epoch g > auth_RegistrationEpoch a) then s
         else
           let newer = (case existing of None \<Rightarrow> False
                        | Some g \<Rightarrow> g_epoch g = auth_RegistrationEpoch a \<and> g_generation g > auth_Generation a);
               toSchedule = (if \<not> newer then Some a
                             else case map_of metas authID of
                                    None \<Rightarrow> None
                                  | Some m \<Rightarrow> if auth_Disabled (m_auth m) \<or> auth_Status (m_auth m) = StatusDisabled
                                              then None else Some (m_auth m))
           in case toSchedule of
                None \<Rightarrow> s
              | Some b \<Rightarrow>
                  (let providerKey = executorKeyFromAuth b
                   in if providerKey = '''' \<or> auth_Disabled b \<or> auth_Status b = StatusDisabled
                      then removeAuthFromProvidersLocked authID s
                      else
                        let ahead = (case existing of None \<Rightarrow> None
                                     | Some g \<Rightarrow> if g_epoch g = auth_RegistrationEpoch b \<and> g_generation g > auth_Generation b
                                                 then Some g else None);
                            generation = (case ahead of None \<Rightarrow> auth_Generation b | Some g \<Rightarrow> g_generation g);
                            updatedAt = (case ahead of None \<Rightarrow> auth_UpdatedAt b
                                         | Some g \<Rightarrow> if g_updatedAt g > auth_UpdatedAt b then g_updatedAt g
                                                     else auth_UpdatedAt b);
                            s = recordGeneration authID (auth_RegistrationEpoch b) generation updatedAt s;
                            s = leavePreviousProvider authID providerKey s;
                            regEpoch = dir_ClientRegistrationEpoch dir authID;
                            meta = buildScheduledAuthMetaWithModelSet b (supportedModelSetForAuth dir (auth_ID b)) regEpoch
                        in scheduleMeta authID providerKey meta [] True now s))"

definition rebuild :: "modelDirectory \<Rightarrow> Auth list \<Rightarrow> time \<Rightarrow> authScheduler \<Rightarrow> authScheduler" where
  "rebuild dir auths now s =
     (let metas = existingMetas s;
          s = s\<lparr>s_providers := [], s_authProviders := [], s_mixedCursors := [], s_mixedWeightedStates := []\<rparr>
      in fold (upsertAuthRebuildLocked dir metas now) auths s)"

definition outdated :: "modelDirectory \<Rightarrow> authScheduler \<Rightarrow> Auth \<Rightarrow> bool" where
  "outdated dir s a \<longleftrightarrow>
     (case isSchedulableAuth a of
        None \<Rightarrow> (let rawID = trim_space (auth_ID a)
                 in rawID \<noteq> '''' \<and> map_of (s_authProviders s) rawID \<noteq> None)
      | Some (authID, providerKey) \<Rightarrow>
          (if get_or '''' (s_authProviders s) authID \<noteq> providerKey then True
           else case map_of (s_providers s) providerKey of
             None \<Rightarrow> True
           | Some p \<Rightarrow>
               (case map_of (ps_auths p) authID of
                  None \<Rightarrow> True
                | Some meta \<Rightarrow>
                    (case map_of (s_authGenerations s) authID of
                       None \<Rightarrow> True
                     | Some g \<Rightarrow> g_epoch g \<noteq> auth_RegistrationEpoch a \<or>
                                 m_registryEpoch meta \<noteq> dir_ClientRegistrationEpoch dir authID))))"

definition needsSyncFromMapLocked :: "modelDirectory \<Rightarrow> Auth list \<Rightarrow> authScheduler \<Rightarrow> bool" where
  "needsSyncFromMapLocked dir auths s \<longleftrightarrow>
     (if length (filter (\<lambda>a. isSchedulableAuth a \<noteq> None) auths) \<noteq> length (s_authProviders s) then True
      else list_ex (outdated dir s) auths)"

section \<open>Picking\<close>

definition providerPrefersWebsocketTransport :: "string \<Rightarrow> bool" where
  "providerPrefersWebsocketTransport providerKey \<longleftrightarrow>
     (let k = to_lower (trim_space providerKey) in k = ''codex'' \<or> k = ''xai'')"

definition scheduledAuthPredicate ::
    "(Auth \<Rightarrow> bool) \<Rightarrow> string list \<Rightarrow> string \<Rightarrow> bool \<Rightarrow> scheduledAuth \<Rightarrow> bool" where
  "scheduledAuthPredicate allows tried pinnedAuthID requirePositiveWeight entry \<longleftrightarrow>
     (if \<not> allows (se_auth entry) then False
      else if requirePositiveWeight \<and> m_weight (se_meta entry) \<le> 0 then False
      else if pinnedAuthID \<noteq> '''' \<and> se_id entry \<noteq> pinnedAuthID then False
      else se_id entry \<notin> set tried)"

definition normalizeProviderKeys :: "string list \<Rightarrow> string list" where
  "normalizeProviderKeys providers =
     fold (\<lambda>provider out.
         let providerKey = canonicalSchedulingProvider provider
         in if providerKey = '''' \<or> providerKey \<in> set out then out else out @ [providerKey])
       providers []"

definition containsProvider :: "string list \<Rightarrow> string \<Rightarrow> bool" where
  "containsProvider providers provider \<longleftrightarrow> list_ex (\<lambda>candidate. candidate = provider) providers"

definition shardAt :: "authScheduler \<Rightarrow> string \<Rightarrow> string \<Rightarrow> modelScheduler option" where
  "shardAt s providerKey k =
     Option.bind (map_of (s_providers s) providerKey) (\<lambda>p. map_of (ps_modelShards p) k)"

definition putShard :: "string \<Rightarrow> string \<Rightarrow> modelScheduler \<Rightarrow> authScheduler \<Rightarrow> authScheduler" where
  "putShard providerKey k shard s =
     onProvider providerKey (\<lambda>p. p\<lparr>ps_modelShards := AList.update k shard (ps_modelShards p)\<rparr>) s"

definition ensureShard :: "string \<Rightarrow> string \<Rightarrow> time \<Rightarrow> authScheduler \<Rightarrow> authScheduler" where
  "ensureShard providerKey modelKey now s =
     onProvider providerKey (\<lambda>p. snd (ensureModelLocked modelKey now p)) s"

text \<open>A pick on one shard, with the pin the shard holds.\<close>

definition onShard ::
    "string \<Rightarrow> string \<Rightarrow> (quotaDrainPin \<Rightarrow> modelScheduler \<Rightarrow> Auth option \<times> modelScheduler \<times> quotaDrainPin) \<Rightarrow>
     authScheduler \<Rightarrow> Auth option \<times> authScheduler" where
  "onShard providerKey k pick s =
     (case shardAt s providerKey k of
        None \<Rightarrow> (None, s)
      | Some shard \<Rightarrow>
          (let (a, shard, pin) = pick (get_or empty_pin (s_quotaPins s) (providerKey, k)) shard;
               s = putShard providerKey k shard s
           in (a, s\<lparr>s_quotaPins := AList.update (providerKey, k) pin (s_quotaPins s)\<rparr>)))"

definition authNotFound :: GoError where
  "authNotFound = PlainError (plain_error ''auth_not_found'' ''no auth available'')"

definition providerNotFound :: GoError where
  "providerNotFound = PlainError (plain_error ''provider_not_found'' ''no provider supplied'')"

text \<open>Picking from one provider's shard or explaining why not, for a single provider and for a pinned credential.\<close>

definition pickShardOrError ::
    "string \<Rightarrow> string \<Rightarrow> bool \<Rightarrow> schedulerStrategy \<Rightarrow> (scheduledAuth \<Rightarrow> bool) \<Rightarrow> string \<Rightarrow> string \<Rightarrow> time \<Rightarrow>
     authScheduler \<Rightarrow> (GoError + Auth) \<times> authScheduler" where
  "pickShardOrError providerKey modelKey preferWebsocket strategy predicate errorProvider model now s =
     (let k = canonicalModelKey modelKey;
          s = ensureShard providerKey modelKey now s;
          (picked, s) = onShard providerKey k (pickReadyLocked preferWebsocket strategy predicate now) s
      in case picked of
           Some a \<Rightarrow> (Inr a, s)
         | None \<Rightarrow>
             (case shardAt s providerKey k of
                None \<Rightarrow> (Inl authNotFound, s)
              | Some shard \<Rightarrow>
                  (Inl (case (if strategy = schedulerStrategyQuotaDrain
                              then quotaDrainUnavailableErrorLocked shard errorProvider model predicate now
                              else None) of
                          Some e \<Rightarrow> e
                        | None \<Rightarrow> unavailableErrorLocked shard errorProvider model predicate now), s)))"

definition currentStrategy :: "schedulerStrategy \<Rightarrow> authScheduler \<Rightarrow> schedulerStrategy" where
  "currentStrategy strategy s = (if strategy = schedulerStrategyCurrent then s_strategy s else strategy)"

definition pickSingleWithStrategy ::
    "string \<Rightarrow> string \<Rightarrow> pickRequest \<Rightarrow> schedulerStrategy \<Rightarrow> time \<Rightarrow> authScheduler \<Rightarrow> (GoError + Auth) \<times> authScheduler" where
  "pickSingleWithStrategy provider model rq strategy now s =
     (let providerKey = canonicalSchedulingProvider provider;
          modelKey = canonicalModelKey model;
          preferWebsocket = (rq_downstreamWebsocket rq \<and> providerPrefersWebsocketTransport providerKey \<and>
                             rq_pinnedAuthID rq = '''');
          strategy = currentStrategy strategy s
      in if map_of (s_providers s) providerKey = None then (Inl authNotFound, s)
         else let predicate = scheduledAuthPredicate (rq_allows rq) (rq_tried rq) (rq_pinnedAuthID rq)
                                (strategy = schedulerStrategyWeightedRoundRobin)
              in pickShardOrError providerKey modelKey preferWebsocket strategy predicate provider model now s)"

text \<open>Why no credential of several providers serves the request.\<close>

definition ensureShards :: "string list \<Rightarrow> string \<Rightarrow> time \<Rightarrow> authScheduler \<Rightarrow> authScheduler" where
  "ensureShards providers modelKey now s = fold (\<lambda>pk. ensureShard pk modelKey now) providers s"

definition shardsAt :: "authScheduler \<Rightarrow> string list \<Rightarrow> string \<Rightarrow> modelScheduler list" where
  "shardsAt s providers k = List.map_filter (\<lambda>pk. shardAt s pk k) providers"

definition earlier :: "time \<Rightarrow> time \<Rightarrow> time" where
  "earlier local earliest = (if local \<noteq> 0 \<and> (earliest = 0 \<or> local < earliest) then local else earliest)"

definition mixedQuotaDrainUnavailableErrorLocked ::
    "string list \<Rightarrow> string \<Rightarrow> (scheduledAuth \<Rightarrow> bool) \<Rightarrow> time \<Rightarrow> authScheduler \<Rightarrow> GoError option \<times> authScheduler" where
  "mixedQuotaDrainUnavailableErrorLocked providers model predicate now s =
     (let s = ensureShards providers (canonicalModelKey model) now s;
          (total, unavailableCount, earliest) =
            fold (\<lambda>shard (total, unavailableCount, earliest).
                let (localTotal, localUnavailable, localEarliest) = quotaDrainAvailabilitySummaryLocked shard predicate now
                in (total + localTotal, unavailableCount + localUnavailable, earlier localEarliest earliest))
              (shardsAt s providers (canonicalModelKey (canonicalModelKey model))) (0, 0, 0)
      in (if total = 0 \<or> unavailableCount \<noteq> total \<or> earliest = 0 then None
          else Some (newModelCooldownErrorWithCause model '''' (time_sub earliest now) None), s))"

definition mixedUnavailableErrorLocked ::
    "string list \<Rightarrow> string \<Rightarrow> (scheduledAuth \<Rightarrow> bool) \<Rightarrow> time \<Rightarrow> authScheduler \<Rightarrow> GoError \<times> authScheduler" where
  "mixedUnavailableErrorLocked providers model predicate now s =
     (let s = ensureShards providers (canonicalModelKey model) now s;
          shards = shardsAt s providers (canonicalModelKey (canonicalModelKey model));
          (total, cooldownCount, unauthorizedCount, earliest) =
            fold (\<lambda>shard (total, cooldownCount, unauthorizedCount, earliest).
                let (lt, lc, lu, le) = availabilitySummaryLocked shard predicate
                in (total + lt, cooldownCount + lc, unauthorizedCount + lu, earlier le earliest))
              shards (0, 0, 0, 0);
          (modelErr, authErr) =
            fold (\<lambda>shard (modelErr, authErr).
                let (candModel, candAuth) = candidateErrorsLocked shard model predicate
                in (laterError candModel modelErr, laterError candAuth authErr))
              shards (None, None);
          lastCandidateErr = (case modelErr of None \<Rightarrow> authErr | Some e \<Rightarrow> Some e)
      in (unavailableError model '''' now (total, cooldownCount, unauthorizedCount, earliest)
            (map_option fst authErr) (map_option fst lastCandidateErr), s))"

definition mixedUnavailableForStrategyLocked ::
    "string list \<Rightarrow> string \<Rightarrow> (scheduledAuth \<Rightarrow> bool) \<Rightarrow> schedulerStrategy \<Rightarrow> time \<Rightarrow> authScheduler \<Rightarrow>
     GoError \<times> authScheduler" where
  "mixedUnavailableForStrategyLocked providers model predicate strategy now s =
     (if strategy = schedulerStrategyQuotaDrain
      then (case mixedQuotaDrainUnavailableErrorLocked providers model predicate now s of
              (Some e, s) \<Rightarrow> (e, s)
            | (None, s) \<Rightarrow> mixedUnavailableErrorLocked providers model predicate now s)
      else mixedUnavailableErrorLocked providers model predicate now s)"

text \<open>The highest priority at which a provider of the list has a selectable credential.\<close>

definition bestPriorityStep ::
    "string \<Rightarrow> schedulerStrategy \<Rightarrow> (scheduledAuth \<Rightarrow> bool) \<Rightarrow> time \<Rightarrow> string \<Rightarrow>
     int option \<times> authScheduler \<Rightarrow> int option \<times> authScheduler" where
  "bestPriorityStep modelKey strategy predicate now pk = (\<lambda>(best, s).
     (let s = ensureShard pk modelKey now s
      in case shardAt s pk (canonicalModelKey modelKey) of
           None \<Rightarrow> (best, s)
         | Some shard \<Rightarrow>
             (case highestSelectablePriorityLocked shard False strategy predicate now of
                None \<Rightarrow> (best, s)
              | Some q \<Rightarrow> (if (case best of None \<Rightarrow> True | Some b \<Rightarrow> q > b) then Some q else best, s))))"

fun pickFirstProvider ::
    "string \<Rightarrow> int \<Rightarrow> schedulerStrategy \<Rightarrow> (scheduledAuth \<Rightarrow> bool) \<Rightarrow> time \<Rightarrow> string list \<Rightarrow> authScheduler \<Rightarrow>
     (Auth \<times> string) option \<times> authScheduler" where
  "pickFirstProvider k best strategy predicate now [] s = (None, s)"
| "pickFirstProvider k best strategy predicate now (pk # pks) s =
     (case onShard pk k (pickReadyAtPriorityLocked False best strategy predicate now) s of
        (Some a, s) \<Rightarrow> (Some (a, pk), s)
      | (None, s) \<Rightarrow> pickFirstProvider k best strategy predicate now pks s)"

definition mixedEntries :: "authScheduler \<Rightarrow> string list \<Rightarrow> string \<Rightarrow> int \<Rightarrow> scheduledAuth list" where
  "mixedEntries s providers k best =
     sort_key se_id (concat (map (\<lambda>shard. case map_of (sh_readyByPriority shard) best of
                                            None \<Rightarrow> [] | Some bucket \<Rightarrow> flatAll shard bucket)
                                 (shardsAt s providers k)))"

definition pickMixedWeighted ::
    "string list \<Rightarrow> string \<Rightarrow> string \<Rightarrow> int \<Rightarrow> (scheduledAuth \<Rightarrow> bool) \<Rightarrow> authScheduler \<Rightarrow>
     (Auth \<times> string) option \<times> authScheduler" where
  "pickMixedWeighted providers k cursorKey best predicate s =
     (let entries = mixedEntries s providers k best;
          state = prepare (scheduledWeightVectorMatching entries predicate)
                    (get_or empty_weighted (s_mixedWeightedStates s) cursorKey);
          (picked, current) = pickSmoothWeightedScheduled predicate entries (sw_current state);
          s = s\<lparr>s_mixedWeightedStates :=
                 AList.update cursorKey (state\<lparr>sw_current := current\<rparr>) (s_mixedWeightedStates s)\<rparr>
      in (map_option (\<lambda>e. (se_auth e, m_providerKey (se_meta e))) picked, s))"

text \<open>
  The turn of the providers: each has as many slots as it has selectable credentials; the loop starts
  at the provider that owns the next slot and takes the first that yields a credential.
\<close>

fun pickTurn ::
    "string list \<Rightarrow> nat list \<Rightarrow> string \<Rightarrow> string \<Rightarrow> int \<Rightarrow> schedulerStrategy \<Rightarrow> (scheduledAuth \<Rightarrow> bool) \<Rightarrow> time \<Rightarrow>
     nat \<Rightarrow> nat \<Rightarrow> nat list \<Rightarrow> authScheduler \<Rightarrow> (Auth \<times> string) option \<times> authScheduler" where
  "pickTurn providers weights k cursorKey best strategy predicate now start slot [] s = (None, s)"
| "pickTurn providers weights k cursorKey best strategy predicate now start slot (i # is) s =
     (if weights ! i = 0
      then pickTurn providers weights k cursorKey best strategy predicate now start slot is s
      else let slot = (if i \<noteq> start then sum_list (take i weights) else slot)
           in case onShard (providers ! i) k (pickReadyAtPriorityLocked False best strategy predicate now) s of
                (None, s) \<Rightarrow> pickTurn providers weights k cursorKey best strategy predicate now start slot is s
              | (Some a, s) \<Rightarrow>
                  (Some (a, providers ! i),
                   s\<lparr>s_mixedCursors := AList.update cursorKey (slot + 1) (s_mixedCursors s)\<rparr>))"

definition pickMixedRoundRobin ::
    "string list \<Rightarrow> string \<Rightarrow> string \<Rightarrow> int \<Rightarrow> schedulerStrategy \<Rightarrow> (scheduledAuth \<Rightarrow> bool) \<Rightarrow> time \<Rightarrow>
     authScheduler \<Rightarrow> (Auth \<times> string) option \<times> authScheduler" where
  "pickMixedRoundRobin providers k cursorKey best strategy predicate now s =
     (let weights = map (\<lambda>pk. case shardAt s pk k of
                                None \<Rightarrow> 0
                              | Some shard \<Rightarrow> selectableCountAtPriorityLocked shard False best strategy predicate now)
                        providers;
          n = length providers;
          totalWeight = sum_list weights
      in if totalWeight = 0 then (None, s)
         else let startSlot = get_or 0 (s_mixedCursors s) cursorKey mod totalWeight
              in case find (\<lambda>i. weights ! i \<noteq> 0 \<and> startSlot < sum_list (take (Suc i) weights)) [0..<n] of
                   None \<Rightarrow> (None, s)
                 | Some start \<Rightarrow>
                     (let credentialStrategy = (if strategy = schedulerStrategyQuotaDrain
                                                then schedulerStrategyQuotaDrain else schedulerStrategyRoundRobin)
                      in pickTurn providers weights k cursorKey best credentialStrategy predicate now start startSlot
                           (map (\<lambda>offset. (start + offset) mod n) [0..<n]) s))"

fun join_comma :: "string list \<Rightarrow> string" where
  "join_comma [] = ''''"
| "join_comma [x] = x"
| "join_comma (x # xs) = x @ '','' @ join_comma xs"

text \<open>A pinned credential is served by its own provider, if that is among those asked for.\<close>

definition pickMixedPinned ::
    "string list \<Rightarrow> string \<Rightarrow> string \<Rightarrow> string \<Rightarrow> schedulerStrategy \<Rightarrow> (scheduledAuth \<Rightarrow> bool) \<Rightarrow> time \<Rightarrow>
     authScheduler \<Rightarrow> (GoError + Auth \<times> string) \<times> authScheduler" where
  "pickMixedPinned normalized pinned modelKey model strategy predicate now s =
     (let providerKey = get_or '''' (s_authProviders s) pinned
      in if providerKey = '''' \<or> \<not> containsProvider normalized providerKey then (Inl authNotFound, s)
         else if map_of (s_providers s) providerKey = None then (Inl authNotFound, s)
         else case pickShardOrError providerKey modelKey False strategy predicate ''mixed'' model now s of
                (Inl e, s) \<Rightarrow> (Inl e, s)
              | (Inr a, s) \<Rightarrow> (Inr (a, providerKey), s))"

definition pickMixedBest ::
    "string list \<Rightarrow> string \<Rightarrow> schedulerStrategy \<Rightarrow> (scheduledAuth \<Rightarrow> bool) \<Rightarrow> time \<Rightarrow> int \<Rightarrow>
     authScheduler \<Rightarrow> (Auth \<times> string) option \<times> authScheduler" where
  "pickMixedBest normalized modelKey strategy predicate now best s =
     (let k = canonicalModelKey modelKey;
          cursorKey = join_comma normalized @ '':'' @ modelKey
      in case strategy of
           schedulerStrategyFillFirst \<Rightarrow> pickFirstProvider k best strategy predicate now normalized s
         | schedulerStrategyWeightedRoundRobin \<Rightarrow> pickMixedWeighted normalized k cursorKey best predicate s
         | _ \<Rightarrow> pickMixedRoundRobin normalized k cursorKey best strategy predicate now s)"

definition pickMixedProviders ::
    "string list \<Rightarrow> string \<Rightarrow> string \<Rightarrow> schedulerStrategy \<Rightarrow> (scheduledAuth \<Rightarrow> bool) \<Rightarrow> time \<Rightarrow>
     authScheduler \<Rightarrow> (GoError + Auth \<times> string) \<times> authScheduler" where
  "pickMixedProviders normalized modelKey model strategy predicate now s =
     (let (best, s) = fold (bestPriorityStep modelKey strategy predicate now) normalized (None, s);
          (picked, s) = (case best of None \<Rightarrow> (None, s)
                         | Some b \<Rightarrow> pickMixedBest normalized modelKey strategy predicate now b s)
      in case picked of
           Some r \<Rightarrow> (Inr r, s)
         | None \<Rightarrow> (let (e, s) = mixedUnavailableForStrategyLocked normalized model predicate strategy now s
                    in (Inl e, s)))"

definition pickMixedWithStrategy ::
    "string list \<Rightarrow> string \<Rightarrow> pickRequest \<Rightarrow> schedulerStrategy \<Rightarrow> time \<Rightarrow> authScheduler \<Rightarrow>
     (GoError + Auth \<times> string) \<times> authScheduler" where
  "pickMixedWithStrategy providers model rq strategy now s =
     (let normalized = normalizeProviderKeys providers
      in case normalized of
           [] \<Rightarrow> (Inl providerNotFound, s)
         | [providerKey] \<Rightarrow>
             (case pickSingleWithStrategy providerKey model rq strategy now s of
                (Inl e, s) \<Rightarrow> (Inl e, s)
              | (Inr a, s) \<Rightarrow> (Inr (a, providerKey), s))
         | _ \<Rightarrow>
             (let strategy = currentStrategy strategy s;
                  predicate = scheduledAuthPredicate (rq_allows rq) (rq_tried rq) (rq_pinnedAuthID rq)
                                (strategy = schedulerStrategyWeightedRoundRobin)
              in if rq_pinnedAuthID rq \<noteq> ''''
                 then pickMixedPinned normalized (rq_pinnedAuthID rq) (canonicalModelKey model) model strategy predicate now s
                 else pickMixedProviders normalized (canonicalModelKey model) model strategy predicate now s))"

section \<open>The invariant of the scheduler\<close>

text \<open>Metadata as an insertion makes it: from an enabled credential of the provider, its identifier trimmed.\<close>

definition meta_ok :: "string \<Rightarrow> scheduledAuthMeta \<Rightarrow> bool" where
  "meta_ok pk meta \<longleftrightarrow> isSchedulableAuth (m_auth meta) = Some (m_id meta, pk) \<and>
     meta = buildScheduledAuthMetaWithModelSet (m_auth meta) (m_supportedModelSet meta) (m_registryEpoch meta)"

text \<open>A shard holds, of the credentials of its provider, exactly those that support its model.\<close>

definition shard_fits :: "time \<Rightarrow> string \<Rightarrow> (string \<Rightarrow> scheduledAuthMeta option) \<Rightarrow> string \<Rightarrow> modelScheduler \<Rightarrow> bool" where
  "shard_fits t pk auths k m \<longleftrightarrow> sh_modelKey m = k \<and> shard_ok t m \<and>
     (\<forall>i. metaAt m i \<noteq> None \<longleftrightarrow> (\<exists>meta. auths i = Some meta \<and> supportsModel meta k)) \<and>
     (\<forall>i meta. metaAt m i = Some meta \<longrightarrow> meta_ok pk meta)"

definition provider_ok :: "time \<Rightarrow> string \<Rightarrow> providerScheduler \<Rightarrow> bool" where
  "provider_ok t pk p \<longleftrightarrow> ps_providerKey p = pk \<and> wf_map (ps_auths p) \<and> wf_map (ps_modelShards p) \<and>
     (\<forall>i meta. map_of (ps_auths p) i = Some meta \<longrightarrow> m_id meta = i \<and> meta_ok pk meta) \<and>
     (\<forall>k m. map_of (ps_modelShards p) k = Some m \<longrightarrow> shard_fits t pk (map_of (ps_auths p)) k m)"

lemma map_of_map_key: "map_of (map (\<lambda>(k, v). (k, f k v)) xs) k = map_option (f k) (map_of xs k)"
  by (induction xs) auto

lemma keys_map_key [simp]: "map (fst \<circ> (\<lambda>(k, v). (k, f k v))) xs = map fst xs"
  by (induction xs) auto

lemma shard_fits_mono: "shard_fits t pk auths k m \<Longrightarrow> t \<le> t' \<Longrightarrow> shard_fits t' pk auths k m"
  by (auto simp: shard_fits_def intro: shard_ok_mono)

lemma provider_ok_mono: "provider_ok t pk p \<Longrightarrow> t \<le> t' \<Longrightarrow> provider_ok t' pk p"
  unfolding provider_ok_def by (meson shard_fits_mono)

lemma newProvider_ok [simp]: "provider_ok t pk (newProvider pk)"
  by (simp add: provider_ok_def newProvider_def)

lemma meta_ok_id: "meta_ok pk meta \<Longrightarrow> m_id meta \<noteq> '''' \<and> pk \<noteq> ''''"
  by (auto simp: meta_ok_def isSchedulableAuth_def Let_def split: if_splits)

lemma metaAt_refresh:
  assumes "shard_ok t m" "m_id meta \<noteq> ''''"
  shows "metaAt (refreshShard meta now k m) =
    (if supportsModel meta k then (metaAt m)(m_id meta \<mapsto> meta) else (metaAt m)(m_id meta := None))"
proof -
  have inv: "shard_ok t m \<and> sh_modelKey m = sh_modelKey m" using assms(1) by simp
  show ?thesis
    using shard.pool_insert [OF inv, of meta now] shard.pool_remove [OF inv assms(2)] by (simp add: refreshShard_def)
qed

lemma refresh_fits:
  assumes "shard_fits t pk auths k m" "t \<le> now" "0 \<le> now" "meta_ok pk meta"
    and "auths' = auths(m_id meta \<mapsto> meta)"
  shows "shard_fits now pk auths' k (refreshShard meta now k m)"
proof -
  have ok: "shard_ok t m" "sh_modelKey m = k" using assms(1) by (auto simp: shard_fits_def)
  have "shard_ok now (refreshShard meta now k m)"
    using upsert_ok [OF ok(1) assms(2,3)] shard_ok_mono [OF remove_ok [OF ok(1)] assms(2)] by (simp add: refreshShard_def)
  moreover have "sh_modelKey (refreshShard meta now k m) = k" using ok(2) by (simp add: refreshShard_def)
  ultimately show ?thesis
    using assms(1,4,5) metaAt_refresh [OF ok(1) conjunct1 [OF meta_ok_id [OF assms(4)]], of now k]
    unfolding shard_fits_def by auto
qed

text \<open>A shard that is not touched still fits when the models of the credential did not change.\<close>

lemma untouched_fits:
  assumes "shard_fits t pk auths k m" "auths (m_id meta) = Some old"
    and "m_supportedModelSet old = m_supportedModelSet meta" "auths' = auths(m_id meta \<mapsto> meta)"
  shows "shard_fits t pk auths' k m"
proof -
  have "supportsModel old k = supportsModel meta k" using assms(3) by (simp add: supportsModel_def)
  with assms show ?thesis by (auto simp: shard_fits_def)
qed

lemma refreshShardAt_simps [simp]:
  "ps_auths (refreshShardAt meta now k p) = ps_auths p"
  "ps_providerKey (refreshShardAt meta now k p) = ps_providerKey p"
  by (simp_all add: refreshShardAt_def split: option.split)

lemma refreshShardAt_ok:
  assumes "provider_ok now pk p" "0 \<le> now" "meta_ok pk meta" "map_of (ps_auths p) (m_id meta) = Some meta"
  shows "provider_ok now pk (refreshShardAt meta now k p)"
proof (cases "map_of (ps_modelShards p) k")
  case None
  with assms(1) show ?thesis by (simp add: refreshShardAt_def)
next
  case (Some m)
  have "map_of (ps_auths p) = (map_of (ps_auths p))(m_id meta \<mapsto> meta)" using assms(4) by auto
  from refresh_fits [OF _ order_refl assms(2,3) this, of k m]
  have "shard_fits now pk (map_of (ps_auths p)) k (refreshShard meta now k m)"
    using assms(1) Some by (simp add: provider_ok_def)
  with assms(1) Some show ?thesis by (auto simp: provider_ok_def refreshShardAt_def)
qed

lemma refreshShards_ok:
  assumes "provider_ok now pk p" "0 \<le> now" "meta_ok pk meta" "map_of (ps_auths p) (m_id meta) = Some meta"
  shows "provider_ok now pk (fold (refreshShardAt meta now) ks p)"
  using assms
proof (induction ks arbitrary: p)
  case (Cons k ks)
  show ?case using Cons.IH [OF refreshShardAt_ok [OF Cons.prems] Cons.prems(2,3)] Cons.prems(4) by simp
qed simp

lemma upsertAuthForModels_ok:
  assumes "provider_ok t pk p" "t \<le> now" "0 \<le> now" "meta_ok pk meta"
    and "credentialScoped \<or> targetModels = [] \<or>
      (\<exists>old. map_of (ps_auths p) (m_id meta) = Some old \<and> m_supportedModelSet old = m_supportedModelSet meta)"
  shows "provider_ok now pk (upsertAuthForModelsLocked meta targetModels credentialScoped now p)"
    and "map_of (ps_auths (upsertAuthForModelsLocked meta targetModels credentialScoped now p)) =
           (map_of (ps_auths p))(m_id meta \<mapsto> meta)"
proof -
  let ?p = "p\<lparr>ps_auths := AList.update (m_id meta) meta (ps_auths p)\<rparr>"
  have auths: "map_of (ps_auths ?p) = (map_of (ps_auths p))(m_id meta \<mapsto> meta)" by (simp add: fun_eq_iff)
  have fits: "shard_fits t pk (map_of (ps_auths p)) k m" if "map_of (ps_modelShards p) k = Some m" for k m
    using assms(1) that by (simp add: provider_ok_def)
  show "map_of (ps_auths (upsertAuthForModelsLocked meta targetModels credentialScoped now p)) =
      (map_of (ps_auths p))(m_id meta \<mapsto> meta)"
  proof (cases "credentialScoped \<or> targetModels = []")
    case True
    then show ?thesis by (auto simp: upsertAuthForModelsLocked_def fun_eq_iff)
  next
    case False
    have "ps_auths (fold (refreshShardAt meta now) ks q) = ps_auths q" for ks q
      by (induction ks arbitrary: q) simp_all
    with False show ?thesis
      by (simp add: upsertAuthForModelsLocked_def updateTargetShardsLocked_def fun_eq_iff)
  qed
  show "provider_ok now pk (upsertAuthForModelsLocked meta targetModels credentialScoped now p)"
  proof (cases "credentialScoped \<or> targetModels = []")
      case True
      let ?q = "?p\<lparr>ps_modelShards := map (\<lambda>(k, shard). (k, refreshShard meta now k shard)) (ps_modelShards p)\<rparr>"
      have q: "upsertAuthForModelsLocked meta targetModels credentialScoped now p = ?q"
        using True by (auto simp: upsertAuthForModelsLocked_def)
      have "map_of (ps_modelShards ?q) k = map_option (refreshShard meta now k) (map_of (ps_modelShards p) k)" for k
        by (simp add: map_of_map_key)
      then have "shard_fits now pk (map_of (ps_auths ?q)) k m" if "map_of (ps_modelShards ?q) k = Some m" for k m
        using that refresh_fits [OF fits assms(2-4)] by (auto simp: fun_eq_iff)
      then show ?thesis unfolding q using assms(1,4) unfolding provider_ok_def by auto
    next
      case False
      with assms(5) obtain old where old: "map_of (ps_auths p) (m_id meta) = Some old"
        "m_supportedModelSet old = m_supportedModelSet meta" by auto
      have "shard_fits now pk (map_of (ps_auths ?p)) k m" if "map_of (ps_modelShards ?p) k = Some m" for k m
        using shard_fits_mono [OF untouched_fits [OF fits old auths] assms(2)] that by simp
      then have p: "provider_ok now pk ?p" using assms(1,4) unfolding provider_ok_def by auto
      have at: "map_of (ps_auths ?p) (m_id meta) = Some meta" by simp
      have "provider_ok now pk (refreshShardAt meta now '''' ?p)" by (rule refreshShardAt_ok [OF p assms(3,4) at])
      from refreshShards_ok [OF this assms(3,4)] at False show ?thesis
        by (simp add: upsertAuthForModelsLocked_def updateTargetShardsLocked_def)
  qed
qed

lemma providerRemove_ok:
  assumes "provider_ok t pk p" "authID \<noteq> ''''"
  shows "provider_ok t pk (providerRemoveAuthLocked authID p)"
    and "map_of (ps_auths (providerRemoveAuthLocked authID p)) = (map_of (ps_auths p))(authID := None)"
proof -
  let ?q = "providerRemoveAuthLocked authID p"
  have q: "?q = p\<lparr>ps_auths := AList.delete authID (ps_auths p),
      ps_modelShards := map (\<lambda>(k, shard). (k, removeEntryLocked authID shard)) (ps_modelShards p)\<rparr>"
    using assms(2) by (simp add: providerRemoveAuthLocked_def)
  show auths: "map_of (ps_auths ?q) = (map_of (ps_auths p))(authID := None)" unfolding q by (simp add: delete_conv)
  have "shard_fits t pk (map_of (ps_auths ?q)) k m" if "map_of (ps_modelShards ?q) k = Some m" for k m
  proof -
    from that obtain m0 where m0: "map_of (ps_modelShards p) k = Some m0" "m = removeEntryLocked authID m0"
      unfolding q by (auto simp: map_of_map)
    then have fits: "shard_fits t pk (map_of (ps_auths p)) k m0" using assms(1) by (simp add: provider_ok_def)
    then have ok: "shard_ok t m0 \<and> sh_modelKey m0 = k" by (simp add: shard_fits_def)
    show ?thesis
      using fits shard.invar_remove [OF ok, of authID] shard.pool_remove [OF ok assms(2)] m0(2)
      unfolding auths shard_fits_def by auto
  qed
  moreover have "m_id meta = i \<and> meta_ok pk meta" if "map_of (ps_auths ?q) i = Some meta" for i meta
    using that assms(1) unfolding auths provider_ok_def by (metis fun_upd_apply option.distinct(1))
  ultimately show "provider_ok t pk ?q"
    using assms(1) unfolding provider_ok_def unfolding q by (auto simp: distinct_delete)
qed

text \<open>A shard made at its first use holds the credentials that support the model.\<close>

lemma fill_shard:
  fixes k :: string
  assumes "wf_map auths" "0 \<le> now" "\<forall>(i, meta) \<in> set auths. m_id meta = i"
  defines "m \<equiv> fold (\<lambda>(i, meta) shard. if supportsModel meta k then upsertEntryLocked meta now shard else shard)
      auths (newShard k)"
  shows "shard_ok now m" "sh_modelKey m = k"
    "metaAt m i = (case map_of auths i of None \<Rightarrow> None | Some meta \<Rightarrow> if supportsModel meta k then Some meta else None)"
proof -
  define metas where "metas = map snd (filter (\<lambda>(i, meta). supportsModel meta k) auths)"
  have eq: "fold (\<lambda>(i, meta) shard. if supportsModel meta k then upsertEntryLocked meta now shard else shard) xs s =
      fold (\<lambda>meta. upsertEntryLocked meta now) (map snd (filter (\<lambda>(i, meta). supportsModel meta k) xs)) s" for xs s
    by (induction xs arbitrary: s) auto
  have m: "m = fold (\<lambda>meta. upsertEntryLocked meta now) metas (newShard k)"
    unfolding m_def metas_def by (rule eq)
  have inv: "shard_ok 0 (newShard k) \<and> sh_modelKey (newShard k) = k" using shard.invar_empty by blast
  show "shard_ok now m" "sh_modelKey m = k" unfolding m using shard.fill_invar [OF inv assms(2,2)] by auto
  have ids: "map m_id metas = map fst (filter (\<lambda>(i, meta). supportsModel meta k) auths)"
    using assms(3) unfolding metas_def by (induction auths) auto
  have "distinct (map m_id metas)" unfolding ids by (rule distinct_map_filter [OF assms(1)])
  from shard.fill_pool [OF inv assms(2,2) this, of i]
  have "metaAt m i = find (\<lambda>meta. m_id meta = i) metas"
    unfolding m using shard.pool_empty [of k i] by (simp split: option.split)
  also have "\<dots> = (case map_of auths i of None \<Rightarrow> None | Some meta \<Rightarrow> if supportsModel meta k then Some meta else None)"
    using assms(1,3) unfolding metas_def
  proof (induction auths)
    case (Cons x xs)
    obtain j meta where x: "x = (j, meta)" by (rule prod.exhaust)
    show ?case
    proof (cases "j = i")
      case True
      then have "map_of xs i = None" using Cons.prems(1) x by (auto simp: map_of_eq_None_iff)
      with Cons x True show ?thesis by auto
    next
      case False
      with Cons x show ?thesis by auto
    qed
  qed simp
  finally show "metaAt m i = (case map_of auths i of None \<Rightarrow> None | Some meta \<Rightarrow> if supportsModel meta k then Some meta else None)" .
qed

lemma ensureModel_ok:
  assumes "provider_ok t pk p" "t \<le> now" "0 \<le> now" "ensureModelLocked modelKey now p = (m, p')"
  shows "provider_ok now pk p'" "ps_auths p' = ps_auths p"
    "map_of (ps_modelShards p') (canonicalModelKey modelKey) = Some m"
    "shard_fits now pk (map_of (ps_auths p)) (canonicalModelKey modelKey) m"
proof -
  let ?k = "canonicalModelKey modelKey"
  have p': "p' = p\<lparr>ps_modelShards := AList.update ?k m (ps_modelShards p)\<rparr>"
    using assms(4) by (auto simp: ensureModelLocked_def Let_def)
  show fits: "shard_fits now pk (map_of (ps_auths p)) ?k m"
  proof (cases "map_of (ps_modelShards p) ?k")
    case (Some m0)
    then have m: "m = promoteExpiredLocked now m0" using assms(4) by (simp add: ensureModelLocked_def Let_def)
    have fits: "shard_fits t pk (map_of (ps_auths p)) ?k m0" using Some assms(1) by (simp add: provider_ok_def)
    then have inv: "shard_ok t m0 \<and> sh_modelKey m0 = ?k" by (simp add: shard_fits_def)
    show ?thesis unfolding m
      using fits shard.invar_refresh [OF inv assms(2,3)] shard.pool_refresh [OF inv assms(2)]
      by (simp add: shard_fits_def)
  next
    case None
    have wf: "wf_map (ps_auths p)" "\<forall>(i, meta) \<in> set (ps_auths p). m_id meta = i"
      "\<And>i meta. map_of (ps_auths p) i = Some meta \<Longrightarrow> meta_ok pk meta"
      using assms(1) by (auto simp: provider_ok_def)
    note fill = fill_shard [OF wf(1) assms(3) wf(2), of ?k]
    show ?thesis
      using None assms(4) fill wf(3) by (auto simp: ensureModelLocked_def Let_def shard_fits_def split: option.splits if_splits)
  qed
  show "ps_auths p' = ps_auths p" "map_of (ps_modelShards p') ?k = Some m" by (simp_all add: p')
  have "provider_ok now pk p" using assms(1,2) by (rule provider_ok_mono)
  with fits show "provider_ok now pk p'" unfolding provider_ok_def unfolding p' by auto
qed

text \<open>The metadata under which a provider schedules an identifier.\<close>

definition metaIn :: "authScheduler \<Rightarrow> string \<Rightarrow> string \<Rightarrow> scheduledAuthMeta option" where
  "metaIn s pk i = Option.bind (map_of (s_providers s) pk) (\<lambda>p. map_of (ps_auths p) i)"

text \<open>
  The structure: every provider is in order, and an identifier is scheduled by one provider at most,
  the one noted as its owner.
\<close>

definition sched_core :: "time \<Rightarrow> authScheduler \<Rightarrow> bool" where
  "sched_core t s \<longleftrightarrow> wf_map (s_providers s) \<and> wf_map (s_authProviders s) \<and> wf_map (s_authGenerations s) \<and>
     (\<forall>pk p. map_of (s_providers s) pk = Some p \<longrightarrow> provider_ok t pk p) \<and>
     (\<forall>i pk. metaIn s pk i \<noteq> None \<longleftrightarrow> map_of (s_authProviders s) i = Some pk)"

text \<open>What is scheduled is of the registration last recorded and not newer than the record.\<close>

definition recorded :: "authScheduler \<Rightarrow> bool" where
  "recorded s \<longleftrightarrow> (\<forall>i pk meta g. metaIn s pk i = Some meta \<longrightarrow> map_of (s_authGenerations s) i = Some g \<longrightarrow>
     g_epoch g = auth_RegistrationEpoch (m_auth meta) \<and> auth_Generation (m_auth meta) \<le> g_generation g)"

definition sched_ok :: "time \<Rightarrow> authScheduler \<Rightarrow> bool" where
  "sched_ok t s \<longleftrightarrow> sched_core t s \<and> recorded s"

lemma onProvider_simps [simp]:
  "map_of (s_providers (onProvider pk f s)) q =
     (if q = pk then map_option f (map_of (s_providers s) pk) else map_of (s_providers s) q)"
  "wf_map (s_providers s) \<Longrightarrow> wf_map (s_providers (onProvider pk f s))"
  "s_authProviders (onProvider pk f s) = s_authProviders s"
  "s_authGenerations (onProvider pk f s) = s_authGenerations s"
  "s_strategy (onProvider pk f s) = s_strategy s"
  by (auto simp: onProvider_def split: option.split)

lemma metaIn_onProvider:
  "metaIn (onProvider pk f s) q i =
     (if q = pk then Option.bind (map_of (s_providers s) pk) (\<lambda>p. map_of (ps_auths (f p)) i) else metaIn s q i)"
  by (simp add: metaIn_def bind_map_option comp_def)

lemma metaIn_cong: "s_providers s' = s_providers s \<Longrightarrow> metaIn s' = metaIn s"
  by (simp add: fun_eq_iff metaIn_def)

lemma sched_core_mono: "sched_core t s \<Longrightarrow> t \<le> t' \<Longrightarrow> sched_core t' s"
  unfolding sched_core_def by (meson provider_ok_mono)

lemma sched_ok_mono: "sched_ok t s \<Longrightarrow> t \<le> t' \<Longrightarrow> sched_ok t' s"
  by (auto simp: sched_ok_def intro: sched_core_mono)

lemma metaIn_ok:
  assumes "sched_core t s" "metaIn s pk i = Some meta"
  shows "m_id meta = i" "meta_ok pk meta" "i \<noteq> ''''" "pk \<noteq> ''''"
proof -
  from assms(2) obtain p where p: "map_of (s_providers s) pk = Some p" "map_of (ps_auths p) i = Some meta"
    unfolding metaIn_def bind_eq_Some_conv by blast
  then have "provider_ok t pk p" using assms(1) unfolding sched_core_def by blast
  with p(2) show "m_id meta = i" "meta_ok pk meta" by (auto simp: provider_ok_def)
  with meta_ok_id [of pk meta] show "i \<noteq> ''''" "pk \<noteq> ''''" by auto
qed

lemma owner:
  assumes "sched_core t s"
  shows "map_of (s_authProviders s) i = Some pk \<longleftrightarrow> metaIn s pk i \<noteq> None"
    and "map_of (s_authProviders s) i = Some pk \<Longrightarrow> \<exists>p. map_of (s_providers s) pk = Some p \<and> provider_ok t pk p"
    and "map_of (s_authProviders s) i = Some pk \<Longrightarrow> i \<noteq> '''' \<and> pk \<noteq> ''''"
proof -
  show iff: "map_of (s_authProviders s) i = Some pk \<longleftrightarrow> metaIn s pk i \<noteq> None"
    using assms by (simp add: sched_core_def)
  show "\<exists>p. map_of (s_providers s) pk = Some p \<and> provider_ok t pk p" if "map_of (s_authProviders s) i = Some pk"
    using that iff assms by (auto simp: metaIn_def sched_core_def bind_eq_None_conv)
  show "i \<noteq> '''' \<and> pk \<noteq> ''''" if "map_of (s_authProviders s) i = Some pk"
    using that iff metaIn_ok(3,4) [OF assms] by blast
qed

text \<open>Taking a credential out.\<close>

lemma remove_core:
  fixes i :: string
  assumes "sched_core t s"
  defines "s' \<equiv> removeAuthFromProvidersLocked i s"
  shows "sched_core t s'" "metaIn s' pk j = (if j = i then None else metaIn s pk j)"
    "s_authGenerations s' = s_authGenerations s" "map_of (s_authProviders s') = (map_of (s_authProviders s))(i := None)"
proof -
  have "sched_core t s' \<and> (\<forall>pk j. metaIn s' pk j = (if j = i then None else metaIn s pk j)) \<and>
    s_authGenerations s' = s_authGenerations s \<and> map_of (s_authProviders s') = (map_of (s_authProviders s))(i := None)"
  proof (cases "map_of (s_authProviders s) i")
    case None
    then have "s' = s" by (simp add: s'_def removeAuthFromProvidersLocked_def get_or_def)
    moreover have "metaIn s pk i = None" for pk using None owner(1) [OF assms(1), of i pk] by simp
    ultimately show ?thesis using assms(1) None by auto
  next
    case (Some q)
    from owner(2,3) [OF assms(1) Some] obtain p where
      p: "map_of (s_providers s) q = Some p" "provider_ok t q p" "i \<noteq> ''''" "q \<noteq> ''''" by blast
    have s': "s' = (onProvider q (providerRemoveAuthLocked i) s)\<lparr>s_authProviders := AList.delete i (s_authProviders s)\<rparr>"
      using Some p(4) by (simp add: s'_def removeAuthFromProvidersLocked_def get_or_def)
    note rm = providerRemove_ok [OF p(2,3)]
    have prov: "map_of (s_providers s') pk =
        (if pk = q then Some (providerRemoveAuthLocked i p) else map_of (s_providers s) pk)" for pk
      using p(1) by (simp add: s')
    have "metaIn s pk i = None" if "pk \<noteq> q" for pk
      using owner(1) [OF assms(1), of i pk] Some that by auto
    then have m: "metaIn s' pk j = (if j = i then None else metaIn s pk j)" for pk j
      using p(1) rm(2) by (auto simp: metaIn_def prov)
    have "map_of (s_authProviders s') = (map_of (s_authProviders s))(i := None)" by (simp add: s' delete_conv)
    with m assms(1) rm(1) prov show ?thesis
      unfolding sched_core_def by (auto simp: s' distinct_delete)
  qed
  then show "sched_core t s'" "metaIn s' pk j = (if j = i then None else metaIn s pk j)"
    "s_authGenerations s' = s_authGenerations s" "map_of (s_authProviders s') = (map_of (s_authProviders s))(i := None)"
    by blast+
qed

text \<open>Entering a credential: it is then scheduled by its provider and by no other.\<close>

definition enter ::
    "string \<Rightarrow> string \<Rightarrow> scheduledAuthMeta \<Rightarrow> string list \<Rightarrow> bool \<Rightarrow> time \<Rightarrow> authScheduler \<Rightarrow> authScheduler" where
  "enter i pk meta targetModels scoped now s =
     scheduleMeta i pk meta targetModels scoped now (leavePreviousProvider i pk s)"

lemma enter_core:
  assumes "sched_core t s" "t \<le> now" "0 \<le> now" "meta_ok pk meta" "m_id meta = i"
    and "scoped \<or> targetModels = [] \<or>
      (\<exists>old. metaIn s pk i = Some old \<and> m_supportedModelSet old = m_supportedModelSet meta)"
  defines "s' \<equiv> enter i pk meta targetModels scoped now s"
  shows "sched_core now s'"
    and "metaIn s' q j = (if j = i then (if q = pk then Some meta else None) else metaIn s q j)"
    and "s_authGenerations s' = s_authGenerations s"
    and "map_of (s_authProviders s') = (map_of (s_authProviders s))(i \<mapsto> pk)"
proof -
  have ne: "i \<noteq> ''''" "pk \<noteq> ''''" using meta_ok_id [OF assms(4)] assms(5) by auto
  define s1 where "s1 = leavePreviousProvider i pk s"
  have leave: "\<exists>prev. s1 = (if prev \<noteq> '''' \<and> prev \<noteq> pk then onProvider prev (providerRemoveAuthLocked i) s else s) \<and>
      prev = get_or '''' (s_authProviders s) i" by (simp add: s1_def leavePreviousProvider_def Let_def)
  have prov1: "map_of (s_providers s1) q = map_option (\<lambda>p. if q \<noteq> pk \<and> map_of (s_authProviders s) i = Some q
      then providerRemoveAuthLocked i p else p) (map_of (s_providers s) q)" for q
    using leave owner(3) [OF assms(1), of i q] by (cases "map_of (s_providers s) q") (auto simp: get_or_def split: option.splits)
  have ok1: "provider_ok t q p" if "map_of (s_providers s1) q = Some p" for q p
    using that assms(1) providerRemove_ok(1) [OF _ ne(1)] unfolding prov1 sched_core_def by (auto split: if_splits)
  have m1: "metaIn s1 q j = (if j = i \<and> q \<noteq> pk then None else metaIn s q j)" for q j
  proof (cases "map_of (s_providers s) q")
    case None
    then show ?thesis by (simp add: metaIn_def prov1)
  next
    case (Some p)
    then have "provider_ok t q p" using assms(1) by (simp add: sched_core_def)
    from providerRemove_ok(2) [OF this ne(1)] owner(1) [OF assms(1), of i q] Some show ?thesis
      by (auto simp: metaIn_def prov1)
  qed
  have rest1: "s_authProviders s1 = s_authProviders s" "s_authGenerations s1 = s_authGenerations s"
    "wf_map (s_providers s1)" using leave assms(1) by (auto simp: sched_core_def)
  define p where "p = (case map_of (s_providers s1) pk of None \<Rightarrow> newProvider pk | Some p \<Rightarrow> p)"
  have p: "provider_ok t pk p" using ok1 by (simp add: p_def split: option.split)
  have pm: "map_of (ps_auths p) j = metaIn s pk j" for j
    using m1 [of pk j] by (cases "map_of (s_providers s1) pk") (auto simp: p_def metaIn_def newProvider_def)
  let ?up = "upsertAuthForModelsLocked meta targetModels scoped now"
  have side: "scoped \<or> targetModels = [] \<or>
      (\<exists>old. map_of (ps_auths p) (m_id meta) = Some old \<and> m_supportedModelSet old = m_supportedModelSet meta)"
    using assms(5,6) pm by auto
  note up = upsertAuthForModels_ok [OF p assms(2-4) side]
  have prov: "map_of (s_providers s') q = (if q = pk then Some (?up p) else map_of (s_providers s1) q)" for q
    by (auto simp: s'_def enter_def s1_def [symmetric] scheduleMeta_def ensureProviderLocked_def Let_def p_def
        split: option.split)
  have rest: "s_authProviders s' = AList.update i pk (s_authProviders s)" "s_authGenerations s' = s_authGenerations s"
    "wf_map (s_providers s')"
    using rest1 by (auto simp: s'_def enter_def s1_def [symmetric] scheduleMeta_def ensureProviderLocked_def Let_def
        split: option.split)
  show m: "metaIn s' q j = (if j = i then (if q = pk then Some meta else None) else metaIn s q j)" for q j
    using m1 [of q j] up(2) pm assms(5) by (auto simp: metaIn_def prov)
  show gens: "s_authGenerations s' = s_authGenerations s" by (rule rest)
  show own: "map_of (s_authProviders s') = (map_of (s_authProviders s))(i \<mapsto> pk)" by (simp add: rest fun_eq_iff)
  have "provider_ok now q p'" if "map_of (s_providers s') q = Some p'" for q p'
    using that up(1) provider_ok_mono [OF ok1 assms(2)] unfolding prov by (auto split: if_splits)
  moreover have "metaIn s' q j \<noteq> None \<longleftrightarrow> map_of (s_authProviders s') j = Some q" for q j
    using m [of q j] own owner(1) [OF assms(1), of j q] by auto
  ultimately show "sched_core now s'"
    unfolding sched_core_def using rest assms(1) by (auto simp: sched_core_def)
qed

section \<open>Operations keep the invariant\<close>

abbreviation trimmed :: "Auth \<Rightarrow> bool" where "trimmed a \<equiv> trim_space (auth_ID a) = auth_ID a"

abbreviation genAt :: "authScheduler \<Rightarrow> string \<Rightarrow> scheduledGenerationMeta option" where
  "genAt s \<equiv> map_of (s_authGenerations s)"

lemma newAuthScheduler_ok: "sched_ok t (newAuthScheduler selector)"
  by (simp add: sched_ok_def sched_core_def recorded_def newAuthScheduler_def metaIn_def)

lemma record_simps [simp]:
  "metaIn (recordGeneration i e g u s) = metaIn s"
  "genAt (recordGeneration i e g u s) = (genAt s)(i \<mapsto> \<lparr>g_epoch = e, g_generation = g, g_updatedAt = u\<rparr>)"
  "s_authProviders (recordGeneration i e g u s) = s_authProviders s"
  "s_providers (recordGeneration i e g u s) = s_providers s"
  by (simp_all add: recordGeneration_def fun_eq_iff metaIn_def)

lemma record_core: "sched_core t s \<Longrightarrow> sched_core t (recordGeneration i e g u s)"
  unfolding sched_core_def record_simps by (simp add: recordGeneration_def)

lemma build_meta_ok:
  assumes "isSchedulableAuth a = Some (i, pk)" "trimmed a"
  shows "meta_ok pk (buildScheduledAuthMetaWithModelSet a ms e)" "auth_ID a = i"
  using assms by (auto simp: meta_ok_def buildScheduledAuthMetaWithModelSet_def isSchedulableAuth_def Let_def split: if_splits)



lemma build_sel [simp]:
  "m_auth (buildScheduledAuthMetaWithModelSet a ms e) = a"
  "m_supportedModelSet (buildScheduledAuthMetaWithModelSet a ms e) = ms"
  "m_registryEpoch (buildScheduledAuthMetaWithModelSet a ms e) = e"
  by (simp_all add: buildScheduledAuthMetaWithModelSet_def)

text \<open>A credential is entered under a record of its registration, or taken out under one.\<close>

lemma admit_ok:
  fixes u :: time
  assumes "sched_ok t s" "t \<le> now" "0 \<le> now" "meta_ok pk meta" "m_id meta = i"
    and "scoped \<or> targetModels = [] \<or>
      (\<exists>old. metaIn s pk i = Some old \<and> m_supportedModelSet old = m_supportedModelSet meta)"
    and "auth_RegistrationEpoch (m_auth meta) = e" "auth_Generation (m_auth meta) \<le> g"
  defines "s' \<equiv> enter i pk meta targetModels scoped now (recordGeneration i e g u s)"
  shows "sched_ok now s'"
    and "metaIn s' q j = (if j = i then (if q = pk then Some meta else None) else metaIn s q j)"
    and "genAt s' = (genAt s)(i \<mapsto> \<lparr>g_epoch = e, g_generation = g, g_updatedAt = u\<rparr>)"
proof -
  have core: "sched_core t (recordGeneration i e g u s)" using assms(1) by (simp add: sched_ok_def record_core)
  note en = enter_core [OF core assms(2-5), of scoped targetModels, unfolded record_simps, OF assms(6), folded s'_def]
  show m: "metaIn s' q j = (if j = i then (if q = pk then Some meta else None) else metaIn s q j)" for q j by (rule en)
  show gens: "genAt s' = (genAt s)(i \<mapsto> \<lparr>g_epoch = e, g_generation = g, g_updatedAt = u\<rparr>)" by (simp add: en(3))
  have "recorded s" using assms(1) by (simp add: sched_ok_def)
  then have "recorded s'" using assms(7,8) unfolding recorded_def m gens by auto
  with en(1) show "sched_ok now s'" by (simp add: sched_ok_def)
qed

lemma discard_ok:
  fixes i :: string and e g :: nat and u :: time
  assumes "sched_ok t s" "t \<le> now"
  defines "s' \<equiv> removeAuthFromProvidersLocked i (recordGeneration i e g u s)"
  shows "sched_ok now s'" "metaIn s' q j = (if j = i then None else metaIn s q j)"
    "genAt s' = (genAt s)(i \<mapsto> \<lparr>g_epoch = e, g_generation = g, g_updatedAt = u\<rparr>)"
proof -
  have core: "sched_core t (recordGeneration i e g u s)" using assms(1) by (simp add: sched_ok_def record_core)
  note rm = remove_core [OF core, of i, folded s'_def]
  show m: "metaIn s' q j = (if j = i then None else metaIn s q j)" for q j using rm(2) by simp
  show gens: "genAt s' = (genAt s)(i \<mapsto> \<lparr>g_epoch = e, g_generation = g, g_updatedAt = u\<rparr>)" by (simp add: rm(3))
  have "recorded s" using assms(1) by (simp add: sched_ok_def)
  then have "recorded s'" unfolding recorded_def m gens by (auto split: if_splits)
  with rm(1) assms(2) show "sched_ok now s'" by (auto simp: sched_ok_def intro: sched_core_mono)
qed

lemma schedulable_iff:
  "isSchedulableAuth a = Some (i, pk) \<longleftrightarrow> i = trim_space (auth_ID a) \<and> i \<noteq> '''' \<and> pk = executorKeyFromAuth a \<and>
     pk \<noteq> '''' \<and> \<not> (auth_Disabled a \<or> auth_Status a = StatusDisabled)"
  by (auto simp: isSchedulableAuth_def Let_def)

lemma admit_enter:
  "scheduleMeta i pk meta targets scoped now (leavePreviousProvider i pk s) = enter i pk meta targets scoped now s"
  by (simp add: enter_def)

text \<open>The three outcomes of a lifecycle update.\<close>

lemma lifecycle_cases:
  assumes "trimmed a"
  defines "i \<equiv> auth_ID a"
  obtains (ignored) "upsertAuthLifecycleLocked dir a now s = s"
      "i = '''' \<or> isStaleScheduledAuth i (auth_RegistrationEpoch a) (auth_Generation a) (auth_UpdatedAt a) s"
  | (discarded) "i \<noteq> ''''" "\<not> isStaleScheduledAuth i (auth_RegistrationEpoch a) (auth_Generation a) (auth_UpdatedAt a) s"
      "upsertAuthLifecycleLocked dir a now s = removeAuthFromProvidersLocked i
         (recordGeneration i (auth_RegistrationEpoch a) (auth_Generation a) (auth_UpdatedAt a) s)"
      "isSchedulableAuth a = None"
  | (entered) pk meta where "i \<noteq> ''''"
      "\<not> isStaleScheduledAuth i (auth_RegistrationEpoch a) (auth_Generation a) (auth_UpdatedAt a) s"
      "isSchedulableAuth a = Some (i, pk)" "meta_ok pk meta" "m_auth meta = a"
      "upsertAuthLifecycleLocked dir a now s = enter i pk meta [] True now
         (recordGeneration i (auth_RegistrationEpoch a) (auth_Generation a) (auth_UpdatedAt a) s)"
      "m_registryEpoch meta = dir_ClientRegistrationEpoch dir i" "m_supportedModelSet meta = supportedModelSetForAuth dir i"
proof -
  let ?pk = "executorKeyFromAuth a"
  let ?meta = "buildScheduledAuthMetaWithModelSet a (supportedModelSetForAuth dir i) (dir_ClientRegistrationEpoch dir i)"
  have t: "trim_space (auth_ID a) = i" using assms by simp
  consider "i = '''' \<or> isStaleScheduledAuth i (auth_RegistrationEpoch a) (auth_Generation a) (auth_UpdatedAt a) s"
    | "i \<noteq> ''''" "\<not> isStaleScheduledAuth i (auth_RegistrationEpoch a) (auth_Generation a) (auth_UpdatedAt a) s"
      "?pk = '''' \<or> auth_Disabled a \<or> auth_Status a = StatusDisabled"
    | "i \<noteq> ''''" "\<not> isStaleScheduledAuth i (auth_RegistrationEpoch a) (auth_Generation a) (auth_UpdatedAt a) s"
      "\<not> (?pk = '''' \<or> auth_Disabled a \<or> auth_Status a = StatusDisabled)" by blast
  then show thesis
  proof cases
    case 1
    then show thesis by (intro ignored) (auto simp: upsertAuthLifecycleLocked_def t)
  next
    case 2
    then show thesis by (intro discarded) (auto simp: upsertAuthLifecycleLocked_def t isSchedulableAuth_def Let_def)
  next
    case 3
    have sch: "isSchedulableAuth a = Some (i, ?pk)" using 3 t by (simp add: schedulable_iff)
    show thesis
    proof (rule entered [OF 3(1,2) sch])
      show "meta_ok ?pk ?meta" by (rule build_meta_ok(1) [OF sch assms(1)])
      show "upsertAuthLifecycleLocked dir a now s = enter i ?pk ?meta [] True now
          (recordGeneration i (auth_RegistrationEpoch a) (auth_Generation a) (auth_UpdatedAt a) s)"
        using 3 t by (simp add: upsertAuthLifecycleLocked_def Let_def admit_enter) (simp add: i_def)
    qed simp_all
  qed
qed

lemma lifecycle_ok:
  assumes "sched_ok t s" "t \<le> now" "0 \<le> now" "trimmed a"
  shows "sched_ok now (upsertAuthLifecycleLocked dir a now s)"
  using assms(4)
proof (cases rule: lifecycle_cases [of a dir now s])
  case ignored
  with assms(1,2) show ?thesis by (simp add: sched_ok_mono)
next
  case discarded
  show ?thesis unfolding discarded(3) by (rule discard_ok(1) [OF assms(1,2)])
next
  case (entered pk meta)
  show ?thesis unfolding entered(6)
    by (rule admit_ok(1) [OF assms(1-3) entered(4)]) (use entered in simp_all)
qed

text \<open>A change inside one provider that leaves its credentials as they are.\<close>

lemma onProvider_ok:
  assumes "sched_ok t s" "t \<le> now"
    and "\<And>p. map_of (s_providers s) pk = Some p \<Longrightarrow>
      provider_ok now pk (f p) \<and> map_of (ps_auths (f p)) = map_of (ps_auths p)"
  shows "sched_ok now (onProvider pk f s)" "metaIn (onProvider pk f s) = metaIn s"
proof -
  have core: "sched_core now s" "recorded s" using sched_ok_mono [OF assms(1,2)] by (auto simp: sched_ok_def)
  show m: "metaIn (onProvider pk f s) = metaIn s"
    using assms(3) by (auto simp: fun_eq_iff metaIn_def bind_map_option comp_def split: bind_splits)
  have "provider_ok now q p" if "map_of (s_providers (onProvider pk f s)) q = Some p" for q p
    using that assms(3) core(1) unfolding sched_core_def by (auto split: if_splits)
  moreover have "wf_map (s_providers (onProvider pk f s))" using core(1) unfolding sched_core_def by simp
  ultimately have "sched_core now (onProvider pk f s)"
    using core(1) unfolding sched_core_def m onProvider_simps(3,4) by blast
  with core(2) show "sched_ok now (onProvider pk f s)"
    unfolding sched_ok_def recorded_def m onProvider_simps(4) by blast
qed

text \<open>A stale result refreshes the shards from the metadata already recorded.\<close>

definition rescan :: "string \<Rightarrow> string \<Rightarrow> string list \<Rightarrow> bool \<Rightarrow> time \<Rightarrow> authScheduler \<Rightarrow> authScheduler" where
  "rescan i pk targetModels scoped now s =
     onProvider pk (\<lambda>p. case map_of (ps_auths p) i of
         None \<Rightarrow> p
       | Some latestMeta \<Rightarrow> upsertAuthForModelsLocked latestMeta targetModels scoped now p) s"

lemma rescan_ok:
  assumes "sched_ok t s" "t \<le> now" "0 \<le> now"
  shows "sched_ok now (rescan i pk targetModels scoped now s)" "metaIn (rescan i pk targetModels scoped now s) = metaIn s"
    "s_authGenerations (rescan i pk targetModels scoped now s) = s_authGenerations s"
proof -
  have core: "sched_core t s" using assms(1) by (simp add: sched_ok_def)
  have f: "provider_ok now pk q \<and> map_of (ps_auths q) = map_of (ps_auths p)"
    if p: "map_of (s_providers s) pk = Some p" and q: "q = (case map_of (ps_auths p) i of None \<Rightarrow> p
      | Some latestMeta \<Rightarrow> upsertAuthForModelsLocked latestMeta targetModels scoped now p)" for p q
  proof -
    have ok: "provider_ok t pk p" using core p unfolding sched_core_def by blast
    show ?thesis
    proof (cases "map_of (ps_auths p) i")
      case None
      with ok assms(2) q show ?thesis by (simp add: provider_ok_mono)
    next
      case (Some meta)
      then have m: "m_id meta = i" "meta_ok pk meta" using ok unfolding provider_ok_def by blast+
      with Some have "\<exists>old. map_of (ps_auths p) (m_id meta) = Some old \<and> m_supportedModelSet old = m_supportedModelSet meta"
        by simp
      with upsertAuthForModels_ok [OF ok assms(2,3) m(2), of scoped targetModels] Some m(1) q show ?thesis by auto
    qed
  qed
  note on = onProvider_ok [OF assms(1,2) f [OF _ refl], folded rescan_def]
  show "sched_ok now (rescan i pk targetModels scoped now s)" "metaIn (rescan i pk targetModels scoped now s) = metaIn s"
    using on by blast+
  show "s_authGenerations (rescan i pk targetModels scoped now s) = s_authGenerations s" by (simp add: rescan_def)
qed

lemma metaIn_leave: "metaIn (leavePreviousProvider i pk s) pk j = metaIn s pk j"
  by (simp add: leavePreviousProvider_def Let_def metaIn_onProvider)

text \<open>The outcomes of a result.\<close>

lemma result_cases:
  assumes "trimmed a"
  defines "i \<equiv> auth_ID a"
  obtains (ignored) "upsertAuthResultLocked dir a targets scoped now s = s"
      "i = '''' \<or> isStaleScheduledAuth i (auth_RegistrationEpoch a) (auth_Generation a) (auth_UpdatedAt a) s"
  | (stale) pk where "i \<noteq> ''''"
      "isStaleScheduledAuth i (auth_RegistrationEpoch a) (auth_Generation a) (auth_UpdatedAt a) s"
      "upsertAuthResultLocked dir a targets scoped now s = rescan i pk targets scoped now s"
  | (discarded) "i \<noteq> ''''" "\<not> isStaleScheduledAuth i (auth_RegistrationEpoch a) (auth_Generation a) (auth_UpdatedAt a) s"
      "upsertAuthResultLocked dir a targets scoped now s = removeAuthFromProvidersLocked i
         (recordGeneration i (auth_RegistrationEpoch a) (auth_Generation a) (auth_UpdatedAt a) s)"
      "isSchedulableAuth a = None"
  | (entered) pk meta targets' scoped' where "i \<noteq> ''''"
      "\<not> isStaleScheduledAuth i (auth_RegistrationEpoch a) (auth_Generation a) (auth_UpdatedAt a) s"
      "isSchedulableAuth a = Some (i, pk)" "meta_ok pk meta" "m_auth meta = a"
      "scoped' \<or> targets' = [] \<or>
         (\<exists>old. metaIn s pk i = Some old \<and> m_supportedModelSet old = m_supportedModelSet meta)"
      "upsertAuthResultLocked dir a targets scoped now s = enter i pk meta targets' scoped' now
         (recordGeneration i (auth_RegistrationEpoch a) (auth_Generation a) (auth_UpdatedAt a) s)"
      "m_registryEpoch meta = dir_ClientRegistrationEpoch dir i"
      "m_supportedModelSet meta = supportedModelSetForAuth dir i \<or> (\<exists>old. metaIn s pk i = Some old \<and>
         m_registryEpoch old = dir_ClientRegistrationEpoch dir i \<and> m_supportedModelSet old = m_supportedModelSet meta)"
      "targets' = [] \<and> scoped' \<or> targets' = targets \<and> scoped' = scoped"
proof -
  let ?pk = "executorKeyFromAuth a"
  let ?stale = "isStaleScheduledAuth i (auth_RegistrationEpoch a) (auth_Generation a) (auth_UpdatedAt a) s"
  let ?r = "recordGeneration i (auth_RegistrationEpoch a) (auth_Generation a) (auth_UpdatedAt a) s"
  have t: "trim_space (auth_ID a) = i" using assms by simp
  consider "i = '''' \<or> (?stale \<and> ?pk = '''')" | "i \<noteq> ''''" "?stale" "?pk \<noteq> ''''"
    | "i \<noteq> ''''" "\<not> ?stale" "?pk = '''' \<or> auth_Disabled a \<or> auth_Status a = StatusDisabled"
    | "i \<noteq> ''''" "\<not> ?stale" "\<not> (?pk = '''' \<or> auth_Disabled a \<or> auth_Status a = StatusDisabled)" by blast
  then show thesis
  proof cases
    case 1
    then show thesis by (intro ignored) (auto simp: upsertAuthResultLocked_def t)
  next
    case 2
    then show thesis by (intro stale) (simp_all add: upsertAuthResultLocked_def t rescan_def)
  next
    case 3
    then show thesis by (intro discarded) (auto simp: upsertAuthResultLocked_def t isSchedulableAuth_def Let_def)
  next
    case 4
    have sch: "isSchedulableAuth a = Some (i, ?pk)" using 4 t by (simp add: schedulable_iff)
    define existing where "existing = metaIn s ?pk i"
    have ex: "Option.bind (map_of (s_providers (leavePreviousProvider i ?pk ?r)) ?pk) (\<lambda>p. map_of (ps_auths p) i) = existing"
      using metaIn_leave [of i ?pk ?r i] by (simp add: metaIn_def existing_def)
    define changed where "changed \<longleftrightarrow> (case existing of None \<Rightarrow> True
      | Some m \<Rightarrow> m_supportedModelSet m = None \<or> m_registryEpoch m \<noteq> dir_ClientRegistrationEpoch dir i)"
    define ms where "ms = (if changed then supportedModelSetForAuth dir i else m_supportedModelSet (the existing))"
    define all where "all \<longleftrightarrow> changed \<or> scoped \<or> (case existing of None \<Rightarrow> False
        | Some m \<Rightarrow> isCredentialBlocked (m_auth m) (case ms of None \<Rightarrow> 0 | Some ms \<Rightarrow> length ms) now) \<noteq>
        isCredentialBlocked a (case ms of None \<Rightarrow> 0 | Some ms \<Rightarrow> length ms) now \<or> targets = []"
    let ?meta = "buildScheduledAuthMetaWithModelSet a ms (dir_ClientRegistrationEpoch dir i)"
    show thesis
    proof (rule entered [OF 4(1,2) sch])
      show "meta_ok ?pk ?meta" by (rule build_meta_ok(1) [OF sch assms(1)])
      show "(if all then True else scoped) \<or> (if all then [] else targets) = [] \<or>
          (\<exists>old. metaIn s ?pk i = Some old \<and> m_supportedModelSet old = m_supportedModelSet ?meta)"
        using existing_def by (auto simp: all_def ms_def changed_def split: option.splits)
      show "upsertAuthResultLocked dir a targets scoped now s =
          enter i ?pk ?meta (if all then [] else targets) (if all then True else scoped) now ?r"
        using 4 unfolding upsertAuthResultLocked_def t unfolding i_def [symmetric] Let_def ex changed_def [symmetric]
          ms_def [symmetric] all_def [symmetric] admit_enter by auto
      show "m_supportedModelSet ?meta = supportedModelSetForAuth dir i \<or> (\<exists>old. metaIn s ?pk i = Some old \<and>
          m_registryEpoch old = dir_ClientRegistrationEpoch dir i \<and> m_supportedModelSet old = m_supportedModelSet ?meta)"
        using existing_def by (auto simp: ms_def changed_def split: option.splits)
    qed simp_all
  qed
qed

lemma result_ok:
  assumes "sched_ok t s" "t \<le> now" "0 \<le> now" "trimmed a"
  shows "sched_ok now (upsertAuthResultLocked dir a targets scoped now s)"
  using assms(4)
proof (cases rule: result_cases [of a dir targets scoped now s])
  case ignored
  with assms(1,2) show ?thesis by (simp add: sched_ok_mono)
next
  case (stale pk)
  show ?thesis unfolding stale(3) by (rule rescan_ok(1) [OF assms(1-3)])
next
  case discarded
  show ?thesis unfolding discarded(3) by (rule discard_ok(1) [OF assms(1,2)])
next
  case (entered pk meta targets' scoped')
  show ?thesis unfolding entered(7)
    by (rule admit_ok(1) [OF assms(1-3) entered(4) _ entered(6)]) (use entered in simp_all)
qed

lemma tombstone_ok:
  assumes "sched_ok t s" "t \<le> now"
  shows "sched_ok now (RecordRemovalTombstone i e now s)" "sched_ok now (removeAuth i now s)"
  using discard_ok(1) [OF assms] sched_ok_mono [OF assms]
  by (auto simp: RecordRemovalTombstone_def recordRemovalTombstoneLocked_def removeAuth_def removeAuthLocked_def)

lemma reset_ok:
  assumes "sched_ok t s" "t \<le> now"
  shows "sched_ok now (ResetAuthGeneration i s)"
proof (cases "trim_space i = ''''")
  case True
  with assms show ?thesis by (simp add: ResetAuthGeneration_def sched_ok_mono)
next
  case False
  let ?s = "s\<lparr>s_authGenerations := AList.delete (trim_space i) (s_authGenerations s)\<rparr>"
  have m: "metaIn ?s = metaIn s" by (rule metaIn_cong) simp
  have "sched_core now s" "recorded s" using sched_ok_mono [OF assms] by (auto simp: sched_ok_def)
  then have "sched_core now ?s" "recorded ?s"
    unfolding sched_core_def recorded_def m by (auto simp: distinct_delete delete_conv split: if_splits)
  with False show ?thesis by (simp add: ResetAuthGeneration_def sched_ok_def)
qed

lemma setSelector_ok:
  assumes "sched_ok t s" "t \<le> now"
  shows "sched_ok now (setSelector selector s)"
proof -
  have m: "metaIn (setSelector selector s) = metaIn s" by (rule metaIn_cong) (simp add: setSelector_def)
  have "sched_core now s" "recorded s" using sched_ok_mono [OF assms] by (auto simp: sched_ok_def)
  then show ?thesis unfolding sched_ok_def sched_core_def recorded_def m by (simp add: setSelector_def)
qed

text \<open>The metadata captured before a rebuild is metadata of the scheduler.\<close>

lemma fold_update_entries:
  "map_of (fold (\<lambda>(i, m) ms. AList.update i m ms) xs ms) i = Some m \<Longrightarrow> (i, m) \<in> set xs \<or> map_of ms i = Some m"
proof (induction xs arbitrary: ms)
  case (Cons x xs)
  obtain j m' where x: "x = (j, m')" by (rule prod.exhaust)
  have "(i, m) \<in> set xs \<or> map_of (AList.update j m' ms) i = Some m"
    by (rule Cons.IH) (use Cons.prems x in simp)
  with x show ?case by (auto split: if_splits)
qed simp

lemma existingMetas_entries:
  assumes "sched_core t s" "map_of (existingMetas s) i = Some m"
  shows "\<exists>pk. metaIn s pk i = Some m"
proof -
  have "\<exists>(pk, p) \<in> set ps. (i, m) \<in> set (ps_auths p)"
    if "map_of (fold (\<lambda>(pk, p) ms. fold (\<lambda>(i, meta) ms. AList.update i meta ms) (ps_auths p) ms) ps ms) i = Some m"
      "map_of ms i = None" for ps :: "(string \<times> providerScheduler) list" and ms
    using that
  proof (induction ps rule: rev_induct)
    case (snoc x ps)
    obtain pk p where x: "x = (pk, p)" by (rule prod.exhaust)
    let ?ms = "fold (\<lambda>(pk, p) ms. fold (\<lambda>(i, meta) ms. AList.update i meta ms) (ps_auths p) ms) ps ms"
    from snoc.prems x have "map_of (fold (\<lambda>(i, meta) ms. AList.update i meta ms) (ps_auths p) ?ms) i = Some m" by simp
    from fold_update_entries [OF this] snoc x show ?case by auto
  qed simp
  from this [of "s_providers s" "[]"] assms(2) obtain pk p where
    p: "(pk, p) \<in> set (s_providers s)" "(i, m) \<in> set (ps_auths p)" by (auto simp: existingMetas_def)
  then have "map_of (s_providers s) pk = Some p" "provider_ok t pk p"
    using assms(1) by (auto simp: sched_core_def)
  moreover from this p(2) have "map_of (ps_auths p) i = Some m" by (simp add: provider_ok_def)
  ultimately have "metaIn s pk i = Some m" by (simp add: metaIn_def)
  then show ?thesis ..
qed

abbreviation metas_ok :: "(string \<times> scheduledAuthMeta) list \<Rightarrow> bool" where
  "metas_ok metas \<equiv> \<forall>i m. map_of metas i = Some m \<longrightarrow> m_id m = i \<and> (\<exists>pk. meta_ok pk m)"

lemma existingMetas_ok: "sched_core t s \<Longrightarrow> metas_ok (existingMetas s)"
  using existingMetas_entries metaIn_ok(1,2) by metis

lemma rebuild_cases:
  assumes "trimmed a" "metas_ok metas"
  defines "i \<equiv> auth_ID a"
  obtains (ignored) "upsertAuthRebuildLocked dir metas now a s = s"
      "i = '''' \<or> (\<exists>g. genAt s i = Some g \<and> (auth_RegistrationEpoch a < g_epoch g \<or>
         g_epoch g = auth_RegistrationEpoch a \<and> auth_Generation a < g_generation g))"
  | (removed) "i \<noteq> ''''" "upsertAuthRebuildLocked dir metas now a s = removeAuthFromProvidersLocked i s"
      "isSchedulableAuth a = None"
  | (entered) b pk meta g u where "i \<noteq> ''''"
      "isSchedulableAuth b = Some (i, pk)" "meta_ok pk meta" "m_auth meta = b" "auth_ID b = i"
      "auth_Generation b \<le> g" "m_registryEpoch meta = dir_ClientRegistrationEpoch dir i"
      "upsertAuthRebuildLocked dir metas now a s = enter i pk meta [] True now
         (recordGeneration i (auth_RegistrationEpoch b) g u s)"
      "\<forall>x. genAt s i = Some x \<longrightarrow> g_epoch x \<le> auth_RegistrationEpoch a"
      "b = a \<or> (\<exists>m x. map_of metas i = Some m \<and> b = m_auth m \<and> genAt s i = Some x \<and>
         g_epoch x = auth_RegistrationEpoch a \<and> auth_Generation a < g_generation x)"
      "m_supportedModelSet meta = supportedModelSetForAuth dir i"
proof -
  have t: "trim_space (auth_ID a) = i" using assms(1) by (simp add: i_def)
  define old where "old \<longleftrightarrow> (case genAt s i of None \<Rightarrow> False | Some g \<Rightarrow> g_epoch g > auth_RegistrationEpoch a)"
  define newer where "newer \<longleftrightarrow> (case genAt s i of None \<Rightarrow> False
      | Some g \<Rightarrow> g_epoch g = auth_RegistrationEpoch a \<and> g_generation g > auth_Generation a)"
  define pick where "pick = (if \<not> newer then Some a else case map_of metas i of None \<Rightarrow> None
      | Some m \<Rightarrow> if auth_Disabled (m_auth m) \<or> auth_Status (m_auth m) = StatusDisabled then None else Some (m_auth m))"
  define ahead where "ahead b = (case genAt s i of None \<Rightarrow> None
      | Some g \<Rightarrow> if g_epoch g = auth_RegistrationEpoch b \<and> g_generation g > auth_Generation b then Some g else None)" for b :: Auth
  define gen where "gen b = (case ahead b of None \<Rightarrow> auth_Generation b | Some g \<Rightarrow> g_generation g)" for b :: Auth
  define upd where "upd b = (case ahead b of None \<Rightarrow> auth_UpdatedAt b
      | Some g \<Rightarrow> if g_updatedAt g > auth_UpdatedAt b then g_updatedAt g else auth_UpdatedAt b)" for b :: Auth
  define mk where "mk b = buildScheduledAuthMetaWithModelSet b (supportedModelSetForAuth dir (auth_ID b))
      (dir_ClientRegistrationEpoch dir i)" for b
  have def: "upsertAuthRebuildLocked dir metas now a s =
      (if i = '''' then s else if old then s
       else case pick of None \<Rightarrow> s
       | Some b \<Rightarrow> if executorKeyFromAuth b = '''' \<or> auth_Disabled b \<or> auth_Status b = StatusDisabled
                   then removeAuthFromProvidersLocked i s
                   else enter i (executorKeyFromAuth b) (mk b) [] True now
                          (recordGeneration i (auth_RegistrationEpoch b) (gen b) (upd b) s))"
    unfolding upsertAuthRebuildLocked_def t Let_def old_def newer_def pick_def ahead_def gen_def upd_def mk_def admit_enter ..
  consider "i = '''' \<or> old \<or> pick = None" | b where "i \<noteq> ''''" "\<not> old" "pick = Some b" by blast
  then show thesis
  proof cases
    case 1
    then have "i = '''' \<or> old \<or> newer" by (auto simp: pick_def split: if_splits)
    then have "i = '''' \<or> (\<exists>g. genAt s i = Some g \<and> (auth_RegistrationEpoch a < g_epoch g \<or>
        g_epoch g = auth_RegistrationEpoch a \<and> auth_Generation a < g_generation g))"
      by (auto simp: old_def newer_def split: option.splits)
    with 1 show thesis by (intro ignored) (auto simp: def)
  next
    case 2
    have b: "b = a \<or> (newer \<and> (\<exists>m. map_of metas i = Some m \<and> b = m_auth m \<and> (\<exists>pk. meta_ok pk m) \<and> m_id m = i))"
      using 2(3) assms(2) by (auto simp: pick_def split: if_splits option.splits)
    then have trim: "trim_space (auth_ID b) = i \<and> auth_ID b = i \<and> trimmed b"
      using assms(1) t by (auto simp: i_def meta_ok_def schedulable_iff)
    show thesis
    proof (cases "executorKeyFromAuth b = '''' \<or> auth_Disabled b \<or> auth_Status b = StatusDisabled")
      case True
      have "b = a" using b True by (auto simp: meta_ok_def schedulable_iff)
      moreover have "isSchedulableAuth b = None" using True by (auto simp: isSchedulableAuth_def Let_def)
      ultimately show thesis using 2 True by (intro removed) (auto simp: def)
    next
      case False
      have sch: "isSchedulableAuth b = Some (i, executorKeyFromAuth b)"
        unfolding schedulable_iff using False trim 2(1) by metis
      have "\<forall>x. genAt s i = Some x \<longrightarrow> g_epoch x \<le> auth_RegistrationEpoch a"
        using 2(2) by (auto simp: old_def)
      moreover have "meta_ok (executorKeyFromAuth b) (mk b)"
        unfolding mk_def by (rule build_meta_ok(1) [OF sch]) (use trim in blast)
      moreover have "auth_Generation b \<le> gen b" by (auto simp: gen_def ahead_def split: option.splits if_splits)
      moreover have "b = a \<or> (\<exists>m x. map_of metas i = Some m \<and> b = m_auth m \<and> genAt s i = Some x \<and>
          g_epoch x = auth_RegistrationEpoch a \<and> auth_Generation a < g_generation x)"
        using b by (auto simp: newer_def split: option.splits)
      ultimately show thesis
        using False 2 trim
        by (intro entered [OF 2(1) sch, of "mk b" "gen b" "upd b"])
          (auto simp: def, simp_all add: mk_def)
    qed
  qed
qed

lemma rebuild_step_ok:
  assumes "sched_ok t s" "t \<le> now" "0 \<le> now" "trimmed a" "metas_ok metas"
  shows "sched_ok now (upsertAuthRebuildLocked dir metas now a s)"
  using assms(4,5)
proof (cases rule: rebuild_cases [of a metas dir now s])
  case ignored
  with assms(1,2) show ?thesis by (simp add: sched_ok_mono)
next
  case removed
  note rm = remove_core [of t s "auth_ID a"]
  have "sched_core t s" "recorded s" using assms(1) by (auto simp: sched_ok_def)
  with rm have "sched_core t (removeAuthFromProvidersLocked (auth_ID a) s)"
    "recorded (removeAuthFromProvidersLocked (auth_ID a) s)" unfolding recorded_def by (auto split: if_splits)
  then show ?thesis unfolding removed(2) using assms(2) by (auto simp: sched_ok_def intro: sched_core_mono)
next
  case (entered b pk meta g u)
  show ?thesis unfolding entered(8)
    by (rule admit_ok(1) [OF assms(1-3) entered(3)]) (use entered in simp_all)
qed

lemma cleared_ok:
  assumes "sched_ok t s"
  shows "sched_ok t (s\<lparr>s_providers := [], s_authProviders := [], s_mixedCursors := [], s_mixedWeightedStates := []\<rparr>)"
  using assms by (simp add: sched_ok_def sched_core_def recorded_def metaIn_def)

lemma rebuild_fold_ok:
  assumes "sched_ok now s" "0 \<le> now" "\<forall>a \<in> set auths. trimmed a" "metas_ok metas"
  shows "sched_ok now (fold (upsertAuthRebuildLocked dir metas now) auths s)"
  using assms
proof (induction auths arbitrary: s)
  case (Cons a auths)
  show ?case using Cons.IH [OF rebuild_step_ok [OF Cons.prems(1) order_refl]] Cons.prems by simp
qed simp

lemma rebuild_ok:
  assumes "sched_ok t s" "t \<le> now" "0 \<le> now" "\<forall>a \<in> set auths. trimmed a"
  shows "sched_ok now (rebuild dir auths now s)"
proof -
  have "metas_ok (existingMetas s)" using assms(1) existingMetas_ok by (auto simp: sched_ok_def)
  then show ?thesis unfolding rebuild_def Let_def
    by (intro rebuild_fold_ok [OF cleared_ok [OF sched_ok_mono [OF assms(1,2)]] assms(3,4)])
qed

section \<open>Picks keep the invariant\<close>

text \<open>States that differ in cursors, weighted credits, pins or strategy only.\<close>

lemma same_credentials_ok:
  assumes "sched_ok t s" "s_providers s' = s_providers s" "s_authProviders s' = s_authProviders s"
    "s_authGenerations s' = s_authGenerations s"
  shows "sched_ok t s'"
  using assms(1) unfolding sched_ok_def sched_core_def recorded_def metaIn_cong [OF assms(2)] assms(2-4) .

lemma ensureShard_ok:
  fixes pk modelKey :: string
  assumes "sched_ok t s" "t \<le> now" "0 \<le> now"
  defines "s' \<equiv> ensureShard pk modelKey now s"
  shows "sched_ok now s'" "metaIn s' = metaIn s" "s_authGenerations s' = s_authGenerations s"
    "s_authProviders s' = s_authProviders s" "s_strategy s' = s_strategy s"
    "map_of (s_providers s') q = None \<longleftrightarrow> map_of (s_providers s) q = None"
    "q \<noteq> pk \<Longrightarrow> shardAt s' q k = shardAt s q k"
    "map_of (s_providers s) pk \<noteq> None \<Longrightarrow> \<exists>m. shardAt s' pk (canonicalModelKey modelKey) = Some m \<and>
       shard_fits now pk (metaIn s pk) (canonicalModelKey modelKey) m"
proof -
  let ?f = "\<lambda>p. snd (ensureModelLocked modelKey now p)"
  have ok: "provider_ok t pk p" if "map_of (s_providers s) pk = Some p" for p
    using assms(1) that unfolding sched_ok_def sched_core_def by blast
  have f: "provider_ok now pk (?f p) \<and> map_of (ps_auths (?f p)) = map_of (ps_auths p)"
    if "map_of (s_providers s) pk = Some p" for p
    using ensureModel_ok [OF ok [OF that] assms(2,3)] by (metis prod.collapse)
  note on = onProvider_ok [where f = ?f, OF assms(1,2) f, folded ensureShard_def, folded s'_def]
  show "sched_ok now s'" "metaIn s' = metaIn s" using on by blast+
  show "s_authGenerations s' = s_authGenerations s" "s_authProviders s' = s_authProviders s" "s_strategy s' = s_strategy s"
    "map_of (s_providers s') q = None \<longleftrightarrow> map_of (s_providers s) q = None"
    "q \<noteq> pk \<Longrightarrow> shardAt s' q k = shardAt s q k"
    by (auto simp: s'_def ensureShard_def shardAt_def)
  assume "map_of (s_providers s) pk \<noteq> None"
  then obtain p where p: "map_of (s_providers s) pk = Some p" by blast
  obtain m p' where e: "ensureModelLocked modelKey now p = (m, p')" by (rule prod.exhaust)
  have "metaIn s pk = map_of (ps_auths p)" using p by (simp add: fun_eq_iff metaIn_def)
  with ensureModel_ok(3,4) [OF ok [OF p] assms(2,3) e] p e
  show "\<exists>m. shardAt s' pk (canonicalModelKey modelKey) = Some m \<and>
      shard_fits now pk (metaIn s pk) (canonicalModelKey modelKey) m"
    by (simp add: s'_def ensureShard_def shardAt_def)
qed

lemma shardAt_fits:
  assumes "sched_ok t s" "shardAt s pk k = Some m"
  shows "shard_fits t pk (metaIn s pk) k m"
proof -
  from assms(2) obtain p where p: "map_of (s_providers s) pk = Some p" "map_of (ps_modelShards p) k = Some m"
    unfolding shardAt_def bind_eq_Some_conv by blast
  then have "provider_ok t pk p" using assms(1) unfolding sched_ok_def sched_core_def by blast
  moreover have "metaIn s pk = map_of (ps_auths p)" using p(1) by (simp add: fun_eq_iff metaIn_def)
  ultimately show ?thesis using p(2) unfolding provider_ok_def by simp
qed

text \<open>What any pick does to a shard.\<close>

definition keeps_pool :: "time \<Rightarrow> time \<Rightarrow> (quotaDrainPin \<Rightarrow> modelScheduler \<Rightarrow> Auth option \<times> modelScheduler \<times> quotaDrainPin) \<Rightarrow> bool"
where
  "keeps_pool t now pick \<longleftrightarrow> (\<forall>pin m a m' pin'. shard_ok t m \<longrightarrow> pick pin m = (a, m', pin') \<longrightarrow>
     shard_ok now m' \<and> sh_modelKey m' = sh_modelKey m \<and> metaAt m' = metaAt m)"

lemma pickReady_keeps:
  assumes "t \<le> now" "0 \<le> now" "weights_positive strategy (on_meta P)"
  shows "keeps_pool t now (pickReadyLocked preferWebsocket strategy (on_meta P) now)"
  unfolding keeps_pool_def using pickReady_spec(1) [OF _ assms] by blast

lemma pickAt_keeps:
  assumes "weights_positive strategy P"
  shows "keeps_pool t t (pickReadyAtPriorityLocked preferWebsocket p strategy P now)"
  unfolding keeps_pool_def metaAt_def fun_eq_iff using pickAt_spec(1) [OF _ assms] by metis

lemma onShard_ok:
  assumes "sched_ok t s" "t \<le> now" "keeps_pool t now pick" "onShard pk k pick s = (a, s')"
  shows "sched_ok now s'" "metaIn s' = metaIn s" "s_authGenerations s' = s_authGenerations s"
    "s_authProviders s' = s_authProviders s" "s_strategy s' = s_strategy s"
    "map_of (s_providers s') q = None \<longleftrightarrow> map_of (s_providers s) q = None"
    "q \<noteq> pk \<or> k' \<noteq> k \<Longrightarrow> shardAt s' q k' = shardAt s q k'"
    "shardAt s pk k = Some m \<Longrightarrow> \<exists>m' pin pin'. pick pin m = (a, m', pin') \<and> shardAt s' pk k = Some m'"
proof -
  have "sched_ok now s' \<and> metaIn s' = metaIn s \<and> s_authGenerations s' = s_authGenerations s \<and>
    s_authProviders s' = s_authProviders s \<and> s_strategy s' = s_strategy s \<and>
    (\<forall>q. map_of (s_providers s') q = None \<longleftrightarrow> map_of (s_providers s) q = None) \<and>
    (\<forall>q k'. q \<noteq> pk \<or> k' \<noteq> k \<longrightarrow> shardAt s' q k' = shardAt s q k') \<and>
    (\<forall>m. shardAt s pk k = Some m \<longrightarrow> (\<exists>m' pin pin'. pick pin m = (a, m', pin') \<and> shardAt s' pk k = Some m'))"
  proof (cases "shardAt s pk k")
    case None
    with assms show ?thesis by (simp add: onShard_def sched_ok_mono)
  next
    case (Some m)
    then obtain p where p: "map_of (s_providers s) pk = Some p" "map_of (ps_modelShards p) k = Some m"
      unfolding shardAt_def bind_eq_Some_conv by blast
    obtain a' m' pin' where pk': "pick (get_or empty_pin (s_quotaPins s) (pk, k)) m = (a', m', pin')" by (rule prod_cases3)
    let ?f = "\<lambda>p. p\<lparr>ps_modelShards := AList.update k m' (ps_modelShards p)\<rparr>"
    have s': "a = a'" "s' = (onProvider pk ?f s)\<lparr>s_quotaPins := AList.update (pk, k) pin' (s_quotaPins (onProvider pk ?f s))\<rparr>"
      using assms(4) Some pk' by (auto simp: onShard_def putShard_def Let_def)
    have fits: "shard_fits t pk (metaIn s pk) k m" by (rule shardAt_fits [OF assms(1) Some])
    then have "shard_fits now pk (metaIn s pk) k m'"
      using assms(3) pk' unfolding keeps_pool_def shard_fits_def by metis
    moreover have ok: "provider_ok t pk p" using assms(1) p(1) unfolding sched_ok_def sched_core_def by blast
    moreover have "metaIn s pk = map_of (ps_auths p)" using p(1) by (simp add: fun_eq_iff metaIn_def)
    ultimately have "provider_ok now pk (?f p)" using provider_ok_mono [OF ok assms(2)] unfolding provider_ok_def by auto
    then have on: "sched_ok now (onProvider pk ?f s)" "metaIn (onProvider pk ?f s) = metaIn s"
      using onProvider_ok [OF assms(1,2), of pk ?f] p(1) by auto
    have ok': "sched_ok now s'" by (rule same_credentials_ok [OF on(1)]) (simp_all add: s')
    have m': "metaIn s' = metaIn s" unfolding on(2) [symmetric] by (rule metaIn_cong) (simp add: s')
    have "\<forall>q. map_of (s_providers s') q = None \<longleftrightarrow> map_of (s_providers s) q = None"
      "\<forall>q k'. q \<noteq> pk \<or> k' \<noteq> k \<longrightarrow> shardAt s' q k' = shardAt s q k'" "shardAt s' pk k = Some m'"
      using p by (auto simp: s' shardAt_def)
    with ok' m' Some pk' s'(1) show ?thesis by (auto simp: s'(2))
  qed
  then show "sched_ok now s'" "metaIn s' = metaIn s" "s_authGenerations s' = s_authGenerations s"
    "s_authProviders s' = s_authProviders s" "s_strategy s' = s_strategy s"
    "map_of (s_providers s') q = None \<longleftrightarrow> map_of (s_providers s) q = None"
    "q \<noteq> pk \<or> k' \<noteq> k \<Longrightarrow> shardAt s' q k' = shardAt s q k'"
    "shardAt s pk k = Some m \<Longrightarrow> \<exists>m' pin pin'. pick pin m = (a, m', pin') \<and> shardAt s' pk k = Some m'"
    by blast+
qed

end
