(* ===== verification/Scheduler_Picks.thy ===== *)
theory Scheduler_Picks
  imports Scheduler
begin

text \<open>
  What the scheduler picks: from one provider and from several, the credential is one that may serve
  the request, of the highest priority there is, and the scheduler refuses only when there is none.
\<close>

section \<open>Requests\<close>

text \<open>The test of a request, on the metadata of a credential.\<close>

definition eligible :: "pickRequest \<Rightarrow> schedulerStrategy \<Rightarrow> scheduledAuthMeta \<Rightarrow> bool" where
  "eligible rq strategy meta \<longleftrightarrow> rq_allows rq (m_auth meta) \<and>
     (strategy = schedulerStrategyWeightedRoundRobin \<longrightarrow> 0 < m_weight meta) \<and>
     (rq_pinnedAuthID rq \<noteq> '''' \<longrightarrow> m_id meta = rq_pinnedAuthID rq) \<and> m_id meta \<notin> set (rq_tried rq)"

lemma predicate_eligible:
  "scheduledAuthPredicate (rq_allows rq) (rq_tried rq) (rq_pinnedAuthID rq)
     (strategy = schedulerStrategyWeightedRoundRobin) = on_meta (eligible rq strategy)"
  by (auto simp: fun_eq_iff scheduledAuthPredicate_def eligible_def)

lemma eligible_weights: "weights_positive strategy (on_meta (eligible rq strategy))"
  by (simp add: eligible_def)

text \<open>The credentials a shard holds or will hold when it is made.\<close>

definition poolOf :: "authScheduler \<Rightarrow> string \<Rightarrow> string \<Rightarrow> credentialMap" where
  "poolOf s pk k i =
     (case shardAt s pk k of
        Some m \<Rightarrow> metaAt m i
      | None \<Rightarrow> (case metaIn s pk i of None \<Rightarrow> None | Some meta \<Rightarrow> if supportsModel meta k then Some meta else None))"

text \<open>Entries carry the verdict of now.\<close>

definition fresh :: "time \<Rightarrow> modelScheduler \<Rightarrow> bool" where
  "fresh now m \<longleftrightarrow> (\<forall>i e. entryAt m i = Some e \<longrightarrow>
     (se_state e = scheduledStateReady \<longleftrightarrow> usable (sh_modelKey m) now (se_auth e)))"

lemma fill_fresh:
  "fresh now (fold (\<lambda>(i, meta) shard. if supportsModel meta k then upsertEntryLocked meta now shard else shard)
     auths (newShard k'))"
proof -
  have "fresh now (fold (\<lambda>(i, meta) shard. if supportsModel meta k then upsertEntryLocked meta now shard else shard) auths m)"
    if "fresh now m" for m
    using that
  proof (induction auths arbitrary: m)
    case (Cons x auths)
    obtain i meta where x: "x = (i, meta)" by (rule prod.exhaust)
    have "fresh now (upsertEntryLocked meta now m)" using Cons.prems by (simp add: fresh_def)
    with Cons x show ?case by simp
  qed simp
  then show ?thesis by (simp add: fresh_def newShard_def)
qed

lemma promote_fresh:
  assumes "shard_ok t m" "t \<le> now"
  shows "fresh now (promoteExpiredLocked now m)"
proof -
  have "se_state (promoted (sh_modelKey m) now e) = scheduledStateReady \<longleftrightarrow> usable (sh_modelKey m) now (se_auth e)"
    if "entryAt m i = Some e" for i e
    using assms that by (intro promoted_exact [of _ t]) (auto simp: shard_ok_def)
  moreover have "se_meta (promoted k now e) = se_meta e" for k e by (simp add: promoted_def)
  ultimately show ?thesis
    unfolding fresh_def promote_spec(1,2) [OF assms] by auto
qed

lemma ensureShard_fresh:
  fixes modelKey :: string
  assumes "sched_ok t s" "t \<le> now" "0 \<le> now" "map_of (s_providers s) pk \<noteq> None"
  defines "k \<equiv> canonicalModelKey modelKey"
  shows "\<exists>m. shardAt (ensureShard pk modelKey now s) pk k = Some m \<and> fresh now m \<and> shard_ok now m \<and>
    sh_modelKey m = k \<and> metaAt m = poolOf s pk k"
proof -
  from assms(4) obtain p where p: "map_of (s_providers s) pk = Some p" by blast
  have ok: "provider_ok t pk p" using assms(1) p unfolding sched_ok_def sched_core_def by blast
  have auths: "metaIn s pk = map_of (ps_auths p)" using p by (simp add: fun_eq_iff metaIn_def)
  obtain m p' where e: "ensureModelLocked modelKey now p = (m, p')" by (rule prod.exhaust)
  note en = ensureModel_ok [OF ok assms(2,3) e, folded k_def]
  have "shardAt (ensureShard pk modelKey now s) pk k = Some m"
    using p e en(3) by (simp add: ensureShard_def shardAt_def)
  moreover have "fresh now m \<and> metaAt m = poolOf s pk k"
  proof (cases "map_of (ps_modelShards p) k")
    case (Some m0)
    then have m: "m = promoteExpiredLocked now m0" "shardAt s pk k = Some m0"
      using e p by (auto simp: ensureModelLocked_def Let_def k_def shardAt_def)
    have inv: "shard_ok t m0 \<and> sh_modelKey m0 = k" using shardAt_fits [OF assms(1) m(2)] by (simp add: shard_fits_def)
    show ?thesis
      unfolding m(1) using promote_fresh [OF conjunct1 [OF inv] assms(2)] shard.pool_refresh [OF inv assms(2)] m(2)
      by (simp add: fun_eq_iff poolOf_def)
  next
    case None
    then have m: "m = fold (\<lambda>(i, meta) shard. if supportsModel meta k then upsertEntryLocked meta now shard else shard)
        (ps_auths p) (newShard k)" "shardAt s pk k = None"
      using e p by (auto simp: ensureModelLocked_def Let_def k_def shardAt_def)
    have wf: "wf_map (ps_auths p)" "\<forall>(i, meta) \<in> set (ps_auths p). m_id meta = i"
      using ok by (auto simp: provider_ok_def)
    show ?thesis
      using fill_fresh [of now k "ps_auths p" k] fill_shard(3) [OF wf(1) assms(3) wf(2), of k] m auths
      by (simp add: fun_eq_iff poolOf_def)
  qed
  ultimately show ?thesis using en(4) by (auto simp: shard_fits_def)
qed

lemma poolOf_ensure:
  assumes "sched_ok t s" "t \<le> now" "0 \<le> now"
  shows "poolOf (ensureShard pk modelKey now s) q k = poolOf s q k"
proof (cases "q = pk \<and> k = canonicalModelKey modelKey \<and> map_of (s_providers s) pk \<noteq> None")
  case True
  with ensureShard_fresh [OF assms, of pk modelKey] show ?thesis by (auto simp: fun_eq_iff poolOf_def)
next
  case False
  have sh: "shardAt (ensureShard pk modelKey now s) q k = shardAt s q k"
    using False by (auto simp: ensureShard_def shardAt_def onProvider_def ensureModelLocked_def Let_def split: option.splits)
  show ?thesis unfolding fun_eq_iff poolOf_def sh ensureShard_ok(2) [OF assms] by simp
qed

text \<open>In a fresh shard the selectable entries of a priority are the choices of that priority.\<close>

lemma fresh_choices:
  assumes "shard_ok t m" "fresh now m"
  shows "(\<exists>e. readyEntry m p e \<and> selectable (sh_modelKey m) now strategy (on_meta P) e \<and> se_meta e = meta) \<longleftrightarrow>
    meta \<in> choices m now False strategy P \<and> m_priority meta = p"
proof
  assume "\<exists>e. readyEntry m p e \<and> selectable (sh_modelKey m) now strategy (on_meta P) e \<and> se_meta e = meta"
  then obtain e where e: "readyEntry m p e" "selectable (sh_modelKey m) now strategy (on_meta P) e" "se_meta e = meta" by blast
  then have "usable (sh_modelKey m) now (m_auth meta)" using assms(2) unfolding fresh_def by blast
  with e show "meta \<in> choices m now False strategy P \<and> m_priority meta = p"
    by (auto simp: pool_choices_def metaAt_def selectable_def)
next
  assume a: "meta \<in> choices m now False strategy P \<and> m_priority meta = p"
  then obtain e where e: "entryAt m (m_id meta) = Some e" "se_meta e = meta" by (auto simp: pool_choices_def metaAt_def)
  with a assms(2) have "se_state e = scheduledStateReady" unfolding fresh_def by (auto simp: pool_choices_def)
  with a e show "\<exists>e. readyEntry m p e \<and> selectable (sh_modelKey m) now strategy (on_meta P) e \<and> se_meta e = meta"
    by (intro exI [of _ e]) (auto simp: selectable_def pool_choices_def)
qed

section \<open>One provider\<close>

lemma pickShardOrError_spec:
  assumes "sched_ok t s" "t \<le> now" "0 \<le> now" "weights_positive strategy (on_meta P)"
    and "map_of (s_providers s) pk \<noteq> None"
    and "pickShardOrError pk modelKey preferWebsocket strategy (on_meta P) errorProvider model now s = (r, s')"
  defines "k \<equiv> canonicalModelKey modelKey"
  shows "sched_ok now s'" "metaIn s' = metaIn s" "s_authGenerations s' = s_authGenerations s"
    "case r of Inl e \<Rightarrow> pool_choices k (poolOf s pk k) now preferWebsocket strategy P = {}
     | Inr a \<Rightarrow> highest_of (pool_choices k (poolOf s pk k) now preferWebsocket strategy P) (Some a)"
proof -
  define s1 where "s1 = ensureShard pk modelKey now s"
  note en = ensureShard_ok [OF assms(1-3), of pk modelKey, folded s1_def]
  from ensureShard_fresh [OF assms(1-3,5), of modelKey, folded s1_def k_def] obtain m where
    m: "shardAt s1 pk k = Some m" "shard_ok now m" "sh_modelKey m = k" "metaAt m = poolOf s pk k" by blast
  obtain a s2 where a: "onShard pk k (pickReadyLocked preferWebsocket strategy (on_meta P) now) s1 = (a, s2)" by (rule prod.exhaust)
  note on = onShard_ok [OF en(1) order_refl pickReady_keeps [OF order_refl assms(3,4)] a]
  from on(8) [OF m(1)] obtain m' pin pin' where
    m': "pickReadyLocked preferWebsocket strategy (on_meta P) now pin m = (a, m', pin')" "shardAt s2 pk k = Some m'" by blast
  have high: "highest_of (pool_choices k (poolOf s pk k) now preferWebsocket strategy P) a"
    using pickReady_spec(2) [OF m(2) order_refl assms(3,4) m'(1)] m(3,4) by simp
  have r: "s' = s2" "case r of Inl e \<Rightarrow> a = None | Inr x \<Rightarrow> a = Some x"
    using assms(6) a m'(2) unfolding pickShardOrError_def s1_def [symmetric] k_def [symmetric] Let_def
    by (auto split: option.splits prod.splits)
  show "sched_ok now s'" "metaIn s' = metaIn s" "s_authGenerations s' = s_authGenerations s"
    using on(1-3) en(2,3) r(1) by simp_all
  show "case r of Inl e \<Rightarrow> pool_choices k (poolOf s pk k) now preferWebsocket strategy P = {}
     | Inr a \<Rightarrow> highest_of (pool_choices k (poolOf s pk k) now preferWebsocket strategy P) (Some a)"
    using r(2) high by (cases r) (simp_all add: highest_of_def)
qed

abbreviation prefersWebsocket :: "string \<Rightarrow> pickRequest \<Rightarrow> bool" where
  "prefersWebsocket pk rq \<equiv> rq_downstreamWebsocket rq \<and> providerPrefersWebsocketTransport pk \<and> rq_pinnedAuthID rq = ''''"

text \<open>What a provider has to offer for a request.\<close>

definition offers :: "authScheduler \<Rightarrow> string \<Rightarrow> string \<Rightarrow> bool \<Rightarrow> schedulerStrategy \<Rightarrow> pickRequest \<Rightarrow> time \<Rightarrow> scheduledAuthMeta set"
where
  "offers s pk k preferWebsocket strategy rq now =
     pool_choices k (poolOf s pk k) now preferWebsocket strategy (eligible rq strategy)"

lemma no_provider_no_offers: "map_of (s_providers s) pk = None \<Longrightarrow> offers s pk k w strategy rq now = {}"
  by (simp add: offers_def pool_choices_def poolOf_def shardAt_def metaIn_def)

lemma pickSingle_spec:
  assumes "sched_ok t s" "t \<le> now" "0 \<le> now" "pickSingleWithStrategy provider model rq strategy now s = (r, s')"
  defines "pk \<equiv> canonicalSchedulingProvider provider" and "k \<equiv> canonicalModelKey (canonicalModelKey model)"
  shows "sched_ok now s'" "metaIn s' = metaIn s" "s_authGenerations s' = s_authGenerations s"
    "case r of Inl e \<Rightarrow> offers s pk k (prefersWebsocket pk rq) (currentStrategy strategy s) rq now = {}
     | Inr a \<Rightarrow> highest_of (offers s pk k (prefersWebsocket pk rq) (currentStrategy strategy s) rq now) (Some a)"
proof -
  let ?st = "currentStrategy strategy s"
  have "sched_ok now s' \<and> metaIn s' = metaIn s \<and> s_authGenerations s' = s_authGenerations s \<and>
    (case r of Inl e \<Rightarrow> offers s pk k (prefersWebsocket pk rq) ?st rq now = {}
     | Inr a \<Rightarrow> highest_of (offers s pk k (prefersWebsocket pk rq) ?st rq now) (Some a))"
  proof (cases "map_of (s_providers s) pk")
    case None
    with assms(4) have "r = Inl authNotFound" "s' = s" by (auto simp: pickSingleWithStrategy_def Let_def pk_def)
    with assms(1,2) None show ?thesis by (simp add: sched_ok_mono no_provider_no_offers)
  next
    case (Some p)
    with assms(4) have run: "pickShardOrError pk (canonicalModelKey model) (prefersWebsocket pk rq) ?st
        (on_meta (eligible rq ?st)) provider model now s = (r, s')"
      by (simp add: pickSingleWithStrategy_def Let_def pk_def [symmetric] predicate_eligible)
    have "map_of (s_providers s) pk \<noteq> None" using Some by simp
    from pickShardOrError_spec [OF assms(1-3) eligible_weights this run] show ?thesis
      unfolding offers_def k_def by blast
  qed
  then show "sched_ok now s'" "metaIn s' = metaIn s" "s_authGenerations s' = s_authGenerations s"
    "case r of Inl e \<Rightarrow> offers s pk k (prefersWebsocket pk rq) ?st rq now = {}
     | Inr a \<Rightarrow> highest_of (offers s pk k (prefersWebsocket pk rq) ?st rq now) (Some a)" by blast+
qed

section \<open>Several providers\<close>

lemma normalizeProviderKeys_props:
  "distinct (normalizeProviderKeys providers)"
  "set (normalizeProviderKeys providers) = {pk. \<exists>p \<in> set providers. pk = canonicalSchedulingProvider p \<and> pk \<noteq> ''''}"
proof -
  let ?f = "\<lambda>provider out. let providerKey = canonicalSchedulingProvider provider
      in if providerKey = '''' \<or> providerKey \<in> set out then out else out @ [providerKey]"
  have "(distinct out \<longrightarrow> distinct (fold ?f ps out)) \<and>
      set (fold ?f ps out) = set out \<union> {pk. \<exists>p \<in> set ps. pk = canonicalSchedulingProvider p \<and> pk \<noteq> ''''}" for ps out
  proof (induction ps arbitrary: out)
    case (Cons p ps)
    then show ?case by (auto simp: Let_def)
  qed simp
  from this [of "[]" providers] show "distinct (normalizeProviderKeys providers)"
    "set (normalizeProviderKeys providers) = {pk. \<exists>p \<in> set providers. pk = canonicalSchedulingProvider p \<and> pk \<noteq> ''''}"
    by (auto simp: normalizeProviderKeys_def)
qed

text \<open>A state in which the shards of some providers have been brought up to date, and hold given pools.\<close>

definition prepared :: "time \<Rightarrow> string \<Rightarrow> (string \<Rightarrow> credentialMap) \<Rightarrow> string set \<Rightarrow> authScheduler \<Rightarrow> bool" where
  "prepared now k pools pks s \<longleftrightarrow> (\<forall>pk \<in> pks. case shardAt s pk k of
      None \<Rightarrow> pools pk = Map.empty
    | Some m \<Rightarrow> fresh now m \<and> shard_ok now m \<and> sh_modelKey m = k \<and> metaAt m = pools pk)"

lemma prepared_frame:
  assumes "prepared now k pools pks s" "pk \<notin> pks" "\<And>q. q \<noteq> pk \<Longrightarrow> shardAt s' q k = shardAt s q k"
  shows "prepared now k pools pks s'"
  unfolding prepared_def
proof
  fix q assume q: "q \<in> pks"
  then have "shardAt s' q k = shardAt s q k" using assms(2,3) by metis
  with q assms(1) show "case shardAt s' q k of None \<Rightarrow> pools q = Map.empty
      | Some m \<Rightarrow> fresh now m \<and> shard_ok now m \<and> sh_modelKey m = k \<and> metaAt m = pools q"
    by (simp add: prepared_def)
qed



lemma prepared_ensure:
  fixes modelKey :: string
  assumes "sched_ok t s" "t \<le> now" "0 \<le> now"
  defines "k \<equiv> canonicalModelKey modelKey"
  shows "prepared now k (\<lambda>q. poolOf s q k) {pk} (ensureShard pk modelKey now s)"
proof (cases "map_of (s_providers s) pk")
  case None
  then have "shardAt (ensureShard pk modelKey now s) pk k = None" "poolOf s pk k = Map.empty"
    by (auto simp: ensureShard_def shardAt_def onProvider_def poolOf_def fun_eq_iff metaIn_def)
  then show ?thesis by (simp add: prepared_def)
next
  case (Some p)
  with ensureShard_fresh [OF assms(1-3), of pk modelKey] show ?thesis by (auto simp: prepared_def k_def)
qed

definition best_of :: "int option \<Rightarrow> scheduledAuthMeta set \<Rightarrow> int option \<Rightarrow> bool" where
  "best_of b0 M b \<longleftrightarrow> (case b of
      None \<Rightarrow> b0 = None \<and> M = {}
    | Some p \<Rightarrow> (b0 = Some p \<or> (\<exists>x \<in> M. m_priority x = p)) \<and> (\<forall>q. b0 = Some q \<longrightarrow> q \<le> p) \<and> (\<forall>x \<in> M. m_priority x \<le> p))"

lemma shard_best:
  assumes "shard_ok t m" "fresh now m"
  shows "best_of None (choices m now False strategy P) (highestSelectablePriorityLocked m False strategy (on_meta P) now)"
proof -
  let ?S = "selectable (sh_modelKey m) now strategy (on_meta P)"
  have ok: "keyed m" "indexed m" using assms(1) by (auto simp: shard_ok_def)
  have h: "highestSelectablePriorityLocked m False strategy (on_meta P) now =
      firstPriority m (\<lambda>b. \<exists>e \<in> set (flatAll m b). ?S e)" by (simp add: highest_eq)
  have c: "meta \<in> choices m now False strategy P \<longleftrightarrow> (\<exists>q e. readyEntry m q e \<and> ?S e \<and> se_meta e = meta)" for meta
    using fresh_choices [OF assms, of _ strategy P meta] by metis
  have pr: "m_priority (se_meta e) = q" if "readyEntry m q e" for e q using that by simp
  show ?thesis
  proof (cases "firstPriority m (\<lambda>b. \<exists>e \<in> set (flatAll m b). ?S e)")
    case None
    with first_ready(2) [OF ok, of ?S] have "\<not> (\<exists>q e. readyEntry m q e \<and> ?S e)" by simp
    then have "choices m now False strategy P = {}" using c by blast
    with None show ?thesis by (simp add: h best_of_def)
  next
    case (Some p)
    with first_ready(1) [OF ok, of ?S p] have r: "\<exists>e. readyEntry m p e \<and> ?S e" "\<forall>q e. readyEntry m q e \<and> ?S e \<longrightarrow> q \<le> p"
      by auto
    from r(1) obtain e where e: "readyEntry m p e" "?S e" by blast
    then have "se_meta e \<in> choices m now False strategy P" unfolding c by blast
    then have "\<exists>x \<in> choices m now False strategy P. m_priority x = p" using pr [OF e(1)] by (rule rev_bexI)
    moreover have "m_priority x \<le> p" if "x \<in> choices m now False strategy P" for x
    proof -
      from that obtain q e where e: "readyEntry m q e" "?S e" "se_meta e = x" unfolding c by blast
      with r(2) have "q \<le> p" by blast
      with e show ?thesis by simp
    qed
    ultimately show ?thesis using Some by (simp add: h best_of_def)
  qed
qed

lemma best_of_step:
  assumes "best_of b0 M b" "best_of None N (h :: int option)"
  shows "best_of b0 (M \<union> N) (case h of None \<Rightarrow> b | Some q \<Rightarrow> if (case b of None \<Rightarrow> True | Some b \<Rightarrow> q > b) then Some q else b)"
  using assms unfolding best_of_def by (cases h; cases b) (auto intro: order_trans split: if_splits)

lemma best_fold:
  assumes "sched_ok t s" "t \<le> now" "0 \<le> now" "distinct pks"
    and "fold (bestPriorityStep modelKey strategy (on_meta P) now) pks (None, s) = (b, s')"
  defines "k \<equiv> canonicalModelKey modelKey"
  shows "sched_ok now s' \<and> metaIn s' = metaIn s \<and> s_authGenerations s' = s_authGenerations s \<and>
    (\<forall>q. poolOf s' q k = poolOf s q k) \<and> prepared now k (\<lambda>q. poolOf s q k) (set pks) s' \<and>
    best_of None (\<Union>pk \<in> set pks. pool_choices k (poolOf s pk k) now False strategy P) b"
  using assms(4,5)
proof (induction pks arbitrary: b s' rule: rev_induct)
  case Nil
  with sched_ok_mono [OF assms(1,2)] show ?case by (simp add: prepared_def best_of_def)
next
  case (snoc pk pks)
  obtain b1 s1 where f: "fold (bestPriorityStep modelKey strategy (on_meta P) now) pks (None, s) = (b1, s1)" by (rule prod.exhaust)
  from snoc.IH [OF _ f] snoc.prems(1) have IH: "sched_ok now s1" "metaIn s1 = metaIn s"
    "s_authGenerations s1 = s_authGenerations s" "\<And>q. poolOf s1 q k = poolOf s q k"
    "prepared now k (\<lambda>q. poolOf s q k) (set pks) s1"
    "best_of None (\<Union>pk \<in> set pks. pool_choices k (poolOf s pk k) now False strategy P) b1" by auto
  define s2 where "s2 = ensureShard pk modelKey now s1"
  note en = ensureShard_ok [OF IH(1) order_refl assms(3), where pk = pk and modelKey = modelKey, folded s2_def]
  define h where "h = (case shardAt s2 pk k of None \<Rightarrow> None
      | Some m \<Rightarrow> highestSelectablePriorityLocked m False strategy (on_meta P) now)"
  have run: "s' = s2" "b = (case h of None \<Rightarrow> b1 | Some q \<Rightarrow> if (case b1 of None \<Rightarrow> True | Some b \<Rightarrow> q > b) then Some q else b1)"
  proof -
    have "bestPriorityStep modelKey strategy (on_meta P) now pk (b1, s1) = (b, s')" using snoc.prems(2) f by simp
    then show "s' = s2" "b = (case h of None \<Rightarrow> b1 | Some q \<Rightarrow> if (case b1 of None \<Rightarrow> True | Some b \<Rightarrow> q > b) then Some q else b1)"
      unfolding bestPriorityStep_def Let_def prod.case s2_def [symmetric] k_def [symmetric] h_def
      by (auto split: option.splits if_splits)
  qed
  have pre: "prepared now k (\<lambda>q. poolOf s q k) {pk} s2"
    using prepared_ensure [OF IH(1) order_refl assms(3), of modelKey pk, folded s2_def k_def] IH(4) by simp
  have "best_of None (pool_choices k (poolOf s pk k) now False strategy P) h"
  proof (cases "shardAt s2 pk k")
    case None
    with pre show ?thesis by (simp add: h_def prepared_def pool_choices_def best_of_def)
  next
    case (Some m)
    with pre have "fresh now m" "shard_ok now m" "sh_modelKey m = k" "metaAt m = poolOf s pk k" by (auto simp: prepared_def)
    with shard_best [of now m now strategy P] Some show ?thesis by (simp add: h_def)
  qed
  from best_of_step [OF IH(6) this] run(2)
  have "best_of None (\<Union>pk \<in> set (pks @ [pk]). pool_choices k (poolOf s pk k) now False strategy P) b"
    by (simp add: Un_commute)
  moreover have "prepared now k (\<lambda>q. poolOf s q k) (set pks) s2"
    by (rule prepared_frame [OF IH(5) _ en(7)]) (use snoc.prems(1) in auto)
  with pre have "prepared now k (\<lambda>q. poolOf s q k) (set (pks @ [pk])) s2"
    by (simp add: prepared_def)
  ultimately show ?case
    using run(1) en(1-3) IH(2-4) poolOf_ensure [OF IH(1) order_refl assms(3), of pk modelKey _ k, folded s2_def] by simp
qed

text \<open>A pick at the best priority from one shard that is up to date.\<close>

definition at_best :: "string \<Rightarrow> (string \<Rightarrow> credentialMap) \<Rightarrow> time \<Rightarrow> schedulerStrategy \<Rightarrow> (scheduledAuthMeta \<Rightarrow> bool) \<Rightarrow>
    int \<Rightarrow> string \<Rightarrow> scheduledAuthMeta set" where
  "at_best k pools now strategy P best pk =
     {x \<in> pool_choices k (pools pk) now False strategy P. m_priority x = best}"

lemma pick_prepared:
  assumes "sched_ok now s" "prepared now k pools {pk} s" "weights_positive strategy (on_meta P)"
    and "onShard pk k (pickReadyAtPriorityLocked False best strategy (on_meta P) now) s = (a, s')"
  shows "sched_ok now s'" "metaIn s' = metaIn s" "s_authGenerations s' = s_authGenerations s"
    "\<And>q. q \<noteq> pk \<Longrightarrow> shardAt s' q k = shardAt s q k"
    "case a of None \<Rightarrow> at_best k pools now strategy P best pk = {}
     | Some y \<Rightarrow> \<exists>x \<in> at_best k pools now strategy P best pk. y = m_auth x"
proof -
  note on = onShard_ok [OF assms(1) order_refl pickAt_keeps [OF assms(3)] assms(4)]
  show "sched_ok now s'" "metaIn s' = metaIn s" "s_authGenerations s' = s_authGenerations s"
    "\<And>q. q \<noteq> pk \<Longrightarrow> shardAt s' q k = shardAt s q k" using on by blast+
  show "case a of None \<Rightarrow> at_best k pools now strategy P best pk = {}
     | Some y \<Rightarrow> \<exists>x \<in> at_best k pools now strategy P best pk. y = m_auth x"
  proof (cases "shardAt s pk k")
    case None
    then have "a = None" "pools pk = Map.empty" using assms(2,4) by (auto simp: onShard_def prepared_def)
    then show ?thesis by (simp add: at_best_def pool_choices_def)
  next
    case (Some m)
    then have m: "fresh now m" "shard_ok now m" "sh_modelKey m = k" "metaAt m = pools pk"
      using assms(2) by (auto simp: prepared_def)
    from on(8) [OF Some] obtain m' pin pin' where
      p: "pickReadyAtPriorityLocked False best strategy (on_meta P) now pin m = (a, m', pin')" by blast
    note spec = pickAt_spec [OF m(2) assms(3) p]
    note fc = fresh_choices [OF m(2,1), of best strategy P, unfolded m(3,4)]
    show ?thesis
    proof (cases a)
      case None
      have "x \<notin> at_best k pools now strategy P best pk" for x
        using spec(2) [OF None] fc [of x] unfolding m(3) at_best_def by blast
      with None show ?thesis by auto
    next
      case (Some y)
      from spec(3) [OF Some] obtain e where e: "readyEntry m best e" "selectable k now strategy (on_meta P) e" "y = se_auth e"
        unfolding m(3) by blast
      then have "se_meta e \<in> at_best k pools now strategy P best pk" using fc [of "se_meta e"] unfolding at_best_def by blast
      with e(3) Some show ?thesis by auto
    qed
  qed
qed

lemma pickFirstProvider_spec:
  assumes "sched_ok now s" "prepared now k pools (set pks) s" "distinct pks" "weights_positive strategy (on_meta P)"
    and "pickFirstProvider k best strategy (on_meta P) now pks s = (r, s')"
  shows "sched_ok now s' \<and> metaIn s' = metaIn s \<and> s_authGenerations s' = s_authGenerations s \<and>
    (case r of None \<Rightarrow> \<forall>pk \<in> set pks. at_best k pools now strategy P best pk = {}
     | Some (y, pk) \<Rightarrow> pk \<in> set pks \<and> (\<exists>x \<in> at_best k pools now strategy P best pk. y = m_auth x))"
  using assms(1-3,5)
proof (induction pks arbitrary: s)
  case Nil
  then show ?case by simp
next
  case (Cons pk pks)
  obtain a s1 where a: "onShard pk k (pickReadyAtPriorityLocked False best strategy (on_meta P) now) s = (a, s1)"
    by (rule prod.exhaust)
  have pre: "prepared now k pools {pk} s" "prepared now k pools (set pks) s" using Cons.prems(2) by (auto simp: prepared_def)
  note one = pick_prepared [OF Cons.prems(1) pre(1) assms(4) a]
  show ?case
  proof (cases a)
    case None
    have "prepared now k pools (set pks) s1"
      by (rule prepared_frame [OF pre(2) _ one(4)]) (use Cons.prems(3) in auto)
    from Cons.IH [OF one(1) this] Cons.prems(3,4) a None one(2,3,5) show ?thesis
      by (auto split: option.splits)
  next
    case (Some y)
    with Cons.prems(4) a one show ?thesis by auto
  qed
qed

lemma choices_strategy:
  "(strategy = schedulerStrategyQuotaDrain \<longleftrightarrow> strategy' = schedulerStrategyQuotaDrain) \<Longrightarrow>
     pool_choices k pool now w strategy P = pool_choices k pool now w strategy' P"
  by (simp add: pool_choices_def)

text \<open>The number of slots of a provider counts its choices at the best priority.\<close>

lemma slots_positive:
  assumes "shard_ok t m" "fresh now m"
  shows "selectableCountAtPriorityLocked m False p strategy (on_meta P) now \<noteq> 0 \<longleftrightarrow>
    (\<exists>x \<in> choices m now False strategy P. m_priority x = p)"
proof -
  let ?S = "selectable (sh_modelKey m) now strategy (on_meta P)"
  have ok: "keyed m" "indexed m" using assms(1) by (auto simp: shard_ok_def)
  have "selectableCountAtPriorityLocked m False p strategy (on_meta P) now =
      (case map_of (sh_readyByPriority m) p of None \<Rightarrow> 0 | Some b \<Rightarrow> length (filter ?S (flatAll m b)))"
    by (cases "strategy = schedulerStrategyQuotaDrain")
      (auto simp: selectableCountAtPriorityLocked_def readyCountAtPriorityLocked_def selectable_def [abs_def]
        split: option.splits)
  also have "\<dots> \<noteq> 0 \<longleftrightarrow> (\<exists>e. readyEntry m p e \<and> ?S e)"
  proof (cases "map_of (sh_readyByPriority m) p")
    case None
    have "\<not> readyEntry m p e" for e using bucket_exists [OF ok(2), where p = p and e = e] None by auto
    then have "\<not> (\<exists>e. readyEntry m p e \<and> ?S e)" by blast
    with None show ?thesis by simp
  next
    case (Some b)
    have "length (filter ?S (flatAll m b)) \<noteq> 0 \<longleftrightarrow> (\<exists>e \<in> set (flatAll m b). ?S e)" by (auto simp: filter_empty_conv)
    also have "\<dots> \<longleftrightarrow> (\<exists>e. readyEntry m p e \<and> ?S e)" unfolding flat_props(1) [OF ok Some] by blast
    finally show ?thesis using Some by simp
  qed
  also have "\<dots> \<longleftrightarrow> (\<exists>x \<in> choices m now False strategy P. m_priority x = p)"
    using fresh_choices [OF assms, of p strategy P] by metis
  finally show ?thesis .
qed

lemma pickTurn_spec:
  assumes "sched_ok now s" "prepared now k pools (set pks) s" "weights_positive strategy (on_meta P)"
    and "distinct is" "distinct pks" "\<forall>i \<in> set is. i < length pks"
    and "pickTurn pks weights k cursorKey best strategy (on_meta P) now start slot is s = (r, s')"
  shows "sched_ok now s' \<and> metaIn s' = metaIn s \<and> s_authGenerations s' = s_authGenerations s \<and>
    (case r of None \<Rightarrow> \<forall>i \<in> set is. weights ! i \<noteq> 0 \<longrightarrow> at_best k pools now strategy P best (pks ! i) = {}
     | Some (y, pk) \<Rightarrow> pk \<in> set pks \<and> (\<exists>x \<in> at_best k pools now strategy P best pk. y = m_auth x))"
proof -
  have "prepared now k pools ((!) pks ` set is) s" using assms(2,6) by (auto simp: prepared_def)
  with assms(1,4,6,7) show ?thesis
  proof (induction "is" arbitrary: s slot)
    case Nil
    then show ?case by simp
  next
    case (Cons i "is")
    show ?case
    proof (cases "weights ! i = 0")
      case True
      with Cons.prems have "prepared now k pools ((!) pks ` set is) s" by (auto simp: prepared_def)
      with Cons True show ?thesis by (auto split: option.splits)
    next
      case False
      let ?slot = "if i \<noteq> start then sum_list (take i weights) else slot"
      obtain a s1 where a: "onShard (pks ! i) k (pickReadyAtPriorityLocked False best strategy (on_meta P) now) s = (a, s1)"
        by (rule prod.exhaust)
      have pre: "prepared now k pools {pks ! i} s" "prepared now k pools ((!) pks ` set is) s"
        using Cons.prems(5) by (auto simp: prepared_def)
      note one = pick_prepared [OF Cons.prems(1) pre(1) assms(3) a]
      show ?thesis
      proof (cases a)
        case None
        have "pks ! i \<notin> (!) pks ` set is"
          using Cons.prems(2,3) assms(5) by (auto simp: nth_eq_iff_index_eq)
        from prepared_frame [OF pre(2) this one(4)] have pre': "prepared now k pools ((!) pks ` set is) s1" .
        have run: "pickTurn pks weights k cursorKey best strategy (on_meta P) now start ?slot is s1 = (r, s')"
          using Cons.prems(4) False a None by (simp add: Let_def)
        have "distinct is" "\<forall>i \<in> set is. i < length pks" using Cons.prems(2,3) by auto
        from Cons.IH [OF one(1) this run pre'] one(2,3,5) None show ?thesis by (auto split: option.splits)
      next
        case (Some y)
        let ?s2 = "s1\<lparr>s_mixedCursors := AList.update cursorKey (?slot + 1) (s_mixedCursors s1)\<rparr>"
        have r: "r = Some (y, pks ! i)" "s' = ?s2" using Cons.prems(4) False a Some by (auto simp: Let_def)
        have "sched_ok now ?s2" by (rule same_credentials_ok [OF one(1)]) simp_all
        moreover have "metaIn ?s2 = metaIn s1" by (rule metaIn_cong) simp
        ultimately show ?thesis using r one(2,3,5) Some Cons.prems(3) by auto
      qed
    qed
  qed
qed

text \<open>The turn visits every provider once, from the one that owns the slot on.\<close>

lemma turn_order: "map (\<lambda>offset. (start + offset) mod n) [0..<n] = rotate start [0..<n]"
  by (rule nth_equalityI) (simp_all add: nth_rotate)

lemma pickMixedRoundRobin_spec:
  assumes "sched_ok now s" "prepared now k pools (set pks) s" "weights_positive strategy (on_meta P)" "distinct pks"
    and "pickMixedRoundRobin pks k cursorKey best strategy (on_meta P) now s = (r, s')"
  shows "sched_ok now s' \<and> metaIn s' = metaIn s \<and> s_authGenerations s' = s_authGenerations s \<and>
    (case r of None \<Rightarrow> \<forall>pk \<in> set pks. at_best k pools now strategy P best pk = {}
     | Some (y, pk) \<Rightarrow> pk \<in> set pks \<and> (\<exists>x \<in> at_best k pools now strategy P best pk. y = m_auth x))"
proof -
  define weights where "weights = map (\<lambda>pk. case shardAt s pk k of None \<Rightarrow> 0
      | Some m \<Rightarrow> selectableCountAtPriorityLocked m False best strategy (on_meta P) now) pks"
  let ?st = "if strategy = schedulerStrategyQuotaDrain then schedulerStrategyQuotaDrain else schedulerStrategyRoundRobin"
  have len: "length weights = length pks" by (simp add: weights_def)
  have at: "at_best k pools now ?st P best = at_best k pools now strategy P best"
    by (simp add: fun_eq_iff at_best_def pool_choices_def)
  have slots: "weights ! i \<noteq> 0 \<longleftrightarrow> at_best k pools now strategy P best (pks ! i) \<noteq> {}" if "i < length pks" for i
  proof -
    have pre: "prepared now k pools {pks ! i} s" using assms(2) that by (auto simp: prepared_def)
    show ?thesis
    proof (cases "shardAt s (pks ! i) k")
      case None
      with pre that show ?thesis by (simp add: weights_def prepared_def at_best_def pool_choices_def)
    next
      case (Some m)
      with pre have m: "fresh now m" "shard_ok now m" "sh_modelKey m = k" "metaAt m = pools (pks ! i)" by (auto simp: prepared_def)
      have "weights ! i = selectableCountAtPriorityLocked m False best strategy (on_meta P) now"
        using Some that by (simp add: weights_def)
      then show ?thesis
        using slots_positive [OF m(2,1), of best strategy P] m(3,4) by (auto simp: at_best_def)
    qed
  qed
  have run: "(if sum_list weights = 0 then (None, s)
      else case find (\<lambda>i. weights ! i \<noteq> 0 \<and> get_or 0 (s_mixedCursors s) cursorKey mod sum_list weights < sum_list (take (Suc i) weights))
          [0..<length pks] of
        None \<Rightarrow> (None, s)
      | Some start \<Rightarrow> pickTurn pks weights k cursorKey best ?st (on_meta P) now start
          (get_or 0 (s_mixedCursors s) cursorKey mod sum_list weights) (rotate start [0..<length pks]) s) = (r, s')"
    using assms(5) unfolding pickMixedRoundRobin_def Let_def weights_def [symmetric] turn_order .
  show ?thesis
  proof (cases "sum_list weights = 0")
    case True
    then have "weights ! i = 0" if "i < length pks" for i using that len by (simp add: sum_list_eq_0_iff)
    with slots have "\<forall>pk \<in> set pks. at_best k pools now strategy P best pk = {}" by (auto simp: in_set_conv_nth)
    with True run assms(1) show ?thesis by auto
  next
    case False
    define slot where "slot = get_or 0 (s_mixedCursors s) cursorKey mod sum_list weights"
    have lt: "slot < sum_list weights" unfolding slot_def using False by (intro mod_less_divisor) blast
    have "\<exists>i < length pks. weights ! i \<noteq> 0 \<and> slot < sum_list (take (Suc i) weights)"
    proof -
      define i where "i = (LEAST j. slot < sum_list (take j weights))"
      have ex: "slot < sum_list (take (length weights) weights)" using lt by simp
      have li: "slot < sum_list (take i weights)" unfolding i_def by (rule LeastI [where P = "\<lambda>j. slot < sum_list (take j weights)", OF ex])
      have le: "i \<le> length weights" unfolding i_def by (rule Least_le [where P = "\<lambda>j. slot < sum_list (take j weights)", OF ex])
      obtain j where j: "i = Suc j" using li by (cases i) auto
      have "\<not> slot < sum_list (take j weights)" using not_less_Least [of j "\<lambda>j. slot < sum_list (take j weights)"] j
        by (simp add: i_def)
      moreover have "sum_list (take (Suc j) weights) = sum_list (take j weights) + weights ! j"
        using le j by (simp add: take_Suc_conv_app_nth)
      ultimately have "weights ! j \<noteq> 0" using li j by auto
      with li le j len show ?thesis by (intro exI [of _ j]) auto
    qed
    then have "find (\<lambda>i. weights ! i \<noteq> 0 \<and> slot < sum_list (take (Suc i) weights)) [0..<length pks] \<noteq> None"
      by (auto simp: find_None_iff)
    then obtain start where st: "find (\<lambda>i. weights ! i \<noteq> 0 \<and> slot < sum_list (take (Suc i) weights)) [0..<length pks] = Some start"
      by blast
    then have start: "start < length pks" "weights ! start \<noteq> 0" by (auto simp: find_Some_iff)
    have turn: "pickTurn pks weights k cursorKey best ?st (on_meta P) now start slot (rotate start [0..<length pks]) s = (r, s')"
      using run unfolding if_not_P [OF False] slot_def [symmetric] st option.case .
    have wp: "weights_positive ?st (on_meta P)" by simp
    have order: "distinct (rotate start [0..<length pks])" "\<forall>i \<in> set (rotate start [0..<length pks]). i < length pks" by simp_all
    have spec: "sched_ok now s' \<and> metaIn s' = metaIn s \<and> s_authGenerations s' = s_authGenerations s \<and>
      (case r of None \<Rightarrow> \<forall>i \<in> set (rotate start [0..<length pks]). weights ! i \<noteq> 0 \<longrightarrow>
          at_best k pools now strategy P best (pks ! i) = {}
       | Some (y, pk) \<Rightarrow> pk \<in> set pks \<and> (\<exists>x \<in> at_best k pools now strategy P best pk. y = m_auth x))"
      using pickTurn_spec [OF assms(1,2) wp order(1) assms(4) order(2) turn] unfolding at .
    obtain z where "r = Some z" using spec start slots [OF start(1)] by (cases r) auto
    with spec show ?thesis by simp
  qed
qed

text \<open>Weighted picks over the ready entries of all the providers.\<close>

lemma mixedEntries_set:
  assumes "prepared now k pools (set pks) s"
  shows "set (mixedEntries s pks k best) =
    {e. \<exists>pk \<in> set pks. \<exists>m. shardAt s pk k = Some m \<and> readyEntry m best e}"
proof -
  have bucket: "set (case map_of (sh_readyByPriority m) best of None \<Rightarrow> [] | Some b \<Rightarrow> flatAll m b) = {e. readyEntry m best e}"
    if "pk \<in> set pks" "shardAt s pk k = Some m" for pk m
  proof -
    have ok: "keyed m" "indexed m" using assms that by (auto simp: prepared_def shard_ok_def split: option.splits)
    show ?thesis
      using flat_props(1) [OF ok, of best] bucket_exists [OF ok(2), where p = best]
      by (cases "map_of (sh_readyByPriority m) best") auto
  qed
  have "set (mixedEntries s pks k best) = (\<Union>m \<in> set (shardsAt s pks k).
      set (case map_of (sh_readyByPriority m) best of None \<Rightarrow> [] | Some b \<Rightarrow> flatAll m b))"
    by (simp add: mixedEntries_def)
  also have "set (shardsAt s pks k) = {m. \<exists>pk \<in> set pks. shardAt s pk k = Some m}"
    unfolding shardsAt_def List.map_filter_def by force
  also have "(\<Union>m \<in> \<dots>. set (case map_of (sh_readyByPriority m) best of None \<Rightarrow> [] | Some b \<Rightarrow> flatAll m b)) =
      (\<Union>m \<in> {m. \<exists>pk \<in> set pks. shardAt s pk k = Some m}. {e. readyEntry m best e})"
  proof (rule SUP_cong [OF refl])
    fix m assume "m \<in> {m. \<exists>pk \<in> set pks. shardAt s pk k = Some m}"
    then obtain pk where "pk \<in> set pks" "shardAt s pk k = Some m" by blast
    then show "set (case map_of (sh_readyByPriority m) best of None \<Rightarrow> [] | Some b \<Rightarrow> flatAll m b) = {e. readyEntry m best e}"
      by (rule bucket)
  qed
  finally show ?thesis by blast
qed

lemma pickMixedWeighted_spec:
  assumes "sched_ok now s" "prepared now k pools (set pks) s" "\<forall>meta. P meta \<longrightarrow> 0 < m_weight meta"
    and "pickMixedWeighted pks k cursorKey best (on_meta P) s = (r, s')"
  shows "sched_ok now s' \<and> metaIn s' = metaIn s \<and> s_authGenerations s' = s_authGenerations s \<and>
    (case r of None \<Rightarrow> \<forall>pk \<in> set pks. at_best k pools now schedulerStrategyWeightedRoundRobin P best pk = {}
     | Some (y, pk) \<Rightarrow> pk \<in> set pks \<and> (\<exists>x \<in> at_best k pools now schedulerStrategyWeightedRoundRobin P best pk. y = m_auth x))"
proof -
  let ?W = schedulerStrategyWeightedRoundRobin
  define es where "es = mixedEntries s pks k best"
  define st where "st = prepare (scheduledWeightVectorMatching es (on_meta P)) (get_or empty_weighted (s_mixedWeightedStates s) cursorKey)"
  obtain x cur where x: "pickSmoothWeightedScheduled (on_meta P) es (sw_current st) = (x, cur)" by (rule prod.exhaust)
  let ?s = "s\<lparr>s_mixedWeightedStates := AList.update cursorKey (st\<lparr>sw_current := cur\<rparr>) (s_mixedWeightedStates s)\<rparr>"
  have r: "r = map_option (\<lambda>e. (se_auth e, m_providerKey (se_meta e))) x" "s' = ?s"
    using assms(4) x by (auto simp: pickMixedWeighted_def es_def [symmetric] st_def [symmetric] Let_def)
  have "sched_ok now ?s" by (rule same_credentials_ok [OF assms(1)]) simp_all
  moreover have "metaIn ?s = metaIn s" by (rule metaIn_cong) simp
  moreover have cand: "scheduled_weighted.candidates (on_meta P) es = filter (on_meta P) es"
    using assms(3) by (auto simp: scheduled_weighted.candidates_def intro: filter_cong)
  have offer: "(\<exists>e \<in> set es. P (se_meta e) \<and> se_meta e = y \<and> (\<exists>m. shardAt s pk k = Some m \<and> readyEntry m best e)) \<longleftrightarrow>
      y \<in> at_best k pools now ?W P best pk" if pk: "pk \<in> set pks" for pk y
  proof (cases "shardAt s pk k")
    case None
    with assms(2) pk show ?thesis by (auto simp: prepared_def at_best_def pool_choices_def split: option.splits)
  next
    case (Some m)
    with assms(2) pk have m: "fresh now m" "shard_ok now m" "sh_modelKey m = k" "metaAt m = pools pk"
      by (auto simp: prepared_def split: option.splits)
    have "(\<exists>e. readyEntry m best e \<and> P (se_meta e) \<and> se_meta e = y) \<longleftrightarrow> y \<in> at_best k pools now ?W P best pk"
      using fresh_choices [OF m(2,1), of best ?W P y] m(3,4) by (simp add: selectable_def at_best_def)
    moreover have "e \<in> set es" if "readyEntry m best e" for e
      using mixedEntries_set [OF assms(2), of best] pk Some that unfolding es_def by blast
    ultimately show ?thesis using Some by auto
  qed
  have "case r of None \<Rightarrow> \<forall>pk \<in> set pks. at_best k pools now ?W P best pk = {}
     | Some (y, pk) \<Rightarrow> pk \<in> set pks \<and> (\<exists>x \<in> at_best k pools now ?W P best pk. y = m_auth x)"
  proof (cases x)
    case None
    then have "filter (on_meta P) es = []"
      using scheduled_weighted.pick_none_iff [of "on_meta P" es "sw_current st"] x cand by simp
    then have "\<not> P (se_meta e)" if "e \<in> set es" for e using that by (auto simp: filter_empty_conv)
    with offer None r(1) show ?thesis by auto
  next
    case (Some e)
    then have "e \<in> set (filter (on_meta P) es)"
      using scheduled_weighted.pick_in [of "on_meta P" es "sw_current st" e] x cand by simp
    then have e: "e \<in> set es" "P (se_meta e)" by auto
    with mixedEntries_set [OF assms(2), of best] obtain pk m where
      pk: "pk \<in> set pks" "shardAt s pk k = Some m" "readyEntry m best e" unfolding es_def by blast
    have in_best: "se_meta e \<in> at_best k pools now ?W P best pk" using offer [OF pk(1)] e pk(2,3) by blast
    have "metaAt m (m_id (se_meta e)) = Some (se_meta e)" using pk(3) by (simp add: metaAt_def)
    then have "meta_ok pk (se_meta e)" using shardAt_fits [OF assms(1) pk(2)] unfolding shard_fits_def by blast
    then have "m_providerKey (se_meta e) = pk"
      unfolding meta_ok_def schedulable_iff by (metis buildScheduledAuthMetaWithModelSet_def scheduledAuthMeta.select_convs(2))
    with in_best pk(1) Some r(1) show ?thesis by auto
  qed
  ultimately show ?thesis using r(2) by simp
qed

lemma pickMixedBest_spec:
  assumes "sched_ok now s" "prepared now k pools (set pks) s" "weights_positive strategy (on_meta P)" "distinct pks"
    and "k = canonicalModelKey modelKey"
    and "pickMixedBest pks modelKey strategy (on_meta P) now best s = (r, s')"
  shows "sched_ok now s' \<and> metaIn s' = metaIn s \<and> s_authGenerations s' = s_authGenerations s \<and>
    (case r of None \<Rightarrow> \<forall>pk \<in> set pks. at_best k pools now strategy P best pk = {}
     | Some (y, pk) \<Rightarrow> pk \<in> set pks \<and> (\<exists>x \<in> at_best k pools now strategy P best pk. y = m_auth x))"
proof -
  let ?c = "join_comma pks @ '':'' @ modelKey"
  consider "strategy = schedulerStrategyFillFirst" "pickFirstProvider k best strategy (on_meta P) now pks s = (r, s')"
    | "strategy = schedulerStrategyWeightedRoundRobin" "pickMixedWeighted pks k ?c best (on_meta P) s = (r, s')"
    | "pickMixedRoundRobin pks k ?c best strategy (on_meta P) now s = (r, s')"
    using assms(5,6) by (cases strategy) (auto simp: pickMixedBest_def)
  then show ?thesis
  proof cases
    case 1
    show ?thesis by (rule pickFirstProvider_spec [OF assms(1,2,4,3) 1(2)])
  next
    case 2
    have "\<forall>meta. P meta \<longrightarrow> 0 < m_weight meta"
    proof (intro allI impI)
      fix meta assume "P meta"
      with assms(3) 2(1) have "0 < m_weight (se_meta \<lparr>se_meta = meta, se_state = scheduledStateReady, se_nextRetryAt = 0\<rparr>)"
        by (metis scheduledAuth.select_convs(1))
      then show "0 < m_weight meta" by simp
    qed
    from pickMixedWeighted_spec [OF assms(1,2) this 2(2)] show ?thesis unfolding 2(1) .
  next
    case 3
    show ?thesis by (rule pickMixedRoundRobin_spec [OF assms(1-4) 3])
  qed
qed

lemma ensureShards_ok:
  assumes "sched_ok t s" "t \<le> now" "0 \<le> now"
  shows "sched_ok now (ensureShards pks modelKey now s) \<and> metaIn (ensureShards pks modelKey now s) = metaIn s \<and>
    s_authGenerations (ensureShards pks modelKey now s) = s_authGenerations s"
  using assms
proof (induction pks arbitrary: t s)
  case Nil
  then show ?case by (simp add: ensureShards_def sched_ok_mono)
next
  case (Cons pk pks)
  have e: "ensureShards (pk # pks) modelKey now s = ensureShards pks modelKey now (ensureShard pk modelKey now s)"
    by (simp add: ensureShards_def)
  show ?case
    using Cons.IH [OF ensureShard_ok(1) [OF Cons.prems, of pk modelKey] order_refl Cons.prems(3)]
      ensureShard_ok(2,3) [OF Cons.prems, of pk modelKey] unfolding e by simp
qed

lemma mixedError_ok:
  assumes "sched_ok t s" "t \<le> now" "0 \<le> now" "mixedUnavailableForStrategyLocked pks model P strategy now s = (e, s')"
  shows "sched_ok now s' \<and> metaIn s' = metaIn s \<and> s_authGenerations s' = s_authGenerations s"
proof -
  let ?ok = "\<lambda>s'. sched_ok now s' \<and> metaIn s' = metaIn s \<and> s_authGenerations s' = s_authGenerations s"
  note en = ensureShards_ok [OF assms(1-3), of pks "canonicalModelKey model"]
  have plain: "snd (mixedUnavailableErrorLocked pks model P now u) = ensureShards pks (canonicalModelKey model) now u" for u
    by (simp add: mixedUnavailableErrorLocked_def Let_def split: prod.split)
  have quota: "snd (mixedQuotaDrainUnavailableErrorLocked pks model P now s) = ensureShards pks (canonicalModelKey model) now s"
    by (simp add: mixedQuotaDrainUnavailableErrorLocked_def Let_def split: prod.split)
  have "s' = ensureShards pks (canonicalModelKey model) now s \<or>
      s' = ensureShards pks (canonicalModelKey model) now (ensureShards pks (canonicalModelKey model) now s)"
    using assms(4) plain quota unfolding mixedUnavailableForStrategyLocked_def
    by (auto split: if_splits prod.splits option.splits) (metis snd_conv)+
  moreover have "?ok (ensureShards pks (canonicalModelKey model) now (ensureShards pks (canonicalModelKey model) now s))"
    using ensureShards_ok [OF conjunct1 [OF en] order_refl assms(3), of pks "canonicalModelKey model"] en by simp
  ultimately show ?thesis using en by blast
qed

lemma pickMixedProviders_spec:
  assumes "sched_ok t s" "t \<le> now" "0 \<le> now" "distinct pks" "weights_positive strategy (on_meta P)"
    and "pickMixedProviders pks modelKey model strategy (on_meta P) now s = (r, s')"
  defines "k \<equiv> canonicalModelKey modelKey"
  shows "sched_ok now s' \<and> metaIn s' = metaIn s \<and> s_authGenerations s' = s_authGenerations s"
    and "case r of
        Inl e \<Rightarrow> \<forall>pk \<in> set pks. pool_choices k (poolOf s pk k) now False strategy P = {}
      | Inr (y, pk) \<Rightarrow> pk \<in> set pks \<and> (\<exists>x \<in> pool_choices k (poolOf s pk k) now False strategy P. y = m_auth x \<and>
          (\<forall>q \<in> set pks. \<forall>z \<in> pool_choices k (poolOf s q k) now False strategy P. m_priority z \<le> m_priority x))"
proof -
  define C where "C pk = pool_choices k (poolOf s pk k) now False strategy P" for pk
  obtain b s1 where f: "fold (bestPriorityStep modelKey strategy (on_meta P) now) pks (None, s) = (b, s1)" by (rule prod.exhaust)
  note best = best_fold [OF assms(1-4) f, folded k_def]
  have bo: "best_of None (\<Union>pk \<in> set pks. C pk) b" using best by (simp add: C_def)
  obtain picked s2 where p: "(case b of None \<Rightarrow> (None, s1)
      | Some b \<Rightarrow> pickMixedBest pks modelKey strategy (on_meta P) now b s1) = (picked, s2)" by (rule prod.exhaust)
  have run: "(case picked of Some x \<Rightarrow> (Inr x, s2)
      | None \<Rightarrow> (let (e, s) = mixedUnavailableForStrategyLocked pks model (on_meta P) strategy now s2 in (Inl e, s))) = (r, s')"
    using assms(6) unfolding pickMixedProviders_def Let_def f prod.case p by (simp add: Let_def)
  let ?ok = "\<lambda>u. sched_ok now u \<and> metaIn u = metaIn s \<and> s_authGenerations u = s_authGenerations s"
  have mid: "?ok s2 \<and> (case picked of
        None \<Rightarrow> \<forall>pk \<in> set pks. C pk = {}
      | Some (y, pk) \<Rightarrow> pk \<in> set pks \<and> (\<exists>x \<in> C pk. y = m_auth x \<and> (\<forall>q \<in> set pks. \<forall>z \<in> C q. m_priority z \<le> m_priority x)))"
  proof (cases b)
    case None
    with bo p best show ?thesis by (auto simp: best_of_def)
  next
    case (Some bp)
    then have "pickMixedBest pks modelKey strategy (on_meta P) now bp s1 = (picked, s2)" using p by simp
    note sp = pickMixedBest_spec [OF _ _ assms(5,4) _ this, of k "\<lambda>q. poolOf s q k"]
    have spec: "?ok s2 \<and> (case picked of None \<Rightarrow> \<forall>pk \<in> set pks. at_best k (\<lambda>q. poolOf s q k) now strategy P bp pk = {}
       | Some (y, pk) \<Rightarrow> pk \<in> set pks \<and> (\<exists>x \<in> at_best k (\<lambda>q. poolOf s q k) now strategy P bp pk. y = m_auth x))"
      using sp best k_def by simp
    have at: "at_best k (\<lambda>q. poolOf s q k) now strategy P bp pk = {x \<in> C pk. m_priority x = bp}" for pk
      by (simp add: at_best_def C_def)
    from bo Some have top: "\<exists>pk \<in> set pks. \<exists>x \<in> C pk. m_priority x = bp" "\<forall>pk \<in> set pks. \<forall>x \<in> C pk. m_priority x \<le> bp"
      by (auto simp: best_of_def)
    show ?thesis
    proof (cases picked)
      case None
      with spec top(1) show ?thesis unfolding at by auto
    next
      case (Some yp)
      obtain y pk where yp: "yp = (y, pk)" by (rule prod.exhaust)
      with Some spec obtain x where "pk \<in> set pks" "x \<in> C pk" "m_priority x = bp" "y = m_auth x" unfolding at by auto
      with top(2) Some yp spec show ?thesis by auto
    qed
  qed
  have "?ok s' \<and> (case r of Inl e \<Rightarrow> picked = None | Inr x \<Rightarrow> picked = Some x)"
  proof (cases picked)
    case None
    obtain e u where e: "mixedUnavailableForStrategyLocked pks model (on_meta P) strategy now s2 = (e, u)" by (rule prod.exhaust)
    with None run have "r = Inl e" "s' = u" by auto
    with mixedError_ok [OF conjunct1 [OF conjunct1 [OF mid]] order_refl assms(3) e] mid None show ?thesis by simp
  next
    case (Some x)
    with run mid show ?thesis by auto
  qed
  then show "sched_ok now s' \<and> metaIn s' = metaIn s \<and> s_authGenerations s' = s_authGenerations s"
    and "case r of
        Inl e \<Rightarrow> \<forall>pk \<in> set pks. pool_choices k (poolOf s pk k) now False strategy P = {}
      | Inr (y, pk) \<Rightarrow> pk \<in> set pks \<and> (\<exists>x \<in> pool_choices k (poolOf s pk k) now False strategy P. y = m_auth x \<and>
          (\<forall>q \<in> set pks. \<forall>z \<in> pool_choices k (poolOf s q k) now False strategy P. m_priority z \<le> m_priority x))"
    using mid unfolding C_def [symmetric] by (cases r; auto)+
qed

lemma pickMixed_ok:
  assumes "sched_ok t s" "t \<le> now" "0 \<le> now" "pickMixedWithStrategy providers model rq strategy now s = (r, s')"
  shows "sched_ok now s' \<and> metaIn s' = metaIn s \<and> s_authGenerations s' = s_authGenerations s"
proof -
  define st where "st = currentStrategy strategy s"
  define ns where "ns = normalizeProviderKeys providers"
  consider "ns = []" | pk where "ns = [pk]" | "\<nexists>pk. ns = [pk]" "ns \<noteq> []" by blast
  then show ?thesis
  proof cases
    case 1
    then have "s' = s" using assms(4) by (simp add: pickMixedWithStrategy_def ns_def)
    with assms(1,2) show ?thesis by (simp add: sched_ok_mono)
  next
    case (2 pk)
    obtain x u where x: "pickSingleWithStrategy pk model rq strategy now s = (x, u)" by (rule prod.exhaust)
    have "s' = u" using assms(4) 2 x by (auto simp: pickMixedWithStrategy_def ns_def split: sum.splits)
    with pickSingle_spec(1-3) [OF assms(1-3) x] show ?thesis by simp
  next
    case 3
    let ?P = "on_meta (eligible rq st)"
    obtain a b cs where ns: "ns = a # b # cs" using 3 by (cases ns; cases "tl ns") auto
    have run: "(if rq_pinnedAuthID rq \<noteq> ''''
        then pickMixedPinned ns (rq_pinnedAuthID rq) (canonicalModelKey model) model st ?P now s
        else pickMixedProviders ns (canonicalModelKey model) model st ?P now s) = (r, s')"
      using assms(4) ns unfolding pickMixedWithStrategy_def ns_def [symmetric]
      by (simp add: Let_def st_def [symmetric] predicate_eligible split: if_splits)
    show ?thesis
    proof (cases "rq_pinnedAuthID rq = ''''")
      case True
      then have "pickMixedProviders ns (canonicalModelKey model) model st ?P now s = (r, s')" using run by simp
      from pickMixedProviders_spec(1) [OF assms(1-3) _ eligible_weights this] show ?thesis
        by (simp add: ns_def normalizeProviderKeys_props(1))
    next
      case False
      let ?pk = "get_or '''' (s_authProviders s) (rq_pinnedAuthID rq)"
      have p: "pickMixedPinned ns (rq_pinnedAuthID rq) (canonicalModelKey model) model st ?P now s = (r, s')"
        using run False by simp
      show ?thesis
      proof (cases "?pk = '''' \<or> \<not> containsProvider ns ?pk \<or> map_of (s_providers s) ?pk = None")
        case True
        then have "s' = s" using p by (auto simp: pickMixedPinned_def Let_def split: if_splits)
        with assms(1,2) show ?thesis by (simp add: sched_ok_mono)
      next
        case ok: False
        obtain x u where x: "pickShardOrError ?pk (canonicalModelKey model) False st ?P ''mixed'' model now s = (x, u)"
          by (rule prod.exhaust)
        have "s' = u" using p ok x by (auto simp: pickMixedPinned_def Let_def split: sum.splits)
        with pickShardOrError_spec(1-3) [OF assms(1-3) eligible_weights _ x] ok show ?thesis by simp
      qed
    qed
  qed
qed

end
