(* ===== verification/Scheduler_Runs.thy ===== *)
theory Scheduler_Runs
  imports Scheduler_Picks
begin

text \<open>
  The scheduler over its life: every state it can reach is in order, what it picks from such a state
  is a right credential, a removed registration does not come back, and a rebuild leaves nothing to
  synchronize.
\<close>

section \<open>Steps\<close>

datatype schedOp =
    UpsertAuth modelDirectory Auth
  | UpsertResult modelDirectory Auth "string list" bool
  | Tombstone string nat
  | RemoveAuth string
  | ResetGeneration string
  | Rebuild modelDirectory "Auth list"
  | SetSelector Selector
  | PickSingle string string pickRequest schedulerStrategy
  | PickMixed "string list" string pickRequest schedulerStrategy

fun schedStep :: "time \<Rightarrow> schedOp \<Rightarrow> authScheduler \<Rightarrow> authScheduler" where
  "schedStep now (UpsertAuth dir a) s = upsertAuthLifecycleLocked dir a now s"
| "schedStep now (UpsertResult dir a targets scoped) s = upsertAuthResultLocked dir a targets scoped now s"
| "schedStep now (Tombstone i epoch) s = RecordRemovalTombstone i epoch now s"
| "schedStep now (RemoveAuth i) s = removeAuth i now s"
| "schedStep now (ResetGeneration i) s = ResetAuthGeneration i s"
| "schedStep now (Rebuild dir auths) s = rebuild dir auths now s"
| "schedStep now (SetSelector selector) s = setSelector selector s"
| "schedStep now (PickSingle provider model rq strategy) s = snd (pickSingleWithStrategy provider model rq strategy now s)"
| "schedStep now (PickMixed providers model rq strategy) s = snd (pickMixedWithStrategy providers model rq strategy now s)"

text \<open>Credentials are given with identifiers that carry no surrounding space.\<close>

fun input_ok :: "schedOp \<Rightarrow> bool" where
  "input_ok (UpsertAuth dir a) \<longleftrightarrow> trimmed a"
| "input_ok (UpsertResult dir a targets scoped) \<longleftrightarrow> trimmed a"
| "input_ok (Rebuild dir auths) \<longleftrightarrow> (\<forall>a \<in> set auths. trimmed a) \<and> distinct (map auth_ID auths)"
| "input_ok _ \<longleftrightarrow> True"

inductive sched_step :: "(schedOp \<Rightarrow> bool) \<Rightarrow> time \<times> authScheduler \<Rightarrow> time \<times> authScheduler \<Rightarrow> bool"
  for allowed where
  step: "t \<le> now \<Longrightarrow> input_ok op \<Longrightarrow> allowed op \<Longrightarrow> sched_step allowed (t, s) (now, schedStep now op s)"

inductive_cases sched_stepE: "sched_step allowed (t, s) (t', s')"

lemma step_ok:
  assumes "sched_ok t s" "t \<le> now" "0 \<le> now" "input_ok op"
  shows "sched_ok now (schedStep now op s)"
proof (cases op)
  case (PickSingle provider model rq strategy)
  with pickSingle_spec(1) [OF assms(1-3), of provider model rq strategy] show ?thesis
    by (metis prod.collapse schedStep.simps(8))
next
  case (PickMixed providers model rq strategy)
  with pickMixed_ok [OF assms(1-3), of providers model rq strategy] show ?thesis
    by (metis prod.collapse schedStep.simps(9))
qed (use assms in \<open>auto intro: lifecycle_ok result_ok tombstone_ok reset_ok rebuild_ok setSelector_ok\<close>)

definition sched_inv :: "time \<times> authScheduler \<Rightarrow> bool" where
  "sched_inv ts \<longleftrightarrow> 0 \<le> fst ts \<and> sched_ok (fst ts) (snd ts)"

interpretation scheduler: transition_system "(0, newAuthScheduler selector)" "sched_step allowed" sched_inv
  for selector allowed
proof unfold_locales
  show "sched_inv (0, newAuthScheduler selector)" by (simp add: sched_inv_def newAuthScheduler_ok)
  fix x y assume inv: "sched_inv x" and "sched_step allowed x y"
  then obtain t s now op where "x = (t, s)" "y = (now, schedStep now op s)" "t \<le> now" "input_ok op"
    by (cases x; cases y) (auto elim: sched_stepE)
  with inv step_ok [of t s now op] show "sched_inv y" by (simp add: sched_inv_def)
qed

abbreviation reaches :: "Selector \<Rightarrow> time \<Rightarrow> authScheduler \<Rightarrow> bool" where
  "reaches selector t s \<equiv> (sched_step (\<lambda>_. True))\<^sup>*\<^sup>* (0, newAuthScheduler selector) (t, s)"

lemma reaches_ok: "reaches selector t s \<Longrightarrow> sched_ok t s \<and> 0 \<le> t"
  using scheduler.inv_reachable [of "\<lambda>_. True" selector "(t, s)"] by (simp add: sched_inv_def)

text \<open>
  (C23) Every state the scheduler can reach, by any sequence of registrations, results, removals,
  rebuilds and picks on a clock that does not go back, is in order: a credential is scheduled by one
  provider at most, the one noted as its owner; each shard of a provider holds exactly the credentials
  of the provider that support its model, with indexes that agree with the entries; and what is
  scheduled belongs to the registration epoch last recorded for it.
\<close>

theorem scheduler_reachable_ok: "reaches selector t s \<Longrightarrow> sched_ok t s"
  by (simp add: reaches_ok)

definition sample_dir :: modelDirectory where
  "sample_dir = \<lparr>dir_GetModelsForClient = (\<lambda>_. [''m'', ''n'']), dir_ClientRegistrationEpoch = (\<lambda>_. 1)\<rparr>"

definition sample_scheduler :: authScheduler where
  "sample_scheduler = schedStep 2 (UpsertAuth sample_dir (prioritized ''b'' ''5''))
     (schedStep 1 (UpsertAuth sample_dir (sample_auth ''a'')) (newAuthScheduler NilSelector))"

lemma sample_reaches: "reaches NilSelector 2 sample_scheduler"
proof -
  have t: "trimmed (sample_auth ''a'')" "trimmed (prioritized ''b'' ''5'')" by code_simp+
  have "sched_step (\<lambda>_. True) (0, newAuthScheduler NilSelector)
      (1, schedStep 1 (UpsertAuth sample_dir (sample_auth ''a'')) (newAuthScheduler NilSelector))"
    by (rule sched_step.step) (use t in simp_all)
  moreover have "sched_step (\<lambda>_. True)
      (1, schedStep 1 (UpsertAuth sample_dir (sample_auth ''a'')) (newAuthScheduler NilSelector)) (2, sample_scheduler)"
    unfolding sample_scheduler_def by (rule sched_step.step) (use t in simp_all)
  ultimately show ?thesis by (meson r_into_rtranclp rtranclp.rtrancl_into_rtrancl)
qed

theorem scheduler_reachable_ok_witness: "sched_ok 2 sample_scheduler \<and> length (s_authProviders sample_scheduler) = 2"
proof
  show "sched_ok 2 sample_scheduler" by (rule scheduler_reachable_ok [OF sample_reaches])
  show "length (s_authProviders sample_scheduler) = 2" by code_simp
qed

section \<open>What is picked\<close>

lemma is_space_lower [simp]: "is_space (lower_char c) = is_space c"
proof -
  have "x = CHR '' '' \<longleftrightarrow> of_char x = (32 :: nat)" for x
  proof -
    have "of_char (CHR '' '') = (32 :: nat)" by simp
    then show ?thesis by (metis of_char_eq_iff)
  qed
  then show ?thesis by (auto simp: is_space_def lower_char_def)
qed

lemma trim_lower: "trim_space (to_lower s) = to_lower (trim_space s)"
proof -
  have "dropWhile is_space (map lower_char xs) = map lower_char (dropWhile is_space xs)" for xs
    by (induction xs) auto
  then show ?thesis by (simp add: trim_space_def to_lower_def rev_map)
qed

lemma canonicalSchedulingProvider_idem:
  "canonicalSchedulingProvider (canonicalSchedulingProvider p) = canonicalSchedulingProvider p"
proof -
  have "trim_space ''kimi'' = ''kimi''" "to_lower ''kimi'' = ''kimi''"
    "trim_space ''kimi-ai'' = ''kimi-ai''" "to_lower ''kimi-ai'' = ''kimi-ai''" by code_simp+
  then show ?thesis by (auto simp: canonicalSchedulingProvider_def Let_def trim_lower)
qed

text \<open>What makes a credential a right answer.\<close>

definition serves :: "authScheduler \<Rightarrow> pickRequest \<Rightarrow> schedulerStrategy \<Rightarrow> string \<Rightarrow> string \<Rightarrow> time \<Rightarrow> Auth \<Rightarrow> bool" where
  "serves s rq strategy pk k now a \<longleftrightarrow>
     isSchedulableAuth a = Some (auth_ID a, pk) \<and> map_of (s_authProviders s) (auth_ID a) = Some pk \<and>
     (\<exists>meta. metaIn s pk (auth_ID a) = Some meta \<and> supportsModel meta k) \<and> usable k now a \<and>
     rq_allows rq a \<and> auth_ID a \<notin> set (rq_tried rq) \<and>
     (rq_pinnedAuthID rq \<noteq> '''' \<longrightarrow> auth_ID a = rq_pinnedAuthID rq) \<and>
     (strategy = schedulerStrategyWeightedRoundRobin \<longrightarrow> 0 < authWeight a) \<and>
     (strategy = schedulerStrategyQuotaDrain \<longrightarrow> \<not> quotaCapacityExhausted a k now)"

lemma poolOf_entries:
  assumes "sched_ok t s" "poolOf s pk k i = Some meta"
  shows "meta_ok pk meta" "\<exists>cur. metaIn s pk i = Some cur \<and> supportsModel cur k"
proof -
  have core: "sched_core t s" using assms(1) by (simp add: sched_ok_def)
  have "meta_ok pk meta \<and> (\<exists>cur. metaIn s pk i = Some cur \<and> supportsModel cur k)"
  proof (cases "shardAt s pk k")
    case None
    then show ?thesis
      using assms(2) metaIn_ok(2) [OF core] by (auto simp: poolOf_def split: option.splits if_splits)
  next
    case (Some m)
    then have m: "metaAt m i = Some meta" using assms(2) by (simp add: poolOf_def)
    note fits = shardAt_fits [OF assms(1) Some]
    have "metaAt m i \<noteq> None" using m by simp
    then show ?thesis using fits m unfolding shard_fits_def by blast
  qed
  then show "meta_ok pk meta" "\<exists>cur. metaIn s pk i = Some cur \<and> supportsModel cur k" by blast+
qed

lemma offers_serve:
  assumes "sched_ok t s" "meta \<in> offers s pk k w strategy rq now"
  shows "serves s rq strategy pk k now (m_auth meta)"
proof -
  have m: "poolOf s pk k (m_id meta) = Some meta" "usable k now (m_auth meta)" "eligible rq strategy meta"
    "strategy = schedulerStrategyQuotaDrain \<longrightarrow> \<not> quotaCapacityExhausted (m_auth meta) k now"
    using assms(2) by (auto simp: offers_def pool_choices_def Let_def split: if_splits)
  note pe = poolOf_entries [OF assms(1) m(1)]
  have own: "map_of (s_authProviders s) (m_id meta) = Some pk"
    using pe(2) assms(1) by (auto simp: sched_ok_def owner(1))
  have "m_weight meta = authWeight (m_auth meta)"
    using pe(1) unfolding meta_ok_def by (metis buildScheduledAuthMetaWithModelSet_def scheduledAuthMeta.select_convs(4))
  with pe own m show ?thesis by (auto simp: serves_def meta_ok_def eligible_def)
qed

text \<open>
  (C24) What a pick for one provider returns. From every reachable state: if the provider has credentials
  to offer for the request (in its shard of the model, usable now, eligible, with quota left under
  quota drain; those with a websocket transport only, when the transport prefers them and there are
  any), the pick returns one of them, of the highest priority among them; if it has none the pick is
  refused.
\<close>

theorem pickSingle_highest:
  assumes "reaches selector t s" "t \<le> now"
    and "pk = canonicalSchedulingProvider provider" "k = canonicalModelKey (canonicalModelKey model)"
    and "C = offers s pk k (prefersWebsocket pk rq) (currentStrategy strategy s) rq now"
  shows "case fst (pickSingleWithStrategy provider model rq strategy now s) of
      Inl e \<Rightarrow> C = {}
    | Inr a \<Rightarrow> \<exists>meta \<in> C. a = m_auth meta \<and> (\<forall>y \<in> C. m_priority y \<le> m_priority meta)"
proof -
  have ok: "sched_ok t s" "0 \<le> now" using reaches_ok [OF assms(1)] assms(2) by auto
  obtain r s' where r: "pickSingleWithStrategy provider model rq strategy now s = (r, s')" by (rule prod.exhaust)
  from pickSingle_spec(4) [OF ok(1) assms(2) ok(2) r] show ?thesis
    unfolding assms(3-5) r by (auto simp: highest_of_def split: sum.splits)
qed

definition sample_request :: pickRequest where
  "sample_request = \<lparr>rq_allows = (\<lambda>_. True), rq_pinnedAuthID = '''', rq_tried = [], rq_downstreamWebsocket = False\<rparr>"

theorem pickSingle_highest_witness:
  "fst (pickSingleWithStrategy ''gemini'' ''m'' sample_request schedulerStrategyCurrent 3 sample_scheduler) =
     Inr (prioritized ''b'' ''5'') \<and>
   (\<exists>meta \<in> offers sample_scheduler ''gemini'' ''m'' False schedulerStrategyRoundRobin sample_request 3.
      prioritized ''b'' ''5'' = m_auth meta)"
proof -
  have r: "fst (pickSingleWithStrategy ''gemini'' ''m'' sample_request schedulerStrategyCurrent 3 sample_scheduler) =
     Inr (prioritized ''b'' ''5'')" by code_simp
  have k: "''gemini'' = canonicalSchedulingProvider ''gemini''" "''m'' = canonicalModelKey (canonicalModelKey ''m'')"
    "currentStrategy schedulerStrategyCurrent sample_scheduler = schedulerStrategyRoundRobin"
    "(rq_downstreamWebsocket sample_request \<and> providerPrefersWebsocketTransport ''gemini'' \<and>
      rq_pinnedAuthID sample_request = '''') = False" by code_simp+
  from pickSingle_highest [OF sample_reaches _ k(1,2) refl, of 3 sample_request schedulerStrategyCurrent] r
  show ?thesis unfolding k(3,4) by auto
qed

text \<open>Every answer to a request for several providers is right, whichever way it was found.\<close>

lemma pickMixed_offers:
  assumes "sched_ok t s" "t \<le> now" "0 \<le> now"
    and "pickMixedWithStrategy providers model rq strategy now s = (Inr (a, pk), s')"
  defines "k \<equiv> canonicalModelKey (canonicalModelKey model)"
  shows "pk \<in> set (normalizeProviderKeys providers) \<and>
    (\<exists>w. \<exists>meta \<in> offers s pk k w (currentStrategy strategy s) rq now. a = m_auth meta)"
proof -
  define st where "st = currentStrategy strategy s"
  define ns where "ns = normalizeProviderKeys providers"
  let ?P = "on_meta (eligible rq st)"
  have ns_ne: "ns \<noteq> []" using assms(4) by (auto simp: pickMixedWithStrategy_def ns_def)
  have "pk \<in> set ns \<and> (\<exists>w. \<exists>meta \<in> offers s pk k w st rq now. a = m_auth meta)"
  proof (cases "tl ns")
    case Nil
    then obtain q where q: "ns = [q]" using ns_ne by (cases ns) auto
    obtain x u where x: "pickSingleWithStrategy q model rq strategy now s = (x, u)" by (rule prod.exhaust)
    have xa: "x = Inr a" "pk = q" using assms(4) q x by (auto simp: pickMixedWithStrategy_def ns_def split: sum.splits)
    have "q \<in> set (normalizeProviderKeys providers)" using q by (simp add: ns_def)
    then have "canonicalSchedulingProvider q = q"
      unfolding normalizeProviderKeys_props(2) using canonicalSchedulingProvider_idem by blast
    with pickSingle_spec(4) [OF assms(1-3) x] xa q show ?thesis
      by (auto simp: st_def k_def highest_of_def)
  next
    case (Cons b cs)
    then obtain c where ns: "ns = c # b # cs" using ns_ne by (cases ns) auto
    have run: "(if rq_pinnedAuthID rq \<noteq> ''''
        then pickMixedPinned ns (rq_pinnedAuthID rq) (canonicalModelKey model) model st ?P now s
        else pickMixedProviders ns (canonicalModelKey model) model st ?P now s) = (Inr (a, pk), s')"
      using assms(4) ns unfolding pickMixedWithStrategy_def ns_def [symmetric]
      by (simp add: Let_def st_def [symmetric] predicate_eligible split: if_splits)
    show ?thesis
    proof (cases "rq_pinnedAuthID rq = ''''")
      case True
      then have "pickMixedProviders ns (canonicalModelKey model) model st ?P now s = (Inr (a, pk), s')" using run by simp
      from pickMixedProviders_spec(2) [OF assms(1-3) _ eligible_weights this]
      show ?thesis by (auto simp: ns_def normalizeProviderKeys_props(1) offers_def k_def)
    next
      case False
      let ?pk = "get_or '''' (s_authProviders s) (rq_pinnedAuthID rq)"
      have p: "pickMixedPinned ns (rq_pinnedAuthID rq) (canonicalModelKey model) model st ?P now s = (Inr (a, pk), s')"
        using run False by simp
      obtain x u where x: "pickShardOrError ?pk (canonicalModelKey model) False st ?P ''mixed'' model now s = (x, u)"
        by (rule prod.exhaust)
      have ok: "containsProvider ns ?pk" "map_of (s_providers s) ?pk \<noteq> None" "x = Inr a" "pk = ?pk"
        using p x by (auto simp: pickMixedPinned_def Let_def split: if_splits sum.splits)
      from pickShardOrError_spec(4) [OF assms(1-3) eligible_weights ok(2) x] ok(3)
      have "highest_of (offers s ?pk k False st rq now) (Some a)" by (simp add: offers_def k_def)
      with ok(1,4) show ?thesis by (auto simp: containsProvider_def list_ex_iff highest_of_def)
    qed
  qed
  then show ?thesis by (simp add: ns_def st_def)
qed

lemma pickMixed_serves:
  assumes "sched_ok t s" "t \<le> now" "0 \<le> now"
    and "pickMixedWithStrategy providers model rq strategy now s = (Inr (a, pk), s')"
  defines "k \<equiv> canonicalModelKey (canonicalModelKey model)"
  shows "pk \<in> set (normalizeProviderKeys providers) \<and> serves s rq (currentStrategy strategy s) pk k now a"
  using pickMixed_offers [OF assms(1-4)] offers_serve [OF assms(1)] by (auto simp: k_def)

text \<open>
  (C25) What a pick for several providers returns. From every reachable state, without a pinned
  credential and with more than one provider asked for: the pick returns a credential together with
  one of the providers asked for that offers it, and no provider asked for offers one of higher
  priority; it is refused only when none of them has anything to offer. This holds under every
  strategy: round-robin over the providers' slots, fill-first, weights and quota drain.
\<close>

theorem pickMixed_highest:
  assumes "reaches selector t s" "t \<le> now"
    and "ns = normalizeProviderKeys providers" "2 \<le> length ns" "rq_pinnedAuthID rq = ''''"
    and "k = canonicalModelKey (canonicalModelKey model)"
    and "C = (\<lambda>pk. offers s pk k False (currentStrategy strategy s) rq now)"
  shows "case fst (pickMixedWithStrategy providers model rq strategy now s) of
      Inl e \<Rightarrow> \<forall>pk \<in> set ns. C pk = {}
    | Inr (a, pk) \<Rightarrow> pk \<in> set ns \<and> (\<exists>meta \<in> C pk. a = m_auth meta \<and>
        (\<forall>q \<in> set ns. \<forall>y \<in> C q. m_priority y \<le> m_priority meta))"
proof -
  have ok: "sched_ok t s" "0 \<le> now" using reaches_ok [OF assms(1)] assms(2) by auto
  let ?st = "currentStrategy strategy s"
  let ?P = "on_meta (eligible rq ?st)"
  obtain a b cs where ns: "ns = a # b # cs" using assms(4) by (cases ns; cases "tl ns") auto
  obtain r s' where r: "pickMixedWithStrategy providers model rq strategy now s = (r, s')" by (rule prod.exhaust)
  have "pickMixedProviders ns (canonicalModelKey model) model ?st ?P now s = (r, s')"
    using r ns assms(5) unfolding pickMixedWithStrategy_def assms(3) [symmetric] Let_def predicate_eligible by simp
  from pickMixedProviders_spec(2) [OF ok(1) assms(2) ok(2) _ eligible_weights this]
  show ?thesis unfolding r assms(6,7) offers_def by (simp add: assms(3) normalizeProviderKeys_props(1))
qed

text \<open>
  (C26) Every credential the scheduler hands out is right for the request. Whatever was asked (one
  provider or several, pinned or not, any strategy), from every reachable state: the provider returned
  is one that was asked for and is the owner of the credential; the credential is enabled, supports
  the model, is not cooling down, expired or out of quota for it now, passes the request's
  eligibility test, was not tried before, is the pinned one if one is pinned, and has a positive
  weight under weighted routing.
\<close>

theorem picked_credential_serves:
  assumes "reaches selector t s" "t \<le> now"
    and "fst (pickMixedWithStrategy providers model rq strategy now s) = Inr (a, pk)"
  shows "pk \<in> set (normalizeProviderKeys providers) \<and>
    serves s rq (currentStrategy strategy s) pk (canonicalModelKey (canonicalModelKey model)) now a"
proof -
  have ok: "sched_ok t s" "0 \<le> now" using reaches_ok [OF assms(1)] assms(2) by auto
  have "pickMixedWithStrategy providers model rq strategy now s =
      (Inr (a, pk), snd (pickMixedWithStrategy providers model rq strategy now s))"
    using assms(3) by (simp add: prod_eq_iff)
  from pickMixed_serves [OF ok(1) assms(2) ok(2) this] show ?thesis .
qed

definition sample_codex :: Auth where
  "sample_codex = (prioritized ''c'' ''7'')\<lparr>auth_Provider := ''Codex''\<rparr>"

definition sample_mixed :: authScheduler where
  "sample_mixed = schedStep 3 (UpsertAuth sample_dir sample_codex) sample_scheduler"

lemma sample_mixed_reaches: "reaches NilSelector 3 sample_mixed"
proof -
  have "trimmed sample_codex" by code_simp
  then have "sched_step (\<lambda>_. True) (2, sample_scheduler) (3, sample_mixed)"
    unfolding sample_mixed_def by (intro sched_step.step) simp_all
  with sample_reaches show ?thesis by (rule rtranclp.rtrancl_into_rtrancl)
qed

lemma sample_mixed_pick:
  "fst (pickMixedWithStrategy ['' Gemini'', ''codex'', ''gemini''] ''m'' sample_request schedulerStrategyCurrent 4 sample_mixed) =
     Inr (sample_codex, ''codex'')"
  "normalizeProviderKeys ['' Gemini'', ''codex'', ''gemini''] = [''gemini'', ''codex'']"
  by code_simp+

theorem pickMixed_highest_witness:
  "\<exists>meta \<in> offers sample_mixed ''codex'' ''m'' False schedulerStrategyRoundRobin sample_request 4.
     sample_codex = m_auth meta \<and>
     (\<forall>y \<in> offers sample_mixed ''gemini'' ''m'' False schedulerStrategyRoundRobin sample_request 4.
        m_priority y \<le> m_priority meta)"
proof -
  have k: "''m'' = canonicalModelKey (canonicalModelKey ''m'')"
    "currentStrategy schedulerStrategyCurrent sample_mixed = schedulerStrategyRoundRobin"
    "rq_pinnedAuthID sample_request = ''''" "(2 :: nat) \<le> length [''gemini'', ''codex'']" by code_simp+
  from pickMixed_highest [OF sample_mixed_reaches _ sample_mixed_pick(2) [symmetric] k(4,3,1) refl, of 4 schedulerStrategyCurrent]
  show ?thesis unfolding sample_mixed_pick(1) k(2) by auto
qed

theorem picked_credential_serves_witness:
  "serves sample_mixed sample_request schedulerStrategyRoundRobin ''codex'' ''m'' 4 sample_codex"
proof -
  have k: "canonicalModelKey (canonicalModelKey ''m'') = ''m''"
    "currentStrategy schedulerStrategyCurrent sample_mixed = schedulerStrategyRoundRobin" by code_simp+
  from picked_credential_serves [OF sample_mixed_reaches _ sample_mixed_pick(1)] show ?thesis unfolding k by simp
qed

section \<open>Removal is final\<close>

text \<open>
  A registration that was removed: its identifier is not scheduled, and the record holds an epoch that
  is not below the tombstone's.
\<close>

definition removed :: "string \<Rightarrow> nat \<Rightarrow> authScheduler \<Rightarrow> bool" where
  "removed i epoch s \<longleftrightarrow> (\<forall>pk. metaIn s pk i = None) \<and> (\<exists>g. genAt s i = Some g \<and> epoch \<le> g_epoch g)"

text \<open>
  Operations that bring nothing of the identifier but snapshots of earlier registrations, and leave its
  record in place.
\<close>

fun earlier_only :: "string \<Rightarrow> nat \<Rightarrow> schedOp \<Rightarrow> bool" where
  "earlier_only i epoch (UpsertAuth dir a) \<longleftrightarrow> auth_ID a = i \<longrightarrow> auth_RegistrationEpoch a < epoch"
| "earlier_only i epoch (UpsertResult dir a targets scoped) \<longleftrightarrow> auth_ID a = i \<longrightarrow> auth_RegistrationEpoch a < epoch"
| "earlier_only i epoch (Rebuild dir auths) \<longleftrightarrow> (\<forall>a \<in> set auths. auth_ID a = i \<longrightarrow> auth_RegistrationEpoch a < epoch)"
| "earlier_only i epoch (RemoveAuth j) \<longleftrightarrow> trim_space j \<noteq> i"
| "earlier_only i epoch (ResetGeneration j) \<longleftrightarrow> trim_space j \<noteq> i"
| "earlier_only i epoch _ \<longleftrightarrow> True"

lemma removed_stale:
  "removed i epoch s \<Longrightarrow> e < epoch \<Longrightarrow> isStaleScheduledAuth i e g u s"
  by (auto simp: removed_def isStaleScheduledAuth_def)

lemma removed_frame:
  assumes "removed i epoch s" "\<And>pk. metaIn s' pk i = metaIn s pk i" "genAt s' i = genAt s i"
  shows "removed i epoch s'"
  using assms by (simp add: removed_def)

lemma removed_lifecycle:
  assumes "sched_ok t s" "t \<le> now" "0 \<le> now" "trimmed a" "removed i epoch s"
    and "auth_ID a = i \<longrightarrow> auth_RegistrationEpoch a < epoch"
  shows "removed i epoch (upsertAuthLifecycleLocked dir a now s)"
  using assms(4)
proof (cases rule: lifecycle_cases [of a dir now s])
  case ignored
  with assms(5) show ?thesis by simp
next
  case discarded
  then have ne: "auth_ID a \<noteq> i" using removed_stale [OF assms(5)] assms(6) by blast
  show ?thesis unfolding discarded(3)
    by (rule removed_frame [OF assms(5)]) (use ne discard_ok(2,3) [OF assms(1,2)] in simp_all)
next
  case (entered pk meta)
  then have ne: "auth_ID a \<noteq> i" using removed_stale [OF assms(5)] assms(6) by blast
  have m: "m_id meta = auth_ID a" using entered(5) by simp
  show ?thesis unfolding entered(6)
    by (rule removed_frame [OF assms(5)])
      (use ne entered m admit_ok(2,3) [OF assms(1-3) entered(4) m, of True "[]"] in simp_all)
qed

lemma removed_result:
  assumes "sched_ok t s" "t \<le> now" "0 \<le> now" "trimmed a" "removed i epoch s"
    and "auth_ID a = i \<longrightarrow> auth_RegistrationEpoch a < epoch"
  shows "removed i epoch (upsertAuthResultLocked dir a targets scoped now s)"
  using assms(4)
proof (cases rule: result_cases [of a dir targets scoped now s])
  case ignored
  with assms(5) show ?thesis by simp
next
  case (stale pk)
  show ?thesis unfolding stale(3) by (rule removed_frame [OF assms(5)]) (use rescan_ok(2,3) [OF assms(1-3)] in simp_all)
next
  case discarded
  then have ne: "auth_ID a \<noteq> i" using removed_stale [OF assms(5)] assms(6) by blast
  show ?thesis unfolding discarded(3)
    by (rule removed_frame [OF assms(5)]) (use ne discard_ok(2,3) [OF assms(1,2)] in simp_all)
next
  case (entered pk meta targets' scoped')
  then have ne: "auth_ID a \<noteq> i" using removed_stale [OF assms(5)] assms(6) by blast
  have m: "m_id meta = auth_ID a" using entered(5) by simp
  note ad = admit_ok(2,3) [OF assms(1-3) entered(4) m entered(6)]
  show ?thesis unfolding entered(7)
    by (rule removed_frame [OF assms(5)]) (use ne entered(5) ad in simp_all)
qed

lemma removed_rebuild_step:
  assumes "sched_ok now s" "0 \<le> now" "trimmed a" "metas_ok metas" "removed i epoch s"
    and "auth_ID a = i \<longrightarrow> auth_RegistrationEpoch a < epoch"
  shows "removed i epoch (upsertAuthRebuildLocked dir metas now a s)"
  using assms(3,4)
proof (cases rule: rebuild_cases [of a metas dir now s])
  case ignored
  with assms(5) show ?thesis by simp
next
  case removed
  have "sched_core now s" using assms(1) by (simp add: sched_ok_def)
  note rm = remove_core [OF this, of "auth_ID a"]
  show ?thesis unfolding removed(2) using assms(5) by (auto simp: removed_def rm)
next
  case (entered b pk meta g u)
  have ne: "auth_ID a \<noteq> i" using entered(9) assms(5,6) by (auto simp: removed_def)
  have m: "m_id meta = auth_ID a" using entered(4,5) by simp
  show ?thesis unfolding entered(8)
    by (rule removed_frame [OF assms(5)])
      (use ne entered m admit_ok(2,3) [OF assms(1) order_refl assms(2) entered(3) m, of True "[]"] in simp_all)
qed

lemma removed_rebuild:
  assumes "sched_ok t s" "t \<le> now" "0 \<le> now" "\<forall>a \<in> set auths. trimmed a" "removed i epoch s"
    and "\<forall>a \<in> set auths. auth_ID a = i \<longrightarrow> auth_RegistrationEpoch a < epoch"
  shows "removed i epoch (rebuild dir auths now s)"
proof -
  have metas: "metas_ok (existingMetas s)" using assms(1) existingMetas_ok by (auto simp: sched_ok_def)
  have "removed i epoch (fold (upsertAuthRebuildLocked dir (existingMetas s) now) auths u)"
    if "sched_ok now u" "removed i epoch u" for u
    using that assms(4,6)
  proof (induction auths arbitrary: u)
    case (Cons a auths)
    have "sched_ok now (upsertAuthRebuildLocked dir (existingMetas s) now a u)"
      by (rule rebuild_step_ok [OF Cons.prems(1) order_refl assms(3) _ metas]) (use Cons.prems(3) in simp)
    moreover have "removed i epoch (upsertAuthRebuildLocked dir (existingMetas s) now a u)"
      by (rule removed_rebuild_step [OF Cons.prems(1) assms(3) _ metas Cons.prems(2)]) (use Cons.prems(3,4) in simp_all)
    ultimately show ?case using Cons.IH Cons.prems(3,4) by simp
  qed simp
  moreover let ?s = "s\<lparr>s_providers := [], s_authProviders := [], s_mixedCursors := [], s_mixedWeightedStates := []\<rparr>"
  have "removed i epoch ?s" using assms(5) by (simp add: removed_def metaIn_def)
  ultimately show ?thesis
    using cleared_ok [OF sched_ok_mono [OF assms(1,2)]] by (simp add: rebuild_def Let_def)
qed

lemma removed_tombstone:
  assumes "sched_ok t s" "t \<le> now" "removed i epoch s"
  shows "removed i epoch (RecordRemovalTombstone j e now s)"
    "trim_space j \<noteq> i \<Longrightarrow> removed i epoch (removeAuth j now s)" "trim_space j \<noteq> i \<Longrightarrow> removed i epoch (ResetAuthGeneration j s)"
proof -
  let ?j = "trim_space j"
  show "removed i epoch (RecordRemovalTombstone j e now s)"
  proof (cases "?j = '''' \<or> (\<exists>g. genAt s ?j = Some g \<and> e < g_epoch g)")
    case True
    then have "RecordRemovalTombstone j e now s = s"
      by (auto simp: RecordRemovalTombstone_def recordRemovalTombstoneLocked_def)
    with assms(3) show ?thesis by simp
  next
    case False
    then have "RecordRemovalTombstone j e now s = removeAuthFromProvidersLocked ?j (recordGeneration ?j e 0 now s)"
      by (auto simp: RecordRemovalTombstone_def recordRemovalTombstoneLocked_def split: option.splits)
    with discard_ok(2,3) [OF assms(1,2), of ?j e 0 now] assms(3) False show ?thesis
      by (auto simp: removed_def not_less intro: order_trans)
  qed
  show "removed i epoch (removeAuth j now s)" if "?j \<noteq> i"
    using that assms(3) discard_ok(2,3) [OF assms(1,2), of ?j]
    by (auto simp: removeAuth_def removeAuthLocked_def Let_def removed_def)
  show "removed i epoch (ResetAuthGeneration j s)" if "?j \<noteq> i"
    using that assms(3) by (auto simp: ResetAuthGeneration_def Let_def removed_def metaIn_def delete_conv)
qed

lemma removed_step:
  assumes "sched_ok t s" "t \<le> now" "0 \<le> now" "input_ok op" "earlier_only i epoch op" "removed i epoch s"
  shows "removed i epoch (schedStep now op s)"
proof (cases op)
  case (UpsertAuth dir a)
  with assms show ?thesis by (auto intro: removed_lifecycle)
next
  case (UpsertResult dir a targets scoped)
  with assms show ?thesis by (auto intro: removed_result)
next
  case (Rebuild dir auths)
  with assms show ?thesis by (auto intro: removed_rebuild)
next
  case (SetSelector selector)
  with assms(6) show ?thesis by (auto simp: setSelector_def removed_def metaIn_def)
next
  case (PickSingle provider model rq strategy)
  obtain r s' where r: "pickSingleWithStrategy provider model rq strategy now s = (r, s')" by (rule prod.exhaust)
  from pickSingle_spec(2,3) [OF assms(1-3) r] assms(6) PickSingle r show ?thesis by (simp add: removed_def)
next
  case (PickMixed providers model rq strategy)
  obtain r s' where r: "pickMixedWithStrategy providers model rq strategy now s = (r, s')" by (rule prod.exhaust)
  from pickMixed_ok [OF assms(1-3) r] assms(6) PickMixed r show ?thesis by (simp add: removed_def)
qed (use removed_tombstone [OF assms(1,2,6)] assms(5) in auto)

text \<open>
  (C27) A removed credential does not come back. Once a tombstone is recorded for an identifier, with an
  epoch not below the one recorded for it, no sequence of operations that brings only snapshots of
  earlier registrations of it - late results, updates in flight, rebuilds from an old snapshot - makes
  the scheduler own it or hand it out again; only a newer registration or a reset of its record does.
\<close>

theorem tombstone_final:
  assumes "reaches selector t s" "t \<le> now" "i \<noteq> ''''" "trim_space i = i"
    and "\<forall>g. genAt s i = Some g \<longrightarrow> g_epoch g \<le> epoch"
    and "(sched_step (earlier_only i epoch))\<^sup>*\<^sup>* (now, RecordRemovalTombstone i epoch now s) (t', s')"
  shows "map_of (s_authProviders s') i = None \<and>
    (\<forall>providers model rq strategy now' a pk. t' \<le> now' \<longrightarrow>
       fst (pickMixedWithStrategy providers model rq strategy now' s') = Inr (a, pk) \<longrightarrow> auth_ID a \<noteq> i)"
proof -
  have ok: "sched_ok t s" "0 \<le> now" using reaches_ok [OF assms(1)] assms(2) by auto
  have "RecordRemovalTombstone i epoch now s = removeAuthFromProvidersLocked i (recordGeneration i epoch 0 now s)"
    using assms(3-5) by (force simp: RecordRemovalTombstone_def recordRemovalTombstoneLocked_def split: option.splits)
  then have start: "removed i epoch (RecordRemovalTombstone i epoch now s)"
    using discard_ok(2,3) [OF ok(1) assms(2), of i epoch 0 now] by (simp add: removed_def)
  have inv: "sched_inv (now, RecordRemovalTombstone i epoch now s)"
    using tombstone_ok(1) [OF ok(1) assms(2)] ok(2) by (simp add: sched_inv_def)
  have "sched_inv (t', s')" by (rule scheduler.inv_run [OF assms(6) inv])
  then have ok': "sched_ok t' s'" "0 \<le> t'" by (auto simp: sched_inv_def)
  have "removed i epoch (snd (t', s'))"
  proof (rule scheduler.stable_run [OF assms(6) inv, where P = "\<lambda>x. removed i epoch (snd x)"])
    fix x y assume "sched_inv x" "removed i epoch (snd x)" "sched_step (earlier_only i epoch) x y"
    then show "removed i epoch (snd y)"
      by (cases x; cases y) (auto elim!: sched_stepE simp: sched_inv_def intro: removed_step)
  qed (use start in simp)
  then have gone: "metaIn s' pk i = None" for pk by (simp add: removed_def)
  have "map_of (s_authProviders s') i = None"
    using owner(1) [of t' s' i] ok'(1) gone by (cases "map_of (s_authProviders s') i") (auto simp: sched_ok_def)
  moreover have "auth_ID a \<noteq> i" if "t' \<le> now'"
    "fst (pickMixedWithStrategy providers model rq strategy now' s') = Inr (a, pk)" for providers model rq strategy now' a pk
  proof -
    have "0 \<le> now'" using that(1) ok'(2) by simp
    moreover have "pickMixedWithStrategy providers model rq strategy now' s' =
        (Inr (a, pk), snd (pickMixedWithStrategy providers model rq strategy now' s'))" using that(2) by (simp add: prod_eq_iff)
    ultimately have "\<exists>meta. metaIn s' pk (auth_ID a) = Some meta"
      using pickMixed_serves [OF ok'(1) that(1)] by (fastforce simp: serves_def)
    with gone show ?thesis by auto
  qed
  ultimately show ?thesis by blast
qed

theorem tombstone_final_witness:
  "map_of (s_authProviders (schedStep 4 (UpsertResult sample_dir (sample_auth ''a'') [''m''] False)
     (RecordRemovalTombstone ''a'' 1 3 sample_scheduler))) ''a'' = None"
proof -
  let ?op = "UpsertResult sample_dir (sample_auth ''a'') [''m''] False"
  let ?s = "RecordRemovalTombstone ''a'' 1 3 sample_scheduler"
  have t: "trimmed (sample_auth ''a'')" "trim_space ''a'' = ''a''"
    "genAt sample_scheduler ''a'' = Some \<lparr>g_epoch = 0, g_generation = 0, g_updatedAt = 0\<rparr>" by code_simp+
  have "sched_step (earlier_only ''a'' 1) (3, ?s) (4, schedStep 4 ?op ?s)"
    by (rule sched_step.step) (use t in \<open>simp_all add: sample_auth_def\<close>)
  then have "(sched_step (earlier_only ''a'' 1))\<^sup>*\<^sup>* (3, ?s) (4, schedStep 4 ?op ?s)" by (rule r_into_rtranclp)
  from tombstone_final [OF sample_reaches _ _ t(2) _ this] t(3) show ?thesis by simp
qed

section \<open>A rebuild settles\<close>

text \<open>The state after some credentials of a snapshot have been entered into a cleared scheduler.\<close>

definition settled :: "modelDirectory \<Rightarrow> authScheduler \<Rightarrow> Auth list \<Rightarrow> authScheduler \<Rightarrow> bool" where
  "settled dir s0 auths s \<longleftrightarrow>
     (\<forall>i. i \<notin> auth_ID ` set auths \<longrightarrow> (\<forall>pk. metaIn s pk i = None) \<and> genAt s i = genAt s0 i) \<and>
     (\<forall>a \<in> set auths. case isSchedulableAuth a of
        None \<Rightarrow> \<forall>pk. metaIn s pk (auth_ID a) = None
      | Some (i, pk) \<Rightarrow> (\<exists>meta g. metaIn s pk i = Some meta \<and> m_registryEpoch meta = dir_ClientRegistrationEpoch dir i \<and>
          genAt s i = Some g \<and> g_epoch g = auth_RegistrationEpoch a))"

text \<open>No record is ahead of the snapshot.\<close>

definition not_ahead :: "authScheduler \<Rightarrow> Auth \<Rightarrow> bool" where
  "not_ahead s a \<longleftrightarrow> (\<forall>g. genAt s (auth_ID a) = Some g \<longrightarrow> g_epoch g < auth_RegistrationEpoch a \<or>
     (g_epoch g = auth_RegistrationEpoch a \<and> g_generation g \<le> auth_Generation a))"

lemma settled_step:
  assumes "sched_ok now s" "0 \<le> now" "trimmed a" "metas_ok metas" "settled dir s0 auths s"
    and "auth_ID a \<notin> auth_ID ` set auths" "not_ahead s0 a" "\<forall>b \<in> set auths. trimmed b"
  shows "settled dir s0 (auths @ [a]) (upsertAuthRebuildLocked dir metas now a s)"
proof -
  let ?s = "upsertAuthRebuildLocked dir metas now a s"
  have gen: "genAt s (auth_ID a) = genAt s0 (auth_ID a)" "metaIn s pk (auth_ID a) = None" for pk
    using assms(5,6) by (auto simp: settled_def)
  have id_of: "isSchedulableAuth b = Some (i, pk) \<Longrightarrow> trimmed b \<Longrightarrow> i = auth_ID b" for b i pk
    by (simp add: schedulable_iff)
  have frame: "settled dir s0 (auths @ [a]) u"
    if eq: "\<And>j pk. j \<noteq> auth_ID a \<Longrightarrow> metaIn u pk j = metaIn s pk j" "\<And>j. j \<noteq> auth_ID a \<Longrightarrow> genAt u j = genAt s j"
    and own: "case isSchedulableAuth a of None \<Rightarrow> \<forall>pk. metaIn u pk (auth_ID a) = None
      | Some (i, pk) \<Rightarrow> (\<exists>meta g. metaIn u pk i = Some meta \<and> m_registryEpoch meta = dir_ClientRegistrationEpoch dir i \<and>
          genAt u i = Some g \<and> g_epoch g = auth_RegistrationEpoch a)" for u
  proof -
    have other: "auth_ID b \<noteq> auth_ID a" if "b \<in> set auths" for b using assms(6) that by (metis imageI)
    have rest: "case isSchedulableAuth b of None \<Rightarrow> \<forall>pk. metaIn u pk (auth_ID b) = None
      | Some (i, pk) \<Rightarrow> (\<exists>meta g. metaIn u pk i = Some meta \<and> m_registryEpoch meta = dir_ClientRegistrationEpoch dir i \<and>
          genAt u i = Some g \<and> g_epoch g = auth_RegistrationEpoch b)" if "b \<in> set auths" for b
    proof (cases "isSchedulableAuth b")
      case None
      with assms(5) that have "\<forall>pk. metaIn s pk (auth_ID b) = None" by (fastforce simp: settled_def)
      with None eq(1) other [OF that] show ?thesis by simp
    next
      case (Some ip)
      obtain i pk where ip: "ip = (i, pk)" by (rule prod.exhaust)
      then have "i \<noteq> auth_ID a" using id_of [of b i pk] Some assms(8) other [OF that] that by simp
      moreover have "\<exists>meta g. metaIn s pk i = Some meta \<and> m_registryEpoch meta = dir_ClientRegistrationEpoch dir i \<and>
          genAt s i = Some g \<and> g_epoch g = auth_RegistrationEpoch b"
        using assms(5) that Some ip by (fastforce simp: settled_def)
      ultimately show ?thesis using Some ip eq by simp
    qed
    have "\<forall>i. i \<notin> auth_ID ` set (auths @ [a]) \<longrightarrow> (\<forall>pk. metaIn u pk i = None) \<and> genAt u i = genAt s0 i"
      using assms(5) eq by (simp add: settled_def)
    then show ?thesis unfolding settled_def using rest own by simp
  qed
  show ?thesis
    using assms(3,4)
  proof (cases rule: rebuild_cases [of a metas dir now s])
    case ignored
    then have "auth_ID a = ''''" using assms(7) gen(1) by (auto simp: not_ahead_def)
    then have "isSchedulableAuth a = None" using assms(3) by (simp add: isSchedulableAuth_def)
    with gen(2) show ?thesis unfolding ignored(1) by (intro frame) simp_all
  next
    case removed
    have "sched_core now s" using assms(1) by (simp add: sched_ok_def)
    note rm = remove_core [OF this, of "auth_ID a"]
    show ?thesis unfolding removed(2) by (rule frame) (simp_all add: rm removed(3))
  next
    case (entered b pk meta g u)
    have "b = a" using entered(10) assms(7) gen(1) by (auto simp: not_ahead_def)
    have m: "m_id meta = auth_ID a" using entered(4,5) by simp
    note ad = admit_ok(2,3) [OF assms(1) order_refl assms(2) entered(3) m, of True "[]" "auth_RegistrationEpoch b" g u]
    show ?thesis unfolding entered(8)
      by (rule frame) (use ad entered(2,4,6,7) \<open>b = a\<close> in simp_all)
  qed
qed

lemma settled_fold:
  assumes "0 \<le> now" "\<forall>a \<in> set auths. trimmed a \<and> not_ahead s0 a" "metas_ok metas" "distinct (map auth_ID auths)"
    and "sched_ok now s" "settled dir s0 [] s"
  shows "settled dir s0 auths (fold (upsertAuthRebuildLocked dir metas now) auths s)"
  using assms(2,4)
proof (induction auths rule: rev_induct)
  case Nil
  with assms(6) show ?case by simp
next
  case (snoc a auths)
  have "sched_ok now (fold (upsertAuthRebuildLocked dir metas now) auths s)"
    by (rule rebuild_fold_ok [OF assms(5,1) _ assms(3)]) (use snoc.prems in simp)
  from settled_step [OF this assms(1) _ assms(3) snoc.IH] snoc.prems show ?case by simp
qed

lemma settled_entry:
  assumes "sched_core now s'" "settled dir s auths s'" "a \<in> set auths" "isSchedulableAuth a = Some (i, pk)"
  shows "\<exists>p meta g. map_of (s_authProviders s') i = Some pk \<and> map_of (s_providers s') pk = Some p \<and>
    map_of (ps_auths p) i = Some meta \<and> m_registryEpoch meta = dir_ClientRegistrationEpoch dir i \<and>
    genAt s' i = Some g \<and> g_epoch g = auth_RegistrationEpoch a"
proof -
  from assms(2-4) obtain meta g where m: "metaIn s' pk i = Some meta" "m_registryEpoch meta = dir_ClientRegistrationEpoch dir i"
    "genAt s' i = Some g" "g_epoch g = auth_RegistrationEpoch a" by (fastforce simp: settled_def)
  then have "map_of (s_authProviders s') i = Some pk" using owner(1) [OF assms(1)] by simp
  with m show ?thesis unfolding metaIn_def bind_eq_Some_conv by blast
qed

lemma settled_unscheduled:
  assumes "sched_core now s'" "settled dir s auths s'" "a \<in> set auths" "isSchedulableAuth a = None"
  shows "map_of (s_authProviders s') (auth_ID a) = None"
proof -
  have "metaIn s' pk (auth_ID a) = None" for pk using assms(2-4) by (fastforce simp: settled_def)
  then show ?thesis using owner(1) [OF assms(1), of "auth_ID a"] by (cases "map_of (s_authProviders s') (auth_ID a)") auto
qed

lemma settled_not_outdated:
  assumes "sched_core now s'" "settled dir s auths s'" "a \<in> set auths" "trimmed a"
  shows "\<not> outdated dir s' a"
proof (cases "isSchedulableAuth a")
  case None
  with settled_unscheduled [OF assms(1-3)] assms(4) show ?thesis by (simp add: outdated_def Let_def)
next
  case (Some ip)
  obtain i pk where ip: "ip = (i, pk)" by (rule prod.exhaust)
  with settled_entry [OF assms(1-3), of i pk] Some show ?thesis by (auto simp: outdated_def get_or_def)
qed

text \<open>The owners of a settled scheduler are the credentials that may be scheduled.\<close>

lemma settled_owners:
  assumes "sched_core now s'" "settled dir s auths s'" "\<forall>a \<in> set auths. trimmed a"
  shows "auth_ID ` set (filter (\<lambda>a. isSchedulableAuth a \<noteq> None) auths) = fst ` set (s_authProviders s')"
proof -
  let ?A = "filter (\<lambda>a. isSchedulableAuth a \<noteq> None) auths"
  have "i \<in> auth_ID ` set ?A \<longleftrightarrow> map_of (s_authProviders s') i \<noteq> None" for i
  proof
    assume "i \<in> auth_ID ` set ?A"
    then obtain a j pk where a: "a \<in> set auths" "isSchedulableAuth a = Some (j, pk)" "i = auth_ID a" by auto
    then have "j = i" using assms(3) by (simp add: schedulable_iff)
    with settled_entry [OF assms(1,2) a(1,2)] show "map_of (s_authProviders s') i \<noteq> None" by auto
  next
    assume owned: "map_of (s_authProviders s') i \<noteq> None"
    then obtain pk where "metaIn s' pk i \<noteq> None" using owner(1) [OF assms(1)] by blast
    moreover have "metaIn s' pk i = None" if "i \<notin> auth_ID ` set auths" using assms(2) that by (simp add: settled_def)
    ultimately have "i \<in> auth_ID ` set auths" by metis
    then obtain a where a: "a \<in> set auths" "i = auth_ID a" by blast
    with settled_unscheduled [OF assms(1,2) a(1)] owned have "a \<in> set ?A" by force
    with a(2) show "i \<in> auth_ID ` set ?A" by (rule image_eqI)
  qed
  then show ?thesis by (intro set_eqI) (simp only: map_of_eq_None_iff not_not)
qed

lemma rebuild_settled:
  assumes "sched_ok t s" "t \<le> now" "0 \<le> now" "\<forall>a \<in> set auths. trimmed a \<and> not_ahead s a" "distinct (map auth_ID auths)"
  shows "settled dir s auths (rebuild dir auths now s)"
proof -
  let ?s0 = "s\<lparr>s_providers := [], s_authProviders := [], s_mixedCursors := [], s_mixedWeightedStates := []\<rparr>"
  have "rebuild dir auths now s = fold (upsertAuthRebuildLocked dir (existingMetas s) now) auths ?s0"
    by (simp add: rebuild_def Let_def)
  moreover have "metas_ok (existingMetas s)" using assms(1) existingMetas_ok by (auto simp: sched_ok_def)
  moreover have "sched_ok now ?s0" by (rule cleared_ok [OF sched_ok_mono [OF assms(1,2)]])
  moreover have "settled dir s [] ?s0" by (simp add: settled_def metaIn_def)
  ultimately show ?thesis using settled_fold [OF assms(3,4) _ assms(5)] by metis
qed



end
