(* ===== verification/Model_Registry.thy ===== *)
theory Model_Registry
  imports Capacity
begin

text \<open>
  The catalogue of models of \<open>internal/registry/model_registry.go\<close>: which client (credential) serves
  which models, the counters per model and provider derived from that, the suspensions and exhausted
  quotas that decide which models are listed, and the cache of the listings.

  Every exported operation holds the mutex for its whole body and is one step here; the time it reads
  is an argument. A pointer to a \<open>ModelInfo\<close> is its value: the code stores clones only, so no two
  places share one. Counters of type \<open>int\<close> are not bounded, the \<open>uint64\<close> epochs wrap. The calls of
  the hook, which the code starts as goroutines, are appended to a log. A Go map that is visited by
  \<open>range\<close> is visited in the order of its association list.
\<close>

section \<open>Data\<close>

record NativeCapabilities =
  nc_WebSearch :: "bool option"
  nc_ToolSearch :: "bool option"

record ModelInfo =
  mi_ID :: string
  mi_MetadataModelID :: string
  mi_ExplicitThinking :: bool
  mi_ExplicitInputModalities :: bool
  mi_Object :: string
  mi_Created :: int
  mi_OwnedBy :: string
  mi_Type :: string
  mi_DisplayName :: string
  mi_Name :: string
  mi_Version :: string
  mi_Description :: string
  mi_InputTokenLimit :: int
  mi_OutputTokenLimit :: int
  mi_SupportedGenerationMethods :: "string list"
  mi_ContextLength :: int
  mi_MaxContextLength :: int
  mi_MaxCompletionTokens :: int
  mi_SupportedParameters :: "string list"
  mi_SupportedInputModalities :: "string list"
  mi_SupportedOutputModalities :: "string list"
  mi_SupportsWebSearch :: bool
  mi_SupportConfigurationUpdate :: bool
  mi_NativeCapabilities :: "NativeCapabilities option"
  mi_Thinking :: "ThinkingSupport option"
  mi_Config :: "(string \<times> string) list option"
  mi_UserDefined :: bool
  mi_IsCompat :: bool

text \<open>\<open>Count\<close> and the counts per provider are numbers of bindings of clients to the model.\<close>

record ModelRegistration =
  reg_Info :: ModelInfo
  reg_InfoByProvider :: "(string \<times> ModelInfo) list"
  reg_Count :: int
  reg_LastUpdated :: time
  reg_QuotaExceededClients :: "(string \<times> time) list"
  reg_Providers :: "(string \<times> int) list"
  reg_SuspendedClients :: "(string \<times> string) list"

text \<open>The values of a listing, Go's \<open>any\<close> as far as the registry makes them.\<close>

datatype anyValue = AnyString string | AnyInt int | AnyStrings "string list"

type_synonym modelMap = "(string \<times> anyValue) list"

record availableModelsCacheEntry =
  ce_models :: "modelMap list"
  ce_expiresAt :: time

datatype hookCall =
    OnModelsRegistered string string "ModelInfo list"
  | OnModelsUnregistered string string

record ModelRegistry =
  mr_models :: "(string \<times> ModelRegistration) list"
  mr_clientModels :: "(string \<times> string list) list"
  mr_clientModelInfos :: "(string \<times> (string \<times> ModelInfo) list) list"
  mr_clientProviders :: "(string \<times> string) list"
  mr_clientEpochs :: "(string \<times> nat) list"
  mr_clientGenerations :: "(string \<times> nat) list"
  mr_availableModelsCache :: "(string \<times> availableModelsCacheEntry) list"
  mr_generation :: nat
  mr_registrationEpoch :: nat
  mr_hook :: bool
  mr_hookCalls :: "hookCall list"

record ClientModelProjection =
  pr_ModelID :: string
  pr_Suspended :: bool
  pr_SuspendReason :: string
  pr_QuotaExceeded :: bool

text \<open>Epochs and generations are \<open>uint64\<close>; the code equation keeps the modulus in binary.\<close>

definition uint64_succ :: "nat \<Rightarrow> nat" where
  "uint64_succ n = (n + 1) mod 18446744073709551616"

lemma uint64_succ_code [code]: "uint64_succ n = nat ((int n + 1) mod 18446744073709551616)"
proof -
  have "int ((n + 1) mod 18446744073709551616) = (int n + 1) mod 18446744073709551616" by (simp add: zmod_int add.commute)
  then show ?thesis unfolding uint64_succ_def by (metis nat_int)
qed

abbreviation modelQuotaExceededWindow :: duration where "modelQuotaExceededWindow \<equiv> 300000000000"

abbreviation DefaultClaudeMaxInputTokens :: int where "DefaultClaudeMaxInputTokens \<equiv> 200000"

abbreviation DefaultClaudeMaxOutputTokens :: int where "DefaultClaudeMaxOutputTokens \<equiv> 64000"

definition newRegistry :: ModelRegistry where
  "newRegistry = \<lparr>mr_models = [], mr_clientModels = [], mr_clientModelInfos = [], mr_clientProviders = [],
     mr_clientEpochs = [], mr_clientGenerations = [], mr_availableModelsCache = [], mr_generation = 0,
     mr_registrationEpoch = 0, mr_hook = False, mr_hookCalls = []\<rparr>"

definition SetHook :: "bool \<Rightarrow> ModelRegistry \<Rightarrow> ModelRegistry" where
  "SetHook hook r = r\<lparr>mr_hook := hook\<rparr>"

definition invalidateAvailableModelsCacheLocked :: "ModelRegistry \<Rightarrow> ModelRegistry" where
  "invalidateAvailableModelsCacheLocked r =
     r\<lparr>mr_generation := uint64_succ (mr_generation r), mr_availableModelsCache := []\<rparr>"

text \<open>The models of a client in the order of their first mention.\<close>

definition first_mentions :: "string list \<Rightarrow> string list" where
  "first_mentions ids = rev (remdups (rev ids))"

definition cloneModelInfosUnique :: "ModelInfo list \<Rightarrow> ModelInfo list" where
  "cloneModelInfosUnique models =
     (let named = filter (\<lambda>m. mi_ID m \<noteq> '''') models
      in map (\<lambda>i. the (map_of (map (\<lambda>m. (mi_ID m, m)) named) i)) (first_mentions (map mi_ID named)))"

definition triggerModelsRegistered :: "string \<Rightarrow> string \<Rightarrow> ModelInfo list \<Rightarrow> ModelRegistry \<Rightarrow> ModelRegistry" where
  "triggerModelsRegistered provider clientID models r =
     (if mr_hook r
      then r\<lparr>mr_hookCalls := mr_hookCalls r @ [OnModelsRegistered provider clientID (cloneModelInfosUnique models)]\<rparr>
      else r)"

definition triggerModelsUnregistered :: "string \<Rightarrow> string \<Rightarrow> ModelRegistry \<Rightarrow> ModelRegistry" where
  "triggerModelsUnregistered provider clientID r =
     (if mr_hook r then r\<lparr>mr_hookCalls := mr_hookCalls r @ [OnModelsUnregistered provider clientID]\<rparr> else r)"

section \<open>One model\<close>

text \<open>Whether a client other than the excluded one, of the provider if one is given, supports web search.\<close>

definition hasClientSupportingWebSearchLocked :: "ModelRegistry \<Rightarrow> string \<Rightarrow> string \<Rightarrow> string \<Rightarrow> bool" where
  "hasClientSupportingWebSearchLocked r modelID provider excludeClientID \<longleftrightarrow>
     list_ex (\<lambda>(cID, infos). cID \<noteq> excludeClientID \<and>
         \<not> (provider \<noteq> '''' \<and> get_or '''' (mr_clientProviders r) cID \<noteq> provider) \<and>
         (case map_of infos modelID of None \<Rightarrow> False | Some info \<Rightarrow> mi_SupportsWebSearch info))
       (mr_clientModelInfos r)"

text \<open>A change of the registration of one model, which may make or delete it.\<close>

definition atModel ::
    "string \<Rightarrow> (ModelRegistration option \<Rightarrow> ModelRegistration option) \<Rightarrow> ModelRegistry \<Rightarrow> ModelRegistry" where
  "atModel modelID f r =
     (case f (map_of (mr_models r) modelID) of
        None \<Rightarrow> r\<lparr>mr_models := AList.delete modelID (mr_models r)\<rparr>
      | Some reg \<Rightarrow> r\<lparr>mr_models := AList.update modelID reg (mr_models r)\<rparr>)"

definition with_web_search :: "bool \<Rightarrow> ModelInfo \<Rightarrow> ModelInfo" where
  "with_web_search b model = model\<lparr>mi_SupportsWebSearch := b\<rparr>"

text \<open>
  Adding a binding. \<open>anyOther\<close> and \<open>provOther\<close> say whether another client, and another one of the
  provider, supports web search.
\<close>

definition addBinding ::
    "string \<Rightarrow> ModelInfo \<Rightarrow> time \<Rightarrow> bool \<Rightarrow> bool \<Rightarrow> ModelRegistration option \<Rightarrow> ModelRegistration option" where
  "addBinding provider model now anyOther provOther existing = Some
     (case existing of
        Some reg \<Rightarrow>
          (let reg = reg\<lparr>reg_Count := reg_Count reg + 1, reg_LastUpdated := now,
                         reg_Info := with_web_search (mi_SupportsWebSearch model \<or> anyOther) model\<rparr>
           in if provider = '''' then reg
              else reg\<lparr>reg_Providers := AList.update provider (get_or 0 (reg_Providers reg) provider + 1) (reg_Providers reg),
                       reg_InfoByProvider := AList.update provider
                         (with_web_search (mi_SupportsWebSearch model \<or> provOther) model) (reg_InfoByProvider reg)\<rparr>)
      | None \<Rightarrow>
          \<lparr>reg_Info = model, reg_InfoByProvider = (if provider = '''' then [] else [(provider, model)]),
           reg_Count = 1, reg_LastUpdated = now, reg_QuotaExceededClients = [],
           reg_Providers = (if provider = '''' then [] else [(provider, 1)]), reg_SuspendedClients = []\<rparr>)"

definition addModelRegistration ::
    "string \<Rightarrow> string \<Rightarrow> ModelInfo \<Rightarrow> time \<Rightarrow> string \<Rightarrow> ModelRegistry \<Rightarrow> ModelRegistry" where
  "addModelRegistration modelID provider model now excludeClientID r =
     (if modelID = '''' then r
      else atModel modelID (addBinding provider model now
             (hasClientSupportingWebSearchLocked r modelID '''' excludeClientID)
             (hasClientSupportingWebSearchLocked r modelID provider excludeClientID)) r)"

text \<open>A provider loses one binding of the model.\<close>

definition dropProvider :: "string \<Rightarrow> ModelRegistration \<Rightarrow> ModelRegistration" where
  "dropProvider provider reg =
     (case map_of (reg_Providers reg) provider of
        None \<Rightarrow> reg
      | Some n \<Rightarrow>
          (if n \<le> 1
           then reg\<lparr>reg_Providers := AList.delete provider (reg_Providers reg),
                    reg_InfoByProvider := AList.delete provider (reg_InfoByProvider reg)\<rparr>
           else reg\<lparr>reg_Providers := AList.update provider (n - 1) (reg_Providers reg)\<rparr>))"

definition setProviderWebSearch :: "string \<Rightarrow> bool \<Rightarrow> ModelRegistration \<Rightarrow> ModelRegistration" where
  "setProviderWebSearch provider b reg =
     (case map_of (reg_InfoByProvider reg) provider of
        None \<Rightarrow> reg
      | Some info \<Rightarrow> reg\<lparr>reg_InfoByProvider := AList.update provider (with_web_search b info) (reg_InfoByProvider reg)\<rparr>)"

definition forgetClient :: "string \<Rightarrow> ModelRegistration \<Rightarrow> ModelRegistration" where
  "forgetClient clientID reg =
     reg\<lparr>reg_QuotaExceededClients := AList.delete clientID (reg_QuotaExceededClients reg),
         reg_SuspendedClients := AList.delete clientID (reg_SuspendedClients reg)\<rparr>"

definition removeBinding ::
    "string \<Rightarrow> string \<Rightarrow> time \<Rightarrow> bool \<Rightarrow> bool \<Rightarrow> bool \<Rightarrow> ModelRegistration option \<Rightarrow> ModelRegistration option" where
  "removeBinding clientID provider now preserveState anyOther provOther existing =
     (case existing of
        None \<Rightarrow> None
      | Some reg \<Rightarrow>
          (let reg = reg\<lparr>reg_Count := reg_Count reg - 1, reg_LastUpdated := now\<rparr>;
               reg = (if preserveState then reg else forgetClient clientID reg);
               reg = (if reg_Count reg < 0 then reg\<lparr>reg_Count := 0\<rparr> else reg);
               reg = (if provider = '''' then reg else dropProvider provider reg)
           in if reg_Count reg \<le> 0 then None
              else let reg = reg\<lparr>reg_Info := with_web_search anyOther (reg_Info reg)\<rparr>
                   in Some (if provider = '''' then reg else setProviderWebSearch provider provOther reg)))"

definition removeModelRegistration ::
    "string \<Rightarrow> string \<Rightarrow> string \<Rightarrow> time \<Rightarrow> bool \<Rightarrow> ModelRegistry \<Rightarrow> ModelRegistry" where
  "removeModelRegistration clientID modelID provider now preserveState r =
     (case map_of (mr_models r) modelID of
        None \<Rightarrow> r
      | Some _ \<Rightarrow> atModel modelID (removeBinding clientID provider now preserveState
             (hasClientSupportingWebSearchLocked r modelID '''' clientID)
             (hasClientSupportingWebSearchLocked r modelID provider clientID)) r)"

section \<open>Registering and unregistering clients\<close>

text \<open>
  The loop of an unregistration removes the bindings one by one, as \<open>removeModelRegistration\<close> does;
  the code writes it out once more, without the guard against negative counts.
\<close>

definition unregisterBinding ::
    "string \<Rightarrow> string \<Rightarrow> time \<Rightarrow> bool \<Rightarrow> bool \<Rightarrow> ModelRegistration option \<Rightarrow> ModelRegistration option" where
  "unregisterBinding clientID provider now anyOther provOther existing =
     (case existing of
        None \<Rightarrow> None
      | Some reg \<Rightarrow>
          (let reg = forgetClient clientID (reg\<lparr>reg_Count := reg_Count reg - 1, reg_LastUpdated := now\<rparr>);
               reg = (if provider = '''' then reg else dropProvider provider reg)
           in if reg_Count reg \<le> 0 then None
              else let reg = reg\<lparr>reg_Info := with_web_search anyOther (reg_Info reg)\<rparr>
                   in Some (if provider = '''' then reg else setProviderWebSearch provider provOther reg)))"

definition advanceEpoch :: "string \<Rightarrow> ModelRegistry \<Rightarrow> ModelRegistry" where
  "advanceEpoch clientID r =
     r\<lparr>mr_clientEpochs := AList.update clientID (uint64_succ (get_or 0 (mr_clientEpochs r) clientID)) (mr_clientEpochs r),
       mr_registrationEpoch := uint64_succ (mr_registrationEpoch r)\<rparr>"

definition forgetRegistration :: "string \<Rightarrow> ModelRegistry \<Rightarrow> ModelRegistry" where
  "forgetRegistration clientID r =
     r\<lparr>mr_clientModels := AList.delete clientID (mr_clientModels r),
       mr_clientModelInfos := AList.delete clientID (mr_clientModelInfos r),
       mr_clientProviders := AList.delete clientID (mr_clientProviders r)\<rparr>"

text \<open>A provider is never stored as the empty string, so reading \<open>''''\<close> says that there is none.\<close>

definition unregisterClientInternal :: "string \<Rightarrow> time \<Rightarrow> ModelRegistry \<Rightarrow> ModelRegistry" where
  "unregisterClientInternal clientID now r =
     (let r = advanceEpoch clientID r;
          r = r\<lparr>mr_clientGenerations := AList.update clientID
                  (uint64_succ (get_or 0 (mr_clientGenerations r) clientID)) (mr_clientGenerations r)\<rparr>;
          provider = get_or '''' (mr_clientProviders r) clientID
      in case map_of (mr_clientModels r) clientID of
           None \<Rightarrow> r\<lparr>mr_clientProviders := AList.delete clientID (mr_clientProviders r)\<rparr>
         | Some models \<Rightarrow>
             (let r = fold (\<lambda>modelID r. atModel modelID (unregisterBinding clientID provider now
                                (hasClientSupportingWebSearchLocked r modelID '''' clientID)
                                (hasClientSupportingWebSearchLocked r modelID provider clientID)) r) models r
              in triggerModelsUnregistered provider clientID (forgetRegistration clientID r)))"

definition UnregisterClient :: "string \<Rightarrow> time \<Rightarrow> ModelRegistry \<Rightarrow> ModelRegistry" where
  "UnregisterClient clientID now r =
     invalidateAvailableModelsCacheLocked (unregisterClientInternal clientID now r)"

text \<open>What a registration reads off the models it is given.\<close>

definition rawModelIDs :: "ModelInfo list \<Rightarrow> string list" where
  "rawModelIDs models = filter (\<lambda>i. i \<noteq> '''') (map mi_ID models)"

definition newModels :: "ModelInfo list \<Rightarrow> (string \<times> ModelInfo) list" where
  "newModels models = map (\<lambda>i. (i, the (map_of (map (\<lambda>m. (mi_ID m, m)) models) i))) (first_mentions (rawModelIDs models))"

definition storeClient ::
    "string \<Rightarrow> string \<Rightarrow> ModelInfo list \<Rightarrow> ModelRegistry \<Rightarrow> ModelRegistry" where
  "storeClient clientID provider models r =
     r\<lparr>mr_clientModels := AList.update clientID (rawModelIDs models) (mr_clientModels r),
       mr_clientModelInfos := AList.update clientID (newModels models) (mr_clientModelInfos r),
       mr_clientProviders := (if provider \<noteq> '''' then AList.update clientID provider (mr_clientProviders r)
                              else AList.delete clientID (mr_clientProviders r))\<rparr>"

text \<open>The bindings a changed provider keeps of a model are taken from the old provider first.\<close>

definition leaveProvider :: "string \<Rightarrow> int \<Rightarrow> bool \<Rightarrow> ModelRegistration \<Rightarrow> ModelRegistration" where
  "leaveProvider oldProvider toRemove provOther reg =
     (case map_of (reg_Providers reg) oldProvider of
        None \<Rightarrow> reg
      | Some n \<Rightarrow>
          (if n \<le> toRemove
           then reg\<lparr>reg_Providers := AList.delete oldProvider (reg_Providers reg),
                    reg_InfoByProvider := AList.delete oldProvider (reg_InfoByProvider reg)\<rparr>
           else setProviderWebSearch oldProvider provOther
                  (reg\<lparr>reg_Providers := AList.update oldProvider (n - toRemove) (reg_Providers reg)\<rparr>)))"

text \<open>The registration of a model that the client still has gets the client's metadata.\<close>

definition refreshBinding ::
    "string \<Rightarrow> string \<Rightarrow> string \<Rightarrow> ModelInfo \<Rightarrow> time \<Rightarrow> bool \<Rightarrow> nat \<Rightarrow> nat \<Rightarrow> bool \<Rightarrow> bool \<Rightarrow> bool \<Rightarrow>
     ModelRegistration \<Rightarrow> ModelRegistration" where
  "refreshBinding clientID provider oldProvider model now preserveState oldCount newCount anyOther provOther oldOther reg =
     (let providerChanged = (oldProvider \<noteq> provider);
          reg = reg\<lparr>reg_Info := with_web_search (mi_SupportsWebSearch model \<or> anyOther) model\<rparr>;
          reg = (if provider = '''' then reg
                 else reg\<lparr>reg_InfoByProvider := AList.update provider
                            (with_web_search (mi_SupportsWebSearch model \<or> provOther) model) (reg_InfoByProvider reg)\<rparr>);
          reg = (if providerChanged \<and> oldProvider \<noteq> '''' then setProviderWebSearch oldProvider oldOther reg else reg);
          reg = reg\<lparr>reg_LastUpdated := now\<rparr>;
          reg = (if \<not> preserveState \<or> providerChanged \<or> oldCount = 0 then forgetClient clientID reg else reg);
          overlap = min oldCount newCount
      in if providerChanged \<and> provider \<noteq> '''' \<and> overlap > 0
         then reg\<lparr>reg_Providers := AList.update provider (get_or 0 (reg_Providers reg) provider + int overlap) (reg_Providers reg)\<rparr>
         else reg)"

text \<open>
  The reconciliation of a client that is registered already: the stages of the code, each a loop over
  the models.
\<close>

definition transferStage ::
    "string \<Rightarrow> string \<Rightarrow> string \<Rightarrow> string list \<Rightarrow> string list \<Rightarrow> ModelRegistry \<Rightarrow> ModelRegistry" where
  "transferStage clientID provider oldProvider old new r =
     (if oldProvider \<noteq> provider \<and> oldProvider \<noteq> ''''
      then fold (\<lambda>i r. if count_list old i = 0 then r
                       else atModel i (map_option (leaveProvider oldProvider (int (min (count_list old i) (count_list new i)))
                              (hasClientSupportingWebSearchLocked r i oldProvider clientID))) r) (first_mentions new) r
      else r)"

definition removalStage ::
    "string \<Rightarrow> string \<Rightarrow> string list \<Rightarrow> string list \<Rightarrow> time \<Rightarrow> ModelRegistry \<Rightarrow> ModelRegistry" where
  "removalStage clientID oldProvider old new now r =
     fold (\<lambda>i r. if count_list new i = 0
                 then (removeModelRegistration clientID i oldProvider now False ^^ count_list old i) r else r)
       (first_mentions old) r"

definition overageStage ::
    "string \<Rightarrow> string \<Rightarrow> string list \<Rightarrow> string list \<Rightarrow> bool \<Rightarrow> time \<Rightarrow> ModelRegistry \<Rightarrow> ModelRegistry" where
  "overageStage clientID oldProvider old new preserve now r =
     fold (\<lambda>i r. if count_list new i = 0 \<or> count_list old i \<le> count_list new i then r
                 else (removeModelRegistration clientID i oldProvider now preserve
                         ^^ (count_list old i - count_list new i)) r)
       (first_mentions old) r"

definition additionStage ::
    "string \<Rightarrow> string \<Rightarrow> string list \<Rightarrow> string list \<Rightarrow> (string \<times> ModelInfo) list \<Rightarrow> time \<Rightarrow> ModelRegistry \<Rightarrow> ModelRegistry" where
  "additionStage clientID provider old new models now r =
     fold (\<lambda>i r. (addModelRegistration i provider (the (map_of models i)) now clientID
                    ^^ (count_list new i - count_list old i)) r) (first_mentions new) r"

definition refreshStage ::
    "string \<Rightarrow> string \<Rightarrow> string \<Rightarrow> string list \<Rightarrow> string list \<Rightarrow> (string \<times> ModelInfo) list \<Rightarrow> bool \<Rightarrow> time \<Rightarrow>
     ModelRegistry \<Rightarrow> ModelRegistry" where
  "refreshStage clientID provider oldProvider old new models preserveState now r =
     fold (\<lambda>i r. atModel i (map_option (refreshBinding clientID provider oldProvider (the (map_of models i)) now preserveState
                    (count_list old i) (count_list new i)
                    (hasClientSupportingWebSearchLocked r i '''' clientID)
                    (hasClientSupportingWebSearchLocked r i provider clientID)
                    (hasClientSupportingWebSearchLocked r i oldProvider clientID))) r) (first_mentions new) r"

definition reconcileClient ::
    "string \<Rightarrow> string \<Rightarrow> ModelInfo list \<Rightarrow> bool \<Rightarrow> string list \<Rightarrow> time \<Rightarrow> ModelRegistry \<Rightarrow> ModelRegistry" where
  "reconcileClient clientID provider models preserveState old now r =
     (let new = rawModelIDs models;
          oldProvider = get_or '''' (mr_clientProviders r) clientID;
          r = transferStage clientID provider oldProvider old new r;
          r = removalStage clientID oldProvider old new now r;
          r = overageStage clientID oldProvider old new (preserveState \<and> oldProvider = provider) now r;
          r = additionStage clientID provider old new (newModels models) now r
      in refreshStage clientID provider oldProvider old new (newModels models) preserveState now r)"

definition registerClientLocked ::
    "string \<Rightarrow> string \<Rightarrow> ModelInfo list \<Rightarrow> bool \<Rightarrow> time \<Rightarrow> ModelRegistry \<Rightarrow> ModelRegistry" where
  "registerClientLocked clientID clientProvider models preserveState now r =
     (let provider = to_lower clientProvider;
          new = rawModelIDs models
      in if new = []
         then invalidateAvailableModelsCacheLocked
                (forgetRegistration clientID (unregisterClientInternal clientID now r))
         else
           let old = map_of (mr_clientModels r) clientID;
               oldProvider = get_or '''' (mr_clientProviders r) clientID;
               r = advanceEpoch clientID r;
               r = (if \<not> preserveState \<or> old = None \<or> oldProvider \<noteq> provider
                    then r\<lparr>mr_clientGenerations := AList.update clientID 0 (mr_clientGenerations r)\<rparr> else r);
               r = (case old of
                      None \<Rightarrow> fold (\<lambda>i. addModelRegistration i provider (the (map_of (newModels models) i)) now clientID) new r
                    | Some ids \<Rightarrow> reconcileClient clientID provider models preserveState ids now r);
               r = storeClient clientID provider models r
           in triggerModelsRegistered provider clientID models (invalidateAvailableModelsCacheLocked r))"

definition RegisterClient :: "string \<Rightarrow> string \<Rightarrow> ModelInfo list \<Rightarrow> time \<Rightarrow> ModelRegistry \<Rightarrow> ModelRegistry" where
  "RegisterClient clientID clientProvider models now r =
     registerClientLocked clientID clientProvider models False now r"

text \<open>The fence of a publication: the epoch is current and \<open>publish\<close> agrees.\<close>

definition RegisterClientIfEpochCurrent ::
    "string \<Rightarrow> string \<Rightarrow> nat \<Rightarrow> ModelInfo list \<Rightarrow> bool option \<Rightarrow> time \<Rightarrow> ModelRegistry \<Rightarrow> bool \<times> ModelRegistry" where
  "RegisterClientIfEpochCurrent clientID clientProvider expectedEpoch models publish now r =
     (if get_or 0 (mr_clientEpochs r) clientID \<noteq> expectedEpoch \<or> publish \<noteq> Some True then (False, r)
      else (True, registerClientLocked clientID clientProvider models False now r))"

definition UnregisterClientIfEpochCurrent ::
    "string \<Rightarrow> nat \<Rightarrow> bool option \<Rightarrow> time \<Rightarrow> ModelRegistry \<Rightarrow> bool \<times> ModelRegistry" where
  "UnregisterClientIfEpochCurrent clientID expectedEpoch publish now r =
     (if get_or 0 (mr_clientEpochs r) clientID \<noteq> expectedEpoch \<or> publish \<noteq> Some True then (False, r)
      else (True, invalidateAvailableModelsCacheLocked (unregisterClientInternal clientID now r)))"

definition ReplaceClientModels ::
    "string \<Rightarrow> string \<Rightarrow> nat \<Rightarrow> ModelInfo list \<Rightarrow> time \<Rightarrow> ModelRegistry \<Rightarrow> (nat \<times> bool) \<times> ModelRegistry" where
  "ReplaceClientModels clientID clientProvider expectedEpoch models now r =
     (if get_or 0 (mr_clientEpochs r) clientID \<noteq> expectedEpoch then ((0, False), r)
      else let r = registerClientLocked clientID clientProvider models True now r
           in ((get_or 0 (mr_clientEpochs r) clientID, True), r))"

section \<open>Suspensions and quotas\<close>

definition SetModelQuotaExceeded :: "string \<Rightarrow> string \<Rightarrow> time \<Rightarrow> ModelRegistry \<Rightarrow> ModelRegistry" where
  "SetModelQuotaExceeded clientID modelID now r =
     (case map_of (mr_models r) modelID of
        None \<Rightarrow> r
      | Some _ \<Rightarrow> invalidateAvailableModelsCacheLocked (atModel modelID (map_option (\<lambda>reg.
          reg\<lparr>reg_QuotaExceededClients := AList.update clientID now (reg_QuotaExceededClients reg)\<rparr>)) r))"

definition ClearModelQuotaExceeded :: "string \<Rightarrow> string \<Rightarrow> ModelRegistry \<Rightarrow> ModelRegistry" where
  "ClearModelQuotaExceeded clientID modelID r =
     (case map_of (mr_models r) modelID of
        None \<Rightarrow> r
      | Some _ \<Rightarrow> invalidateAvailableModelsCacheLocked (atModel modelID (map_option (\<lambda>reg.
          reg\<lparr>reg_QuotaExceededClients := AList.delete clientID (reg_QuotaExceededClients reg)\<rparr>)) r))"

definition SuspendClientModel :: "string \<Rightarrow> string \<Rightarrow> string \<Rightarrow> time \<Rightarrow> ModelRegistry \<Rightarrow> ModelRegistry" where
  "SuspendClientModel clientID modelID reason now r =
     (if clientID = '''' \<or> modelID = '''' then r
      else case map_of (mr_models r) modelID of
        None \<Rightarrow> r
      | Some reg \<Rightarrow>
          (if map_of (reg_SuspendedClients reg) clientID \<noteq> None then r
           else invalidateAvailableModelsCacheLocked (atModel modelID (map_option (\<lambda>reg.
             reg\<lparr>reg_SuspendedClients := AList.update clientID reason (reg_SuspendedClients reg),
                 reg_LastUpdated := now\<rparr>)) r)))"

definition ResumeClientModel :: "string \<Rightarrow> string \<Rightarrow> time \<Rightarrow> ModelRegistry \<Rightarrow> ModelRegistry" where
  "ResumeClientModel clientID modelID now r =
     (if clientID = '''' \<or> modelID = '''' then r
      else case map_of (mr_models r) modelID of
        None \<Rightarrow> r
      | Some reg \<Rightarrow>
          (if map_of (reg_SuspendedClients reg) clientID = None then r
           else invalidateAvailableModelsCacheLocked (atModel modelID (map_option (\<lambda>reg.
             reg\<lparr>reg_SuspendedClients := AList.delete clientID (reg_SuspendedClients reg),
                 reg_LastUpdated := now\<rparr>)) r)))"

text \<open>One projection on a registration: the suspension, then the quota; the flag says whether something changed.\<close>

definition projectSuspension ::
    "string \<Rightarrow> ClientModelProjection \<Rightarrow> time \<Rightarrow> ModelRegistration \<Rightarrow> bool \<times> ModelRegistration" where
  "projectSuspension clientID proj now reg =
     (if pr_Suspended proj
      then (if map_of (reg_SuspendedClients reg) clientID = Some (pr_SuspendReason proj) then (False, reg)
            else (True, reg\<lparr>reg_SuspendedClients := AList.update clientID (pr_SuspendReason proj) (reg_SuspendedClients reg),
                            reg_LastUpdated := now\<rparr>))
      else (if map_of (reg_SuspendedClients reg) clientID = None then (False, reg)
            else (True, reg\<lparr>reg_SuspendedClients := AList.delete clientID (reg_SuspendedClients reg),
                            reg_LastUpdated := now\<rparr>)))"

definition projectQuota ::
    "string \<Rightarrow> ClientModelProjection \<Rightarrow> time \<Rightarrow> ModelRegistration \<Rightarrow> bool \<times> ModelRegistration" where
  "projectQuota clientID proj now reg =
     (if pr_QuotaExceeded proj
      then (if map_of (reg_QuotaExceededClients reg) clientID \<noteq> None then (False, reg)
            else (True, reg\<lparr>reg_QuotaExceededClients := AList.update clientID now (reg_QuotaExceededClients reg),
                            reg_LastUpdated := now\<rparr>))
      else (if map_of (reg_QuotaExceededClients reg) clientID = None then (False, reg)
            else (True, reg\<lparr>reg_QuotaExceededClients := AList.delete clientID (reg_QuotaExceededClients reg),
                            reg_LastUpdated := now\<rparr>)))"

definition projectStep ::
    "string \<Rightarrow> string list \<Rightarrow> time \<Rightarrow> ClientModelProjection \<Rightarrow> bool \<times> ModelRegistry \<Rightarrow> bool \<times> ModelRegistry" where
  "projectStep clientID registered now proj = (\<lambda>(changed, r).
     (let modelID = trim_space (pr_ModelID proj)
      in if modelID = '''' \<or> modelID \<notin> set registered then (changed, r)
         else case map_of (mr_models r) modelID of
           None \<Rightarrow> (changed, r)
         | Some reg \<Rightarrow>
             (let (c1, reg) = projectSuspension clientID proj now reg;
                  (c2, reg) = projectQuota clientID proj now reg
              in (changed \<or> c1 \<or> c2, atModel modelID (\<lambda>_. Some reg) r))))"

definition ApplyClientModelProjections ::
    "string \<Rightarrow> nat \<Rightarrow> nat \<Rightarrow> ClientModelProjection list \<Rightarrow> time \<Rightarrow> ModelRegistry \<Rightarrow> bool \<times> ModelRegistry" where
  "ApplyClientModelProjections clientID epoch gen projections now r =
     (let clientID = trim_space clientID
      in if clientID = '''' then (False, r)
         else case map_of (mr_clientModels r) clientID of
           None \<Rightarrow> (False, r)
         | Some ids \<Rightarrow>
             (if ids = [] then (False, r)
              else if epoch \<noteq> get_or 0 (mr_clientEpochs r) clientID then (False, r)
              else if gen < get_or 0 (mr_clientGenerations r) clientID then (False, r)
              else let registered = filter (\<lambda>m. m \<noteq> '''') (map trim_space ids)
                   in if \<not> list_ex (\<lambda>proj. let modelID = trim_space (pr_ModelID proj)
                             in modelID \<noteq> '''' \<and> modelID \<in> set registered \<and> map_of (mr_models r) modelID \<noteq> None) projections
                      then (False, r)
                      else let r = r\<lparr>mr_clientGenerations := AList.update clientID gen (mr_clientGenerations r)\<rparr>;
                               (changed, r) = fold (projectStep clientID registered now) projections (False, r)
                           in (True, if changed then invalidateAvailableModelsCacheLocked r else r)))"

text \<open>A mutation of the capabilities of a client's models; the callback is an argument.\<close>

definition mutateStep ::
    "string \<Rightarrow> (string \<Rightarrow> ModelInfo \<Rightarrow> ModelInfo) \<Rightarrow> string \<Rightarrow> ModelRegistry \<Rightarrow> ModelRegistry" where
  "mutateStep clientID mutate i r =
     (let infos = get_or [] (mr_clientModelInfos r) clientID;
          provider = get_or '''' (mr_clientProviders r) clientID
      in case map_of infos i of
           None \<Rightarrow> r
         | Some info \<Rightarrow>
             (let r = r\<lparr>mr_clientModelInfos := AList.update clientID (AList.update i (mutate i info) infos) (mr_clientModelInfos r)\<rparr>
              in atModel i (map_option (\<lambda>reg.
                   let reg = reg\<lparr>reg_Info := with_web_search (hasClientSupportingWebSearchLocked r i '''' '''') (reg_Info reg)\<rparr>
                   in if provider = '''' then reg
                      else setProviderWebSearch provider (hasClientSupportingWebSearchLocked r i provider '''') reg)) r))"

definition ApplyClientModelCapabilities ::
    "string \<Rightarrow> nat \<Rightarrow> (string \<Rightarrow> ModelInfo \<Rightarrow> ModelInfo) option \<Rightarrow> ModelRegistry \<Rightarrow> bool \<times> ModelRegistry" where
  "ApplyClientModelCapabilities clientID expectedEpoch mutate r =
     (case mutate of
        None \<Rightarrow> (False, r)
      | Some f \<Rightarrow>
          (let clientID = trim_space clientID
           in if clientID = '''' then (False, r)
              else if get_or 0 (mr_clientEpochs r) clientID \<noteq> expectedEpoch then (False, r)
              else case map_of (mr_clientModelInfos r) clientID of
                None \<Rightarrow> (False, r)
              | Some infos \<Rightarrow>
                  (if infos = [] then (False, r)
                   else (True, invalidateAvailableModelsCacheLocked (fold (mutateStep clientID f) (map fst infos) r)))))"

definition CleanupExpiredQuotas :: "time \<Rightarrow> ModelRegistry \<Rightarrow> ModelRegistry" where
  "CleanupExpiredQuotas now r =
     (let expired = (\<lambda>q. time_sub now q \<ge> modelQuotaExceededWindow)
      in if list_ex (\<lambda>(_, reg). list_ex (\<lambda>(_, q). expired q) (reg_QuotaExceededClients reg)) (mr_models r)
         then invalidateAvailableModelsCacheLocked
           (r\<lparr>mr_models := map (\<lambda>(i, reg). (i, reg\<lparr>reg_QuotaExceededClients :=
                filter (\<lambda>(_, q). \<not> expired q) (reg_QuotaExceededClients reg)\<rparr>)) (mr_models r)\<rparr>)
         else r)"

section \<open>Queries\<close>

definition ClientSupportsModel :: "ModelRegistry \<Rightarrow> string \<Rightarrow> string \<Rightarrow> bool" where
  "ClientSupportsModel r clientID modelID \<longleftrightarrow>
     (let clientID = trim_space clientID; modelID = trim_space modelID
      in if clientID = '''' \<or> modelID = '''' then False
         else list_ex (\<lambda>i. equal_fold (trim_space i) modelID) (get_or [] (mr_clientModels r) clientID))"

definition IsModelSuspendedForClient :: "ModelRegistry \<Rightarrow> string \<Rightarrow> string \<Rightarrow> bool" where
  "IsModelSuspendedForClient r clientID modelID \<longleftrightarrow>
     (let clientID = trim_space clientID; modelID = trim_space modelID
      in if clientID = '''' \<or> modelID = '''' then False
         else case map_of (mr_models r) modelID of
                None \<Rightarrow> False
              | Some reg \<Rightarrow> map_of (reg_SuspendedClients reg) clientID \<noteq> None)"

definition IsModelQuotaExceededForClient :: "ModelRegistry \<Rightarrow> string \<Rightarrow> string \<Rightarrow> bool" where
  "IsModelQuotaExceededForClient r clientID modelID \<longleftrightarrow>
     (let clientID = trim_space clientID; modelID = trim_space modelID
      in if clientID = '''' \<or> modelID = '''' then False
         else case map_of (mr_models r) modelID of
                None \<Rightarrow> False
              | Some reg \<Rightarrow> map_of (reg_QuotaExceededClients reg) clientID \<noteq> None)"

definition GetModelsAndEpochForClient :: "ModelRegistry \<Rightarrow> string \<Rightarrow> ModelInfo list \<times> nat" where
  "GetModelsAndEpochForClient r clientID =
     (let epoch = get_or 0 (mr_clientEpochs r) clientID;
          infos = get_or [] (mr_clientModelInfos r) clientID
      in (List.map_filter (\<lambda>i. case map_of infos i of
             Some info \<Rightarrow> Some info
           | None \<Rightarrow> map_option reg_Info (map_of (mr_models r) i))
           (first_mentions (get_or [] (mr_clientModels r) clientID)), epoch))"

definition GetGeneration :: "ModelRegistry \<Rightarrow> nat" where
  "GetGeneration r = mr_generation r"

definition RegistrationEpoch :: "ModelRegistry \<Rightarrow> nat" where
  "RegistrationEpoch r = mr_registrationEpoch r"

definition ClientRegistrationEpoch :: "ModelRegistry \<Rightarrow> string \<Rightarrow> nat" where
  "ClientRegistrationEpoch r clientID = get_or 0 (mr_clientEpochs r) clientID"

definition GetModelsForClient :: "ModelRegistry \<Rightarrow> string \<Rightarrow> ModelInfo list" where
  "GetModelsForClient r clientID = fst (GetModelsAndEpochForClient r clientID)"

definition GetModelInfo :: "ModelRegistry \<Rightarrow> string \<Rightarrow> string \<Rightarrow> ModelInfo option" where
  "GetModelInfo r modelID provider =
     (case map_of (mr_models r) modelID of
        None \<Rightarrow> None
      | Some reg \<Rightarrow>
          (if provider \<noteq> '''' \<and> get_or 0 (reg_Providers reg) provider > 0
           then (case map_of (reg_InfoByProvider reg) provider of
                   Some info \<Rightarrow> Some info
                 | None \<Rightarrow> Some (reg_Info reg))
           else Some (reg_Info reg)))"

definition LookupModelInfo ::
    "(string \<Rightarrow> ModelInfo option) \<Rightarrow> ModelRegistry \<Rightarrow> string \<Rightarrow> string list \<Rightarrow> ModelInfo option" where
  "LookupModelInfo lookupStatic r modelID provider =
     (let modelID = trim_space modelID
      in if modelID = '''' then None
         else let p = (case provider of [] \<Rightarrow> '''' | q # _ \<Rightarrow> to_lower (trim_space q))
              in case GetModelInfo r modelID p of
                   Some info \<Rightarrow> Some info
                 | None \<Rightarrow> lookupStatic modelID)"

definition ModelOverrideHeaders ::
    "(string \<Rightarrow> ModelInfo option) \<Rightarrow> ModelRegistry \<Rightarrow> string \<Rightarrow> string list \<Rightarrow> (string \<times> string) list option" where
  "ModelOverrideHeaders lookupStatic r modelID provider =
     (case LookupModelInfo lookupStatic r modelID provider of
        None \<Rightarrow> None
      | Some info \<Rightarrow>
          (case mi_Config info of
             None \<Rightarrow> None
           | Some headers \<Rightarrow>
               (let out = fold (\<lambda>(key, v) out. if trim_space key = '''' then out
                                               else AList.update (trim_space key) v out) headers []
                in if out = [] then None else Some out)))"

text \<open>The providers of a model, the one with the most bindings first.\<close>

definition providerBefore :: "string \<times> int \<Rightarrow> string \<times> int \<Rightarrow> bool" where
  "providerBefore a b \<longleftrightarrow> (if snd a = snd b then fst a < fst b else snd a > snd b)"

definition GetModelProviders :: "ModelRegistry \<Rightarrow> string \<Rightarrow> string list" where
  "GetModelProviders r modelID =
     (case map_of (mr_models r) modelID of
        None \<Rightarrow> []
      | Some reg \<Rightarrow> map fst (slice_stable providerBefore (filter (\<lambda>(_, n). n > 0) (reg_Providers reg))))"

section \<open>Web search of a public model\<close>

definition responsesWebSearchProviderPathSupport :: "string \<Rightarrow> bool option" where
  "responsesWebSearchProviderPathSupport provider =
     (let p = to_lower (trim_space provider)
      in if p \<in> {''codex'', ''xai'', ''claude'', ''antigravity''} then Some True
         else if p \<in> {''openai'', ''openai-compatibility'', ''gemini'', ''aistudio'', ''vertex'', ''kimi'', ''kimi-ai'',
                      ''kimi.ai'', ''kimi.com'', ''interactions'', ''gemini-interactions''} then Some False
         else if take 18 p = ''openai-compatible-'' then Some False
         else None)"

record NativeCapabilityRoute =
  nr_Provider :: string
  nr_NativeCapabilities :: "NativeCapabilities option"

definition routeWebSearch :: "NativeCapabilityRoute \<Rightarrow> bool option" where
  "routeWebSearch route = Option.bind (nr_NativeCapabilities route) nc_WebSearch"

fun resolveRoutes :: "bool \<Rightarrow> NativeCapabilityRoute list \<Rightarrow> bool option" where
  "resolveRoutes hasUnknown [] = (if hasUnknown then None else Some True)"
| "resolveRoutes hasUnknown (route # routes) =
     (if routeWebSearch route = Some False then Some False
      else case responsesWebSearchProviderPathSupport (nr_Provider route) of
        None \<Rightarrow> resolveRoutes True routes
      | Some b \<Rightarrow>
          (if \<not> b then Some False
           else resolveRoutes (hasUnknown \<or> routeWebSearch route = None) routes))"

definition ResolveResponsesWebSearchCapability :: "NativeCapabilityRoute list \<Rightarrow> bool option" where
  "ResolveResponsesWebSearchCapability routes = (if routes = [] then None else resolveRoutes False routes)"

definition GetResponsesWebSearchCapability :: "ModelRegistry \<Rightarrow> string \<Rightarrow> bool option" where
  "GetResponsesWebSearchCapability r modelID =
     (let modelID = trim_space modelID
      in if modelID = '''' then None
         else ResolveResponsesWebSearchCapability
           (concat (map (\<lambda>(clientID, ids).
              map (\<lambda>i. \<lparr>nr_Provider = get_or '''' (mr_clientProviders r) clientID,
                        nr_NativeCapabilities = Option.bind (map_of (get_or [] (mr_clientModelInfos r) clientID) i)
                                                  mi_NativeCapabilities\<rparr>)
                (filter (\<lambda>i. trim_space i = modelID) ids)) (mr_clientModels r))))"

section \<open>Listing the available models\<close>

definition isQuotaSuspension :: "string \<Rightarrow> bool" where
  "isQuotaSuspension reason \<longleftrightarrow> equal_fold reason ''quota'' \<or> equal_fold reason ''credential_quota''"

text \<open>A client has used up its quota until the window after the mark is over.\<close>

definition recoveryAt :: "time \<Rightarrow> time" where
  "recoveryAt quotaTime = quotaTime + modelQuotaExceededWindow"

definition quotaActive :: "ModelRegistration \<Rightarrow> time \<Rightarrow> string \<Rightarrow> bool" where
  "quotaActive reg now clientID \<longleftrightarrow>
     (case map_of (reg_QuotaExceededClients reg) clientID of None \<Rightarrow> False | Some q \<Rightarrow> now < recoveryAt q)"

definition listed :: "int \<Rightarrow> nat \<Rightarrow> nat \<Rightarrow> nat \<Rightarrow> nat \<Rightarrow> bool" where
  "listed availableClients expiredClients cooldownSuspended otherSuspended quotaAndSuspended \<longleftrightarrow>
     (let effective = availableClients - int expiredClients - int cooldownSuspended - int otherSuspended + int quotaAndSuspended;
          effective = (if effective < 0 then 0 else effective)
      in effective > 0 \<or>
         (availableClients > 0 \<and> (expiredClients > 0 \<or> cooldownSuspended > 0) \<and> otherSuspended = 0))"

definition modelRegistrationAvailability :: "ModelRegistration \<Rightarrow> time \<Rightarrow> bool \<times> time" where
  "modelRegistrationAvailability reg now =
     (let (expired, expiresAt) = fold (\<lambda>(_, q) (n, expiresAt).
              if now < recoveryAt q
              then (n + 1, if expiresAt = 0 \<or> recoveryAt q < expiresAt then recoveryAt q else expiresAt)
              else (n, expiresAt)) (reg_QuotaExceededClients reg) (0 :: nat, 0);
          cooldownSuspended = length (filter (\<lambda>(_, reason). isQuotaSuspension reason) (reg_SuspendedClients reg));
          otherSuspended = length (filter (\<lambda>(_, reason). \<not> isQuotaSuspension reason) (reg_SuspendedClients reg));
          both = length (filter (\<lambda>(c, _). quotaActive reg now c) (reg_SuspendedClients reg))
      in (listed (reg_Count reg) expired cooldownSuspended otherSuspended both, expiresAt))"

definition GetAvailableModelInfos :: "ModelRegistry \<Rightarrow> time \<Rightarrow> ModelInfo list" where
  "GetAvailableModelInfos r now =
     slice_stable (\<lambda>a b. trim_space (mi_ID a) < trim_space (mi_ID b))
       (map (\<lambda>(_, reg). reg_Info reg) (filter (\<lambda>(_, reg). fst (modelRegistrationAvailability reg now)) (mr_models r)))"

text \<open>\<open>time.Unix(secs, 0).UTC().Format(time.RFC3339)\<close>: the civil date of a day number, then the time of day.\<close>

definition civil_date :: "int \<Rightarrow> int \<times> int \<times> int" where
  "civil_date days =
     (let z = days + 719468;
          era = z div 146097;
          doe = z mod 146097;
          yoe = (doe - doe div 1460 + doe div 36524 - doe div 146096) div 365;
          doy = doe - (365 * yoe + yoe div 4 - yoe div 100);
          mp = (5 * doy + 2) div 153;
          d = doy - (153 * mp + 2) div 5 + 1;
          m = (if mp < 10 then mp + 3 else mp - 9)
      in (yoe + era * 400 + (if m \<le> 2 then 1 else 0), m, d))"

definition padded :: "nat \<Rightarrow> int \<Rightarrow> string" where
  "padded width n = replicate (width - length (format_int n)) CHR ''0'' @ format_int n"

definition format_rfc3339 :: "int \<Rightarrow> string" where
  "format_rfc3339 secs =
     (let (y, m, d) = civil_date (secs div 86400);
          s = secs mod 86400
      in padded 4 y @ ''-'' @ padded 2 m @ ''-'' @ padded 2 d @ ''T'' @ padded 2 (s div 3600) @ '':'' @
         padded 2 (s div 60 mod 60) @ '':'' @ padded 2 (s mod 60) @ ''Z'')"

definition key_if :: "bool \<Rightarrow> string \<Rightarrow> anyValue \<Rightarrow> modelMap" where
  "key_if b k v = (if b then [(k, v)] else [])"

definition convertModelToMap :: "ModelInfo \<Rightarrow> string \<Rightarrow> modelMap" where
  "convertModelToMap model handlerType =
     (if handlerType = ''openai'' then
        [(''id'', AnyString (mi_ID model)), (''object'', AnyString ''model''), (''owned_by'', AnyString (mi_OwnedBy model))] @
        key_if (mi_Created model > 0) ''created'' (AnyInt (mi_Created model)) @
        key_if (mi_Type model \<noteq> '''') ''type'' (AnyString (mi_Type model)) @
        key_if (mi_DisplayName model \<noteq> '''') ''display_name'' (AnyString (mi_DisplayName model)) @
        key_if (mi_Version model \<noteq> '''') ''version'' (AnyString (mi_Version model)) @
        key_if (mi_Description model \<noteq> '''') ''description'' (AnyString (mi_Description model)) @
        key_if (mi_ContextLength model > 0) ''context_length'' (AnyInt (mi_ContextLength model)) @
        key_if (mi_MaxContextLength model > 0) ''max_context_length'' (AnyInt (mi_MaxContextLength model)) @
        key_if (mi_MaxCompletionTokens model > 0) ''max_completion_tokens'' (AnyInt (mi_MaxCompletionTokens model)) @
        key_if (mi_SupportedParameters model \<noteq> []) ''supported_parameters'' (AnyStrings (mi_SupportedParameters model))
      else if handlerType = ''claude'' then
        [(''id'', AnyString (mi_ID model)), (''object'', AnyString ''model''), (''owned_by'', AnyString (mi_OwnedBy model))] @
        key_if (mi_Created model > 0) ''created_at'' (AnyString (format_rfc3339 (mi_Created model))) @
        [(''type'', AnyString ''model''),
         (''display_name'', AnyString (if mi_DisplayName model \<noteq> '''' then mi_DisplayName model else mi_ID model)),
         (''max_input_tokens'', AnyInt (if mi_ContextLength model \<le> 0 then DefaultClaudeMaxInputTokens
                                        else mi_ContextLength model)),
         (''max_tokens'', AnyInt (if mi_MaxCompletionTokens model \<le> 0 then DefaultClaudeMaxOutputTokens
                                  else mi_MaxCompletionTokens model))]
      else if handlerType = ''gemini'' then
        [(''name'', AnyString (if mi_Name model \<noteq> '''' then mi_Name model else mi_ID model))] @
        key_if (mi_Version model \<noteq> '''') ''version'' (AnyString (mi_Version model)) @
        key_if (mi_DisplayName model \<noteq> '''') ''displayName'' (AnyString (mi_DisplayName model)) @
        key_if (mi_Description model \<noteq> '''') ''description'' (AnyString (mi_Description model)) @
        key_if (mi_InputTokenLimit model > 0) ''inputTokenLimit'' (AnyInt (mi_InputTokenLimit model)) @
        key_if (mi_OutputTokenLimit model > 0) ''outputTokenLimit'' (AnyInt (mi_OutputTokenLimit model)) @
        key_if (mi_SupportedGenerationMethods model \<noteq> []) ''supportedGenerationMethods''
          (AnyStrings (mi_SupportedGenerationMethods model)) @
        key_if (mi_SupportedInputModalities model \<noteq> []) ''supportedInputModalities''
          (AnyStrings (mi_SupportedInputModalities model)) @
        key_if (mi_SupportedOutputModalities model \<noteq> []) ''supportedOutputModalities''
          (AnyStrings (mi_SupportedOutputModalities model))
      else
        [(''id'', AnyString (mi_ID model)), (''object'', AnyString ''model'')] @
        key_if (mi_OwnedBy model \<noteq> '''') ''owned_by'' (AnyString (mi_OwnedBy model)) @
        key_if (mi_Type model \<noteq> '''') ''type'' (AnyString (mi_Type model)) @
        key_if (mi_Created model \<noteq> 0) ''created'' (AnyInt (mi_Created model)))"

definition sooner :: "time \<Rightarrow> time \<Rightarrow> time" where
  "sooner t expiresAt = (if t \<noteq> 0 \<and> (expiresAt = 0 \<or> t < expiresAt) then t else expiresAt)"

definition buildAvailableModelsLocked :: "ModelRegistry \<Rightarrow> string \<Rightarrow> time \<Rightarrow> modelMap list \<times> time" where
  "buildAvailableModelsLocked r handlerType now =
     (map (\<lambda>(_, reg). convertModelToMap (reg_Info reg) handlerType)
        (filter (\<lambda>(_, reg). fst (modelRegistrationAvailability reg now)) (mr_models r)),
      fold (\<lambda>(_, reg). sooner (snd (modelRegistrationAvailability reg now))) (mr_models r) 0)"

definition GetAvailableModels :: "string \<Rightarrow> time \<Rightarrow> ModelRegistry \<Rightarrow> modelMap list \<times> ModelRegistry" where
  "GetAvailableModels handlerType now r =
     (let build = (let (models, expiresAt) = buildAvailableModelsLocked r handlerType now
                   in (models, r\<lparr>mr_availableModelsCache := AList.update handlerType
                         \<lparr>ce_models = models, ce_expiresAt = expiresAt\<rparr> (mr_availableModelsCache r)\<rparr>))
      in case map_of (mr_availableModelsCache r) handlerType of
           None \<Rightarrow> build
         | Some cache \<Rightarrow>
             (if ce_expiresAt cache = 0 \<or> now < ce_expiresAt cache then (ce_models cache, r) else build))"

text \<open>The number of clients that can serve a model now.\<close>

definition GetModelCount :: "ModelRegistry \<Rightarrow> string \<Rightarrow> time \<Rightarrow> int" where
  "GetModelCount r modelID now =
     (case map_of (mr_models r) modelID of
        None \<Rightarrow> 0
      | Some reg \<Rightarrow>
          (let expired = length (filter (\<lambda>(_, q). time_sub now q < modelQuotaExceededWindow) (reg_QuotaExceededClients reg));
               suspended = length (filter (\<lambda>(c, _). \<not> quotaActive reg now c) (reg_SuspendedClients reg));
               result = reg_Count reg - int expired - int suspended
           in if result < 0 then 0 else result))"

text \<open>\<open>sort.Slice\<close> by creation time, newest first; entries without one compare as equal to all.\<close>

definition createdAfter :: "modelMap \<Rightarrow> modelMap \<Rightarrow> bool" where
  "createdAfter a b \<longleftrightarrow>
     (case (map_of a ''created'', map_of b ''created'') of
        (Some (AnyInt x), Some (AnyInt y)) \<Rightarrow> x > y
      | _ \<Rightarrow> False)"

definition GetFirstAvailableModel :: "string \<Rightarrow> time \<Rightarrow> ModelRegistry \<Rightarrow> (string + string) \<times> ModelRegistry" where
  "GetFirstAvailableModel handlerType now r =
     (let (models, r) = GetAvailableModels handlerType now r
      in if models = [] then (Inl (''no models available for handler type: '' @ handlerType), r)
         else case List.find (\<lambda>m. case map_of m ''id'' of
                   Some (AnyString i) \<Rightarrow> GetModelCount r i now > 0
                 | _ \<Rightarrow> False) (slice_stable createdAfter models) of
                Some m \<Rightarrow> (case map_of m ''id'' of
                             Some (AnyString i) \<Rightarrow> (Inr i, r)
                           | _ \<Rightarrow> (Inl '''', r))
              | None \<Rightarrow> (Inl (''no available clients for any model in handler type: '' @ handlerType), r))"

text \<open>The models of one provider: the bindings of its clients, and which of them are blocked.\<close>

definition providerModels :: "ModelRegistry \<Rightarrow> string \<Rightarrow> (string \<times> nat \<times> ModelInfo option) list" where
  "providerModels r provider =
     fold (\<lambda>(clientID, clientProvider) acc.
         if clientProvider \<noteq> provider then acc
         else fold (\<lambda>modelID acc.
                let modelID = trim_space modelID
                in if modelID = '''' then acc
                   else let (n, info) = get_or (0, None) acc modelID;
                            info = (case info of
                                Some m \<Rightarrow> Some m
                              | None \<Rightarrow> (case map_of (get_or [] (mr_clientModelInfos r) clientID) modelID of
                                           Some m \<Rightarrow> Some m
                                         | None \<Rightarrow> map_option reg_Info (map_of (mr_models r) modelID)))
                        in AList.update modelID (n + 1, info) acc)
              (get_or [] (mr_clientModels r) clientID) acc)
       (mr_clientProviders r) []"

definition providerModelListed :: "ModelRegistry \<Rightarrow> string \<Rightarrow> time \<Rightarrow> string \<Rightarrow> nat \<Rightarrow> bool" where
  "providerModelListed r provider now modelID n =
     (case map_of (mr_models r) modelID of
        None \<Rightarrow> listed (int n) 0 0 0 0
      | Some reg \<Rightarrow>
          (let mine = (\<lambda>c. c \<noteq> '''' \<and> map_of (mr_clientProviders r) c = Some provider);
               suspended = filter (\<lambda>(c, _). mine c) (reg_SuspendedClients reg)
           in listed (int n)
                (length (filter (\<lambda>(c, q). mine c \<and> time_sub now q < modelQuotaExceededWindow) (reg_QuotaExceededClients reg)))
                (length (filter (\<lambda>(_, reason). isQuotaSuspension reason) suspended))
                (length (filter (\<lambda>(_, reason). \<not> isQuotaSuspension reason) suspended))
                (length (filter (\<lambda>(c, _). quotaActive reg now c) suspended))))"

definition GetAvailableModelsByProvider :: "ModelRegistry \<Rightarrow> string \<Rightarrow> time \<Rightarrow> ModelInfo list" where
  "GetAvailableModelsByProvider r provider now =
     (let provider = to_lower (trim_space provider)
      in if provider = '''' then []
         else List.map_filter (\<lambda>(modelID, n, info).
                if providerModelListed r provider now modelID n
                then (case info of
                        Some m \<Rightarrow> Some m
                      | None \<Rightarrow> map_option reg_Info (map_of (mr_models r) modelID))
                else None) (providerModels r provider))"

end
