(* ===== verification/Registry_Bindings.thy ===== *)
theory Registry_Bindings
  imports Model_Registry
begin

text \<open>
  The counters of the model registry per model and provider, and its web search flags, are a function of
  which client has registered which models under which provider. The effect of a registration is
  described one model at a time: the stages of a reconciliation act on each model by a function of its
  registration, and that function moves the client's bindings from the old models and provider to the
  new ones. The invariant \<open>registry_ok\<close> states the result for the whole registry.
\<close>

section \<open>One model at a time\<close>

abbreviation modelAt :: "ModelRegistry \<Rightarrow> string \<Rightarrow> ModelRegistration option" where
  "modelAt r i \<equiv> map_of (mr_models r) i"

lemma atModel_fields [simp]:
  "mr_clientModels (atModel i f r) = mr_clientModels r"
  "mr_clientModelInfos (atModel i f r) = mr_clientModelInfos r"
  "mr_clientProviders (atModel i f r) = mr_clientProviders r"
  "mr_clientEpochs (atModel i f r) = mr_clientEpochs r"
  "mr_clientGenerations (atModel i f r) = mr_clientGenerations r"
  "mr_availableModelsCache (atModel i f r) = mr_availableModelsCache r"
  "mr_hook (atModel i f r) = mr_hook r"
  by (auto simp: atModel_def split: option.splits)

lemma modelAt_atModel [simp]: "modelAt (atModel i f r) j = (if j = i then f (modelAt r i) else modelAt r j)"
  by (auto simp: atModel_def split: option.splits)

lemma wf_atModel [simp]: "wf_map (mr_models r) \<Longrightarrow> wf_map (mr_models (atModel i f r))"
  by (auto simp: atModel_def split: option.splits)

text \<open>A stage changes the registrations only, so what it reads of the clients stays the same.\<close>

definition models_only :: "ModelRegistry \<Rightarrow> ModelRegistry \<Rightarrow> bool" where
  "models_only r0 r \<longleftrightarrow> r = r0\<lparr>mr_models := mr_models r\<rparr>"

lemma models_only_refl [simp, intro]: "models_only r r"
  by (simp add: models_only_def)

lemma models_only_trans: "models_only a b \<Longrightarrow> models_only b c \<Longrightarrow> models_only a c"
  unfolding models_only_def by (metis ModelRegistry.update_convs(1) ModelRegistry.surjective ModelRegistry.ext_inject)

lemma models_only_atModel [simp, intro]: "models_only r (atModel i f r)"
  by (auto simp: models_only_def atModel_def split: option.splits)

lemma models_onlyD:
  assumes "models_only r0 r"
  shows "mr_clientModels r = mr_clientModels r0" "mr_clientModelInfos r = mr_clientModelInfos r0"
    "mr_clientProviders r = mr_clientProviders r0" "mr_clientEpochs r = mr_clientEpochs r0"
    "mr_clientGenerations r = mr_clientGenerations r0" "mr_availableModelsCache r = mr_availableModelsCache r0"
    "mr_hook r = mr_hook r0" "mr_hookCalls r = mr_hookCalls r0" "mr_generation r = mr_generation r0"
    "mr_registrationEpoch r = mr_registrationEpoch r0"
  by (subst assms [unfolded models_only_def], simp)+

lemma web_search_frame: "models_only r0 r \<Longrightarrow> hasClientSupportingWebSearchLocked r = hasClientSupportingWebSearchLocked r0"
  by (intro ext) (simp add: hasClientSupportingWebSearchLocked_def models_onlyD)

text \<open>An operation that changes the registration of one model by a function of that registration.\<close>

definition acts :: "ModelRegistry \<Rightarrow> (ModelRegistry \<Rightarrow> ModelRegistry) \<Rightarrow> string \<Rightarrow>
    (ModelRegistration option \<Rightarrow> ModelRegistration option) \<Rightarrow> bool" where
  "acts r0 oper i g \<longleftrightarrow> (\<forall>r. models_only r0 r \<and> wf_map (mr_models r) \<longrightarrow>
     models_only r0 (oper r) \<and> wf_map (mr_models (oper r)) \<and>
     (\<forall>j. modelAt (oper r) j = (if j = i then g (modelAt r i) else modelAt r j)))"

lemma actsI:
  assumes "\<And>r. models_only r0 r \<Longrightarrow> wf_map (mr_models r) \<Longrightarrow> oper r = atModel i g r"
  shows "acts r0 oper i g"
  unfolding acts_def using assms by (auto intro: models_only_trans)

lemma acts_id: "acts r0 (\<lambda>r. r) i (\<lambda>x. x)"
  by (simp add: acts_def)

lemma acts_power: "acts r0 oper i g \<Longrightarrow> acts r0 (oper ^^ n) i (g ^^ n)"
proof (induction n)
  case 0
  show ?case by (simp add: acts_def)
next
  case (Suc n)
  then show ?case by (auto simp: acts_def)
qed

lemma acts_fold:
  assumes "\<And>i. i \<in> set is \<Longrightarrow> acts r0 (oper i) i (g i)" "models_only r0 r" "wf_map (mr_models r)"
  shows "models_only r0 (fold oper is r) \<and> wf_map (mr_models (fold oper is r)) \<and>
    (\<forall>j. modelAt (fold oper is r) j = (g j ^^ count_list is j) (modelAt r j))"
  using assms
proof (induction "is" arbitrary: r)
  case Nil
  then show ?case by simp
next
  case (Cons i "is")
  have i: "acts r0 (oper i) i (g i)" by (rule Cons.prems(1)) simp
  then have "models_only r0 (oper i r)" "wf_map (mr_models (oper i r))"
    "modelAt (oper i r) j = (if j = i then g i (modelAt r i) else modelAt r j)" for j
    using Cons.prems(2,3) by (auto simp: acts_def)
  with Cons.IH [of "oper i r"] Cons.prems(1) show ?case by (auto simp: funpow_swap1)
qed

lemma first_mentions_props [simp]:
  "distinct (first_mentions xs)" "set (first_mentions xs) = set xs" "first_mentions xs = [] \<longleftrightarrow> xs = []"
  by (simp_all add: first_mentions_def)

lemma count_first_mentions [simp]: "count_list (first_mentions xs) i = (if i \<in> set xs then 1 else 0)"
proof -
  have "distinct ys \<Longrightarrow> count_list ys i = (if i \<in> set ys then 1 else 0)" for ys
    by (induction ys) (auto simp: count_list_0_iff)
  from this [of "first_mentions xs"] show ?thesis by simp
qed

section \<open>The stages of a reconciliation\<close>

lemma acts_add:
  assumes "i \<noteq> ''''"
  shows "acts r0 (addModelRegistration i p m now c) i
    (addBinding p m now (hasClientSupportingWebSearchLocked r0 i '''' c) (hasClientSupportingWebSearchLocked r0 i p c))"
  by (rule actsI) (simp add: addModelRegistration_def assms web_search_frame)

lemma acts_remove:
  "acts r0 (removeModelRegistration c i p now keep) i
    (removeBinding c p now keep (hasClientSupportingWebSearchLocked r0 i '''' c) (hasClientSupportingWebSearchLocked r0 i p c))"
proof (rule actsI)
  fix r assume r: "models_only r0 r" "wf_map (mr_models r)"
  show "removeModelRegistration c i p now keep r = atModel i (removeBinding c p now keep
     (hasClientSupportingWebSearchLocked r0 i '''' c) (hasClientSupportingWebSearchLocked r0 i p c)) r"
  proof (cases "modelAt r i")
    case None
    then have "AList.delete i (mr_models r) = mr_models r"
      by (simp add: map_of_eq_None_iff)
    with None show ?thesis by (simp add: removeModelRegistration_def atModel_def removeBinding_def)
  next
    case (Some reg)
    then show ?thesis by (simp add: removeModelRegistration_def web_search_frame [OF r(1)])
  qed
qed

lemma funpow_0_1: "(f ^^ (if b then 1 else 0)) x = (if b then f x else x)"
  by simp

definition transferred :: "ModelRegistry \<Rightarrow> string \<Rightarrow> string \<Rightarrow> string \<Rightarrow> string list \<Rightarrow> string list \<Rightarrow> string \<Rightarrow>
    ModelRegistration option \<Rightarrow> ModelRegistration option" where
  "transferred r0 c p oldp old new i =
     (if oldp \<noteq> p \<and> oldp \<noteq> '''' \<and> i \<in> set old \<and> i \<in> set new
      then map_option (leaveProvider oldp (int (min (count_list old i) (count_list new i)))
                         (hasClientSupportingWebSearchLocked r0 i oldp c)) else id)"

definition removed_bindings :: "ModelRegistry \<Rightarrow> string \<Rightarrow> string \<Rightarrow> bool \<Rightarrow> nat \<Rightarrow> nat \<Rightarrow> time \<Rightarrow> string \<Rightarrow>
    ModelRegistration option \<Rightarrow> ModelRegistration option" where
  "removed_bindings r0 c oldp keep oldn newn now i =
     removeBinding c oldp now (keep \<and> newn \<noteq> 0) (hasClientSupportingWebSearchLocked r0 i '''' c)
       (hasClientSupportingWebSearchLocked r0 i oldp c) ^^ (oldn - newn)"

definition added_bindings :: "ModelRegistry \<Rightarrow> string \<Rightarrow> string \<Rightarrow> ModelInfo \<Rightarrow> nat \<Rightarrow> time \<Rightarrow> string \<Rightarrow>
    ModelRegistration option \<Rightarrow> ModelRegistration option" where
  "added_bindings r0 c p m n now i =
     addBinding p m now (hasClientSupportingWebSearchLocked r0 i '''' c) (hasClientSupportingWebSearchLocked r0 i p c) ^^ n"

definition refreshed :: "ModelRegistry \<Rightarrow> string \<Rightarrow> string \<Rightarrow> string \<Rightarrow> ModelInfo \<Rightarrow> bool \<Rightarrow> nat \<Rightarrow> nat \<Rightarrow> time \<Rightarrow> string \<Rightarrow>
    ModelRegistration option \<Rightarrow> ModelRegistration option" where
  "refreshed r0 c p oldp m keep oldn newn now i =
     (if newn = 0 then id else map_option (refreshBinding c p oldp m now keep oldn newn
        (hasClientSupportingWebSearchLocked r0 i '''' c) (hasClientSupportingWebSearchLocked r0 i p c)
        (hasClientSupportingWebSearchLocked r0 i oldp c)))"

text \<open>The effect of a reconciliation on the registration of one model.\<close>

definition reconciled :: "ModelRegistry \<Rightarrow> string \<Rightarrow> string \<Rightarrow> string \<Rightarrow> ModelInfo list \<Rightarrow> bool \<Rightarrow> string list \<Rightarrow> time \<Rightarrow>
    string \<Rightarrow> ModelRegistration option \<Rightarrow> ModelRegistration option" where
  "reconciled r0 c p oldp models keep old now i =
     (let new = rawModelIDs models; oldn = count_list old i; newn = count_list new i;
          m = the (map_of (newModels models) i)
      in refreshed r0 c p oldp m keep oldn newn now i \<circ>
         added_bindings r0 c p m (newn - oldn) now i \<circ>
         removed_bindings r0 c oldp (keep \<and> oldp = p) oldn newn now i \<circ>
         transferred r0 c p oldp old new i)"

lemma empty_not_raw [simp]: "'''' \<notin> set (rawModelIDs models)"
  by (simp add: rawModelIDs_def)

lemma reconcileClient_acts:
  fixes c :: string
  assumes "wf_map (mr_models r)"
  defines "oldp \<equiv> get_or '''' (mr_clientProviders r) c"
  shows "models_only r (reconcileClient c p models keep old now r) \<and> wf_map (mr_models (reconcileClient c p models keep old now r)) \<and>
    (\<forall>i. modelAt (reconcileClient c p models keep old now r) i = reconciled r c p oldp models keep old now i (modelAt r i))"
proof -
  define new where "new = rawModelIDs models"
  define r1 where "r1 = transferStage c p oldp old new r"
  define r2 where "r2 = removalStage c oldp old new now r1"
  define r3 where "r3 = overageStage c oldp old new (keep \<and> oldp = p) now r2"
  define r4 where "r4 = additionStage c p old new (newModels models) now r3"
  define r5 where "r5 = refreshStage c p oldp old new (newModels models) keep now r4"
  note ws = web_search_frame
  have 1: "models_only r r1 \<and> wf_map (mr_models r1) \<and> (\<forall>i. modelAt r1 i = transferred r c p oldp old new i (modelAt r i))"
  proof (cases "oldp \<noteq> p \<and> oldp \<noteq> ''''")
    case True
    let ?g = "\<lambda>i. if count_list old i = 0 then (\<lambda>x. x) else map_option (leaveProvider oldp (int (min (count_list old i) (count_list new i)))
                         (hasClientSupportingWebSearchLocked r i oldp c))"
    let ?op = "\<lambda>i r. if count_list old i = 0 then r
                       else atModel i (map_option (leaveProvider oldp (int (min (count_list old i) (count_list new i)))
                              (hasClientSupportingWebSearchLocked r i oldp c))) r"
    have "acts r (?op i) i (?g i)" for i
    proof (cases "count_list old i = 0")
      case True
      then show ?thesis using acts_id by simp
    next
      case False
      then show ?thesis by (intro actsI) (simp add: ws)
    qed
    from acts_fold [of "first_mentions new" r ?op ?g r, OF this models_only_refl assms(1)]
    show ?thesis using True by (auto simp: r1_def transferStage_def transferred_def count_list_0_iff)
  next
    case False
    with assms(1) show ?thesis by (auto simp: r1_def transferStage_def transferred_def)
  qed
  let ?rem = "\<lambda>keep i. removeBinding c oldp now keep (hasClientSupportingWebSearchLocked r i '''' c) (hasClientSupportingWebSearchLocked r i oldp c)"
  let ?g2 = "\<lambda>i. ?rem False i ^^ (if count_list new i = 0 then count_list old i else 0)"
  have "acts r (\<lambda>r. if count_list new i = 0 then (removeModelRegistration c i oldp now False ^^ count_list old i) r else r) i (?g2 i)" for i
    using acts_power [OF acts_remove [of r c i oldp now False], of "count_list old i"] acts_id by (auto simp: id_def)
  from acts_fold [of "first_mentions old" r _ ?g2 r1, OF this] 1
  have 2: "models_only r r2 \<and> wf_map (mr_models r2) \<and> (\<forall>i. modelAt r2 i = (if i \<in> set old then ?g2 i else id) (modelAt r1 i))"
    by (auto simp: r2_def removalStage_def)
  let ?g3 = "\<lambda>i. ?rem (keep \<and> oldp = p) i ^^ (if count_list new i = 0 then 0 else count_list old i - count_list new i)"
  have "acts r (\<lambda>r. if count_list new i = 0 \<or> count_list old i \<le> count_list new i then r
                 else (removeModelRegistration c i oldp now (keep \<and> oldp = p) ^^ (count_list old i - count_list new i)) r) i (?g3 i)" for i
  proof (cases "count_list new i = 0 \<or> count_list old i \<le> count_list new i")
    case True
    then have "?g3 i = (\<lambda>x. x)" by auto
    with True acts_id show ?thesis by simp
  next
    case False
    with acts_power [OF acts_remove [of r c i oldp now "keep \<and> oldp = p"], of "count_list old i - count_list new i"]
    show ?thesis by simp
  qed
  from acts_fold [of "first_mentions old" r _ ?g3 r2, OF this] 2
  have 3: "models_only r r3 \<and> wf_map (mr_models r3) \<and> (\<forall>i. modelAt r3 i = (if i \<in> set old then ?g3 i else id) (modelAt r2 i))"
    by (auto simp: r3_def overageStage_def)
  let ?m = "\<lambda>i. the (map_of (newModels models) i)"
  let ?g4 = "\<lambda>i. added_bindings r c p (?m i) (count_list new i - count_list old i) now i"
  have "acts r (addModelRegistration i p (?m i) now c ^^ (count_list new i - count_list old i)) i (?g4 i)"
    if "i \<in> set (first_mentions new)" for i
    unfolding added_bindings_def by (rule acts_power [OF acts_add]) (use that in \<open>auto simp: new_def\<close>)
  from acts_fold [of "first_mentions new" r _ ?g4 r3, OF this] 3
  have 4: "models_only r r4 \<and> wf_map (mr_models r4) \<and> (\<forall>i. modelAt r4 i = (if i \<in> set new then ?g4 i else id) (modelAt r3 i))"
    by (auto simp: r4_def additionStage_def)
  let ?g5 = "\<lambda>i. map_option (refreshBinding c p oldp (?m i) now keep (count_list old i) (count_list new i)
        (hasClientSupportingWebSearchLocked r i '''' c) (hasClientSupportingWebSearchLocked r i p c)
        (hasClientSupportingWebSearchLocked r i oldp c))"
  have "acts r (\<lambda>r. atModel i (map_option (refreshBinding c p oldp (?m i) now keep
                    (count_list old i) (count_list new i)
                    (hasClientSupportingWebSearchLocked r i '''' c)
                    (hasClientSupportingWebSearchLocked r i p c)
                    (hasClientSupportingWebSearchLocked r i oldp c))) r) i (?g5 i)" for i
    by (rule actsI) (simp add: ws)
  from acts_fold [of "first_mentions new" r _ ?g5 r4, OF this] 4
  have 5: "models_only r r5 \<and> wf_map (mr_models r5) \<and> (\<forall>i. modelAt r5 i = (if i \<in> set new then ?g5 i else id) (modelAt r4 i))"
    by (auto simp: r5_def refreshStage_def)
  have "modelAt r5 i = reconciled r c p oldp models keep old now i (modelAt r i)" for i
  proof -
    have n: "i \<in> set xs \<longleftrightarrow> count_list xs i \<noteq> 0" for xs by (simp add: count_list_0_iff)
    show ?thesis using 1 2 3 4 5
      by (simp add: reconciled_def Let_def refreshed_def removed_bindings_def new_def [symmetric] n added_bindings_def)
  qed
  with 5 show ?thesis by (simp add: reconcileClient_def Let_def r1_def r2_def r3_def r4_def r5_def new_def oldp_def)
qed

lemma freshClient_acts:
  fixes c p :: string and now :: time and models :: "ModelInfo list"
  assumes "wf_map (mr_models r)"
  defines "r' \<equiv> fold (\<lambda>i. addModelRegistration i p (the (map_of (newModels models) i)) now c) (rawModelIDs models) r"
  shows "models_only r r' \<and> wf_map (mr_models r') \<and>
    (\<forall>i. modelAt r' i = added_bindings r c p (the (map_of (newModels models) i)) (count_list (rawModelIDs models) i) now i (modelAt r i))"
  unfolding r'_def added_bindings_def
  by (rule acts_fold [OF acts_add models_only_refl assms(1)]) auto

definition dropped_bindings :: "ModelRegistry \<Rightarrow> string \<Rightarrow> string \<Rightarrow> nat \<Rightarrow> time \<Rightarrow> string \<Rightarrow>
    ModelRegistration option \<Rightarrow> ModelRegistration option" where
  "dropped_bindings r0 c p n now i = unregisterBinding c p now (hasClientSupportingWebSearchLocked r0 i '''' c)
     (hasClientSupportingWebSearchLocked r0 i p c) ^^ n"

lemma unregister_acts:
  fixes c p :: string and now :: time and ids :: "string list"
  assumes "wf_map (mr_models r)"
  defines "r' \<equiv> fold (\<lambda>i r. atModel i (unregisterBinding c p now (hasClientSupportingWebSearchLocked r i '''' c)
                                (hasClientSupportingWebSearchLocked r i p c)) r) ids r"
  shows "models_only r r' \<and> wf_map (mr_models r') \<and>
    (\<forall>i. modelAt r' i = dropped_bindings r c p (count_list ids i) now i (modelAt r i))"
  unfolding r'_def dropped_bindings_def
  by (rule acts_fold [OF _ models_only_refl assms(1)]) (auto intro!: actsI simp: web_search_frame)

section \<open>Counting bindings\<close>

text \<open>
  The bindings of a model are a multiset of providers, one element per client and mention of the model,
  the empty string for a client without a provider. A registration counts them.
\<close>

definition maps_ok :: "ModelRegistration \<Rightarrow> bool" where
  "maps_ok reg \<longleftrightarrow> wf_map (reg_Providers reg) \<and> wf_map (reg_InfoByProvider reg) \<and> wf_map (reg_QuotaExceededClients reg) \<and>
     wf_map (reg_SuspendedClients reg) \<and> (\<forall>(c, q) \<in> set (reg_QuotaExceededClients reg). 0 \<le> q)"

definition provider_counts :: "string multiset \<Rightarrow> string \<Rightarrow> int option" where
  "provider_counts B p = (if p = '''' \<or> p \<notin># B then None else Some (int (count B p)))"

definition counts :: "string multiset \<Rightarrow> ModelRegistration \<Rightarrow> bool" where
  "counts B reg \<longleftrightarrow> reg_Count reg = int (size B) \<and> maps_ok reg \<and>
     map_of (reg_Providers reg) = provider_counts B \<and> dom (map_of (reg_InfoByProvider reg)) = dom (provider_counts B)"

definition counts_opt :: "string multiset \<Rightarrow> ModelRegistration option \<Rightarrow> bool" where
  "counts_opt B existing \<longleftrightarrow> (case existing of None \<Rightarrow> B = {#} | Some reg \<Rightarrow> B \<noteq> {#} \<and> counts B reg)"

lemma provider_counts_add:
  "provider_counts (add_mset p B) = (if p = '''' then provider_counts B else (provider_counts B)(p \<mapsto> int (count B p) + 1))"
  by (auto simp: provider_counts_def fun_eq_iff)

lemma provider_counts_drop:
  assumes "p \<noteq> ''''"
  shows "p \<in># B \<Longrightarrow> (provider_counts B)(p \<mapsto> int (count B p)) = provider_counts B"
    "p \<notin># B \<Longrightarrow> (provider_counts B)(p := None) = provider_counts B"
  using assms by (auto simp: provider_counts_def fun_eq_iff)

lemma provider_counts_at:
  "p \<noteq> '''' \<Longrightarrow> get_or 0 reg p = int (count B p)" if "map_of reg = provider_counts B"
  using that by (simp add: get_or_def provider_counts_def not_in_iff)

lemma dom_provider_counts: "dom (provider_counts B) = {p. p \<noteq> '''' \<and> p \<in># B}"
  by (auto simp: provider_counts_def split: if_splits)

lemma counts_simps [simp]:
  "counts B (reg\<lparr>reg_Info := m\<rparr>) = counts B reg" "counts B (reg\<lparr>reg_LastUpdated := now\<rparr>) = counts B reg"
  by (simp_all add: counts_def maps_ok_def)

lemma in_delete: "x \<in> set (AList.delete k m) \<Longrightarrow> x \<in> set m"
  by (auto simp: AList.delete_eq)

lemma counts_forget [simp]: "counts B reg \<Longrightarrow> counts B (forgetClient c reg)"
  unfolding counts_def maps_ok_def forgetClient_def by (auto dest: in_delete)

lemma counts_webSearch [simp]: "counts B reg \<Longrightarrow> counts B (setProviderWebSearch p b reg)"
proof (cases "map_of (reg_InfoByProvider reg) p")
  case (Some info)
  assume "counts B reg"
  moreover have "insert p (dom (map_of (reg_InfoByProvider reg))) = dom (map_of (reg_InfoByProvider reg))" using Some by blast
  ultimately show ?thesis using Some by (simp add: setProviderWebSearch_def counts_def maps_ok_def)
qed (simp add: setProviderWebSearch_def)

lemma setProviderWebSearch_fields [simp]:
  "reg_Info (setProviderWebSearch p b reg) = reg_Info reg" "reg_Count (setProviderWebSearch p b reg) = reg_Count reg"
  "reg_LastUpdated (setProviderWebSearch p b reg) = reg_LastUpdated reg"
  "reg_QuotaExceededClients (setProviderWebSearch p b reg) = reg_QuotaExceededClients reg"
  "reg_Providers (setProviderWebSearch p b reg) = reg_Providers reg"
  "reg_SuspendedClients (setProviderWebSearch p b reg) = reg_SuspendedClients reg"
  "reg_InfoByProvider (setProviderWebSearch p b reg) = (case map_of (reg_InfoByProvider reg) p of
     None \<Rightarrow> reg_InfoByProvider reg | Some info \<Rightarrow> AList.update p (with_web_search b info) (reg_InfoByProvider reg))"
  by (auto simp: setProviderWebSearch_def split: option.splits)

lemma forgetClient_fields [simp]:
  "reg_Info (forgetClient c reg) = reg_Info reg" "reg_Count (forgetClient c reg) = reg_Count reg"
  "reg_LastUpdated (forgetClient c reg) = reg_LastUpdated reg"
  "reg_QuotaExceededClients (forgetClient c reg) = AList.delete c (reg_QuotaExceededClients reg)"
  "reg_Providers (forgetClient c reg) = reg_Providers reg"
  "reg_SuspendedClients (forgetClient c reg) = AList.delete c (reg_SuspendedClients reg)"
  "reg_InfoByProvider (forgetClient c reg) = reg_InfoByProvider reg"
  by (simp_all add: forgetClient_def)

lemma add_counts: "counts_opt B existing \<Longrightarrow> counts_opt (add_mset p B) (addBinding p m now a b existing)"
proof (cases existing)
  case None
  assume "counts_opt B existing"
  with None show ?thesis
    by (auto simp: counts_opt_def counts_def addBinding_def maps_ok_def provider_counts_def fun_eq_iff split: if_splits)
next
  case (Some reg)
  assume "counts_opt B existing"
  with Some have c: "counts B reg" by (simp add: counts_opt_def)
  then have "p \<noteq> '''' \<Longrightarrow> get_or 0 (reg_Providers reg) p = int (count B p)"
    by (intro provider_counts_at) (simp_all add: counts_def)
  with c Some show ?thesis
    by (auto simp: counts_opt_def counts_def addBinding_def maps_ok_def Let_def provider_counts_add)
qed

lemma drop_counts:
  assumes "counts (add_mset p B) reg" "p \<noteq> ''''"
  shows "counts B ((dropProvider p reg)\<lparr>reg_Count := int (size B)\<rparr>)"
proof -
  have p: "map_of (reg_Providers reg) = (provider_counts B)(p \<mapsto> int (count B p) + 1)" "maps_ok reg"
    "dom (map_of (reg_InfoByProvider reg)) = insert p (dom (provider_counts B))"
    using assms by (simp_all add: counts_def provider_counts_add)
  show ?thesis
  proof (cases "p \<in># B")
    case True
    then obtain k where "count B p = Suc k" by (metis count_eq_zero_iff not0_implies_Suc)
    moreover have "p \<in> dom (provider_counts B)" using True assms(2) by (simp add: dom_provider_counts)
    ultimately show ?thesis using p provider_counts_drop(1) [OF assms(2) True]
      by (simp add: dropProvider_def counts_def maps_ok_def insert_absorb)
  next
    case False
    then have "p \<notin> dom (provider_counts B)" "count B p = 0" by (simp_all add: dom_provider_counts not_in_iff)
    with p provider_counts_drop(2) [OF assms(2) False] show ?thesis
      by (auto simp: dropProvider_def counts_def maps_ok_def dest: in_delete)
  qed
qed

lemma remove_counts:
  assumes "counts_opt (add_mset p B) existing"
  shows "counts_opt B (removeBinding c p now keep a b existing)"
    "counts_opt B (unregisterBinding c p now a b existing)"
proof -
  obtain reg where reg: "existing = Some reg" "counts (add_mset p B) reg"
    using assms by (auto simp: counts_opt_def split: option.splits)
  have n: "reg_Count reg = int (size B) + 1" using reg(2) by (simp add: counts_def)
  have count_id: "x\<lparr>reg_Count := reg_Count x\<rparr> = x" for x :: ModelRegistration by simp
  have drop: "dropProvider p (x\<lparr>reg_Count := k\<rparr>) = (dropProvider p x)\<lparr>reg_Count := k\<rparr>" for x k
    by (auto simp: dropProvider_def split: option.splits)
  have base: "counts B (if p = '''' then x\<lparr>reg_Count := int (size B)\<rparr> else dropProvider p (x\<lparr>reg_Count := int (size B)\<rparr>))"
    if x: "counts (add_mset p B) x" for x
  proof (cases "p = ''''")
    case True
    with x show ?thesis by (simp add: counts_def maps_ok_def provider_counts_add)
  next
    case False
    with drop_counts [OF x] show ?thesis by (simp add: drop)
  qed
  define x where "x = reg\<lparr>reg_LastUpdated := now\<rparr>"
  have x: "counts (add_mset p B) x" "counts (add_mset p B) (forgetClient c x)" using reg(2) by (simp_all add: x_def)
  have eqs: "reg\<lparr>reg_Count := int (size B), reg_LastUpdated := now\<rparr> = x\<lparr>reg_Count := int (size B)\<rparr>"
    "forgetClient c (x\<lparr>reg_Count := int (size B)\<rparr>) = (forgetClient c x)\<lparr>reg_Count := int (size B)\<rparr>"
    by (simp_all add: x_def forgetClient_def)
  have size: "reg_Count (dropProvider p y) = reg_Count y" "reg_Count (forgetClient c y) = reg_Count y" for y
    by (auto simp: dropProvider_def forgetClient_def split: option.splits)
  have "counts_opt B (removeBinding c p now keep a b (Some reg))"
    using base [OF x(1)] base [OF x(2)]
    by (auto simp: removeBinding_def counts_opt_def Let_def n eqs size counts_webSearch)
  moreover have "counts_opt B (unregisterBinding c p now a b (Some reg))"
    using base [OF x(2)] by (auto simp: unregisterBinding_def counts_opt_def Let_def n eqs size counts_webSearch)
  ultimately show "counts_opt B (removeBinding c p now keep a b existing)" "counts_opt B (unregisterBinding c p now a b existing)"
    using reg(1) by simp_all
qed

lemma replicate_mset_add: "replicate_mset (m + n) x = replicate_mset m x + replicate_mset n x"
  by (induction m) simp_all

lemma add_counts_power: "counts_opt B existing \<Longrightarrow> counts_opt (B + replicate_mset n p) ((addBinding p m now a b ^^ n) existing)"
proof (induction n)
  case (Suc n)
  then show ?case using add_counts [of "B + replicate_mset n p" _ p m now a b] by simp
qed simp

lemma remove_counts_power:
  "counts_opt (B + replicate_mset n p) existing \<Longrightarrow> counts_opt B ((removeBinding c p now keep a b ^^ n) existing)"
  "counts_opt (B + replicate_mset n p) existing \<Longrightarrow> counts_opt B ((unregisterBinding c p now a b ^^ n) existing)"
proof (induction n arbitrary: B)
  case (Suc n)
  { case 1
    with Suc.IH(1) [of "add_mset p B"] show ?case by (simp add: remove_counts(1))
  next
    case 2
    with Suc.IH(2) [of "add_mset p B"] show ?case by (simp add: remove_counts(2)) }
qed simp_all

lemma leave_counts:
  assumes "counts_opt (B + replicate_mset k p) existing" "p \<noteq> ''''"
  shows "counts_opt (B + replicate_mset k '''') (map_option (leaveProvider p (int k) b) existing)"
proof (cases existing)
  case None
  with assms(1) show ?thesis by (simp add: counts_opt_def)
next
  case (Some reg)
  let ?B = "B + replicate_mset k p" and ?C = "B + replicate_mset k ''''"
  have c: "counts ?B reg" "?B \<noteq> {#}" using assms(1) Some by (simp_all add: counts_opt_def)
  then have C: "?C \<noteq> {#}" by simp
  have other: "provider_counts ?C q = provider_counts ?B q" if "q \<noteq> p" for q
    using that by (auto simp: provider_counts_def)
  have eq: "provider_counts ?C = (provider_counts ?B)(p := if p \<in># B then Some (int (count B p)) else None)"
  proof (rule ext)
    fix q
    show "provider_counts ?C q = ((provider_counts ?B)(p := if p \<in># B then Some (int (count B p)) else None)) q"
      by (cases "q = p") (use other assms(2) in \<open>simp_all add: provider_counts_def\<close>)
  qed
  have at_p: "map_of (reg_Providers reg) p = (if p \<in># ?B then Some (int (count B p) + int k) else None)"
    using c(1) assms(2) by (auto simp: counts_def provider_counts_def)
  have "counts ?C (leaveProvider p (int k) b reg)"
  proof (cases "p \<in># B")
    case True
    then obtain n where n: "count B p = Suc n" by (metis count_eq_zero_iff not0_implies_Suc)
    have "p \<in> dom (provider_counts ?B)" using True assms(2) by (auto simp: dom_provider_counts)
    then have "dom (provider_counts ?C) = dom (provider_counts ?B)" using eq True by auto
    with c(1) have "counts ?C (reg\<lparr>reg_Providers := AList.update p (int (count B p)) (reg_Providers reg)\<rparr>)"
      using True by (simp add: counts_def maps_ok_def eq)
    with at_p n True show ?thesis by (simp add: leaveProvider_def)
  next
    case False
    show ?thesis
    proof (cases "k = 0")
      case True
      with at_p False c(1) show ?thesis by (simp add: leaveProvider_def)
    next
      case False': False
      have "dom (provider_counts ?C) = dom (provider_counts ?B) - {p}" using eq False by auto
      with c(1) False False' at_p show ?thesis
        by (auto simp: leaveProvider_def counts_def maps_ok_def eq not_in_iff dest: in_delete)
    qed
  qed
  with C Some show ?thesis by (simp add: counts_opt_def)
qed

lemma refresh_counts:
  assumes "counts_opt B existing" "p = '''' \<or> p \<in># D"
    and "B = (if oldp \<noteq> p \<and> p \<noteq> '''' then C + replicate_mset (min oldn newn) '''' else D)"
    and "oldp \<noteq> p \<and> p \<noteq> '''' \<Longrightarrow> D = C + replicate_mset (min oldn newn) p"
  shows "counts_opt D (map_option (refreshBinding c p oldp m now keep oldn newn a b d) existing)"
proof (cases existing)
  case None
  with assms show ?thesis by (auto simp: counts_opt_def split: if_splits)
next
  case (Some reg)
  have cB: "counts B reg" "B \<noteq> {#}" using assms(1) Some by (simp_all add: counts_opt_def)
  let ?k = "min oldn newn"
  have D: "D \<noteq> {#}" using assms(3,4) cB(2) by (auto split: if_splits)
  have size: "size D = size B" using assms(3,4) by (auto split: if_splits)
  define ps where "ps = (if oldp \<noteq> p \<and> p \<noteq> '''' \<and> ?k > 0
     then AList.update p (get_or 0 (reg_Providers reg) p + int ?k) (reg_Providers reg) else reg_Providers reg)"
  define infos where "infos = (if p = '''' then reg_InfoByProvider reg
     else AList.update p (with_web_search (mi_SupportsWebSearch m \<or> b) m) (reg_InfoByProvider reg))"
  have ps: "map_of ps = provider_counts D"
  proof (cases "oldp \<noteq> p \<and> p \<noteq> '''' \<and> ?k > 0")
    case True
    then have B: "B = C + replicate_mset ?k ''''" "D = C + replicate_mset ?k p" using assms(3,4) by auto
    have "get_or 0 (reg_Providers reg) p = int (count B p)"
      using cB(1) True by (intro provider_counts_at) (simp_all add: counts_def)
    with True B cB(1) show ?thesis
      by (auto simp: ps_def counts_def provider_counts_def fun_eq_iff not_in_iff)
  next
    case False
    have "D = B" using assms(3,4) False by (cases "oldp \<noteq> p \<and> p \<noteq> ''''") auto
    with False cB(1) show ?thesis by (auto simp: ps_def counts_def)
  qed
  have infos: "dom (map_of infos) = dom (provider_counts D)"
  proof -
    have "dom (map_of (reg_InfoByProvider reg)) = {q. q \<noteq> '''' \<and> q \<in># B}"
      using cB(1) by (simp add: counts_def dom_provider_counts)
    moreover have "{q. q \<noteq> '''' \<and> q \<in># D} = (if p = '''' then {} else {p}) \<union> {q. q \<noteq> '''' \<and> q \<in># B}"
      using assms(2,3,4) by (auto split: if_splits)
    ultimately show ?thesis by (simp add: infos_def dom_provider_counts)
  qed
  define reg1 where "reg1 = reg\<lparr>reg_Providers := ps, reg_InfoByProvider := infos\<rparr>"
  have c1: "counts D reg1"
    using ps infos cB(1) size by (auto simp: reg1_def counts_def maps_ok_def ps_def infos_def)
  let ?r = "refreshBinding c p oldp m now keep oldn newn a b d reg"
  define f where "f = (\<lambda>x. if \<not> keep \<or> oldp \<noteq> p \<or> oldn = 0 then forgetClient c x else x)"
  define g where "g = (\<lambda>x. if oldp \<noteq> p \<and> oldp \<noteq> '''' then setProviderWebSearch oldp d x else x)"

  have "?r = f ((g (reg1\<lparr>reg_Info := with_web_search (mi_SupportsWebSearch m \<or> a) m\<rparr>))\<lparr>reg_LastUpdated := now\<rparr>)"
    by (rule ModelRegistration.equality)
      (simp_all add: refreshBinding_def f_def g_def reg1_def ps_def infos_def Let_def cong: option.case_cong)
  moreover have "counts D (f ((g (reg1\<lparr>reg_Info := with_web_search (mi_SupportsWebSearch m \<or> a) m\<rparr>))\<lparr>reg_LastUpdated := now\<rparr>))"
    using c1 by (simp add: f_def g_def)
  ultimately show ?thesis using D Some by (simp add: counts_opt_def)
qed

text \<open>A reconciliation moves the client's bindings from the old models and provider to the new ones.\<close>

lemma reconciled_counts:
  assumes "counts_opt (C + replicate_mset (count_list old i) oldp) existing"
  shows "counts_opt (C + replicate_mset (count_list (rawModelIDs models) i) p) (reconciled r c p oldp models keep old now i existing)"
proof -
  define oldn where "oldn = count_list old i"
  define newn where "newn = count_list (rawModelIDs models) i"
  define k where "k = min oldn newn"
  define moved where "moved \<longleftrightarrow> oldp \<noteq> p"
  define hole where "hole = (if moved then '''' else p)"
  let ?m = "the (map_of (newModels models) i)"
  have mem: "i \<in> set old \<longleftrightarrow> oldn \<noteq> 0" "i \<in> set (rawModelIDs models) \<longleftrightarrow> newn \<noteq> 0"
    by (simp_all add: oldn_def newn_def count_list_0_iff)
  have rep: "replicate_mset oldn oldp = replicate_mset (oldn - newn) oldp + replicate_mset k oldp"
  proof -
    have "oldn = oldn - newn + k" by (simp add: k_def min_def)
    then show ?thesis by (metis replicate_mset_add)
  qed
  have 1: "counts_opt (C + replicate_mset k hole + replicate_mset (oldn - newn) oldp) (transferred r c p oldp old (rawModelIDs models) i existing)"
  proof (cases "moved \<and> oldp \<noteq> '''' \<and> k \<noteq> 0")
    case True
    have "counts_opt (C + replicate_mset (oldn - newn) oldp + replicate_mset k oldp) existing"
      using assms rep by (simp add: oldn_def add.assoc)
    from leave_counts [OF this, of "hasClientSupportingWebSearchLocked r i oldp c"] True
    show ?thesis by (simp add: transferred_def mem moved_def hole_def k_def oldn_def newn_def add_ac)
  next
    case False
    then have "k = 0 \<or> hole = oldp" by (auto simp: hole_def moved_def)
    then have "replicate_mset k hole = replicate_mset k oldp" by auto
    moreover have "transferred r c p oldp old (rawModelIDs models) i existing = existing"
    proof (cases "oldp \<noteq> p \<and> oldp \<noteq> ''''")
      case True
      with False have "k = 0" by (simp add: moved_def)
      then show ?thesis by (auto simp: transferred_def mem k_def)
    qed (auto simp: transferred_def)
    ultimately show ?thesis using assms rep by (simp add: oldn_def add_ac)
  qed
  have 2: "counts_opt (C + replicate_mset k hole)
      ((removed_bindings r c oldp (keep \<and> oldp = p) oldn newn now i \<circ> transferred r c p oldp old (rawModelIDs models) i) existing)"
    unfolding removed_bindings_def comp_def by (rule remove_counts_power(1) [OF 1])
  have 3: "counts_opt (C + replicate_mset k hole + replicate_mset (newn - oldn) p)
      ((added_bindings r c p ?m (newn - oldn) now i \<circ> (removed_bindings r c oldp (keep \<and> oldp = p) oldn newn now i \<circ>
         transferred r c p oldp old (rawModelIDs models) i)) existing)"
    unfolding added_bindings_def comp_apply [of "_ ^^ _"] by (rule add_counts_power [OF 2])
  have fin: "replicate_mset k p + replicate_mset (newn - oldn) p = replicate_mset newn p"
  proof -
    have "newn = k + (newn - oldn)" by (simp add: k_def min_def)
    then show ?thesis by (metis replicate_mset_add)
  qed
  show ?thesis
  proof (cases "newn = 0")
    case True
    with 3 show ?thesis by (simp add: reconciled_def Let_def refreshed_def oldn_def newn_def k_def o_assoc)
  next
    case False
    let ?C' = "C + replicate_mset (newn - oldn) p"
    have D: "C + replicate_mset newn p = ?C' + replicate_mset k p" using fin by (simp add: add_ac)
    have B: "C + replicate_mset k hole + replicate_mset (newn - oldn) p =
       (if oldp \<noteq> p \<and> p \<noteq> '''' then ?C' + replicate_mset k '''' else C + replicate_mset newn p)"
      using fin by (auto simp: hole_def moved_def add_ac)
    have pin: "p = '''' \<or> p \<in># C + replicate_mset newn p" using False by simp
    have "counts_opt (C + replicate_mset newn p) (map_option (refreshBinding c p oldp ?m now keep oldn newn a b d)
      ((added_bindings r c p ?m (newn - oldn) now i \<circ> (removed_bindings r c oldp (keep \<and> oldp = p) oldn newn now i \<circ>
         transferred r c p oldp old (rawModelIDs models) i)) existing))" for a b d
      by (rule refresh_counts [OF 3 pin, where C = ?C']) (unfold k_def [symmetric], rule B, rule D)
    with False show ?thesis by (simp add: reconciled_def Let_def refreshed_def oldn_def newn_def k_def o_assoc)
  qed
qed

section \<open>Web search flags\<close>

text \<open>
  A registration says of a model, and of a provider of it, whether some client behind it supports web
  search. Flags of providers in \<open>S\<close> may be out of date.
\<close>

definition flagged_but :: "string set \<Rightarrow> (string \<Rightarrow> bool) \<Rightarrow> ModelRegistration option \<Rightarrow> bool" where
  "flagged_but S f existing \<longleftrightarrow> (\<forall>reg q info. existing = Some reg \<and> q \<noteq> '''' \<and> q \<notin> S \<and>
     map_of (reg_InfoByProvider reg) q = Some info \<longrightarrow> mi_SupportsWebSearch info = f q)"

definition flagged :: "bool \<Rightarrow> (string \<Rightarrow> bool) \<Rightarrow> ModelRegistration option \<Rightarrow> bool" where
  "flagged a f existing \<longleftrightarrow> flagged_but {} f existing \<and> (\<forall>reg. existing = Some reg \<longrightarrow> mi_SupportsWebSearch (reg_Info reg) = a)"

lemma flagged_but_mono: "flagged_but S f x \<Longrightarrow> S \<subseteq> T \<Longrightarrow> (\<And>q. q \<noteq> '''' \<Longrightarrow> q \<notin> T \<Longrightarrow> f q = g q) \<Longrightarrow> flagged_but T g x"
  unfolding flagged_but_def by (metis subsetD)

lemma flagged_cong: "flagged a f x \<Longrightarrow> a = b \<Longrightarrow> (\<And>q. q \<noteq> '''' \<Longrightarrow> f q = g q) \<Longrightarrow> flagged b g x"
  unfolding flagged_def flagged_but_def by blast

lemma flagged_imp_but: "flagged a f x \<Longrightarrow> flagged_but {} f x"
  by (simp add: flagged_def)

lemma web_search_of_with [simp]: "mi_SupportsWebSearch (with_web_search b m) = b"
  by (simp add: with_web_search_def)

lemma dropProvider_other:
  "map_of (reg_InfoByProvider (dropProvider p reg)) q = Some info \<Longrightarrow> map_of (reg_InfoByProvider reg) q = Some info"
  by (auto simp: dropProvider_def split: option.splits if_splits)

lemma dropProvider_Info [simp]: "reg_Info (dropProvider p reg) = reg_Info reg" "reg_Count (dropProvider p reg) = reg_Count reg"
  by (auto simp: dropProvider_def split: option.splits if_splits)

lemma remove_flags:
  assumes "flagged_but S f existing" "p \<in> S"
  shows "flagged_but S f (removeBinding c p now keep a b existing)" "flagged_but S f (unregisterBinding c p now a b existing)"
    "S = {p} \<Longrightarrow> f p = b \<Longrightarrow> flagged a f (removeBinding c p now keep a b existing)"
    "S = {p} \<Longrightarrow> f p = b \<Longrightarrow> flagged a f (unregisterBinding c p now a b existing)"
proof -
  define fin where "fin x = (let y = (if p = [] then x else dropProvider p x)\<lparr>reg_Info := with_web_search a (reg_Info x)\<rparr>
      in if p = [] then y else setProviderWebSearch p b y)" for x
  have base: "flagged_but S f (Some (fin x)) \<and> (S = {p} \<longrightarrow> f p = b \<longrightarrow> flagged a f (Some (fin x)))"
    if x: "existing = Some reg" "reg_InfoByProvider x = reg_InfoByProvider reg" for reg x
  proof -
    define y where "y = (if p = [] then x else dropProvider p x)\<lparr>reg_Info := with_web_search a (reg_Info x)\<rparr>"
    have old: "mi_SupportsWebSearch info = f q" if "q \<noteq> []" "q \<notin> S" "map_of (reg_InfoByProvider y) q = Some info" for q info
      using that assms(1) x dropProvider_other [of p x q info] by (auto simp: y_def flagged_but_def split: if_splits)
    show ?thesis
    proof (cases "p = []")
      case True
      then have "fin x = y" by (simp add: fin_def y_def)
      with old True show ?thesis by (auto simp: flagged_def flagged_but_def y_def)
    next
      case False
      then have fin: "fin x = setProviderWebSearch p b y" by (simp add: fin_def y_def)
      have info: "reg_Info y = with_web_search a (reg_Info x)" by (simp add: y_def)
      have "mi_SupportsWebSearch info = f q" if "q \<noteq> []" "q \<notin> S - {p} \<or> q \<notin> S" "f p = b \<or> p \<noteq> q"
          "map_of (reg_InfoByProvider (setProviderWebSearch p b y)) q = Some info" for q info
        using that old [of q info] by (cases "q = p") (auto split: option.splits)
      with info assms(2) show ?thesis unfolding fin flagged_def flagged_but_def by auto
    qed
  qed
  have 1: "flagged_but S f (removeBinding c p now keep a b existing) \<and>
     (S = {p} \<longrightarrow> f p = b \<longrightarrow> flagged a f (removeBinding c p now keep a b existing))"
  proof (cases "removeBinding c p now keep a b existing")
    case None
    then show ?thesis by (simp add: flagged_def flagged_but_def)
  next
    case (Some out)
    then obtain reg where reg: "existing = Some reg" by (cases existing) (simp_all add: removeBinding_def)
    define x0 where "x0 = (let x = reg\<lparr>reg_Count := reg_Count reg - 1, reg_LastUpdated := now\<rparr>;
       x = (if keep then x else forgetClient c x) in if reg_Count x < 0 then x\<lparr>reg_Count := 0\<rparr> else x)"
    have "out = fin x0" "reg_InfoByProvider x0 = reg_InfoByProvider reg"
      using Some by (auto simp: reg removeBinding_def x0_def fin_def Let_def split: if_splits)
    with base [OF reg] Some show ?thesis by simp
  qed
  have 2: "flagged_but S f (unregisterBinding c p now a b existing) \<and>
     (S = {p} \<longrightarrow> f p = b \<longrightarrow> flagged a f (unregisterBinding c p now a b existing))"
  proof (cases "unregisterBinding c p now a b existing")
    case None
    then show ?thesis by (simp add: flagged_def flagged_but_def)
  next
    case (Some out)
    then obtain reg where reg: "existing = Some reg" by (cases existing) (simp_all add: unregisterBinding_def)
    define x0 where "x0 = forgetClient c (reg\<lparr>reg_Count := reg_Count reg - 1, reg_LastUpdated := now\<rparr>)"
    have "out = fin x0" "reg_InfoByProvider x0 = reg_InfoByProvider reg"
      using Some by (auto simp: reg unregisterBinding_def x0_def fin_def Let_def split: if_splits)
    with base [OF reg] Some show ?thesis by simp
  qed
  from 1 2 show "flagged_but S f (removeBinding c p now keep a b existing)" "flagged_but S f (unregisterBinding c p now a b existing)"
    "S = {p} \<Longrightarrow> f p = b \<Longrightarrow> flagged a f (removeBinding c p now keep a b existing)"
    "S = {p} \<Longrightarrow> f p = b \<Longrightarrow> flagged a f (unregisterBinding c p now a b existing)" by blast+
qed

lemma add_flags:
  assumes "flagged_but S f existing" "p \<in> S"
  shows "flagged_but S f (addBinding p m now a b existing)"
    "S = {p} \<Longrightarrow> f p = (mi_SupportsWebSearch m \<or> b) \<Longrightarrow> existing \<noteq> None \<or> \<not> a \<and> \<not> b \<Longrightarrow>
       flagged (mi_SupportsWebSearch m \<or> a) f (addBinding p m now a b existing)"
proof -
  show "flagged_but S f (addBinding p m now a b existing)"
    using assms by (cases existing) (auto simp: addBinding_def flagged_but_def Let_def split: if_splits)
  assume S: "S = {p}" "f p = (mi_SupportsWebSearch m \<or> b)" "existing \<noteq> None \<or> \<not> a \<and> \<not> b"
  show "flagged (mi_SupportsWebSearch m \<or> a) f (addBinding p m now a b existing)"
  proof (cases existing)
    case None
    with S show ?thesis by (auto simp: addBinding_def flagged_def flagged_but_def)
  next
    case (Some reg)
    with S(1,2) assms(1) show ?thesis
      by (auto simp: addBinding_def flagged_def flagged_but_def Let_def split: if_splits)
  qed
qed

lemma leave_flags:
  assumes "flagged_but S f existing" "p \<in> S"
  shows "flagged_but S f (map_option (leaveProvider p k b) existing)"
  using assms by (auto simp: leaveProvider_def flagged_but_def split: option.splits if_splits)

lemma refresh_flags:
  assumes "flagged_but {p, oldp} f existing" "f p = (mi_SupportsWebSearch m \<or> b)" "oldp \<noteq> p \<Longrightarrow> f oldp = d"
  shows "flagged (mi_SupportsWebSearch m \<or> a) f (map_option (refreshBinding c p oldp m now keep oldn newn a b d) existing)"
proof (cases existing)
  case None
  then show ?thesis by (simp add: flagged_def flagged_but_def)
next
  case (Some reg)
  let ?r = "refreshBinding c p oldp m now keep oldn newn a b d reg"
  define infos where "infos = (if p = '''' then reg_InfoByProvider reg
     else AList.update p (with_web_search (mi_SupportsWebSearch m \<or> b) m) (reg_InfoByProvider reg))"
  have r: "reg_Info ?r = with_web_search (mi_SupportsWebSearch m \<or> a) m"
    "reg_InfoByProvider ?r = (if oldp \<noteq> p \<and> oldp \<noteq> '''' then (case map_of infos oldp of
       None \<Rightarrow> infos | Some info \<Rightarrow> AList.update oldp (with_web_search d info) infos) else infos)"
    by (simp_all add: refreshBinding_def Let_def infos_def cong: option.case_cong)
  have old: "mi_SupportsWebSearch info = f q" if "q \<noteq> ''''" "q \<noteq> oldp \<or> oldp = p" "map_of infos q = Some info" for q info
    using that assms(1,2) Some by (auto simp: infos_def flagged_but_def split: if_splits)
  have "mi_SupportsWebSearch info = f q" if q: "q \<noteq> ''''" "map_of (reg_InfoByProvider ?r) q = Some info" for q info
  proof (cases "oldp \<noteq> p \<and> q = oldp")
    case True
    with q r(2) assms(3) show ?thesis by (auto split: option.splits)
  next
    case False
    with q r(2) old [of q info] show ?thesis by (auto split: option.splits if_splits)
  qed
  with Some r(1) show ?thesis by (simp add: flagged_def flagged_but_def)
qed

lemma add_flags_power: "flagged_but S f existing \<Longrightarrow> p \<in> S \<Longrightarrow> flagged_but S f ((addBinding p m now a b ^^ n) existing)"
  by (induction n) (simp_all add: add_flags(1))

lemma remove_flags_power:
  "flagged_but S f existing \<Longrightarrow> p \<in> S \<Longrightarrow> flagged_but S f ((removeBinding c p now keep a b ^^ n) existing)"
  "flagged_but S f existing \<Longrightarrow> p \<in> S \<Longrightarrow> flagged_but S f ((unregisterBinding c p now a b ^^ n) existing)"
  by (induction n) (simp_all add: remove_flags(1,2))

lemma remove_flags_last:
  assumes "flagged_but {p} f existing" "f p = b" "n \<noteq> 0"
  shows "flagged a f ((removeBinding c p now keep a b ^^ n) existing)" "flagged a f ((unregisterBinding c p now a b ^^ n) existing)"
proof -
  obtain k where n: "n = Suc k" using assms(3) not0_implies_Suc by blast
  show "flagged a f ((removeBinding c p now keep a b ^^ n) existing)"
    using remove_flags(3) [OF remove_flags_power(1) [OF assms(1)] _ refl assms(2)] n by simp
  show "flagged a f ((unregisterBinding c p now a b ^^ n) existing)"
    using remove_flags(4) [OF remove_flags_power(2) [OF assms(1)] _ refl assms(2)] n by simp
qed

lemma add_flags_last:
  assumes "flagged_but {p} f existing" "f p = (mi_SupportsWebSearch m \<or> b)" "n \<noteq> 0" "existing \<noteq> None \<or> \<not> a \<and> \<not> b"
  shows "flagged (mi_SupportsWebSearch m \<or> a) f ((addBinding p m now a b ^^ n) existing)"
proof -
  obtain k where n: "n = Suc k" using assms(3) not0_implies_Suc by blast
  have "(addBinding p m now a b ^^ k) existing \<noteq> None \<or> \<not> a \<and> \<not> b" using assms(4) by (cases k) (auto simp: addBinding_def)
  with add_flags(2) [OF add_flags_power [OF assms(1)] _ refl assms(2)] n show ?thesis by simp
qed

text \<open>After a reconciliation the flags say what the other clients and the new models say.\<close>

lemma reconciled_flags:
  fixes r :: ModelRegistry and c :: string and i :: string
  defines "web \<equiv> \<lambda>q. hasClientSupportingWebSearchLocked r i q c"
  defines "new \<equiv> \<lambda>models. i \<in> set (rawModelIDs models) \<and> mi_SupportsWebSearch (the (map_of (newModels models) i))"
  assumes "flagged_but {oldp} web existing" "i \<in> set old \<or> i \<in> set (rawModelIDs models)"
  shows "flagged (web '''' \<or> new models) (\<lambda>q. web q \<or> q = p \<and> new models) (reconciled r c p oldp models keep old now i existing)"
proof -
  let ?m = "the (map_of (newModels models) i)" and ?newn = "count_list (rawModelIDs models) i" and ?oldn = "count_list old i"
  have w: "hasClientSupportingWebSearchLocked r i q c = web q" for q by (simp add: web_def)
  have 1: "flagged_but {oldp} web (transferred r c p oldp old (rawModelIDs models) i existing)"
    using leave_flags [OF assms(3)] assms(3) by (simp add: transferred_def)
  show ?thesis
  proof (cases "i \<in> set (rawModelIDs models)")
    case False
    then have z: "?newn = 0" "?oldn \<noteq> 0" using assms(4) by (auto simp: count_list_0_iff)
    have "flagged (web '''') web (removed_bindings r c oldp (keep \<and> oldp = p) ?oldn ?newn now i
        (transferred r c p oldp old (rawModelIDs models) i existing))"
      unfolding removed_bindings_def w by (rule remove_flags_last(1) [OF 1 refl]) (use z in simp)
    with False z show ?thesis
      by (simp add: reconciled_def Let_def refreshed_def added_bindings_def new_def)
  next
    case True
    then have z: "?newn \<noteq> 0" by (simp add: count_list_0_iff)
    define f where "f = (\<lambda>q. web q \<or> q = p \<and> mi_SupportsWebSearch ?m)"
    have "flagged_but {p, oldp} f (transferred r c p oldp old (rawModelIDs models) i existing)"
      by (rule flagged_but_mono [OF 1]) (auto simp: f_def)
    then have "flagged_but {p, oldp} f ((added_bindings r c p ?m (?newn - ?oldn) now i \<circ>
         removed_bindings r c oldp (keep \<and> oldp = p) ?oldn ?newn now i \<circ>
         transferred r c p oldp old (rawModelIDs models) i) existing)"
      unfolding added_bindings_def removed_bindings_def comp_apply
      by (intro add_flags_power remove_flags_power(1)) simp_all
    from refresh_flags [OF this, of ?m "web p" "web oldp" "web ''''" c now keep ?oldn ?newn] z True
    show ?thesis by (auto simp: reconciled_def Let_def refreshed_def new_def f_def web_def o_assoc disj_commute)
  qed
qed

section \<open>The invariant\<close>

definition bindings_of :: "(string \<times> string list) list \<Rightarrow> (string \<Rightarrow> string) \<Rightarrow> string \<Rightarrow> string multiset" where
  "bindings_of clients prov i = (\<Sum>(c, ids) \<leftarrow> clients. replicate_mset (count_list ids i) (prov c))"

text \<open>The bindings of a model: the provider of each client, as often as the client mentions the model.\<close>

definition bindings :: "ModelRegistry \<Rightarrow> string \<Rightarrow> string multiset" where
  "bindings r i = bindings_of (mr_clientModels r) (get_or '''' (mr_clientProviders r)) i"

lemma bindings_of_delete:
  assumes "wf_map cl" "map_of cl c = Some ids"
  shows "bindings_of cl prov i = bindings_of (AList.delete c cl) prov i + replicate_mset (count_list ids i) (prov c)"
  using assms
proof (induction cl)
  case Nil
  then show ?case by simp
next
  case (Cons x cl)
  obtain d js where x: "x = (d, js)" by (rule prod.exhaust)
  show ?case
  proof (cases "d = c")
    case True
    then have "AList.delete c cl = cl" using Cons.prems(1) x by (auto simp: delete_notin_dom)
    with True x Cons.prems show ?thesis by (simp add: bindings_of_def add_ac)
  next
    case False
    with Cons x show ?thesis by (simp add: bindings_of_def add_ac)
  qed
qed

lemma bindings_of_update:
  "wf_map cl \<Longrightarrow> bindings_of (AList.update c ids cl) prov i =
     bindings_of (AList.delete c cl) prov i + replicate_mset (count_list ids i) (prov c)"
  using bindings_of_delete [of "AList.update c ids cl" c ids prov i] by (simp add: delete_update_same)

lemma bindings_of_other: "(\<And>d. d \<noteq> c \<Longrightarrow> prov d = prov' d) \<Longrightarrow>
    bindings_of (AList.delete c cl) prov i = bindings_of (AList.delete c cl) prov' i"
  unfolding bindings_of_def by (intro arg_cong [of _ _ sum_list] map_cong refl) (auto simp: AList.delete_eq)

text \<open>The lists of a client, as a registration stores them.\<close>

definition client_ok :: "ModelRegistry \<Rightarrow> string \<Rightarrow> bool" where
  "client_ok r c \<longleftrightarrow> (case map_of (mr_clientModels r) c of
     None \<Rightarrow> map_of (mr_clientModelInfos r) c = None \<and> map_of (mr_clientProviders r) c = None
   | Some ids \<Rightarrow> c \<noteq> '''' \<and> ids \<noteq> [] \<and> '''' \<notin> set ids \<and> map_of (mr_clientProviders r) c \<noteq> Some '''' \<and>
       (\<exists>infos. map_of (mr_clientModelInfos r) c = Some infos \<and> wf_map infos \<and> fst ` set infos = set ids \<and>
                (\<forall>(i, info) \<in> set infos. mi_ID info = i)))"

definition clients_ok :: "ModelRegistry \<Rightarrow> bool" where
  "clients_ok r \<longleftrightarrow> wf_map (mr_clientModels r) \<and> wf_map (mr_clientModelInfos r) \<and> wf_map (mr_clientProviders r) \<and>
     (\<forall>c. client_ok r c)"

abbreviation web_search :: "ModelRegistry \<Rightarrow> string \<Rightarrow> string \<Rightarrow> bool" where
  "web_search r i p \<equiv> hasClientSupportingWebSearchLocked r i p ''''"

definition registry_ok :: "ModelRegistry \<Rightarrow> bool" where
  "registry_ok r \<longleftrightarrow> wf_map (mr_models r) \<and> clients_ok r \<and>
     (\<forall>i. counts_opt (bindings r i) (modelAt r i) \<and> flagged (web_search r i '''') (web_search r i) (modelAt r i))"

lemma newRegistry_ok: "registry_ok newRegistry"
  by (simp add: registry_ok_def newRegistry_def clients_ok_def client_ok_def bindings_def bindings_of_def counts_opt_def
      flagged_def flagged_but_def)

text \<open>A client supports web search for a model under a provider.\<close>

definition supplies :: "ModelRegistry \<Rightarrow> string \<Rightarrow> string \<Rightarrow> string \<Rightarrow> bool" where
  "supplies r c i p \<longleftrightarrow> (case map_of (mr_clientModelInfos r) c of
     None \<Rightarrow> False
   | Some infos \<Rightarrow> (p = '''' \<or> get_or '''' (mr_clientProviders r) c = p) \<and>
       (case map_of infos i of None \<Rightarrow> False | Some info \<Rightarrow> mi_SupportsWebSearch info))"

lemma web_search_iff:
  assumes "wf_map (mr_clientModelInfos r)"
  shows "hasClientSupportingWebSearchLocked r i p x \<longleftrightarrow> (\<exists>c. c \<noteq> x \<and> supplies r c i p)"
proof -
  have "map_of (mr_clientModelInfos r) c = Some infos \<longleftrightarrow> (c, infos) \<in> set (mr_clientModelInfos r)" for c infos
    using assms by (rule map_of_eq_Some_iff)
  then show ?thesis
    unfolding hasClientSupportingWebSearchLocked_def list_ex_iff supplies_def
    by (fastforce split: option.splits)
qed

text \<open>What a client's departure, and a registration, leave of web search.\<close>

lemma web_search_forget:
  assumes "wf_map (mr_clientModelInfos r)" "map_of (mr_clientModelInfos r) '''' = None"
  shows "web_search (forgetRegistration c r) i p = hasClientSupportingWebSearchLocked r i p c"
proof -
  have wf: "wf_map (mr_clientModelInfos (forgetRegistration c r))" using assms(1) by (simp add: forgetRegistration_def)
  have "supplies (forgetRegistration c r) d i p \<longleftrightarrow> d \<noteq> c \<and> supplies r d i p" for d
    by (simp add: supplies_def forgetRegistration_def get_or_def cong: option.case_cong)
  moreover have "\<not> supplies r '''' i p" using assms(2) by (simp add: supplies_def)
  ultimately show ?thesis unfolding web_search_iff [OF wf] web_search_iff [OF assms(1)] by metis
qed

lemma newModels_at:
  "map_of (newModels models) i = (if i \<in> set (rawModelIDs models) then map_of (map (\<lambda>m. (mi_ID m, m)) models) i else None)"
proof -
  let ?pairs = "map (\<lambda>m. (mi_ID m, m)) models"
  have "i \<in> set (rawModelIDs models) \<Longrightarrow> map_of ?pairs i \<noteq> None"
    by (auto simp: rawModelIDs_def map_of_eq_None_iff image_image)
  moreover have "map_of (map (\<lambda>i. (i, f i)) xs) i = (if i \<in> set xs then Some (f i) else None)" for f :: "string \<Rightarrow> ModelInfo" and xs
    by (induction xs) auto
  ultimately show ?thesis by (auto simp: newModels_def)
qed

lemma newModels_props:
  "wf_map (newModels models)" "fst ` set (newModels models) = set (rawModelIDs models)"
  "(i, info) \<in> set (newModels models) \<Longrightarrow> mi_ID info = i"
proof -
  show 1: "wf_map (newModels models)" "fst ` set (newModels models) = set (rawModelIDs models)"
    by (simp_all add: newModels_def comp_def image_image)
  assume "(i, info) \<in> set (newModels models)"
  with 1(1) have "map_of (newModels models) i = Some info" by simp
  then show "mi_ID info = i" by (auto simp: newModels_at dest!: map_of_SomeD split: if_splits)
qed

lemma web_search_store:
  assumes "wf_map (mr_clientModelInfos r)" "map_of (mr_clientModelInfos r) '''' = None" "c \<noteq> ''''"
  shows "web_search (storeClient c p models r) i q \<longleftrightarrow> hasClientSupportingWebSearchLocked r i q c \<or>
     (q = '''' \<or> q = p) \<and> i \<in> set (rawModelIDs models) \<and> mi_SupportsWebSearch (the (map_of (newModels models) i))"
proof -
  have wf: "wf_map (mr_clientModelInfos (storeClient c p models r))" using assms(1) by (simp add: storeClient_def)
  have prov: "get_or '''' (mr_clientProviders (storeClient c p models r)) d = (if d = c then p else get_or '''' (mr_clientProviders r) d)" for d
    by (auto simp: storeClient_def get_or_def)
  have new: "map_of (newModels models) i = None \<longleftrightarrow> i \<notin> set (rawModelIDs models)"
    using newModels_props(2) by (metis map_of_eq_None_iff)
  have "supplies (storeClient c p models r) d i q \<longleftrightarrow> (if d = c then (q = '''' \<or> q = p) \<and> i \<in> set (rawModelIDs models) \<and>
      mi_SupportsWebSearch (the (map_of (newModels models) i)) else supplies r d i q)" for d
  proof (cases "d = c")
    case True
    have infos: "map_of (mr_clientModelInfos (storeClient c p models r)) c = Some (newModels models)" by (simp add: storeClient_def)
    from new show ?thesis unfolding supplies_def prov True infos by (cases "map_of (newModels models) i") auto
  next
    case False
    then have "map_of (mr_clientModelInfos (storeClient c p models r)) d = map_of (mr_clientModelInfos r) d"
      by (simp add: storeClient_def)
    with False show ?thesis by (simp add: supplies_def prov cong: option.case_cong)
  qed
  moreover have "\<not> supplies r '''' i q" using assms(2) by (simp add: supplies_def)
  ultimately show ?thesis unfolding web_search_iff [OF wf] web_search_iff [OF assms(1)] using assms(3) by metis
qed

lemma clients_okD:
  assumes "clients_ok r"
  shows "wf_map (mr_clientModels r)" "wf_map (mr_clientModelInfos r)" "wf_map (mr_clientProviders r)" "client_ok r c"
    "map_of (mr_clientModels r) '''' = None" "map_of (mr_clientModelInfos r) '''' = None"
proof -
  show all: "wf_map (mr_clientModels r)" "wf_map (mr_clientModelInfos r)" "wf_map (mr_clientProviders r)" "client_ok r c" for c
    using assms by (simp_all add: clients_ok_def)
  from all(4) [of "''''"] show "map_of (mr_clientModels r) '''' = None" "map_of (mr_clientModelInfos r) '''' = None"
    by (auto simp: client_ok_def split: option.splits)
qed

lemma unknown_client:
  assumes "clients_ok r" "map_of (mr_clientModels r) c = None"
  shows "map_of (mr_clientModelInfos r) c = None" "map_of (mr_clientProviders r) c = None"
  using clients_okD(4) [OF assms(1), of c] assms(2) by (simp_all add: client_ok_def)

lemma known_client:
  assumes "clients_ok r" "map_of (mr_clientModels r) c = Some ids"
  shows "c \<noteq> ''''" "ids \<noteq> []" "'''' \<notin> set ids" "map_of (mr_clientProviders r) c \<noteq> Some ''''"
    "\<exists>infos. map_of (mr_clientModelInfos r) c = Some infos \<and> wf_map infos \<and> fst ` set infos = set ids \<and>
       (\<forall>(i, info) \<in> set infos. mi_ID info = i)"
  using clients_okD(4) [OF assms(1), of c] assms(2) by (simp_all add: client_ok_def)

lemma supplies_mentions:
  assumes "clients_ok r" "supplies r c i p"
  shows "\<exists>ids. map_of (mr_clientModels r) c = Some ids \<and> i \<in> set ids"
proof (cases "map_of (mr_clientModels r) c")
  case None
  with unknown_client(1) [OF assms(1)] assms(2) show ?thesis by (simp add: supplies_def)
next
  case (Some ids)
  obtain infos where infos: "map_of (mr_clientModelInfos r) c = Some infos" "fst ` set infos = set ids"
    using known_client(5) [OF assms(1) Some] by blast
  from assms(2) infos(1) obtain info where "map_of infos i = Some info" by (auto simp: supplies_def split: option.splits)
  then have "i \<in> fst ` set infos" by (metis domI dom_map_of_conv_image_fst)
  with infos(2) Some show ?thesis by simp
qed

lemma web_search_split: "clients_ok r \<Longrightarrow> web_search r i q \<longleftrightarrow> hasClientSupportingWebSearchLocked r i q c \<or> supplies r c i q"
proof -
  assume ok: "clients_ok r"
  have "\<not> supplies r '''' i q" using clients_okD(6) [OF ok] by (simp add: supplies_def)
  then show ?thesis unfolding web_search_iff [OF clients_okD(2) [OF ok]] by metis
qed

lemma no_bindings_no_web_search:
  assumes "clients_ok r" "bindings r i = {#}"
  shows "\<not> hasClientSupportingWebSearchLocked r i q x"
proof
  assume "hasClientSupportingWebSearchLocked r i q x"
  then obtain c where "supplies r c i q" unfolding web_search_iff [OF clients_okD(2) [OF assms(1)]] by blast
  then obtain ids where c: "map_of (mr_clientModels r) c = Some ids" "i \<in> set ids" using supplies_mentions [OF assms(1)] by blast
  from bindings_of_delete [OF clients_okD(1) [OF assms(1)] c(1), of "get_or '''' (mr_clientProviders r)" i] assms(2) c(2)
  show False by (simp add: bindings_def count_list_0_iff)
qed

text \<open>The bindings of a client and those of the others.\<close>

definition others :: "ModelRegistry \<Rightarrow> string \<Rightarrow> string \<Rightarrow> string multiset" where
  "others r c i = bindings_of (AList.delete c (mr_clientModels r)) (get_or '''' (mr_clientProviders r)) i"

lemma bindings_split:
  assumes "clients_ok r"
  shows "bindings r i = others r c i + replicate_mset (count_list (get_or [] (mr_clientModels r) c) i) (get_or '''' (mr_clientProviders r) c)"
proof (cases "map_of (mr_clientModels r) c")
  case None
  then have "AList.delete c (mr_clientModels r) = mr_clientModels r" by (simp add: map_of_eq_None_iff delete_notin_dom)
  with None show ?thesis by (simp add: bindings_def others_def get_or_def)
next
  case (Some ids)
  with bindings_of_delete [OF clients_okD(1) [OF assms] Some] show ?thesis by (simp add: bindings_def others_def get_or_def)
qed

lemma bindings_store:
  assumes "clients_ok r"
  shows "bindings (storeClient c p models r) i = others r c i + replicate_mset (count_list (rawModelIDs models) i) p"
proof -
  let ?prov = "get_or '''' (mr_clientProviders (storeClient c p models r))"
  have prov: "?prov d = (if d = c then p else get_or '''' (mr_clientProviders r) d)" for d
    by (auto simp: storeClient_def get_or_def)
  have "bindings (storeClient c p models r) i =
     bindings_of (AList.delete c (mr_clientModels r)) ?prov i + replicate_mset (count_list (rawModelIDs models) i) p"
    using bindings_of_update [OF clients_okD(1) [OF assms], of c "rawModelIDs models" ?prov i] prov
    by (simp add: bindings_def storeClient_def)
  moreover have "bindings_of (AList.delete c (mr_clientModels r)) ?prov i = others r c i"
    unfolding others_def by (rule bindings_of_other) (simp add: prov)
  ultimately show ?thesis by simp
qed

lemma bindings_forget: "bindings (forgetRegistration c r) i = others r c i"
proof -
  have eq: "mr_clientModels (forgetRegistration c r) = AList.delete c (mr_clientModels r)"
    "mr_clientProviders (forgetRegistration c r) = AList.delete c (mr_clientProviders r)"
    by (simp_all add: forgetRegistration_def)
  show ?thesis unfolding bindings_def others_def eq by (rule bindings_of_other) (simp add: get_or_def)
qed

lemma storeClient_fields:
  "map_of (mr_clientModels (storeClient c p models r)) = (map_of (mr_clientModels r))(c \<mapsto> rawModelIDs models)"
  "map_of (mr_clientModelInfos (storeClient c p models r)) = (map_of (mr_clientModelInfos r))(c \<mapsto> newModels models)"
  "map_of (mr_clientProviders (storeClient c p models r)) = (map_of (mr_clientProviders r))(c := if p = '''' then None else Some p)"
  by (simp_all add: storeClient_def)

lemma store_clients_ok:
  assumes "clients_ok r" "c \<noteq> ''''" "rawModelIDs models \<noteq> []"
  shows "clients_ok (storeClient c p models r)"
proof -
  have "client_ok (storeClient c p models r) d" for d
  proof (cases "d = c")
    case True
    have "\<forall>(i, info) \<in> set (newModels models). mi_ID info = i" using newModels_props(3) by blast
    then show ?thesis using assms(2,3) newModels_props(1,2) [of models]
      unfolding client_ok_def storeClient_fields True by simp
  next
    case False
    then have "client_ok (storeClient c p models r) d = client_ok r d"
      by (simp add: client_ok_def storeClient_def cong: option.case_cong)
    with clients_okD(4) [OF assms(1)] show ?thesis by simp
  qed
  then show ?thesis using clients_okD(1-3) [OF assms(1)] by (simp add: clients_ok_def storeClient_def)
qed

lemma forget_clients_ok: "clients_ok r \<Longrightarrow> clients_ok (forgetRegistration c r)"
proof -
  assume ok: "clients_ok r"
  have "client_ok (forgetRegistration c r) d" for d
    using clients_okD(4) [OF ok, of d] by (cases "d = c") (simp_all add: client_ok_def forgetRegistration_def cong: option.case_cong)
  with clients_okD(1-3) [OF ok] show ?thesis by (simp add: clients_ok_def forgetRegistration_def)
qed

text \<open>What the invariant speaks about: the registrations and the three maps of clients.\<close>

definition core :: "ModelRegistry \<Rightarrow> (string \<times> ModelRegistration) list \<times> (string \<times> string list) list \<times>
    (string \<times> (string \<times> ModelInfo) list) list \<times> (string \<times> string) list" where
  "core r = (mr_models r, mr_clientModels r, mr_clientModelInfos r, mr_clientProviders r)"

lemma core_cong:
  assumes "core r = core r'"
  shows "registry_ok r = registry_ok r'" "clients_ok r = clients_ok r'" "bindings r = bindings r'" "others r = others r'"
    "hasClientSupportingWebSearchLocked r = hasClientSupportingWebSearchLocked r'"
proof -
  have eq: "mr_models r = mr_models r'" "mr_clientModels r = mr_clientModels r'" "mr_clientModelInfos r = mr_clientModelInfos r'"
    "mr_clientProviders r = mr_clientProviders r'" using assms by (simp_all add: core_def)
  show w: "hasClientSupportingWebSearchLocked r = hasClientSupportingWebSearchLocked r'"
    by (intro ext) (simp add: hasClientSupportingWebSearchLocked_def eq)
  show b: "bindings r = bindings r'" "others r = others r'" by (simp_all add: fun_eq_iff bindings_def others_def eq)
  show c: "clients_ok r = clients_ok r'" by (simp add: clients_ok_def client_ok_def eq cong: option.case_cong)
  show "registry_ok r = registry_ok r'" by (simp add: registry_ok_def w b c eq)
qed

lemma core_simps [simp]:
  "core (advanceEpoch c r) = core r" "core (invalidateAvailableModelsCacheLocked r) = core r"
  "core (triggerModelsRegistered p c models r) = core r" "core (triggerModelsUnregistered p c r) = core r"
  "core (r\<lparr>mr_clientGenerations := g\<rparr>) = core r" "core (r\<lparr>mr_availableModelsCache := x\<rparr>) = core r"
  "core (r\<lparr>mr_hook := h\<rparr>) = core r"
  by (simp_all add: core_def advanceEpoch_def invalidateAvailableModelsCacheLocked_def triggerModelsRegistered_def
      triggerModelsUnregistered_def)

section \<open>Every operation keeps the invariant\<close>

lemma registry_okD:
  assumes "registry_ok r"
  shows "wf_map (mr_models r)" "clients_ok r" "counts_opt (bindings r i) (modelAt r i)"
    "flagged (web_search r i '''') (web_search r i) (modelAt r i)"
  using assms by (simp_all add: registry_ok_def)

text \<open>What the flags of a registration may still be wrong about when a client is changed.\<close>

lemma flags_of_others:
  assumes "registry_ok r"
  shows "flagged_but {get_or '''' (mr_clientProviders r) c} (\<lambda>q. hasClientSupportingWebSearchLocked r i q c) (modelAt r i)"
proof -
  let ?S = "{get_or '''' (mr_clientProviders r) c}"
  have "web_search r i q = hasClientSupportingWebSearchLocked r i q c" if "q \<noteq> ''''" "q \<notin> ?S" for q
  proof -
    have "\<not> supplies r c i q" using that by (auto simp: supplies_def split: option.splits)
    then show ?thesis unfolding web_search_split [OF registry_okD(2) [OF assms], of i q c] by simp
  qed
  then show ?thesis by (intro flagged_but_mono [OF flagged_imp_but [OF registry_okD(4) [OF assms]]]) simp_all
qed

lemma no_mention_no_change:
  assumes "clients_ok r" "i \<notin> set (get_or [] (mr_clientModels r) c)"
  shows "web_search r i q = hasClientSupportingWebSearchLocked r i q c"
proof -
  have "\<not> supplies r c i q"
  proof
    assume "supplies r c i q"
    from supplies_mentions [OF assms(1) this] assms(2) show False by (auto simp: get_or_def)
  qed
  then show ?thesis using web_search_split [OF assms(1)] by blast
qed

text \<open>The effect of a registration on one model.\<close>

definition registered :: "ModelRegistry \<Rightarrow> string \<Rightarrow> string \<Rightarrow> ModelInfo list \<Rightarrow> bool \<Rightarrow> time \<Rightarrow> string \<Rightarrow>
    ModelRegistration option \<Rightarrow> ModelRegistration option" where
  "registered r c p models keep now i x =
     (case map_of (mr_clientModels r) c of
        None \<Rightarrow> added_bindings r c p (the (map_of (newModels models) i)) (count_list (rawModelIDs models) i) now i x
      | Some ids \<Rightarrow> reconciled r c p (get_or '''' (mr_clientProviders r) c) models keep ids now i x)"

lemma effects_cong:
  assumes "hasClientSupportingWebSearchLocked r = hasClientSupportingWebSearchLocked r'"
  shows "added_bindings r = added_bindings r'" "reconciled r = reconciled r'" "dropped_bindings r = dropped_bindings r'"
  using assms by (simp_all add: fun_eq_iff added_bindings_def reconciled_def Let_def transferred_def removed_bindings_def
      refreshed_def dropped_bindings_def)

lemma register_shape:
  assumes "wf_map (mr_models r)" "rawModelIDs models \<noteq> []"
  obtains v where "models_only r v" "wf_map (mr_models v)"
    "core (registerClientLocked c clientProvider models keep now r) = core (storeClient c (to_lower clientProvider) models v)"
    "\<And>i. modelAt v i = registered r c (to_lower clientProvider) models keep now i (modelAt r i)"
proof -
  define p where "p = to_lower clientProvider"
  define old where "old = map_of (mr_clientModels r) c"
  define stage where "stage = (\<lambda>r. case old of
      None \<Rightarrow> fold (\<lambda>i. addModelRegistration i p (the (map_of (newModels models) i)) now c) (rawModelIDs models) r
    | Some ids \<Rightarrow> reconcileClient c p models keep ids now r)"
  define r0 where "r0 = (let r0 = advanceEpoch c r in if \<not> keep \<or> old = None \<or> get_or '''' (mr_clientProviders r) c \<noteq> p
     then r0\<lparr>mr_clientGenerations := AList.update c 0 (mr_clientGenerations r0)\<rparr> else r0)"
  have core0: "core r0 = core r" by (simp add: r0_def Let_def)
  have same: "mr_models r0 = mr_models r" "mr_clientModels r0 = mr_clientModels r" "mr_clientModelInfos r0 = mr_clientModelInfos r"
    "mr_clientProviders r0 = mr_clientProviders r"
    using core0 by (simp_all add: core_def)
  have wf0: "wf_map (mr_models r0)" using assms(1) same by simp
  note eff = effects_cong [OF core_cong(5) [OF core0]]
  have stage: "models_only r0 (stage r0) \<and> wf_map (mr_models (stage r0)) \<and>
      (\<forall>i. modelAt (stage r0) i = registered r c p models keep now i (modelAt r i))"
  proof (cases old)
    case None
    from freshClient_acts [OF wf0, of p models now c] show ?thesis
      using None unfolding stage_def registered_def old_def eff same by simp
  next
    case (Some ids)
    from reconcileClient_acts [OF wf0, of c p models keep ids now] show ?thesis
      using Some unfolding stage_def registered_def old_def eff same by simp
  qed
  have fr: "mr_clientModels (stage r0) = mr_clientModels r" "mr_clientModelInfos (stage r0) = mr_clientModelInfos r"
    "mr_clientProviders (stage r0) = mr_clientProviders r"
    using models_onlyD(1-3) [of r0 "stage r0"] stage same by simp_all
  define v where "v = r\<lparr>mr_models := mr_models (stage r0)\<rparr>"
  show thesis
  proof
    show "models_only r v" by (simp add: v_def models_only_def)
    show "wf_map (mr_models v)" "\<And>i. modelAt v i = registered r c (to_lower clientProvider) models keep now i (modelAt r i)"
      using stage by (simp_all add: v_def p_def)
    have "core (registerClientLocked c clientProvider models keep now r) = core (storeClient c p models (stage r0))"
      using assms(2) unfolding registerClientLocked_def Let_def stage_def r0_def old_def p_def by simp
    also have "\<dots> = core (storeClient c p models v)" by (simp add: core_def storeClient_def v_def fr)
    finally show "core (registerClientLocked c clientProvider models keep now r) =
       core (storeClient c (to_lower clientProvider) models v)" by (simp add: p_def)
  qed
qed

lemma registered_counts:
  assumes "registry_ok r"
  shows "counts_opt (others r c i + replicate_mset (count_list (rawModelIDs models) i) p)
     (registered r c p models keep now i (modelAt r i))"
proof (cases "map_of (mr_clientModels r) c")
  case None
  with registry_okD(3) [OF assms, of i] bindings_split [OF registry_okD(2) [OF assms], of i c]
  have "counts_opt (others r c i) (modelAt r i)" by (simp add: get_or_def)
  from add_counts_power [OF this] None show ?thesis by (simp add: registered_def added_bindings_def)
next
  case (Some ids)
  with registry_okD(3) [OF assms, of i] bindings_split [OF registry_okD(2) [OF assms], of i c]
  have "counts_opt (others r c i + replicate_mset (count_list ids i) (get_or '''' (mr_clientProviders r) c)) (modelAt r i)"
    by (simp add: get_or_def)
  from reconciled_counts [OF this] Some show ?thesis by (simp add: registered_def)
qed

lemma registered_flags:
  fixes r :: ModelRegistry and c i p :: string and models :: "ModelInfo list"
  defines "web \<equiv> \<lambda>q. hasClientSupportingWebSearchLocked r i q c"
  defines "new \<equiv> i \<in> set (rawModelIDs models) \<and> mi_SupportsWebSearch (the (map_of (newModels models) i))"
  assumes "registry_ok r"
  shows "flagged (web '''' \<or> new) (\<lambda>q. web q \<or> q = p \<and> new) (registered r c p models keep now i (modelAt r i))"
proof -
  let ?m = "the (map_of (newModels models) i)"
  note ok = registry_okD(2) [OF assms(3)]
  have same: "flagged (web '''' \<or> new) (\<lambda>q. web q \<or> q = p \<and> new) (modelAt r i)"
    if "i \<notin> set (get_or [] (mr_clientModels r) c)" "i \<notin> set (rawModelIDs models)"
    using registry_okD(4) [OF assms(3), of i] that no_mention_no_change [OF ok that(1)] by (simp add: web_def new_def)
  show ?thesis
  proof (cases "map_of (mr_clientModels r) c")
    case None
    show ?thesis
    proof (cases "i \<in> set (rawModelIDs models)")
      case False
      then show ?thesis using same None by (simp add: registered_def added_bindings_def count_notin get_or_def)
    next
      case True
      have fl: "flagged_but {p} (\<lambda>q. web q \<or> q = p \<and> new) (modelAt r i)"
      proof -
        have "get_or '''' (mr_clientProviders r) c = ''''" using unknown_client(2) [OF ok None] by (simp add: get_or_def)
        with flags_of_others [OF assms(3), of c i] have "flagged_but {''''} web (modelAt r i)" by (simp add: web_def)
        then show ?thesis unfolding flagged_but_def by blast
      qed
      have "modelAt r i \<noteq> None \<or> \<not> web '''' \<and> \<not> web p"
        using registry_okD(3) [OF assms(3), of i] no_bindings_no_web_search [OF ok, of i]
        by (cases "modelAt r i") (auto simp: counts_opt_def web_def)
      from add_flags_last [OF fl _ _ this, of ?m "count_list (rawModelIDs models) i" now] True None
      show ?thesis by (auto simp: registered_def added_bindings_def count_list_0_iff new_def web_def disj_commute)
    qed
  next
    case (Some ids)
    show ?thesis
    proof (cases "i \<in> set ids \<or> i \<in> set (rawModelIDs models)")
      case True
      from reconciled_flags [OF flags_of_others [OF assms(3), of c i] True, of p keep now] Some
      show ?thesis by (simp add: registered_def web_def new_def)
    next
      case False
      then have "registered r c p models keep now i (modelAt r i) = modelAt r i"
        by (simp add: registered_def Some reconciled_def Let_def transferred_def removed_bindings_def added_bindings_def
            refreshed_def count_notin)
      with same False Some show ?thesis by (simp add: get_or_def)
    qed
  qed
qed

lemma models_only_clients:
  assumes "models_only r v"
  shows "clients_ok v = clients_ok r" "others v = others r"
  using models_onlyD(1-3) [OF assms]
  by (simp_all add: fun_eq_iff clients_ok_def client_ok_def others_def cong: option.case_cong)

lemma register_models_ok:
  assumes "registry_ok r" "c \<noteq> ''''" "rawModelIDs models \<noteq> []"
  shows "registry_ok (registerClientLocked c clientProvider models keep now r)"
proof -
  define p where "p = to_lower clientProvider"
  obtain v where v: "models_only r v" "wf_map (mr_models v)"
    "core (registerClientLocked c clientProvider models keep now r) = core (storeClient c p models v)"
    "\<And>i. modelAt v i = registered r c p models keep now i (modelAt r i)"
    unfolding p_def using register_shape [OF registry_okD(1) [OF assms(1)] assms(3)] by metis
  note ok = registry_okD(2) [OF assms(1)]
  have okv: "clients_ok v" using ok models_only_clients(1) [OF v(1)] by simp
  let ?u = "storeClient c p models v"
  have "clients_ok ?u" by (rule store_clients_ok [OF okv assms(2,3)])
  moreover have "wf_map (mr_models ?u)" using v(2) by (simp add: storeClient_def)
  moreover have at: "modelAt ?u i = registered r c p models keep now i (modelAt r i)" for i
    using v(4) by (simp add: storeClient_def)
  moreover have "counts_opt (bindings ?u i) (modelAt ?u i)" for i
    unfolding at bindings_store [OF okv] models_only_clients(2) [OF v(1)] by (rule registered_counts [OF assms(1)])
  moreover have "flagged (web_search ?u i '''') (web_search ?u i) (modelAt ?u i)" for i
    unfolding at
    by (rule flagged_cong [OF registered_flags [OF assms(1)]])
      (simp_all add: web_search_store [OF clients_okD(2,6) [OF okv] assms(2)] web_search_frame [OF v(1)])
  ultimately have "registry_ok ?u" by (simp add: registry_ok_def)
  then show ?thesis using core_cong(1) [OF v(3)] by simp
qed

end
