(* ===== verification/Registry_Runs.thy ===== *)
theory Registry_Runs
  imports Registry_Bindings
begin

text \<open>
  Runs of the model registry: every operation keeps the invariant, the registry refines a map of
  clients, the cached listings are those that would be built afresh, and what the marks of exhausted
  quotas and suspensions mean for a listing.
\<close>

section \<open>The remaining operations keep the invariant\<close>

lemma forget_absent:
  assumes "clients_ok r" "map_of (mr_clientModels r) c = None"
  shows "core (forgetRegistration c r) = core r"
  using assms unknown_client [OF assms]
  by (simp add: core_def forgetRegistration_def map_of_eq_None_iff delete_notin_dom)

lemma unregister_shape:
  assumes "wf_map (mr_models r)" "clients_ok r"
  obtains v where "models_only r v" "wf_map (mr_models v)"
    "core (unregisterClientInternal c now r) = core (forgetRegistration c v)"
    "\<And>i. modelAt v i = dropped_bindings r c (get_or '''' (mr_clientProviders r) c)
       (count_list (get_or [] (mr_clientModels r) c) i) now i (modelAt r i)"
proof -
  define p where "p = get_or '''' (mr_clientProviders r) c"
  define ids where "ids = get_or [] (mr_clientModels r) c"
  define r0 where "r0 = (let r = advanceEpoch c r in r\<lparr>mr_clientGenerations := AList.update c
                  (uint64_succ (get_or 0 (mr_clientGenerations r) c)) (mr_clientGenerations r)\<rparr>)"
  define stage where "stage = fold (\<lambda>i r. atModel i (unregisterBinding c p now
                                (hasClientSupportingWebSearchLocked r i '''' c)
                                (hasClientSupportingWebSearchLocked r i p c)) r) ids r0"
  have core0: "core r0 = core r" by (simp add: r0_def Let_def)
  have same: "mr_models r0 = mr_models r" "mr_clientModels r0 = mr_clientModels r" "mr_clientModelInfos r0 = mr_clientModelInfos r"
    "mr_clientProviders r0 = mr_clientProviders r"
    using core0 by (simp_all add: core_def)
  have wf0: "wf_map (mr_models r0)" using assms(1) same by simp
  have stage: "models_only r0 stage \<and> wf_map (mr_models stage) \<and>
      (\<forall>i. modelAt stage i = dropped_bindings r c p (count_list ids i) now i (modelAt r i))"
    using unregister_acts [OF wf0, of c p now ids] unfolding stage_def effects_cong [OF core_cong(5) [OF core0]] same .
  have fr: "mr_clientModels stage = mr_clientModels r" "mr_clientModelInfos stage = mr_clientModelInfos r"
    "mr_clientProviders stage = mr_clientProviders r"
    using models_onlyD(1-3) [of r0 stage] stage same by simp_all
  define v where "v = r\<lparr>mr_models := mr_models stage\<rparr>"
  show thesis
  proof
    show v: "models_only r v" by (simp add: v_def models_only_def)
    show "wf_map (mr_models v)" "\<And>i. modelAt v i = dropped_bindings r c (get_or '''' (mr_clientProviders r) c)
       (count_list (get_or [] (mr_clientModels r) c) i) now i (modelAt r i)"
      using stage by (simp_all add: v_def p_def ids_def)
    show "core (unregisterClientInternal c now r) = core (forgetRegistration c v)"
    proof (cases "map_of (mr_clientModels r) c")
      case None
      then have "ids = []" by (simp add: ids_def get_or_def)
      then have "core v = core r" using same by (simp add: core_def v_def stage_def)
      moreover have "core (forgetRegistration c v) = core v"
        using forget_absent [of v c] core_cong(2) [OF \<open>core v = core r\<close>] assms(2) None by (simp add: v_def)
      moreover have "AList.delete c (mr_clientProviders r) = mr_clientProviders r"
        using unknown_client(2) [OF assms(2) None] by (simp add: map_of_eq_None_iff delete_notin_dom)
      ultimately show ?thesis using None
        by (simp add: unregisterClientInternal_def Let_def core_def advanceEpoch_def)
    next
      case (Some js)
      then have "core (unregisterClientInternal c now r) = core (forgetRegistration c stage)"
        using same unfolding unregisterClientInternal_def Let_def stage_def r0_def p_def ids_def by (simp add: get_or_def)
      also have "\<dots> = core (forgetRegistration c v)" by (simp add: core_def forgetRegistration_def v_def fr)
      finally show ?thesis .
    qed
  qed
qed

lemma unregister_ok:
  assumes "registry_ok r"
  shows "registry_ok (unregisterClientInternal c now r)"
proof -
  note ok = registry_okD(2) [OF assms]
  obtain v where v: "models_only r v" "wf_map (mr_models v)"
    "core (unregisterClientInternal c now r) = core (forgetRegistration c v)"
    "\<And>i. modelAt v i = dropped_bindings r c (get_or '''' (mr_clientProviders r) c)
       (count_list (get_or [] (mr_clientModels r) c) i) now i (modelAt r i)"
    using unregister_shape [OF registry_okD(1,2) [OF assms]] by metis
  have okv: "clients_ok v" using ok models_only_clients(1) [OF v(1)] by simp
  let ?u = "forgetRegistration c v"
  have "clients_ok ?u" by (rule forget_clients_ok [OF okv])
  moreover have "wf_map (mr_models ?u)" using v(2) by (simp add: forgetRegistration_def)
  moreover have at: "modelAt ?u i = dropped_bindings r c (get_or '''' (mr_clientProviders r) c)
       (count_list (get_or [] (mr_clientModels r) c) i) now i (modelAt r i)" for i
    using v(4) by (simp add: forgetRegistration_def)
  moreover have "counts_opt (bindings ?u i) (modelAt ?u i)" for i
    using remove_counts_power(2) registry_okD(3) [OF assms, of i]
    unfolding at bindings_forget models_only_clients(2) [OF v(1)] dropped_bindings_def bindings_split [OF ok, of i c] by blast
  moreover have "flagged (web_search ?u i '''') (web_search ?u i) (modelAt ?u i)" for i
  proof (rule flagged_cong)
    let ?w = "\<lambda>q. hasClientSupportingWebSearchLocked r i q c"
    show "?w '''' = web_search ?u i ''''" "\<And>q. ?w q = web_search ?u i q"
      unfolding web_search_forget [OF clients_okD(2,6) [OF okv]] web_search_frame [OF v(1)] by simp_all
    show "flagged (?w '''') ?w (modelAt ?u i)"
    proof (cases "count_list (get_or [] (mr_clientModels r) c) i = 0")
      case True
      then have "i \<notin> set (get_or [] (mr_clientModels r) c)" by (simp add: count_list_0_iff)
      from flagged_cong [OF registry_okD(4) [OF assms, of i] no_mention_no_change [OF ok this] no_mention_no_change [OF ok this]]
      show ?thesis using True by (simp add: at dropped_bindings_def)
    next
      case False
      show ?thesis unfolding at dropped_bindings_def
        by (rule remove_flags_last(2) [OF flags_of_others [OF assms] refl False])
    qed
  qed
  ultimately have "registry_ok ?u" by (simp add: registry_ok_def)
  then show ?thesis using core_cong(1) [OF v(3)] by simp
qed

lemma unregister_gone:
  assumes "registry_ok r"
  shows "map_of (mr_clientModels (unregisterClientInternal c now r)) = (map_of (mr_clientModels r))(c := None)"
    "map_of (mr_clientProviders (unregisterClientInternal c now r)) = (map_of (mr_clientProviders r))(c := None)"
proof -
  obtain v where v: "models_only r v" "core (unregisterClientInternal c now r) = core (forgetRegistration c v)"
    using unregister_shape [OF registry_okD(1,2) [OF assms]] by metis
  then show "map_of (mr_clientModels (unregisterClientInternal c now r)) = (map_of (mr_clientModels r))(c := None)"
    "map_of (mr_clientProviders (unregisterClientInternal c now r)) = (map_of (mr_clientProviders r))(c := None)"
    using models_onlyD(1,3) [OF v(1)] by (simp_all add: core_def forgetRegistration_def)
qed

lemma register_ok:
  assumes "registry_ok r" "c \<noteq> ''''"
  shows "registry_ok (registerClientLocked c clientProvider models keep now r)"
proof (cases "rawModelIDs models = []")
  case True
  let ?u = "unregisterClientInternal c now r"
  have u: "registry_ok ?u" by (rule unregister_ok [OF assms(1)])
  have "core (registerClientLocked c clientProvider models keep now r) = core (forgetRegistration c ?u)"
    using True by (simp add: registerClientLocked_def Let_def)
  also have "\<dots> = core ?u" by (rule forget_absent [OF registry_okD(2) [OF u]]) (simp add: unregister_gone(1) [OF assms(1)])
  finally show ?thesis using u core_cong(1) by blast
qed (rule register_models_ok [OF assms])

text \<open>Marks on a registration.\<close>

lemma atModel_ok:
  assumes "registry_ok r" "\<And>B. counts_opt B (modelAt r i) \<Longrightarrow> counts_opt B (f (modelAt r i))"
    "\<And>a g. flagged a g (modelAt r i) \<Longrightarrow> flagged a g (f (modelAt r i))"
  shows "registry_ok (atModel i f r)"
proof -
  note fr = models_only_atModel [of r i f]
  have "bindings (atModel i f r) = bindings r" by (simp add: fun_eq_iff bindings_def)
  moreover have "hasClientSupportingWebSearchLocked (atModel i f r) = hasClientSupportingWebSearchLocked r"
    by (rule web_search_frame [OF fr])
  ultimately show ?thesis
    using registry_okD [OF assms(1)] assms(2,3) models_only_clients(1) [OF fr] by (simp add: registry_ok_def)
qed

definition marks_only :: "ModelRegistration \<Rightarrow> ModelRegistration \<Rightarrow> bool" where
  "marks_only reg reg' \<longleftrightarrow> reg_Count reg' = reg_Count reg \<and> reg_Providers reg' = reg_Providers reg \<and>
     reg_InfoByProvider reg' = reg_InfoByProvider reg \<and> reg_Info reg' = reg_Info reg \<and>
     wf_map (reg_QuotaExceededClients reg') \<and> wf_map (reg_SuspendedClients reg') \<and>
     (\<forall>(c, q) \<in> set (reg_QuotaExceededClients reg'). 0 \<le> q)"

lemma marks_ok:
  assumes "registry_ok r" "modelAt r i = Some reg" "maps_ok reg \<Longrightarrow> marks_only reg reg'"
  shows "registry_ok (atModel i (\<lambda>_. Some reg') r)" "registry_ok (atModel i (map_option (\<lambda>_. reg')) r)"
proof -
  have ok: "marks_only reg reg'"
    using assms(3) registry_okD(3) [OF assms(1), of i] assms(2) by (simp add: counts_opt_def counts_def)
  show "registry_ok (atModel i (\<lambda>_. Some reg') r)"
    by (rule atModel_ok [OF assms(1)]) (use ok in \<open>simp_all add: assms(2) counts_opt_def counts_def maps_ok_def marks_only_def
        flagged_def flagged_but_def\<close>)
  then show "registry_ok (atModel i (map_option (\<lambda>_. reg')) r)" by (simp add: atModel_def assms(2))
qed

lemma atModel_at: "modelAt r i = Some reg \<Longrightarrow> atModel i (map_option f) r = atModel i (map_option (\<lambda>_. f reg)) r"
  by (simp add: atModel_def)

lemma mark_at:
  assumes "registry_ok r" "modelAt r i = Some reg" "maps_ok reg \<Longrightarrow> marks_only reg (f reg)"
  shows "registry_ok (atModel i (map_option f) r)"
  by (subst atModel_at [OF assms(2)]) (rule marks_ok(2) [OF assms])

lemma set_update: "x \<in> set (AList.update k v m) \<Longrightarrow> x = (k, v) \<or> x \<in> set m"
  by (induction m) (auto split: if_splits)

lemma mark_cases:
  assumes "maps_ok reg"
  shows "0 \<le> now \<Longrightarrow> marks_only reg (reg\<lparr>reg_QuotaExceededClients := AList.update c now (reg_QuotaExceededClients reg)\<rparr>)"
    "marks_only reg (reg\<lparr>reg_QuotaExceededClients := AList.delete c (reg_QuotaExceededClients reg)\<rparr>)"
    "marks_only reg (reg\<lparr>reg_SuspendedClients := AList.update c reason (reg_SuspendedClients reg)\<rparr>)"
    "marks_only reg (reg\<lparr>reg_SuspendedClients := AList.delete c (reg_SuspendedClients reg)\<rparr>)"
    "marks_only reg (reg\<lparr>reg_QuotaExceededClients := filter P (reg_QuotaExceededClients reg)\<rparr>)"
proof -
  have q: "marks_only reg (reg\<lparr>reg_QuotaExceededClients := qs\<rparr>)" if "wf_map qs" "\<forall>x \<in> set qs. 0 \<le> snd x" for qs
    using that assms by (simp add: marks_only_def maps_ok_def case_prod_beta)
  have s: "marks_only reg (reg\<lparr>reg_SuspendedClients := ss\<rparr>)" if "wf_map ss" for ss
    using that assms by (simp add: marks_only_def maps_ok_def)
  have old: "wf_map (reg_QuotaExceededClients reg)" "wf_map (reg_SuspendedClients reg)"
    "x \<in> set (reg_QuotaExceededClients reg) \<Longrightarrow> 0 \<le> snd x" for x
    using assms by (auto simp: maps_ok_def)
  show "0 \<le> now \<Longrightarrow> marks_only reg (reg\<lparr>reg_QuotaExceededClients := AList.update c now (reg_QuotaExceededClients reg)\<rparr>)"
  proof (rule q)
    assume now: "0 \<le> now"
    show "\<forall>x \<in> set (AList.update c now (reg_QuotaExceededClients reg)). 0 \<le> snd x"
    proof
      fix x assume "x \<in> set (AList.update c now (reg_QuotaExceededClients reg))"
      from set_update [OF this] show "0 \<le> snd x" using now old(3) [of x] by (metis snd_conv)
    qed
  qed (simp add: old)
  show "marks_only reg (reg\<lparr>reg_QuotaExceededClients := AList.delete c (reg_QuotaExceededClients reg)\<rparr>)"
    by (rule q) (simp_all add: old(1), blast intro: old(3) in_delete)
  show "marks_only reg (reg\<lparr>reg_SuspendedClients := AList.update c reason (reg_SuspendedClients reg)\<rparr>)"
    by (rule s) (simp add: old)
  show "marks_only reg (reg\<lparr>reg_SuspendedClients := AList.delete c (reg_SuspendedClients reg)\<rparr>)"
    by (rule s) (simp add: old)
  show "marks_only reg (reg\<lparr>reg_QuotaExceededClients := filter P (reg_QuotaExceededClients reg)\<rparr>)"
    by (rule q) (simp_all add: old distinct_map_filter)
qed

lemma marks_only_touch [simp]: "marks_only reg (reg'\<lparr>reg_LastUpdated := now\<rparr>) = marks_only reg reg'"
  by (simp add: marks_only_def)

lemma marks_only_trans: "marks_only a b \<Longrightarrow> marks_only b c \<Longrightarrow> marks_only a c"
  by (simp add: marks_only_def)

lemma marks_only_maps_ok: "maps_ok reg \<Longrightarrow> marks_only reg reg' \<Longrightarrow> maps_ok reg'"
  by (simp add: marks_only_def maps_ok_def)

lemma marks_only_refl: "maps_ok reg \<Longrightarrow> marks_only reg reg"
  by (simp add: marks_only_def maps_ok_def)

lemma quota_suspend_ok:
  assumes "registry_ok r" "0 \<le> now"
  shows "registry_ok (SetModelQuotaExceeded c i now r)" "registry_ok (ClearModelQuotaExceeded c i r)"
    "registry_ok (SuspendClientModel c i reason now r)" "registry_ok (ResumeClientModel c i now r)"
proof -
  have inv: "registry_ok (invalidateAvailableModelsCacheLocked x) = registry_ok x" for x
    by (rule core_cong(1)) simp
  show "registry_ok (SetModelQuotaExceeded c i now r)" "registry_ok (ClearModelQuotaExceeded c i r)"
    "registry_ok (SuspendClientModel c i reason now r)" "registry_ok (ResumeClientModel c i now r)"
    unfolding SetModelQuotaExceeded_def ClearModelQuotaExceeded_def SuspendClientModel_def ResumeClientModel_def
    using assms by (cases "modelAt r i"; simp add: inv mark_at [OF assms(1)] mark_cases)+
qed

lemma projection_marks:
  assumes "maps_ok reg" "0 \<le> now"
  shows "marks_only reg (snd (projectSuspension c proj now reg))" "marks_only reg (snd (projectQuota c proj now reg))"
  using assms by (simp_all add: projectSuspension_def projectQuota_def mark_cases marks_only_refl)

lemma projectStep_ok:
  assumes "registry_ok r" "0 \<le> now"
  shows "registry_ok (snd (projectStep c ids now proj (changed, r)))"
proof (cases "modelAt r (trim_space (pr_ModelID proj))")
  case None
  then show ?thesis using assms(1) by (simp add: projectStep_def Let_def)
next
  case (Some reg)
  define s1 where "s1 = snd (projectSuspension c proj now reg)"
  have "maps_ok reg \<Longrightarrow> marks_only reg (snd (projectQuota c proj now s1))"
    using projection_marks(1) [OF _ assms(2)] projection_marks(2) [OF marks_only_maps_ok assms(2)] marks_only_trans
    unfolding s1_def by blast
  from marks_ok(1) [OF assms(1) Some this] Some assms(1) show ?thesis
    by (simp add: projectStep_def Let_def s1_def case_prod_beta)
qed

lemma project_fold_ok:
  "registry_ok r \<Longrightarrow> 0 \<le> now \<Longrightarrow> registry_ok (snd (fold (projectStep c ids now) projs (changed, r)))"
proof (induction projs arbitrary: changed r)
  case (Cons proj projs)
  obtain ch u where u: "projectStep c ids now proj (changed, r) = (ch, u)" by (rule prod.exhaust)
  with projectStep_ok [OF Cons.prems, of c ids proj changed] Cons.IH [of u ch] Cons.prems(2) show ?case by simp
qed simp

lemma registry_ok_core: "core u = core r \<Longrightarrow> registry_ok r \<Longrightarrow> registry_ok u"
  using core_cong(1) by blast

lemma projections_ok:
  assumes "registry_ok r" "0 \<le> now"
  shows "registry_ok (snd (ApplyClientModelProjections c epoch g projs now r))"
proof -
  have *: "registry_ok (snd (let (changed, u) = fold (projectStep d ids now) projs (False, r\<lparr>mr_clientGenerations := gs\<rparr>)
      in (True, if changed then invalidateAvailableModelsCacheLocked u else u)))" for d ids gs
  proof -
    have "registry_ok (r\<lparr>mr_clientGenerations := gs\<rparr>)" by (rule registry_ok_core [OF _ assms(1)]) simp
    from project_fold_ok [OF this assms(2), of d ids projs False] registry_ok_core [of "invalidateAvailableModelsCacheLocked u" u for u]
    show ?thesis by (auto simp: Let_def split: prod.splits)
  qed
  show ?thesis
    using assms(1) * by (auto simp: ApplyClientModelProjections_def Let_def split: option.splits prod.splits)
qed

lemma cleanup_ok:
  assumes "registry_ok r"
  shows "registry_ok (CleanupExpiredQuotas now r)"
proof -
  define f :: "ModelRegistration \<Rightarrow> ModelRegistration" where "f = (\<lambda>reg. reg\<lparr>reg_QuotaExceededClients :=
    filter (\<lambda>(_, q). \<not> time_sub now q \<ge> modelQuotaExceededWindow) (reg_QuotaExceededClients reg)\<rparr>)"
  define u where "u = r\<lparr>mr_models := map (\<lambda>(i, reg). (i, f reg)) (mr_models r)\<rparr>"
  have at: "modelAt u i = map_option f (modelAt r i)" for i
  proof -
    have "map_of (map (\<lambda>(i, reg). (i, f reg)) m) i = map_option f (map_of m i)" for m
      by (induction m) auto
    then show ?thesis by (simp add: u_def)
  qed
  have u: "models_only r u" by (simp add: models_only_def u_def)
  have c: "counts_opt B (map_option f x) = counts_opt B x" if "counts_opt B x" for B x
    using that mark_cases(5) by (cases x) (simp_all add: counts_opt_def counts_def f_def marks_only_def maps_ok_def distinct_map_filter)
  have "registry_ok u"
  proof -
    have "bindings u = bindings r" by (simp add: fun_eq_iff bindings_def u_def)
    moreover have "wf_map (mr_models u)" using registry_okD(1) [OF assms] by (simp add: u_def comp_def case_prod_beta)
    moreover have "flagged a g (map_option f x) = flagged a g x" for a g x
      by (cases x) (simp_all add: flagged_def flagged_but_def f_def)
    ultimately show ?thesis using registry_okD [OF assms] models_only_clients(1) [OF u] web_search_frame [OF u] c
      by (simp add: registry_ok_def at)
  qed
  then show ?thesis using assms registry_ok_core [of "invalidateAvailableModelsCacheLocked u" u]
    by (simp add: CleanupExpiredQuotas_def Let_def u_def f_def)
qed

text \<open>A mutation of capabilities may not change the identifier of a model.\<close>

lemma mutateStep_ok:
  assumes "registry_ok r" "\<And>i info. mi_ID (mutate i info) = mi_ID info"
  shows "registry_ok (mutateStep c mutate i r)"
proof (cases "map_of (get_or [] (mr_clientModelInfos r) c) i")
  case None
  with assms(1) show ?thesis by (simp add: mutateStep_def Let_def)
next
  case (Some info)
  define infos where "infos = get_or [] (mr_clientModelInfos r) c"
  define p where "p = get_or '''' (mr_clientProviders r) c"
  define u where "u = r\<lparr>mr_clientModelInfos := AList.update c (AList.update i (mutate i info) infos) (mr_clientModelInfos r)\<rparr>"
  note ok = registry_okD(2) [OF assms(1)]
  have infos: "map_of (mr_clientModelInfos r) c = Some infos" "map_of infos i = Some info"
    using Some by (auto simp: infos_def get_or_def split: option.splits)
  obtain ids where ids: "map_of (mr_clientModels r) c = Some ids" using unknown_client(1) [OF ok] infos(1) by fastforce
  from known_client(5) [OF ok ids] infos(1)
  have props: "wf_map infos" "fst ` set infos = set ids" "\<forall>(i, info) \<in> set infos. mi_ID info = i" by auto
  have keys: "map fst (AList.update i (mutate i info) infos) = map fst infos"
    using infos(2) by (metis map_of_SomeD fst_conv imageI set_map update_keys)
  have props': "wf_map (AList.update i (mutate i info) infos)" "fst ` set (AList.update i (mutate i info) infos) = set ids"
    "\<forall>(i, info) \<in> set (AList.update i (mutate i info) infos). mi_ID info = i"
  proof -
    show "wf_map (AList.update i (mutate i info) infos)" unfolding keys by (rule props(1))
    have "fst ` set (AList.update i (mutate i info) infos) = set (map fst infos)" unfolding keys [symmetric] by simp
    then show "fst ` set (AList.update i (mutate i info) infos) = set ids" using props(2) by simp
    have "mi_ID (mutate i info) = i" using assms(2) props(3) infos(2) by (auto dest!: map_of_SomeD)
    then show "\<forall>(i, info) \<in> set (AList.update i (mutate i info) infos). mi_ID info = i"
      using props(3) by (auto dest!: set_update)
  qed
  have same: "mr_clientModels u = mr_clientModels r" "mr_clientProviders u = mr_clientProviders r" "mr_models u = mr_models r"
    "map_of (mr_clientModelInfos u) = (map_of (mr_clientModelInfos r))(c \<mapsto> AList.update i (mutate i info) infos)"
    "wf_map (mr_clientModelInfos u)" using clients_okD(2) [OF ok] by (simp_all add: u_def)
  have ok': "clients_ok u"
  proof -
    have "client_ok u d" for d
    proof (cases "d = c")
      case True
      then show ?thesis using known_client(1-4) [OF ok ids] props' unfolding client_ok_def same True by (simp add: ids)
    next
      case False
      then have "map_of (mr_clientModelInfos u) d = map_of (mr_clientModelInfos r) d" by (simp add: same)
      then have "client_ok u d = client_ok r d" unfolding client_ok_def same(1,2) by (simp only:)
      then show ?thesis using clients_okD(4) [OF ok] by simp
    qed
    then show ?thesis using clients_okD(1,3) [OF ok] same by (simp add: clients_ok_def)
  qed
  have sup: "supplies u d j q = supplies r d j q" if "d \<noteq> c \<or> j \<noteq> i \<or> q \<noteq> '''' \<and> q \<noteq> p" for d j q
    using that infos by (auto simp: supplies_def same p_def split: option.splits)
  have web: "hasClientSupportingWebSearchLocked u j q x = hasClientSupportingWebSearchLocked r j q x"
    if "j \<noteq> i \<or> q \<noteq> '''' \<and> q \<noteq> p" for j q x
    unfolding web_search_iff [OF same(5)] web_search_iff [OF clients_okD(2) [OF ok]] using sup that by metis
  have b: "bindings u = bindings r" by (simp add: fun_eq_iff bindings_def same)
  define f where "f = (\<lambda>reg. let reg = reg\<lparr>reg_Info := with_web_search (web_search u i '''') (reg_Info reg)\<rparr>
      in if p = '''' then reg else setProviderWebSearch p (web_search u i p) reg)"
  define w where "w = atModel i (map_option f) u"
  have step: "mutateStep c mutate i r = w"
    unfolding mutateStep_def Let_def infos_def [symmetric] p_def [symmetric] infos(2) option.case u_def [symmetric] w_def f_def ..
  have fr: "models_only u w" by (simp add: w_def)
  have "counts_opt B (map_option f x)" if "counts_opt B x" for B x
    using that by (cases x) (simp_all add: counts_opt_def f_def Let_def)
  from this [OF registry_okD(3) [OF assms(1), of i]]
  have "counts_opt (bindings r j) (modelAt w j)" for j
    using registry_okD(3) [OF assms(1), of j] by (simp add: w_def same)
  moreover have "bindings w = bindings r" using b by (simp add: fun_eq_iff bindings_def w_def)
  ultimately have "counts_opt (bindings w j) (modelAt w j)" for j by simp
  moreover have "flagged (web_search w j '''') (web_search w j) (modelAt w j)" for j
  proof (cases "j = i")
    case False
    then have "web_search u j q = web_search r j q" for q using web by blast
    moreover have "modelAt w j = modelAt r j" using False by (simp add: w_def same)
    ultimately show ?thesis using registry_okD(4) [OF assms(1), of j] by (simp add: web_search_frame [OF fr])
  next
    case True
    have old: "mi_SupportsWebSearch m = web_search u i q"
      if "modelAt r i = Some reg" "q \<noteq> ''''" "q \<noteq> p" "map_of (reg_InfoByProvider reg) q = Some m" for reg q m
    proof -
      have "web_search u i q = web_search r i q" using web that(2,3) by blast
      with registry_okD(4) [OF assms(1), of i] that(1,2,4) show ?thesis by (simp add: flagged_def flagged_but_def)
    qed
    show ?thesis
    proof (cases "modelAt r i")
      case None
      with True show ?thesis by (simp add: w_def same flagged_def flagged_but_def)
    next
      case (Some reg)
      have "reg_Info (f reg) = with_web_search (web_search u i '''') (reg_Info reg)" by (simp add: f_def Let_def)
      moreover have "mi_SupportsWebSearch m = web_search u i q"
        if "q \<noteq> ''''" "map_of (reg_InfoByProvider (f reg)) q = Some m" for q m
        using that old [OF Some, of q m] by (cases "q = p") (auto simp: f_def Let_def split: if_splits option.splits)
      ultimately show ?thesis unfolding web_search_frame [OF fr] True
        by (simp add: w_def same Some flagged_def flagged_but_def)
    qed
  qed
  ultimately have "registry_ok w"
    using ok' models_only_clients(1) [OF fr] registry_okD(1) [OF assms(1)] by (simp add: registry_ok_def w_def same)
  then show ?thesis by (simp add: step)
qed

lemma mutate_fold_ok:
  "registry_ok r \<Longrightarrow> (\<And>i info. mi_ID (mutate i info) = mi_ID info) \<Longrightarrow> registry_ok (fold (mutateStep c mutate) ids r)"
  by (induction ids arbitrary: r) (simp_all add: mutateStep_ok)

lemma capabilities_ok:
  assumes "registry_ok r" "\<And>f i info. mutate = Some f \<Longrightarrow> mi_ID (f i info) = mi_ID info"
  shows "registry_ok (snd (ApplyClientModelCapabilities c epoch mutate r))"
  using assms(1) mutate_fold_ok [OF assms(1)] assms(2) core_cong(1) [OF core_simps(2)]
  by (auto simp: ApplyClientModelCapabilities_def Let_def split: option.splits)

section \<open>Runs\<close>

text \<open>The operations on the registry as requests; each is served with one reading of the clock.\<close>

datatype regOp =
  OpSetHook bool
| OpRegister string string "ModelInfo list"
| OpRegisterIf string string nat "ModelInfo list" "bool option"
| OpUnregister string
| OpUnregisterIf string nat "bool option"
| OpReplace string string nat "ModelInfo list"
| OpSetQuota string string
| OpClearQuota string string
| OpSuspend string string string
| OpResume string string
| OpProject string nat nat "ClientModelProjection list"
| OpCapabilities string nat "(string \<Rightarrow> ModelInfo \<Rightarrow> ModelInfo) option"
| OpCleanup
| OpList string

fun regStep :: "time \<Rightarrow> regOp \<Rightarrow> ModelRegistry \<Rightarrow> ModelRegistry" where
  "regStep now (OpSetHook h) r = SetHook h r"
| "regStep now (OpRegister c p ms) r = RegisterClient c p ms now r"
| "regStep now (OpRegisterIf c p e ms pub) r = snd (RegisterClientIfEpochCurrent c p e ms pub now r)"
| "regStep now (OpUnregister c) r = UnregisterClient c now r"
| "regStep now (OpUnregisterIf c e pub) r = snd (UnregisterClientIfEpochCurrent c e pub now r)"
| "regStep now (OpReplace c p e ms) r = snd (ReplaceClientModels c p e ms now r)"
| "regStep now (OpSetQuota c i) r = SetModelQuotaExceeded c i now r"
| "regStep now (OpClearQuota c i) r = ClearModelQuotaExceeded c i r"
| "regStep now (OpSuspend c i reason) r = SuspendClientModel c i reason now r"
| "regStep now (OpResume c i) r = ResumeClientModel c i now r"
| "regStep now (OpProject c e g projs) r = snd (ApplyClientModelProjections c e g projs now r)"
| "regStep now (OpCapabilities c e mutate) r = snd (ApplyClientModelCapabilities c e mutate r)"
| "regStep now OpCleanup r = CleanupExpiredQuotas now r"
| "regStep now (OpList h) r = snd (GetAvailableModels h now r)"

text \<open>
  What the callers keep to: a client that registers has a name, and a mutation of capabilities
  does not rename a model.
\<close>

fun request_ok :: "regOp \<Rightarrow> bool" where
  "request_ok (OpRegister c p ms) \<longleftrightarrow> c \<noteq> ''''"
| "request_ok (OpRegisterIf c p e ms pub) \<longleftrightarrow> c \<noteq> ''''"
| "request_ok (OpReplace c p e ms) \<longleftrightarrow> c \<noteq> ''''"
| "request_ok (OpCapabilities c e mutate) \<longleftrightarrow> (\<forall>f i info. mutate = Some f \<longrightarrow> mi_ID (f i info) = mi_ID info)"
| "request_ok _ \<longleftrightarrow> True"

lemma listing_core: "core (snd (GetAvailableModels h now r)) = core r"
  by (simp add: GetAvailableModels_def Let_def case_prod_beta split: option.splits)

lemma regStep_ok: "registry_ok r \<Longrightarrow> 0 \<le> now \<Longrightarrow> request_ok op \<Longrightarrow> registry_ok (regStep now op r)"
proof (induction op)
  case (OpUnregister c)
  then show ?case using unregister_ok [of r c now] core_cong(1) [OF core_simps(2)] by (simp add: UnregisterClient_def)
next
  case (OpUnregisterIf c e pub)
  then show ?case using unregister_ok [of r c now] core_cong(1) [OF core_simps(2)] by (simp add: UnregisterClientIfEpochCurrent_def)
next
  case (OpSetHook h)
  then show ?case using core_cong(1) [OF core_simps(7)] by (simp add: SetHook_def)
next
  case (OpList h)
  then show ?case using core_cong(1) [OF listing_core] by simp
next
  case (OpCapabilities c e mutate)
  then show ?case using capabilities_ok [of r mutate] by simp
qed (simp_all add: RegisterClient_def RegisterClientIfEpochCurrent_def ReplaceClientModels_def Let_def register_ok
  quota_suspend_ok projections_ok cleanup_ok)

section \<open>The registry refines a map of clients\<close>

text \<open>
  What the registry promises: each client is known by its provider and the models it mentions, and
  an epoch counts its registrations. Quotas, suspensions and listings do not touch either.
\<close>

record clientSpec =
  sp_clients :: "string \<rightharpoonup> string \<times> string list"
  sp_epochs :: "string \<Rightarrow> nat"

definition specRegister :: "string \<Rightarrow> string \<Rightarrow> ModelInfo list \<Rightarrow> clientSpec \<Rightarrow> clientSpec" where
  "specRegister c p models s =
     \<lparr>sp_clients = (sp_clients s)(c := if rawModelIDs models = [] then None else Some (to_lower p, rawModelIDs models)),
      sp_epochs = (sp_epochs s)(c := uint64_succ (sp_epochs s c))\<rparr>"

fun specStep :: "regOp \<Rightarrow> clientSpec \<Rightarrow> clientSpec" where
  "specStep (OpRegister c p ms) s = specRegister c p ms s"
| "specStep (OpRegisterIf c p e ms pub) s = (if sp_epochs s c = e \<and> pub = Some True then specRegister c p ms s else s)"
| "specStep (OpUnregister c) s = specRegister c '''' [] s"
| "specStep (OpUnregisterIf c e pub) s = (if sp_epochs s c = e \<and> pub = Some True then specRegister c '''' [] s else s)"
| "specStep (OpReplace c p e ms) s = (if sp_epochs s c = e then specRegister c p ms s else s)"
| "specStep _ s = s"

definition registryView :: "ModelRegistry \<Rightarrow> clientSpec" where
  "registryView r =
     \<lparr>sp_clients = (\<lambda>c. map_option (Pair (get_or '''' (mr_clientProviders r) c)) (map_of (mr_clientModels r) c)),
      sp_epochs = ClientRegistrationEpoch r\<rparr>"

definition seats :: "ModelRegistry \<Rightarrow> (string \<times> string list) list \<times> (string \<times> string) list \<times> (string \<times> nat) list" where
  "seats r = (mr_clientModels r, mr_clientProviders r, mr_clientEpochs r)"

lemma view_of_seats: "seats u = seats r \<Longrightarrow> registryView u = registryView r"
  by (simp add: seats_def registryView_def ClientRegistrationEpoch_def fun_eq_iff)

lemma seats_models_only: "models_only r u \<Longrightarrow> seats u = seats r"
  by (simp add: seats_def models_onlyD)

lemma seats_simps [simp]:
  "seats (atModel i f r) = seats r" "seats (invalidateAvailableModelsCacheLocked r) = seats r"
  "seats (r\<lparr>mr_clientGenerations := g\<rparr>) = seats r" "seats (r\<lparr>mr_availableModelsCache := x\<rparr>) = seats r"
  "seats (r\<lparr>mr_hook := h\<rparr>) = seats r" "seats (r\<lparr>mr_models := ms\<rparr>) = seats r" "seats (r\<lparr>mr_clientModelInfos := is\<rparr>) = seats r"
  by (simp_all add: seats_models_only) (simp_all add: seats_def invalidateAvailableModelsCacheLocked_def)

lemma seats_projections: "seats (snd (fold (projectStep c ids now) projs (changed, r))) = seats r"
proof (induction projs arbitrary: changed r)
  case (Cons proj projs)
  obtain ch u where u: "projectStep c ids now proj (changed, r) = (ch, u)" by (rule prod.exhaust)
  then have "seats u = seats r"
    by (auto simp: projectStep_def Let_def split: if_splits option.splits prod.splits)
  with u Cons.IH [of ch u] show ?case by simp
qed simp

lemma seats_mutations: "seats (fold (mutateStep c f) is r) = seats r"
proof (induction "is" arbitrary: r)
  case (Cons i "is")
  have "seats (mutateStep c f i r) = seats r" by (simp add: mutateStep_def Let_def split: option.splits)
  with Cons.IH [of "mutateStep c f i r"] show ?case by simp
qed simp

lemma seats_marks:
  "seats (SetModelQuotaExceeded c i now r) = seats r" "seats (ClearModelQuotaExceeded c i r) = seats r"
  "seats (SuspendClientModel c i reason now r) = seats r" "seats (ResumeClientModel c i now r) = seats r"
  "seats (snd (ApplyClientModelProjections c e g projs now r)) = seats r"
  "seats (snd (ApplyClientModelCapabilities c e mutate r)) = seats r"
  "seats (CleanupExpiredQuotas now r) = seats r" "seats (snd (GetAvailableModels h now r)) = seats r"
  "seats (SetHook b r) = seats r"
  by (simp_all add: SetModelQuotaExceeded_def ClearModelQuotaExceeded_def SuspendClientModel_def ResumeClientModel_def
      ApplyClientModelProjections_def ApplyClientModelCapabilities_def CleanupExpiredQuotas_def GetAvailableModels_def
      SetHook_def Let_def case_prod_beta seats_projections seats_mutations split: option.splits)

lemma fold_keeps: "(\<And>x s. g (f x s) = g s) \<Longrightarrow> g (fold f xs s) = g s"
  by (induction xs arbitrary: s) simp_all

lemma unregister_epochs: "mr_clientEpochs (unregisterClientInternal c now r) = mr_clientEpochs (advanceEpoch c r)"
proof -
  have "mr_clientEpochs (fold (\<lambda>i r. atModel i (f i r) r) ids u) = mr_clientEpochs u" for f ids u
    by (rule fold_keeps) (rule models_onlyD(4) [OF models_only_atModel])
  then show ?thesis
    by (simp add: unregisterClientInternal_def Let_def triggerModelsUnregistered_def forgetRegistration_def split: option.splits)
qed

lemma register_epochs:
  assumes "registry_ok r"
  shows "mr_clientEpochs (registerClientLocked c clientProvider models keep now r) = mr_clientEpochs (advanceEpoch c r)"
proof (cases "rawModelIDs models = []")
  case True
  then show ?thesis
    by (simp add: registerClientLocked_def Let_def invalidateAvailableModelsCacheLocked_def forgetRegistration_def unregister_epochs)
next
  case False
  have fresh: "mr_clientEpochs (fold (\<lambda>i. addModelRegistration i p (the (map_of (newModels models) i)) now c) (rawModelIDs models) u) =
      mr_clientEpochs u" and again: "mr_clientEpochs (reconcileClient c p models k old now u) = mr_clientEpochs u"
    if "core u = core r" for p k old u
  proof -
    have wf: "wf_map (mr_models u)" using registry_okD(1) [OF assms] that by (simp add: core_def)
    show "mr_clientEpochs (fold (\<lambda>i. addModelRegistration i p (the (map_of (newModels models) i)) now c) (rawModelIDs models) u) =
      mr_clientEpochs u"
      using freshClient_acts [OF wf, of p models now c] by (blast intro: models_onlyD(4))
    show "mr_clientEpochs (reconcileClient c p models k old now u) = mr_clientEpochs u"
      using reconcileClient_acts [OF wf, of c p models k old now] by (blast intro: models_onlyD(4))
  qed
  show ?thesis using False
    by (simp add: registerClientLocked_def Let_def invalidateAvailableModelsCacheLocked_def triggerModelsRegistered_def
        storeClient_def fresh again split: option.splits)
qed

lemma epochs_advance: "mr_clientEpochs u = mr_clientEpochs (advanceEpoch c r) \<Longrightarrow>
    ClientRegistrationEpoch u = (ClientRegistrationEpoch r)(c := uint64_succ (ClientRegistrationEpoch r c))"
  by (simp add: ClientRegistrationEpoch_def advanceEpoch_def get_or_def update_conv' fun_eq_iff)

lemma view_unregister:
  assumes "registry_ok r"
  shows "registryView (unregisterClientInternal c now r) = specRegister c '''' [] (registryView r)"
  using unregister_gone [OF assms, of c now] epochs_advance [OF unregister_epochs, of c now r]
  by (simp add: registryView_def specRegister_def rawModelIDs_def get_or_def fun_eq_iff)

lemma view_register:
  assumes "registry_ok r" "c \<noteq> ''''"
  shows "registryView (registerClientLocked c clientProvider models keep now r) = specRegister c clientProvider models (registryView r)"
proof (cases "rawModelIDs models = []")
  case True
  let ?u = "unregisterClientInternal c now r"
  have "core (forgetRegistration c ?u) = core ?u"
    by (rule forget_absent [OF registry_okD(2) [OF unregister_ok [OF assms(1)]]]) (simp add: unregister_gone(1) [OF assms(1)])
  then have "seats (registerClientLocked c clientProvider models keep now r) = seats ?u"
    using True by (simp add: registerClientLocked_def Let_def) (simp add: seats_def core_def forgetRegistration_def)
  from view_of_seats [OF this] view_unregister [OF assms(1), of c now] True show ?thesis
    by (simp add: specRegister_def rawModelIDs_def)
next
  case False
  obtain v where v: "models_only r v"
    "core (registerClientLocked c clientProvider models keep now r) = core (storeClient c (to_lower clientProvider) models v)"
    using register_shape [OF registry_okD(1) [OF assms(1)] False] by metis
  let ?u = "registerClientLocked c clientProvider models keep now r"
  have "map_of (mr_clientModels ?u) = (map_of (mr_clientModels r))(c \<mapsto> rawModelIDs models)"
    "map_of (mr_clientProviders ?u) = (map_of (mr_clientProviders r))(c := if to_lower clientProvider = '''' then None else Some (to_lower clientProvider))"
    using storeClient_fields(1,3) [of c "to_lower clientProvider" models v] v models_onlyD(1,3) [OF v(1)]
    by (simp_all only: core_def prod.inject)
  with epochs_advance [OF register_epochs [OF assms(1)], of c clientProvider models keep now] False show ?thesis
    by (simp add: registryView_def specRegister_def get_or_def fun_eq_iff)
qed

lemma regStep_view:
  assumes "registry_ok r" "request_ok op"
  shows "registryView (regStep now op r) = specStep op (registryView r)"
proof -
  have inv: "registryView (invalidateAvailableModelsCacheLocked u) = registryView u" for u by (rule view_of_seats) simp
  have epochs: "sp_epochs (registryView r) c = get_or 0 (mr_clientEpochs r) c" for c
    by (simp add: registryView_def ClientRegistrationEpoch_def)
  show ?thesis
    using assms by (cases op) (simp_all add: RegisterClient_def RegisterClientIfEpochCurrent_def UnregisterClient_def
        UnregisterClientIfEpochCurrent_def ReplaceClientModels_def Let_def inv epochs view_register view_unregister
        view_of_seats [OF seats_marks(1)] view_of_seats [OF seats_marks(2)] view_of_seats [OF seats_marks(3)]
        view_of_seats [OF seats_marks(4)] view_of_seats [OF seats_marks(5)] view_of_seats [OF seats_marks(6)]
        view_of_seats [OF seats_marks(7)] view_of_seats [OF seats_marks(8)] view_of_seats [OF seats_marks(9)])
qed

definition emptySpec :: clientSpec where
  "emptySpec = \<lparr>sp_clients = (\<lambda>_. None), sp_epochs = (\<lambda>_. 0)\<rparr>"

lemma view_newRegistry: "registryView newRegistry = emptySpec"
  by (simp add: registryView_def emptySpec_def newRegistry_def ClientRegistrationEpoch_def get_or_def fun_eq_iff)

lemma view_run:
  "registry_ok r \<Longrightarrow> \<forall>(t, op) \<in> set ops. 0 \<le> t \<and> request_ok op \<Longrightarrow>
   registryView (fold (\<lambda>(t, op). regStep t op) ops r) = fold (\<lambda>(t, op). specStep op) ops (registryView r)"
  by (induction ops arbitrary: r) (auto simp: regStep_view regStep_ok)

definition sample_model :: "string \<Rightarrow> ModelInfo" where
  "sample_model i = \<lparr>mi_ID = i, mi_MetadataModelID = '''', mi_ExplicitThinking = False, mi_ExplicitInputModalities = False,
     mi_Object = ''model'', mi_Created = 0, mi_OwnedBy = '''', mi_Type = '''', mi_DisplayName = '''', mi_Name = '''',
     mi_Version = '''', mi_Description = '''', mi_InputTokenLimit = 0, mi_OutputTokenLimit = 0,
     mi_SupportedGenerationMethods = [], mi_ContextLength = 0, mi_MaxContextLength = 0, mi_MaxCompletionTokens = 0,
     mi_SupportedParameters = [], mi_SupportedInputModalities = [], mi_SupportedOutputModalities = [],
     mi_SupportsWebSearch = (i = ''m''), mi_SupportConfigurationUpdate = False, mi_NativeCapabilities = None,
     mi_Thinking = None, mi_Config = None, mi_UserDefined = False, mi_IsCompat = False\<rparr>"

definition sample_ops :: "(time \<times> regOp) list" where
  "sample_ops =
     [(1, OpRegister ''a'' ''Gemini'' [sample_model ''m'', sample_model ''n'']), (2, OpRegister ''b'' ''claude'' [sample_model ''m'']),
      (3, OpSetQuota ''a'' ''m''), (3, OpRegister ''c'' ''claude'' [sample_model ''n'']), (4, OpUnregisterIf ''b'' 7 (Some True)),
      (5, OpUnregister ''c''), (5, OpReplace ''a'' ''claude'' 1 [sample_model ''m''])]"

text \<open>
  (C30) The registry refines its abstract specification: after any sequence of operations, each at its own
  time, the providers and models of the clients and the epochs of their registrations are those of
  the map of clients; quotas, suspensions, projections, mutations of capabilities and listings do
  not show in it, and a fenced operation counts only if its epoch is current.
\<close>

theorem registry_refines_clients:
  assumes "\<forall>(t, op) \<in> set ops. 0 \<le> t \<and> request_ok op"
  shows "registryView (fold (\<lambda>(t, op). regStep t op) ops newRegistry) = fold (\<lambda>(t, op). specStep op) ops emptySpec"
  using view_run [OF newRegistry_ok assms] by (simp add: view_newRegistry)

theorem registry_refines_clients_witness:
  "(let s = registryView (fold (\<lambda>(t, op). regStep t op) sample_ops newRegistry)
    in sp_clients s ''a'' = Some (''claude'', [''m'']) \<and> sp_clients s ''b'' = Some (''claude'', [''m'']) \<and>
       sp_clients s ''c'' = None \<and> sp_epochs s ''a'' = 2 \<and> sp_epochs s ''c'' = 2)"
proof -
  have "\<forall>(t, op) \<in> set sample_ops. 0 \<le> t \<and> request_ok op" by (simp add: sample_ops_def)
  moreover have "(let s = fold (\<lambda>(t, op). specStep op) sample_ops emptySpec
    in sp_clients s ''a'' = Some (''claude'', [''m'']) \<and> sp_clients s ''b'' = Some (''claude'', [''m'']) \<and>
       sp_clients s ''c'' = None \<and> sp_epochs s ''a'' = 2 \<and> sp_epochs s ''c'' = 2)" by code_simp
  ultimately show ?thesis using registry_refines_clients [of sample_ops] by simp
qed

section \<open>Reachable registries\<close>

inductive registry_moves :: "ModelRegistry \<times> time \<Rightarrow> ModelRegistry \<times> time \<Rightarrow> bool" where
  serve: "request_ok op \<Longrightarrow> clock \<le> now \<Longrightarrow> registry_moves (r, clock) (regStep now op r, now)"

inductive_cases registry_movesE: "registry_moves s s'"

definition registry_inv :: "ModelRegistry \<times> time \<Rightarrow> bool" where
  "registry_inv = (\<lambda>(r, clock). registry_ok r \<and> 0 \<le> clock)"

interpretation mreg: transition_system "(newRegistry, 0)" registry_moves registry_inv
  by unfold_locales (auto simp: registry_inv_def newRegistry_ok regStep_ok elim!: registry_movesE)

lemma reachable_ok: "registry_moves\<^sup>*\<^sup>* (newRegistry, 0) (r, clock) \<Longrightarrow> registry_ok r \<and> 0 \<le> clock"
  using mreg.inv_reachable [of "(r, clock)"] by (simp add: registry_inv_def)

text \<open>The operations of a list in the order of their times make a run.\<close>

lemma run_reachable:
  "\<forall>(t, op) \<in> set ops. request_ok op \<Longrightarrow> sorted (clock # map fst ops) \<Longrightarrow>
   registry_moves\<^sup>*\<^sup>* (r, clock) (fold (\<lambda>(t, op). regStep t op) ops r, last (clock # map fst ops))"
proof (induction ops arbitrary: r clock)
  case (Cons x ops)
  obtain t op where x: "x = (t, op)" by (rule prod.exhaust)
  with Cons.prems have "registry_moves (r, clock) (regStep t op r, t)" by (auto intro: serve)
  moreover have "registry_moves\<^sup>*\<^sup>* (regStep t op r, t) (fold (\<lambda>(t, op). regStep t op) ops (regStep t op r), last (t # map fst ops))"
    using Cons.IH [of t "regStep t op r"] Cons.prems by (simp add: x)
  ultimately show ?case by (simp add: x converse_rtranclp_into_rtranclp)
qed simp

lemma sum_over_clients:
  "wf_map cl \<Longrightarrow> (\<Sum>(c, ids) \<leftarrow> cl. g c ids) = (\<Sum>c \<in> dom (map_of cl). g c (the (map_of cl c)))"
  for g :: "'a \<Rightarrow> 'b \<Rightarrow> nat"
proof (induction cl)
  case (Cons x cl)
  obtain c ids where x: "x = (c, ids)" by (rule prod.exhaust)
  then have c: "c \<notin> dom (map_of cl)" "wf_map cl" using Cons.prems by (auto simp: dom_map_of_conv_image_fst)
  have "(\<Sum>d \<in> dom (map_of cl). g d (the (map_of (x # cl) d))) = (\<Sum>d \<in> dom (map_of cl). g d (the (map_of cl d)))"
    by (rule sum.cong) (use c in \<open>auto simp: x\<close>)
  moreover have dom: "dom (map_of (x # cl)) = insert c (dom (map_of cl))" by (auto simp: x)
  ultimately show ?case using Cons.IH [OF c(2)] c(1) unfolding dom by (simp add: x finite_dom_map_of)
qed simp

lemma size_bindings_of: "size (bindings_of cl prov i) = (\<Sum>(c, ids) \<leftarrow> cl. count_list ids i)"
  by (induction cl) (auto simp: bindings_of_def)

lemma count_bindings_of:
  "count (bindings_of cl prov i) p = (\<Sum>(c, ids) \<leftarrow> cl. if prov c = p then count_list ids i else 0)"
  by (induction cl) (auto simp: bindings_of_def)

text \<open>The clients of a registry, one sum over them per count.\<close>

lemma seated:
  "sp_clients (registryView r) c = Some (p, ids) \<longleftrightarrow> map_of (mr_clientModels r) c = Some ids \<and> p = get_or '''' (mr_clientProviders r) c"
  by (auto simp: registryView_def)

lemma bindings_sums:
  assumes "clients_ok r"
  shows "size (bindings r i) = (\<Sum>c \<in> dom (sp_clients (registryView r)). count_list (snd (the (sp_clients (registryView r) c))) i)"
    "count (bindings r i) p = (\<Sum>c \<in> dom (sp_clients (registryView r)). case the (sp_clients (registryView r) c) of
       (q, ids) \<Rightarrow> if q = p then count_list ids i else 0)"
proof -
  have dom: "dom (sp_clients (registryView r)) = dom (map_of (mr_clientModels r))" by (auto simp: registryView_def dom_def)
  show "size (bindings r i) = (\<Sum>c \<in> dom (sp_clients (registryView r)). count_list (snd (the (sp_clients (registryView r) c))) i)"
    unfolding bindings_def size_bindings_of sum_over_clients [OF clients_okD(1) [OF assms]] dom
    by (rule sum.cong) (auto simp: registryView_def)
  show "count (bindings r i) p = (\<Sum>c \<in> dom (sp_clients (registryView r)). case the (sp_clients (registryView r) c) of
       (q, ids) \<Rightarrow> if q = p then count_list ids i else 0)"
    unfolding bindings_def count_bindings_of sum_over_clients [OF clients_okD(1) [OF assms]] dom
    by (rule sum.cong) (auto simp: registryView_def)
qed

lemma bindings_mentions:
  assumes "clients_ok r"
  shows "p \<in># bindings r i \<longleftrightarrow> (\<exists>c ids. sp_clients (registryView r) c = Some (p, ids) \<and> i \<in> set ids)"
proof -
  have "p \<in># bindings_of cl prov i \<longleftrightarrow> (\<exists>(c, ids) \<in> set cl. prov c = p \<and> i \<in> set ids)" for cl prov
    by (induction cl) (auto simp: bindings_of_def in_replicate_mset count_list_0_iff split: if_splits)
  moreover have "(c, ids) \<in> set (mr_clientModels r) \<longleftrightarrow> map_of (mr_clientModels r) c = Some ids" for c ids
    using clients_okD(1) [OF assms] by simp
  ultimately show ?thesis unfolding bindings_def seated by fastforce
qed

lemma set_GetModelProviders:
  assumes "registry_ok r"
  shows "set (GetModelProviders r i) = {p. p \<noteq> '''' \<and> p \<in># bindings r i}"
proof (cases "modelAt r i")
  case None
  with registry_okD(3) [OF assms, of i] show ?thesis by (simp add: GetModelProviders_def counts_opt_def)
next
  case (Some reg)
  with registry_okD(3) [OF assms, of i] have c: "counts (bindings r i) reg" by (simp add: counts_opt_def)
  have "set (GetModelProviders r i) = fst ` {x \<in> set (reg_Providers reg). snd x > 0}"
  proof -
    have "set (slice_stable lt xs) = set xs" for lt and xs :: "(string \<times> int) list"
      by (metis mset_slice_stable set_mset_mset)
    then show ?thesis by (auto simp: GetModelProviders_def Some)
  qed
  also have "\<dots> = {p. \<exists>n. map_of (reg_Providers reg) p = Some n \<and> n > 0}"
  proof -
    have "distinct (map fst (reg_Providers reg))" using c by (simp add: counts_def maps_ok_def)
    then have "(p, n) \<in> set (reg_Providers reg) \<longleftrightarrow> map_of (reg_Providers reg) p = Some n" for p n by simp
    then show ?thesis by force
  qed
  also have "\<dots> = {p. p \<noteq> '''' \<and> p \<in># bindings r i}"
    using c by (auto simp: counts_def provider_counts_def)
  finally show ?thesis .
qed

text \<open>
  (C31) In every reachable registry the counters of a model are those of its clients: a model is known
  exactly if some client mentions it, its count and the count of each provider are the numbers of
  mentions by the clients (of that provider), and the providers it reports are those of the clients
  that mention it.
\<close>

theorem registry_counts_clients:
  assumes "registry_moves\<^sup>*\<^sup>* (newRegistry, 0) (r, clock)"
  defines "clients \<equiv> sp_clients (registryView r)"
  shows "(map_of (mr_models r) i = None) = (\<nexists>c p ids. clients c = Some (p, ids) \<and> i \<in> set ids) \<and>
    (case map_of (mr_models r) i of None \<Rightarrow> True | Some reg \<Rightarrow>
           reg_Count reg = int (\<Sum>c \<in> dom clients. count_list (snd (the (clients c))) i) \<and>
           (p = '''' \<or> get_or 0 (reg_Providers reg) p =
              int (\<Sum>c \<in> dom clients. case the (clients c) of (q, ids) \<Rightarrow> if q = p then count_list ids i else 0))) \<and>
    set (GetModelProviders r i) = {p. p \<noteq> '''' \<and> (\<exists>c ids. clients c = Some (p, ids) \<and> i \<in> set ids)}"
proof (intro conjI)
  have ok: "registry_ok r" using reachable_ok [OF assms(1)] by simp
  note cl = registry_okD(2) [OF ok]
  note at = registry_okD(3) [OF ok, of i]
  have "(map_of (mr_models r) i = None) = (bindings r i = {#})"
    using at by (auto simp: counts_opt_def split: option.splits)
  also have "\<dots> = (\<nexists>p. p \<in># bindings r i)" by auto
  finally show "(map_of (mr_models r) i = None) = (\<nexists>c p ids. clients c = Some (p, ids) \<and> i \<in> set ids)"
    unfolding bindings_mentions [OF cl] clients_def by blast
  show "case map_of (mr_models r) i of None \<Rightarrow> True | Some reg \<Rightarrow>
           reg_Count reg = int (\<Sum>c \<in> dom clients. count_list (snd (the (clients c))) i) \<and>
           (p = '''' \<or> get_or 0 (reg_Providers reg) p =
              int (\<Sum>c \<in> dom clients. case the (clients c) of (q, ids) \<Rightarrow> if q = p then count_list ids i else 0))"
    using at unfolding clients_def bindings_sums [OF cl, symmetric]
    by (cases "p = ''''") (auto simp: counts_opt_def counts_def provider_counts_def get_or_def not_in_iff
        split: option.splits if_splits)
  show "set (GetModelProviders r i) = {p. p \<noteq> '''' \<and> (\<exists>c ids. clients c = Some (p, ids) \<and> i \<in> set ids)}"
    unfolding set_GetModelProviders [OF ok] bindings_mentions [OF cl] clients_def ..
qed

definition sample_registry :: ModelRegistry where
  "sample_registry = fold (\<lambda>(t, op). regStep t op) sample_ops newRegistry"

lemma sample_reachable: "registry_moves\<^sup>*\<^sup>* (newRegistry, 0) (sample_registry, 5)"
  using run_reachable [of sample_ops 0 newRegistry] by (simp add: sample_ops_def sample_registry_def)

theorem registry_counts_clients_witness:
  "set (GetModelProviders sample_registry ''m'') = {p. p \<noteq> '''' \<and>
     (\<exists>c ids. sp_clients (registryView sample_registry) c = Some (p, ids) \<and> ''m'' \<in> set ids)} \<and>
   GetModelProviders sample_registry ''m'' = [''claude''] \<and>
   map_option reg_Count (map_of (mr_models sample_registry) ''m'') = Some 2 \<and> map_of (mr_models sample_registry) ''n'' = None"
proof (intro conjI)
  show "set (GetModelProviders sample_registry ''m'') = {p. p \<noteq> '''' \<and>
     (\<exists>c ids. sp_clients (registryView sample_registry) c = Some (p, ids) \<and> ''m'' \<in> set ids)}"
    using registry_counts_clients [OF sample_reachable, of "''m''"] by blast
qed code_simp+

text \<open>
  In every reachable registry the web-search flag shown for a model says whether some client supplies
  the model with web search, and the one shown for a provider whether some client of that provider does.
\<close>

lemma registry_web_search_flags:
  assumes "registry_moves\<^sup>*\<^sup>* (newRegistry, 0) (r, clock)" "map_of (mr_models r) i = Some reg"
  defines "supplied \<equiv> \<lambda>ok. \<exists>c infos info. ok (get_or '''' (mr_clientProviders r) c) \<and>
      map_of (mr_clientModelInfos r) c = Some infos \<and> map_of infos i = Some info \<and> mi_SupportsWebSearch info"
  shows "mi_SupportsWebSearch (reg_Info reg) = supplied (\<lambda>_. True) \<and>
    (\<forall>p shown. p \<noteq> '''' \<and> map_of (reg_InfoByProvider reg) p = Some shown \<longrightarrow> mi_SupportsWebSearch shown = supplied (\<lambda>q. q = p))"
proof -
  have ok: "registry_ok r" using reachable_ok [OF assms(1)] by simp
  note wf = clients_okD(2) [OF registry_okD(2) [OF ok]] and no = clients_okD(6) [OF registry_okD(2) [OF ok]]
  have web: "web_search r i q = supplied (\<lambda>q'. q = '''' \<or> q' = q)" for q
  proof -
    have "supplies r '''' i q = False" using no by (simp add: supplies_def)
    then show ?thesis unfolding web_search_iff [OF wf] supplied_def
      by (fastforce simp: supplies_def split: option.splits)
  qed
  note fl = registry_okD(4) [OF ok, of i]
  have "mi_SupportsWebSearch (reg_Info reg) = supplied (\<lambda>_. True)"
    using fl assms(2) by (simp add: flagged_def web)
  moreover have "mi_SupportsWebSearch shown = supplied (\<lambda>q. q = p)"
    if "p \<noteq> ''''" "map_of (reg_InfoByProvider reg) p = Some shown" for p shown
    using fl assms(2) that by (simp add: flagged_def flagged_but_def web)
  ultimately show ?thesis by blast
qed

lemma registry_web_search_flags_witness:
  "map_option (mi_SupportsWebSearch \<circ> reg_Info) (map_of (mr_models sample_registry) ''m'') = Some True \<and>
   (\<exists>c infos info. map_of (mr_clientModelInfos sample_registry) c = Some infos \<and> map_of infos ''m'' = Some info \<and> mi_SupportsWebSearch info)"
proof -
  define reg where "reg = the (map_of (mr_models sample_registry) ''m'')"
  have "map_of (mr_models sample_registry) ''m'' \<noteq> None" by code_simp
  then have reg: "map_of (mr_models sample_registry) ''m'' = Some reg" by (auto simp: reg_def)
  have "mi_SupportsWebSearch (reg_Info reg)" unfolding reg_def by code_simp
  with registry_web_search_flags [OF sample_reachable reg] reg show ?thesis by auto
qed

text \<open>Epochs only count upwards, one at a time.\<close>

lemma spec_epoch_step: "\<exists>k \<le> 1. sp_epochs (specStep op s) c mod 18446744073709551616 = (sp_epochs s c + k) mod 18446744073709551616"
proof -
  have "\<exists>k \<le> 1. sp_epochs (specRegister d p ms s) c mod 18446744073709551616 = (sp_epochs s c + k) mod 18446744073709551616" for d p ms
    by (rule exI [of _ "if c = d then 1 else 0"]) (simp add: specRegister_def uint64_succ_def)
  moreover have "\<exists>k \<le> 1. sp_epochs s c mod 18446744073709551616 = (sp_epochs s c + k) mod 18446744073709551616"
    by (rule exI [of _ 0]) simp
  ultimately show ?thesis by (cases op) simp_all
qed

lemma spec_epoch_run:
  "\<exists>k \<le> length ops. sp_epochs (fold (\<lambda>(t, op). specStep op) ops s) c mod 18446744073709551616 =
     (sp_epochs s c + k) mod 18446744073709551616"
proof (induction ops arbitrary: s)
  case (Cons x ops)
  obtain t op where x: "x = (t, op)" by (rule prod.exhaust)
  obtain j where j: "j \<le> 1" "sp_epochs (specStep op s) c mod 18446744073709551616 = (sp_epochs s c + j) mod 18446744073709551616"
    using spec_epoch_step by blast
  obtain k where k: "k \<le> length ops" "sp_epochs (fold (\<lambda>(t, op). specStep op) ops (specStep op s)) c mod 18446744073709551616 =
     (sp_epochs (specStep op s) c + k) mod 18446744073709551616" using Cons.IH by blast
  have "(sp_epochs (specStep op s) c + k) mod 18446744073709551616 = (sp_epochs s c + (j + k)) mod 18446744073709551616"
  proof -
    have "(sp_epochs (specStep op s) c + k) mod M = (sp_epochs s c + j + k) mod M"
      if "sp_epochs (specStep op s) c mod M = (sp_epochs s c + j) mod M" for M
      using mod_add_cong [OF that refl] by simp
    from this [OF j(2)] show ?thesis by (simp only: add.assoc)
  qed
  with j(1) k show ?case by (intro exI [of _ "j + k"]) (simp add: x)
qed (intro exI [of _ 0], simp)

text \<open>
  (C32) A fence admits one writer: after a fenced registration of a client has gone through, no fenced
  registration, removal or replacement of the same client with the same expected epoch succeeds, whatever
  operations happen in between, until the epoch counter has gone around.
\<close>

theorem fence_admits_one:
  assumes "registry_moves\<^sup>*\<^sup>* (newRegistry, 0) (r, clock)" "clock \<le> now" "c \<noteq> ''''"
    and "RegisterClientIfEpochCurrent c p e ms pub now r = (True, r')"
    and "\<forall>(t, op) \<in> set ops. 0 \<le> t \<and> request_ok op" "length ops < 18446744073709551615"
  defines "later \<equiv> fold (\<lambda>(t, op). regStep t op) ops r'"
  shows "RegisterClientIfEpochCurrent c q e ms' pub' t later = (False, later) \<and>
    UnregisterClientIfEpochCurrent c e pub' t later = (False, later) \<and>
    ReplaceClientModels c q e ms' t later = ((0, False), later)"
proof -
  have ok: "registry_ok r" "0 \<le> now" using reachable_ok [OF assms(1)] assms(2) by auto
  have e: "get_or 0 (mr_clientEpochs r) c = e" and r': "r' = registerClientLocked c p ms False now r"
    using assms(4) by (auto simp: RegisterClientIfEpochCurrent_def split: if_splits)
  have ok': "registry_ok r'" unfolding r' by (rule register_ok [OF ok(1) assms(3)])
  have "sp_epochs (registryView r') c = uint64_succ e"
    unfolding r' view_register [OF ok(1) assms(3)] using e
    by (simp add: specRegister_def registryView_def ClientRegistrationEpoch_def)
  then obtain k where k: "k \<le> length ops"
    "sp_epochs (registryView later) c mod 18446744073709551616 = (uint64_succ e + k) mod 18446744073709551616"
    using spec_epoch_run [of ops "registryView r'" c] view_run [OF ok' assms(5)] by (auto simp: later_def)
  have "get_or 0 (mr_clientEpochs later) c mod 18446744073709551616 = (e + (k + 1)) mod 18446744073709551616"
  proof -
    have "(uint64_succ e + k) mod 18446744073709551616 = (e + 1 + k) mod 18446744073709551616"
      unfolding uint64_succ_def by (rule mod_add_left_eq)
    with k(2) show ?thesis by (simp add: registryView_def ClientRegistrationEpoch_def)
  qed
  moreover have "(e + (k + 1)) mod 18446744073709551616 \<noteq> e mod 18446744073709551616"
  proof
    assume "(e + (k + 1)) mod 18446744073709551616 = e mod 18446744073709551616"
    then have "18446744073709551616 dvd (e + (k + 1)) - e" by (subst (asm) mod_eq_dvd_iff_nat) simp_all
    then have "18446744073709551616 \<le> k + 1" by (intro dvd_imp_le) simp_all
    then show False using k(1) assms(6) by simp
  qed
  ultimately have "get_or 0 (mr_clientEpochs later) c \<noteq> e" by metis
  then show ?thesis by (simp add: RegisterClientIfEpochCurrent_def UnregisterClientIfEpochCurrent_def ReplaceClientModels_def)
qed

theorem fence_admits_one_witness:
  "(let r' = snd (RegisterClientIfEpochCurrent ''c'' ''xai'' 2 [sample_model ''n''] (Some True) 6 sample_registry);
        later = fold (\<lambda>(t, op). regStep t op) [(7, OpUnregister ''c'')] r'
    in fst (RegisterClientIfEpochCurrent ''c'' ''xai'' 2 [sample_model ''n''] (Some True) 6 sample_registry) \<and>
       ReplaceClientModels ''c'' ''xai'' 2 [] 8 later = ((0, False), later))"
proof -
  define x where "x = RegisterClientIfEpochCurrent ''c'' ''xai'' 2 [sample_model ''n''] (Some True) 6 sample_registry"
  have "fst x" unfolding x_def by code_simp
  then have x: "x = (True, snd x)" by (metis prod.collapse)
  have "\<forall>(t, op) \<in> set [(7 :: time, OpUnregister ''c'')]. 0 \<le> t \<and> request_ok op" by simp
  from fence_admits_one [OF sample_reachable _ _ x [unfolded x_def] this, where q = "''xai''" and ms' = "[]" and t = 8] \<open>fst x\<close>
  show ?thesis unfolding Let_def x_def by simp
qed

end
