(* ===== verification/Registry_Listing.thy ===== *)
theory Registry_Listing
  imports Registry_Runs
begin

text \<open>
  Listings of the model registry: what makes a model available, said with the sets of the clients that
  are blocked, and the cache of listings, which a caller cannot tell from building each listing afresh.
\<close>

section \<open>Availability\<close>

text \<open>The loop over the quota marks counts the active ones and keeps the earliest recovery.\<close>

abbreviation quota_step :: "time \<Rightarrow> string \<times> time \<Rightarrow> nat \<times> time \<Rightarrow> nat \<times> time" where
  "quota_step now \<equiv> (\<lambda>(_, q) (n, expiresAt).
     if now < recoveryAt q
     then (n + 1, if expiresAt = 0 \<or> recoveryAt q < expiresAt then recoveryAt q else expiresAt)
     else (n, expiresAt))"

lemma quota_fold_count: "fst (fold (quota_step now) qs (n, e)) = n + length (filter (\<lambda>(_, q). now < recoveryAt q) qs)"
  by (induction qs arbitrary: n e) (auto split: if_splits)

lemma quota_fold_earliest:
  assumes "\<forall>(c, q) \<in> set qs. 0 < recoveryAt q" "0 \<le> e"
  shows "let e' = snd (fold (quota_step now) qs (n, e))
    in 0 \<le> e' \<and> (e' = 0 \<longleftrightarrow> e = 0 \<and> (\<forall>(c, q) \<in> set qs. recoveryAt q \<le> now)) \<and> (e \<noteq> 0 \<longrightarrow> e' \<le> e) \<and>
       (\<forall>(c, q) \<in> set qs. now < recoveryAt q \<longrightarrow> e' \<le> recoveryAt q)"
  using assms
proof (induction qs arbitrary: n e)
  case (Cons x qs)
  obtain c q where x: "x = (c, q)" by (rule prod.exhaust)
  define y where "y = quota_step now x (n, e)"
  have pos: "0 < recoveryAt q" "\<forall>(c, q) \<in> set qs. 0 < recoveryAt q" using Cons.prems(1) by (auto simp: x)
  have y: "0 \<le> snd y" "snd y = 0 \<longleftrightarrow> e = 0 \<and> recoveryAt q \<le> now" "e \<noteq> 0 \<Longrightarrow> snd y \<le> e"
    "now < recoveryAt q \<Longrightarrow> snd y \<le> recoveryAt q"
    using pos(1) Cons.prems(2) by (auto simp: y_def x)
  from Cons.IH [OF pos(2) y(1), of "fst y"] y show ?case
    unfolding fold_simps(2) comp_apply y_def [symmetric] Let_def prod.collapse by (fastforce simp: x)
qed simp

definition quota_marks :: "ModelRegistration \<Rightarrow> time \<Rightarrow> nat" where
  "quota_marks reg now = length (filter (\<lambda>(_, q). now < recoveryAt q) (reg_QuotaExceededClients reg))"

definition suspended_with :: "ModelRegistration \<Rightarrow> (string \<Rightarrow> bool) \<Rightarrow> nat" where
  "suspended_with reg P = length (filter (\<lambda>(_, reason). P reason) (reg_SuspendedClients reg))"

lemma availability_counts:
  "fst (modelRegistrationAvailability reg now) =
     listed (reg_Count reg) (quota_marks reg now) (suspended_with reg isQuotaSuspension)
       (suspended_with reg (\<lambda>reason. \<not> isQuotaSuspension reason))
       (length (filter (\<lambda>(c, _). quotaActive reg now c) (reg_SuspendedClients reg)))"
proof -
  obtain n e where "fold (quota_step now) (reg_QuotaExceededClients reg) (0, 0) = (n, e)" by (rule prod.exhaust)
  with quota_fold_count [of now "reg_QuotaExceededClients reg" 0 0] show ?thesis
    by (simp add: modelRegistrationAvailability_def quota_marks_def suspended_with_def)
qed

lemma availability_expiry:
  "snd (modelRegistrationAvailability reg now) = snd (fold (quota_step now) (reg_QuotaExceededClients reg) (0, 0))"
proof -
  obtain n e where "fold (quota_step now) (reg_QuotaExceededClients reg) (0, 0) = (n, e)" by (rule prod.exhaust)
  then show ?thesis by (simp add: modelRegistrationAvailability_def)
qed

text \<open>The keys of a map that satisfy a predicate, counted as a set.\<close>

lemma length_filter_keys:
  assumes "wf_map m"
  shows "length (filter P m) = card {k. \<exists>v. map_of m k = Some v \<and> P (k, v)}"
proof -
  have "distinct (map fst (filter P m))" using assms by (rule distinct_map_filter)
  from distinct_card [OF this] have "length (filter P m) = card (fst ` set (filter P m))" by simp
  also have "fst ` set (filter P m) = {k. \<exists>v. map_of m k = Some v \<and> P (k, v)}"
  proof -
    have "(k, v) \<in> set m \<longleftrightarrow> map_of m k = Some v" for k v using assms by simp
    then show ?thesis by force
  qed
  finally show ?thesis .
qed

lemma finite_keys: "finite {k. \<exists>v. map_of m k = Some v \<and> P k v}"
  by (rule finite_subset [OF _ finite_dom_map_of [of m]]) auto

lemma listed_sets:
  assumes "finite A" "finite S" "Q \<subseteq> S"
  shows "listed n (card A) (card Q) (card (S - Q)) (card (S \<inter> A)) \<longleftrightarrow>
    int (card (A \<union> S)) < n \<or> (0 < n \<and> (A \<noteq> {} \<or> Q \<noteq> {}) \<and> S = Q)"
proof -
  have "finite Q" using assms finite_subset by blast
  have "card S = card Q + card (S - Q)"
    using assms by (simp add: card_Diff_subset [OF \<open>finite Q\<close> assms(3)] card_mono)
  moreover have "card (A \<union> S) + card (S \<inter> A) = card A + card S"
    using card_Un_Int [OF assms(1,2)] by (simp add: Int_commute)
  ultimately have "n - int (card A) - int (card Q) - int (card (S - Q)) + int (card (S \<inter> A)) = n - int (card (A \<union> S))" by linarith
  moreover have "(card (S - Q) = 0) = (S = Q)" using assms by auto
  moreover have "(0 < card A) = (A \<noteq> {})" "(0 < card Q) = (Q \<noteq> {})"
    using assms(1) \<open>finite Q\<close> by (simp_all add: card_gt_0_iff)
  ultimately show ?thesis unfolding listed_def Let_def by auto
qed

text \<open>
  What makes a model available, in every reachable registry: it has more bindings than clients that are
  blocked, a client that is both over its quota and suspended counting once; or all that blocks it is
  used-up quota, so the limit is temporary and a request gets the time to retry instead of an unknown model.
\<close>

theorem model_available_iff:
  fixes now :: time
  assumes "registry_moves\<^sup>*\<^sup>* (newRegistry, 0) (r, clock)" "map_of (mr_models r) i = Some reg"
  defines "overQuota \<equiv> {c. quotaActive reg now c}"
    and "suspended \<equiv> \<lambda>P. {c. \<exists>reason. map_of (reg_SuspendedClients reg) c = Some reason \<and> P reason}"
  shows "fst (modelRegistrationAvailability reg now) \<longleftrightarrow>
    int (card (overQuota \<union> suspended (\<lambda>_. True))) < reg_Count reg \<or>
    (overQuota \<noteq> {} \<or> suspended isQuotaSuspension \<noteq> {}) \<and> suspended (\<lambda>reason. \<not> isQuotaSuspension reason) = {}"
proof -
  have "counts (bindings r i) reg" and some: "bindings r i \<noteq> {#}"
    using registry_okD(3) [of r i] reachable_ok [OF assms(1)] assms(2) by (simp_all add: counts_opt_def)
  then have maps: "wf_map (reg_QuotaExceededClients reg)" "wf_map (reg_SuspendedClients reg)" and pos: "0 < reg_Count reg"
    by (auto simp: counts_def maps_ok_def nonempty_has_size)
  let ?A = "overQuota" and ?S = "suspended (\<lambda>_. True)" and ?Q = "suspended isQuotaSuspension"
  have over: "?A = {c. \<exists>q. map_of (reg_QuotaExceededClients reg) c = Some q \<and> now < recoveryAt q}"
    by (auto simp: overQuota_def quotaActive_def split: option.splits)
  have A: "finite ?A" "quota_marks reg now = card ?A"
    using finite_keys [of "reg_QuotaExceededClients reg" "\<lambda>_ q. now < recoveryAt q"]
      length_filter_keys [OF maps(1), of "\<lambda>(_, q). now < recoveryAt q"]
    by (simp_all add: over quota_marks_def)
  have S: "finite (suspended P)" "suspended_with reg P = card (suspended P)" for P
    using finite_keys [of "reg_SuspendedClients reg" "\<lambda>_. P"] length_filter_keys [OF maps(2), of "\<lambda>(_, reason). P reason"]
    by (simp_all add: suspended_def suspended_with_def)
  have others: "suspended (\<lambda>reason. \<not> isQuotaSuspension reason) = ?S - ?Q" and sub: "?Q \<subseteq> ?S" by (auto simp: suspended_def)
  have both: "length (filter (\<lambda>(c, _). quotaActive reg now c) (reg_SuspendedClients reg)) = card (?S \<inter> ?A)"
    unfolding length_filter_keys [OF maps(2)] by (rule arg_cong [where f = card]) (auto simp: suspended_def overQuota_def)
  have "fst (modelRegistrationAvailability reg now) \<longleftrightarrow>
      int (card (?A \<union> ?S)) < reg_Count reg \<or> (0 < reg_Count reg \<and> (?A \<noteq> {} \<or> ?Q \<noteq> {}) \<and> ?S = ?Q)"
    unfolding availability_counts A(2) S(2) both others by (rule listed_sets [OF A(1) S(1) sub])
  moreover have "(?S = ?Q) = (?S - ?Q = {})" using sub by auto
  ultimately show ?thesis using pos by (simp add: others)
qed

theorem model_available_iff_witness:
  "(let reg = the (map_of (mr_models sample_registry) ''m'');
        blocked = {c. quotaActive reg 6 c} \<union> {c. \<exists>reason. map_of (reg_SuspendedClients reg) c = Some reason \<and> True}
    in fst (modelRegistrationAvailability reg 6) \<and>
       (int (card blocked) < reg_Count reg \<or>
        ({c. quotaActive reg 6 c} \<noteq> {} \<or> {c. \<exists>reason. map_of (reg_SuspendedClients reg) c = Some reason \<and> isQuotaSuspension reason} \<noteq> {}) \<and>
        {c. \<exists>reason. map_of (reg_SuspendedClients reg) c = Some reason \<and> \<not> isQuotaSuspension reason} = {}))"
proof -
  define reg where "reg = the (map_of (mr_models sample_registry) ''m'')"
  have "map_of (mr_models sample_registry) ''m'' \<noteq> None" by code_simp
  then have reg: "map_of (mr_models sample_registry) ''m'' = Some reg" by (auto simp: reg_def)
  have "fst (modelRegistrationAvailability reg 6)" unfolding reg_def by code_simp
  then show ?thesis
    using model_available_iff [OF sample_reachable reg, of 6] unfolding Let_def reg_def [symmetric] by blast
qed

section \<open>The cache of listings\<close>

text \<open>A listing built at one time is that of a later time as long as the earliest recovery is not reached.\<close>

lemma earliest_recovery:
  fixes now :: time
  assumes "maps_ok reg"
  defines "e \<equiv> snd (modelRegistrationAvailability reg now)"
  shows "0 \<le> e" "e = 0 \<longleftrightarrow> (\<forall>(c, q) \<in> set (reg_QuotaExceededClients reg). recoveryAt q \<le> now)"
    "(c, q) \<in> set (reg_QuotaExceededClients reg) \<Longrightarrow> now < recoveryAt q \<Longrightarrow> e \<le> recoveryAt q"
proof -
  have "\<forall>(c, q) \<in> set (reg_QuotaExceededClients reg). 0 < recoveryAt q"
    using assms(1) by (auto simp: maps_ok_def recoveryAt_def)
  from quota_fold_earliest [OF this order_refl, of now 0]
  show "0 \<le> e" "e = 0 \<longleftrightarrow> (\<forall>(c, q) \<in> set (reg_QuotaExceededClients reg). recoveryAt q \<le> now)"
    "(c, q) \<in> set (reg_QuotaExceededClients reg) \<Longrightarrow> now < recoveryAt q \<Longrightarrow> e \<le> recoveryAt q"
    unfolding e_def availability_expiry Let_def by auto
qed

lemma availability_stable:
  assumes "maps_ok reg" "t0 \<le> t"
    and "snd (modelRegistrationAvailability reg t0) = 0 \<or> t < snd (modelRegistrationAvailability reg t0)"
  shows "fst (modelRegistrationAvailability reg t) = fst (modelRegistrationAvailability reg t0)"
proof -
  have same: "t < recoveryAt q \<longleftrightarrow> t0 < recoveryAt q" if "(c, q) \<in> set (reg_QuotaExceededClients reg)" for c q
    using earliest_recovery(2) [OF assms(1), of t0] earliest_recovery(3) [OF assms(1) that, of t0] that assms(2,3) by fastforce
  then have "quota_marks reg t = quota_marks reg t0"
    unfolding quota_marks_def by (intro arg_cong [where f = length] filter_cong) auto
  moreover have "quotaActive reg t c = quotaActive reg t0 c" for c
    using same by (auto simp: quotaActive_def dest: map_of_SomeD split: option.splits)
  ultimately show ?thesis by (simp add: availability_counts)
qed

lemma sooner_fold:
  assumes "\<forall>t \<in> set ts. 0 \<le> t" "0 \<le> e"
  shows "let e' = fold sooner ts e in 0 \<le> e' \<and> (e' = 0 \<longleftrightarrow> e = 0 \<and> (\<forall>t \<in> set ts. t = 0)) \<and> (e \<noteq> 0 \<longrightarrow> e' \<le> e) \<and>
    (\<forall>t \<in> set ts. t \<noteq> 0 \<longrightarrow> e' \<le> t)"
  using assms
proof (induction ts arbitrary: e)
  case (Cons t ts)
  have "0 \<le> sooner t e" "sooner t e = 0 \<longleftrightarrow> e = 0 \<and> t = 0" "e \<noteq> 0 \<Longrightarrow> sooner t e \<le> e" "t \<noteq> 0 \<Longrightarrow> sooner t e \<le> t"
    using Cons.prems by (auto simp: sooner_def)
  with Cons.IH [of "sooner t e"] Cons.prems show ?case by (simp add: Let_def) force
qed simp

lemma build_stable:
  assumes "registry_ok r" "t0 \<le> t"
    and "snd (buildAvailableModelsLocked r h t0) = 0 \<or> t < snd (buildAvailableModelsLocked r h t0)"
  shows "fst (buildAvailableModelsLocked r h t) = fst (buildAvailableModelsLocked r h t0)"
proof -
  have maps: "maps_ok reg" if "(i, reg) \<in> set (mr_models r)" for i reg
    using registry_okD(1) [OF assms(1)] registry_okD(3) [OF assms(1), of i] that by (simp add: counts_opt_def counts_def)
  define ts where "ts = map (\<lambda>(i, reg). snd (modelRegistrationAvailability reg t0)) (mr_models r)"
  have e: "snd (buildAvailableModelsLocked r h t0) = fold sooner ts 0"
  proof -
    have "fold (\<lambda>(_, reg). sooner (f reg)) ms = fold sooner (map (\<lambda>(i, reg). f reg) ms)"
      for f :: "ModelRegistration \<Rightarrow> time" and ms :: "(string \<times> ModelRegistration) list"
      by (induction ms) (simp_all add: fun_eq_iff case_prod_beta)
    then show ?thesis by (simp add: buildAvailableModelsLocked_def ts_def)
  qed
  have "\<forall>x \<in> set ts. 0 \<le> x" using earliest_recovery(1) [OF maps] by (auto simp: ts_def)
  from sooner_fold [OF this order_refl] have first: "fold sooner ts 0 = 0 \<longleftrightarrow> (\<forall>x \<in> set ts. x = 0)"
    "x \<in> set ts \<Longrightarrow> x \<noteq> 0 \<Longrightarrow> fold sooner ts 0 \<le> x" for x by (auto simp: Let_def)
  have "fst (modelRegistrationAvailability reg t) = fst (modelRegistrationAvailability reg t0)" if "(i, reg) \<in> set (mr_models r)" for i reg
  proof (rule availability_stable [OF maps [OF that] assms(2)])
    have "snd (modelRegistrationAvailability reg t0) \<in> set ts" using that by (force simp: ts_def)
    with first assms(3) show "snd (modelRegistrationAvailability reg t0) = 0 \<or> t < snd (modelRegistrationAvailability reg t0)"
      unfolding e by fastforce
  qed
  then have "filter (\<lambda>(_, reg). fst (modelRegistrationAvailability reg t)) (mr_models r) =
      filter (\<lambda>(_, reg). fst (modelRegistrationAvailability reg t0)) (mr_models r)" by (intro filter_cong) auto
  then show ?thesis by (simp add: buildAvailableModelsLocked_def)
qed

text \<open>An operation either drops the cached listings or leaves both them and the registrations as they are.\<close>

definition coherent :: "ModelRegistry \<Rightarrow> ModelRegistry \<Rightarrow> bool" where
  "coherent r u \<longleftrightarrow> mr_availableModelsCache u = [] \<or>
     mr_models u = mr_models r \<and> mr_availableModelsCache u = mr_availableModelsCache r"

lemma coherentI [simp]: "coherent r r" "coherent r (invalidateAvailableModelsCacheLocked u)" "coherent r (SetHook h r)"
  by (simp_all add: coherent_def invalidateAvailableModelsCacheLocked_def SetHook_def)

lemma coherent_register: "coherent r (registerClientLocked c p models keep now r)"
proof -
  have "coherent r (triggerModelsRegistered p c models (invalidateAvailableModelsCacheLocked u))" for p u
    by (simp add: coherent_def triggerModelsRegistered_def invalidateAvailableModelsCacheLocked_def)
  then show ?thesis by (simp add: registerClientLocked_def Let_def)
qed

text \<open>A projection that reports no change has made none.\<close>

lemma update_same: "map_of m k = Some v \<Longrightarrow> AList.update k v m = m"
  by (induction m) auto

lemma unchanged_suspension: "\<not> fst (projectSuspension c proj now reg) \<Longrightarrow> snd (projectSuspension c proj now reg) = reg"
  and unchanged_quota: "\<not> fst (projectQuota c proj now reg) \<Longrightarrow> snd (projectQuota c proj now reg) = reg"
  by (auto simp: projectSuspension_def projectQuota_def split: if_splits)

lemma unchanged_step: "projectStep c ids now proj (changed, r) = (False, u) \<Longrightarrow> \<not> changed \<and> u = r"
proof -
  assume step: "projectStep c ids now proj (changed, r) = (False, u)"
  show "\<not> changed \<and> u = r"
  proof (cases "trim_space (pr_ModelID proj) = '''' \<or> trim_space (pr_ModelID proj) \<notin> set ids \<or>
      map_of (mr_models r) (trim_space (pr_ModelID proj)) = None")
    case True
    with step show ?thesis by (auto simp: projectStep_def Let_def split: if_splits)
  next
    case False
    then obtain reg where reg: "map_of (mr_models r) (trim_space (pr_ModelID proj)) = Some reg" by auto
    define s where "s = projectSuspension c proj now reg"
    define q where "q = projectQuota c proj now (snd s)"
    have "(False, u) = (changed \<or> fst s \<or> fst q, atModel (trim_space (pr_ModelID proj)) (\<lambda>_. Some (snd q)) r)"
      using step False reg by (simp add: projectStep_def Let_def case_prod_beta s_def q_def)
    moreover have "snd q = reg" if "\<not> fst s" "\<not> fst q"
      using unchanged_suspension that(1) unchanged_quota that(2) unfolding s_def q_def by metis
    ultimately show ?thesis using reg by (simp add: atModel_def update_same)
  qed
qed

lemma unchanged_fold: "fold (projectStep c ids now) projs (changed, r) = (False, u) \<Longrightarrow> \<not> changed \<and> u = r"
proof (induction projs arbitrary: changed r)
  case (Cons proj projs)
  obtain ch v where v: "projectStep c ids now proj (changed, r) = (ch, v)" by (rule prod.exhaust)
  with Cons.IH [of ch v] Cons.prems unchanged_step [of c ids now proj changed r v] show ?case by auto
qed simp

lemma coherent_projections: "coherent r (snd (ApplyClientModelProjections c e g projs now r))"
proof -
  have "coherent r (snd (let (changed, u) = fold (projectStep d ids now) projs (False, r\<lparr>mr_clientGenerations := gs\<rparr>)
      in (True, if changed then invalidateAvailableModelsCacheLocked u else u)))" for d ids gs
  proof -
    obtain changed u where u: "fold (projectStep d ids now) projs (False, r\<lparr>mr_clientGenerations := gs\<rparr>) = (changed, u)"
      by (rule prod.exhaust)
    show ?thesis
    proof (cases changed)
      case False
      with u unchanged_fold [of d ids now projs False "r\<lparr>mr_clientGenerations := gs\<rparr>" u] have "u = r\<lparr>mr_clientGenerations := gs\<rparr>"
        by simp
      with u False show ?thesis by (simp add: coherent_def)
    qed (simp add: u)
  qed
  then show ?thesis by (simp add: ApplyClientModelProjections_def Let_def split: option.splits)
qed

lemma regStep_coherent: "(\<nexists>h. op = OpList h) \<Longrightarrow> coherent r (regStep now op r)"
  by (cases op) (simp_all add: RegisterClient_def RegisterClientIfEpochCurrent_def UnregisterClient_def
      UnregisterClientIfEpochCurrent_def ReplaceClientModels_def SetModelQuotaExceeded_def ClearModelQuotaExceeded_def
      SuspendClientModel_def ResumeClientModel_def ApplyClientModelCapabilities_def CleanupExpiredQuotas_def Let_def
      coherent_register coherent_projections split: option.splits)

text \<open>Every cached listing was built at some time up to now, from the registrations as they are.\<close>

definition cache_ok :: "ModelRegistry \<Rightarrow> time \<Rightarrow> bool" where
  "cache_ok r clock \<longleftrightarrow> (\<forall>h e. map_of (mr_availableModelsCache r) h = Some e \<longrightarrow>
     (\<exists>t \<le> clock. (ce_models e, ce_expiresAt e) = buildAvailableModelsLocked r h t))"

lemma build_cong: "mr_models u = mr_models r \<Longrightarrow> buildAvailableModelsLocked u = buildAvailableModelsLocked r"
  by (simp add: buildAvailableModelsLocked_def fun_eq_iff)

lemma cache_ok_coherent: "coherent r u \<Longrightarrow> cache_ok r clock \<Longrightarrow> clock \<le> now \<Longrightarrow> cache_ok u now"
  unfolding coherent_def cache_ok_def using build_cong [of u r] order_trans by (metis map_of.simps(1) option.distinct(1))

lemma listing_cases:
  "GetAvailableModels h now r =
     (case map_of (mr_availableModelsCache r) h of
        Some e \<Rightarrow> if ce_expiresAt e = 0 \<or> now < ce_expiresAt e then (ce_models e, r) else
          (fst (buildAvailableModelsLocked r h now), r\<lparr>mr_availableModelsCache := AList.update h
             \<lparr>ce_models = fst (buildAvailableModelsLocked r h now), ce_expiresAt = snd (buildAvailableModelsLocked r h now)\<rparr>
             (mr_availableModelsCache r)\<rparr>)
      | None \<Rightarrow> (fst (buildAvailableModelsLocked r h now), r\<lparr>mr_availableModelsCache := AList.update h
             \<lparr>ce_models = fst (buildAvailableModelsLocked r h now), ce_expiresAt = snd (buildAvailableModelsLocked r h now)\<rparr>
             (mr_availableModelsCache r)\<rparr>))"
  by (simp add: GetAvailableModels_def Let_def case_prod_beta split: option.splits)

lemma cache_ok_listing:
  assumes "cache_ok r clock" "clock \<le> now"
  shows "cache_ok (snd (GetAvailableModels h now r)) now"
proof -
  have old: "cache_ok r now" using cache_ok_coherent [OF coherentI(1) assms] .
  have new: "cache_ok (r\<lparr>mr_availableModelsCache := AList.update h
             \<lparr>ce_models = fst (buildAvailableModelsLocked r h now), ce_expiresAt = snd (buildAvailableModelsLocked r h now)\<rparr>
             (mr_availableModelsCache r)\<rparr>) now"
    using old build_cong [of "r\<lparr>mr_availableModelsCache := x\<rparr>" r for x]
    by (auto simp: cache_ok_def update_conv' split: if_splits)
  show ?thesis using old new by (simp add: listing_cases split: option.split)
qed

interpretation listing: transition_system "(newRegistry, 0)" registry_moves "\<lambda>s. registry_inv s \<and> cache_ok (fst s) (snd s)"
proof
  show "registry_inv (newRegistry, 0) \<and> cache_ok (fst (newRegistry, 0)) (snd (newRegistry, 0))"
    using mreg.inv_start by (simp add: cache_ok_def newRegistry_def)
next
  fix s s' assume inv: "registry_inv s \<and> cache_ok (fst s) (snd s)" and step: "registry_moves s s'"
  then have "registry_inv s'" using mreg.inv_step by blast
  moreover from step have "cache_ok (fst s') (snd s')"
  proof (cases rule: registry_moves.cases)
    case (serve op clock now r)
    show ?thesis
    proof (cases "\<exists>h. op = OpList h")
      case True
      with serve inv show ?thesis by (auto simp: cache_ok_listing)
    next
      case False
      from cache_ok_coherent [OF regStep_coherent [OF False, of r now], of clock now] serve inv show ?thesis by simp
    qed
  qed
  ultimately show "registry_inv s' \<and> cache_ok (fst s') (snd s')" ..
qed

text \<open>
  (C33) The cache of listings cannot be seen: whatever operations led to a registry, a listing at any time from
  then on is the one built afresh from the registrations at that time, whether it comes from the cache or not.
\<close>

theorem listing_cache_transparent:
  assumes "registry_moves\<^sup>*\<^sup>* (newRegistry, 0) (r, clock)" "clock \<le> now"
  shows "fst (GetAvailableModels h now r) = fst (buildAvailableModelsLocked r h now)"
proof -
  have ok: "registry_ok r" and cache: "cache_ok r clock"
    using listing.inv_reachable [OF assms(1)] by (simp_all add: registry_inv_def)
  have "ce_models e = fst (buildAvailableModelsLocked r h now)"
    if e: "map_of (mr_availableModelsCache r) h = Some e" and valid: "ce_expiresAt e = 0 \<or> now < ce_expiresAt e" for e
  proof -
    obtain t where t: "t \<le> clock" "(ce_models e, ce_expiresAt e) = buildAvailableModelsLocked r h t"
      using cache e by (auto simp: cache_ok_def)
    then have "ce_models e = fst (buildAvailableModelsLocked r h t)" "ce_expiresAt e = snd (buildAvailableModelsLocked r h t)"
      by (metis fst_conv, metis snd_conv)
    with build_stable [OF ok, of t now h] valid t(1) assms(2) show ?thesis by simp
  qed
  then show ?thesis by (simp add: listing_cases split: option.split)
qed

theorem listing_cache_transparent_witness:
  "(let r = snd (GetAvailableModels ''openai'' 6 sample_registry)
    in mr_availableModelsCache r \<noteq> [] \<and> fst (GetAvailableModels ''openai'' 400000000000 r) \<noteq> [] \<and>
       fst (GetAvailableModels ''openai'' 400000000000 r) = fst (buildAvailableModelsLocked r ''openai'' 400000000000))"
proof -
  define r where "r = snd (GetAvailableModels ''openai'' 6 sample_registry)"
  have "registry_moves (sample_registry, 5) (r, 6)"
    using serve [of "OpList ''openai''" 5 6 sample_registry] by (simp add: r_def)
  with sample_reachable have "registry_moves\<^sup>*\<^sup>* (newRegistry, 0) (r, 6)" by (rule rtranclp.rtrancl_into_rtrancl)
  from listing_cache_transparent [OF this, of 400000000000 "''openai''"]
  have "fst (GetAvailableModels ''openai'' 400000000000 r) = fst (buildAvailableModelsLocked r ''openai'' 400000000000)" by simp
  moreover have "mr_availableModelsCache r \<noteq> []" "fst (GetAvailableModels ''openai'' 400000000000 r) \<noteq> []"
    unfolding r_def by code_simp+
  ultimately show ?thesis by (simp add: r_def)
qed

section \<open>Projections\<close>

definition projected :: "string \<Rightarrow> ClientModelProjection \<Rightarrow> time \<Rightarrow> ModelRegistration \<Rightarrow> ModelRegistration" where
  "projected c proj now reg = snd (projectQuota c proj now (snd (projectSuspension c proj now reg)))"

lemma projected_marks:
  "map_of (reg_SuspendedClients (projected c proj now reg)) c \<noteq> None \<longleftrightarrow> pr_Suspended proj"
  "map_of (reg_QuotaExceededClients (projected c proj now reg)) c \<noteq> None \<longleftrightarrow> pr_QuotaExceeded proj"
  "d \<noteq> c \<Longrightarrow> map_of (reg_SuspendedClients (projected c proj now reg)) d = map_of (reg_SuspendedClients reg) d"
  "d \<noteq> c \<Longrightarrow> map_of (reg_QuotaExceededClients (projected c proj now reg)) d = map_of (reg_QuotaExceededClients reg) d"
  by (auto simp: projected_def projectSuspension_def projectQuota_def update_conv' delete_conv')

lemma projectStep_at:
  "modelAt (snd (projectStep c ids now proj (changed, r))) i =
     (if i = trim_space (pr_ModelID proj) \<and> i \<noteq> '''' \<and> i \<in> set ids then map_option (projected c proj now) (modelAt r i) else modelAt r i)"
  by (auto simp: projectStep_def Let_def case_prod_beta projected_def atModel_def update_conv' split: option.splits)

lemma project_fold_other:
  "i \<notin> (trim_space \<circ> pr_ModelID) ` set projs \<Longrightarrow>
     modelAt (snd (fold (projectStep c ids now) projs (changed, r))) i = modelAt r i"
proof (induction projs arbitrary: changed r)
  case (Cons p projs)
  obtain ch u where u: "projectStep c ids now p (changed, r) = (ch, u)" by (rule prod.exhaust)
  with projectStep_at [of c ids now p changed r i] Cons.IH [of ch u] Cons.prems show ?case by simp
qed simp

lemma project_fold_at:
  assumes "distinct (map (trim_space \<circ> pr_ModelID) projs)" "proj \<in> set projs" "i = trim_space (pr_ModelID proj)"
    and "i \<noteq> ''''" "i \<in> set ids"
  shows "modelAt (snd (fold (projectStep c ids now) projs (changed, r))) i = map_option (projected c proj now) (modelAt r i)"
  using assms(1,2)
proof (induction projs arbitrary: changed r)
  case (Cons p projs)
  obtain ch u where u: "projectStep c ids now p (changed, r) = (ch, u)" by (rule prod.exhaust)
  with projectStep_at [of c ids now p changed r i]
  have at: "modelAt u i = (if i = trim_space (pr_ModelID p) then map_option (projected c p now) (modelAt r i) else modelAt r i)"
    using assms(4,5) by simp
  show ?case
  proof (cases "proj = p")
    case True
    have "i \<notin> (trim_space \<circ> pr_ModelID) ` set projs" using Cons.prems(1) True assms(3) by auto
    from project_fold_other [OF this, of c ids now ch u] at True assms(3) u show ?thesis by simp
  next
    case False
    then have "proj \<in> set projs" "trim_space (pr_ModelID p) \<notin> (trim_space \<circ> pr_ModelID) ` set projs" using Cons.prems by auto
    then have "i \<noteq> trim_space (pr_ModelID p)" unfolding assms(3) by (metis comp_apply image_eqI)
    with Cons.IH [of ch u] Cons.prems False at u show ?thesis by simp
  qed
qed simp

lemma project_fold_client:
  assumes "d \<noteq> c"
  shows "map_option (\<lambda>reg. (map_of (reg_SuspendedClients reg) d, map_of (reg_QuotaExceededClients reg) d))
      (modelAt (snd (fold (projectStep c ids now) projs (changed, r))) i) =
    map_option (\<lambda>reg. (map_of (reg_SuspendedClients reg) d, map_of (reg_QuotaExceededClients reg) d)) (modelAt r i)"
proof (induction projs arbitrary: changed r)
  case (Cons p projs)
  obtain ch u where u: "projectStep c ids now p (changed, r) = (ch, u)" by (rule prod.exhaust)
  with projectStep_at [of c ids now p changed r i] Cons.IH [of ch u] show ?case
    by (simp add: option.map_comp comp_def projected_marks(3,4) [OF assms])
qed simp

lemma projections_cases:
  assumes "ApplyClientModelProjections c e g projs now r = (ok, r')"
  obtains "\<not> ok" "r' = r"
  | ids changed u where "ok" "trim_space c \<noteq> ''''" "map_of (mr_clientModels r) (trim_space c) = Some ids"
      "e = ClientRegistrationEpoch r (trim_space c)" "get_or 0 (mr_clientGenerations r) (trim_space c) \<le> g"
      "fold (projectStep (trim_space c) (filter (\<lambda>m. m \<noteq> '''') (map trim_space ids)) now) projs
         (False, r\<lparr>mr_clientGenerations := AList.update (trim_space c) g (mr_clientGenerations r)\<rparr>) = (changed, u)"
      "r' = (if changed then invalidateAvailableModelsCacheLocked u else u)"
  using assms unfolding ApplyClientModelProjections_def Let_def ClientRegistrationEpoch_def
  by (auto split: if_splits option.splits prod.splits)

lemma projection_generations:
  "mr_clientGenerations (snd (fold (projectStep c ids now) projs (changed, r))) = mr_clientGenerations r"
proof (induction projs arbitrary: changed r)
  case (Cons p projs)
  obtain ch u where u: "projectStep c ids now p (changed, r) = (ch, u)" by (rule prod.exhaust)
  then have "mr_clientGenerations u = mr_clientGenerations r"
    by (auto simp: projectStep_def Let_def case_prod_beta models_onlyD(5) [OF models_only_atModel] split: if_splits option.splits)
  with u Cons.IH [of ch u] show ?case by simp
qed simp

lemma projection_effects:
  assumes "ApplyClientModelProjections c e g projs now r = (ok, r')"
  shows "\<not> ok \<Longrightarrow> r' = r"
    and "ok \<Longrightarrow> e = ClientRegistrationEpoch r (trim_space c) \<and> get_or 0 (mr_clientGenerations r) (trim_space c) \<le> g \<and>
           get_or 0 (mr_clientGenerations r') (trim_space c) = g"
    and "ok \<Longrightarrow> distinct (map (trim_space \<circ> pr_ModelID) projs) \<Longrightarrow> proj \<in> set projs \<Longrightarrow>
           trim_space (pr_ModelID proj) \<noteq> '''' \<Longrightarrow>
           trim_space (pr_ModelID proj) \<in> trim_space ` set (get_or [] (mr_clientModels r) (trim_space c)) \<Longrightarrow>
           map_of (mr_models r) (trim_space (pr_ModelID proj)) \<noteq> None \<Longrightarrow>
           IsModelSuspendedForClient r' c (pr_ModelID proj) = pr_Suspended proj \<and>
           IsModelQuotaExceededForClient r' c (pr_ModelID proj) = pr_QuotaExceeded proj"
    and "trim_space d \<noteq> trim_space c \<Longrightarrow>
           IsModelSuspendedForClient r' d i = IsModelSuspendedForClient r d i \<and>
           IsModelQuotaExceededForClient r' d i = IsModelQuotaExceededForClient r d i"
proof -
  have inv: "mr_models (if b then invalidateAvailableModelsCacheLocked u else u) = mr_models u"
    "mr_clientGenerations (if b then invalidateAvailableModelsCacheLocked u else u) = mr_clientGenerations u" for b u
    by (simp_all add: invalidateAvailableModelsCacheLocked_def)
  from assms show "\<not> ok \<Longrightarrow> r' = r" by (rule projections_cases) simp_all
  from assms show "ok \<Longrightarrow> e = ClientRegistrationEpoch r (trim_space c) \<and> get_or 0 (mr_clientGenerations r) (trim_space c) \<le> g \<and>
           get_or 0 (mr_clientGenerations r') (trim_space c) = g"
  proof (rule projections_cases)
    fix ids changed u
    assume "fold (projectStep (trim_space c) (filter (\<lambda>m. m \<noteq> '''') (map trim_space ids)) now) projs
         (False, r\<lparr>mr_clientGenerations := AList.update (trim_space c) g (mr_clientGenerations r)\<rparr>) = (changed, u)"
    from arg_cong [OF this, of "mr_clientGenerations \<circ> snd"]
    have "mr_clientGenerations u = AList.update (trim_space c) g (mr_clientGenerations r)" by (simp add: projection_generations)
    moreover assume "r' = (if changed then invalidateAvailableModelsCacheLocked u else u)"
      "e = ClientRegistrationEpoch r (trim_space c)" "get_or 0 (mr_clientGenerations r) (trim_space c) \<le> g"
    ultimately show ?thesis by (simp add: inv get_or_def update_conv')
  qed simp
  from assms show "trim_space d \<noteq> trim_space c \<Longrightarrow>
           IsModelSuspendedForClient r' d i = IsModelSuspendedForClient r d i \<and>
           IsModelQuotaExceededForClient r' d i = IsModelQuotaExceededForClient r d i"
  proof (rule projections_cases)
    fix ids changed u
    assume d: "trim_space d \<noteq> trim_space c" and fold: "fold (projectStep (trim_space c) (filter (\<lambda>m. m \<noteq> '''') (map trim_space ids)) now) projs
         (False, r\<lparr>mr_clientGenerations := AList.update (trim_space c) g (mr_clientGenerations r)\<rparr>) = (changed, u)"
      and r': "r' = (if changed then invalidateAvailableModelsCacheLocked u else u)"
    from project_fold_client [OF d, of "filter (\<lambda>m. m \<noteq> '''') (map trim_space ids)" now projs False
        "r\<lparr>mr_clientGenerations := AList.update (trim_space c) g (mr_clientGenerations r)\<rparr>" "trim_space i"]
    show ?thesis unfolding fold r' IsModelSuspendedForClient_def IsModelQuotaExceededForClient_def Let_def inv
      by (auto simp del: not_None_eq split: option.splits)
  qed simp
  assume ok: ok and props: "distinct (map (trim_space \<circ> pr_ModelID) projs)" "proj \<in> set projs" "trim_space (pr_ModelID proj) \<noteq> ''''"
    and served: "trim_space (pr_ModelID proj) \<in> trim_space ` set (get_or [] (mr_clientModels r) (trim_space c))"
    and known: "map_of (mr_models r) (trim_space (pr_ModelID proj)) \<noteq> None"
  from assms show "IsModelSuspendedForClient r' c (pr_ModelID proj) = pr_Suspended proj \<and>
           IsModelQuotaExceededForClient r' c (pr_ModelID proj) = pr_QuotaExceeded proj"
  proof (rule projections_cases)
    fix ids changed u
    assume c: "trim_space c \<noteq> ''''" and ids: "map_of (mr_clientModels r) (trim_space c) = Some ids"
      and fold: "fold (projectStep (trim_space c) (filter (\<lambda>m. m \<noteq> '''') (map trim_space ids)) now) projs
         (False, r\<lparr>mr_clientGenerations := AList.update (trim_space c) g (mr_clientGenerations r)\<rparr>) = (changed, u)"
      and r': "r' = (if changed then invalidateAvailableModelsCacheLocked u else u)"
    have "trim_space (pr_ModelID proj) \<in> set (filter (\<lambda>m. m \<noteq> '''') (map trim_space ids))"
      using served props(3) ids by (simp add: get_or_def)
    from project_fold_at [OF props(1,2) refl props(3) this, of "trim_space c" now False
        "r\<lparr>mr_clientGenerations := AList.update (trim_space c) g (mr_clientGenerations r)\<rparr>"]
    have "modelAt r' (trim_space (pr_ModelID proj)) = map_option (projected (trim_space c) proj now) (modelAt r (trim_space (pr_ModelID proj)))"
      unfolding fold r' inv by simp
    with known c props(3) show ?thesis
      by (auto simp: IsModelSuspendedForClient_def IsModelQuotaExceededForClient_def Let_def projected_marks(1,2)
          simp del: not_None_eq)
  qed (use ok in simp)
qed

text \<open>
  A projection of a client's state is accepted only for the current registration of the client and not
  from an older generation than the last one accepted; a rejected one changes nothing. An accepted one
  leaves every projected model that the client serves suspended and over its quota exactly as projected,
  and the marks of all other clients as they were.
\<close>

lemma projections_applied:
  assumes "ApplyClientModelProjections c e g projs now r = (ok, r')"
  shows "if \<not> ok then r' = r else
    e = ClientRegistrationEpoch r (trim_space c) \<and> get_or 0 (mr_clientGenerations r) (trim_space c) \<le> g \<and>
    get_or 0 (mr_clientGenerations r') (trim_space c) = g \<and>
    (distinct (map (trim_space \<circ> pr_ModelID) projs) \<longrightarrow> (\<forall>proj \<in> set projs.
       let i = trim_space (pr_ModelID proj)
       in i \<noteq> [] \<and> i \<in> trim_space ` set (get_or [] (mr_clientModels r) (trim_space c)) \<and> map_of (mr_models r) i \<noteq> None \<longrightarrow>
          IsModelSuspendedForClient r' c (pr_ModelID proj) = pr_Suspended proj \<and>
          IsModelQuotaExceededForClient r' c (pr_ModelID proj) = pr_QuotaExceeded proj)) \<and>
    (\<forall>d i. trim_space d \<noteq> trim_space c \<longrightarrow>
       IsModelSuspendedForClient r' d i = IsModelSuspendedForClient r d i \<and>
       IsModelQuotaExceededForClient r' d i = IsModelQuotaExceededForClient r d i)"
  using projection_effects [OF assms] by (auto simp: Let_def)

definition sample_projection :: ClientModelProjection where
  "sample_projection = \<lparr>pr_ModelID = ''m'', pr_Suspended = True, pr_SuspendReason = ''quota'', pr_QuotaExceeded = False\<rparr>"

lemma projections_applied_witness:
  "(let (ok, r') = ApplyClientModelProjections ''a'' 2 5 [sample_projection] 6 sample_registry
    in ok \<and> get_or 0 (mr_clientGenerations r') ''a'' = 5 \<and> IsModelSuspendedForClient r' ''a'' ''m'' \<and>
       \<not> IsModelQuotaExceededForClient r' ''a'' ''m'' \<and>
       ApplyClientModelProjections ''a'' 2 4 [sample_projection] 7 r' = (False, r'))"
proof -
  define r' where "r' = snd (ApplyClientModelProjections ''a'' 2 5 [sample_projection] 6 sample_registry)"
  have "fst (ApplyClientModelProjections ''a'' 2 5 [sample_projection] 6 sample_registry)" by code_simp
  then have app: "ApplyClientModelProjections ''a'' 2 5 [sample_projection] 6 sample_registry = (True, r')"
    by (simp add: r'_def prod_eq_iff)
  have trim: "trim_space ''a'' = ''a''" "trim_space ''m'' = ''m''" by code_simp+
  have served: "''m'' \<in> trim_space ` set (get_or [] (mr_clientModels sample_registry) ''a'')"
    "map_of (mr_models sample_registry) ''m'' \<noteq> None" by code_simp+
  have marks: "IsModelSuspendedForClient r' ''a'' ''m''" "\<not> IsModelQuotaExceededForClient r' ''a'' ''m''"
    using projections_applied [OF app] served by (simp_all add: sample_projection_def trim Let_def)
  have gen: "get_or 0 (mr_clientGenerations r') ''a'' = 5" using projections_applied [OF app] by (simp add: trim)
  define x where "x = ApplyClientModelProjections ''a'' 2 4 [sample_projection] 7 r'"
  obtain ok r'' where x: "x = (ok, r'')" by (rule prod.exhaust)
  have "\<not> ok" using projections_applied [OF x [unfolded x_def]] gen by (auto simp: trim)
  with projections_applied [OF x [unfolded x_def]] x have "x = (False, r')" by simp
  with app marks gen show ?thesis by (simp add: x_def)
qed

end
