(* ===== verification/Routing.thy ===== *)
theory Routing
  imports Scheduler_Runs Registry_Listing
begin

text \<open>
  The scheduler and the model registry together. The scheduler asks the registry about a credential in
  two calls - first for the epoch of its registration, then for its models - and keeps both; between
  the calls, and after them, the registry goes on. What is shown: a model set kept under the epoch that
  is current now is the set the registry has now, so the check that compares epochs is enough.
\<close>

section \<open>Registrations and epochs\<close>

text \<open>
  The registry with the number of requests it has served. The epochs are \<open>uint64\<close>; before that many
  requests none of them has gone around.
\<close>

type_synonym countedRegistry = "ModelRegistry \<times> time \<times> nat"

inductive served :: "countedRegistry \<Rightarrow> countedRegistry \<Rightarrow> bool" where
  serve: "request_ok op \<Longrightarrow> clock \<le> now \<Longrightarrow> n + 1 < 18446744073709551616 \<Longrightarrow>
    served (r, clock, n) (regStep now op r, now, n + 1)"

inductive_cases servedE: "served g g'"

abbreviation startRegistry :: countedRegistry where "startRegistry \<equiv> (newRegistry, 0, 0)"

definition counted_inv :: "countedRegistry \<Rightarrow> bool" where
  "counted_inv = (\<lambda>(r, clock, n). registry_ok r \<and> 0 \<le> clock \<and> n < 18446744073709551616 \<and>
     (\<forall>c. ClientRegistrationEpoch r c \<le> n))"

lemma view_epochs: "sp_epochs (registryView r) = ClientRegistrationEpoch r"
  by (simp add: registryView_def)

text \<open>A request leaves the registration of a client alone or advances its epoch.\<close>

lemma spec_client_step:
  assumes "sp_epochs s c + 1 < 18446744073709551616"
  shows "sp_epochs (specStep op s) c = sp_epochs s c \<and> sp_clients (specStep op s) c = sp_clients s c \<or>
    sp_epochs (specStep op s) c = sp_epochs s c + 1"
  using assms by (cases op) (auto simp: specRegister_def uint64_succ_def)

lemma served_client:
  assumes "counted_inv (r, t, n)" "served (r, t, n) (r', t', n')"
  shows "ClientRegistrationEpoch r' c = ClientRegistrationEpoch r c \<and>
      sp_clients (registryView r') c = sp_clients (registryView r) c \<or>
    ClientRegistrationEpoch r' c = ClientRegistrationEpoch r c + 1"
proof -
  from assms(2) obtain op where op: "request_ok op" "r' = regStep t' op r" "n + 1 < 18446744073709551616"
    by (auto elim: servedE)
  have "ClientRegistrationEpoch r c + 1 < 18446744073709551616"
    using assms(1) op(3) by (auto simp: counted_inv_def intro: le_less_trans)
  from spec_client_step [of "registryView r" c op] this regStep_view [OF _ op(1), of r t'] assms(1)
  show ?thesis by (simp add: op(2) view_epochs [symmetric] counted_inv_def)
qed

interpretation counted: transition_system startRegistry served counted_inv
proof
  show "counted_inv startRegistry"
    using newRegistry_ok by (simp add: counted_inv_def ClientRegistrationEpoch_def newRegistry_def get_or_def)
next
  fix g g' assume inv: "counted_inv g" and step: "served g g'"
  obtain r t n r' t' n' where g: "g = (r, t, n)" "g' = (r', t', n')" by (metis prod_cases3)
  from step g obtain op where op: "request_ok op" "t \<le> t'" "r' = regStep t' op r" "n' = n + 1" "n + 1 < 18446744073709551616"
    by (auto elim: servedE)
  have "registry_ok r'" "0 \<le> t'" using inv op regStep_ok [of r t' op] by (auto simp: g counted_inv_def)
  moreover have "ClientRegistrationEpoch r' c \<le> n'" for c
    using served_client [of r t n r' t' n' c] inv step op(4) by (auto simp: g counted_inv_def intro: le_SucI)
  ultimately show "counted_inv g'" using op(4,5) by (simp add: g counted_inv_def)
qed

lemma later_client:
  assumes "served\<^sup>*\<^sup>* g g'" "counted_inv g"
  shows "ClientRegistrationEpoch (fst g) c \<le> ClientRegistrationEpoch (fst g') c \<and>
    (ClientRegistrationEpoch (fst g') c = ClientRegistrationEpoch (fst g) c \<longrightarrow>
       sp_clients (registryView (fst g')) c = sp_clients (registryView (fst g)) c)"
  using assms
proof (induction rule: rtranclp_induct)
  case (step y z)
  obtain r t n r' t' n' where g: "y = (r, t, n)" "z = (r', t', n')" by (metis prod_cases3)
  have "counted_inv y" using counted.inv_run step by blast
  with served_client [of r t n r' t' n' c] step g show ?case by auto
qed simp

text \<open>The models of a client, as the scheduler reads them, are those of its registration.\<close>

definition clientModelIDs :: "ModelRegistry \<Rightarrow> string \<Rightarrow> string list" where
  "clientModelIDs r c = map mi_ID (GetModelsForClient r c)"

lemma clientModelIDs_view:
  assumes "registry_ok r"
  shows "clientModelIDs r c = (case sp_clients (registryView r) c of None \<Rightarrow> [] | Some (p, ids) \<Rightarrow> first_mentions ids)"
proof (cases "map_of (mr_clientModels r) c")
  case None
  then show ?thesis
    by (simp add: clientModelIDs_def GetModelsForClient_def GetModelsAndEpochForClient_def Let_def registryView_def get_or_def
        first_mentions_def List.map_filter_def)
next
  case (Some ids)
  obtain infos where infos: "map_of (mr_clientModelInfos r) c = Some infos" "wf_map infos" "fst ` set infos = set ids"
    "\<forall>(i, info) \<in> set infos. mi_ID info = i"
    using known_client(5) [OF registry_okD(2) [OF assms] Some] by blast
  have at: "\<exists>info. map_of infos i = Some info \<and> mi_ID info = i" if i: "i \<in> set ids" for i
  proof -
    from i infos(3) obtain info where "(i, info) \<in> set infos" by force
    with infos(2,4) show ?thesis by force
  qed
  have "map mi_ID (List.map_filter (\<lambda>i. case map_of infos i of
             Some info \<Rightarrow> Some info | None \<Rightarrow> map_option reg_Info (map_of (mr_models r) i)) is) = is"
    if "set is \<subseteq> set ids" for "is"
    using that
  proof (induction "is")
    case (Cons i "is")
    then show ?case using at [of i] by (auto simp: map_filter_simps)
  qed (simp add: map_filter_simps)
  moreover have "set (first_mentions ids) \<subseteq> set ids" by (simp add: first_mentions_def)
  ultimately show ?thesis using Some infos(1)
    by (simp add: clientModelIDs_def GetModelsForClient_def GetModelsAndEpochForClient_def Let_def registryView_def get_or_def)
qed

text \<open>What the registry would answer now.\<close>

definition directoryOf :: "ModelRegistry \<Rightarrow> modelDirectory" where
  "directoryOf r = \<lparr>dir_GetModelsForClient = clientModelIDs r, dir_ClientRegistrationEpoch = ClientRegistrationEpoch r\<rparr>"

text \<open>
  What an operation of the scheduler may have read up to now: for each credential an epoch of one moment
  and the models of that or a later one.
\<close>

definition reads :: "countedRegistry \<Rightarrow> modelDirectory \<Rightarrow> bool" where
  "reads g dir \<longleftrightarrow> (\<forall>i. \<exists>g1 g2. served\<^sup>*\<^sup>* startRegistry g1 \<and> served\<^sup>*\<^sup>* g1 g2 \<and> served\<^sup>*\<^sup>* g2 g \<and>
     dir_ClientRegistrationEpoch dir i = ClientRegistrationEpoch (fst g1) i \<and>
     dir_GetModelsForClient dir i = clientModelIDs (fst g2) i)"

text \<open>Reading the epoch first is what makes a pair of reads trustworthy.\<close>

lemma reads_fresh:
  assumes "reads g dir"
  shows "dir_ClientRegistrationEpoch dir i \<le> ClientRegistrationEpoch (fst g) i"
    "dir_ClientRegistrationEpoch dir i = ClientRegistrationEpoch (fst g) i \<Longrightarrow> dir_GetModelsForClient dir i = clientModelIDs (fst g) i"
proof -
  obtain g1 g2 where g: "served\<^sup>*\<^sup>* startRegistry g1" "served\<^sup>*\<^sup>* g1 g2" "served\<^sup>*\<^sup>* g2 g"
    "dir_ClientRegistrationEpoch dir i = ClientRegistrationEpoch (fst g1) i" "dir_GetModelsForClient dir i = clientModelIDs (fst g2) i"
    using assms unfolding reads_def by blast
  have inv: "counted_inv g1" "counted_inv g2" "counted_inv g"
    using g(1-3) counted.inv_reachable counted.inv_run by blast+
  have ok: "registry_ok (fst g2)" "registry_ok (fst g)" using inv by (auto simp: counted_inv_def)
  note l1 = later_client [OF g(2) inv(1), of i] and l2 = later_client [OF g(3) inv(2), of i]
  show "dir_ClientRegistrationEpoch dir i \<le> ClientRegistrationEpoch (fst g) i" using l1 l2 g(4) by simp
  assume "dir_ClientRegistrationEpoch dir i = ClientRegistrationEpoch (fst g) i"
  then have "sp_clients (registryView (fst g)) i = sp_clients (registryView (fst g2)) i" using l1 l2 g(4) by simp
  then show "dir_GetModelsForClient dir i = clientModelIDs (fst g) i"
    unfolding g(5) clientModelIDs_view [OF ok(1)] clientModelIDs_view [OF ok(2)] by simp
qed

section \<open>What the scheduler keeps\<close>

text \<open>A property of the epoch and the model set kept for a credential that what is read has, too.\<close>

definition metas_all :: "(string \<Rightarrow> nat \<Rightarrow> string list option \<Rightarrow> bool) \<Rightarrow> authScheduler \<Rightarrow> bool" where
  "metas_all Q s \<longleftrightarrow> (\<forall>pk i meta. metaIn s pk i = Some meta \<longrightarrow> Q i (m_registryEpoch meta) (m_supportedModelSet meta))"

definition read_has :: "modelDirectory \<Rightarrow> (string \<Rightarrow> nat \<Rightarrow> string list option \<Rightarrow> bool) \<Rightarrow> bool" where
  "read_has dir Q \<longleftrightarrow> (\<forall>i. trim_space i = i \<longrightarrow> Q i (dir_ClientRegistrationEpoch dir i) (supportedModelSetForAuth dir i))"

lemma metas_all_mono:
  "metas_all Q s \<Longrightarrow> (\<And>pk i meta. metaIn s' pk i = Some meta \<Longrightarrow> metaIn s pk i = Some meta) \<Longrightarrow> metas_all Q s'"
  unfolding metas_all_def by blast

lemma metas_all_enter:
  assumes "metas_all Q s" "Q i (m_registryEpoch meta) (m_supportedModelSet meta)"
    and "\<And>q j. metaIn s' q j = (if j = i then (if q = pk then Some meta else None) else metaIn s q j)"
  shows "metas_all Q s'"
  using assms unfolding metas_all_def by (auto split: if_splits)

lemma metas_all_discard: "metas_all Q s \<Longrightarrow> (\<And>q j. metaIn s' q j = (if j = i then None else metaIn s q j)) \<Longrightarrow> metas_all Q s'"
  unfolding metas_all_def by (auto split: if_splits)

lemma lifecycle_metas:
  assumes "sched_ok t s" "t \<le> now" "0 \<le> now" "trimmed a" "metas_all Q s" "read_has dir Q"
  shows "metas_all Q (upsertAuthLifecycleLocked dir a now s)"
  using assms(4)
proof (cases rule: lifecycle_cases [of a dir now s])
  case ignored
  with assms(5) show ?thesis by simp
next
  case discarded
  show ?thesis unfolding discarded(3) by (rule metas_all_discard [OF assms(5) discard_ok(2) [OF assms(1,2)]])
next
  case (entered pk meta)
  have "Q (auth_ID a) (m_registryEpoch meta) (m_supportedModelSet meta)"
    using assms(4,6) entered(7,8) by (simp add: read_has_def)
  from metas_all_enter [OF assms(5) this admit_ok(2) [OF assms(1-3) entered(4)]] entered(5) show ?thesis
    unfolding entered(6) by simp
qed

lemma result_metas:
  assumes "sched_ok t s" "t \<le> now" "0 \<le> now" "trimmed a" "metas_all Q s" "read_has dir Q"
  shows "metas_all Q (upsertAuthResultLocked dir a targets scoped now s)"
  using assms(4)
proof (cases rule: result_cases [of a dir targets scoped now s])
  case ignored
  with assms(5) show ?thesis by simp
next
  case (stale pk)
  show ?thesis unfolding stale(3) using assms(5) by (simp add: metas_all_def rescan_ok(2) [OF assms(1-3)])
next
  case discarded
  show ?thesis unfolding discarded(3) by (rule metas_all_discard [OF assms(5) discard_ok(2) [OF assms(1,2)]])
next
  case (entered pk meta targets' scoped')
  have "Q (auth_ID a) (m_registryEpoch meta) (m_supportedModelSet meta)"
    using entered(9)
  proof
    assume "m_supportedModelSet meta = supportedModelSetForAuth dir (auth_ID a)"
    then show ?thesis using assms(4,6) entered(8) by (simp add: read_has_def)
  next
    assume "\<exists>old. metaIn s pk (auth_ID a) = Some old \<and> m_registryEpoch old = dir_ClientRegistrationEpoch dir (auth_ID a) \<and>
      m_supportedModelSet old = m_supportedModelSet meta"
    then show ?thesis using assms(5) entered(8) by (metis metas_all_def)
  qed
  from metas_all_enter [OF assms(5) this admit_ok(2) [OF assms(1-3) entered(4) _ entered(6)]] entered(5) show ?thesis
    unfolding entered(7) by simp
qed

lemma rebuild_step_metas:
  assumes "sched_ok now s" "0 \<le> now" "trimmed a" "metas_ok metas" "metas_all Q s" "read_has dir Q"
  shows "metas_all Q (upsertAuthRebuildLocked dir metas now a s)"
  using assms(3,4)
proof (cases rule: rebuild_cases [of a metas dir now s])
  case ignored
  with assms(5) show ?thesis by simp
next
  case removed
  have "sched_core now s" using assms(1) by (simp add: sched_ok_def)
  from metas_all_discard [OF assms(5) remove_core(2) [OF this]] show ?thesis unfolding removed(2) .
next
  case (entered b pk meta g u)
  have "Q (auth_ID a) (m_registryEpoch meta) (m_supportedModelSet meta)"
    using assms(3,6) entered(7,11) by (simp add: read_has_def)
  from metas_all_enter [OF assms(5) this admit_ok(2) [OF assms(1) order_refl assms(2) entered(3)]] entered(4,5,6) show ?thesis
    unfolding entered(8) by simp
qed

lemma rebuild_metas:
  assumes "sched_ok t s" "t \<le> now" "0 \<le> now" "\<forall>a \<in> set auths. trimmed a" "read_has dir Q"
  shows "metas_all Q (rebuild dir auths now s)"
proof -
  have metas: "metas_ok (existingMetas s)" using assms(1) existingMetas_ok by (auto simp: sched_ok_def)
  have "sched_ok now u \<Longrightarrow> metas_all Q u \<Longrightarrow> metas_all Q (fold (upsertAuthRebuildLocked dir (existingMetas s) now) auths u)" for u
    using assms(4)
  proof (induction auths arbitrary: u)
    case (Cons a auths)
    show ?case using Cons.IH [OF rebuild_step_ok [OF Cons.prems(1) order_refl] rebuild_step_metas [OF Cons.prems(1)]]
        Cons.prems assms(3,5) metas by simp
  qed simp
  moreover have "metas_all Q (s\<lparr>s_providers := [], s_authProviders := [], s_mixedCursors := [], s_mixedWeightedStates := []\<rparr>)"
    by (simp add: metas_all_def metaIn_def)
  ultimately show ?thesis
    using cleared_ok [OF sched_ok_mono [OF assms(1,2)]] unfolding rebuild_def Let_def by blast
qed

text \<open>The directories of an operation.\<close>

fun uses :: "(modelDirectory \<Rightarrow> bool) \<Rightarrow> schedOp \<Rightarrow> bool" where
  "uses P (UpsertAuth dir a) \<longleftrightarrow> P dir"
| "uses P (UpsertResult dir a targets scoped) \<longleftrightarrow> P dir"
| "uses P (Rebuild dir auths) \<longleftrightarrow> P dir"
| "uses P _ \<longleftrightarrow> True"

lemma removal_metas:
  assumes "sched_ok t s" "t \<le> now" "metas_all Q s"
  shows "metas_all Q (RecordRemovalTombstone i e now s)" "metas_all Q (removeAuth i now s)"
  using metas_all_discard [OF assms(3) discard_ok(2) [OF assms(1,2)]] assms(3)
  by (auto simp: RecordRemovalTombstone_def recordRemovalTombstoneLocked_def removeAuth_def removeAuthLocked_def)

lemma step_metas:
  assumes "sched_ok t s" "t \<le> now" "0 \<le> now" "input_ok op" "uses (\<lambda>dir. read_has dir Q) op" "metas_all Q s"
  shows "metas_all Q (schedStep now op s)"
proof -
  have same: "metaIn s' = metaIn s \<Longrightarrow> metas_all Q s'" for s' using assms(6) by (simp add: metas_all_def)
  show ?thesis
  proof (cases op)
    case (PickSingle provider model rq strategy)
    with pickSingle_spec(2) [OF assms(1-3), of provider model rq strategy] show ?thesis
      by (intro same) (metis prod.collapse schedStep.simps(8))
  next
    case (PickMixed providers model rq strategy)
    with pickMixed_ok [OF assms(1-3), of providers model rq strategy] show ?thesis
      by (intro same) (metis prod.collapse schedStep.simps(9))
  next
    case (ResetGeneration i)
    then show ?thesis by (intro same metaIn_cong) (simp add: ResetAuthGeneration_def Let_def)
  next
    case (SetSelector selector)
    then show ?thesis by (intro same metaIn_cong) (simp add: setSelector_def)
  qed (use assms in \<open>auto intro: lifecycle_metas result_metas rebuild_metas removal_metas\<close>)
qed

section \<open>The two together\<close>

text \<open>Either side takes a step; the scheduler works with what it has read from the registry so far.\<close>

inductive routing :: "countedRegistry \<times> time \<times> authScheduler \<Rightarrow> countedRegistry \<times> time \<times> authScheduler \<Rightarrow> bool" where
  registry_side: "served g g' \<Longrightarrow> routing (g, ts) (g', ts)"
| scheduler_side: "sched_step (uses (reads g)) ts ts' \<Longrightarrow> routing (g, ts) (g, ts')"

inductive_cases routingE: "routing s s'"

definition trusted :: "ModelRegistry \<Rightarrow> string \<Rightarrow> nat \<Rightarrow> string list option \<Rightarrow> bool" where
  "trusted r i e ms \<longleftrightarrow> e \<le> ClientRegistrationEpoch r i \<and>
     (e = ClientRegistrationEpoch r i \<longrightarrow> ms = supportedModelSetForAuth (directoryOf r) i)"

definition routing_inv :: "countedRegistry \<times> time \<times> authScheduler \<Rightarrow> bool" where
  "routing_inv = (\<lambda>(g, ts). served\<^sup>*\<^sup>* startRegistry g \<and> sched_inv ts \<and> metas_all (trusted (fst g)) (snd ts))"

lemma supported_cong:
  "trim_space i = i \<Longrightarrow> dir_GetModelsForClient dir i = dir_GetModelsForClient dir' i \<Longrightarrow>
   supportedModelSetForAuth dir i = supportedModelSetForAuth dir' i"
  by (simp add: supportedModelSetForAuth_def)

lemma reads_trusted: "reads g dir \<Longrightarrow> read_has dir (trusted (fst g))"
  unfolding read_has_def trusted_def using reads_fresh [of g dir] supported_cong [of _ dir "directoryOf (fst g)"]
  by (simp add: directoryOf_def)

text \<open>A served request keeps what is trusted: the set of a changed registration has an older epoch.\<close>

lemma trusted_later:
  assumes "served\<^sup>*\<^sup>* startRegistry g" "served g g'" "trusted (fst g) i e ms" "trim_space i = i"
  shows "trusted (fst g') i e ms"
proof -
  have inv: "counted_inv g" using counted.inv_reachable assms(1) by blast
  then have inv': "counted_inv g'" using counted.inv_step assms(2) by blast
  have "served\<^sup>*\<^sup>* g g'" using assms(2) by (rule r_into_rtranclp)
  note l = later_client [OF this inv, of i]
  show ?thesis
  proof (cases "ClientRegistrationEpoch (fst g') i = ClientRegistrationEpoch (fst g) i")
    case True
    then have "sp_clients (registryView (fst g')) i = sp_clients (registryView (fst g)) i" using l by simp
    moreover have "registry_ok (fst g)" "registry_ok (fst g')" using inv inv' by (auto simp: counted_inv_def)
    ultimately have "clientModelIDs (fst g') i = clientModelIDs (fst g) i" by (simp add: clientModelIDs_view)
    with True assms(3) supported_cong [OF assms(4), of "directoryOf (fst g')" "directoryOf (fst g)"] show ?thesis
      by (simp add: trusted_def directoryOf_def)
  next
    case False
    with l assms(3) show ?thesis by (auto simp: trusted_def)
  qed
qed

interpretation routed: transition_system "(startRegistry, 0, newAuthScheduler selector)" routing routing_inv
  for selector
proof
  show "routing_inv (startRegistry, 0, newAuthScheduler selector)"
    using scheduler.inv_start [of selector] by (simp add: routing_inv_def metas_all_def metaIn_def newAuthScheduler_def)
next
  fix x x' assume inv: "routing_inv x" and step: "routing x x'"
  from step show "routing_inv x'"
  proof (cases rule: routing.cases)
    case (registry_side g g' ts)
    have sched: "sched_ok (fst ts) (snd ts)" and reach: "served\<^sup>*\<^sup>* startRegistry g" and metas: "metas_all (trusted (fst g)) (snd ts)"
      using inv registry_side(1) by (auto simp: routing_inv_def sched_inv_def)
    have trim: "trim_space i = i" if "metaIn (snd ts) pk i = Some meta" for pk i meta
    proof -
      have "m_id meta = i" "meta_ok pk meta" using metaIn_ok(1,2) [of "fst ts" "snd ts" pk i meta] sched that by (auto simp: sched_ok_def)
      then have "i = trim_space (auth_ID (m_auth meta))" by (auto simp: meta_ok_def schedulable_iff)
      then show ?thesis by simp
    qed
    have "metas_all (trusted (fst g')) (snd ts)"
      using metas trusted_later [OF reach registry_side(3)] trim unfolding metas_all_def by blast
    with inv registry_side reach show ?thesis by (auto simp: routing_inv_def intro: rtranclp.rtrancl_into_rtrancl)
  next
    case (scheduler_side g ts ts')
    obtain t s now s' where ts: "ts = (t, s)" "ts' = (now, s')" by (metis prod.exhaust)
    with scheduler_side(3) obtain op where op: "s' = schedStep now op s" "t \<le> now" "input_ok op" "uses (reads g) op"
      by (auto elim: sched_stepE)
    have "uses (\<lambda>dir. read_has dir (trusted (fst g))) op" using op(4) reads_trusted by (cases op) auto
    with inv scheduler_side(1) op have "metas_all (trusted (fst g)) s'"
      by (auto simp: routing_inv_def sched_inv_def ts intro!: step_metas)
    moreover have "sched_inv ts'"
      using scheduler.inv_step [OF _ scheduler_side(3)] inv scheduler_side(1) by (auto simp: routing_inv_def)
    ultimately show ?thesis using inv scheduler_side by (auto simp: routing_inv_def ts)
  qed
qed

abbreviation routes_to :: "Selector \<Rightarrow> countedRegistry \<Rightarrow> time \<Rightarrow> authScheduler \<Rightarrow> bool" where
  "routes_to selector g t s \<equiv> routing\<^sup>*\<^sup>* (startRegistry, 0, newAuthScheduler selector) (g, t, s)"

text \<open>
  (C29) The scheduler and the registry agree when the check for synchronization says so. The two run side by
  side, every read by the scheduler being of the epoch first and of the models later, with any requests
  to the registry in between; then, if the check that compares the epochs kept by the scheduler with
  those of the registry asks for no rebuild against a list of credentials, each of these that can be
  scheduled is scheduled by its provider with exactly the set of models the registry has for it now.
\<close>

theorem synced_scheduler_serves_registry:
  assumes "routes_to selector (r, clock, n) t s" "\<not> needsSyncFromMapLocked (directoryOf r) auths s"
    and "a \<in> set auths" "isSchedulableAuth a = Some (i, providerKey)"
  shows "map_of (s_authProviders s) i = Some providerKey \<and>
    (\<exists>meta. metaIn s providerKey i = Some meta \<and>
       m_supportedModelSet meta = supportedModelSetForAuth (directoryOf r) i)"
proof -
  have inv: "sched_ok t s" "metas_all (trusted r) s"
    using routed.inv_reachable [OF assms(1)] by (auto simp: routing_inv_def sched_inv_def)
  have "\<not> outdated (directoryOf r) s a"
    using assms(2,3) by (auto simp: needsSyncFromMapLocked_def list_ex_iff split: if_splits)
  then obtain p meta where p: "map_of (s_providers s) providerKey = Some p" "map_of (ps_auths p) i = Some meta"
    "m_registryEpoch meta = ClientRegistrationEpoch r i" "get_or '''' (s_authProviders s) i = providerKey"
    using assms(4) by (auto simp: outdated_def directoryOf_def split: option.splits if_splits)
  then have meta: "metaIn s providerKey i = Some meta" by (simp add: metaIn_def)
  have "map_of (s_authProviders s) i = Some providerKey"
    using owner(1) [of t s i providerKey] inv(1) meta by (simp add: sched_ok_def)
  moreover have "m_supportedModelSet meta = supportedModelSetForAuth (directoryOf r) i"
    using inv(2) meta p(3) by (auto simp: metas_all_def trusted_def)
  ultimately show ?thesis using meta by blast
qed

definition sample_served :: ModelRegistry where
  "sample_served = regStep 1 (OpRegister ''a'' ''gemini'' [sample_model ''m'', sample_model ''n'']) newRegistry"

definition sample_routed :: authScheduler where
  "sample_routed = schedStep 2 (UpsertAuth (directoryOf sample_served) (sample_auth ''a'')) (newAuthScheduler NilSelector)"

lemma sample_routes: "routes_to NilSelector (sample_served, 1, 1) 2 sample_routed"
proof -
  have g: "served startRegistry (sample_served, 1, 1)"
    using serve [of "OpRegister ''a'' ''gemini'' [sample_model ''m'', sample_model ''n'']" 0 1 0 newRegistry]
    by (simp add: sample_served_def)
  have "reads (sample_served, 1, 1) (directoryOf sample_served)"
    unfolding reads_def by (intro allI exI [of _ "(sample_served, 1, 1)"]) (use g in \<open>auto simp: directoryOf_def\<close>)
  moreover have "trimmed (sample_auth ''a'')" by code_simp
  ultimately have "sched_step (uses (reads (sample_served, 1, 1))) (0, newAuthScheduler NilSelector) (2, sample_routed)"
    unfolding sample_routed_def by (intro sched_step.step) simp_all
  then have "routing ((sample_served, 1, 1), 0, newAuthScheduler NilSelector) ((sample_served, 1, 1), 2, sample_routed)"
    by (rule scheduler_side)
  moreover have "routing (startRegistry, 0, newAuthScheduler NilSelector) ((sample_served, 1, 1), 0, newAuthScheduler NilSelector)"
    by (rule registry_side [OF g])
  ultimately show ?thesis by (meson r_into_rtranclp rtranclp.rtrancl_into_rtrancl)
qed

theorem synced_scheduler_serves_registry_witness:
  "map_option m_supportedModelSet (metaIn sample_routed ''gemini'' ''a'') = Some (supportedModelSetForAuth (directoryOf sample_served) ''a'') \<and>
   supportedModelSetForAuth (directoryOf sample_served) ''a'' = Some [''m'', ''n'']"
proof
  have "\<not> needsSyncFromMapLocked (directoryOf sample_served) [sample_auth ''a''] sample_routed" by code_simp
  moreover have "isSchedulableAuth (sample_auth ''a'') = Some (''a'', ''gemini'')" by code_simp
  ultimately show "map_option m_supportedModelSet (metaIn sample_routed ''gemini'' ''a'') =
      Some (supportedModelSetForAuth (directoryOf sample_served) ''a'')"
    using synced_scheduler_serves_registry [OF sample_routes, of "[sample_auth ''a'']" "sample_auth ''a''" "''a''" "''gemini''"]
    by auto
  show "supportedModelSetForAuth (directoryOf sample_served) ''a'' = Some [''m'', ''n'']" by code_simp
qed

end
