(* ===== verification/Json.thy ===== *)
theory Json
  imports Thinking
begin

text \<open>
  What error classification uses of \<open>encoding/json\<close> and of \<open>strings\<close>: \<open>json.Valid\<close> and
  \<open>json.Unmarshal\<close> of a whole text into an \<open>any\<close>, \<open>Contains\<close>, \<open>HasPrefix\<close>, \<open>TrimPrefix\<close>,
  \<open>Trim\<close>, \<open>Index\<close> and \<open>LastIndexAny\<close>.

  The decoder is a lexer and a parser with an explicit stack of open arrays and objects, so that
  nesting beyond 10000 levels is rejected as the library rejects it. A number is kept as it is
  written. Bytes from 128 on stay as they are in a string; the library replaces those that are not
  UTF-8.
\<close>

section \<open>Searching in strings\<close>

fun is_prefix_of :: "string \<Rightarrow> string \<Rightarrow> bool" where
  "is_prefix_of [] s = True"
| "is_prefix_of (p # ps) [] = False"
| "is_prefix_of (p # ps) (c # cs) \<longleftrightarrow> p = c \<and> is_prefix_of ps cs"

fun contains :: "string \<Rightarrow> string \<Rightarrow> bool" where
  "contains [] sub \<longleftrightarrow> sub = []"
| "contains (c # cs) sub \<longleftrightarrow> is_prefix_of sub (c # cs) \<or> contains cs sub"

definition contains_any_of :: "string \<Rightarrow> string list \<Rightarrow> bool" where
  "contains_any_of s subs \<longleftrightarrow> list_ex (contains s) subs"

definition trim_prefix :: "string \<Rightarrow> string \<Rightarrow> string" where
  "trim_prefix s p = (if is_prefix_of p s then drop (length p) s else s)"

text \<open>\<open>strings.TrimLeft\<close>, \<open>TrimRight\<close> and \<open>Trim\<close> with a cut set.\<close>

definition trim_left :: "string \<Rightarrow> string \<Rightarrow> string" where
  "trim_left s cutset = dropWhile (\<lambda>c. c \<in> set cutset) s"

definition trim_right :: "string \<Rightarrow> string \<Rightarrow> string" where
  "trim_right s cutset = rev (dropWhile (\<lambda>c. c \<in> set cutset) (rev s))"

definition trim_set :: "string \<Rightarrow> string \<Rightarrow> string" where
  "trim_set s cutset = trim_right (trim_left s cutset) cutset"

text \<open>\<open>strings.LastIndexAny\<close>: what follows the last byte of the set, when there is one.\<close>

definition after_last_of :: "string \<Rightarrow> string \<Rightarrow> string option" where
  "after_last_of s chars =
     (if list_ex (\<lambda>c. c \<in> set chars) s then Some (rev (takeWhile (\<lambda>c. c \<notin> set chars) (rev s))) else None)"

definition replace_char :: "(char \<times> char) list \<Rightarrow> string \<Rightarrow> string" where
  "replace_char r s = map (\<lambda>c. get_or c r c) s"

lemma is_prefix_of_iff: "is_prefix_of p s \<longleftrightarrow> (\<exists>t. s = p @ t)"
  by (induction p s rule: is_prefix_of.induct) auto

lemma contains_iff: "contains s sub \<longleftrightarrow> (\<exists>a b. s = a @ sub @ b)"
proof (induction s)
  case Nil
  then show ?case by auto
next
  case (Cons c cs)
  show ?case
  proof
    assume "contains (c # cs) sub"
    then consider "is_prefix_of sub (c # cs)" | "contains cs sub" by auto
    then show "\<exists>a b. c # cs = a @ sub @ b"
    proof cases
      case 1
      then show ?thesis by (metis append_Nil is_prefix_of_iff)
    next
      case 2
      with Cons.IH show ?thesis by (metis append_Cons)
    qed
  next
    assume "\<exists>a b. c # cs = a @ sub @ b"
    then obtain a b where ab: "c # cs = a @ sub @ b" by blast
    show "contains (c # cs) sub"
    proof (cases a)
      case Nil
      with ab have "is_prefix_of sub (c # cs)" by (auto simp: is_prefix_of_iff)
      then show ?thesis by simp
    next
      case (Cons x xs)
      with ab Cons.IH show ?thesis by simp blast
    qed
  qed
qed

lemma contains_trans: "contains s t \<Longrightarrow> contains t u \<Longrightarrow> contains s u"
  unfolding contains_iff by (metis append.assoc)

section \<open>JSON values\<close>

datatype json =
    JNull | JBool bool | JNumber string | JString string
  | JArray "json list" | JObject "(string \<times> json) list"

datatype json_token =
    TLBrace | TRBrace | TLBracket | TRBracket | TColon | TComma
  | TString string | TNumber string | TLiteral json

section \<open>The lexer\<close>

definition json_space :: "char \<Rightarrow> bool" where
  "json_space c \<longleftrightarrow> c = CHR '' '' \<or> c = CHR 0x09 \<or> c = CHR 0x0A \<or> c = CHR 0x0D"

definition hex_value :: "char \<Rightarrow> nat option" where
  "hex_value c =
     (let n = of_char c :: nat
      in if 48 \<le> n \<and> n \<le> 57 then Some (n - 48)
         else if 97 \<le> n \<and> n \<le> 102 then Some (n - 87)
         else if 65 \<le> n \<and> n \<le> 70 then Some (n - 55)
         else None)"

definition hex4 :: "string \<Rightarrow> (nat \<times> string) option" where
  "hex4 s =
     (case s of
        a # b # c # d # r \<Rightarrow>
          (case (hex_value a, hex_value b, hex_value c, hex_value d) of
             (Some a, Some b, Some c, Some d) \<Rightarrow> Some (4096 * a + 256 * b + 16 * c + d, r)
           | _ \<Rightarrow> None)
      | _ \<Rightarrow> None)"

text \<open>The UTF-8 bytes of a code point, and the surrogates that \<open>utf16\<close> joins.\<close>

definition utf8_encode :: "nat \<Rightarrow> string" where
  "utf8_encode n =
     (if n < 128 then [char_of n]
      else if n < 2048 then [char_of (192 + n div 64), char_of (128 + n mod 64)]
      else if n < 65536
      then [char_of (224 + n div 4096), char_of (128 + n div 64 mod 64), char_of (128 + n mod 64)]
      else [char_of (240 + n div 262144), char_of (128 + n div 4096 mod 64),
            char_of (128 + n div 64 mod 64), char_of (128 + n mod 64)])"

definition json_unicode :: "nat \<Rightarrow> string \<Rightarrow> string \<times> string" where
  "json_unicode n r =
     (if n < 55296 \<or> 57344 \<le> n then (utf8_encode n, r)
      else (case r of
              x # y # r' \<Rightarrow>
                (if n < 56320 \<and> x = CHR 0x5C \<and> y = CHR ''u''
                 then (case hex4 r' of
                         Some (low, rest) \<Rightarrow>
                           (if 56320 \<le> low \<and> low < 57344
                            then (utf8_encode (65536 + (n - 55296) * 1024 + (low - 56320)), rest)
                            else (utf8_encode 65533, r))
                       | None \<Rightarrow> (utf8_encode 65533, r))
                 else (utf8_encode 65533, r))
            | _ \<Rightarrow> (utf8_encode 65533, r)))"

definition json_escape :: "char \<Rightarrow> string option" where
  "json_escape c =
     (if c = CHR 0x22 then Some [CHR 0x22]
      else if c = CHR 0x5C then Some [CHR 0x5C]
      else if c = CHR ''/'' then Some ''/''
      else if c = CHR ''b'' then Some [CHR 0x08]
      else if c = CHR ''f'' then Some [CHR 0x0C]
      else if c = CHR ''n'' then Some [CHR 0x0A]
      else if c = CHR ''r'' then Some [CHR 0x0D]
      else if c = CHR ''t'' then Some [CHR 0x09]
      else None)"

lemma hex4_shorter: "hex4 s = Some (n, r) \<Longrightarrow> length r < length s"
  by (auto simp: hex4_def split: list.splits option.splits)

lemma json_unicode_shorter: "json_unicode n r = (u, r') \<Longrightarrow> length r' \<le> length r"
  by (auto simp: json_unicode_def dest!: hex4_shorter split: if_splits list.splits option.splits)

text \<open>The rest of a string after its opening quote.\<close>

function lex_string :: "string \<Rightarrow> string \<Rightarrow> (string \<times> string) option" where
  "lex_string acc [] = None"
| "lex_string acc (c # cs) =
     (if c = CHR 0x22 then Some (acc, cs)
      else if (of_char c :: nat) < 32 then None
      else if c \<noteq> CHR 0x5C then lex_string (acc @ [c]) cs
      else (case cs of
              [] \<Rightarrow> None
            | e # es \<Rightarrow>
                (if e = CHR ''u''
                 then (case hex4 es of
                         None \<Rightarrow> None
                       | Some (n, r) \<Rightarrow>
                           (case json_unicode n r of (u, r') \<Rightarrow> lex_string (acc @ u) r'))
                 else (case json_escape e of
                         None \<Rightarrow> None
                       | Some t \<Rightarrow> lex_string (acc @ t) es))))"
  by pat_completeness auto
termination
  by (relation "measure (\<lambda>(acc, s). length s)")
    (auto dest!: hex4_shorter json_unicode_shorter sym [of "(_, _)" "json_unicode _ _"])

lemma lex_string_shorter: "lex_string acc s = Some (t, r) \<Longrightarrow> length r < length s"
proof (induction acc s arbitrary: t r rule: lex_string.induct)
  case (2 acc c cs)
  show ?case
  proof (cases "c = CHR 0x22 \<or> (of_char c :: nat) < 32 \<or> c \<noteq> CHR 0x5C")
    case True
    with 2 show ?thesis by (auto split: if_splits)
  next
    case False
    then obtain e es where cs: "cs = e # es"
      using 2 by (cases cs) auto
    show ?thesis
    proof (cases "e = CHR ''u''")
      case True
      with False cs "2.prems" obtain n q u q' where q: "hex4 es = Some (n, q)" "json_unicode n q = (u, q')"
          "lex_string (acc @ u) q' = Some (t, r)"
        by (auto split: option.splits prod.splits)
      have "length r < length q'"
        by (rule "2.IH"(2)) (use False cs True q(1,3) q(2) [symmetric] in simp_all)
      with hex4_shorter [OF q(1)] json_unicode_shorter [OF q(2)] cs show ?thesis by simp
    next
      case e: False
      with False cs "2.prems" obtain x where x: "json_escape e = Some x" "lex_string (acc @ x) es = Some (t, r)"
        by (auto split: option.splits)
      have "length r < length es"
        by (rule "2.IH"(3)) (use False cs e x in simp_all)
      with cs show ?thesis by simp
    qed
  qed
qed simp

text \<open>
  A number: an optional minus, an integer part without superfluous zeros, and an optional fraction
  and exponent. \<open>number_value\<close> is the rational a valid one denotes; converting it to a \<open>float64\<close>
  fails when it rounds to an infinity.
\<close>

definition split_digits :: "string \<Rightarrow> string \<times> string" where
  "split_digits s = (takeWhile is_digit s, dropWhile is_digit s)"

definition number_parts :: "string \<Rightarrow> (bool \<times> string \<times> string \<times> string) option" where
  "number_parts s =
     (let (neg, s) = (case s of c # cs \<Rightarrow> if c = CHR ''-'' then (True, cs) else (False, s) | [] \<Rightarrow> (False, s));
          (whole, s) = split_digits s;
          (fraction, s, ok) =
            (case s of
               c # cs \<Rightarrow> if c = CHR ''.''
                         then (case split_digits cs of (ds, r) \<Rightarrow> (ds, r, ds \<noteq> []))
                         else ([], s, True)
             | [] \<Rightarrow> ([], s, True));
          (exponent, s, ok) =
            (case s of
               c # cs \<Rightarrow> if c = CHR ''e'' \<or> c = CHR ''E''
                         then (let cs' = (case cs of x # xs \<Rightarrow> if x = CHR ''-'' \<or> x = CHR ''+'' then xs else cs | [] \<Rightarrow> cs)
                               in case split_digits cs' of (ds, r) \<Rightarrow>
                                    ((if is_prefix_of ''-'' cs then CHR ''-'' # ds else ds), r, ok \<and> ds \<noteq> []))
                         else (''0'', s, ok)
             | [] \<Rightarrow> (''0'', s, ok))
      in if ok \<and> s = [] \<and> whole \<noteq> [] \<and> (hd whole = CHR ''0'' \<longrightarrow> length whole = 1)
         then Some (neg, whole, fraction, exponent) else None)"

definition digits_nat :: "string \<Rightarrow> nat" where
  "digits_nat ds = foldl (\<lambda>acc d. 10 * acc + (of_char d - 48)) 0 ds"

definition number_overflows :: "string \<Rightarrow> bool" where
  "number_overflows s =
     (case number_parts s of
        None \<Rightarrow> False
      | Some (neg, whole, fraction, exponent) \<Rightarrow>
          (let mantissa = of_nat (digits_nat (whole @ fraction)) :: rat;
               e = (if is_prefix_of ''-'' exponent then - int (digits_nat (tl exponent))
                    else int (digits_nat exponent)) - int (length fraction);
               v = (if 0 \<le> e then mantissa * 10 ^ nat e else mantissa / 10 ^ nat (- e))
           in 2 ^ 1024 - 2 ^ 970 \<le> v))"

definition number_char :: "char \<Rightarrow> bool" where
  "number_char c \<longleftrightarrow> is_digit c \<or> c = CHR ''-'' \<or> c = CHR ''+'' \<or> c = CHR ''.'' \<or> c = CHR ''e'' \<or> c = CHR ''E''"

definition punctuation :: "char \<Rightarrow> json_token option" where
  "punctuation c =
     (if c = CHR ''{'' then Some TLBrace else if c = CHR ''}'' then Some TRBrace
      else if c = CHR ''['' then Some TLBracket else if c = CHR '']'' then Some TRBracket
      else if c = CHR '':'' then Some TColon else if c = CHR '','' then Some TComma else None)"

definition lex_literal :: "string \<Rightarrow> (json \<times> string) option" where
  "lex_literal s =
     (if is_prefix_of ''null'' s then Some (JNull, drop 4 s)
      else if is_prefix_of ''true'' s then Some (JBool True, drop 4 s)
      else if is_prefix_of ''false'' s then Some (JBool False, drop 5 s)
      else None)"

function lex :: "string \<Rightarrow> json_token list option" where
  "lex [] = Some []"
| "lex (c # cs) =
     (if json_space c then lex cs
      else case punctuation c of
             Some t \<Rightarrow> map_option ((#) t) (lex cs)
           | None \<Rightarrow>
               (if c = CHR 0x22
                then (case lex_string [] cs of
                        None \<Rightarrow> None
                      | Some (s, r) \<Rightarrow> map_option ((#) (TString s)) (lex r))
                else if c = CHR ''-'' \<or> is_digit c
                then (let n = takeWhile number_char (c # cs)
                      in if number_parts n = None then None
                         else map_option ((#) (TNumber n)) (lex (dropWhile number_char cs)))
                else (case lex_literal (c # cs) of
                        None \<Rightarrow> None
                      | Some (l, r) \<Rightarrow> map_option ((#) (TLiteral l)) (lex r))))"
  by pat_completeness auto
termination
  by (relation "measure length")
    (auto dest!: lex_string_shorter simp: lex_literal_def less_Suc_eq_le length_dropWhile_le split: if_splits)

section \<open>The parser\<close>

text \<open>
  The stack holds the open arrays and objects, an object with the key whose value is being read.
  A repeated key replaces the value of the earlier one, as decoding into a map does.
\<close>

datatype json_frame = FArray "json list" | FObject "(string \<times> json) list" string

datatype json_state =
    ExpectValue | ExpectValueOrClose | ExpectKey | ExpectKeyOrClose | ExpectColon | ExpectNext | Finished json

definition max_nesting :: nat where "max_nesting = 10000"

fun complete :: "json \<Rightarrow> json_frame list \<Rightarrow> json_state \<times> json_frame list" where
  "complete v [] = (Finished v, [])"
| "complete v (FArray vs # st) = (ExpectNext, FArray (vs @ [v]) # st)"
| "complete v (FObject ms k # st) = (ExpectNext, FObject (AList.update k v ms) k # st)"

definition open_frame :: "json_frame \<Rightarrow> json_state \<Rightarrow> json_frame list \<Rightarrow> (json_state \<times> json_frame list) option" where
  "open_frame f next st = (if length st < max_nesting then Some (next, f # st) else None)"

definition start_value :: "json_token \<Rightarrow> json_frame list \<Rightarrow> (json_state \<times> json_frame list) option" where
  "start_value t st =
     (case t of
        TLBrace \<Rightarrow> open_frame (FObject [] []) ExpectKeyOrClose st
      | TLBracket \<Rightarrow> open_frame (FArray []) ExpectValueOrClose st
      | TString s \<Rightarrow> Some (complete (JString s) st)
      | TNumber n \<Rightarrow> Some (complete (JNumber n) st)
      | TLiteral l \<Rightarrow> Some (complete l st)
      | _ \<Rightarrow> None)"

fun close_frame :: "json_token \<Rightarrow> json_frame list \<Rightarrow> (json_state \<times> json_frame list) option" where
  "close_frame TRBracket (FArray vs # st) = Some (complete (JArray vs) st)"
| "close_frame TRBrace (FObject ms k # st) = Some (complete (JObject ms) st)"
| "close_frame t st = None"

fun set_key :: "string \<Rightarrow> json_frame list \<Rightarrow> (json_state \<times> json_frame list) option" where
  "set_key k (FObject ms _ # st) = Some (ExpectColon, FObject ms k # st)"
| "set_key k st = None"

fun next_member :: "json_frame list \<Rightarrow> (json_state \<times> json_frame list) option" where
  "next_member (FArray vs # st) = Some (ExpectValue, FArray vs # st)"
| "next_member (FObject ms k # st) = Some (ExpectKey, FObject ms k # st)"
| "next_member [] = None"

definition parse_step :: "json_token \<Rightarrow> json_state \<times> json_frame list \<Rightarrow> (json_state \<times> json_frame list) option" where
  "parse_step t s =
     (case s of (q, st) \<Rightarrow>
        (case q of
           ExpectValue \<Rightarrow> start_value t st
         | ExpectValueOrClose \<Rightarrow> (if t = TRBracket then close_frame t st else start_value t st)
         | ExpectKey \<Rightarrow> (case t of TString k \<Rightarrow> set_key k st | _ \<Rightarrow> None)
         | ExpectKeyOrClose \<Rightarrow>
             (case t of TString k \<Rightarrow> set_key k st | TRBrace \<Rightarrow> close_frame t st | _ \<Rightarrow> None)
         | ExpectColon \<Rightarrow> (if t = TColon then Some (ExpectValue, st) else None)
         | ExpectNext \<Rightarrow> (if t = TComma then next_member st else close_frame t st)
         | Finished v \<Rightarrow> None))"

fun parse_tokens :: "json_token list \<Rightarrow> json_state \<times> json_frame list \<Rightarrow> json option" where
  "parse_tokens [] (q, st) = (case q of Finished v \<Rightarrow> Some v | _ \<Rightarrow> None)"
| "parse_tokens (t # ts) s = (case parse_step t s of None \<Rightarrow> None | Some s' \<Rightarrow> parse_tokens ts s')"

definition parse_json :: "string \<Rightarrow> json option" where
  "parse_json s = (case lex s of None \<Rightarrow> None | Some ts \<Rightarrow> parse_tokens ts (ExpectValue, []))"

definition json_valid :: "string \<Rightarrow> bool" where
  "json_valid s \<longleftrightarrow> parse_json s \<noteq> None"

definition token_overflows :: "json_token \<Rightarrow> bool" where
  "token_overflows t \<longleftrightarrow> (case t of TNumber n \<Rightarrow> number_overflows n | _ \<Rightarrow> False)"

definition json_unmarshal :: "string \<Rightarrow> json option" where
  "json_unmarshal s =
     (case lex s of
        None \<Rightarrow> None
      | Some ts \<Rightarrow> if list_ex token_overflows ts then None else parse_tokens ts (ExpectValue, []))"

end
