(* ===== verification/Failure.thy ===== *)
theory Failure
  imports Credential Json
begin

text \<open>
  What an upstream failure means for the credential that met it
  (\<open>sdk/cliproxy/auth/conductor_cooldown.go\<close>, \<open>conductor_request_scoped_errors.go\<close>,
  \<open>internal/clienterror/client_error.go\<close>, \<open>sdk/cliproxy/executor/tls_handshake_timeout.go\<close>): the
  status an error carries, whether the request or the connection is to blame, and the \<open>*Error\<close>
  that is recorded.

  A Go \<open>error\<close> is the tree that \<open>Unwrap\<close> spans; every node carries what \<open>errors.As\<close>,
  \<open>errors.Is\<close> and a type assertion can find at it. \<open>gjson.Get(body, path).String()\<close>, of a package
  outside the repository, is the argument \<open>get\<close>.
\<close>

section \<open>Errors\<close>

datatype sentinel = ContextCanceled | ContextDeadlineExceeded | IoEOF | IoUnexpectedEOF

datatype errno =
    ECONNREFUSED | ECONNRESET | ECONNABORTED | ETIMEDOUT | EHOSTUNREACH | ENETUNREACH | EPIPE
  | OtherErrno

text \<open>
  \<open>link_Is\<close> are the sentinels the node is or says it is; an option is \<open>None\<close> when the node has no
  such method or type. \<open>link_DNS\<close> is whether a \<open>*net.DNSError\<close> is a timeout or temporary,
  \<open>link_NetTimeout\<close> what \<open>Timeout\<close> of a \<open>net.Error\<close> returns.
\<close>

record ErrorLink =
  link_Text :: string
  link_Auth :: "AuthError option"
  link_Status :: "int option"
  link_RequestScoped :: "bool option"
  link_Body :: "string option"
  link_RetryAfter :: "duration option option"
  link_CredentialScoped :: "bool option"
  link_RequestStop :: bool
  link_MaxBytes :: bool
  link_Is :: "sentinel list"
  link_CloseCode :: "int option"
  link_DNS :: "bool option"
  link_NetTimeout :: "bool option"
  link_Errno :: "errno option"
  link_OpError :: bool
  link_ConfiguredTimeout :: bool

datatype error_tree = ErrorNode ErrorLink "error_tree list"

fun error_link :: "error_tree \<Rightarrow> ErrorLink" where
  "error_link (ErrorNode l es) = l"

fun error_children :: "error_tree \<Rightarrow> error_tree list" where
  "error_children (ErrorNode l es) = es"

definition errorText :: "error_tree \<Rightarrow> string" where
  "errorText e = link_Text (error_link e)"

text \<open>The order in which \<open>errors.As\<close> and \<open>errors.Is\<close> visit the tree.\<close>

fun error_nodes :: "error_tree \<Rightarrow> error_tree list" where
  "error_nodes (ErrorNode l es) = ErrorNode l es # concat (map error_nodes es)"

fun first_some :: "('a \<Rightarrow> 'b option) \<Rightarrow> 'a list \<Rightarrow> 'b option" where
  "first_some f [] = None"
| "first_some f (x # xs) = (case f x of None \<Rightarrow> first_some f xs | Some y \<Rightarrow> Some y)"

definition errors_As :: "(ErrorLink \<Rightarrow> 'b option) \<Rightarrow> error_tree \<Rightarrow> 'b option" where
  "errors_As f e = first_some (\<lambda>n. f (error_link n)) (error_nodes e)"

definition errors_Is :: "error_tree \<Rightarrow> sentinel \<Rightarrow> bool" where
  "errors_Is e s \<longleftrightarrow> list_ex (\<lambda>n. s \<in> set (link_Is (error_link n))) (error_nodes e)"

definition bare_link :: "string \<Rightarrow> ErrorLink" where
  "bare_link s =
     \<lparr>link_Text = s, link_Auth = None, link_Status = None, link_RequestScoped = None, link_Body = None,
      link_RetryAfter = None, link_CredentialScoped = None, link_RequestStop = False,
      link_MaxBytes = False, link_Is = [], link_CloseCode = None, link_DNS = None,
      link_NetTimeout = None, link_Errno = None, link_OpError = False, link_ConfiguredTimeout = False\<rparr>"

text \<open>\<open>errors.New\<close>, and an \<open>*Error\<close> as an \<open>error\<close>.\<close>

definition text_error :: "string \<Rightarrow> error_tree" where
  "text_error s = ErrorNode (bare_link s) []"

definition Error_Error :: "AuthError \<Rightarrow> string" where
  "Error_Error e = (if err_Code e = '''' then err_Message e else err_Code e @ '': '' @ err_Message e)"

definition ErrorCodeRequestScoped :: string where "ErrorCodeRequestScoped = ''request_scoped''"
definition ErrorCodeConnectionLifecycle :: string where "ErrorCodeConnectionLifecycle = ''connection_lifecycle''"
definition ErrorCodeTransientTransport :: string where "ErrorCodeTransientTransport = ''transient_transport''"
definition ErrorCodeForceCooldown :: string where "ErrorCodeForceCooldown = ''force_cooldown''"

definition IsRequestScoped :: "AuthError \<Rightarrow> bool" where
  "IsRequestScoped e \<longleftrightarrow> err_Code e = ErrorCodeRequestScoped"

definition MarkRequestScoped :: "AuthError \<Rightarrow> AuthError" where
  "MarkRequestScoped e = e\<lparr>err_Code := ErrorCodeRequestScoped\<rparr>"

definition NewRequestScopedError :: "string \<Rightarrow> int \<Rightarrow> AuthError" where
  "NewRequestScopedError message httpStatus =
     \<lparr>err_Code = ErrorCodeRequestScoped, err_Message = message, err_Retryable = False,
      err_HTTPStatus = httpStatus\<rparr>"

definition auth_error :: "AuthError \<Rightarrow> error_tree" where
  "auth_error e =
     ErrorNode ((bare_link (Error_Error e))
       \<lparr>link_Auth := Some e, link_Status := Some (err_HTTPStatus e),
        link_RequestScoped := Some (IsRequestScoped e)\<rparr>) []"

lemmas error_tree_simps =
  errorText_def errors_As_def errors_Is_def bare_link_def text_error_def auth_error_def

definition statusCodeFromError :: "error_tree \<Rightarrow> int" where
  "statusCodeFromError err = (case errors_As link_Status err of Some s \<Rightarrow> s | None \<Rightarrow> 0)"

definition statusCodeFromResult :: "AuthError option \<Rightarrow> int" where
  "statusCodeFromResult err = (case err of None \<Rightarrow> 0 | Some e \<Rightarrow> err_HTTPStatus e)"

definition isRequestScopedError :: "error_tree \<Rightarrow> bool" where
  "isRequestScopedError err \<longleftrightarrow> errors_As link_RequestScoped err = Some True"

definition retryAfterFromError :: "error_tree \<Rightarrow> duration option" where
  "retryAfterFromError err = (case errors_As link_RetryAfter err of Some d \<Rightarrow> d | None \<Rightarrow> None)"

definition isCredentialScopedError :: "error_tree \<Rightarrow> bool" where
  "isCredentialScopedError err \<longleftrightarrow> errors_As link_CredentialScoped err = Some True"

lemma status_auth_error [simp]:
  "statusCodeFromError (auth_error e) = err_HTTPStatus e" "statusCodeFromError (text_error s) = 0"
  by (simp_all add: statusCodeFromError_def error_tree_simps)

lemma scoped_auth_error [simp]: "isRequestScopedError (auth_error e) = IsRequestScoped e"
  by (simp add: isRequestScopedError_def error_tree_simps)

section \<open>Faults of the request (clienterror)\<close>

definition HTTPStatusFromError :: "error_tree option \<Rightarrow> int" where
  "HTTPStatusFromError err =
     (case err of
        None \<Rightarrow> 0
      | Some e \<Rightarrow>
          (if (case errors_As link_Status e of Some code \<Rightarrow> 0 < code | None \<Rightarrow> False)
           then statusCodeFromError e
           else if list_ex (\<lambda>n. link_MaxBytes (error_link n)) (error_nodes e) then 413
           else if errors_Is e ContextCanceled then 499
           else if errors_Is e ContextDeadlineExceeded then 504
           else 0))"

definition HTTPStatusFromErrorOr :: "error_tree option \<Rightarrow> int \<Rightarrow> int" where
  "HTTPStatusFromErrorOr err fallback =
     (if 0 < HTTPStatusFromError err then HTTPStatusFromError err else fallback)"

definition requestFaultCodes :: "string list" where
  "requestFaultCodes =
     [''cyber_policy'', ''context_length_exceeded'', ''message_too_big'', ''string_above_max_length'',
      ''invalid_prompt'', ''invalid_value'', ''unsupported_value'', ''invalid_request_error'',
      ''previous_response_not_found'']"

definition requestFaultTypes :: "string list" where
  "requestFaultTypes = [''invalid_request'', ''invalid_request_error'', ''bad_request_error'', ''invalid_prompt'']"

definition code_paths :: "string list" where
  "code_paths = [''error.code'', ''code'', ''response.error.code'', ''body.error.code'']"

definition type_paths :: "string list" where
  "type_paths = [''error.type'', ''type'', ''response.error.type'', ''body.error.type'']"

definition body_field_in :: "(string \<Rightarrow> string \<Rightarrow> string) \<Rightarrow> string \<Rightarrow> string list \<Rightarrow> string list \<Rightarrow> bool" where
  "body_field_in get body paths vals =
     list_ex (\<lambda>path. to_lower (trim_space (get body path)) \<in> set vals) paths"

definition IsItemNotPersisted :: "string \<Rightarrow> bool" where
  "IsItemNotPersisted message \<longleftrightarrow>
     (let lower = to_lower message
      in contains lower ''item with id'' \<and> contains lower ''not found'' \<and>
         contains lower ''items are not persisted when `store` is set to false'')"

definition IsClaudeThreadNotFound ::
    "(string \<Rightarrow> string \<Rightarrow> string) \<Rightarrow> int \<Rightarrow> error_tree option \<Rightarrow> bool" where
  "IsClaudeThreadNotFound get status err =
     (case err of
        None \<Rightarrow> False
      | Some e \<Rightarrow>
          (if status \<noteq> 404 then False
           else let body = (case errors_As link_Body e of
                              Some b \<Rightarrow> if b \<noteq> '''' then trim_space b else trim_space (errorText e)
                            | None \<Rightarrow> trim_space (errorText e))
                in if body = '''' then False
                   else if json_valid body
                   then equal_fold (trim_space (get body ''error.type'')) ''not_found_error'' \<and>
                        contains (to_lower (get body ''error.message'')) ''thread state'' \<and>
                        contains (to_lower (get body ''error.message'')) ''previous_message_id''
                   else contains (to_lower body) ''thread state'' \<and>
                        contains (to_lower body) ''previous_message_id''))"

definition hasModelNotFoundErrorBody :: "(string \<Rightarrow> string \<Rightarrow> string) \<Rightarrow> error_tree option \<Rightarrow> bool" where
  "hasModelNotFoundErrorBody get err =
     (case err of
        None \<Rightarrow> False
      | Some e \<Rightarrow>
          (let body = trim_space (errorText e)
           in body \<noteq> '''' \<and> json_valid body \<and>
              body_field_in get body code_paths [''model_not_found'', ''model_not_found_error'']))"

definition hasAuthenticationErrorBody :: "(string \<Rightarrow> string \<Rightarrow> string) \<Rightarrow> error_tree option \<Rightarrow> bool" where
  "hasAuthenticationErrorBody get err =
     (case err of
        None \<Rightarrow> False
      | Some e \<Rightarrow>
          (let body = trim_space (errorText e)
           in body \<noteq> '''' \<and> json_valid body \<and>
              body_field_in get body type_paths [''authentication_error'']))"

definition hasRequestFaultBody :: "(string \<Rightarrow> string \<Rightarrow> string) \<Rightarrow> error_tree option \<Rightarrow> bool" where
  "hasRequestFaultBody get err =
     (case err of
        None \<Rightarrow> False
      | Some e \<Rightarrow>
          (let body = trim_space (errorText e)
           in body \<noteq> '''' \<and> json_valid body \<and>
              (body_field_in get body code_paths requestFaultCodes \<or>
               body_field_in get body type_paths requestFaultTypes)))"

definition IsRequestFault :: "(string \<Rightarrow> string \<Rightarrow> string) \<Rightarrow> int \<Rightarrow> error_tree option \<Rightarrow> bool" where
  "IsRequestFault get status0 err =
     (let status = (if status0 \<le> 0
                    then (case err of
                            None \<Rightarrow> status0
                          | Some e \<Rightarrow> (case errors_As link_Status e of Some s \<Rightarrow> s | None \<Rightarrow> status0))
                    else status0)
      in if status = 402 \<or> status = 429 then False
         else if status = 401 \<and> hasAuthenticationErrorBody get err then False
         else if IsClaudeThreadNotFound get status err then True
         else if hasModelNotFoundErrorBody get err then False
         else if hasRequestFaultBody get err then True
         else if (case err of None \<Rightarrow> False | Some e \<Rightarrow> IsItemNotPersisted (errorText e)) then True
         else status \<in> {400, 409, 413, 422})"

definition IsClientCancellation :: "int \<Rightarrow> error_tree option \<Rightarrow> bool" where
  "IsClientCancellation status err =
     (if status = 499 then True
      else case err of
             None \<Rightarrow> False
           | Some e \<Rightarrow>
               errors_Is e ContextCanceled \<or> errors_As link_Status e = Some 499 \<or>
               contains (to_lower (errorText e)) ''context canceled'' \<or>
               contains (to_lower (errorText e)) ''client closed request'')"

section \<open>The connection is to blame\<close>

text \<open>The two results are \<open>foundConfiguredDeadline\<close> and \<open>hasUnownedContextError\<close>.\<close>

definition hasOwnContextIdentity :: "ErrorLink \<Rightarrow> bool" where
  "hasOwnContextIdentity l \<longleftrightarrow>
     ContextCanceled \<in> set (link_Is l) \<or> ContextDeadlineExceeded \<in> set (link_Is l)"

fun inspectConfiguredTLSHandshakeTimeout :: "error_tree \<Rightarrow> bool \<times> bool" where
  "inspectConfiguredTLSHandshakeTimeout (ErrorNode l es) =
     (if link_ConfiguredTimeout l
      then (list_ex (\<lambda>c. errors_Is c ContextDeadlineExceeded) es, False)
      else let children = map inspectConfiguredTLSHandshakeTimeout es
           in (list_ex fst children, hasOwnContextIdentity l \<or> list_ex snd children))"

definition IsConfiguredTLSHandshakeTimeoutError :: "error_tree \<Rightarrow> bool" where
  "IsConfiguredTLSHandshakeTimeoutError err \<longleftrightarrow>
     (case inspectConfiguredTLSHandshakeTimeout err of (found, unowned) \<Rightarrow> found \<and> \<not> unowned)"

definition isConfiguredTLSHandshakeTimeoutError :: "error_tree \<Rightarrow> bool" where
  "isConfiguredTLSHandshakeTimeoutError err \<longleftrightarrow>
     statusCodeFromError err = 0 \<and> IsConfiguredTLSHandshakeTimeoutError err"

definition isHTTP2ClosedConnectionMessage :: "string \<Rightarrow> bool" where
  "isHTTP2ClosedConnectionMessage lower \<longleftrightarrow>
     contains lower ''http2: client connection force closed via clientconn.close'' \<or>
     contains lower ''http2: client conn is closed''"

definition isConnectionLifecycleMessage :: "string \<Rightarrow> bool" where
  "isConnectionLifecycleMessage message \<longleftrightarrow>
     (let lower = to_lower (trim_space message)
      in if lower = '''' then False
         else if lower \<in> {''context canceled'', ''context deadline exceeded'', ''eof'', ''unexpected eof''}
         then True
         else if contains lower ''websocket: close 1000'' \<or> contains lower ''websocket: close 1001'' \<or>
                 contains lower ''websocket: close 1006''
         then True
         else contains lower ''unexpected eof'' \<or> isHTTP2ClosedConnectionMessage lower)"

definition isConnectionLifecycleError :: "error_tree \<Rightarrow> bool" where
  "isConnectionLifecycleError err \<longleftrightarrow>
     (if (case errors_As link_CloseCode err of Some c \<Rightarrow> c \<in> {1000, 1001, 1006} | None \<Rightarrow> False) then True
      else if statusCodeFromError err \<noteq> 0 then False
      else if isConfiguredTLSHandshakeTimeoutError err then False
      else if errors_Is err ContextCanceled \<or> errors_Is err ContextDeadlineExceeded \<or>
              errors_Is err IoEOF \<or> errors_Is err IoUnexpectedEOF
      then True
      else isConnectionLifecycleMessage (errorText err))"

definition isConnectionLifecycleResultError :: "AuthError option \<Rightarrow> bool" where
  "isConnectionLifecycleResultError err =
     (case err of
        None \<Rightarrow> False
      | Some e \<Rightarrow>
          (if err_Code e = ErrorCodeConnectionLifecycle then True
           else if err_Code e = ErrorCodeTransientTransport then False
           else if statusCodeFromResult err \<noteq> 0 then False
           else isConnectionLifecycleMessage (err_Message e)))"

definition isTransientSyscallError :: "error_tree \<Rightarrow> bool" where
  "isTransientSyscallError err \<longleftrightarrow>
     (case errors_As link_Errno err of None \<Rightarrow> False | Some n \<Rightarrow> n \<noteq> OtherErrno)"

definition isTransientTransportMessage :: "string \<Rightarrow> bool" where
  "isTransientTransportMessage message \<longleftrightarrow>
     (let lower = to_lower (trim_space message)
      in if lower = '''' then False
         else contains_any_of lower
                [''tls: tls handshake'', ''tls handshake timeout'', ''wsarecv'', ''wsasend'',
                 ''a connection attempt failed'', ''connection refused'', ''connection reset'',
                 ''i/o timeout'', ''no such host'', ''server misbehaving'', ''network is unreachable'',
                 ''no route to host'', ''broken pipe'', ''connection aborted'',
                 ''use of closed network connection'', ''unexpected eof''] \<or>
              isHTTP2ClosedConnectionMessage lower)"

definition isTransientTransportError :: "error_tree \<Rightarrow> bool" where
  "isTransientTransportError err \<longleftrightarrow>
     (if statusCodeFromError err \<noteq> 0 then False
      else if isConfiguredTLSHandshakeTimeoutError err then True
      else if errors_Is err ContextCanceled \<or> errors_Is err ContextDeadlineExceeded then False
      else if errors_Is err IoEOF \<or> errors_Is err IoUnexpectedEOF then True
      else if errors_As link_DNS err = Some True then True
      else if errors_As link_NetTimeout err = Some True then True
      else if isTransientSyscallError err then True
      else if list_ex (\<lambda>n. link_OpError (error_link n)) (error_nodes err) then True
      else isTransientTransportMessage (errorText err))"

definition isTransientTransportResultError :: "AuthError option \<Rightarrow> bool" where
  "isTransientTransportResultError err =
     (case err of
        None \<Rightarrow> False
      | Some e \<Rightarrow>
          (if err_Code e = ErrorCodeTransientTransport then True
           else if statusCodeFromResult err \<noteq> 0 then False
           else if contains (to_lower (err_Message e)) ''tls handshake timeout'' then False
           else isTransientTransportMessage (err_Message e)))"

section \<open>The model is to blame\<close>

definition trim_cutset :: string where
  "trim_cutset = '' .!;'' @ [CHR 0x09, CHR 0x0D, CHR 0x0A]"

definition dash_to_underscore :: "string \<Rightarrow> string" where
  "dash_to_underscore s = replace_char [(CHR ''-'', CHR ''_'')] s"

definition identifier_form :: "string \<Rightarrow> string" where
  "identifier_form s = replace_char [(CHR ''-'', CHR ''_''), (CHR '' '', CHR ''_'')] s"

definition isModelNotFoundIdentifier :: "string \<Rightarrow> bool" where
  "isModelNotFoundIdentifier value \<longleftrightarrow>
     (let candidate = to_lower (trim_space value);
          normalized =
            (case after_last_of candidate ''#'' of
               Some (f # fragment) \<Rightarrow> f # fragment
             | _ \<Rightarrow>
                 (let path = trim_right (takeWhile (\<lambda>c. c \<noteq> CHR ''?'') candidate) ''/''
                  in case after_last_of path ''/:'' of Some last_part \<Rightarrow> last_part | None \<Rightarrow> path))
      in identifier_form normalized \<in>
           {''model_not_found'', ''model_not_found_error'', ''unknown_model'', ''model_does_not_exist'',
            ''model_not_exist''})"

definition isNotFoundErrorIdentifier :: "string \<Rightarrow> bool" where
  "isNotFoundErrorIdentifier value \<longleftrightarrow>
     identifier_form (to_lower (trim_space value)) \<in> {''not_found'', ''not_found_error''}"

definition isMissingModelPhrase :: "string \<Rightarrow> bool" where
  "isMissingModelPhrase value \<longleftrightarrow>
     trim_set value trim_cutset \<in>
       {''not found'', ''was not found'', ''could not be found'', ''does not exist'',
        ''doesn'' @ [CHR 0x27] @ ''t exist'', ''not exist'', ''is unknown'',
        ''does not exist or you do not have access to it''}"

text \<open>The result is \<open>None\<close> when the reference does not match, else what follows it.\<close>

fun trimReference :: "string list \<Rightarrow> string \<Rightarrow> string option" where
  "trimReference [] value = None"
| "trimReference (candidate # cs) value =
     (if value = candidate then Some ''''
      else if \<not> is_prefix_of candidate value then trimReference cs value
      else let remainder = drop (length candidate) value
           in if remainder = '''' \<or> hd remainder \<in> set '' :,'' then Some (trim_left remainder '' :,'')
              else trimReference cs value)"

definition trimRequestedModelReference :: "string \<Rightarrow> string \<Rightarrow> string option" where
  "trimRequestedModelReference value requestedModel =
     (let model = to_lower (trim_space requestedModel)
      in if model = '''' then None
         else trimReference
                [model, CHR 0x27 # model @ [CHR 0x27], CHR 0x22 # model @ [CHR 0x22],
                 CHR 0x60 # model @ [CHR 0x60]] value)"

text \<open>The text after the first of the phrases that the message starts with.\<close>

fun afterPhrase :: "string list \<Rightarrow> string \<Rightarrow> string option" where
  "afterPhrase [] lower = None"
| "afterPhrase (prefix # ps) lower =
     (if lower \<noteq> prefix \<and> \<not> is_prefix_of (prefix @ '' '') lower \<and> \<not> is_prefix_of (prefix @ '':'') lower
      then afterPhrase ps lower
      else Some (trim_space (trim_prefix (trim_space (trim_prefix lower prefix)) '':'')))"

definition model_phrases :: "string list" where
  "model_phrases = [''the requested model'', ''requested model'', ''the model'', ''model'']"

definition isExplicitModelNotFoundMessage :: "string \<Rightarrow> string \<Rightarrow> bool" where
  "isExplicitModelNotFoundMessage message requestedModel \<longleftrightarrow>
     (let lower = trim_set (to_lower (trim_space message)) trim_cutset;
          normalized = dash_to_underscore lower
      in if lower = '''' then False
         else if contains lower ''in request'' \<or> contains lower ''in body'' \<or> contains lower ''request body''
         then False
         else if contains normalized ''model_not_found'' \<or> contains normalized ''unknown_model'' then True
         else case afterPhrase [''no such model'', ''unknown model''] lower of
                Some remainder \<Rightarrow>
                  remainder = '''' \<or> trimRequestedModelReference remainder requestedModel = Some ''''
              | None \<Rightarrow>
                  (case afterPhrase model_phrases lower of
                     Some remainder \<Rightarrow>
                       isMissingModelPhrase remainder \<or>
                       (case trimRequestedModelReference remainder requestedModel of
                          Some suffix \<Rightarrow> isMissingModelPhrase suffix
                        | None \<Rightarrow> False)
                   | None \<Rightarrow> False))"

definition isExactRequestedModelReference :: "string \<Rightarrow> string \<Rightarrow> bool" where
  "isExactRequestedModelReference message requestedModel \<longleftrightarrow>
     (let lower = trim_set (to_lower (trim_space message)) trim_cutset
      in case afterPhrase model_phrases lower of
           Some remainder \<Rightarrow> trimRequestedModelReference remainder requestedModel = Some ''''
         | None \<Rightarrow> False)"

text \<open>
  The walk over a decoded body. In an object the visits may come in any order: each early return
  is \<open>True\<close>, so the answer is whether some member gives it or the two flags were both set.
\<close>

definition member_names_missing_model :: "string \<Rightarrow> string \<times> json \<Rightarrow> bool" where
  "member_names_missing_model requestedModel m \<longleftrightarrow>
     (case m of
        (key, JString text) \<Rightarrow>
          (let k = to_lower (trim_space key)
           in if k = ''code'' \<or> k = ''type'' then isModelNotFoundIdentifier text
              else if k \<in> {''error'', ''message'', ''detail'', ''error_description'', ''title''}
              then isExplicitModelNotFoundMessage text requestedModel
              else False)
      | _ \<Rightarrow> False)"

definition member_is_not_found_type :: "string \<times> json \<Rightarrow> bool" where
  "member_is_not_found_type m \<longleftrightarrow>
     (case m of
        (key, JString text) \<Rightarrow> to_lower (trim_space key) = ''type'' \<and> isNotFoundErrorIdentifier text
      | _ \<Rightarrow> False)"

definition member_is_model_reference :: "string \<Rightarrow> string \<times> json \<Rightarrow> bool" where
  "member_is_model_reference requestedModel m \<longleftrightarrow>
     (case m of
        (key, JString text) \<Rightarrow>
          to_lower (trim_space key) \<in> {''error'', ''message'', ''detail'', ''error_description'', ''title''} \<and>
          isExactRequestedModelReference text requestedModel
      | _ \<Rightarrow> False)"

definition item_names_missing_model :: "string \<Rightarrow> json \<Rightarrow> bool" where
  "item_names_missing_model requestedModel v \<longleftrightarrow>
     (case v of JString text \<Rightarrow> isExplicitModelNotFoundMessage text requestedModel | _ \<Rightarrow> False)"

fun containsStructuredModelNotFound :: "json \<Rightarrow> string \<Rightarrow> bool" where
  "containsStructuredModelNotFound (JObject ms) requestedModel \<longleftrightarrow>
     list_ex (member_names_missing_model requestedModel) ms \<or>
     list_ex (\<lambda>(key, item). containsStructuredModelNotFound item requestedModel) ms \<or>
     (list_ex member_is_not_found_type ms \<and> list_ex (member_is_model_reference requestedModel) ms)"
| "containsStructuredModelNotFound (JArray vs) requestedModel \<longleftrightarrow>
     list_ex (item_names_missing_model requestedModel) vs \<or>
     list_ex (\<lambda>item. containsStructuredModelNotFound item requestedModel) vs"
| "containsStructuredModelNotFound _ requestedModel = False"

definition isStructuredModelNotFoundError :: "string \<Rightarrow> string \<Rightarrow> bool" where
  "isStructuredModelNotFoundError message requestedModel \<longleftrightarrow>
     (case json_unmarshal (trim_space message) of
        None \<Rightarrow> False
      | Some payload \<Rightarrow> containsStructuredModelNotFound payload requestedModel)"

fun isExplicitModelNotFoundError :: "error_tree \<Rightarrow> string \<Rightarrow> bool" where
  "isExplicitModelNotFoundError (ErrorNode l es) requestedModel \<longleftrightarrow>
     (case errors_As link_Auth (ErrorNode l es) of
        Some authErr \<Rightarrow>
          isModelNotFoundIdentifier (err_Code authErr) \<or>
          isStructuredModelNotFoundError (err_Message authErr) requestedModel \<or>
          isStructuredModelNotFoundError (Error_Error authErr) requestedModel
      | None \<Rightarrow> isStructuredModelNotFoundError (link_Text l) requestedModel) \<or>
     list_ex (\<lambda>nested. isExplicitModelNotFoundError nested requestedModel) es"

definition isModelSupportErrorMessage :: "string \<Rightarrow> bool" where
  "isModelSupportErrorMessage message \<longleftrightarrow>
     (let lower = to_lower (trim_space message)
      in lower \<noteq> '''' \<and>
         contains_any_of lower
           [''model_not_supported'', ''requested model is not supported'', ''requested model is unsupported'',
            ''requested model is unavailable'', ''model is not supported'', ''model not supported'',
            ''unsupported model'', ''model unavailable'', ''not available for your plan'',
            ''not available for your account''])"

definition isModelSupportError :: "error_tree \<Rightarrow> bool" where
  "isModelSupportError err \<longleftrightarrow>
     (if isExplicitModelNotFoundError err '''' then True
      else if statusCodeFromError err \<notin> {400, 422, 404} then False
      else isModelSupportErrorMessage (errorText err))"

definition isModelSupportResultError :: "AuthError option \<Rightarrow> bool" where
  "isModelSupportResultError err =
     (case err of
        None \<Rightarrow> False
      | Some e \<Rightarrow>
          (if isExplicitModelNotFoundError (auth_error e) '''' then True
           else if statusCodeFromResult err \<notin> {400, 422, 404} then False
           else isModelSupportErrorMessage (err_Message e)))"

definition isCountTokensEndpointNotFoundError :: "error_tree \<Rightarrow> string \<Rightarrow> bool" where
  "isCountTokensEndpointNotFoundError err requestedModel \<longleftrightarrow>
     statusCodeFromError err = 404 \<and>
     \<not> isExplicitModelNotFoundError err (ModelName (ParseSuffix requestedModel))"

section \<open>The credential is to blame\<close>

definition isUnauthorizedError :: "error_tree \<Rightarrow> bool" where
  "isUnauthorizedError err \<longleftrightarrow>
     statusCodeFromError err = 401 \<or>
     contains (to_lower (errorText err)) ''status 401'' \<or> contains (to_lower (errorText err)) ''401 unauthorized''"

definition isInvalidGrantErrorMessage :: "string \<Rightarrow> bool" where
  "isInvalidGrantErrorMessage message \<longleftrightarrow> contains (to_lower message) ''invalid_grant''"

definition isInvalidGrantError :: "error_tree \<Rightarrow> bool" where
  "isInvalidGrantError err \<longleftrightarrow>
     isInvalidGrantErrorMessage (errorText err) \<and> statusCodeFromError err \<in> {400, 401, 0}"

definition isInvalidGrantResultError :: "AuthError option \<Rightarrow> bool" where
  "isInvalidGrantResultError err =
     (case err of
        None \<Rightarrow> False
      | Some e \<Rightarrow>
          (isInvalidGrantErrorMessage (err_Code e) \<or> isInvalidGrantErrorMessage (err_Message e)) \<and>
          statusCodeFromResult err \<in> {400, 401, 0})"

definition isCloudflareChallengeErrorMessage :: "string \<Rightarrow> bool" where
  "isCloudflareChallengeErrorMessage message \<longleftrightarrow>
     (let lower = to_lower (trim_space message)
      in contains lower ''challenge-platform'' \<or> contains lower ''cf-mitigated'' \<or>
         contains lower ''cloudflare challenge'' \<or>
         (contains lower ''just a moment'' \<and> contains lower ''cloudflare''))"

definition isCloudflareChallengeError :: "error_tree \<Rightarrow> bool" where
  "isCloudflareChallengeError err \<longleftrightarrow>
     (if 500 \<le> statusCodeFromError err then False else isCloudflareChallengeErrorMessage (errorText err))"

definition isCloudflareChallengeResultError :: "AuthError option \<Rightarrow> bool" where
  "isCloudflareChallengeResultError err =
     (case err of
        None \<Rightarrow> False
      | Some e \<Rightarrow>
          (if 500 \<le> statusCodeFromResult err then False else isCloudflareChallengeErrorMessage (err_Message e)))"

definition hasDisabledInvalidGrantFailure :: "Auth \<Rightarrow> bool" where
  "hasDisabledInvalidGrantFailure a \<longleftrightarrow>
     (if \<not> (auth_Disabled a \<or> auth_Status a = StatusDisabled) then False
      else case auth_LastError a of
             None \<Rightarrow> False
           | Some e \<Rightarrow>
               isInvalidGrantResultError (Some e) \<or> isInvalidGrantErrorMessage (err_Message e) \<or>
               isInvalidGrantErrorMessage (err_Code e))"

definition refreshErrorFromError :: "error_tree \<Rightarrow> AuthError" where
  "refreshErrorFromError err =
     (let statusCode = (if statusCodeFromError err = 0 \<and> isUnauthorizedError err then 401
                        else statusCodeFromError err)
      in \<lparr>err_Code = (if statusCode = 401 then ''unauthorized'' else ''''), err_Message = errorText err,
          err_Retryable = False, err_HTTPStatus = statusCode\<rparr>)"

section \<open>What is recorded and what it skips\<close>

definition isRequestInvalidError :: "(string \<Rightarrow> string \<Rightarrow> string) \<Rightarrow> error_tree \<Rightarrow> bool" where
  "isRequestInvalidError get err \<longleftrightarrow>
     (if isRequestScopedError err then True
      else if isCloudflareChallengeError err then False
      else if isInvalidGrantError err then False
      else if isModelSupportError err then False
      else let status = statusCodeFromError err
           in if IsRequestFault get status (Some err) then True
              else case errors_As link_Auth err of
                     Some authErr \<Rightarrow>
                       err_Message authErr \<noteq> '''' \<and>
                       IsRequestFault get status (Some (text_error (err_Message authErr)))
                   | None \<Rightarrow> False)"

definition isRequestScopedNotFoundResultError :: "AuthError option \<Rightarrow> bool" where
  "isRequestScopedNotFoundResultError err =
     (case err of
        None \<Rightarrow> False
      | Some e \<Rightarrow> statusCodeFromResult err = 404 \<and> IsItemNotPersisted (err_Message e))"

definition isRequestScopedResultError :: "(string \<Rightarrow> string \<Rightarrow> string) \<Rightarrow> AuthError option \<Rightarrow> bool" where
  "isRequestScopedResultError get err =
     (case err of
        None \<Rightarrow> False
      | Some e \<Rightarrow>
          (if IsRequestScoped e \<or> isRequestScopedNotFoundResultError err then True
           else isRequestInvalidError get (auth_error e)))"

definition shouldSkipCredentialCooldown :: "(string \<Rightarrow> string \<Rightarrow> string) \<Rightarrow> AuthError option \<Rightarrow> bool" where
  "shouldSkipCredentialCooldown get err \<longleftrightarrow>
     (if (case err of Some e \<Rightarrow> err_Code e = ErrorCodeForceCooldown | None \<Rightarrow> False) then False
      else isRequestScopedResultError get err \<or> isConnectionLifecycleResultError err \<or>
           isTransientTransportResultError err)"

text \<open>The code a recorded error gets from what the error is about.\<close>

definition classifiedCode :: "(string \<Rightarrow> string \<Rightarrow> string) \<Rightarrow> error_tree \<Rightarrow> string \<Rightarrow> string" where
  "classifiedCode get err code =
     (if isExplicitModelNotFoundError err ''''
      then (if code = '''' \<or> code = ErrorCodeRequestScoped then ''model_not_found'' else code)
      else if isRequestScopedError err \<or> isRequestInvalidError get err then ErrorCodeRequestScoped
      else if isConfiguredTLSHandshakeTimeoutError err
      then (if code = '''' \<or> code = ErrorCodeTransientTransport then ErrorCodeTransientTransport else code)
      else if isConnectionLifecycleError err
      then (if code = '''' \<or> code = ErrorCodeConnectionLifecycle then ErrorCodeConnectionLifecycle else code)
      else if isTransientTransportError err
      then (if code = '''' \<or> code = ErrorCodeTransientTransport then ErrorCodeTransientTransport else code)
      else code)"

definition resultErrorFromError :: "(string \<Rightarrow> string \<Rightarrow> string) \<Rightarrow> error_tree \<Rightarrow> AuthError" where
  "resultErrorFromError get err =
     (let resultErr = (case errors_As link_Auth err of
                         Some sourceErr \<Rightarrow> sourceErr
                       | None \<Rightarrow> \<lparr>err_Code = '''', err_Message = errorText err, err_Retryable = False,
                                   err_HTTPStatus = 0\<rparr>);
          resultErr = (if err_HTTPStatus resultErr = 0
                       then resultErr\<lparr>err_HTTPStatus := statusCodeFromError err\<rparr> else resultErr)
      in resultErr\<lparr>err_Code := classifiedCode get err (err_Code resultErr)\<rparr>)"

section \<open>Compact requests\<close>

definition isResponsesCompactRequest :: "string \<Rightarrow> bool" where
  "isResponsesCompactRequest alt \<longleftrightarrow> alt = ''responses/compact''"

definition isResponsesCompactRequestFaultError ::
    "(string \<Rightarrow> string \<Rightarrow> string) \<Rightarrow> string \<Rightarrow> error_tree option \<Rightarrow> bool" where
  "isResponsesCompactRequestFaultError get alt err =
     (case err of
        None \<Rightarrow> False
      | Some e \<Rightarrow>
          (if \<not> isResponsesCompactRequest alt then False
           else if isCredentialScopedError e \<or> isCloudflareChallengeError e \<or> isInvalidGrantError e then False
           else let status = statusCodeFromError e
                in IsRequestFault get status err \<or> status \<in> {400, 404, 405, 409, 413, 422, 501}))"

definition isResponsesCompactAvailabilityNeutralError ::
    "string \<Rightarrow> error_tree option \<Rightarrow> AuthError option \<Rightarrow> bool" where
  "isResponsesCompactAvailabilityNeutralError alt err resultErr =
     (if \<not> isResponsesCompactRequest alt then False
      else if (case resultErr of Some r \<Rightarrow> err_Code r = ErrorCodeForceCooldown | None \<Rightarrow> False) then False
      else if (case err of
                 Some e \<Rightarrow> isCredentialScopedError e \<or> isCloudflareChallengeError e \<or> isInvalidGrantError e
               | None \<Rightarrow> False)
      then False
      else if isCloudflareChallengeResultError resultErr \<or> isInvalidGrantResultError resultErr then False
      else let status = (case err of Some e \<Rightarrow> statusCodeFromError e | None \<Rightarrow> 0);
               status = (if status = 0 then statusCodeFromResult resultErr else status)
           in status \<notin> {401, 402, 403, 429})"

section \<open>Configured actions on request errors\<close>

text \<open>\<open>requestStopError\<close> is the only type with \<open>IsRequestStop\<close>; its child is the error it wraps.\<close>

definition isRequestStopError :: "error_tree \<Rightarrow> bool" where
  "isRequestStopError err \<longleftrightarrow> list_ex (\<lambda>n. link_RequestStop (error_link n)) (error_nodes err)"

definition unwrapRequestStopError :: "error_tree \<Rightarrow> error_tree" where
  "unwrapRequestStopError err =
     (case first_some (\<lambda>n. if link_RequestStop (error_link n) then Some n else None) (error_nodes err) of
        Some (ErrorNode l (e # es)) \<Rightarrow> e
      | _ \<Rightarrow> err)"

definition wrapRequestStopError :: "error_tree \<Rightarrow> error_tree" where
  "wrapRequestStopError err =
     (let e = unwrapRequestStopError err
      in ErrorNode ((bare_link (errorText e))\<lparr>link_RequestStop := True\<rparr>) [e])"

definition extractErrorBody :: "error_tree \<Rightarrow> string" where
  "extractErrorBody err =
     (case errors_As link_Body err of
        Some b \<Rightarrow> if b \<noteq> '''' then b
                  else (case errors_As link_Auth err of
                          Some a \<Rightarrow> if err_Message a \<noteq> '''' then err_Message a else errorText err
                        | None \<Rightarrow> errorText err)
      | None \<Rightarrow> (case errors_As link_Auth err of
                   Some a \<Rightarrow> if err_Message a \<noteq> '''' then err_Message a else errorText err
                 | None \<Rightarrow> errorText err))"

definition RequestScopedActionStop :: string where "RequestScopedActionStop = ''stop''"
definition RequestScopedActionStopAndCooldown :: string where "RequestScopedActionStopAndCooldown = ''stop-and-cooldown''"
definition RequestScopedActionContinue :: string where "RequestScopedActionContinue = ''continue''"
definition RequestScopedActionContinueAndCooldown :: string where
  "RequestScopedActionContinueAndCooldown = ''continue-and-cooldown''"

definition applyRequestScopedActionToResult :: "string option \<Rightarrow> AuthError option \<Rightarrow> AuthError option" where
  "applyRequestScopedActionToResult action err =
     (case (action, err) of
        (Some act, Some e) \<Rightarrow>
          (if act = RequestScopedActionStop \<or> act = RequestScopedActionContinue
           then Some (e\<lparr>err_Code := ErrorCodeRequestScoped\<rparr>)
           else if act = RequestScopedActionStopAndCooldown \<or> act = RequestScopedActionContinueAndCooldown
           then Some (e\<lparr>err_Code := ErrorCodeForceCooldown\<rparr>)
           else err)
      | _ \<Rightarrow> err)"

definition isRequestScopedStop :: "string option \<Rightarrow> bool" where
  "isRequestScopedStop action \<longleftrightarrow>
     action = Some RequestScopedActionStop \<or> action = Some RequestScopedActionStopAndCooldown"

section \<open>Rate limits are never explained away\<close>

text \<open>
  The statuses that stand for payment and rate limits are authoritative: no text makes them a fault of
  the request.
\<close>

lemma authoritative_status: "s \<in> {402, 429} \<Longrightarrow> \<not> IsRequestFault get s err"
  by (auto simp: IsRequestFault_def)

lemma authoritative_not_invalid:
  assumes "statusCodeFromError err \<in> {402, 429}" "\<not> isRequestScopedError err"
  shows "\<not> isRequestInvalidError get err"
  using assms by (auto simp: isRequestInvalidError_def authoritative_status Let_def split: option.splits)

lemma reserved_codes [simp]:
  "ErrorCodeRequestScoped \<noteq> ErrorCodeConnectionLifecycle" "ErrorCodeRequestScoped \<noteq> ErrorCodeTransientTransport"
  "ErrorCodeConnectionLifecycle \<noteq> ErrorCodeTransientTransport" "ErrorCodeConnectionLifecycle \<noteq> ErrorCodeRequestScoped"
  "ErrorCodeTransientTransport \<noteq> ErrorCodeRequestScoped" "ErrorCodeTransientTransport \<noteq> ErrorCodeConnectionLifecycle"
  by (simp_all add: ErrorCodeRequestScoped_def ErrorCodeConnectionLifecycle_def ErrorCodeTransientTransport_def)

definition reserved_code :: "string \<Rightarrow> bool" where
  "reserved_code c \<longleftrightarrow>
     c \<in> {ErrorCodeRequestScoped, ErrorCodeConnectionLifecycle, ErrorCodeTransientTransport}"

lemma rate_limited_counts:
  assumes "err_HTTPStatus e \<in> {402, 429}" "\<not> reserved_code (err_Code e)"
  shows "\<not> shouldSkipCredentialCooldown get (Some e)"
proof -
  have "\<not> isRequestInvalidError get (auth_error e)"
    using assms by (intro authoritative_not_invalid) (auto simp: IsRequestScoped_def reserved_code_def)
  then show ?thesis
    using assms
    by (auto simp: shouldSkipCredentialCooldown_def isRequestScopedResultError_def IsRequestScoped_def
        isRequestScopedNotFoundResultError_def isConnectionLifecycleResultError_def
        isTransientTransportResultError_def statusCodeFromResult_def reserved_code_def)
qed

text \<open>
  A recorded error with status 402 or 429 counts against its credential whatever its
  message says: unless its code itself is one of the three reserved ones, no text of the body
  (a JSON fault of the request, a transport phrase, an end of file) makes it skip the cooldown.
\<close>

theorem rate_limit_counts:
  assumes "err_HTTPStatus e \<in> {402, 429}" "\<not> reserved_code (err_Code e)"
  shows "\<not> shouldSkipCredentialCooldown get (Some e)"
  using assms by (rule rate_limited_counts)

theorem rate_limit_counts_witness:
  "\<not> shouldSkipCredentialCooldown (\<lambda>body path. ''invalid_request_error'')
     (Some \<lparr>err_Code = '''', err_Message = ''unexpected eof'', err_Retryable = False, err_HTTPStatus = 429\<rparr>)"
  by (rule rate_limit_counts)
    (simp_all add: reserved_code_def ErrorCodeRequestScoped_def ErrorCodeConnectionLifecycle_def
      ErrorCodeTransientTransport_def)

lemma classifiedCode_authoritative:
  assumes "statusCodeFromError err \<in> {402, 429}" "\<not> isRequestScopedError err"
    "errors_As link_CloseCode err = None" "\<not> reserved_code code"
  shows "\<not> reserved_code (classifiedCode get err code)"
proof -
  have "\<not> isRequestInvalidError get err" "\<not> isConfiguredTLSHandshakeTimeoutError err"
      "\<not> isConnectionLifecycleError err" "\<not> isTransientTransportError err"
    using assms authoritative_not_invalid
    by (auto simp: isConfiguredTLSHandshakeTimeoutError_def isConnectionLifecycleError_def
        isTransientTransportError_def)
  with assms show ?thesis
    by (auto simp: classifiedCode_def reserved_code_def ErrorCodeRequestScoped_def
        ErrorCodeConnectionLifecycle_def ErrorCodeTransientTransport_def)
qed



section \<open>The stop marker changes no classification\<close>

lemma errors_As_marker:
  "f ((bare_link s)\<lparr>link_RequestStop := b\<rparr>) = None \<Longrightarrow>
     errors_As f (ErrorNode ((bare_link s)\<lparr>link_RequestStop := b\<rparr>) [e]) = errors_As f e"
  by (simp add: errors_As_def)

lemma marker_classification:
  fixes e :: error_tree
  defines "w \<equiv> ErrorNode ((bare_link (errorText e))\<lparr>link_RequestStop := True\<rparr>) [e]"
  shows "errorText w = errorText e" "errors_As link_Auth w = errors_As link_Auth e"
    "errors_As link_Status w = errors_As link_Status e" "errors_Is w s = errors_Is e s"
    "errors_As link_RequestScoped w = errors_As link_RequestScoped e"
    "errors_As link_Body w = errors_As link_Body e" "errors_As link_CloseCode w = errors_As link_CloseCode e"
    "errors_As link_DNS w = errors_As link_DNS e" "errors_As link_NetTimeout w = errors_As link_NetTimeout e"
    "errors_As link_Errno w = errors_As link_Errno e"
    "list_ex (\<lambda>n. link_OpError (error_link n)) (error_nodes w) =
     list_ex (\<lambda>n. link_OpError (error_link n)) (error_nodes e)"
    "inspectConfiguredTLSHandshakeTimeout w = inspectConfiguredTLSHandshakeTimeout e"
  unfolding w_def
  by (simp_all add: errors_As_marker errors_Is_def hasOwnContextIdentity_def)
    (simp_all add: bare_link_def errorText_def errors_As_def)

lemma marker_model_not_found:
  "isExplicitModelNotFoundError (ErrorNode ((bare_link (errorText e))\<lparr>link_RequestStop := True\<rparr>) [e]) m =
   isExplicitModelNotFoundError e m"
proof (cases e)
  case (ErrorNode l es)
  have "errors_As link_Auth (ErrorNode ((bare_link (errorText e))\<lparr>link_RequestStop := True\<rparr>) [e]) =
        errors_As link_Auth e"
    by (rule marker_classification)
  then show ?thesis
    by (auto simp: ErrorNode errorText_def bare_link_def split: option.splits)
qed

lemma marker_request_fault:
  "IsRequestFault get s (Some (ErrorNode ((bare_link (errorText e))\<lparr>link_RequestStop := True\<rparr>) [e])) =
   IsRequestFault get s (Some e)"
  unfolding IsRequestFault_def IsClaudeThreadNotFound_def hasAuthenticationErrorBody_def
    hasModelNotFoundErrorBody_def hasRequestFaultBody_def option.case marker_classification ..

text \<open>
  Marking an error so that the request stops changes nothing about what is recorded for the
  credential: the recorded error, its status, its code and whether it skips the cooldown are
  those of the error without the marker.
\<close>

theorem stop_marker_transparent:
  "resultErrorFromError get (wrapRequestStopError err) = resultErrorFromError get (unwrapRequestStopError err)"
proof -
  define e where "e = unwrapRequestStopError err"
  note m = marker_classification [of e] marker_model_not_found [of e] marker_request_fault [of _ _ e]
  have "resultErrorFromError get (ErrorNode ((bare_link (errorText e))\<lparr>link_RequestStop := True\<rparr>) [e]) =
        resultErrorFromError get e"
    unfolding resultErrorFromError_def statusCodeFromError_def classifiedCode_def isRequestScopedError_def
        isRequestInvalidError_def isCloudflareChallengeError_def isInvalidGrantError_def
        isModelSupportError_def isConfiguredTLSHandshakeTimeoutError_def
        IsConfiguredTLSHandshakeTimeoutError_def isConnectionLifecycleError_def isTransientTransportError_def
        isTransientSyscallError_def m ..
  then show ?thesis unfolding wrapRequestStopError_def Let_def e_def .
qed

end
