(* ===== verification/Cooldown.thy ===== *)
theory Cooldown
  imports Failure
begin

text \<open>
  The cooldowns of a credential and of its models (\<open>sdk/cliproxy/auth/conductor_cooldown.go\<close>,
  \<open>conductor_refresh.go\<close>, \<open>quota_signals.go\<close>): how long a failure blocks, the layers a model state
  keeps while a credential quota covers it, and the fields of the credential that summarise its
  models.

  A pointer to a model state is its key in the map; writing through it is writing the entry.
  \<open>time.Now()\<close> is the argument \<open>now\<close>, \<open>Round(0)\<close> only strips the monotonic reading, and generations
  and sequence numbers are natural numbers, which do not wrap in the life of a process.
\<close>

section \<open>Configuration\<close>

record CompatEntry =
  compat_Name :: string
  compat_Disabled :: bool
  compat_DisableCooling :: "bool option"

record CooldownConfig =
  cfg_HomeEnabled :: bool
  cfg_DisableCooling :: bool
  cfg_OpenAICompatibility :: "CompatEntry list"

text \<open>
  What the operations read besides the credential: the two global settings, the runtime
  configuration, the field access of \<open>gjson\<close>, the model a route resolves to for a credential
  (\<open>selectionModelForAuth\<close>, which follows the alias tables), and the installed result policy.
\<close>

record ExecResult =
  res_AuthID :: string
  res_Provider :: string
  res_Model :: string
  res_RouteModel :: string
  res_Success :: bool
  res_CountTokens :: bool
  res_RetryAfter :: "duration option"
  res_CredentialScope :: bool
  res_Error :: "AuthError option"
  res_SkipQuotaObservation :: bool
  res_AccessToken :: string
  res_CredentialVersion :: nat
  res_RegistrationEpoch :: nat
  res_ExecutionSeq :: nat

record CooldownEnv =
  quotaCooldownDisabled :: bool
  transientErrorCooldownSeconds :: int
  runtimeConfig :: "CooldownConfig option"
  env_get :: "string \<Rightarrow> string \<Rightarrow> string"
  selectionModelForAuth :: "Auth \<Rightarrow> string \<Rightarrow> string"
  resultPolicy :: "(ExecResult \<Rightarrow> ExecResult) option"
  responseHeaders :: "(string \<times> string list) list"

definition parseBoolAny :: "GoValue option \<Rightarrow> bool option" where
  "parseBoolAny val =
     (case val of
        Some (VBool b) \<Rightarrow> Some b
      | Some (VString s) \<Rightarrow> (if trim_space s = '''' then None else parse_bool (trim_space s))
      | Some (VFloat f) \<Rightarrow> Some (f \<noteq> F64 0)
      | Some (VNumber s) \<Rightarrow> map_option (\<lambda>i. i \<noteq> 0) (parse_int s)
      | _ \<Rightarrow> None)"

definition DisableCoolingOverride :: "Auth \<Rightarrow> bool option" where
  "DisableCoolingOverride a =
     (case parseBoolAny (map_of (auth_Metadata a) ''disable_cooling'') of
        Some b \<Rightarrow> Some b
      | None \<Rightarrow> parseBoolAny (map_of (auth_Metadata a) ''disable-cooling''))"

definition resolveOpenAICompatConfig ::
    "CooldownConfig option \<Rightarrow> string \<Rightarrow> string \<Rightarrow> string \<Rightarrow> CompatEntry option" where
  "resolveOpenAICompatConfig cfg providerKey compatName authProvider =
     (case cfg of
        None \<Rightarrow> None
      | Some c \<Rightarrow>
          (let candidates = filter (\<lambda>v. v \<noteq> '''') (map trim_space [compatName, providerKey, authProvider])
           in find (\<lambda>e. \<not> compat_Disabled e \<and> list_ex (\<lambda>v. equal_fold v (compat_Name e)) candidates)
                (cfg_OpenAICompatibility c)))"

definition providerCoolingOverrideForAuth :: "Auth \<Rightarrow> CooldownConfig option \<Rightarrow> bool option" where
  "providerCoolingOverrideForAuth a cfg =
     (let provider = to_lower (trim_space (auth_Provider a));
          providerKey = trim_space (get_or '''' (auth_Attributes a) ''provider_key'');
          compatName = trim_space (get_or '''' (auth_Attributes a) ''compat_name'')
      in if cfg = None \<or> provider = '''' then None
         else if providerKey = '''' \<and> compatName = '''' \<and> provider \<noteq> ''openai-compatibility'' then None
         else case resolveOpenAICompatConfig cfg (if providerKey = '''' then provider else providerKey)
                     compatName provider of
                None \<Rightarrow> None
              | Some entry \<Rightarrow> compat_DisableCooling entry)"

definition quotaCooldownDisabledForAuthWithConfig ::
    "CooldownEnv \<Rightarrow> Auth \<Rightarrow> CooldownConfig option \<Rightarrow> bool" where
  "quotaCooldownDisabledForAuthWithConfig env a cfg =
     (if (case cfg of Some c \<Rightarrow> cfg_HomeEnabled c | None \<Rightarrow> False) then True
      else case DisableCoolingOverride a of
             Some override \<Rightarrow> override
           | None \<Rightarrow>
               (case providerCoolingOverrideForAuth a cfg of
                  Some override \<Rightarrow> override
                | None \<Rightarrow>
                    if (case cfg of Some c \<Rightarrow> cfg_DisableCooling c | None \<Rightarrow> False) then True
                    else quotaCooldownDisabled env))"

definition cooldownDisabledForAuth :: "CooldownEnv \<Rightarrow> Auth \<Rightarrow> bool" where
  "cooldownDisabledForAuth env a = quotaCooldownDisabledForAuthWithConfig env a (runtimeConfig env)"

section \<open>How long a failure blocks\<close>

abbreviation go_second :: duration where "go_second \<equiv> 1000000000"
abbreviation go_minute :: duration where "go_minute \<equiv> 60000000000"

definition refreshFailureBackoff :: duration where "refreshFailureBackoff = 5 * go_minute"
definition quotaBackoffBase :: duration where "quotaBackoffBase = go_second"
definition quotaBackoffMax :: duration where "quotaBackoffMax = 30 * go_minute"
definition minQuotaCooldownFloor :: duration where "minQuotaCooldownFloor = 10 * go_second"
definition transientErrorCooldown :: duration where "transientErrorCooldown = go_minute"
definition quotaRefreshFailureCount :: int where "quotaRefreshFailureCount = 4"

lemmas cooldown_constants =
  refreshFailureBackoff_def quotaBackoffBase_def quotaBackoffMax_def minQuotaCooldownFloor_def
  transientErrorCooldown_def quotaRefreshFailureCount_def

definition recoverableFailureRetryAfterWithHint ::
    "CooldownEnv \<Rightarrow> time \<Rightarrow> duration option \<Rightarrow> bool \<Rightarrow> time" where
  "recoverableFailureRetryAfterWithHint env now retryAfter disableCooling =
     (if disableCooling then 0
      else let seconds = transientErrorCooldownSeconds env
           in if seconds < 0 then 0
              else case retryAfter of
                     Some d \<Rightarrow> if 0 < d then now + d
                               else if seconds = 0 then now + transientErrorCooldown
                               else now + wrap64 (seconds * go_second)
                   | None \<Rightarrow> if seconds = 0 then now + transientErrorCooldown
                             else now + wrap64 (seconds * go_second))"

definition recoverableFailureRetryAfter :: "CooldownEnv \<Rightarrow> time \<Rightarrow> bool \<Rightarrow> time" where
  "recoverableFailureRetryAfter env now disableCooling =
     recoverableFailureRetryAfterWithHint env now None disableCooling"

text \<open>\<open>1<<n\<close> at 64 bits.\<close>

definition shift_one :: "nat \<Rightarrow> int" where
  "shift_one n = (if n < 64 then wrap64 (2 ^ n) else 0)"

definition nextQuotaCooldown :: "int \<Rightarrow> bool \<Rightarrow> duration \<times> int" where
  "nextQuotaCooldown prevLevel0 disableCooling =
     (let prevLevel = max 0 prevLevel0
      in if disableCooling then (0, prevLevel)
         else let cooldown = wrap64 (quotaBackoffBase * shift_one (nat prevLevel));
                  cooldown = (if cooldown < quotaBackoffBase then quotaBackoffBase else cooldown)
              in if quotaBackoffMax \<le> cooldown then (quotaBackoffMax, prevLevel)
                 else (cooldown, prevLevel + 1))"

definition quotaCooldownAfterFailure :: "QuotaState \<Rightarrow> time \<Rightarrow> time \<times> int" where
  "quotaCooldownAfterFailure quota now =
     (if quota_NextRecoverAt quota > now then (quota_NextRecoverAt quota, quota_BackoffLevel quota)
      else case nextQuotaCooldown (quota_BackoffLevel quota) False of
             (cooldown, nextLevel) \<Rightarrow> ((if 0 < cooldown then now + cooldown else 0), nextLevel))"

definition nextCloudflareCooldown :: "int \<Rightarrow> bool \<Rightarrow> time \<Rightarrow> time \<times> int" where
  "nextCloudflareCooldown backoffLevel disableCooling now =
     (if disableCooling then (0, backoffLevel)
      else case nextQuotaCooldown backoffLevel disableCooling of
             (cooldown, nextLevel) \<Rightarrow>
               (let cooldown = (if cooldown < 10 * go_second then 10 * go_second else cooldown)
                in ((if 0 < cooldown then now + cooldown else 0), nextLevel)))"

text \<open>A failure that names the model: the hint of the response, else twelve hours.\<close>

definition hintedCooldown :: "time \<Rightarrow> duration option \<Rightarrow> bool \<Rightarrow> time" where
  "hintedCooldown now retryAfter disableCooling =
     (if disableCooling then 0
      else case retryAfter of
             Some d \<Rightarrow> if 0 < d then now + d else now + 12 * go_hour
           | None \<Rightarrow> now + 12 * go_hour)"

definition halfHourCooldown :: "time \<Rightarrow> bool \<Rightarrow> time" where
  "halfHourCooldown now disableCooling = (if disableCooling then 0 else now + 30 * go_minute)"

section \<open>Quota fields\<close>

definition cooldownQuota :: "bool \<Rightarrow> string \<Rightarrow> time \<Rightarrow> int \<Rightarrow> QuotaState" where
  "cooldownQuota exceeded reason next level =
     \<lparr>quota_Exceeded = exceeded, quota_Reason = reason, quota_NextRecoverAt = next,
      quota_BackoffLevel = level, quota_ObservedAt = 0, quota_Signals = []\<rparr>"

definition emptyQuota :: QuotaState where
  "emptyQuota = cooldownQuota False '''' 0 0"

definition cooldownFieldsOf :: "QuotaState \<Rightarrow> QuotaState" where
  "cooldownFieldsOf q =
     cooldownQuota (quota_Exceeded q) (quota_Reason q) (quota_NextRecoverAt q) (quota_BackoffLevel q)"

definition applyCooldownFields :: "QuotaState \<Rightarrow> QuotaState \<Rightarrow> QuotaState" where
  "applyCooldownFields dst cooldown =
     dst\<lparr>quota_Exceeded := quota_Exceeded cooldown, quota_Reason := quota_Reason cooldown,
         quota_NextRecoverAt := quota_NextRecoverAt cooldown,
         quota_BackoffLevel := quota_BackoffLevel cooldown\<rparr>"

definition mergeQuotaObservation :: "QuotaState \<Rightarrow> QuotaState \<Rightarrow> QuotaState" where
  "mergeQuotaObservation target source =
     (if quota_ObservedAt source = 0 \<or> quota_ObservedAt source < quota_ObservedAt target then target
      else target\<lparr>quota_ObservedAt := quota_ObservedAt source, quota_Signals := quota_Signals source\<rparr>)"

lemma applyCooldownFields_simps [simp]:
  "quota_Exceeded (applyCooldownFields d c) = quota_Exceeded c"
  "quota_Reason (applyCooldownFields d c) = quota_Reason c"
  "quota_NextRecoverAt (applyCooldownFields d c) = quota_NextRecoverAt c"
  "quota_BackoffLevel (applyCooldownFields d c) = quota_BackoffLevel c"
  "quota_ObservedAt (applyCooldownFields d c) = quota_ObservedAt d"
  "quota_Signals (applyCooldownFields d c) = quota_Signals d"
  by (simp_all add: applyCooldownFields_def)

lemma cooldownQuota_simps [simp]:
  "quota_Exceeded (cooldownQuota e r t l) = e" "quota_Reason (cooldownQuota e r t l) = r"
  "quota_NextRecoverAt (cooldownQuota e r t l) = t" "quota_BackoffLevel (cooldownQuota e r t l) = l"
  by (simp_all add: cooldownQuota_def)

lemma emptyQuota_simps [simp]:
  "\<not> quota_Exceeded emptyQuota" "quota_Reason emptyQuota = ''''" "quota_NextRecoverAt emptyQuota = 0"
  "quota_BackoffLevel emptyQuota = 0"
  by (simp_all add: emptyQuota_def)

lemma mergeQuotaObservation_simps [simp]:
  "quota_Exceeded (mergeQuotaObservation t s) = quota_Exceeded t"
  "quota_Reason (mergeQuotaObservation t s) = quota_Reason t"
  "quota_NextRecoverAt (mergeQuotaObservation t s) = quota_NextRecoverAt t"
  "quota_BackoffLevel (mergeQuotaObservation t s) = quota_BackoffLevel t"
  by (simp_all add: mergeQuotaObservation_def)

section \<open>Model states\<close>

definition newModelState :: "string \<Rightarrow> ModelState" where
  "newModelState status =
     \<lparr>ms_Status = status, ms_StatusMessage = '''', ms_Unavailable = False, ms_NextRetryAfter = 0,
      ms_LastError = None, ms_Quota = emptyQuota, ms_UpdatedAt = 0, ms_cooldownRecordedSeq = 0,
      ms_credentialQuotaPropagated = False, ms_credentialQuotaShadow = None\<rparr>"

text \<open>\<open>cloneShallow\<close> drops what lies beneath; \<open>reinstate\<close> is a layer as a whole state again.\<close>

definition cloneShallow :: "ModelState \<Rightarrow> ModelLayer" where
  "cloneShallow s = ModelLayer.truncate s"

definition reinstate :: "ModelLayer \<Rightarrow> ModelState" where
  "reinstate l = ModelLayer.extend l \<lparr>ms_credentialQuotaShadow = None\<rparr>"

definition state_at :: "Auth \<Rightarrow> string \<Rightarrow> ModelState option" where
  "state_at a k = (case map_of (auth_ModelStates a) k of Some s \<Rightarrow> s | None \<Rightarrow> None)"

definition set_state :: "string \<Rightarrow> ModelState \<Rightarrow> Auth \<Rightarrow> Auth" where
  "set_state k s a = a\<lparr>auth_ModelStates := AList.update k (Some s) (auth_ModelStates a)\<rparr>"

definition existingModelState :: "Auth \<Rightarrow> string \<Rightarrow> ModelState option" where
  "existingModelState a model =
     (let model = canonicalModelKey model in if model = '''' then None else state_at a model)"

text \<open>
  \<open>fallback\<close> is the older of the two states; on equal times it is the source. The
  result is written over the target.
\<close>

definition mergeStates :: "ModelState \<Rightarrow> ModelState \<Rightarrow> ModelState" where
  "mergeStates target source =
     (let (preferred, fallback) =
        (if ms_UpdatedAt source > ms_UpdatedAt target then (source, target) else (target, source));
          quota = applyCooldownFields emptyQuota
            (cooldownQuota (quota_Exceeded (ms_Quota target) \<or> quota_Exceeded (ms_Quota source))
               (if quota_Reason (ms_Quota preferred) = '''' then quota_Reason (ms_Quota fallback)
                else quota_Reason (ms_Quota preferred))
               (if quota_NextRecoverAt (ms_Quota source) > quota_NextRecoverAt (ms_Quota target)
                then quota_NextRecoverAt (ms_Quota source) else quota_NextRecoverAt (ms_Quota target))
               (if quota_BackoffLevel (ms_Quota source) > quota_BackoffLevel (ms_Quota target)
                then quota_BackoffLevel (ms_Quota source) else quota_BackoffLevel (ms_Quota target)));
          quota = mergeQuotaObservation (mergeQuotaObservation quota (ms_Quota fallback)) (ms_Quota preferred);
          unavailable = (ms_Unavailable target \<or> ms_Unavailable source);
          wrapped = (quota_Reason quota = ''credential_quota'' \<or> quota_Reason quota = ''quota'' \<or>
                     ms_credentialQuotaPropagated target \<or> ms_credentialQuotaPropagated source \<or>
                     ms_credentialQuotaShadow target \<noteq> None \<or> ms_credentialQuotaShadow source \<noteq> None)
      in \<lparr>ms_Status =
            (if ms_Status target = StatusDisabled \<or> ms_Status source = StatusDisabled then StatusDisabled
             else if unavailable \<or> quota_Exceeded quota then StatusError else ms_Status preferred),
          ms_StatusMessage = (if ms_StatusMessage preferred = '''' then ms_StatusMessage fallback
                              else ms_StatusMessage preferred),
          ms_Unavailable = unavailable,
          ms_NextRetryAfter = (if ms_NextRetryAfter source > ms_NextRetryAfter target
                               then ms_NextRetryAfter source else ms_NextRetryAfter target),
          ms_LastError = (case ms_LastError preferred of None \<Rightarrow> ms_LastError fallback | Some e \<Rightarrow> Some e),
          ms_Quota = quota,
          ms_UpdatedAt = (if ms_UpdatedAt source > ms_UpdatedAt target then ms_UpdatedAt source
                          else ms_UpdatedAt target),
          ms_cooldownRecordedSeq =
            (if ms_cooldownRecordedSeq source > ms_cooldownRecordedSeq target
             then ms_cooldownRecordedSeq source else ms_cooldownRecordedSeq target),
          ms_credentialQuotaPropagated =
            (wrapped \<and> (ms_credentialQuotaPropagated target \<or> ms_credentialQuotaPropagated source)),
          ms_credentialQuotaShadow =
            (if \<not> wrapped then None
             else case ms_credentialQuotaShadow preferred of
                    Some shadow \<Rightarrow> Some shadow
                  | None \<Rightarrow> ms_credentialQuotaShadow fallback)\<rparr>)"

fun mergeModelState :: "ModelState option \<Rightarrow> ModelState option \<Rightarrow> ModelState option" where
  "mergeModelState None source = source"
| "mergeModelState (Some target) None = Some target"
| "mergeModelState (Some target) (Some source) = Some (mergeStates target source)"

definition normalKey :: "string \<Rightarrow> string" where
  "normalKey model = (if canonicalModelKey model = '''' then trim_space model else canonicalModelKey model)"

fun normalizeLoop ::
    "(string \<times> ModelState option) list \<Rightarrow> (string \<times> ModelState option) list \<Rightarrow> bool \<Rightarrow>
     (string \<times> ModelState option) list \<times> bool" where
  "normalizeLoop [] normalized changed = (normalized, changed)"
| "normalizeLoop ((model, state) # states) normalized changed =
     (let modelKey = normalKey model
      in case map_of normalized modelKey of
           Some existing \<Rightarrow>
             normalizeLoop states (AList.update modelKey (mergeModelState existing state) normalized) True
         | None \<Rightarrow>
             normalizeLoop states (AList.update modelKey state normalized) (changed \<or> modelKey \<noteq> model))"

definition normalizeModelStates :: "Auth \<Rightarrow> Auth" where
  "normalizeModelStates a =
     (case normalizeLoop (auth_ModelStates a) [] False of
        (normalized, changed) \<Rightarrow> if changed then a\<lparr>auth_ModelStates := normalized\<rparr> else a)"

text \<open>The credential with the state entered, and the state.\<close>

definition ensureModelState :: "Auth \<Rightarrow> string \<Rightarrow> Auth \<times> ModelState" where
  "ensureModelState a model =
     (let a = normalizeModelStates a; k = canonicalModelKey model
      in case state_at a k of
           Some s \<Rightarrow> (a, s)
         | None \<Rightarrow> (set_state k (newModelState StatusActive) a, newModelState StatusActive))"

definition resetModelState :: "time \<Rightarrow> ModelState \<Rightarrow> ModelState" where
  "resetModelState now s =
     s\<lparr>ms_Unavailable := False, ms_Status := StatusActive, ms_StatusMessage := '''', ms_NextRetryAfter := 0,
       ms_LastError := None, ms_Quota := applyCooldownFields (ms_Quota s) emptyQuota,
       ms_cooldownRecordedSeq := 0, ms_credentialQuotaShadow := None,
       ms_credentialQuotaPropagated := False, ms_UpdatedAt := now\<rparr>"

definition isModelStateActiveCooldown :: "time \<Rightarrow> 'a ModelLayer_scheme \<Rightarrow> bool" where
  "isModelStateActiveCooldown now s \<longleftrightarrow>
     (if ms_Status s = StatusDisabled then True
      else if ms_NextRetryAfter s \<noteq> 0 \<and> ms_NextRetryAfter s > now then True
      else if quota_NextRecoverAt (ms_Quota s) \<noteq> 0 \<and> quota_NextRecoverAt (ms_Quota s) > now then True
      else quota_Exceeded (ms_Quota s) \<and> quota_NextRecoverAt (ms_Quota s) = 0)"

definition modelStateIsClean :: "ModelState option \<Rightarrow> bool" where
  "modelStateIsClean state \<longleftrightarrow>
     (case state of
        None \<Rightarrow> True
      | Some s \<Rightarrow>
          ms_Status s = StatusActive \<and> \<not> ms_Unavailable s \<and> ms_StatusMessage s = '''' \<and>
          ms_NextRetryAfter s = 0 \<and> ms_LastError s = None \<and> \<not> quota_Exceeded (ms_Quota s) \<and>
          quota_Reason (ms_Quota s) = '''' \<and> quota_NextRecoverAt (ms_Quota s) = 0 \<and>
          quota_BackoffLevel (ms_Quota s) = 0)"

definition isDevinQuotaExhaustionMessage :: "string \<Rightarrow> bool" where
  "isDevinQuotaExhaustionMessage text \<longleftrightarrow>
     (let lower = to_lower text
      in contains lower ''quota'' \<and> contains lower ''exhausted'' \<and>
         (contains lower ''weekly'' \<or> contains lower ''daily''))"

definition devinStateErrorText :: "'a ModelLayer_scheme \<Rightarrow> string" where
  "devinStateErrorText s =
     (case ms_LastError s of
        Some e \<Rightarrow> if trim_space (err_Message e) \<noteq> '''' then err_Message e else ms_StatusMessage s
      | None \<Rightarrow> ms_StatusMessage s)"

section \<open>Fields of the credential that summarise its models\<close>

definition clearAggregatedAvailability :: "Auth \<Rightarrow> Auth" where
  "clearAggregatedAvailability a =
     a\<lparr>auth_Unavailable := False, auth_NextRetryAfter := 0,
       auth_Quota := applyCooldownFields (auth_Quota a) emptyQuota\<rparr>"

text \<open>One turn of the loop: what it writes into the state, and what it adds to the summary.\<close>

record Aggregate =
  agg_allUnavailable :: bool
  agg_earliestRetry :: time
  agg_quotaExceeded :: bool
  agg_quotaRecover :: time
  agg_maxBackoffLevel :: int
  agg_hasState :: bool

definition emptyAggregate :: Aggregate where
  "emptyAggregate =
     \<lparr>agg_allUnavailable = True, agg_earliestRetry = 0, agg_quotaExceeded = False, agg_quotaRecover = 0,
      agg_maxBackoffLevel = 0, agg_hasState = False\<rparr>"

definition expireState :: "time \<Rightarrow> ModelState \<Rightarrow> ModelState" where
  "expireState now s =
     (if ms_Status s \<noteq> StatusDisabled \<and> ms_Unavailable s \<and> ms_NextRetryAfter s \<noteq> 0 \<and>
         \<not> ms_NextRetryAfter s > now
      then s\<lparr>ms_Unavailable := False, ms_NextRetryAfter := 0\<rparr> else s)"

definition aggregateState :: "time \<Rightarrow> ModelState \<Rightarrow> Aggregate \<Rightarrow> Aggregate" where
  "aggregateState now s g =
     (let waiting = (ms_Status s \<noteq> StatusDisabled \<and> ms_Unavailable s \<and> ms_NextRetryAfter s \<noteq> 0 \<and>
                     ms_NextRetryAfter s > now);
          stateUnavailable = (ms_Status s = StatusDisabled \<or> waiting);
          q = ms_Quota s
      in \<lparr>agg_allUnavailable = (agg_allUnavailable g \<and> stateUnavailable),
          agg_earliestRetry =
            (if waiting \<and> (agg_earliestRetry g = 0 \<or> ms_NextRetryAfter s < agg_earliestRetry g)
             then ms_NextRetryAfter s else agg_earliestRetry g),
          agg_quotaExceeded = (agg_quotaExceeded g \<or> quota_Exceeded q),
          agg_quotaRecover =
            (if quota_Exceeded q \<and>
                (agg_quotaRecover g = 0 \<or>
                 (quota_NextRecoverAt q \<noteq> 0 \<and> quota_NextRecoverAt q < agg_quotaRecover g))
             then quota_NextRecoverAt q else agg_quotaRecover g),
          agg_maxBackoffLevel =
            (if quota_Exceeded q \<and> quota_BackoffLevel q > agg_maxBackoffLevel g
             then quota_BackoffLevel q else agg_maxBackoffLevel g),
          agg_hasState = True\<rparr>)"

fun aggregateStates :: "time \<Rightarrow> (string \<times> ModelState option) list \<Rightarrow> Aggregate \<Rightarrow> Aggregate" where
  "aggregateStates now [] g = g"
| "aggregateStates now ((model, None) # states) g = aggregateStates now states g"
| "aggregateStates now ((model, Some s) # states) g = aggregateStates now states (aggregateState now s g)"

definition expireStates :: "time \<Rightarrow> (string \<times> ModelState option) list \<Rightarrow> (string \<times> ModelState option) list" where
  "expireStates now states = map (\<lambda>(model, s). (model, map_option (expireState now) s)) states"

definition updateAggregatedAvailability :: "time \<Rightarrow> Auth \<Rightarrow> Auth" where
  "updateAggregatedAvailability now a =
     (if hasUnauthorizedAuthFailure a then a\<lparr>auth_Unavailable := True\<rparr>
      else if credentialQuotaActive a now then a\<lparr>auth_Unavailable := True\<rparr>
      else if auth_ModelStates a = [] then clearAggregatedAvailability a
      else let g = aggregateStates now (auth_ModelStates a) emptyAggregate;
               a = a\<lparr>auth_ModelStates := expireStates now (auth_ModelStates a)\<rparr>;
               q = auth_Quota a
           in if \<not> agg_hasState g then clearAggregatedAvailability a
              else a\<lparr>auth_Unavailable := agg_allUnavailable g,
                     auth_NextRetryAfter := (if agg_allUnavailable g then agg_earliestRetry g else 0),
                     auth_Quota :=
                       (if agg_quotaExceeded g
                        then applyCooldownFields q (cooldownQuota True ''quota''
                               (if quota_NextRecoverAt q > agg_quotaRecover g then quota_NextRecoverAt q
                                else agg_quotaRecover g)
                               (agg_maxBackoffLevel g))
                        else if quota_Exceeded q \<and> quota_NextRecoverAt q > now then q
                        else applyCooldownFields q emptyQuota)\<rparr>)"

definition hasModelError :: "Auth \<Rightarrow> time \<Rightarrow> bool" where
  "hasModelError a now \<longleftrightarrow>
     list_ex (\<lambda>(model, state).
       case state of
         None \<Rightarrow> False
       | Some s \<Rightarrow>
           ms_LastError s \<noteq> None \<or>
           (ms_Status s = StatusError \<and> ms_Unavailable s \<and>
            (ms_NextRetryAfter s = 0 \<or> ms_NextRetryAfter s > now))) (auth_ModelStates a)"

definition clearAuthStateOnSuccess :: "time \<Rightarrow> Auth \<Rightarrow> Auth" where
  "clearAuthStateOnSuccess now a =
     (if hasUnauthorizedAuthFailure a then a\<lparr>auth_Unavailable := True\<rparr>
      else a\<lparr>auth_Unavailable := False, auth_Status := StatusActive, auth_StatusMessage := '''',
             auth_Quota := applyCooldownFields (auth_Quota a) emptyQuota, auth_LastError := None,
             auth_NextRetryAfter := 0, auth_cooldownRecordedSeq := 0, auth_UpdatedAt := now\<rparr>)"

definition isAuthActiveCooldown :: "Auth \<Rightarrow> time \<Rightarrow> bool" where
  "isAuthActiveCooldown a now \<longleftrightarrow>
     (if auth_Disabled a \<or> auth_Status a = StatusDisabled then False
      else if auth_NextRetryAfter a \<noteq> 0 \<and> auth_NextRetryAfter a > now then True
      else if quota_NextRecoverAt (auth_Quota a) \<noteq> 0 \<and> quota_NextRecoverAt (auth_Quota a) > now then True
      else quota_Exceeded (auth_Quota a) \<and> quota_NextRecoverAt (auth_Quota a) = 0)"

end
