(* ===== verification/Mark_Result.thy ===== *)
theory Mark_Result
  imports Cooldown
begin

text \<open>
  Recording the result of an execution (\<open>MarkResult\<close> and \<open>recordAvailabilityNeutralResult\<close> of
  \<open>conductor_cooldown.go\<close>): which results are stale, how a failure blocks a model or the credential,
  how a credential quota is laid over the models, what a success clears, and what is handed on to
  the scheduler and to the registry.

  \<open>persistLocked\<close>, the hooks and the ring of recent requests are not modelled; they write no
  field that is read here.
\<close>

section \<open>A failure without a model\<close>

definition forced :: "AuthError option \<Rightarrow> bool" where
  "forced err \<longleftrightarrow> (case err of Some e \<Rightarrow> err_Code e = ErrorCodeForceCooldown | None \<Rightarrow> False)"

definition transient_status :: "int \<Rightarrow> bool" where
  "transient_status s \<longleftrightarrow> s \<in> {408, 500, 502, 503, 504, 520, 521, 522, 523, 524, 525, 526}"

text \<open>
  The deadline of a rate limit: the hint of the response, at least ten seconds, else the next rung of
  the ladder; and the level of the ladder.
\<close>

definition rateLimitNext :: "QuotaState \<Rightarrow> duration option \<Rightarrow> int \<Rightarrow> time \<Rightarrow> time \<times> int" where
  "rateLimitNext quota retryAfter level now =
     (case retryAfter of
        Some d \<Rightarrow> (now + (if d < minQuotaCooldownFloor then minQuotaCooldownFloor else d), level)
      | None \<Rightarrow> quotaCooldownAfterFailure quota now)"

definition authFailureBranch ::
    "CooldownEnv \<Rightarrow> AuthError option \<Rightarrow> duration option \<Rightarrow> time \<Rightarrow> bool \<Rightarrow> Auth \<Rightarrow> Auth" where
  "authFailureBranch env resultErr retryAfter now disableCooling a =
     (let statusCode = statusCodeFromResult resultErr in
      if isCloudflareChallengeResultError resultErr
      then (case nextCloudflareCooldown (quota_BackoffLevel (auth_Quota a)) disableCooling now of
              (next, level) \<Rightarrow>
                a\<lparr>auth_StatusMessage := ''cloudflare challenge'',
                  auth_Quota := applyCooldownFields (auth_Quota a)
                    (cooldownQuota True ''cloudflare challenge'' next level),
                  auth_NextRetryAfter := next\<rparr>)
      else if isInvalidGrantResultError resultErr
      then a\<lparr>auth_StatusMessage := ''invalid_grant'', auth_NextRetryAfter := halfHourCooldown now disableCooling\<rparr>
      else if statusCode = 401
      then a\<lparr>auth_StatusMessage := ''unauthorized'', auth_NextRetryAfter := halfHourCooldown now disableCooling\<rparr>
      else if statusCode = 402 \<or> statusCode = 403
      then a\<lparr>auth_StatusMessage := ''payment_required'', auth_NextRetryAfter := halfHourCooldown now disableCooling\<rparr>
      else if statusCode = 404
      then a\<lparr>auth_StatusMessage := ''not_found'',
             auth_NextRetryAfter := hintedCooldown now retryAfter disableCooling\<rparr>
      else if statusCode = 429
      then (let q = (auth_Quota a)\<lparr>quota_Exceeded := True, quota_Reason := ''quota''\<rparr>;
                (next, level) =
                  (if disableCooling then (0, quota_BackoffLevel q)
                   else rateLimitNext q retryAfter (quota_BackoffLevel q) now);
                next = (if \<not> disableCooling \<and> quota_NextRecoverAt q > next then quota_NextRecoverAt q else next)
            in a\<lparr>auth_StatusMessage := ''quota exhausted'',
                 auth_Quota := q\<lparr>quota_NextRecoverAt := next, quota_BackoffLevel := level\<rparr>,
                 auth_NextRetryAfter := next\<rparr>)
      else if transient_status statusCode
      then (let next = recoverableFailureRetryAfterWithHint env now retryAfter disableCooling
            in a\<lparr>auth_StatusMessage := ''transient upstream error'', auth_NextRetryAfter := next,
                 auth_Unavailable := (next \<noteq> 0)\<rparr>)
      else (let next = recoverableFailureRetryAfter env now disableCooling
            in a\<lparr>auth_StatusMessage := (if auth_StatusMessage a = '''' then ''request failed''
                                          else auth_StatusMessage a),
                 auth_NextRetryAfter := next, auth_Unavailable := (next \<noteq> 0)\<rparr>))"

definition applyAuthFailureState ::
    "CooldownEnv \<Rightarrow> AuthError option \<Rightarrow> duration option \<Rightarrow> time \<Rightarrow> bool \<Rightarrow> Auth \<Rightarrow> Auth" where
  "applyAuthFailureState env resultErr retryAfter now disableCooling a0 =
     (if shouldSkipCredentialCooldown (env_get env) resultErr then a0
      else let prev = auth_NextRetryAfter a0;
               a = a0\<lparr>auth_Unavailable := True, auth_Status := StatusError, auth_UpdatedAt := now\<rparr>;
               a = (case resultErr of
                      None \<Rightarrow> a
                    | Some e \<Rightarrow>
                        a\<lparr>auth_LastError := Some e,
                          auth_StatusMessage := (if err_Message e \<noteq> '''' then err_Message e
                                                 else auth_StatusMessage a)\<rparr>);
               a = authFailureBranch env resultErr retryAfter now disableCooling a;
               a = (if auth_NextRetryAfter a \<noteq> 0 \<and> prev > auth_NextRetryAfter a \<and> prev > now
                    then a\<lparr>auth_NextRetryAfter := prev\<rparr> else a);
               a = (if forced resultErr \<and> auth_NextRetryAfter a = 0
                    then a\<lparr>auth_NextRetryAfter := now + transientErrorCooldown, auth_Unavailable := True\<rparr>
                    else a)
           in if disableCooling \<and> auth_NextRetryAfter a = 0 \<and> quota_NextRecoverAt (auth_Quota a) = 0
              then a\<lparr>auth_Unavailable := False, auth_Quota := (auth_Quota a)\<lparr>quota_Exceeded := False\<rparr>\<rparr>
              else a)"

section \<open>A failure of a model\<close>

text \<open>
  A wrap whose credential quota has run out is taken off: the state of the model's own failures comes
  back when it still blocks, else the state starts afresh.
\<close>

definition unwrapExpired :: "Auth \<Rightarrow> time \<Rightarrow> ModelState \<Rightarrow> ModelState" where
  "unwrapExpired a now s =
     (if (ms_credentialQuotaPropagated s \<or> quota_Reason (ms_Quota s) = ''credential_quota'') \<and>
         \<not> credentialQuotaActive a now
      then (case ms_credentialQuotaShadow s of
              Some shadow \<Rightarrow> if isModelStateActiveCooldown now shadow then reinstate shadow
                             else resetModelState now s
            | None \<Rightarrow> resetModelState now s)
      else s)"

text \<open>While the credential quota lasts, an own failure is recorded on the model's own layer.\<close>

definition ownLayerPending :: "ExecResult \<Rightarrow> Auth \<Rightarrow> time \<Rightarrow> bool" where
  "ownLayerPending r a now \<longleftrightarrow>
     \<not> res_CredentialScope r \<and> quota_Reason (auth_Quota a) = ''credential_quota'' \<and>
     quota_NextRecoverAt (auth_Quota a) > now"

definition ownLayer :: "ModelState \<Rightarrow> ModelState" where
  "ownLayer s = (case ms_credentialQuotaShadow s of
                   Some shadow \<Rightarrow> reinstate shadow | None \<Rightarrow> newModelState '''')"

definition markFailed :: "ExecResult \<Rightarrow> time \<Rightarrow> ModelState \<Rightarrow> ModelState" where
  "markFailed r now s =
     (let s = s\<lparr>ms_Unavailable := True, ms_Status := StatusError, ms_UpdatedAt := now\<rparr>
      in case res_Error r of
           None \<Rightarrow> s
         | Some e \<Rightarrow> s\<lparr>ms_LastError := Some e, ms_StatusMessage := err_Message e\<rparr>)"

definition noteError :: "AuthError option \<Rightarrow> bool \<Rightarrow> Auth \<Rightarrow> Auth" where
  "noteError err wasTerminalUnauthorized a =
     (case err of
        None \<Rightarrow> a
      | Some e \<Rightarrow> if wasTerminalUnauthorized then a
                  else a\<lparr>auth_LastError := Some e, auth_StatusMessage := err_Message e\<rparr>)"

definition cloudflareModel :: "time \<Rightarrow> bool \<Rightarrow> ModelState \<Rightarrow> ModelState" where
  "cloudflareModel now disableCooling s =
     (case nextCloudflareCooldown (quota_BackoffLevel (ms_Quota s)) disableCooling now of
        (next, level) \<Rightarrow>
          s\<lparr>ms_NextRetryAfter := next, ms_StatusMessage := ''cloudflare challenge'',
            ms_Quota := applyCooldownFields (ms_Quota s)
              (cooldownQuota True ''cloudflare challenge'' next level)\<rparr>)"

text \<open>
  A rate limit of the model or, in the scope of the credential, of all its models: the deadline of
  the model, the deadline of the credential and the level.
\<close>

definition credentialQuotaLabel :: "Auth \<Rightarrow> bool" where
  "credentialQuotaLabel a \<longleftrightarrow> quota_Exceeded (auth_Quota a) \<and> quota_Reason (auth_Quota a) = ''credential_quota''"

definition modelRateLimit :: "ExecResult \<Rightarrow> bool \<Rightarrow> time \<Rightarrow> Auth \<Rightarrow> ModelState \<Rightarrow> time \<times> time \<times> int" where
  "modelRateLimit r disableCooling now a s =
     (let level = (if res_CredentialScope r
                   then (if credentialQuotaLabel a then quota_BackoffLevel (auth_Quota a) else 0)
                   else quota_BackoffLevel (ms_Quota s));
          quotaForFailure =
            (if res_CredentialScope r
             then (if credentialQuotaLabel a then auth_Quota a
                   else (ms_Quota s)\<lparr>quota_NextRecoverAt := 0, quota_BackoffLevel := 0\<rparr>)
             else ms_Quota s)
      in if disableCooling then (0, 0, level)
         else case rateLimitNext quotaForFailure (res_RetryAfter r) level now of
                (next, level) \<Rightarrow>
                  ((if quota_Exceeded (ms_Quota s) \<and> quota_NextRecoverAt (ms_Quota s) > next
                    then quota_NextRecoverAt (ms_Quota s) else next), next, level))"

text \<open>
  What stays beneath the credential quota when it first covers the reporting model: a live block
  of its own. \<open>saved\<close> is the state before the failure, \<open>prev\<close> its deadline.
\<close>

definition shadowOfReporter :: "ExecResult \<Rightarrow> time \<Rightarrow> ModelLayer \<Rightarrow> time \<Rightarrow> ModelState \<Rightarrow> ModelState" where
  "shadowOfReporter r now saved prev s =
     (if \<not> res_CredentialScope r then s\<lparr>ms_credentialQuotaShadow := None\<rparr>
      else if \<not> ms_credentialQuotaPropagated s \<and> quota_Reason (ms_Quota saved) \<noteq> ''credential_quota''
      then (if prev > now \<and> \<not> isDevinQuotaExhaustionMessage (devinStateErrorText saved)
            then s\<lparr>ms_credentialQuotaShadow :=
                   Some (saved\<lparr>ms_NextRetryAfter := prev, ms_Unavailable := True, ms_Status := StatusError\<rparr>)\<rparr>
            else s\<lparr>ms_credentialQuotaShadow := None\<rparr>)
      else s)"

definition coverSibling :: "Auth \<Rightarrow> time \<Rightarrow> time \<Rightarrow> int \<Rightarrow> ModelState \<Rightarrow> ModelState" where
  "coverSibling a now credentialNext level other0 =
     (let other = unwrapExpired a now other0;
          alreadyPropagated = (ms_credentialQuotaPropagated other \<or>
                               quota_Reason (ms_Quota other) = ''credential_quota'');
          other = (if alreadyPropagated then other
                   else if isModelStateActiveCooldown now other \<and>
                           \<not> isDevinQuotaExhaustionMessage (devinStateErrorText other)
                   then other\<lparr>ms_credentialQuotaShadow := Some (cloneShallow other)\<rparr>
                   else other\<lparr>ms_credentialQuotaShadow := None\<rparr>);
          next = (if quota_Exceeded (ms_Quota other) \<and> quota_NextRecoverAt (ms_Quota other) > credentialNext
                  then quota_NextRecoverAt (ms_Quota other) else credentialNext);
          retry = (if ms_NextRetryAfter other \<noteq> 0 \<and> ms_NextRetryAfter other > next
                   then ms_NextRetryAfter other else next)
      in other\<lparr>ms_credentialQuotaPropagated := True, ms_Unavailable := True, ms_Status := StatusError,
               ms_NextRetryAfter := retry,
               ms_Quota := applyCooldownFields (ms_Quota other) (cooldownQuota True ''credential_quota'' next level)\<rparr>)"

definition mapSiblings :: "string \<Rightarrow> (ModelState \<Rightarrow> ModelState) \<Rightarrow> Auth \<Rightarrow> Auth" where
  "mapSiblings k f a =
     a\<lparr>auth_ModelStates := map (\<lambda>(model, s). (model, if model = k then s else map_option f s))
        (auth_ModelStates a)\<rparr>"

definition coverCredential :: "time \<Rightarrow> int \<Rightarrow> Auth \<Rightarrow> Auth" where
  "coverCredential credentialNext level a =
     (let authNext = (if credentialQuotaLabel a \<and> quota_NextRecoverAt (auth_Quota a) > credentialNext
                      then quota_NextRecoverAt (auth_Quota a) else credentialNext)
      in a\<lparr>auth_Unavailable := True,
           auth_Quota := applyCooldownFields (auth_Quota a) (cooldownQuota True ''credential_quota'' authNext level),
           auth_NextRetryAfter := authNext\<rparr>)"

definition rateLimitModel ::
    "ExecResult \<Rightarrow> bool \<Rightarrow> bool \<Rightarrow> time \<Rightarrow> string \<Rightarrow> ModelLayer \<Rightarrow> time \<Rightarrow> Auth \<Rightarrow> ModelState \<Rightarrow> Auth \<times> ModelState" where
  "rateLimitModel r disableCooling wasTerminalUnauthorized now k saved prev a s =
     (case modelRateLimit r disableCooling now a s of
        (next, credentialNext, level) \<Rightarrow>
          (let s = s\<lparr>ms_NextRetryAfter := next,
                     ms_Quota := applyCooldownFields (ms_Quota s) (cooldownQuota True ''quota'' next level)\<rparr>;
               s = shadowOfReporter r now saved prev s
           in if res_CredentialScope r \<and> \<not> disableCooling
              then (let a = mapSiblings k (coverSibling a now credentialNext level) a
                    in if wasTerminalUnauthorized then (a, s)
                       else (coverCredential credentialNext level a, s\<lparr>ms_credentialQuotaPropagated := True\<rparr>))
              else (a, s)))"

text \<open>The cases of a failure, on the credential and the state of the model.\<close>

definition modelFailureBranch ::
    "CooldownEnv \<Rightarrow> ExecResult \<Rightarrow> bool \<Rightarrow> bool \<Rightarrow> time \<Rightarrow> string \<Rightarrow> ModelLayer \<Rightarrow> time \<Rightarrow> Auth \<Rightarrow> ModelState \<Rightarrow> Auth \<times> ModelState" where
  "modelFailureBranch env r disableCooling wasTerminalUnauthorized now k saved prev a s =
     (let err = res_Error r; statusCode = statusCodeFromResult err in
      if isModelSupportResultError err
      then (a, s\<lparr>ms_NextRetryAfter := hintedCooldown now (res_RetryAfter r) disableCooling\<rparr>)
      else if isCloudflareChallengeResultError err
      then (if auth_LastError a \<noteq> None \<and> \<not> wasTerminalUnauthorized
            then a\<lparr>auth_StatusMessage := ''cloudflare challenge''\<rparr> else a,
            cloudflareModel now disableCooling s)
      else if isInvalidGrantResultError err
      then (a, s\<lparr>ms_NextRetryAfter := halfHourCooldown now disableCooling\<rparr>)
      else if statusCode = 401 \<or> statusCode = 402 \<or> statusCode = 403
      then (a, s\<lparr>ms_NextRetryAfter := halfHourCooldown now disableCooling\<rparr>)
      else if statusCode = 404
      then (a, s\<lparr>ms_NextRetryAfter := hintedCooldown now (res_RetryAfter r) disableCooling\<rparr>)
      else if statusCode = 429
      then rateLimitModel r disableCooling wasTerminalUnauthorized now k saved prev a s
      else if transient_status statusCode
      then (let next = recoverableFailureRetryAfterWithHint env now (res_RetryAfter r) disableCooling
            in (a, s\<lparr>ms_NextRetryAfter := next, ms_Unavailable := (next \<noteq> 0)\<rparr>))
      else (let next = recoverableFailureRetryAfter env now disableCooling
            in (a, s\<lparr>ms_NextRetryAfter := next, ms_Unavailable := (next \<noteq> 0)\<rparr>)))"

text \<open>What follows every case: a disabled cooldown, a forced one, and a live one that is only extended.\<close>

definition settleModel :: "ExecResult \<Rightarrow> bool \<Rightarrow> time \<Rightarrow> time \<Rightarrow> ModelState \<Rightarrow> ModelState" where
  "settleModel r disableCooling now prev s =
     (let s = (if disableCooling \<and> ms_NextRetryAfter s = 0 \<and> quota_NextRecoverAt (ms_Quota s) = 0
               then s\<lparr>ms_Unavailable := False, ms_Quota := (ms_Quota s)\<lparr>quota_Exceeded := False\<rparr>\<rparr> else s);
          s = (if forced (res_Error r) \<and> ms_NextRetryAfter s = 0
               then s\<lparr>ms_NextRetryAfter := now + transientErrorCooldown, ms_Unavailable := True\<rparr> else s)
      in if ms_NextRetryAfter s \<noteq> 0 \<and> prev > ms_NextRetryAfter s \<and> prev > now
         then s\<lparr>ms_NextRetryAfter := prev\<rparr> else s)"

text \<open>The covered state once its own layer has been renewed.\<close>

definition composeLayers :: "time \<Rightarrow> nat \<Rightarrow> Auth \<Rightarrow> ModelLayer \<Rightarrow> ModelState \<Rightarrow> ModelState" where
  "composeLayers now seq a saved s =
     (let outer = reinstate saved;
          retry = (if ms_NextRetryAfter s > ms_NextRetryAfter outer then ms_NextRetryAfter s
                   else ms_NextRetryAfter outer);
          retry = (if quota_NextRecoverAt (auth_Quota a) > retry then quota_NextRecoverAt (auth_Quota a) else retry)
      in outer\<lparr>ms_credentialQuotaShadow :=
                 (if isModelStateActiveCooldown now (cloneShallow s) then Some (cloneShallow s) else None),
               ms_cooldownRecordedSeq := seq, ms_credentialQuotaPropagated := True,
               ms_Unavailable := True, ms_Status := StatusError, ms_UpdatedAt := now,
               ms_LastError := ms_LastError s, ms_StatusMessage := ms_StatusMessage s,
               ms_NextRetryAfter := retry,
               ms_Quota :=
                 (if quota_Exceeded (ms_Quota outer) \<and> quota_Reason (ms_Quota outer) = ''credential_quota''
                  then ms_Quota outer
                  else applyCooldownFields (ms_Quota outer)
                         (cooldownQuota True ''credential_quota'' (quota_NextRecoverAt (auth_Quota a))
                            (quota_BackoffLevel (auth_Quota a))))\<rparr>)"

definition disableCoolingFor :: "CooldownEnv \<Rightarrow> AuthError option \<Rightarrow> Auth \<Rightarrow> bool" where
  "disableCoolingFor env err a \<longleftrightarrow> (if forced err then False else cooldownDisabledForAuth env a)"

text \<open>
  The whole handler of a failure that names a model and counts; \<open>k\<close> is the key of its state
  and \<open>seq\<close> the number of executions dispatched so far.
\<close>

definition modelFailure ::
    "CooldownEnv \<Rightarrow> ExecResult \<Rightarrow> bool \<Rightarrow> time \<Rightarrow> nat \<Rightarrow> string \<Rightarrow> Auth \<Rightarrow> Auth" where
  "modelFailure env r wasTerminalUnauthorized now seq modelKey a0 =
     (let disableCooling = disableCoolingFor env (res_Error r) a0;
          k = canonicalModelKey modelKey;
          (a, s) = ensureModelState a0 modelKey;
          s = unwrapExpired a now s;
          saved = cloneShallow s;
          pending = ownLayerPending r a now;
          s = (if pending then ownLayer s else s);
          prev = ms_NextRetryAfter s;
          s = markFailed r now s;
          a = noteError (res_Error r) wasTerminalUnauthorized a;
          (a, s) = modelFailureBranch env r disableCooling wasTerminalUnauthorized now k saved prev a s;
          s = settleModel r disableCooling now prev s;
          s = s\<lparr>ms_cooldownRecordedSeq := seq\<rparr>;
          s = (if pending then composeLayers now seq a saved s else s);
          a = set_state k s a;
          a = (if res_CredentialScope r \<and> \<not> disableCooling \<and> statusCodeFromResult (res_Error r) = 429
               then mapSiblings k (\<lambda>other. other\<lparr>ms_cooldownRecordedSeq := seq\<rparr>) (a\<lparr>auth_cooldownRecordedSeq := seq\<rparr>)
               else a)
      in updateAggregatedAvailability now (a\<lparr>auth_Status := StatusError\<rparr>))"

section \<open>Stale results and rejected tokens\<close>

definition staleEpoch :: "ExecResult \<Rightarrow> Auth \<Rightarrow> bool" where
  "staleEpoch r a \<longleftrightarrow> 0 < res_RegistrationEpoch r \<and> res_RegistrationEpoch r < auth_RegistrationEpoch a"

definition isStaleExecutionResult :: "ExecResult \<Rightarrow> Auth \<Rightarrow> bool" where
  "isStaleExecutionResult r a \<longleftrightarrow>
     (if staleEpoch r a then True
      else if res_AccessToken r \<noteq> '''' \<and> AccessToken a = res_AccessToken r then False
      else res_CredentialVersion r < auth_CredentialVersion a \<and>
           (0 < res_CredentialVersion r \<or> 1 < auth_CredentialVersion a))"

definition recordRejectedTokenOnAuth :: "string \<Rightarrow> Auth \<Rightarrow> Auth \<times> bool" where
  "recordRejectedTokenOnAuth failedToken0 a =
     (let failedToken = trim_space failedToken0
      in if failedToken = '''' then (a, False)
         else let siwc = (SIWCAccessToken a \<noteq> '''' \<and> SIWCAccessToken a = failedToken \<and>
                          auth_RejectedSIWCAccessToken a \<noteq> failedToken);
                  own = (AccessToken a = failedToken \<and> auth_RejectedAccessToken a \<noteq> failedToken);
                  a = (if siwc then a\<lparr>auth_RejectedSIWCAccessToken := failedToken\<rparr> else a);
                  a = (if own then a\<lparr>auth_RejectedAccessToken := failedToken\<rparr> else a)
              in (a, siwc \<or> own))"

text \<open>Whether a failure says that the token was refused.\<close>

definition unauthorizedResult :: "CooldownEnv \<Rightarrow> ExecResult \<Rightarrow> bool" where
  "unauthorizedResult env r \<longleftrightarrow>
     \<not> res_Success r \<and> \<not> shouldSkipCredentialCooldown (env_get env) (res_Error r) \<and>
     (statusCodeFromResult (res_Error r) = 401 \<or>
      (case res_Error r of Some e \<Rightarrow> isUnauthorizedError (auth_error e) | None \<Rightarrow> False))"

section \<open>A success\<close>

definition clearErrorWhenHealthy :: "time \<Rightarrow> Auth \<Rightarrow> Auth" where
  "clearErrorWhenHealthy now a =
     (if hasModelError a now then a
      else a\<lparr>auth_LastError := None, auth_StatusMessage := '''', auth_Status := StatusActive\<rparr>)"

text \<open>A live cooldown that was recorded after the execution was dispatched outlives its success.\<close>

definition retainModelCooldown :: "ExecResult \<Rightarrow> string \<Rightarrow> bool \<Rightarrow> time \<Rightarrow> Auth \<Rightarrow> bool" where
  "retainModelCooldown r modelKey wasTerminalUnauthorized now a \<longleftrightarrow>
     modelKey \<noteq> '''' \<and> \<not> wasTerminalUnauthorized \<and> 0 < res_ExecutionSeq r \<and>
     (case existingModelState a modelKey of
        None \<Rightarrow> False
      | Some s \<Rightarrow> isModelStateActiveCooldown now s \<and> 0 < ms_cooldownRecordedSeq s \<and>
                   res_ExecutionSeq r \<le> ms_cooldownRecordedSeq s)"

definition retainAuthCooldown :: "ExecResult \<Rightarrow> string \<Rightarrow> bool \<Rightarrow> time \<Rightarrow> Auth \<Rightarrow> bool" where
  "retainAuthCooldown r modelKey wasTerminalUnauthorized now a \<longleftrightarrow>
     modelKey = '''' \<and> \<not> wasTerminalUnauthorized \<and> 0 < res_ExecutionSeq r \<and>
     isAuthActiveCooldown a now \<and> 0 < auth_cooldownRecordedSeq a \<and>
     res_ExecutionSeq r \<le> auth_cooldownRecordedSeq a"

definition resetModel :: "string \<Rightarrow> time \<Rightarrow> Auth \<Rightarrow> Auth" where
  "resetModel modelKey now a0 =
     (case ensureModelState a0 modelKey of
        (a, s) \<Rightarrow> set_state (canonicalModelKey modelKey) (resetModelState now s) a)"

definition markSuccess :: "ExecResult \<Rightarrow> string \<Rightarrow> bool \<Rightarrow> time \<Rightarrow> Auth \<Rightarrow> Auth" where
  "markSuccess r modelKey wasTerminalUnauthorized now a =
     (if wasTerminalUnauthorized then (if modelKey \<noteq> '''' then resetModel modelKey now a else a)
      else if quota_Reason (auth_Quota a) = ''credential_quota'' \<and> quota_NextRecoverAt (auth_Quota a) > now
      then a
      else if retainModelCooldown r modelKey wasTerminalUnauthorized now a \<or>
              retainAuthCooldown r modelKey wasTerminalUnauthorized now a
      then a
      else if res_CountTokens r then clearErrorWhenHealthy now (updateAggregatedAvailability now a)
      else if modelKey \<noteq> ''''
      then clearErrorWhenHealthy now (updateAggregatedAvailability now (resetModel modelKey now a))
      else clearAuthStateOnSuccess now a)"

section \<open>A failure\<close>

definition markFailure :: "CooldownEnv \<Rightarrow> ExecResult \<Rightarrow> string \<Rightarrow> bool \<Rightarrow> time \<Rightarrow> nat \<Rightarrow> Auth \<Rightarrow> Auth" where
  "markFailure env r modelKey wasTerminalUnauthorized now seq a =
     (if modelKey \<noteq> ''''
      then (if shouldSkipCredentialCooldown (env_get env) (res_Error r) then a
            else modelFailure env r wasTerminalUnauthorized now seq modelKey a)
      else if wasTerminalUnauthorized then a
      else (applyAuthFailureState env (res_Error r) (res_RetryAfter r) now
              (disableCoolingFor env (res_Error r) a) a)\<lparr>auth_cooldownRecordedSeq := seq\<rparr>)"

text \<open>The token the failure refused, and when the credential is due for a refresh.\<close>

definition noteUnauthorized :: "CooldownEnv \<Rightarrow> ExecResult \<Rightarrow> bool \<Rightarrow> time \<Rightarrow> Auth \<Rightarrow> Auth \<times> bool" where
  "noteUnauthorized env r wasTerminalUnauthorized now a0 =
     (let a = (if unauthorizedResult env r
               then fst (recordRejectedTokenOnAuth
                      (if res_AccessToken r = '''' then AccessToken a0 else res_AccessToken r) a0)
               else a0)
      in if wasTerminalUnauthorized
         then (a\<lparr>auth_Unavailable := True, auth_Status := StatusError, auth_NextRefreshAfter := 0,
                 auth_NextRetryAfter := 0\<rparr>, False)
         else if unauthorizedResult env r \<and> HasRefreshCredential a
         then (if auth_NextRefreshAfter a = 0
               then (if auth_LastRefreshedAt a \<noteq> 0 \<and> time_sub now (auth_LastRefreshedAt a) < refreshFailureBackoff
                     then a\<lparr>auth_NextRefreshAfter := now + refreshFailureBackoff\<rparr>
                     else a\<lparr>auth_NextRefreshAfter := now\<rparr>)
               else a, True)
         else (a, False))"

end
