(* ===== verification/Quota_Signals.thy ===== *)
theory Quota_Signals
  imports Cooldown
begin

text \<open>
  The passive quota snapshot taken from the headers of a response (\<open>quota_signals.go\<close>): which
  headers count, how they are ranked and cut off, and what of a \<open>QuotaState\<close> they replace.

  A header map is an association list of names and values; the order of the list is one order of
  \<open>range\<close>.
\<close>

definition maxQuotaSignalHeaders :: nat where "maxQuotaSignalHeaders = 64"
definition maxQuotaSignalValue :: nat where "maxQuotaSignalValue = 512"

text \<open>\<open>http.CanonicalHeaderKey\<close>: a name that is no token stays as it is.\<close>

definition upper_char :: "char \<Rightarrow> char" where
  "upper_char c = (if 97 \<le> (of_char c :: nat) \<and> (of_char c :: nat) \<le> 122 then char_of ((of_char c :: nat) - 32) else c)"

definition header_token_char :: "char \<Rightarrow> bool" where
  "header_token_char c \<longleftrightarrow>
     is_digit c \<or> 65 \<le> (of_char c :: nat) \<and> (of_char c :: nat) \<le> 90 \<or>
     97 \<le> (of_char c :: nat) \<and> (of_char c :: nat) \<le> 122 \<or> c = CHR 0x60 \<or>
     c \<in> set ''!#$%&*+-.^_|~'' \<or> c = CHR 0x27"

fun canonical_from :: "bool \<Rightarrow> string \<Rightarrow> string" where
  "canonical_from upper [] = []"
| "canonical_from upper (c # cs) =
     (if upper then upper_char c else lower_char c) # canonical_from (c = CHR ''-'') cs"

definition CanonicalHeaderKey :: "string \<Rightarrow> string" where
  "CanonicalHeaderKey s = (if list_all header_token_char s then canonical_from True s else s)"

definition ProviderSupportsQuotaObservation :: "string \<Rightarrow> bool" where
  "ProviderSupportsQuotaObservation provider \<longleftrightarrow>
     to_lower (trim_space provider) \<in> {''claude'', ''codex'', ''devin''}"

definition isQuotaSignalHeaderForProvider :: "string \<Rightarrow> string \<Rightarrow> bool" where
  "isQuotaSignalHeaderForProvider provider0 name0 =
     (let provider = to_lower (trim_space provider0); name = to_lower (trim_space name0)
      in if name = ''retry-after'' then provider = ''claude'' \<or> provider = ''codex''
         else if is_prefix_of ''anthropic-ratelimit-unified-'' name then provider = ''claude''
         else if is_prefix_of ''x-ratelimit-'' name then provider = ''codex''
         else if \<not> is_prefix_of ''x-codex-'' name then False
         else if provider \<noteq> ''codex'' then False
         else if name = ''x-codex-active-limit'' \<or> name = ''x-codex-plan-type'' \<or>
                 is_prefix_of ''x-codex-credits-'' name
         then True
         else contains_any_of name
                [''-allowed'', ''-limit-reached'', ''-limit-name'', ''-used-percent'', ''-window-minutes'',
                 ''-reset-after-seconds'', ''-reset-at'', ''-over-secondary-limit-percent''])"

definition validQuotaSignalValue :: "string \<Rightarrow> bool" where
  "validQuotaSignalValue value \<longleftrightarrow>
     value \<noteq> '''' \<and> length value \<le> maxQuotaSignalValue \<and>
     list_all (\<lambda>c. \<not> (of_char c :: nat) < 32 \<and> (of_char c :: nat) \<noteq> 127) value"

definition quotaSignalRetentionRank :: "string \<Rightarrow> nat" where
  "quotaSignalRetentionRank name =
     (let lower = to_lower (trim_space name) in
      if lower = ''retry-after'' \<or> is_prefix_of ''anthropic-ratelimit-unified-'' lower then 0
      else if lower = ''x-codex-plan-type'' \<or> lower = ''x-codex-active-limit'' \<or>
              is_prefix_of ''x-codex-credits-'' lower then 1
      else if lower = ''x-codex-allowed'' \<or> lower = ''x-codex-limit-reached'' \<or>
              is_prefix_of ''x-codex-primary-'' lower \<or> is_prefix_of ''x-codex-secondary-'' lower then 2
      else if is_prefix_of ''x-codex-code-review-'' lower then 3
      else if is_prefix_of ''x-codex-additional-'' lower then 5
      else if is_prefix_of ''x-codex-'' lower then 4
      else 6)"

text \<open>The loop over the headers: the names in the order they were met, and their values.\<close>

fun gatherSignals ::
    "string \<Rightarrow> (string \<times> string list) list \<Rightarrow> string list \<Rightarrow> (string \<times> string) list \<Rightarrow>
     string list \<times> (string \<times> string) list" where
  "gatherSignals provider [] names vals = (names, vals)"
| "gatherSignals provider ((key, headerValues) # headers) names vals =
     (let canonicalKey = CanonicalHeaderKey (trim_space key)
      in if \<not> isQuotaSignalHeaderForProvider provider canonicalKey \<or> headerValues = []
         then gatherSignals provider headers names vals
         else let value = trim_space (last headerValues)
              in if \<not> validQuotaSignalValue value then gatherSignals provider headers names vals
                 else gatherSignals provider headers
                        (if map_of vals canonicalKey = None then names @ [canonicalKey] else names)
                        (AList.update canonicalKey value vals))"

definition collectQuotaSignals :: "string \<Rightarrow> (string \<times> string list) list \<Rightarrow> (string \<times> string) list" where
  "collectQuotaSignals provider headers =
     (case gatherSignals provider headers [] [] of
        (names, vals) \<Rightarrow>
          map (\<lambda>name. (name, get_or '''' vals name))
            (take maxQuotaSignalHeaders (sort_key quotaSignalRetentionRank (sort names))))"

definition ClearObservationSignals :: "QuotaState \<Rightarrow> QuotaState \<times> bool" where
  "ClearObservationSignals q =
     (if quota_Signals q = [] \<and> quota_ObservedAt q = 0 then (q, False)
      else (q\<lparr>quota_Signals := [], quota_ObservedAt := 0\<rparr>, True))"

definition ObserveResponseHeadersForProvider ::
    "string \<Rightarrow> (string \<times> string list) list \<Rightarrow> time \<Rightarrow> QuotaState \<Rightarrow> QuotaState \<times> bool" where
  "ObserveResponseHeadersForProvider provider headers observedAt q =
     (if \<not> ProviderSupportsQuotaObservation provider then ClearObservationSignals q
      else let next = collectQuotaSignals provider headers
           in if next = [] then (q, False)
              else (q\<lparr>quota_Signals := next, quota_ObservedAt := observedAt\<rparr>, True))"

section \<open>The snapshot is bounded and clean\<close>

lemma observe_keeps_cooldown [simp]:
  "quota_Exceeded (fst (ObserveResponseHeadersForProvider p h t q)) = quota_Exceeded q"
  "quota_Reason (fst (ObserveResponseHeadersForProvider p h t q)) = quota_Reason q"
  "quota_NextRecoverAt (fst (ObserveResponseHeadersForProvider p h t q)) = quota_NextRecoverAt q"
  "quota_BackoffLevel (fst (ObserveResponseHeadersForProvider p h t q)) = quota_BackoffLevel q"
  by (simp_all add: ObserveResponseHeadersForProvider_def ClearObservationSignals_def Let_def)

definition signals_ok :: "string \<Rightarrow> (string \<times> string) list \<Rightarrow> bool" where
  "signals_ok provider sig \<longleftrightarrow>
     wf_map sig \<and> length sig \<le> maxQuotaSignalHeaders \<and>
     (\<forall>(name, value) \<in> set sig. isQuotaSignalHeaderForProvider provider name \<and> validQuotaSignalValue value)"

lemma update_pairs:
  "wf_map m \<Longrightarrow> (n, x) \<in> set (AList.update k v m) \<longleftrightarrow> (if n = k then x = v else (n, x) \<in> set m)"
proof -
  assume m: "wf_map m"
  have "(n, x) \<in> set (AList.update k v m) \<longleftrightarrow> map_of (AList.update k v m) n = Some x"
    using m by (intro map_of_eq_Some_iff [symmetric] wf_map_update)
  also have "\<dots> \<longleftrightarrow> (if n = k then x = v else (n, x) \<in> set m)"
    using m by auto
  finally show ?thesis .
qed

lemma gatherSignals_inv:
  assumes "gatherSignals provider headers names vals = (names', vals')"
    and "distinct names" "set names = set (map fst vals)" "wf_map vals"
    and "\<forall>(n, v) \<in> set vals. isQuotaSignalHeaderForProvider provider n \<and> validQuotaSignalValue v"
  shows "distinct names' \<and> set names' = set (map fst vals') \<and> wf_map vals' \<and>
    (\<forall>(n, v) \<in> set vals'. isQuotaSignalHeaderForProvider provider n \<and> validQuotaSignalValue v)"
  using assms
proof (induction provider headers names vals rule: gatherSignals.induct)
  case (2 provider key headerValues headers names vals)
  define k where "k = CanonicalHeaderKey (trim_space key)"
  define v where "v = trim_space (last headerValues)"
  show ?case
  proof (cases "isQuotaSignalHeaderForProvider provider k \<and> headerValues \<noteq> [] \<and> validQuotaSignalValue v")
    case False
    with 2 show ?thesis by (auto simp: Let_def k_def v_def split: if_splits)
  next
    case True
    define ns where "ns = (if map_of vals k = None then names @ [k] else names)"
    have step: "gatherSignals provider headers ns (AList.update k v vals) = (names', vals')"
      using "2.prems"(1) True
      by (simp only: gatherSignals.simps Let_def k_def v_def ns_def simp_thms if_False)
    have ns: "distinct ns" "set ns = set (map fst (AList.update k v vals))"
      using "2.prems"(2,3) by (auto simp: ns_def map_of_eq_None_iff dom_update)
    have ok: "\<forall>(n, x) \<in> set (AList.update k v vals).
                isQuotaSignalHeaderForProvider provider n \<and> validQuotaSignalValue x"
      using "2.prems"(4,5) True by (auto simp: update_pairs split: if_splits)
    show ?thesis
      by (rule "2.IH"(3) [OF k_def _ v_def _ step [unfolded ns_def] _ _ _ ok])
        (use True ns "2.prems"(4) in \<open>simp_all add: ns_def\<close>)
  qed
qed simp


end
