(* ===== verification/Cooldown_Records.thy ===== *)
theory Cooldown_Records
  imports Mark_Result Quota_Signals
begin

text \<open>
  Cooldowns outside the credential: the records that are stored and compared
  (\<open>cooldown_state.go\<close>, \<open>conductor_cooldown.go\<close>), how a stored record is laid over a live state,
  how cooldowns are cleared, and the list of timers a credential shows (\<open>cooldown_view.go\<close>).
\<close>

section \<open>Records\<close>

record CooldownStateRecord =
  rec_Provider :: string
  rec_AuthID :: string
  rec_AuthFile :: string
  rec_Model :: string
  rec_Status :: string
  rec_NextRetryAfter :: time
  rec_Reason :: string
  rec_Quota :: QuotaState
  rec_LastError :: "AuthError option"
  rec_UpdatedAt :: time
  rec_IndependentState :: "ModelLayer option"
  rec_CredentialQuotaPropagated :: bool

definition cooldownAuthFile :: "Auth \<Rightarrow> string" where
  "cooldownAuthFile a =
     (let path = trim_space (get_or '''' (auth_Attributes a) ''path'')
      in if path \<noteq> '''' then path else trim_space (auth_FileName a))"

definition cooldownReason :: "string \<Rightarrow> QuotaState \<Rightarrow> AuthError option \<Rightarrow> string" where
  "cooldownReason statusMessage quota lastErr =
     (if trim_space (quota_Reason quota) \<noteq> '''' then trim_space (quota_Reason quota)
      else if trim_space statusMessage \<noteq> '''' then trim_space statusMessage
      else case lastErr of
             None \<Rightarrow> ''''
           | Some e \<Rightarrow> if trim_space (err_Code e) \<noteq> '''' then trim_space (err_Code e)
                       else trim_space (err_Message e))"

definition authCooldownStateRecord :: "Auth \<Rightarrow> time \<Rightarrow> CooldownStateRecord option" where
  "authCooldownStateRecord a now =
     (if \<not> auth_Unavailable a \<or> auth_NextRetryAfter a = 0 \<or> \<not> auth_NextRetryAfter a > now then None
      else Some \<lparr>rec_Provider = trim_space (auth_Provider a), rec_AuthID = auth_ID a,
                 rec_AuthFile = cooldownAuthFile a, rec_Model = '''', rec_Status = ''cooling'',
                 rec_NextRetryAfter = auth_NextRetryAfter a,
                 rec_Reason = cooldownReason (auth_StatusMessage a) (auth_Quota a) (auth_LastError a),
                 rec_Quota = cooldownFieldsOf (auth_Quota a), rec_LastError = auth_LastError a,
                 rec_UpdatedAt = auth_UpdatedAt a, rec_IndependentState = None,
                 rec_CredentialQuotaPropagated = False\<rparr>)"

definition modelCooldownStateRecord ::
    "Auth \<Rightarrow> string \<Rightarrow> ModelState option \<Rightarrow> time \<Rightarrow> CooldownStateRecord option" where
  "modelCooldownStateRecord a model0 state now =
     (let model = trim_space model0
      in case state of
           None \<Rightarrow> None
         | Some s \<Rightarrow>
             (if model = '''' \<or> \<not> ms_Unavailable s \<or> ms_NextRetryAfter s = 0 \<or> \<not> ms_NextRetryAfter s > now
              then None
              else Some \<lparr>rec_Provider = trim_space (auth_Provider a), rec_AuthID = auth_ID a,
                         rec_AuthFile = cooldownAuthFile a, rec_Model = model, rec_Status = ''cooling'',
                         rec_NextRetryAfter = ms_NextRetryAfter s,
                         rec_Reason = cooldownReason (ms_StatusMessage s) (ms_Quota s) (ms_LastError s),
                         rec_Quota = cooldownFieldsOf (ms_Quota s), rec_LastError = ms_LastError s,
                         rec_UpdatedAt = ms_UpdatedAt s,
                         rec_IndependentState = ms_credentialQuotaShadow s,
                         rec_CredentialQuotaPropagated = ms_credentialQuotaPropagated s\<rparr>))"

definition cooldownStateRecordsForAuth :: "CooldownEnv \<Rightarrow> Auth \<Rightarrow> time \<Rightarrow> CooldownStateRecord list" where
  "cooldownStateRecordsForAuth env a now =
     (if auth_ID a = '''' \<or> auth_Disabled a \<or> auth_Status a = StatusDisabled \<or> cooldownDisabledForAuth env a
      then []
      else sort_key rec_Model
             ((case authCooldownStateRecord a now of None \<Rightarrow> [] | Some r \<Rightarrow> [r]) @
              List.map_filter (\<lambda>(model, s). modelCooldownStateRecord a model s now) (auth_ModelStates a)))"

text \<open>The order of the whole snapshot: provider, then credential, then model.\<close>

definition cooldownStateRecordsSnapshot :: "CooldownEnv \<Rightarrow> Auth list \<Rightarrow> time \<Rightarrow> CooldownStateRecord list" where
  "cooldownStateRecordsSnapshot env auths now =
     sort_key rec_Provider (sort_key rec_AuthID (sort_key rec_Model
       (concat (map (\<lambda>a. cooldownStateRecordsForAuth env a now) auths))))"

definition cooldownQuotaEqual :: "QuotaState \<Rightarrow> QuotaState \<Rightarrow> bool" where
  "cooldownQuotaEqual a b \<longleftrightarrow>
     quota_Exceeded a = quota_Exceeded b \<and> quota_Reason a = quota_Reason b \<and>
     quota_BackoffLevel a = quota_BackoffLevel b \<and> quota_NextRecoverAt a = quota_NextRecoverAt b"

definition cooldownErrorEqual :: "AuthError option \<Rightarrow> AuthError option \<Rightarrow> bool" where
  "cooldownErrorEqual a b \<longleftrightarrow>
     (case (a, b) of
        (Some a, Some b) \<Rightarrow>
          err_Code a = err_Code b \<and> err_Message a = err_Message b \<and>
          err_Retryable a = err_Retryable b \<and> err_HTTPStatus a = err_HTTPStatus b
      | (None, None) \<Rightarrow> True
      | _ \<Rightarrow> False)"

definition cooldownIndependentStateEqual :: "ModelLayer option \<Rightarrow> ModelLayer option \<Rightarrow> bool" where
  "cooldownIndependentStateEqual a b \<longleftrightarrow>
     (case (a, b) of
        (Some a, Some b) \<Rightarrow>
          ms_Status a = ms_Status b \<and> ms_StatusMessage a = ms_StatusMessage b \<and>
          ms_Unavailable a = ms_Unavailable b \<and> ms_NextRetryAfter a = ms_NextRetryAfter b \<and>
          ms_UpdatedAt a = ms_UpdatedAt b \<and> cooldownQuotaEqual (ms_Quota a) (ms_Quota b) \<and>
          cooldownErrorEqual (ms_LastError a) (ms_LastError b)
      | (None, None) \<Rightarrow> True
      | _ \<Rightarrow> False)"

definition cooldownStateRecordEqual :: "CooldownStateRecord \<Rightarrow> CooldownStateRecord \<Rightarrow> bool" where
  "cooldownStateRecordEqual a b \<longleftrightarrow>
     rec_CredentialQuotaPropagated a = rec_CredentialQuotaPropagated b \<and>
     rec_Provider a = rec_Provider b \<and> rec_AuthID a = rec_AuthID b \<and> rec_AuthFile a = rec_AuthFile b \<and>
     rec_Model a = rec_Model b \<and> rec_Status a = rec_Status b \<and> rec_Reason a = rec_Reason b \<and>
     rec_NextRetryAfter a = rec_NextRetryAfter b \<and> rec_UpdatedAt a = rec_UpdatedAt b \<and>
     cooldownQuotaEqual (rec_Quota a) (rec_Quota b) \<and> cooldownErrorEqual (rec_LastError a) (rec_LastError b) \<and>
     cooldownIndependentStateEqual (rec_IndependentState a) (rec_IndependentState b)"

definition cooldownStateRecordsEqual :: "CooldownStateRecord list \<Rightarrow> CooldownStateRecord list \<Rightarrow> bool" where
  "cooldownStateRecordsEqual a b \<longleftrightarrow> list_all2 cooldownStateRecordEqual a b"

section \<open>Laying a record over a live credential\<close>

definition devinRecordErrorText :: "CooldownStateRecord \<Rightarrow> string" where
  "devinRecordErrorText rc =
     (case rec_LastError rc of
        Some e \<Rightarrow> if trim_space (err_Message e) \<noteq> '''' then err_Message e else ''''
      | None \<Rightarrow> '''')"

definition recordQuota :: "CooldownStateRecord \<Rightarrow> QuotaState" where
  "recordQuota rc =
     (if quota_Exceeded (rec_Quota rc) \<and> quota_NextRecoverAt (rec_Quota rc) = 0
      then (rec_Quota rc)\<lparr>quota_NextRecoverAt := rec_NextRetryAfter rc\<rparr> else rec_Quota rc)"

definition recordUpdatedAt :: "CooldownStateRecord \<Rightarrow> time \<Rightarrow> time" where
  "recordUpdatedAt rc now = (if rec_UpdatedAt rc = 0 then now else rec_UpdatedAt rc)"

text \<open>The state a record stands for.\<close>

definition recordState :: "CooldownStateRecord \<Rightarrow> time \<Rightarrow> ModelState" where
  "recordState rc now =
     (newModelState StatusError)
       \<lparr>ms_Unavailable := True, ms_StatusMessage := trim_space (rec_Reason rc),
        ms_NextRetryAfter := rec_NextRetryAfter rc, ms_Quota := recordQuota rc,
        ms_LastError := rec_LastError rc, ms_UpdatedAt := recordUpdatedAt rc now\<rparr>"

definition restoreAuthRecord :: "CooldownStateRecord \<Rightarrow> time \<Rightarrow> Auth \<Rightarrow> Auth" where
  "restoreAuthRecord rc now a =
     (let quota = recordQuota rc; reason = trim_space (rec_Reason rc)
      in a\<lparr>auth_Unavailable := True, auth_Status := StatusError,
           auth_NextRetryAfter := rec_NextRetryAfter rc,
           auth_Quota := mergeQuotaObservation (applyCooldownFields (auth_Quota a) quota) quota,
           auth_Generation := auth_Generation a + 1, auth_UpdatedAt := recordUpdatedAt rc now,
           auth_StatusMessage := (if reason \<noteq> '''' then reason else auth_StatusMessage a),
           auth_LastError := rec_LastError rc\<rparr>)"

text \<open>The state's own layer before the merge, when it has one.\<close>

definition liveShadow :: "time \<Rightarrow> ModelState \<Rightarrow> ModelLayer option" where
  "liveShadow now s =
     (case ms_credentialQuotaShadow s of
        Some shadow \<Rightarrow> Some shadow
      | None \<Rightarrow>
          if \<not> ms_credentialQuotaPropagated s \<and> quota_Reason (ms_Quota s) \<noteq> ''credential_quota'' \<and>
             isModelStateActiveCooldown now s \<and> \<not> isDevinQuotaExhaustionMessage (devinStateErrorText s)
          then Some (cloneShallow s) else None)"

definition isWrappedRecord :: "CooldownStateRecord \<Rightarrow> bool" where
  "isWrappedRecord rc \<longleftrightarrow>
     rec_IndependentState rc \<noteq> None \<or> rec_CredentialQuotaPropagated rc \<or>
     trim_space (quota_Reason (recordQuota rc)) = ''credential_quota''"

definition wasLiveWrapped :: "Auth \<Rightarrow> time \<Rightarrow> ModelState \<Rightarrow> bool" where
  "wasLiveWrapped a now s \<longleftrightarrow>
     ms_credentialQuotaPropagated s \<or> quota_Reason (ms_Quota s) = ''credential_quota'' \<or>
     credentialQuotaActive a now"

definition restoreUnderWrap :: "CooldownStateRecord \<Rightarrow> time \<Rightarrow> Auth \<Rightarrow> ModelLayer option \<Rightarrow> ModelState \<Rightarrow> ModelState" where
  "restoreUnderWrap rc now a live s =
     (let updatedAt = recordUpdatedAt rc now;
          s = (if isDevinQuotaExhaustionMessage (devinRecordErrorText rc) then s
               else s\<lparr>ms_credentialQuotaShadow :=
                 (if ms_credentialQuotaShadow s = None \<or>
                     (case live of Some l \<Rightarrow> \<not> ms_UpdatedAt l > updatedAt | None \<Rightarrow> False)
                  then Some (cloneShallow (recordState rc now))
                  else case live of
                         Some l \<Rightarrow> if ms_UpdatedAt l > updatedAt then Some l else ms_credentialQuotaShadow s
                       | None \<Rightarrow> ms_credentialQuotaShadow s)\<rparr>);
          recover = quota_NextRecoverAt (auth_Quota a)
      in s\<lparr>ms_credentialQuotaPropagated := True,
           ms_Quota := applyCooldownFields (ms_Quota s)
             (cooldownQuota True ''credential_quota'' recover (quota_BackoffLevel (auth_Quota a))),
           ms_NextRetryAfter := (if ms_NextRetryAfter s < recover then recover else ms_NextRetryAfter s),
           ms_Unavailable := True, ms_Status := StatusError\<rparr>)"

definition restoreWrapped :: "CooldownStateRecord \<Rightarrow> ModelLayer option \<Rightarrow> ModelState \<Rightarrow> ModelState" where
  "restoreWrapped rc live s =
     s\<lparr>ms_credentialQuotaPropagated := True,
       ms_credentialQuotaShadow :=
         (case (rec_IndependentState rc, live) of
            (Some i, None) \<Rightarrow> Some i
          | (Some i, Some l) \<Rightarrow> if \<not> ms_UpdatedAt l > ms_UpdatedAt i then Some i else Some l
          | (None, Some l) \<Rightarrow> Some l
          | (None, None) \<Rightarrow> ms_credentialQuotaShadow s)\<rparr>"

definition restoreModelRecord :: "CooldownStateRecord \<Rightarrow> time \<Rightarrow> Auth \<Rightarrow> Auth" where
  "restoreModelRecord rc now a0 =
     (case ensureModelState a0 (trim_space (rec_Model rc)) of
        (a, s) \<Rightarrow>
          (let live = liveShadow now s;
               merged = mergeStates s (recordState rc now);
               result = (if \<not> isWrappedRecord rc \<and> wasLiveWrapped a now s
                         then restoreUnderWrap rc now a live merged
                         else if isWrappedRecord rc then restoreWrapped rc live merged
                         else merged);
               a = set_state (canonicalModelKey (trim_space (rec_Model rc))) result a
           in updateAggregatedAvailability now
                (a\<lparr>auth_Generation := auth_Generation a + 1, auth_UpdatedAt := recordUpdatedAt rc now\<rparr>)))"

text \<open>\<open>None\<close> is the result \<open>false\<close>, which changes nothing.\<close>

definition restoreCooldownRecord :: "CooldownEnv \<Rightarrow> CooldownStateRecord \<Rightarrow> time \<Rightarrow> Auth \<Rightarrow> Auth option" where
  "restoreCooldownRecord env rc now a =
     (if rec_NextRetryAfter rc = 0 \<or> \<not> rec_NextRetryAfter rc > now then None
      else if auth_Disabled a \<or> auth_Status a = StatusDisabled \<or> cooldownDisabledForAuth env a \<or>
              hasUnauthorizedAuthFailure a
      then None
      else if trim_space (rec_Model rc) = '''' then Some (restoreAuthRecord rc now a)
      else Some (restoreModelRecord rc now a))"

section \<open>Clearing cooldowns\<close>

definition clearState :: "time \<Rightarrow> ModelState \<Rightarrow> ModelState \<times> bool" where
  "clearState now s =
     (if ms_Unavailable s \<or> ms_NextRetryAfter s \<noteq> 0 \<or> quota_Exceeded (ms_Quota s) \<or>
         quota_NextRecoverAt (ms_Quota s) \<noteq> 0 \<or> ms_credentialQuotaShadow s \<noteq> None \<or>
         ms_credentialQuotaPropagated s
      then (s\<lparr>ms_Unavailable := False, ms_NextRetryAfter := 0,
              ms_Quota := applyCooldownFields (ms_Quota s) emptyQuota, ms_credentialQuotaShadow := None,
              ms_credentialQuotaPropagated := False, ms_UpdatedAt := now\<rparr>, True)
      else (s, False))"

definition clearStates :: "time \<Rightarrow> (string \<times> ModelState option) list \<Rightarrow> (string \<times> ModelState option) list" where
  "clearStates now states = map (\<lambda>(model, s). (model, map_option (\<lambda>s. fst (clearState now s)) s)) states"

definition clearCooldownStateForAuth :: "time \<Rightarrow> Auth \<Rightarrow> Auth \<times> bool" where
  "clearCooldownStateForAuth now a0 =
     (if hasUnauthorizedAuthFailure a0 then (a0, False)
      else let own = (auth_Unavailable a0 \<or> auth_NextRetryAfter a0 \<noteq> 0 \<or> quota_Exceeded (auth_Quota a0) \<or>
                      quota_NextRecoverAt (auth_Quota a0) \<noteq> 0);
               a = (if own
                    then a0\<lparr>auth_Unavailable := False, auth_NextRetryAfter := 0,
                            auth_Quota := applyCooldownFields (auth_Quota a0) emptyQuota,
                            auth_UpdatedAt := now\<rparr>
                    else a0);
               changed = (own \<or> list_ex (\<lambda>(model, s). case s of None \<Rightarrow> False | Some s \<Rightarrow> snd (clearState now s))
                            (auth_ModelStates a0));
               a = a\<lparr>auth_ModelStates := clearStates now (auth_ModelStates a)\<rparr>;
               a = (if auth_ModelStates a \<noteq> [] then updateAggregatedAvailability now a else a)
           in (if changed then a\<lparr>auth_Generation := auth_Generation a + 1, auth_UpdatedAt := now\<rparr> else a, changed))"

fun dedupeLoop :: "string list \<Rightarrow> string list \<Rightarrow> string list" where
  "dedupeLoop seen [] = []"
| "dedupeLoop seen (v # vs) =
     (let value = trim_space v
      in if value = '''' \<or> value \<in> set seen then dedupeLoop seen vs
         else value # dedupeLoop (value # seen) vs)"

definition dedupeStrings :: "string list \<Rightarrow> string list" where
  "dedupeStrings vals = (if length vals < 2 then vals else dedupeLoop [] vals)"

text \<open>
  \<open>ResetQuota\<close> on the credential, with the canonical models the registry has for it; the result is
  the credential and the models that were reset.
\<close>

definition resetStates :: "time \<Rightarrow> (string \<times> ModelState option) list \<Rightarrow> (string \<times> ModelState option) list" where
  "resetStates now states =
     map (\<lambda>(model, s). (model, if trim_space model = '''' then s else map_option (resetModelState now) s)) states"

definition resetQuotaForAuth :: "time \<Rightarrow> string list \<Rightarrow> Auth \<Rightarrow> Auth \<times> string list" where
  "resetQuotaForAuth now registeredModels a0 =
     (let models = filter (\<lambda>k. trim_space k \<noteq> '''') (map fst (auth_ModelStates a0));
          a = a0\<lparr>auth_ModelStates := resetStates now (auth_ModelStates a0)\<rparr>;
          (a, changed) = clearCooldownStateForAuth now a;
          models = (if models = [] then registeredModels else models);
          a = (if \<not> changed \<and> auth_ModelStates a \<noteq> [] then updateAggregatedAvailability now a else a);
          a = (if \<not> auth_Disabled a \<and> auth_Status a \<noteq> StatusDisabled \<and> \<not> hasModelError a now \<and>
                  \<not> hasUnauthorizedAuthFailure a
               then a\<lparr>auth_LastError := None, auth_StatusMessage := '''', auth_Status := StatusActive\<rparr> else a)
      in (a\<lparr>auth_Generation := auth_Generation a + 1, auth_UpdatedAt := now\<rparr>, dedupeStrings models))"

end
