(* ===== verification/Cooldown_Manager.thy ===== *)
theory Cooldown_Manager
  imports Cooldown_Records
begin

text \<open>
  The manager's side of cooldowns: recording a result for a credential it holds, restoring stored
  records, resetting a quota and clearing the cooldowns a configuration disables, each with what it
  hands on to the scheduler, the registry, the store and the refresh loop.

  \<open>mgr_auths\<close> holds no nil; a \<open>mark_\<close> field that is false or empty means that nothing is handed on.
\<close>

section \<open>State\<close>

record Manager =
  mgr_auths :: "(string \<times> Auth) list"
  mgr_quotaFailureCounts :: "(string \<times> int) list"
  mgr_executionSeq :: nat
  mgr_hasStore :: bool

record MarkOutcome =
  mark_Result :: ExecResult
  mark_Snapshot :: "Auth option"
  mark_Targets :: "string list"
  mark_CredentialScoped :: bool
  mark_QuotaRefresh :: bool
  mark_PersistCooldowns :: bool
  mark_Reschedule :: bool

definition nextExecutionSeq :: "Manager \<Rightarrow> Manager \<times> nat" where
  "nextExecutionSeq m = (m\<lparr>mgr_executionSeq := mgr_executionSeq m + 1\<rparr>, mgr_executionSeq m + 1)"

definition put_auth :: "Auth \<Rightarrow> string \<Rightarrow> Manager \<Rightarrow> Manager" where
  "put_auth a i m = m\<lparr>mgr_auths := AList.update i a (mgr_auths m)\<rparr>"

section \<open>Results\<close>

definition selectionModelKeyForAuth :: "CooldownEnv \<Rightarrow> Auth \<Rightarrow> string \<Rightarrow> string" where
  "selectionModelKeyForAuth env a routeModel = canonicalModelKey (selectionModelForAuth env a routeModel)"

definition resultModelKey :: "CooldownEnv \<Rightarrow> ExecResult \<Rightarrow> Auth \<Rightarrow> string" where
  "resultModelKey env r a =
     (let modelKey = canonicalModelKey (res_Model r)
      in if modelKey = '''' \<and> trim_space (res_RouteModel r) \<noteq> ''''
         then (let selected = selectionModelKeyForAuth env a (res_RouteModel r)
               in if selected = '''' then canonicalModelKey (res_RouteModel r) else selected)
         else modelKey)"

definition countResult :: "ExecResult \<Rightarrow> Auth \<Rightarrow> Auth" where
  "countResult r a =
     (if res_Success r then a\<lparr>auth_Success := auth_Success a + 1\<rparr> else a\<lparr>auth_Failed := auth_Failed a + 1\<rparr>)"

definition countQuotaFailure :: "ExecResult \<Rightarrow> (string \<times> int) list \<Rightarrow> (string \<times> int) list \<times> bool" where
  "countQuotaFailure r counts =
     (if res_Success r
      then ((if res_CountTokens r then counts else AList.delete (res_AuthID r) counts), False)
      else if statusCodeFromResult (res_Error r) = 429
      then (let n = get_or 0 counts (res_AuthID r) + 1
            in (AList.update (res_AuthID r) n counts, n mod quotaRefreshFailureCount = 0))
      else (counts, False))"

definition observeQuota :: "CooldownEnv \<Rightarrow> ExecResult \<Rightarrow> string \<Rightarrow> time \<Rightarrow> Auth \<Rightarrow> Auth" where
  "observeQuota env r modelKey now a =
     (if res_SkipQuotaObservation r then a
      else let observe = (\<lambda>q. fst (ObserveResponseHeadersForProvider (res_Provider r) (responseHeaders env) now q));
               a = a\<lparr>auth_Quota := observe (auth_Quota a)\<rparr>
           in case existingModelState a modelKey of
                None \<Rightarrow> a
              | Some s \<Rightarrow> set_state (canonicalModelKey modelKey) (s\<lparr>ms_Quota := observe (ms_Quota s)\<rparr>) a)"

text \<open>
  What a result that is not stale does to its credential; the flag is whether a refresh after a
  refused token is to be scheduled.
\<close>

definition markAuth :: "CooldownEnv \<Rightarrow> ExecResult \<Rightarrow> time \<Rightarrow> nat \<Rightarrow> Auth \<Rightarrow> Auth \<times> bool" where
  "markAuth env r now seq a0 =
     (let modelKey = resultModelKey env r a0;
          a = countResult r a0;
          wasTerminalUnauthorized = hasUnauthorizedAuthFailure a;
          a = (if res_Success r then markSuccess r modelKey wasTerminalUnauthorized now a
               else markFailure env r modelKey wasTerminalUnauthorized now seq a);
          (a, refresh) = noteUnauthorized env r wasTerminalUnauthorized now a;
          a = a\<lparr>auth_Generation := auth_Generation a + 1, auth_UpdatedAt := now\<rparr>
      in (observeQuota env r modelKey now a, refresh))"

text \<open>What a stale result still does: a refused token is remembered, unless its epoch is over.\<close>

definition markStale :: "CooldownEnv \<Rightarrow> ExecResult \<Rightarrow> time \<Rightarrow> Auth \<Rightarrow> Auth" where
  "markStale env r now a =
     (if \<not> staleEpoch r a \<and> unauthorizedResult env r \<and> res_AccessToken r \<noteq> ''''
      then (case recordRejectedTokenOnAuth (res_AccessToken r) a of
              (a', changed) \<Rightarrow>
                (if changed then a'\<lparr>auth_Generation := auth_Generation a' + 1, auth_UpdatedAt := now\<rparr> else a'))
      else a)"

definition devinQuotaRevalidateInterval :: duration where "devinQuotaRevalidateInterval = go_hour"

definition devinQuotaRevalidateAt :: "Auth \<Rightarrow> time \<Rightarrow> time option" where
  "devinQuotaRevalidateAt a now =
     (if \<not> equal_fold (trim_space (auth_Provider a)) ''devin'' then None
      else if \<not> credentialQuotaActive a now then None
      else let since = (if auth_LastRefreshedAt a = 0 then quota_ObservedAt (auth_Quota a)
                        else auth_LastRefreshedAt a)
           in if since = 0 then Some now
              else if since + devinQuotaRevalidateInterval > quota_NextRecoverAt (auth_Quota a)
              then Some (quota_NextRecoverAt (auth_Quota a))
              else Some (since + devinQuotaRevalidateInterval))"

definition resultTargets :: "ExecResult \<Rightarrow> string \<Rightarrow> bool \<Rightarrow> string list" where
  "resultTargets r modelKey credentialScoped =
     (if credentialScoped \<or> modelKey = '''' then []
      else modelKey # (let routeKey = canonicalModelKey (res_RouteModel r)
                       in if routeKey \<noteq> '''' \<and> routeKey \<noteq> modelKey then [routeKey] else []))"

definition nothingMarked :: "ExecResult \<Rightarrow> MarkOutcome" where
  "nothingMarked r =
     \<lparr>mark_Result = r, mark_Snapshot = None, mark_Targets = [], mark_CredentialScoped = False,
      mark_QuotaRefresh = False, mark_PersistCooldowns = False, mark_Reschedule = False\<rparr>"

definition markResultFor :: "CooldownEnv \<Rightarrow> ExecResult \<Rightarrow> time \<Rightarrow> Manager \<Rightarrow> Manager \<times> MarkOutcome" where
  "markResultFor env r now m =
     (case map_of (mgr_auths m) (res_AuthID r) of
        None \<Rightarrow> (m, nothingMarked r)
      | Some a0 \<Rightarrow>
          (if isStaleExecutionResult r a0
           then (put_auth (markStale env r now a0) (res_AuthID r) m, nothingMarked r)
           else let (counts, notify) = countQuotaFailure r (mgr_quotaFailureCounts m);
                    (a, refresh) = markAuth env r now (mgr_executionSeq m) a0;
                    scoped = (res_CredentialScope r \<or> refresh);
                    changed = (mgr_hasStore m \<and>
                               \<not> cooldownStateRecordsEqual (cooldownStateRecordsForAuth env a0 now)
                                    (cooldownStateRecordsForAuth env a now))
                in ((put_auth a (res_AuthID r) m)\<lparr>mgr_quotaFailureCounts := counts\<rparr>,
                    \<lparr>mark_Result = r, mark_Snapshot = Some a,
                     mark_Targets = resultTargets r (resultModelKey env r a0) scoped,
                     mark_CredentialScoped = scoped, mark_QuotaRefresh = notify,
                     mark_PersistCooldowns = changed,
                     mark_Reschedule = (devinQuotaRevalidateAt a now \<noteq> None \<or> refresh)\<rparr>)))"

definition MarkResult :: "CooldownEnv \<Rightarrow> ExecResult \<Rightarrow> time \<Rightarrow> Manager \<Rightarrow> Manager \<times> MarkOutcome" where
  "MarkResult env r0 now m =
     (if res_AuthID r0 = '''' then (m, nothingMarked r0)
      else let r = (case resultPolicy env of None \<Rightarrow> r0 | Some policy \<Rightarrow> policy r0)
           in if res_AuthID r = '''' then (m, nothingMarked r) else markResultFor env r now m)"

definition recordAvailabilityNeutralResult :: "ExecResult \<Rightarrow> time \<Rightarrow> Manager \<Rightarrow> Manager" where
  "recordAvailabilityNeutralResult r now m =
     (if res_AuthID r = '''' then m
      else case map_of (mgr_auths m) (res_AuthID r) of
             None \<Rightarrow> m
           | Some a \<Rightarrow>
               (if isStaleExecutionResult r a then m
                else put_auth ((countResult r a)\<lparr>auth_Generation := auth_Generation a + 1, auth_UpdatedAt := now\<rparr>)
                       (res_AuthID r) m))"

definition stampResult :: "ExecResult \<Rightarrow> Auth option \<Rightarrow> ExecResult" where
  "stampResult r auth =
     (case auth of
        None \<Rightarrow> r
      | Some a \<Rightarrow>
          r\<lparr>res_CredentialVersion := (if res_CredentialVersion r = 0 then auth_CredentialVersion a
                                      else res_CredentialVersion r),
            res_RegistrationEpoch := (if res_RegistrationEpoch r = 0 then auth_RegistrationEpoch a
                                      else res_RegistrationEpoch r),
            res_AccessToken := (if res_AccessToken r = '''' then AccessToken a else res_AccessToken r)\<rparr>)"

definition recordExecutionResult ::
    "CooldownEnv \<Rightarrow> ExecResult \<Rightarrow> Auth option \<Rightarrow> bool \<Rightarrow> time \<Rightarrow> Manager \<Rightarrow> Manager \<times> MarkOutcome" where
  "recordExecutionResult env r auth ephemeral now m =
     (if ephemeral then (m, nothingMarked (stampResult r auth)) else MarkResult env (stampResult r auth) now m)"

section \<open>Restoring, resetting and clearing\<close>

definition restoreRecordLocked ::
    "CooldownEnv \<Rightarrow> time \<Rightarrow> CooldownStateRecord \<Rightarrow> Manager \<times> string list \<Rightarrow> Manager \<times> string list" where
  "restoreRecordLocked env now rc s =
     (case s of (m, restored) \<Rightarrow>
        (let authID = trim_space (rec_AuthID rc)
         in if authID = '''' then (m, restored)
            else case map_of (mgr_auths m) authID of
                   None \<Rightarrow> (m, restored)
                 | Some a \<Rightarrow>
                     (case restoreCooldownRecord env rc now a of
                        None \<Rightarrow> (m, restored)
                      | Some a' \<Rightarrow> (put_auth a' authID m, List.insert authID restored))))"

text \<open>Records of models come first, those of credentials after them.\<close>

definition RestoreCooldownStates ::
    "CooldownEnv \<Rightarrow> CooldownStateRecord list \<Rightarrow> time \<Rightarrow> Manager \<Rightarrow> Manager \<times> string list" where
  "RestoreCooldownStates env records now m =
     (if \<not> mgr_hasStore m then (m, [])
      else fold (restoreRecordLocked env now)
             (filter (\<lambda>rc. trim_space (rec_Model rc) \<noteq> '''') records @
              filter (\<lambda>rc. trim_space (rec_Model rc) = '''') records) (m, []))"

definition ResetQuota ::
    "CooldownEnv \<Rightarrow> string \<Rightarrow> string list \<Rightarrow> time \<Rightarrow> Manager \<Rightarrow> Manager \<times> (Auth \<times> string list \<times> bool) option" where
  "ResetQuota env authID0 registeredModels now m =
     (let authID = trim_space authID0
      in if authID = '''' then (m, None)
         else case map_of (mgr_auths m) authID of
                None \<Rightarrow> (m, None)
              | Some a0 \<Rightarrow>
                  (case resetQuotaForAuth now registeredModels a0 of
                     (a, models) \<Rightarrow>
                       (put_auth a authID m,
                        Some (a, models,
                          mgr_hasStore m \<and>
                          \<not> cooldownStateRecordsEqual (cooldownStateRecordsForAuth env a0 now)
                               (cooldownStateRecordsForAuth env a now)))))"

definition clearDisabledCooldownStates :: "CooldownEnv \<Rightarrow> CooldownConfig option \<Rightarrow> time \<Rightarrow> Manager \<Rightarrow> Manager \<times> string list" where
  "clearDisabledCooldownStates env cfg now m =
     (let clear = (\<lambda>a. quotaCooldownDisabledForAuthWithConfig env a cfg \<or> auth_Disabled a \<or>
                       auth_Status a = StatusDisabled);
          touched = filter (\<lambda>(i, a). clear a \<and> snd (clearCooldownStateForAuth now a)) (mgr_auths m)
      in (m\<lparr>mgr_auths := map (\<lambda>(i, a). (i, if clear a then fst (clearCooldownStateForAuth now a) else a))
            (mgr_auths m)\<rparr>, map fst touched))"

section \<open>Early restoration of a Devin credential\<close>

definition devinRemainingPercent :: "string \<Rightarrow> int option" where
  "devinRemainingPercent raw =
     (let s = trim_space raw;
          s = (if s \<noteq> '''' \<and> last s = CHR ''%'' then butlast s else s)
      in parse_int (trim_space s))"

definition devinQuotaObservationRestored :: "Auth \<Rightarrow> Auth \<Rightarrow> time \<Rightarrow> bool" where
  "devinQuotaObservationRestored a existing now \<longleftrightarrow>
     equal_fold (trim_space (auth_Provider existing)) ''devin'' \<and> credentialQuotaActive existing now \<and>
     (let observedAt = quota_ObservedAt (auth_Quota a);
          percent = (\<lambda>k. devinRemainingPercent (get_or '''' (quota_Signals (auth_Quota a)) k))
      in observedAt \<noteq> 0 \<and> \<not> observedAt > now \<and> observedAt > quota_ObservedAt (auth_Quota existing) \<and>
         \<not> (auth_UpdatedAt existing \<noteq> 0 \<and> observedAt < auth_UpdatedAt existing) \<and>
         (case (percent ''daily_quota_remaining_percent'', percent ''weekly_quota_remaining_percent'') of
            (Some daily, Some weekly) \<Rightarrow> 0 < daily \<and> 0 < weekly
          | _ \<Rightarrow> False))"

definition releaseState :: "time \<Rightarrow> ModelState \<Rightarrow> ModelState" where
  "releaseState now s =
     (let reason = trim_space (quota_Reason (ms_Quota s));
          wrapped = (ms_credentialQuotaPropagated s \<or> reason = ''credential_quota'')
      in if \<not> quota_Exceeded (ms_Quota s) \<or> (reason \<noteq> ''quota'' \<and> \<not> wrapped) then s
         else case ms_credentialQuotaShadow s of
                Some shadow \<Rightarrow> if isModelStateActiveCooldown now shadow
                               then (reinstate shadow)\<lparr>ms_UpdatedAt := now\<rparr> else resetModelState now s
              | None \<Rightarrow> resetModelState now s)"

definition applyDevinQuotaRestoration :: "Auth \<Rightarrow> Auth \<Rightarrow> time \<Rightarrow> Auth \<times> bool" where
  "applyDevinQuotaRestoration a0 existing now =
     (if \<not> devinQuotaObservationRestored a0 existing now then (a0, False)
      else if hasUnauthorizedAuthFailure existing then (a0, False)
      else let a = a0\<lparr>auth_Quota := applyCooldownFields (auth_Quota a0) emptyQuota,
                      auth_ModelStates := map (\<lambda>(model, s). (model, map_option (releaseState now) s))
                        (auth_ModelStates a0),
                      auth_Status := StatusActive, auth_StatusMessage := '''', auth_LastError := None,
                      auth_Unavailable := False, auth_NextRetryAfter := 0\<rparr>
           in (if auth_ModelStates a \<noteq> [] then updateAggregatedAvailability now a else a, True))"

section \<open>The registry's view of a credential\<close>

text \<open>\<open>clientModelProjectionForAuth\<close>, as a model, whether it is suspended, why, and its quota flag.\<close>

definition clientModelProjectionForAuth ::
    "CooldownEnv \<Rightarrow> Auth option \<Rightarrow> string \<Rightarrow> time \<Rightarrow> string \<times> bool \<times> string \<times> bool" where
  "clientModelProjectionForAuth env auth routeModel now =
     (let targetModel = trim_space routeModel
      in if targetModel = '''' then ('''', False, '''', False)
         else case auth of
                None \<Rightarrow> (targetModel, False, '''', False)
              | Some a \<Rightarrow>
                  (let selected = selectionModelKeyForAuth env a targetModel;
                       targetKey = (if selected = '''' then canonicalModelKey targetModel else selected);
                       state = existingModelState a targetKey;
                       suspended = (auth_Disabled a \<or> auth_Status a = StatusDisabled \<or> credentialQuotaActive a now);
                       suspended = (suspended \<or>
                         (case state of
                            None \<Rightarrow> False
                          | Some s \<Rightarrow> ms_Status s = StatusDisabled \<or> ms_Unavailable s \<or>
                                      (ms_NextRetryAfter s \<noteq> 0 \<and> ms_NextRetryAfter s > now)));
                       quotaExceeded =
                         (case state of
                            None \<Rightarrow> False
                          | Some s \<Rightarrow> quota_Exceeded (ms_Quota s) \<and>
                                      (quota_NextRecoverAt (ms_Quota s) = 0 \<or> quota_NextRecoverAt (ms_Quota s) > now));
                       reason = (case state of
                                   None \<Rightarrow> ''''
                                 | Some s \<Rightarrow> if suspended
                                             then cooldownReason (ms_StatusMessage s) (ms_Quota s) (ms_LastError s)
                                             else '''');
                       suspended = (suspended \<or>
                         (auth_ModelStates a = [] \<and> auth_Unavailable a \<and> auth_NextRetryAfter a > now));
                       reason = (if suspended \<and> reason = ''''
                                 then cooldownReason (auth_StatusMessage a) (auth_Quota a) (auth_LastError a)
                                 else reason)
                   in (targetModel, suspended, reason, quotaExceeded)))"

end
