(* ===== verification/Cooldown_View.thy ===== *)
theory Cooldown_View
  imports Cooldown
begin

text \<open>
  The timers of a credential as they are shown (\<open>sdk/cliproxy/auth/cooldown_view.go\<close>): one entry for
  the credential or its quota and one for every model that is waiting, with a reason taken from a
  fixed list.
\<close>

record CooldownView =
  view_Scope :: string
  view_ModelKey :: string
  view_Reason :: string
  view_RetryAt :: time
  view_RemainingSeconds :: int
  view_BackoffLevel :: "int option"
  view_HTTPStatus :: int

definition cooldownStatusReason :: "string \<Rightarrow> string" where
  "cooldownStatusReason message =
     (let m = trim_space message in
      if m = ''quota'' \<or> m = ''quota exhausted'' then ''quota''
      else if m = ''cloudflare challenge'' then ''cloudflare_challenge''
      else if m \<in> {''invalid_grant'', ''unauthorized'', ''payment_required'', ''not_found''} then m
      else if m = ''model_not_supported'' then ''model_not_supported''
      else if m = ''transient upstream error'' then ''transient_error''
      else ''unknown'')"

definition cooldownErrorReason :: "AuthError option \<Rightarrow> string" where
  "cooldownErrorReason err =
     (let status = statusCodeFromResult err in
      if isModelSupportResultError err then ''model_not_supported''
      else if isCloudflareChallengeResultError err then ''cloudflare_challenge''
      else if isInvalidGrantResultError err then ''invalid_grant''
      else if status = 401 then ''unauthorized''
      else if status = 402 \<or> status = 403 then ''payment_required''
      else if status = 404 then ''not_found''
      else if status = 429 then ''quota''
      else if status \<in> {408, 500, 502, 503, 504, 520, 521, 522, 523, 524, 525, 526} then ''transient_error''
      else case err of Some e \<Rightarrow> cooldownStatusReason (err_Code e) | None \<Rightarrow> ''unknown'')"

definition remainingSeconds :: "time \<Rightarrow> time \<Rightarrow> int" where
  "remainingSeconds next now =
     (let remaining = time_sub next now
      in go_div remaining go_second + (if remaining mod go_second \<noteq> 0 then 1 else 0))"

definition quotaViewReason :: "QuotaState \<Rightarrow> time \<Rightarrow> string" where
  "quotaViewReason quota next =
     (if quota_Exceeded quota \<and> (quota_NextRecoverAt quota = 0 \<or> \<not> quota_NextRecoverAt quota < next)
      then (if quota_Reason quota = ''credential_quota'' \<or> quota_Reason quota = ''quota'' then quota_Reason quota
            else if quota_Reason quota = ''cloudflare challenge'' then ''cloudflare_challenge''
            else ''unknown'')
      else ''unknown'')"

definition newCooldownView ::
    "string \<Rightarrow> string \<Rightarrow> time \<Rightarrow> time \<Rightarrow> QuotaState \<Rightarrow> string \<Rightarrow> AuthError option \<Rightarrow> CooldownView" where
  "newCooldownView scope model next now quota statusMessage lastErr =
     (let reason = quotaViewReason quota next;
          view = \<lparr>view_Scope = scope, view_ModelKey = model, view_Reason = reason, view_RetryAt = next,
                  view_RemainingSeconds = remainingSeconds next now, view_BackoffLevel = None,
                  view_HTTPStatus = 0\<rparr>
      in if reason = ''credential_quota'' then view
         else let level = (if (reason = ''quota'' \<or> reason = ''cloudflare_challenge'') \<and> 0 \<le> quota_BackoffLevel quota
                           then Some (quota_BackoffLevel quota) else None);
                  errorReason = cooldownErrorReason lastErr;
                  reason = (if reason = ''unknown'' then errorReason else reason);
                  reason = (if reason = ''unknown'' then cooldownStatusReason statusMessage else reason);
                  propagated = (quota_Exceeded quota \<and> quota_Reason quota = ''credential_quota'');
                  status = (case lastErr of
                              Some e \<Rightarrow> if \<not> propagated \<and> 400 \<le> err_HTTPStatus e \<and> err_HTTPStatus e \<le> 599 \<and>
                                          errorReason = reason
                                       then err_HTTPStatus e else 0
                            | None \<Rightarrow> 0)
              in view\<lparr>view_Reason := reason, view_BackoffLevel := level, view_HTTPStatus := status\<rparr>)"

definition stateTimer :: "time \<Rightarrow> ModelState \<Rightarrow> (blockReason \<times> time) option" where
  "stateTimer now s =
     (case availabilityBlock (ms_Unavailable s) (quota_Exceeded (ms_Quota s)) (ms_NextRetryAfter s)
             (quota_NextRecoverAt (ms_Quota s)) now of
        (blocked, reason, next) \<Rightarrow> if \<not> blocked \<or> \<not> next > now then None else Some (reason, next))"

text \<open>The loop over the sorted keys; the view kept for a model is the latest, a quota before another reason.\<close>

fun viewModels ::
    "time \<Rightarrow> Auth \<Rightarrow> string list \<Rightarrow> (string \<times> CooldownView \<times> blockReason) list \<Rightarrow>
     (string \<times> CooldownView \<times> blockReason) list" where
  "viewModels now a [] byModel = byModel"
| "viewModels now a (key # keys) byModel =
     (let model = canonicalModelKey key
      in case state_at a key of
           None \<Rightarrow> viewModels now a keys byModel
         | Some s \<Rightarrow>
             (if model = '''' then viewModels now a keys byModel
              else case stateTimer now s of
                     None \<Rightarrow> viewModels now a keys byModel
                   | Some (reason, next) \<Rightarrow>
                       (let view = newCooldownView ''model'' model next now (ms_Quota s) (ms_StatusMessage s)
                              (ms_LastError s);
                            keep = (case map_of byModel model of
                                      None \<Rightarrow> False
                                    | Some (previous, previousReason) \<Rightarrow>
                                        \<not> next > view_RetryAt previous \<and>
                                        \<not> (next = view_RetryAt previous \<and> reason = blockReasonCooldown \<and>
                                           previousReason \<noteq> blockReasonCooldown))
                        in viewModels now a keys
                             (if keep then byModel else AList.update model (view, reason) byModel))))"

definition credentialView :: "time \<Rightarrow> Auth \<Rightarrow> CooldownView list" where
  "credentialView now a =
     (if credentialQuotaActive a now
      then [newCooldownView ''credential'' '''' (quota_NextRecoverAt (auth_Quota a)) now (auth_Quota a)
              (auth_StatusMessage a) (auth_LastError a)]
      else if auth_ModelStates a = []
      then (case availabilityBlock (auth_Unavailable a) (quota_Exceeded (auth_Quota a)) (auth_NextRetryAfter a)
                   (quota_NextRecoverAt (auth_Quota a)) now of
              (blocked, reason, next) \<Rightarrow>
                (if blocked \<and> next > now
                 then [newCooldownView ''credential'' '''' next now (auth_Quota a) (auth_StatusMessage a)
                         (auth_LastError a)]
                 else []))
      else [])"

definition CooldownSnapshotForAuth :: "Auth \<Rightarrow> time \<Rightarrow> CooldownView list" where
  "CooldownSnapshotForAuth a now =
     (let byModel = viewModels now a (sort (map fst (auth_ModelStates a))) []
      in credentialView now a @
         map (\<lambda>model. case map_of byModel model of Some (view, _) \<Rightarrow> view
                       | None \<Rightarrow> newCooldownView ''model'' model 0 0 emptyQuota '''' None)
           (sort (map fst byModel)))"

end
