(* ===== verification/Cooldown_Facts.thy ===== *)
theory Cooldown_Facts
  imports Cooldown_Manager Cooldown_View
begin

text \<open>
  What the cooldown operations guarantee, one operation at a time: the ladder of quota cooldowns, the
  summary of the models in the credential, the map of states under normalisation, and what a failure,
  a success and a restored record make of a state.
\<close>

section \<open>The ladder of quota cooldowns\<close>

definition rung :: "nat \<Rightarrow> duration" where
  "rung n = min (2 ^ n * go_second) quotaBackoffMax"

lemma nextQuotaCooldown_rung:
  assumes "n \<le> 33"
  shows "nextQuotaCooldown (int n) False = (rung n, if n < 11 then int n + 1 else int n)"
proof -
  have le: "(2 :: int) ^ n \<le> 2 ^ 33" using assms by (intro power_increasing) simp_all
  have one: "(1 :: int) \<le> 2 ^ n" by simp
  have "int64 p \<and> int64 (p * 1000000000)" if "1 \<le> p" "p \<le> 2 ^ 33" for p :: int
    using that by (simp add: int64_def)
  from this [OF one le] have "int64 (2 ^ n)" "int64 (2 ^ n * 1000000000)" by simp_all
  then have w: "wrap64 (2 ^ n) = 2 ^ n" "wrap64 (quotaBackoffBase * 2 ^ n) = 2 ^ n * go_second"
    by (simp_all add: quotaBackoffBase_def mult.commute)
  have "11 \<le> n \<Longrightarrow> (2 :: int) ^ 11 \<le> 2 ^ n" by (intro power_increasing) simp_all
  moreover have "n \<le> 10 \<Longrightarrow> (2 :: int) ^ n \<le> 2 ^ 10" by (intro power_increasing) simp_all
  ultimately have "n < 11 \<longleftrightarrow> \<not> quotaBackoffMax \<le> 2 ^ n * go_second"
    by (cases "n < 11") (auto simp: quotaBackoffMax_def)
  moreover have "(2 :: int) ^ n < 1 \<longleftrightarrow> False" by (simp add: not_less)
  ultimately show ?thesis using w assms
    by (auto simp: nextQuotaCooldown_def shift_one_def rung_def quotaBackoffBase_def Let_def)
qed

lemma rung_pos: "0 < rung n" and rung_le: "rung n \<le> 30 * go_minute"
  by (simp_all add: rung_def quotaBackoffMax_def)

lemma quotaCooldownAfterFailure_open:
  "quota_NextRecoverAt q > now \<Longrightarrow> quotaCooldownAfterFailure q now = (quota_NextRecoverAt q, quota_BackoffLevel q)"
  by (simp add: quotaCooldownAfterFailure_def)

lemma quotaCooldownAfterFailure_closed:
  assumes "quota_NextRecoverAt q \<le> now" "quota_BackoffLevel q = int n" "n \<le> 33"
  shows "quotaCooldownAfterFailure q now = (now + rung n, if n < 11 then int n + 1 else int n)"
  using assms nextQuotaCooldown_rung [OF assms(3)] rung_pos [of n]
  by (simp add: quotaCooldownAfterFailure_def)

lemma rung_power: "n < 11 \<Longrightarrow> rung n = 2 ^ n * go_second" "11 \<le> n \<Longrightarrow> rung n = quotaBackoffMax"
proof -
  assume "n < 11"
  then have "(2 :: int) ^ n \<le> 2 ^ 10" by (intro power_increasing) simp_all
  then show "rung n = 2 ^ n * go_second" by (simp add: rung_def quotaBackoffMax_def)
next
  assume "11 \<le> n"
  then have "(2 :: int) ^ 11 \<le> 2 ^ n" by (intro power_increasing) simp_all
  then show "rung n = quotaBackoffMax" by (simp add: rung_def quotaBackoffMax_def)
qed

text \<open>
  Rate limits without a hint at the given times, as the code lays them over a quota; and how many of
  them found the previous window closed.
\<close>

definition rateLimited :: "time \<Rightarrow> QuotaState \<Rightarrow> QuotaState" where
  "rateLimited t q = (case rateLimitNext q None (quota_BackoffLevel q) t of
     (next, level) \<Rightarrow> applyCooldownFields q (cooldownQuota True ''quota'' next level))"

fun windowsOpened :: "time list \<Rightarrow> QuotaState \<Rightarrow> nat" where
  "windowsOpened [] q = 0"
| "windowsOpened (t # ts) q =
     (if quota_NextRecoverAt q \<le> t then 1 else 0) + windowsOpened ts (rateLimited t q)"

lemma rateLimited_level:
  assumes "quota_BackoffLevel q = int (min 11 n)"
  shows "quota_BackoffLevel (rateLimited t q) = int (min 11 (n + (if quota_NextRecoverAt q \<le> t then 1 else 0)))"
  using assms quotaCooldownAfterFailure_closed [of q t "min 11 n"] quotaCooldownAfterFailure_open [of t q]
  by (cases "quota_NextRecoverAt q \<le> t") (auto simp: rateLimited_def rateLimitNext_def)

lemma ladder_level:
  "quota_BackoffLevel q = int (min 11 n) \<Longrightarrow>
     quota_BackoffLevel (fold rateLimited ts q) = int (min 11 (n + windowsOpened ts q))"
proof (induction ts arbitrary: q n)
  case (Cons t ts)
  from Cons.IH [OF rateLimited_level [OF Cons.prems, of t]] show ?case by (simp add: add.assoc)
qed simp

text \<open>
  (C11) The ladder of quota cooldowns. However the rate limits of a model fall in time, the next
  one waits for what is left of the window that is open, or, when none is, for the rung the closed
  windows have reached: one second, doubled for every window that was opened before and never
  more than half an hour. A burst inside one window climbs no rung.
\<close>

theorem backoff_ladder:
  assumes "quota_BackoffLevel q = 0"
  shows "quota_NextRecoverAt (fold rateLimited (ts @ [t]) q) =
     (let before = quota_NextRecoverAt (fold rateLimited ts q)
      in if t < before then before else t + min (2 ^ windowsOpened ts q * go_second) (30 * go_minute))"
proof -
  define n where "n = windowsOpened ts q"
  have level: "quota_BackoffLevel (fold rateLimited ts q) = int (min 11 n)"
    using ladder_level [of q 0 ts] assms by (simp add: n_def)
  have "rung (min 11 n) = rung n"
    by (cases "n < 11") (simp_all add: rung_power(2))
  then show ?thesis
    using quotaCooldownAfterFailure_closed [OF _ level, of t]
      quotaCooldownAfterFailure_open [of t "fold rateLimited ts q"]
    by (auto simp: Let_def rateLimited_def rateLimitNext_def n_def rung_def quotaBackoffMax_def)
qed

theorem backoff_ladder_witness:
  "quota_NextRecoverAt (fold rateLimited ([0, 500000000, 1000000000, 3000000000] @ [7000000000]) emptyQuota) = 15000000000"
proof -
  let ?ts = "[0, 500000000, 1000000000, 3000000000] :: time list"
  have "quota_NextRecoverAt (fold rateLimited ?ts emptyQuota) = 7000000000" "windowsOpened ?ts emptyQuota = 3"
    by code_simp+
  with backoff_ladder [of emptyQuota ?ts 7000000000] show ?thesis by (simp add: Let_def)
qed

text \<open>A level the ladder cannot reach, as a damaged record may hold, wraps around to one second.\<close>

lemma ladder_wraps: "nextQuotaCooldown 34 False = (go_second, 35)"
  by (simp add: nextQuotaCooldown_def shift_one_def wrap64_def quotaBackoffBase_def quotaBackoffMax_def)

section \<open>The map of states\<close>

lemma state_at_iff: "state_at a k = Some s \<longleftrightarrow> map_of (auth_ModelStates a) k = Some (Some s)"
  by (simp add: state_at_def split: option.splits)

lemma state_at_set [simp]: "state_at (set_state k s a) k' = (if k' = k then Some s else state_at a k')"
  by (simp add: state_at_def set_state_def)

lemma set_state_fields [simp]:
  "auth_Quota (set_state k s a) = auth_Quota a" "auth_Disabled (set_state k s a) = auth_Disabled a"
  "auth_Status (set_state k s a) = auth_Status a" "auth_Unavailable (set_state k s a) = auth_Unavailable a"
  "auth_LastError (set_state k s a) = auth_LastError a"
  "auth_NextRefreshAfter (set_state k s a) = auth_NextRefreshAfter a"
  "auth_NextRetryAfter (set_state k s a) = auth_NextRetryAfter a"
  "auth_cooldownRecordedSeq (set_state k s a) = auth_cooldownRecordedSeq a"
  "AccessTokenExpiration (set_state k s a) = AccessTokenExpiration a"
  "auth_Generation (set_state k s a) = auth_Generation a" "auth_ID (set_state k s a) = auth_ID a"
  by (simp_all add: set_state_def)

lemma map_of_other:
  "map_of (map (\<lambda>(m, s). (m, if m = k then s else h s)) xs) k' =
     (if k' = k then map_of xs k' else map_option h (map_of xs k'))"
  by (induction xs) auto

lemma state_at_siblings:
  "state_at (mapSiblings k f a) k' = (if k' = k then state_at a k' else map_option f (state_at a k'))"
  by (simp add: state_at_def mapSiblings_def map_of_other split: option.splits)

lemma state_at_expire:
  "state_at (a\<lparr>auth_ModelStates := expireStates now (auth_ModelStates a)\<rparr>) k = map_option (expireState now) (state_at a k)"
  by (simp add: state_at_def expireStates_def map_of_map split: option.splits)

lemma ensureModelState_at:
  assumes "ensureModelState a model = (a', s)"
  shows "state_at a' (canonicalModelKey model) = Some s"
  using assms by (auto simp: ensureModelState_def Let_def split: option.splits)

lemma normalize_fields [simp]:
  "auth_Quota (normalizeModelStates a) = auth_Quota a" "auth_Disabled (normalizeModelStates a) = auth_Disabled a"
  "auth_Status (normalizeModelStates a) = auth_Status a" "auth_Metadata (normalizeModelStates a) = auth_Metadata a"
  "auth_LastError (normalizeModelStates a) = auth_LastError a"
  "auth_Unavailable (normalizeModelStates a) = auth_Unavailable a"
  "auth_NextRefreshAfter (normalizeModelStates a) = auth_NextRefreshAfter a"
  "auth_NextRetryAfter (normalizeModelStates a) = auth_NextRetryAfter a"
  "AccessTokenExpiration (normalizeModelStates a) = AccessTokenExpiration a"
  "auth_Generation (normalizeModelStates a) = auth_Generation a" "auth_ID (normalizeModelStates a) = auth_ID a"
  by (simp_all add: normalizeModelStates_def split: prod.splits)

lemma ensure_fields:
  assumes "ensureModelState a model = (a', s)"
  shows "auth_Quota a' = auth_Quota a" "auth_Disabled a' = auth_Disabled a" "auth_Status a' = auth_Status a"
    "auth_LastError a' = auth_LastError a" "auth_Unavailable a' = auth_Unavailable a"
    "auth_NextRefreshAfter a' = auth_NextRefreshAfter a" "auth_NextRetryAfter a' = auth_NextRetryAfter a"
    "AccessTokenExpiration a' = AccessTokenExpiration a" "auth_Generation a' = auth_Generation a"
    "auth_ID a' = auth_ID a"
  using assms by (auto simp: ensureModelState_def Let_def split: option.splits)

lemma hasUnauthorized_cong:
  assumes "auth_LastError a = auth_LastError b" "auth_Unavailable a = auth_Unavailable b"
    "auth_Status a = auth_Status b" "auth_NextRefreshAfter a = auth_NextRefreshAfter b"
    "auth_NextRetryAfter a = auth_NextRetryAfter b"
  shows "hasUnauthorizedAuthFailure a = hasUnauthorizedAuthFailure b"
  unfolding hasUnauthorizedAuthFailure_def assms ..

lemma credentialQuotaActive_cong: "auth_Quota a = auth_Quota b \<Longrightarrow> credentialQuotaActive a t = credentialQuotaActive b t"
  by (simp add: credentialQuotaActive_def)

lemma aggregate_fields [simp]:
  "auth_Disabled (updateAggregatedAvailability now a) = auth_Disabled a"
  "auth_Status (updateAggregatedAvailability now a) = auth_Status a"
  "auth_LastError (updateAggregatedAvailability now a) = auth_LastError a"
  "auth_NextRefreshAfter (updateAggregatedAvailability now a) = auth_NextRefreshAfter a"
  "AccessTokenExpiration (updateAggregatedAvailability now a) = AccessTokenExpiration a"
  "auth_Generation (updateAggregatedAvailability now a) = auth_Generation a"
  "auth_ID (updateAggregatedAvailability now a) = auth_ID a"
  by (simp_all add: updateAggregatedAvailability_def clearAggregatedAvailability_def Let_def)

text \<open>The summary touches a state only where its deadline has passed.\<close>

lemma state_at_aggregate:
  "state_at (updateAggregatedAvailability now a) k =
     (if hasUnauthorizedAuthFailure a \<or> credentialQuotaActive a now then state_at a k
      else map_option (expireState now) (state_at a k))"
  using state_at_expire [where a = a and now = now and k = k]
  by (auto simp: updateAggregatedAvailability_def clearAggregatedAvailability_def Let_def state_at_def)

lemma expireState_live: "ms_NextRetryAfter s > now \<Longrightarrow> expireState now s = s"
  by (simp add: expireState_def)

lemma aggregate_keeps_live:
  assumes "state_at a k = Some s" "ms_NextRetryAfter s > now"
  shows "state_at (updateAggregatedAvailability now a) k = Some s"
  using assms by (simp add: state_at_aggregate expireState_live)

text \<open>A state that waits blocks every model that goes by its key.\<close>

lemma blocked_by_state:
  assumes "state_at a k = Some s" "canonicalModelKey k = canonicalModelKey model" "model \<noteq> ''''" "0 \<le> t"
    and "hardBlock s \<or> tempBlock t s"
  shows "fst (isAuthBlockedForModel a model t)"
proof -
  have "(k, Some s) \<in> set (auth_ModelStates a)"
    using assms(1) by (simp add: state_at_iff map_of_SomeD)
  then have "s \<in> relevantStates a model"
    using assms(2,3) by (auto simp: relevantStates_def matchingStates_def)
  with assms(4,5) have "fst (modelBlock a model t)" by (auto simp: modelBlock_iff)
  then show ?thesis by (auto simp: isAuthBlockedForModel_def)
qed

lemma waiting_blocks: "ms_Unavailable s \<Longrightarrow> t < ms_NextRetryAfter s \<Longrightarrow> hardBlock s \<or> tempBlock t s"
  by (auto simp: hardBlock_def tempBlock_def blockedUntil_def)

text \<open>A credential quota blocks every model.\<close>

lemma credential_quota_blocks: "credentialQuotaActive a t \<Longrightarrow> fst (isAuthBlockedForModel a model t)"
  by (simp add: isAuthBlockedForModel_def)

section \<open>A failure of a model\<close>

lemma nextQuotaCooldown_pos: "0 < fst (nextQuotaCooldown l False)"
  by (simp add: nextQuotaCooldown_def Let_def quotaBackoffBase_def quotaBackoffMax_def)

lemma quotaCooldownAfterFailure_later: "now < fst (quotaCooldownAfterFailure q now)"
  using nextQuotaCooldown_pos [of "quota_BackoffLevel q"]
  by (auto simp: quotaCooldownAfterFailure_def split: prod.splits)

lemma rateLimitNext_later: "now < fst (rateLimitNext q hint l now)"
  using quotaCooldownAfterFailure_later [of now q]
  by (auto simp: rateLimitNext_def minQuotaCooldownFloor_def split: option.splits)

lemma nextCloudflareCooldown_later: "now < fst (nextCloudflareCooldown l False now)"
  by (auto simp: nextCloudflareCooldown_def Let_def split: prod.splits)

lemma halfHour_later: "now < halfHourCooldown now False" and hinted_later: "now < hintedCooldown now hint False"
  by (auto simp: halfHourCooldown_def hintedCooldown_def split: option.splits)

text \<open>The settings leave transient errors their cooldown.\<close>

definition transient_cooling :: "CooldownEnv \<Rightarrow> bool" where
  "transient_cooling env \<longleftrightarrow>
     0 \<le> transientErrorCooldownSeconds env \<and> transientErrorCooldownSeconds env \<le> 9000000000"

lemma recoverable_later:
  assumes "transient_cooling env"
  shows "now < recoverableFailureRetryAfterWithHint env now hint False"
    "now < recoverableFailureRetryAfter env now False"
proof -
  have "wrap64 (transientErrorCooldownSeconds env * go_second) = transientErrorCooldownSeconds env * go_second"
    using assms by (intro wrap64_id) (simp add: transient_cooling_def int64_def)
  with assms show "now < recoverableFailureRetryAfterWithHint env now hint False"
    "now < recoverableFailureRetryAfter env now False"
    by (auto simp: recoverableFailureRetryAfter_def recoverableFailureRetryAfterWithHint_def
        transient_cooling_def transientErrorCooldown_def Let_def split: option.splits)
qed

lemma modelRateLimit_later:
  "modelRateLimit r False now a s = (next, cnext, level) \<Longrightarrow> now < cnext \<and> cnext \<le> next"
  using rateLimitNext_later
  by (auto simp: modelRateLimit_def Let_def split: prod.splits if_splits) (metis fst_conv)+

lemma cloudflareModel_fields:
  "ms_NextRetryAfter (cloudflareModel now d s) = fst (nextCloudflareCooldown (quota_BackoffLevel (ms_Quota s)) d now)"
  "ms_Unavailable (cloudflareModel now d s) = ms_Unavailable s" "ms_Status (cloudflareModel now d s) = ms_Status s"
  by (simp_all add: cloudflareModel_def split: prod.splits)

lemma shadowOfReporter_fields [simp]:
  "ms_NextRetryAfter (shadowOfReporter r now saved prev s) = ms_NextRetryAfter s"
  "ms_Unavailable (shadowOfReporter r now saved prev s) = ms_Unavailable s"
  "ms_Status (shadowOfReporter r now saved prev s) = ms_Status s"
  "ms_Quota (shadowOfReporter r now saved prev s) = ms_Quota s"
  by (simp_all add: shadowOfReporter_def)

text \<open>What a counting failure makes of the state, when cooldowns are enabled.\<close>

lemma rateLimitModel_later:
  assumes "rateLimitModel r False w now k saved prev a s = (a', s')"
  shows "now < ms_NextRetryAfter s' \<and> ms_Unavailable s' = ms_Unavailable s \<and> ms_Status s' = ms_Status s"
proof -
  obtain nxt cnext level where m: "modelRateLimit r False now a s = (nxt, cnext, level)"
    by (metis prod_cases3)
  then have "now < nxt" using modelRateLimit_later [OF m] by simp
  with assms show ?thesis by (auto simp: rateLimitModel_def m Let_def split: if_splits)
qed

lemma modelFailureBranch_later:
  assumes "modelFailureBranch env r False w now k saved prev a s = (a', s')" "transient_cooling env"
    "ms_Unavailable s" "0 \<le> now"
  shows "now < ms_NextRetryAfter s' \<and> ms_Unavailable s' \<and> ms_Status s' = ms_Status s"
proof -
  note later = halfHour_later [of now] hinted_later [of now "res_RetryAfter r"]
    nextCloudflareCooldown_later [of now "quota_BackoffLevel (ms_Quota s)"]
    recoverable_later [OF assms(2), of now]
  have nz: "recoverableFailureRetryAfterWithHint env now (res_RetryAfter r) False \<noteq> 0"
      "recoverableFailureRetryAfter env now False \<noteq> 0"
    using later(4) [of "res_RetryAfter r"] later(5) assms(4) by auto
  show ?thesis
    using assms(1,3) later nz
    by (auto simp: modelFailureBranch_def cloudflareModel_fields Let_def dest: rateLimitModel_later
        split: if_splits)
qed

lemma modelFailureBranch_credential:
  assumes "modelFailureBranch env r d w now k saved prev a s = (a', s')"
  shows "auth_Disabled a' = auth_Disabled a \<and> AccessTokenExpiration a' = AccessTokenExpiration a \<and>
    state_at a' k = state_at a k"
  using assms
  by (auto simp: modelFailureBranch_def rateLimitModel_def coverCredential_def Let_def state_at_siblings
      mapSiblings_def split: if_splits prod.splits)
    (simp_all add: state_at_def map_of_other)

lemma settleModel_later:
  assumes "now < ms_NextRetryAfter s" "0 \<le> now"
  shows "ms_NextRetryAfter (settleModel r d now prev s) =
           (if prev > now then max prev (ms_NextRetryAfter s) else ms_NextRetryAfter s)"
    "ms_Unavailable (settleModel r d now prev s) = ms_Unavailable s"
    "ms_Status (settleModel r d now prev s) = ms_Status s"
  using assms by (auto simp: settleModel_def Let_def max_def)

lemma markFailed_fields [simp]:
  "ms_Unavailable (markFailed r now s)" "ms_Status (markFailed r now s) = StatusError"
  "ms_NextRetryAfter (markFailed r now s) = ms_NextRetryAfter s" "ms_Quota (markFailed r now s) = ms_Quota s"
  by (simp_all add: markFailed_def Let_def split: option.splits)

lemma noteError_fields [simp]:
  "auth_Quota (noteError e w a) = auth_Quota a" "auth_ModelStates (noteError e w a) = auth_ModelStates a"
  "auth_Disabled (noteError e w a) = auth_Disabled a" "auth_Status (noteError e w a) = auth_Status a"
  "auth_Unavailable (noteError e w a) = auth_Unavailable a"
  "AccessTokenExpiration (noteError e w a) = AccessTokenExpiration a"
  by (simp_all add: noteError_def split: option.splits)

lemma layer_sel [simp]:
  "ms_NextRetryAfter (cloneShallow s) = ms_NextRetryAfter s" "ms_Quota (cloneShallow s) = ms_Quota s"
  "ms_Status (cloneShallow s) = ms_Status s" "ms_Unavailable (cloneShallow s) = ms_Unavailable s"
  "ms_LastError (cloneShallow s) = ms_LastError s" "ms_StatusMessage (cloneShallow s) = ms_StatusMessage s"
  "ms_UpdatedAt (cloneShallow s) = ms_UpdatedAt s"
  "ms_credentialQuotaPropagated (cloneShallow s) = ms_credentialQuotaPropagated s"
  "ms_NextRetryAfter (reinstate l) = ms_NextRetryAfter l" "ms_Quota (reinstate l) = ms_Quota l"
  "ms_Status (reinstate l) = ms_Status l" "ms_Unavailable (reinstate l) = ms_Unavailable l"
  "ms_LastError (reinstate l) = ms_LastError l" "ms_StatusMessage (reinstate l) = ms_StatusMessage l"
  "ms_UpdatedAt (reinstate l) = ms_UpdatedAt l"
  "ms_cooldownRecordedSeq (reinstate l) = ms_cooldownRecordedSeq l"
  by (simp_all add: cloneShallow_def reinstate_def ModelLayer.defs)

lemma composeLayers_fields:
  "ms_NextRetryAfter (composeLayers now seq a saved s) =
     max (max (ms_NextRetryAfter s) (ms_NextRetryAfter saved)) (quota_NextRecoverAt (auth_Quota a))"
  "ms_Unavailable (composeLayers now seq a saved s)" "ms_Status (composeLayers now seq a saved s) = StatusError"
  "ms_cooldownRecordedSeq (composeLayers now seq a saved s) = seq"
  by (auto simp: composeLayers_def Let_def max_def)

text \<open>
  The state of the model after the whole handler: it waits until a later moment than \<open>now\<close>, no
  earlier than the deadline that was still live, and it carries the sequence number.
\<close>

lemma modelFailure_state:
  assumes "transient_cooling env" "0 \<le> now" "\<not> disableCoolingFor env (res_Error r) a0"
    and ens: "ensureModelState a0 modelKey = (a1, s1)" and k: "k = canonicalModelKey modelKey"
  obtains s where "state_at (modelFailure env r w now seq modelKey a0) k = Some s"
    "now < ms_NextRetryAfter s" "ms_Unavailable s" "ms_Status s = StatusError" "ms_cooldownRecordedSeq s = seq"
    "ms_NextRetryAfter (unwrapExpired a1 now s1) > now \<Longrightarrow>
       ms_NextRetryAfter (unwrapExpired a1 now s1) \<le> ms_NextRetryAfter s"
proof -
  define s2 where "s2 = unwrapExpired a1 now s1"
  define pending where "pending = ownLayerPending r a1 now"
  define s3 where "s3 = (if pending then ownLayer s2 else s2)"
  define a4 where "a4 = noteError (res_Error r) w a1"
  obtain a5 s5 where b: "modelFailureBranch env r False w now k (cloneShallow s2) (ms_NextRetryAfter s3) a4
      (markFailed r now s3) = (a5, s5)" by fastforce
  define s6 where "s6 = (settleModel r False now (ms_NextRetryAfter s3) s5)\<lparr>ms_cooldownRecordedSeq := seq\<rparr>"
  define s7 where "s7 = (if pending then composeLayers now seq a5 (cloneShallow s2) s6 else s6)"
  define a8 where "a8 = (if res_CredentialScope r \<and> statusCodeFromResult (res_Error r) = 429
      then mapSiblings k (\<lambda>other. other\<lparr>ms_cooldownRecordedSeq := seq\<rparr>)
             ((set_state k s7 a5)\<lparr>auth_cooldownRecordedSeq := seq\<rparr>)
      else set_state k s7 a5)"
  have dis: "disableCoolingFor env (res_Error r) a0 = False" using assms(3) by simp
  have eq: "modelFailure env r w now seq modelKey a0 = updateAggregatedAvailability now (a8\<lparr>auth_Status := StatusError\<rparr>)"
    unfolding modelFailure_def Let_def ens prod.case k [symmetric] dis s2_def [symmetric] pending_def [symmetric]
      s3_def [symmetric] a4_def [symmetric] b s6_def [symmetric] s7_def [symmetric] a8_def not_False_eq_True
      simp_thms ..
  note br = modelFailureBranch_later [OF b assms(1) markFailed_fields(1) assms(2)]
  have s5: "now < ms_NextRetryAfter s5" "ms_Unavailable s5" "ms_Status s5 = StatusError" using br by auto
  note set = settleModel_later [OF s5(1) assms(2), of r False "ms_NextRetryAfter s3"]
  have s6: "now < ms_NextRetryAfter s6" "ms_Unavailable s6" "ms_Status s6 = StatusError"
      "ms_NextRetryAfter s3 > now \<Longrightarrow> ms_NextRetryAfter s3 \<le> ms_NextRetryAfter s6"
    using set s5 by (auto simp: s6_def)
  have s7: "now < ms_NextRetryAfter s7" "ms_Unavailable s7" "ms_Status s7 = StatusError"
      "ms_cooldownRecordedSeq s7 = seq"
      "ms_NextRetryAfter s2 > now \<Longrightarrow> ms_NextRetryAfter s2 \<le> ms_NextRetryAfter s7"
    using s6 by (auto simp: s7_def composeLayers_fields s3_def) (simp add: s6_def)
  have "state_at (a8\<lparr>auth_Status := StatusError\<rparr>) k = Some s7"
    by (auto simp: a8_def state_at_def mapSiblings_def map_of_other set_state_def)
  from aggregate_keeps_live [OF this s7(1)] s7 show thesis
    by (intro that [of s7]) (simp_all add: eq s2_def)
qed

section \<open>What follows a result\<close>

lemma countResult_fields [simp]:
  "auth_Quota (countResult r a) = auth_Quota a" "auth_ModelStates (countResult r a) = auth_ModelStates a"
  "auth_Disabled (countResult r a) = auth_Disabled a" "auth_Status (countResult r a) = auth_Status a"
  "auth_Unavailable (countResult r a) = auth_Unavailable a" "auth_LastError (countResult r a) = auth_LastError a"
  "auth_NextRefreshAfter (countResult r a) = auth_NextRefreshAfter a"
  "auth_NextRetryAfter (countResult r a) = auth_NextRetryAfter a"
  "AccessTokenExpiration (countResult r a) = AccessTokenExpiration a"
  "auth_Metadata (countResult r a) = auth_Metadata a" "auth_Attributes (countResult r a) = auth_Attributes a"
  "auth_Provider (countResult r a) = auth_Provider a" "auth_Generation (countResult r a) = auth_Generation a"
  "auth_cooldownRecordedSeq (countResult r a) = auth_cooldownRecordedSeq a"
  by (simp_all add: countResult_def)

lemma countResult_same [simp]:
  "disableCoolingFor env e (countResult r a) = disableCoolingFor env e a"
  "hasUnauthorizedAuthFailure (countResult r a) = hasUnauthorizedAuthFailure a"
  "state_at (countResult r a) k = state_at a k" "credentialQuotaActive (countResult r a) t = credentialQuotaActive a t"
proof -
  show "hasUnauthorizedAuthFailure (countResult r a) = hasUnauthorizedAuthFailure a"
    by (rule hasUnauthorized_cong) simp_all
next
  show "disableCoolingFor env e (countResult r a) = disableCoolingFor env e a"
    unfolding disableCoolingFor_def cooldownDisabledForAuth_def quotaCooldownDisabledForAuthWithConfig_def
      DisableCoolingOverride_def providerCoolingOverrideForAuth_def countResult_fields ..
qed (simp_all add: state_at_def credentialQuotaActive_def)

lemma recordRejected_fields [simp]:
  "auth_Quota (fst (recordRejectedTokenOnAuth tok a)) = auth_Quota a"
  "auth_ModelStates (fst (recordRejectedTokenOnAuth tok a)) = auth_ModelStates a"
  "auth_Disabled (fst (recordRejectedTokenOnAuth tok a)) = auth_Disabled a"
  "auth_Status (fst (recordRejectedTokenOnAuth tok a)) = auth_Status a"
  "auth_Unavailable (fst (recordRejectedTokenOnAuth tok a)) = auth_Unavailable a"
  "auth_LastError (fst (recordRejectedTokenOnAuth tok a)) = auth_LastError a"
  "auth_NextRetryAfter (fst (recordRejectedTokenOnAuth tok a)) = auth_NextRetryAfter a"
  "auth_NextRefreshAfter (fst (recordRejectedTokenOnAuth tok a)) = auth_NextRefreshAfter a"
  "AccessTokenExpiration (fst (recordRejectedTokenOnAuth tok a)) = AccessTokenExpiration a"
  "auth_Generation (fst (recordRejectedTokenOnAuth tok a)) = auth_Generation a"
  by (simp_all add: recordRejectedTokenOnAuth_def Let_def)

lemma noteUnauthorized_fields [simp]:
  "auth_Quota (fst (noteUnauthorized env r w now a)) = auth_Quota a"
  "auth_ModelStates (fst (noteUnauthorized env r w now a)) = auth_ModelStates a"
  "auth_Disabled (fst (noteUnauthorized env r w now a)) = auth_Disabled a"
  "auth_LastError (fst (noteUnauthorized env r w now a)) = auth_LastError a"
  "AccessTokenExpiration (fst (noteUnauthorized env r w now a)) = AccessTokenExpiration a"
  "auth_Generation (fst (noteUnauthorized env r w now a)) = auth_Generation a"
  by (simp_all add: noteUnauthorized_def Let_def)

text \<open>An observation changes only what was observed.\<close>

definition same_cooldown :: "ModelState \<Rightarrow> ModelState \<Rightarrow> bool" where
  "same_cooldown s s' \<longleftrightarrow> (\<exists>t sig. s' = s\<lparr>ms_Quota := (ms_Quota s)\<lparr>quota_ObservedAt := t, quota_Signals := sig\<rparr>\<rparr>)"

lemma same_cooldown_fields:
  assumes "same_cooldown s s'"
  shows "ms_NextRetryAfter s' = ms_NextRetryAfter s" "ms_Unavailable s' = ms_Unavailable s"
    "ms_Status s' = ms_Status s" "ms_cooldownRecordedSeq s' = ms_cooldownRecordedSeq s"
    "quota_Exceeded (ms_Quota s') = quota_Exceeded (ms_Quota s)"
    "quota_NextRecoverAt (ms_Quota s') = quota_NextRecoverAt (ms_Quota s)"
    "quota_Reason (ms_Quota s') = quota_Reason (ms_Quota s)"
    "hardBlock s' = hardBlock s" "tempBlock t s' = tempBlock t s"
  using assms by (auto simp: same_cooldown_def hardBlock_def tempBlock_def blockedUntil_def)

lemma observe_same: "same_cooldown s (s\<lparr>ms_Quota := fst (ObserveResponseHeadersForProvider p h t (ms_Quota s))\<rparr>)"
proof -
  have "\<exists>u sig. fst (ObserveResponseHeadersForProvider p h t q) = q\<lparr>quota_ObservedAt := u, quota_Signals := sig\<rparr>" for q
  proof (cases q)
    case (fields e rs n l u sig)
    then show ?thesis
      by (cases "fst (ObserveResponseHeadersForProvider p h t q)")
        (use observe_keeps_cooldown [of p h t q] in \<open>simp add: fields\<close>)
  qed
  then show ?thesis unfolding same_cooldown_def by metis
qed

lemma same_cooldown_refl: "same_cooldown s s"
  by (auto simp: same_cooldown_def intro!: exI [of _ "quota_ObservedAt (ms_Quota s)"] exI [of _ "quota_Signals (ms_Quota s)"])

lemma observeQuota_state:
  assumes "state_at a k = Some s"
  shows "\<exists>s'. state_at (observeQuota env r modelKey now a) k = Some s' \<and> same_cooldown s s'"
proof -
  have same: "state_at (a\<lparr>auth_Quota := q\<rparr>) k' = state_at a k'"
    "existingModelState (a\<lparr>auth_Quota := q\<rparr>) m = existingModelState a m" for q k' m
    by (simp_all add: state_at_def existingModelState_def Let_def)
  show ?thesis
    using assms observe_same same_cooldown_refl [of s]
    by (auto simp: observeQuota_def Let_def same existingModelState_def split: option.splits)
qed

lemma observeQuota_fields [simp]:
  "auth_Disabled (observeQuota env r mk now a) = auth_Disabled a"
  "auth_Status (observeQuota env r mk now a) = auth_Status a"
  "auth_Unavailable (observeQuota env r mk now a) = auth_Unavailable a"
  "auth_LastError (observeQuota env r mk now a) = auth_LastError a"
  "auth_NextRetryAfter (observeQuota env r mk now a) = auth_NextRetryAfter a"
  "auth_NextRefreshAfter (observeQuota env r mk now a) = auth_NextRefreshAfter a"
  "AccessTokenExpiration (observeQuota env r mk now a) = AccessTokenExpiration a"
  "auth_Generation (observeQuota env r mk now a) = auth_Generation a"
  "quota_Exceeded (auth_Quota (observeQuota env r mk now a)) = quota_Exceeded (auth_Quota a)"
  "quota_Reason (auth_Quota (observeQuota env r mk now a)) = quota_Reason (auth_Quota a)"
  "quota_NextRecoverAt (auth_Quota (observeQuota env r mk now a)) = quota_NextRecoverAt (auth_Quota a)"
  by (simp_all add: observeQuota_def Let_def split: option.splits)

lemma observeQuota_keys: "map fst (auth_ModelStates (observeQuota env r mk now a)) = map fst (auth_ModelStates a)"
  by (auto simp: observeQuota_def Let_def existingModelState_def state_at_iff set_state_def update_keys
      dest!: map_of_SomeD intro: rev_image_eqI split: option.splits if_splits)

text \<open>The credential a result leaves behind.\<close>

lemma MarkResult_marks:
  assumes "MarkResult env r now m = (m', out)" "resultPolicy env = None" "res_AuthID r \<noteq> ''''"
    "map_of (mgr_auths m) (res_AuthID r) = Some a0" "\<not> isStaleExecutionResult r a0"
  shows "map_of (mgr_auths m') (res_AuthID r) = Some (fst (markAuth env r now (mgr_executionSeq m) a0)) \<and>
    mark_Snapshot out = Some (fst (markAuth env r now (mgr_executionSeq m) a0)) \<and>
    mgr_executionSeq m' = mgr_executionSeq m"
  using assms
  by (auto simp: MarkResult_def markResultFor_def put_auth_def Let_def split: prod.splits)

definition marked :: "CooldownEnv \<Rightarrow> ExecResult \<Rightarrow> time \<Rightarrow> nat \<Rightarrow> Auth \<Rightarrow> Auth" where
  "marked env r now seq a0 =
     (let a = countResult r a0; w = hasUnauthorizedAuthFailure a0 in
      if res_Success r then markSuccess r (resultModelKey env r a0) w now a
      else markFailure env r (resultModelKey env r a0) w now seq a)"

lemma markAuth_eq:
  "fst (markAuth env r now seq a0) =
     (let a = fst (noteUnauthorized env r (hasUnauthorizedAuthFailure a0) now (marked env r now seq a0))
      in observeQuota env r (resultModelKey env r a0) now
           (a\<lparr>auth_Generation := auth_Generation a + 1, auth_UpdatedAt := now\<rparr>))"
  unfolding markAuth_def marked_def Let_def countResult_same case_prod_unfold fst_conv ..

lemma markAuth_state:
  assumes "state_at (marked env r now seq a0) k = Some s"
  shows "\<exists>s'. state_at (fst (markAuth env r now seq a0)) k = Some s' \<and> same_cooldown s s'"
proof -
  define a where "a = fst (noteUnauthorized env r (hasUnauthorizedAuthFailure a0) now (marked env r now seq a0))"
  have "state_at (a\<lparr>auth_Generation := auth_Generation a + 1, auth_UpdatedAt := now\<rparr>) k = Some s"
    using assms by (simp add: state_at_def a_def)
  from observeQuota_state [OF this] show ?thesis by (simp add: markAuth_eq Let_def a_def)
qed

section \<open>Canonical keys\<close>

text \<open>The keys of the states are canonical names, as every state entered for a plain model has it.\<close>

definition canonical_states :: "Auth \<Rightarrow> bool" where
  "canonical_states a \<longleftrightarrow>
     wf_map (auth_ModelStates a) \<and> (\<forall>k \<in> set (map fst (auth_ModelStates a)). canonicalModelKey k = k \<and> k \<noteq> '''')"

lemma update_new: "k \<notin> fst ` set m \<Longrightarrow> AList.update k v m = m @ [(k, v)]"
  by (induction m) auto

lemma normalizeLoop_id:
  assumes "distinct (map fst (done @ xs))" "\<forall>k \<in> fst ` set xs. normalKey k = k"
  shows "normalizeLoop xs done c = (done @ xs, c)"
  using assms
proof (induction xs arbitrary: "done" c)
  case (Cons kv xs)
  obtain k v where kv: "kv = (k, v)" by fastforce
  have new: "map_of done k = None" "AList.update k v done = done @ [(k, v)]"
    using Cons.prems(1) by (auto simp: kv map_of_eq_None_iff intro!: update_new)
  have "normalizeLoop xs (done @ [(k, v)]) c = ((done @ [(k, v)]) @ xs, c)"
    using Cons.prems by (intro Cons.IH) (auto simp: kv)
  with Cons.prems(2) show ?case by (simp add: kv new Let_def)
qed simp

lemma normalize_canonical: "canonical_states a \<Longrightarrow> normalizeModelStates a = a"
  using normalizeLoop_id [of "[]" "auth_ModelStates a" False]
  by (simp add: normalizeModelStates_def canonical_states_def normalKey_def)

lemma canonical_cong: "map fst (auth_ModelStates b) = map fst (auth_ModelStates a) \<Longrightarrow> canonical_states b = canonical_states a"
  by (simp only: canonical_states_def)

lemma canonical_set: "canonical_states a \<Longrightarrow> canonicalModelKey k = k \<Longrightarrow> k \<noteq> '''' \<Longrightarrow> canonical_states (set_state k s a)"
  by (auto simp: canonical_states_def set_state_def dom_update)

lemma canonical_ensure:
  assumes "canonical_states a" "canonicalModelKey k = k" "k \<noteq> ''''" "ensureModelState a k = (a', s)"
  shows "canonical_states a'"
  using assms by (auto simp: ensureModelState_def normalize_canonical Let_def intro: canonical_set split: option.splits)

lemma aggregate_keys: "map fst (auth_ModelStates (updateAggregatedAvailability now a)) = map fst (auth_ModelStates a)"
  by (auto simp: updateAggregatedAvailability_def clearAggregatedAvailability_def expireStates_def Let_def comp_def
      case_prod_unfold)

lemma canonical_matching:
  assumes "canonical_states a" "state_at a k = Some s" "canonicalModelKey k = k"
  shows "matchingStates k (auth_ModelStates a) = {s}"
proof -
  have "st = s" if "(k', Some st) \<in> set (auth_ModelStates a)" "canonicalModelKey k' = k" for k' st
  proof -
    have "k' \<in> set (map fst (auth_ModelStates a))" using that(1) by force
    then have "k' = k" using assms(1) that(2) unfolding canonical_states_def by metis
    with that(1) assms(1,2) show ?thesis
      by (simp add: canonical_states_def state_at_iff)
  qed
  moreover have "(k, Some s) \<in> set (auth_ModelStates a)"
    using assms(2) by (simp add: state_at_iff map_of_SomeD)
  ultimately show ?thesis using assms(3) unfolding matchingStates_def by blast
qed

section \<open>The credential summarises its models\<close>

definition stateDown :: "time \<Rightarrow> ModelState \<Rightarrow> bool" where
  "stateDown now s \<longleftrightarrow>
     ms_Status s = StatusDisabled \<or>
     (ms_Unavailable s \<and> ms_NextRetryAfter s \<noteq> 0 \<and> ms_NextRetryAfter s > now)"

lemma aggregateStates_all:
  "agg_allUnavailable (aggregateStates now xs g) \<longleftrightarrow>
     agg_allUnavailable g \<and> (\<forall>m s. (m, Some s) \<in> set xs \<longrightarrow> stateDown now s)"
  by (induction now xs g rule: aggregateStates.induct) (auto simp: aggregateState_def stateDown_def Let_def)

lemma aggregateStates_has:
  "agg_hasState (aggregateStates now xs g) \<longleftrightarrow> agg_hasState g \<or> (\<exists>m s. (m, Some s) \<in> set xs)"
  by (induction now xs g rule: aggregateStates.induct) (auto simp: aggregateState_def Let_def)

text \<open>
  The credential is marked unavailable exactly when all its models are. After the summary
  of a credential that no terminal failure and no credential quota blocks, the flag is set if and
  only if it has a model state and each of them is disabled or waits for a later moment.
\<close>

theorem summary_unavailable_iff:
  assumes "\<not> hasUnauthorizedAuthFailure a" "\<not> credentialQuotaActive a now"
  shows "auth_Unavailable (updateAggregatedAvailability now a) \<longleftrightarrow>
    (\<exists>m s. (m, Some s) \<in> set (auth_ModelStates a)) \<and>
    (\<forall>m s. (m, Some s) \<in> set (auth_ModelStates a) \<longrightarrow> stateDown now s)"
proof -
  let ?g = "aggregateStates now (auth_ModelStates a) emptyAggregate"
  have "agg_hasState ?g \<longleftrightarrow> (\<exists>m s. (m, Some s) \<in> set (auth_ModelStates a))"
    by (simp add: aggregateStates_has emptyAggregate_def)
  moreover have "agg_allUnavailable ?g \<longleftrightarrow> (\<forall>m s. (m, Some s) \<in> set (auth_ModelStates a) \<longrightarrow> stateDown now s)"
    by (simp add: aggregateStates_all emptyAggregate_def)
  ultimately show ?thesis
    using assms by (auto simp: updateAggregatedAvailability_def clearAggregatedAvailability_def Let_def)
qed

theorem summary_unavailable_iff_witness:
  "auth_Unavailable (updateAggregatedAvailability 10 ((sample_auth ''a'')\<lparr>auth_ModelStates :=
     [(''m'', Some ((newModelState StatusError)\<lparr>ms_Unavailable := True, ms_NextRetryAfter := 20\<rparr>))]\<rparr>))"
proof -
  define a where "a = (sample_auth ''a'')\<lparr>auth_ModelStates :=
     [(''m'', Some ((newModelState StatusError)\<lparr>ms_Unavailable := True, ms_NextRetryAfter := 20\<rparr>))]\<rparr>"
  have "\<not> hasUnauthorizedAuthFailure a" "\<not> credentialQuotaActive a 10"
    by (simp_all add: a_def sample_auth_def hasUnauthorizedAuthFailure_def credentialQuotaActive_def)
  from summary_unavailable_iff [OF this] show ?thesis unfolding a_def [symmetric]
    by (simp add: a_def stateDown_def newModelState_def)
qed

lemma summary_quota:
  assumes "\<not> credentialQuotaActive a now"
  shows "\<not> credentialQuotaActive (updateAggregatedAvailability now a) now"
  using assms
  by (auto simp: updateAggregatedAvailability_def clearAggregatedAvailability_def credentialQuotaActive_def Let_def)

end
