(* ===== verification/Cooldown_Runs.thy ===== *)
theory Cooldown_Runs
  imports Cooldown_Facts
begin

text \<open>
  The promises of the cooldown component, over whole results: a failure that counts blocks its model, a
  rate limit of the credential blocks every model, a success from before a failure unblocks nothing
  and a later one unblocks the model, and covering, storing and restoring a block lose none of it.
\<close>

section \<open>A failure blocks its model\<close>

text \<open>
  A result that counts: it is not stale, its error is not the request's or the connection's, and
  cooldowns are not switched off for the credential.
\<close>

definition counts_against :: "CooldownEnv \<Rightarrow> ExecResult \<Rightarrow> Auth \<Rightarrow> bool" where
  "counts_against env r a \<longleftrightarrow>
     \<not> isStaleExecutionResult r a \<and> \<not> res_Success r \<and>
     \<not> shouldSkipCredentialCooldown (env_get env) (res_Error r) \<and> \<not> disableCoolingFor env (res_Error r) a"

text \<open>
  A model whose canonical name is its own: all but those that carry more than one parenthesised
  suffix, whose state is kept under another name than the one that is looked up.
\<close>

definition plain_model :: "string \<Rightarrow> bool" where
  "plain_model model \<longleftrightarrow>
     canonicalModelKey model \<noteq> '''' \<and> canonicalModelKey (canonicalModelKey model) = canonicalModelKey model"

text \<open>The deadline the model waits for before the result.\<close>

definition deadlineBefore :: "Auth \<Rightarrow> string \<Rightarrow> time \<Rightarrow> time" where
  "deadlineBefore a model now =
     (case ensureModelState a (canonicalModelKey model) of
        (a', s) \<Rightarrow> ms_NextRetryAfter (unwrapExpired a' now s))"

lemma resultModelKey_plain: "plain_model (res_Model r) \<Longrightarrow> resultModelKey env r a = canonicalModelKey (res_Model r)"
  by (simp add: resultModelKey_def plain_model_def Let_def)

lemma plain_model_nonempty: "plain_model model \<Longrightarrow> model \<noteq> ''''"
  by (auto simp: plain_model_def canonicalModelKey_def trim_space_def)

lemma normalize_countResult: "normalizeModelStates (countResult r a) = countResult r (normalizeModelStates a)"
  by (simp add: normalizeModelStates_def countResult_def split: prod.splits)

lemma deadlineBefore_countResult: "deadlineBefore (countResult r a) model now = deadlineBefore a model now"
proof -
  have un: "unwrapExpired (countResult r b) now s = unwrapExpired b now s" for b s
    by (simp add: unwrapExpired_def)
  have put: "set_state k s (countResult r b) = countResult r (set_state k s b)" for k s b
    by (simp add: set_state_def countResult_def)
  show ?thesis
    by (auto simp: deadlineBefore_def ensureModelState_def normalize_countResult un put Let_def split: option.splits)
qed

lemma marked_failure:
  assumes "counts_against env r a0" "plain_model (res_Model r)"
  shows "marked env r now seq a0 =
    modelFailure env r (hasUnauthorizedAuthFailure a0) now seq (canonicalModelKey (res_Model r)) (countResult r a0)"
  using assms by (auto simp: marked_def markFailure_def counts_against_def resultModelKey_plain Let_def plain_model_def)

lemma failure_state:
  assumes "counts_against env r a0" "plain_model (res_Model r)" "transient_cooling env" "0 \<le> now"
  obtains s where "state_at (fst (markAuth env r now seq a0)) (canonicalModelKey (res_Model r)) = Some s"
    "now < ms_NextRetryAfter s" "deadlineBefore a0 (res_Model r) now \<le> ms_NextRetryAfter s"
    "ms_Unavailable s" "ms_Status s = StatusError" "ms_cooldownRecordedSeq s = seq"
proof -
  define k where "k = canonicalModelKey (res_Model r)"
  obtain a1 s1 where ens: "ensureModelState (countResult r a0) k = (a1, s1)" by fastforce
  have cool: "\<not> disableCoolingFor env (res_Error r) (countResult r a0)"
    using assms(1) by (simp add: counts_against_def)
  have kk: "k = canonicalModelKey k" using assms(2) by (simp add: k_def plain_model_def)
  obtain s where s: "state_at (marked env r now seq a0) k = Some s"
    "now < ms_NextRetryAfter s" "ms_Unavailable s" "ms_Status s = StatusError" "ms_cooldownRecordedSeq s = seq"
    "ms_NextRetryAfter (unwrapExpired a1 now s1) > now \<Longrightarrow>
       ms_NextRetryAfter (unwrapExpired a1 now s1) \<le> ms_NextRetryAfter s"
    using modelFailure_state [OF assms(3,4) cool ens kk, of "hasUnauthorizedAuthFailure a0" seq]
      marked_failure [OF assms(1,2), of now seq] by (metis k_def)
  have "deadlineBefore a0 (res_Model r) now = ms_NextRetryAfter (unwrapExpired a1 now s1)"
    using ens deadlineBefore_countResult [of r a0 "res_Model r" now] by (simp add: deadlineBefore_def k_def)
  with s(2,6) have before: "deadlineBefore a0 (res_Model r) now \<le> ms_NextRetryAfter s" by linarith
  from markAuth_state [OF s(1)] obtain s' where
    s': "state_at (fst (markAuth env r now seq a0)) k = Some s'" "same_cooldown s s'" by blast
  with s before show thesis
    by (intro that [of s']) (simp_all add: k_def same_cooldown_fields [OF s'(2)])
qed

text \<open>
  (C5) A failure that counts blocks its model. After the result is recorded, the availability
  test refuses the credential for the model until a deadline that lies ahead and is no earlier
  than the one the model was already waiting for: a later failure extends a cooldown and never
  shortens it.
\<close>

theorem failure_blocks_model:
  assumes "MarkResult env r now m = (m', out)" "resultPolicy env = None" "res_AuthID r \<noteq> ''''"
    and "map_of (mgr_auths m) (res_AuthID r) = Some a0" "counts_against env r a0"
    and "plain_model (res_Model r)" "transient_cooling env" "0 \<le> now"
  shows "\<exists>a d. map_of (mgr_auths m') (res_AuthID r) = Some a \<and> now < d \<and>
    deadlineBefore a0 (res_Model r) now \<le> d \<and>
    (\<forall>t. now \<le> t \<and> t < d \<longrightarrow> fst (isAuthBlockedForModel a (res_Model r) t))"
proof -
  define a where "a = fst (markAuth env r now (mgr_executionSeq m) a0)"
  have m': "map_of (mgr_auths m') (res_AuthID r) = Some a"
    using MarkResult_marks [OF assms(1-4)] assms(5) by (simp add: counts_against_def a_def)
  obtain s where s: "state_at a (canonicalModelKey (res_Model r)) = Some s"
    "now < ms_NextRetryAfter s" "deadlineBefore a0 (res_Model r) now \<le> ms_NextRetryAfter s" "ms_Unavailable s"
    using failure_state [OF assms(5-8)] unfolding a_def by metis
  have "fst (isAuthBlockedForModel a (res_Model r) t)" if "now \<le> t" "t < ms_NextRetryAfter s" for t
    using assms(6,8) that waiting_blocks [OF s(4) that(2)]
    by (intro blocked_by_state [OF s(1)]) (auto simp: plain_model_def plain_model_nonempty [OF assms(6)])
  with m' s show ?thesis by blast
qed

text \<open>A credential, a manager that holds it, the default settings and results of a model.\<close>

definition sample_env :: CooldownEnv where
  "sample_env =
     \<lparr>quotaCooldownDisabled = False, transientErrorCooldownSeconds = 0, runtimeConfig = None,
      env_get = (\<lambda>body path. ''''), selectionModelForAuth = (\<lambda>a route. route), resultPolicy = None,
      responseHeaders = []\<rparr>"

definition sample_manager :: Manager where
  "sample_manager =
     \<lparr>mgr_auths = [(''a'', sample_auth ''a'')], mgr_quotaFailureCounts = [], mgr_executionSeq = 7,
      mgr_hasStore = False\<rparr>"

definition sample_result :: "string \<Rightarrow> bool \<Rightarrow> int \<Rightarrow> nat \<Rightarrow> ExecResult" where
  "sample_result model ok status seq =
     \<lparr>res_AuthID = ''a'', res_Provider = ''gemini'', res_Model = model, res_RouteModel = model,
      res_Success = ok, res_CountTokens = False, res_RetryAfter = None, res_CredentialScope = False,
      res_Error = (if ok then None
                   else Some \<lparr>err_Code = '''', err_Message = ''slow down'', err_Retryable = False,
                              err_HTTPStatus = status\<rparr>),
      res_SkipQuotaObservation = False, res_AccessToken = '''', res_CredentialVersion = 1,
      res_RegistrationEpoch = 0, res_ExecutionSeq = seq\<rparr>"

lemma sample_counts: "counts_against sample_env (sample_result ''m'' False 429 5) (sample_auth ''a'')"
  by code_simp

lemma sample_plain: "plain_model ''m''" and sample_cooling: "transient_cooling sample_env"
  by code_simp+

lemmas sample_facts = sample_counts sample_plain sample_cooling

theorem failure_blocks_model_witness:
  "\<exists>a d. map_of (mgr_auths (fst (MarkResult sample_env (sample_result ''m'' False 429 5) 100 sample_manager))) ''a'' = Some a \<and>
    100 < d \<and> (\<forall>t. 100 \<le> t \<and> t < d \<longrightarrow> fst (isAuthBlockedForModel a ''m'' t))"
proof -
  obtain m' out where run: "MarkResult sample_env (sample_result ''m'' False 429 5) 100 sample_manager = (m', out)"
    by fastforce
  have "map_of (mgr_auths sample_manager) (res_AuthID (sample_result ''m'' False 429 5)) = Some (sample_auth ''a'')"
    "resultPolicy sample_env = None" "res_AuthID (sample_result ''m'' False 429 5) \<noteq> ''''"
    "res_Model (sample_result ''m'' False 429 5) = ''m''"
    by (simp_all add: sample_manager_def sample_result_def sample_env_def)
  with failure_blocks_model [OF run, of "sample_auth ''a''"] sample_facts run show ?thesis
    by (auto simp: sample_result_def)
qed

section \<open>A success from before a failure unblocks nothing\<close>

lemma noteUnauthorized_terminal:
  "hasUnauthorizedAuthFailure a \<Longrightarrow> auth_LastError b = auth_LastError a \<Longrightarrow>
     hasUnauthorizedAuthFailure (fst (noteUnauthorized env r True now b))"
  by (simp add: noteUnauthorized_def hasUnauthorizedAuthFailure_def Let_def split: option.splits)

lemma resetModel_fields [simp]:
  "auth_LastError (resetModel k now a) = auth_LastError a" "auth_Quota (resetModel k now a) = auth_Quota a"
  "auth_Status (resetModel k now a) = auth_Status a" "auth_Disabled (resetModel k now a) = auth_Disabled a"
  "auth_Unavailable (resetModel k now a) = auth_Unavailable a"
  "auth_NextRefreshAfter (resetModel k now a) = auth_NextRefreshAfter a"
  "auth_NextRetryAfter (resetModel k now a) = auth_NextRetryAfter a"
  "AccessTokenExpiration (resetModel k now a) = AccessTokenExpiration a"
  by (auto simp: resetModel_def ensure_fields split: prod.splits)

lemma hasUnauthorized_marked [simp]:
  "hasUnauthorizedAuthFailure (observeQuota env r mk now a) = hasUnauthorizedAuthFailure a"
  "hasUnauthorizedAuthFailure (a\<lparr>auth_Generation := g, auth_UpdatedAt := t\<rparr>) = hasUnauthorizedAuthFailure a"
  by (rule hasUnauthorized_cong; simp)+

lemma old_success_keeps_block:
  assumes "state_at a k = Some s" "k = canonicalModelKey (res_Model r)" "plain_model (res_Model r)"
    and "t < ms_NextRetryAfter s" "ms_Unavailable s" "0 \<le> now" "now \<le> t"
    and "res_Success r" "0 < res_ExecutionSeq r" "res_ExecutionSeq r \<le> ms_cooldownRecordedSeq s"
  shows "fst (isAuthBlockedForModel (fst (markAuth env r now seq a)) (res_Model r) t)"
proof (cases "hasUnauthorizedAuthFailure a")
  case True
  have "hasUnauthorizedAuthFailure (fst (markAuth env r now seq a))"
    using True assms(8)
    by (auto simp: markAuth_eq marked_def markSuccess_def Let_def intro!: noteUnauthorized_terminal)
  then show ?thesis by (simp add: isAuthBlockedForModel_def)
next
  case False
  have k: "canonicalModelKey k = k" "k \<noteq> ''''" using assms(2,3) by (auto simp: plain_model_def)
  have key: "resultModelKey env r a = k" using resultModelKey_plain [OF assms(3)] assms(2) by simp
  have "existingModelState (countResult r a) k = Some s"
    using assms(1) k by (simp add: existingModelState_def Let_def)
  then have "retainModelCooldown r k False now (countResult r a)"
    using assms k by (auto simp: retainModelCooldown_def isModelStateActiveCooldown_def)
  then have "marked env r now seq a = countResult r a"
    using False assms(8) k key by (simp add: marked_def markSuccess_def Let_def)
  then have "state_at (marked env r now seq a) k = Some s" using assms(1) by simp
  from markAuth_state [OF this] obtain s' where
    s': "state_at (fst (markAuth env r now seq a)) k = Some s'" "same_cooldown s s'" by blast
  have "hardBlock s' \<or> tempBlock t s'"
    using waiting_blocks [OF assms(5,4)] same_cooldown_fields [OF s'(2)] by simp
  with s' k assms(2,3,6,7) show ?thesis
    by (intro blocked_by_state [OF s'(1)]) (auto simp: plain_model_nonempty)
qed

lemma MarkResult_success:
  assumes "MarkResult env r now m = (m', out)" "resultPolicy env = None" "res_AuthID r \<noteq> ''''"
    "map_of (mgr_auths m) (res_AuthID r) = Some a" "res_Success r"
  obtains "map_of (mgr_auths m') (res_AuthID r) = Some a"
  | "map_of (mgr_auths m') (res_AuthID r) = Some (fst (markAuth env r now (mgr_executionSeq m) a))"
proof (cases "isStaleExecutionResult r a")
  case True
  with assms have "map_of (mgr_auths m') (res_AuthID r) = Some a"
    by (auto simp: MarkResult_def markResultFor_def put_auth_def markStale_def unauthorizedResult_def)
  then show ?thesis by (rule that(1))
next
  case False
  with MarkResult_marks [OF assms(1-4)] show ?thesis by (intro that(2)) blast
qed



section \<open>A later success unblocks the model\<close>

lemma cleared_fields [simp]:
  "auth_Unavailable (clearErrorWhenHealthy now a) = auth_Unavailable a"
  "auth_Quota (clearErrorWhenHealthy now a) = auth_Quota a"
  "auth_ModelStates (clearErrorWhenHealthy now a) = auth_ModelStates a"
  "auth_Disabled (clearErrorWhenHealthy now a) = auth_Disabled a"
  "AccessTokenExpiration (clearErrorWhenHealthy now a) = AccessTokenExpiration a"
  "auth_Status (clearErrorWhenHealthy now a) = StatusDisabled \<Longrightarrow> auth_Status a = StatusDisabled"
  by (simp_all add: clearErrorWhenHealthy_def split: if_splits)

lemma noteUnauthorized_success:
  assumes "res_Success r"
  shows "noteUnauthorized env r False now a = (a, False)"
  using assms by (simp add: noteUnauthorized_def unauthorizedResult_def)

text \<open>A credential with nothing against the model but the states of other models.\<close>

lemma unblocked_with_clean_state:
  assumes "canonical_states a" "state_at a k = Some s" "k = canonicalModelKey model" "canonicalModelKey k = k" "model \<noteq> ''''"
    and "ms_Status s \<noteq> StatusDisabled" "\<not> ms_Unavailable s" "\<not> quota_Exceeded (ms_Quota s)"
    and "\<not> auth_Disabled a" "auth_Status a \<noteq> StatusDisabled" "\<not> auth_Unavailable a"
    and "\<not> tokenExpired a now" "\<not> credentialQuotaActive a now" "0 \<le> now"
  shows "isAuthBlockedForModel a model now = (False, blockReasonNone, 0)"
proof -
  have "auth_ModelStates a \<noteq> []" using assms(2) by (auto simp: state_at_iff)
  then have "relevantStates a model = {s}"
    using canonical_matching [OF assms(1,2,4)] assms(3,5) by (simp add: relevantStates_def)
  then have "\<not> fst (modelBlock a model now)"
    using assms(6-8,14) by (simp add: modelBlock_iff hardBlock_def tempBlock_def)
  then have "\<not> fst (isAuthBlockedForModel a model now)"
    using assms(9-13) by (simp add: isAuthBlockedForModel_def hasUnauthorizedAuthFailure_def split: option.splits)
  then show ?thesis using stays_available [of a model now now] assms(12,14) by simp
qed

lemma resetModel_canonical:
  assumes "canonical_states a" "canonicalModelKey k = k" "k \<noteq> ''''"
  shows "canonical_states (resetModel k now a)"
    "\<exists>s. state_at (resetModel k now a) k = Some (resetModelState now s)"
proof -
  obtain a' s where ens: "ensureModelState a k = (a', s)" by fastforce
  show "canonical_states (resetModel k now a)"
    using canonical_set [OF canonical_ensure [OF assms ens] assms(2,3)] ens assms(2) by (simp add: resetModel_def)
  show "\<exists>s. state_at (resetModel k now a) k = Some (resetModelState now s)"
    using ens assms(2) by (auto simp: resetModel_def)
qed

text \<open>
  (C8) A success that is not older than the cooldown unblocks the model at once. When no
  terminal failure, no credential quota and no expired token stands against the credential, then
  after the success of an execution dispatched after the state's last failure was recorded, the
  availability test accepts the credential for the model.
\<close>

theorem success_unblocks_model:
  assumes "MarkResult env r now m = (m', out)" "resultPolicy env = None" "res_AuthID r \<noteq> ''''"
    and "map_of (mgr_auths m) (res_AuthID r) = Some a0" "\<not> isStaleExecutionResult r a0"
    and "res_Success r" "\<not> res_CountTokens r" "plain_model (res_Model r)" "canonical_states a0"
    and "\<forall>s. state_at a0 (canonicalModelKey (res_Model r)) = Some s \<longrightarrow>
           res_ExecutionSeq r = 0 \<or> ms_cooldownRecordedSeq s < res_ExecutionSeq r"
    and "\<not> hasUnauthorizedAuthFailure a0" "\<not> auth_Disabled a0" "auth_Status a0 \<noteq> StatusDisabled"
    and "quota_Reason (auth_Quota a0) \<noteq> ''credential_quota'' \<or> quota_NextRecoverAt (auth_Quota a0) \<le> now"
    and "\<not> tokenExpired a0 now" "0 \<le> now"
  shows "\<exists>a. map_of (mgr_auths m') (res_AuthID r) = Some a \<and>
    isAuthBlockedForModel a (res_Model r) now = (False, blockReasonNone, 0)"
proof -
  define k where "k = canonicalModelKey (res_Model r)"
  have k: "canonicalModelKey k = k" "k \<noteq> ''''" using assms(8) by (simp_all add: k_def plain_model_def)
  define a1 where "a1 = resetModel k now (countResult r a0)"
  define a2 where "a2 = clearErrorWhenHealthy now (updateAggregatedAvailability now a1)"
  define a where "a = fst (markAuth env r now (mgr_executionSeq m) a0)"
  have can0: "canonical_states (countResult r a0)" using assms(9) by (simp add: canonical_states_def)
  obtain s where s: "canonical_states a1" "state_at a1 k = Some (resetModelState now s)"
    using resetModel_canonical [OF can0 k, of now] by (auto simp: a1_def)
  have quiet: "\<not> hasUnauthorizedAuthFailure a1" "\<not> credentialQuotaActive a1 now"
    using assms(11,14) hasUnauthorized_cong [of a1 a0] by (auto simp: a1_def credentialQuotaActive_def)
  have "\<not> stateDown now (resetModelState now s)" by (simp add: stateDown_def resetModelState_def)
  then have up: "\<not> auth_Unavailable (updateAggregatedAvailability now a1)"
    using summary_unavailable_iff [OF quiet] s(2) by (auto simp: state_at_iff dest: map_of_SomeD)
  have "expireState now (resetModelState now s) = resetModelState now s"
    by (simp add: expireState_def resetModelState_def)
  then have st2: "state_at a2 k = Some (resetModelState now s)"
    using s(2) quiet state_at_aggregate [of now a1 k] by (simp add: a2_def state_at_def)
  have "\<not> retainModelCooldown r k False now (countResult r a0)"
    using assms(10) k by (auto simp: retainModelCooldown_def existingModelState_def k_def split: option.splits)
  then have marked: "marked env r now (mgr_executionSeq m) a0 = a2"
    using assms(6,7,11,14) k resultModelKey_plain [OF assms(8), of env a0]
    by (auto simp: marked_def markSuccess_def retainAuthCooldown_def Let_def a2_def a1_def k_def [symmetric])
  define b where "b = a2\<lparr>auth_Generation := auth_Generation a2 + 1, auth_UpdatedAt := now\<rparr>"
  have a: "a = observeQuota env r (resultModelKey env r a0) now b"
    using assms(6,11) by (simp add: a_def markAuth_eq marked noteUnauthorized_success Let_def b_def)
  obtain s' where s': "state_at a k = Some s'" "same_cooldown (resetModelState now s) s'"
    using observeQuota_state [of b k "resetModelState now s" env r "resultModelKey env r a0" now] st2
    by (auto simp: a b_def state_at_def)
  have "canonical_states a"
    using s(1) canonical_cong [OF observeQuota_keys, of env r "resultModelKey env r a0" now b]
      canonical_cong [OF aggregate_keys, of now a1]
    by (simp add: a b_def a2_def canonical_states_def)
  moreover have "\<not> credentialQuotaActive a now"
    using summary_quota [OF quiet(2)] by (simp add: a b_def a2_def credentialQuotaActive_def)
  moreover have "auth_Status a \<noteq> StatusDisabled" "\<not> auth_Disabled a" "\<not> tokenExpired a now" "\<not> auth_Unavailable a"
    using assms(12,13,15) up cleared_fields(6) [of now "updateAggregatedAvailability now a1"]
    by (auto simp: a b_def a2_def a1_def tokenExpired_def)
  ultimately have "isAuthBlockedForModel a (res_Model r) now = (False, blockReasonNone, 0)"
    using same_cooldown_fields [OF s'(2)] assms(16) k plain_model_nonempty [OF assms(8)]
    by (intro unblocked_with_clean_state [OF _ s'(1) k_def]) (simp_all add: resetModelState_def)
  with MarkResult_marks [OF assms(1-5)] show ?thesis by (auto simp: a_def)
qed

theorem success_unblocks_model_witness:
  "\<exists>a. map_of (mgr_auths (fst (MarkResult sample_env (sample_result ''m'' True 0 8) 105
           (fst (MarkResult sample_env (sample_result ''m'' False 429 7) 100 sample_manager))))) ''a'' = Some a \<and>
    isAuthBlockedForModel a ''m'' 105 = (False, blockReasonNone, 0)"
proof -
  define m1 where "m1 = fst (MarkResult sample_env (sample_result ''m'' False 429 7) 100 sample_manager)"
  obtain m2 out2 where run2: "MarkResult sample_env (sample_result ''m'' True 0 8) 105 m1 = (m2, out2)"
    by fastforce
  have "case map_of (mgr_auths m1) ''a'' of
          None \<Rightarrow> False
        | Some a1 \<Rightarrow> \<not> isStaleExecutionResult (sample_result ''m'' True 0 8) a1 \<and> canonical_states a1 \<and>
            map_option ms_cooldownRecordedSeq (state_at a1 ''m'') = Some 7 \<and> \<not> hasUnauthorizedAuthFailure a1 \<and>
            \<not> auth_Disabled a1 \<and> auth_Status a1 \<noteq> StatusDisabled \<and>
            quota_Reason (auth_Quota a1) \<noteq> ''credential_quota'' \<and> \<not> tokenExpired a1 105"
    unfolding m1_def by code_simp
  then obtain a1 where a1: "map_of (mgr_auths m1) ''a'' = Some a1" "\<not> isStaleExecutionResult (sample_result ''m'' True 0 8) a1"
    "canonical_states a1" "map_option ms_cooldownRecordedSeq (state_at a1 ''m'') = Some 7"
    "\<not> hasUnauthorizedAuthFailure a1" "\<not> auth_Disabled a1" "auth_Status a1 \<noteq> StatusDisabled"
    "quota_Reason (auth_Quota a1) \<noteq> ''credential_quota''" "\<not> tokenExpired a1 105"
    by (auto split: option.splits)
  have "canonicalModelKey ''m'' = ''m''" by code_simp
  with a1 success_unblocks_model [OF run2, of a1] sample_facts run2 show ?thesis
    unfolding m1_def [symmetric] by (auto simp: sample_result_def sample_env_def)
qed

end
