(* ===== verification/Cooldown_Layers.thy ===== *)
theory Cooldown_Layers
  imports Cooldown_Runs
begin

text \<open>
  Cooldowns of a whole credential, the layer they lay over the models, and the records that carry
  cooldowns over a restart: a credential quota blocks everything, taking it off gives each model back
  its own block, and a record gives back the block it was made from.
\<close>

section \<open>A credential quota blocks every model\<close>

text \<open>A rate limit of the whole credential.\<close>

definition credential_limit :: "ExecResult \<Rightarrow> bool" where
  "credential_limit r \<longleftrightarrow>
     res_CredentialScope r \<and> statusCodeFromResult (res_Error r) = 429 \<and>
     \<not> isModelSupportResultError (res_Error r) \<and> \<not> isCloudflareChallengeResultError (res_Error r) \<and>
     \<not> isInvalidGrantResultError (res_Error r)"

lemma mapSiblings_fields [simp]:
  "auth_Quota (mapSiblings k f a) = auth_Quota a" "auth_LastError (mapSiblings k f a) = auth_LastError a"
  by (simp_all add: mapSiblings_def)

lemma rateLimitModel_covers:
  assumes "rateLimitModel r False False now k saved prev a s = (a', s')" "res_CredentialScope r"
  shows "credentialQuotaLabel a' \<and> now < quota_NextRecoverAt (auth_Quota a') \<and>
    (credentialQuotaLabel a \<longrightarrow> quota_NextRecoverAt (auth_Quota a) \<le> quota_NextRecoverAt (auth_Quota a'))"
proof -
  obtain nxt cnext level where m: "modelRateLimit r False now a s = (nxt, cnext, level)"
    by (metis prod_cases3)
  then have "now < cnext" using modelRateLimit_later [OF m] by simp
  moreover have "auth_Quota a' = auth_Quota (coverCredential cnext level
      (mapSiblings k (coverSibling a now cnext level) a))"
    using assms by (auto simp: rateLimitModel_def m Let_def)
  ultimately show ?thesis
    by (auto simp: coverCredential_def credentialQuotaLabel_def Let_def)
qed

lemma aggregate_keeps_credential_quota:
  "credentialQuotaActive a now \<Longrightarrow> auth_Quota (updateAggregatedAvailability now a) = auth_Quota a"
  by (simp add: updateAggregatedAvailability_def)

lemma modelFailure_covers:
  assumes "credential_limit r" "\<not> disableCoolingFor env (res_Error r) a0"
  shows "\<exists>q. auth_Quota (modelFailure env r False now seq modelKey a0) = q \<and> quota_Exceeded q \<and>
    quota_Reason q = ''credential_quota'' \<and> now < quota_NextRecoverAt q \<and>
    (credentialQuotaLabel a0 \<longrightarrow> quota_NextRecoverAt (auth_Quota a0) \<le> quota_NextRecoverAt q)"
proof -
  let ?k = "canonicalModelKey modelKey"
  obtain a1 s1 where ens: "ensureModelState a0 modelKey = (a1, s1)" by fastforce
  define s2 where "s2 = unwrapExpired a1 now s1"
  have pending: "ownLayerPending r a1 now = False"
    using assms(1) by (simp add: ownLayerPending_def credential_limit_def)
  define a4 where "a4 = noteError (res_Error r) False a1"
  obtain a5 s5 where b: "rateLimitModel r False False now ?k (cloneShallow s2) (ms_NextRetryAfter s2) a4
      (markFailed r now s2) = (a5, s5)" by fastforce
  define s6 where "s6 = (settleModel r False now (ms_NextRetryAfter s2) s5)\<lparr>ms_cooldownRecordedSeq := seq\<rparr>"
  define a8 where "a8 = mapSiblings ?k (\<lambda>other. other\<lparr>ms_cooldownRecordedSeq := seq\<rparr>)
      ((set_state ?k s6 a5)\<lparr>auth_cooldownRecordedSeq := seq\<rparr>)"
  have br: "modelFailureBranch env r False False now ?k (cloneShallow s2) (ms_NextRetryAfter s2) a4
      (markFailed r now s2) = (a5, s5)"
    using assms(1) b by (simp add: modelFailureBranch_def credential_limit_def Let_def)
  have eq: "modelFailure env r False now seq modelKey a0 =
      updateAggregatedAvailability now (a8\<lparr>auth_Status := StatusError\<rparr>)"
    using assms(1)
    by (simp add: modelFailure_def Let_def ens assms(2) pending s2_def [symmetric] a4_def [symmetric] br
        s6_def [symmetric] a8_def credential_limit_def)
  have q0: "auth_Quota a4 = auth_Quota a0" using ensure_fields(1) [OF ens] by (simp add: a4_def)
  note cov = rateLimitModel_covers [OF b]
  have q8: "auth_Quota (a8\<lparr>auth_Status := StatusError\<rparr>) = auth_Quota a5" by (simp add: a8_def)
  have scope: "res_CredentialScope r" using assms(1) by (simp add: credential_limit_def)
  have "credentialQuotaActive (a8\<lparr>auth_Status := StatusError\<rparr>) now"
    using cov [OF scope] q8 by (simp add: credentialQuotaActive_def credentialQuotaLabel_def)
  from aggregate_keeps_credential_quota [OF this] q8
  have "auth_Quota (modelFailure env r False now seq modelKey a0) = auth_Quota a5" by (simp only: eq)
  with cov [OF scope] show ?thesis by (simp add: credentialQuotaLabel_def q0)
qed

text \<open>
  (C6) A rate limit of the whole credential blocks every model. When a counting failure of any
  model carries the scope of the credential, then up to a deadline that lies ahead, and is no earlier
  than that of a credential quota from before, the availability test refuses the credential for every
  model.
\<close>

theorem credential_limit_blocks_all:
  assumes "MarkResult env r now m = (m', out)" "resultPolicy env = None" "res_AuthID r \<noteq> ''''"
    and "map_of (mgr_auths m) (res_AuthID r) = Some a0" "counts_against env r a0"
    and "plain_model (res_Model r)" "credential_limit r" "\<not> hasUnauthorizedAuthFailure a0"
  shows "\<exists>a d. map_of (mgr_auths m') (res_AuthID r) = Some a \<and> now < d \<and>
    (credentialQuotaLabel a0 \<longrightarrow> quota_NextRecoverAt (auth_Quota a0) \<le> d) \<and>
    (\<forall>model t. t < d \<longrightarrow> fst (isAuthBlockedForModel a model t))"
proof -
  define a where "a = fst (markAuth env r now (mgr_executionSeq m) a0)"
  have m': "map_of (mgr_auths m') (res_AuthID r) = Some a"
    using MarkResult_marks [OF assms(1-4)] assms(5) by (simp add: counts_against_def a_def)
  have "\<not> disableCoolingFor env (res_Error r) (countResult r a0)"
    using assms(5) by (simp add: counts_against_def)
  from modelFailure_covers [OF assms(7) this, of now "mgr_executionSeq m" "canonicalModelKey (res_Model r)"]
    marked_failure [OF assms(5,6), of now "mgr_executionSeq m"] assms(8)
  obtain q where q: "auth_Quota (marked env r now (mgr_executionSeq m) a0) = q" "quota_Exceeded q"
    "quota_Reason q = ''credential_quota''" "now < quota_NextRecoverAt q"
    "credentialQuotaLabel a0 \<longrightarrow> quota_NextRecoverAt (auth_Quota a0) \<le> quota_NextRecoverAt q"
    by (auto simp: credentialQuotaLabel_def)
  have "credentialQuotaActive a t" if "t < quota_NextRecoverAt q" for t
    using that q by (simp add: a_def markAuth_eq Let_def credentialQuotaActive_def)
  with m' q credential_quota_blocks show ?thesis by blast
qed

theorem credential_limit_blocks_all_witness:
  "\<exists>a d. map_of (mgr_auths (fst (MarkResult sample_env
             ((sample_result ''m'' False 429 5)\<lparr>res_CredentialScope := True\<rparr>) 100 sample_manager))) ''a'' = Some a \<and>
    100 < d \<and> (\<forall>model t. t < d \<longrightarrow> fst (isAuthBlockedForModel a model t))"
proof -
  let ?r = "(sample_result ''m'' False 429 5)\<lparr>res_CredentialScope := True\<rparr>"
  obtain m' out where run: "MarkResult sample_env ?r 100 sample_manager = (m', out)" by fastforce
  have "counts_against sample_env ?r (sample_auth ''a'')" "credential_limit ?r" by code_simp+
  moreover have "\<not> hasUnauthorizedAuthFailure (sample_auth ''a'')"
    by (simp add: sample_auth_def hasUnauthorizedAuthFailure_def)
  ultimately show ?thesis
    using credential_limit_blocks_all [OF run, of "sample_auth ''a''"] sample_plain run
    by (auto simp: sample_result_def sample_env_def sample_manager_def)
qed

section \<open>Covering and releasing\<close>

text \<open>What a credential quota does to the state of another model, once per report.\<close>

definition coverAll :: "(Auth \<times> time \<times> time \<times> int) list \<Rightarrow> ModelState \<Rightarrow> ModelState" where
  "coverAll reports s = fold (\<lambda>(a, now, until, level). coverSibling a now until level) reports s"

definition own_block :: "time \<Rightarrow> ModelState \<Rightarrow> bool" where
  "own_block now s \<longleftrightarrow>
     \<not> ms_credentialQuotaPropagated s \<and> quota_Reason (ms_Quota s) \<noteq> ''credential_quota'' \<and>
     isModelStateActiveCooldown now s \<and> \<not> isDevinQuotaExhaustionMessage (devinStateErrorText s)"

text \<open>A state that is covered and keeps its own block beneath.\<close>

definition covers :: "ModelState \<Rightarrow> ModelState \<Rightarrow> bool" where
  "covers s c \<longleftrightarrow>
     ms_credentialQuotaPropagated c \<and> quota_Exceeded (ms_Quota c) \<and>
     quota_Reason (ms_Quota c) = ''credential_quota'' \<and> ms_credentialQuotaShadow c = Some (cloneShallow s)"

lemma cover_first: "own_block now s \<Longrightarrow> covers s (coverSibling a now until level s)"
  by (simp add: covers_def coverSibling_def own_block_def unwrapExpired_def Let_def)

lemma cover_again: "covers s c \<Longrightarrow> credentialQuotaActive a now \<Longrightarrow> covers s (coverSibling a now until level c)"
  by (simp add: covers_def coverSibling_def unwrapExpired_def Let_def)

lemma coverAll_covers:
  assumes "covers s c" "\<forall>(a, now, until, level) \<in> set reports. credentialQuotaActive a now"
  shows "covers s (coverAll reports c)"
  using assms by (induction reports arbitrary: c) (auto simp: coverAll_def cover_again)

lemma active_layer [simp]: "isModelStateActiveCooldown now (cloneShallow s) = isModelStateActiveCooldown now s"
  by (simp add: isModelStateActiveCooldown_def)

lemma reinstate_clone: "reinstate (cloneShallow s) = s\<lparr>ms_credentialQuotaShadow := None\<rparr>"
  by (cases s) (simp add: reinstate_def cloneShallow_def ModelLayer.defs)

text \<open>
  (C9) Lifting a credential quota gives each model back exactly its own block. However often
  the quota was reported while it lasted, a state that waited for failures of its own before the
  first report comes back as it was when that wait is not over, and comes back clean when it is.
\<close>

theorem release_restores_own_block:
  assumes "own_block now s" "\<forall>(a, t, until, level) \<in> set reports. credentialQuotaActive a t"
  shows "releaseState now' (coverAll reports (coverSibling a now until level s)) =
    (if isModelStateActiveCooldown now' s
     then s\<lparr>ms_credentialQuotaShadow := None, ms_UpdatedAt := now'\<rparr>
     else resetModelState now' (coverAll reports (coverSibling a now until level s)))"
proof -
  have "covers s (coverAll reports (coverSibling a now until level s))"
    using coverAll_covers [OF cover_first [OF assms(1)] assms(2)] .
  moreover have "trim_space ''credential_quota'' = ''credential_quota''" by code_simp
  ultimately show ?thesis by (simp add: releaseState_def covers_def reinstate_clone Let_def)
qed

definition waiting_state :: ModelState where
  "waiting_state =
     (newModelState StatusError)\<lparr>ms_Unavailable := True, ms_NextRetryAfter := 900, ms_StatusMessage := ''slow''\<rparr>"

definition limited_auth :: Auth where
  "limited_auth = (sample_auth ''a'')\<lparr>auth_Quota := cooldownQuota True ''credential_quota'' 500 0\<rparr>"

theorem release_restores_own_block_witness:
  "releaseState 300 (coverAll [(limited_auth, 150, 600, 1), (limited_auth, 200, 700, 2)]
     (coverSibling (sample_auth ''a'') 100 500 0 waiting_state)) = waiting_state\<lparr>ms_UpdatedAt := 300\<rparr>"
proof -
  have own: "own_block 100 waiting_state" by code_simp
  have "isModelStateActiveCooldown 300 waiting_state" "ms_credentialQuotaShadow waiting_state = None"
    by code_simp+
  moreover have "\<forall>(a, t, until, level) \<in> set [(limited_auth, 150, 600, 1), (limited_auth, 200, 700, 2)].
      credentialQuotaActive a t"
    by (simp add: limited_auth_def credentialQuotaActive_def)
  ultimately show ?thesis
    using release_restores_own_block [OF own, of "[(limited_auth, 150, 600, 1), (limited_auth, 200, 700, 2)]" 300
        "sample_auth ''a''" 500 0] by simp
qed

section \<open>Storing and restoring\<close>

lemma updateAggregated_restored:
  assumes "state_at b k = Some s" "ms_NextRetryAfter s > now"
  shows "state_at (updateAggregatedAvailability now (b\<lparr>auth_Generation := g, auth_UpdatedAt := t\<rparr>)) k = Some s"
  using assms by (intro aggregate_keeps_live) (simp_all add: state_at_def)

text \<open>The state a record gives to a credential that had none for the model.\<close>

lemma merge_into_new:
  assumes "0 < rec_UpdatedAt rc" "0 < rec_NextRetryAfter rc"
    "0 \<le> quota_NextRecoverAt (rec_Quota rc)" "0 \<le> quota_BackoffLevel (rec_Quota rc)"
  shows "ms_NextRetryAfter (mergeStates (newModelState StatusActive) (recordState rc now)) = rec_NextRetryAfter rc"
    "ms_Unavailable (mergeStates (newModelState StatusActive) (recordState rc now))"
    "ms_Status (mergeStates (newModelState StatusActive) (recordState rc now)) = StatusError"
    "ms_LastError (mergeStates (newModelState StatusActive) (recordState rc now)) = rec_LastError rc"
    "ms_UpdatedAt (mergeStates (newModelState StatusActive) (recordState rc now)) = rec_UpdatedAt rc"
    "ms_cooldownRecordedSeq (mergeStates (newModelState StatusActive) (recordState rc now)) = 0"
    "ms_credentialQuotaShadow (mergeStates (newModelState StatusActive) (recordState rc now)) = None"
    "\<not> ms_credentialQuotaPropagated (mergeStates (newModelState StatusActive) (recordState rc now))"
    "cooldownQuotaEqual (ms_Quota (mergeStates (newModelState StatusActive) (recordState rc now))) (recordQuota rc)"
  using assms
  by (auto simp: mergeStates_def recordState_def newModelState_def recordUpdatedAt_def recordQuota_def
      cooldownQuotaEqual_def Let_def split: option.splits)

text \<open>
  (C10) A stored cooldown comes back as it was. The record of a waiting state, laid over a
  credential that has no state for the model and no credential quota of its own, gives a state with
  the same deadline, error, quota fields and own layer, covered when the stored one was; the mark
  that orders it with executions is gone, so that any later success may clear it.
\<close>

theorem stored_block_restored:
  assumes "modelCooldownStateRecord a k (Some s) now = Some rc" "restoreCooldownRecord env rc now' b = Some b'"
    and "canonical_states b" "state_at b k = None" "\<not> credentialQuotaActive b now'"
    and "canonicalModelKey k = k" "trim_space k = k" "k \<noteq> ''''" "0 < ms_UpdatedAt s" "0 \<le> now'"
    and "0 \<le> quota_NextRecoverAt (ms_Quota s)" "0 \<le> quota_BackoffLevel (ms_Quota s)"
  shows "\<exists>s'. state_at b' k = Some s' \<and> ms_Unavailable s' \<and> ms_NextRetryAfter s' = ms_NextRetryAfter s \<and>
    ms_LastError s' = ms_LastError s \<and> ms_UpdatedAt s' = ms_UpdatedAt s \<and>
    ms_credentialQuotaShadow s' = ms_credentialQuotaShadow s \<and> cooldownQuotaEqual (ms_Quota s') (recordQuota rc) \<and>
    ms_credentialQuotaPropagated s' = isWrappedRecord rc \<and> ms_cooldownRecordedSeq s' = 0"
proof -
  let ?s = "mergeStates (newModelState StatusActive) (recordState rc now')"
  have rc: "rec_Model rc = k" "rec_NextRetryAfter rc = ms_NextRetryAfter s" "rec_LastError rc = ms_LastError s"
    "rec_UpdatedAt rc = ms_UpdatedAt s" "rec_IndependentState rc = ms_credentialQuotaShadow s"
    "rec_Quota rc = cooldownFieldsOf (ms_Quota s)"
    using assms(1,7) by (auto simp: modelCooldownStateRecord_def Let_def split: if_splits)
  have later: "ms_NextRetryAfter s > now'" and b': "b' = restoreModelRecord rc now' b"
    using assms(2,7,8) rc by (auto simp: restoreCooldownRecord_def split: if_splits)
  have ens: "ensureModelState b k = (set_state k (newModelState StatusActive) b, newModelState StatusActive)"
    using assms(3,4,6) by (simp add: ensureModelState_def normalize_canonical Let_def)
  note new = merge_into_new [of rc now']
  have fields: "0 < rec_UpdatedAt rc" "0 < rec_NextRetryAfter rc" "0 \<le> quota_NextRecoverAt (rec_Quota rc)"
    "0 \<le> quota_BackoffLevel (rec_Quota rc)"
    using assms(9-12) later rc by (simp_all add: cooldownFieldsOf_def)
  note new = new [OF fields]
  define s' where "s' = (if isWrappedRecord rc then restoreWrapped rc None ?s else ?s)"
  have live: "liveShadow now' (newModelState StatusActive) = None"
    by (simp add: liveShadow_def newModelState_def isModelStateActiveCooldown_def)
  have unwrapped: "\<not> wasLiveWrapped (set_state k (newModelState StatusActive) b) now' (newModelState StatusActive)"
    using assms(5) by (simp add: wasLiveWrapped_def newModelState_def credentialQuotaActive_def)
  obtain b1 g t where b1: "b' = updateAggregatedAvailability now' (b1\<lparr>auth_Generation := g, auth_UpdatedAt := t\<rparr>)"
    "state_at b1 k = Some s'"
    using assms(6,7) by (auto simp: b' restoreModelRecord_def rc(1) ens live unwrapped s'_def Let_def)
  have s': "ms_NextRetryAfter s' = ms_NextRetryAfter s" "ms_Unavailable s'" "ms_LastError s' = ms_LastError s"
    "ms_UpdatedAt s' = ms_UpdatedAt s" "cooldownQuotaEqual (ms_Quota s') (recordQuota rc)"
    "ms_cooldownRecordedSeq s' = 0" "ms_credentialQuotaPropagated s' = isWrappedRecord rc"
    using new rc by (simp_all add: s'_def restoreWrapped_def)
  have "ms_credentialQuotaShadow s' = ms_credentialQuotaShadow s"
    using new(7) rc(5) by (auto simp: s'_def restoreWrapped_def isWrappedRecord_def split: option.splits)
  moreover have "state_at b' k = Some s'"
    using updateAggregated_restored [OF b1(2)] s'(1) later b1(1) by simp
  ultimately show ?thesis using s' by blast
qed

theorem stored_block_restored_witness:
  "\<exists>b' s'. restoreCooldownRecord sample_env
       (the (modelCooldownStateRecord (sample_auth ''a'') ''m''
          (Some (waiting_state\<lparr>ms_UpdatedAt := 100\<rparr>)) 200)) 300 (sample_auth ''a'') = Some b' \<and>
     state_at b' ''m'' = Some s' \<and> ms_NextRetryAfter s' = 900"
proof -
  let ?s = "waiting_state\<lparr>ms_UpdatedAt := 100\<rparr>"
  have "case modelCooldownStateRecord (sample_auth ''a'') ''m'' (Some ?s) 200 of
      None \<Rightarrow> False | Some rc \<Rightarrow> restoreCooldownRecord sample_env rc 300 (sample_auth ''a'') \<noteq> None"
    by code_simp
  then obtain rc b' where rc: "modelCooldownStateRecord (sample_auth ''a'') ''m'' (Some ?s) 200 = Some rc"
    "restoreCooldownRecord sample_env rc 300 (sample_auth ''a'') = Some b'"
    by (auto split: option.splits)
  have k: "canonicalModelKey ''m'' = ''m''" "trim_space ''m'' = ''m''" by code_simp+
  have "canonical_states (sample_auth ''a'')" "state_at (sample_auth ''a'') ''m'' = None"
    "\<not> credentialQuotaActive (sample_auth ''a'') 300"
    by (simp_all add: canonical_states_def sample_auth_def state_at_def credentialQuotaActive_def)
  from stored_block_restored [OF rc this k] rc show ?thesis
    by (auto simp: waiting_state_def newModelState_def)
qed

section \<open>Where the code falls short\<close>

text \<open>
  An older record replaces a newer block of a model that is not covered yet, when it meets a credential
  under a quota of its own: the state captured from the live credential is looked at only when the
  merged state has a layer beneath already.
\<close>

lemma older_record_replaces_newer_block:
  "map_option ms_UpdatedAt (ms_credentialQuotaShadow
     (the (state_at (restoreModelRecord
       \<lparr>rec_Provider = ''gemini'', rec_AuthID = ''a'', rec_AuthFile = '''', rec_Model = ''m'', rec_Status = ''cooling'',
        rec_NextRetryAfter = 400, rec_Reason = ''slow'', rec_Quota = emptyQuota, rec_LastError = None,
        rec_UpdatedAt = 100, rec_IndependentState = None, rec_CredentialQuotaPropagated = False\<rparr> 300
       (limited_auth\<lparr>auth_ModelStates := [(''m'', Some (waiting_state\<lparr>ms_UpdatedAt := 200\<rparr>))]\<rparr>)) ''m''))) = Some 100"
  by code_simp

text \<open>
  A model with two suffixes: the failure is kept under the name without any, the availability test looks
  for the one with the first, so nothing is blocked.
\<close>

lemma two_suffixes_not_blocked:
  "case MarkResult sample_env (sample_result ''m(a)(b)'' False 429 5) 100 sample_manager of
     (m', out) \<Rightarrow> map_option (\<lambda>a. (map fst (auth_ModelStates a), isAuthBlockedForModel a ''m(a)(b)'' 101))
                   (map_of (mgr_auths m') ''a'')
       = Some ([''m''], (False, blockReasonNone, 0))"
  by code_simp

end
