(* ===== verification/Result_Routing.thy ===== *)
theory Result_Routing
  imports Routing Cooldown_Layers
begin

text \<open>
  A result on its way through the program: the conductor marks it on the credential, then hands the
  credential to the scheduler and its projections to the model registry (the end of \<open>MarkResult\<close> in
  \<open>conductor_cooldown.go\<close>). A failure that counts keeps the credential from being picked for the model,
  and suspends the model for it in the registry.
\<close>

section \<open>Handing a result on\<close>

definition notifyScheduler :: "modelDirectory \<Rightarrow> MarkOutcome \<Rightarrow> time \<Rightarrow> authScheduler \<Rightarrow> authScheduler" where
  "notifyScheduler dir out now s =
     (case mark_Snapshot out of
        None \<Rightarrow> s
      | Some a \<Rightarrow> upsertAuthResultLocked dir a (mark_Targets out) (mark_CredentialScoped out) now s)"

definition projectModel :: "CooldownEnv \<Rightarrow> Auth \<Rightarrow> time \<Rightarrow> string \<Rightarrow> ClientModelProjection" where
  "projectModel env a now model =
     (case clientModelProjectionForAuth env (Some a) model now of
        (target, suspended, reason, quotaExceeded) \<Rightarrow>
          \<lparr>pr_ModelID = target, pr_Suspended = suspended, pr_SuspendReason = reason,
           pr_QuotaExceeded = quotaExceeded\<rparr>)"

definition notifyRegistry :: "CooldownEnv \<Rightarrow> MarkOutcome \<Rightarrow> time \<Rightarrow> ModelRegistry \<Rightarrow> bool \<times> ModelRegistry" where
  "notifyRegistry env out now r =
     (case mark_Snapshot out of
        None \<Rightarrow> (False, r)
      | Some a \<Rightarrow>
          (let clientID = res_AuthID (mark_Result out);
               (supported, epoch) = GetModelsAndEpochForClient r clientID;
               projections = map (projectModel env a now)
                 (filter (\<lambda>i. trim_space i \<noteq> '''') (map mi_ID supported))
           in if projections = [] then (False, r)
              else ApplyClientModelProjections clientID epoch (auth_Generation a) projections now r))"

section \<open>The scheduler\<close>

text \<open>After a credential was entered, the shards it was entered for have no other snapshot of it.\<close>

definition onlyMeta :: "scheduledAuthMeta \<Rightarrow> string \<Rightarrow> providerScheduler \<Rightarrow> bool" where
  "onlyMeta meta k p \<longleftrightarrow>
     (\<forall>m x. map_of (ps_modelShards p) k = Some m \<longrightarrow> metaAt m (m_id meta) = Some x \<longrightarrow> x = meta)"

lemma refresh_only:
  assumes "provider_ok t pk p" "meta_ok pk meta" "map_of (ps_modelShards p) k = Some m"
  shows "metaAt (refreshShard meta now k m) (m_id meta) = Some x \<Longrightarrow> x = meta"
proof -
  have "shard_ok t m" using assms(1,3) by (auto simp: provider_ok_def shard_fits_def)
  from metaAt_refresh [OF this conjunct1 [OF meta_ok_id [OF assms(2)]], of now k]
  show "metaAt (refreshShard meta now k m) (m_id meta) = Some x \<Longrightarrow> x = meta" by (simp split: if_splits)
qed

lemma refreshShardAt_only:
  assumes "provider_ok t pk p" "meta_ok pk meta" "k' = k \<or> onlyMeta meta k p"
  shows "onlyMeta meta k (refreshShardAt meta now k' p)"
  using assms refresh_only [OF assms(1,2), of k _ now]
  by (auto simp: onlyMeta_def refreshShardAt_def split: option.splits if_splits)

lemma refreshShards_only:
  assumes "provider_ok now pk p" "0 \<le> now" "meta_ok pk meta" "map_of (ps_auths p) (m_id meta) = Some meta"
    and "k \<in> set ks \<or> onlyMeta meta k p"
  shows "onlyMeta meta k (fold (refreshShardAt meta now) ks p)"
  using assms
proof (induction ks arbitrary: p)
  case (Cons k' ks)
  have "provider_ok now pk (refreshShardAt meta now k' p)" by (rule refreshShardAt_ok [OF Cons.prems(1-4)])
  moreover have "k \<in> set ks \<or> onlyMeta meta k (refreshShardAt meta now k' p)"
    using Cons.prems(5) refreshShardAt_only [OF Cons.prems(1,3), of k' k now] by auto
  ultimately show ?case using Cons.IH Cons.prems(2-4) by simp
qed simp

lemma upsertAuthForModels_only:
  assumes "provider_ok t pk p" "t \<le> now" "0 \<le> now" "meta_ok pk meta"
    and "scoped \<or> targets = [] \<or>
      (\<exists>old. map_of (ps_auths p) (m_id meta) = Some old \<and> m_supportedModelSet old = m_supportedModelSet meta)"
    and "scoped \<or> targets = [] \<or> k \<in> canonicalModelKey ` set targets"
  shows "onlyMeta meta k (upsertAuthForModelsLocked meta targets scoped now p)"
proof (cases "scoped \<or> targets = []")
  case True
  then show ?thesis
    using refresh_only [OF assms(1,4), of k _ now]
    by (auto simp: onlyMeta_def upsertAuthForModelsLocked_def Let_def map_of_map_key)
next
  case False
  let ?p = "p\<lparr>ps_auths := AList.update (m_id meta) meta (ps_auths p)\<rparr>"
  obtain old where old: "map_of (ps_auths p) (m_id meta) = Some old"
      "m_supportedModelSet old = m_supportedModelSet meta"
    using False assms(5) by blast
  have "shard_fits now pk ((map_of (ps_auths p))(m_id meta \<mapsto> meta)) k m"
    if "map_of (ps_modelShards p) k = Some m" for k m
    using that assms(1,2) untouched_fits [of t pk "map_of (ps_auths p)" k m meta old] old
    by (auto simp: provider_ok_def intro: shard_fits_mono)
  then have p: "provider_ok now pk ?p"
    using assms(1,4) by (auto simp: provider_ok_def distinct_update update_conv')
  have at: "map_of (ps_auths ?p) (m_id meta) = Some meta" by simp
  have "k \<in> canonicalModelKey ` set targets" using False assms(6) by blast
  then have "k \<in> set (rev (remdups (rev (map canonicalModelKey targets))))" by simp
  with refreshShards_only [OF refreshShardAt_ok [OF p assms(3,4) at, of "''''"] assms(3,4), where k = k] at False
  show ?thesis by (simp add: upsertAuthForModelsLocked_def updateTargetShardsLocked_def Let_def)
qed

lemma enter_provider:
  assumes "sched_core t s"
  obtains p where "provider_ok t pk p" "map_of (ps_auths p) = metaIn s pk"
    "map_of (s_providers (enter i pk meta targets scoped now s)) pk = Some (upsertAuthForModelsLocked meta targets scoped now p)"
proof -
  define p where "p = (case map_of (s_providers s) pk of None \<Rightarrow> newProvider pk | Some p \<Rightarrow> p)"
  have leave: "map_of (s_providers (leavePreviousProvider i pk s)) pk = map_of (s_providers s) pk"
    by (simp add: leavePreviousProvider_def Let_def)
  show thesis
  proof (rule that [of p])
    show "provider_ok t pk p" using assms by (simp add: p_def sched_core_def split: option.split)
    show "map_of (ps_auths p) = metaIn s pk" by (auto simp: p_def metaIn_def newProvider_def split: option.split)
    show "map_of (s_providers (enter i pk meta targets scoped now s)) pk = Some (upsertAuthForModelsLocked meta targets scoped now p)"
      using leave by (auto simp: enter_def scheduleMeta_def ensureProviderLocked_def Let_def p_def split: option.split)
  qed
qed

text \<open>Every entry of the credential that a pick for the model may see is the snapshot of the result.\<close>

lemma result_entry:
  assumes "sched_ok t s" "t \<le> now" "0 \<le> now" "trimmed a"
    and "\<not> isStaleScheduledAuth (auth_ID a) (auth_RegistrationEpoch a) (auth_Generation a) (auth_UpdatedAt a) s"
    and "scoped \<or> targets = [] \<or> k \<in> canonicalModelKey ` set targets" "auth_ID a \<noteq> ''''"
    and "poolOf (upsertAuthResultLocked dir a targets scoped now s) pk k (auth_ID a) = Some x"
  shows "m_auth x = a"
  using assms(4)
proof (cases rule: result_cases [of a dir targets scoped now s])
  case discarded
  have "metaIn (upsertAuthResultLocked dir a targets scoped now s) pk (auth_ID a) = None"
    unfolding discarded(3) discard_ok(2) [OF assms(1,2)] by simp
  with poolOf_entries(2) [OF result_ok [OF assms(1-4)] assms(8)] show ?thesis by auto
next
  case (entered q meta targets' scoped')
  let ?r = "recordGeneration (auth_ID a) (auth_RegistrationEpoch a) (auth_Generation a) (auth_UpdatedAt a) s"
  have id: "m_id meta = auth_ID a" using entered(4,5) by (auto simp: meta_ok_def schedulable_iff)
  have meta: "metaIn (upsertAuthResultLocked dir a targets scoped now s) pk (auth_ID a) = (if pk = q then Some meta else None)"
    unfolding entered(7) using admit_ok(2) [OF assms(1-3) entered(4) id entered(6)] entered(5) by simp
  with poolOf_entries(2) [OF result_ok [OF assms(1-4)] assms(8)] have pk: "pk = q" by (auto split: if_splits)
  have core: "sched_core t ?r" using assms(1) by (simp add: sched_ok_def record_core)
  obtain p where p: "provider_ok t q p" "map_of (ps_auths p) = metaIn ?r q"
    "map_of (s_providers (enter (auth_ID a) q meta targets' scoped' now ?r)) q =
       Some (upsertAuthForModelsLocked meta targets' scoped' now p)"
    by (rule enter_provider [OF core])
  have "scoped' \<or> targets' = [] \<or> (\<exists>old. map_of (ps_auths p) (m_id meta) = Some old \<and>
      m_supportedModelSet old = m_supportedModelSet meta)"
    using entered(6) p(2) id by (simp add: metaIn_def recordGeneration_def)
  moreover have "scoped' \<or> targets' = [] \<or> k \<in> canonicalModelKey ` set targets'"
    using entered(10) assms(6) by auto
  ultimately have only: "onlyMeta meta k (upsertAuthForModelsLocked meta targets' scoped' now p)"
    by (rule upsertAuthForModels_only [OF p(1) assms(2,3) entered(4)])
  have "x = meta"
  proof (cases "shardAt (upsertAuthResultLocked dir a targets scoped now s) q k")
    case None
    with assms(8) meta pk show ?thesis by (auto simp: poolOf_def split: if_splits)
  next
    case (Some m)
    then have "map_of (ps_modelShards (upsertAuthForModelsLocked meta targets' scoped' now p)) k = Some m"
      using p(3) by (simp add: shardAt_def entered(7))
    moreover have "metaAt m (m_id meta) = Some x" using assms(8) Some pk id by (simp add: poolOf_def)
    ultimately show ?thesis using only unfolding onlyMeta_def by blast
  qed
  then show ?thesis using entered(5) by simp
qed (use assms(5,7) in auto)

text \<open>So a pick for the model returns the credential only if its snapshot can be used.\<close>

lemma result_picked:
  assumes "sched_ok t s" "t \<le> now" "0 \<le> now" "trimmed a" "auth_ID a \<noteq> ''''"
    and "\<not> isStaleScheduledAuth (auth_ID a) (auth_RegistrationEpoch a) (auth_Generation a) (auth_UpdatedAt a) s"
    and "scoped \<or> targets = [] \<or> canonicalModelKey (canonicalModelKey model) \<in> canonicalModelKey ` set targets"
    and "fst (pickMixedWithStrategy providers model rq strategy u
               (upsertAuthResultLocked dir a targets scoped now s)) = Inr (b, pk)"
    and "now \<le> u" "auth_ID b = auth_ID a"
  shows "usable (canonicalModelKey (canonicalModelKey model)) u a"
proof -
  let ?s = "upsertAuthResultLocked dir a targets scoped now s" and ?k = "canonicalModelKey (canonicalModelKey model)"
  have ok: "sched_ok now ?s" by (rule result_ok [OF assms(1-4)])
  obtain s' where "pickMixedWithStrategy providers model rq strategy u ?s = (Inr (b, pk), s')"
    using assms(8) by (metis fst_conv old.prod.exhaust)
  from pickMixed_offers [OF ok assms(9) _ this] assms(3,9)
  obtain w meta where w: "meta \<in> offers ?s pk ?k w (currentStrategy strategy ?s) rq u" "b = m_auth meta" by auto
  then have m: "poolOf ?s pk ?k (m_id meta) = Some meta" "usable ?k u (m_auth meta)"
    by (auto simp: offers_def pool_choices_def Let_def split: if_splits)
  have "m_id meta = auth_ID a"
    using poolOf_entries(1) [OF ok m(1)] w(2) assms(4,10) by (simp add: meta_ok_def schedulable_iff)
  with m result_entry [OF assms(1-4,6,7,5), of dir pk meta] w(2) show ?thesis by simp
qed

section \<open>What a failure leaves of the credential's identity\<close>

text \<open>The registration, the generation and the name.\<close>

definition identity :: "Auth \<Rightarrow> string \<times> nat \<times> nat" where
  "identity a = (auth_ID a, auth_RegistrationEpoch a, auth_Generation a)"

lemma identity_simps [simp]:
  "identity (countResult r a) = identity a" "identity (noteError e w a) = identity a"
  "identity (set_state k s a) = identity a" "identity (mapSiblings k f a) = identity a"
  "identity (coverCredential t l a) = identity a" "identity (normalizeModelStates a) = identity a"
  "identity (updateAggregatedAvailability now a) = identity a"
  "identity (fst (recordRejectedTokenOnAuth tok a)) = identity a"
  "identity (observeQuota env r k now a) = identity a"
  "identity (a\<lparr>auth_Status := st\<rparr>) = identity a" "identity (a\<lparr>auth_cooldownRecordedSeq := n\<rparr>) = identity a"
  "identity (a\<lparr>auth_StatusMessage := msg\<rparr>) = identity a"
  by (auto simp: identity_def countResult_def noteError_def set_state_def mapSiblings_def coverCredential_def
      normalizeModelStates_def updateAggregatedAvailability_def clearAggregatedAvailability_def
      recordRejectedTokenOnAuth_def observeQuota_def Let_def split: option.splits prod.splits)

lemma identity_note [simp]: "identity (fst (noteUnauthorized env r w now a)) = identity a"
proof -
  have upd: "identity (b\<lparr>auth_Unavailable := u, auth_Status := st, auth_NextRefreshAfter := x, auth_NextRetryAfter := y\<rparr>) =
      identity b" "identity (b\<lparr>auth_NextRefreshAfter := x\<rparr>) = identity b" for b u st x y
    by (simp_all add: identity_def)
  show ?thesis by (simp add: noteUnauthorized_def Let_def upd)
qed

lemma identity_branch:
  "modelFailureBranch env r d w now k saved prev a s = (a', s') \<Longrightarrow> identity a' = identity a"
  by (auto simp: modelFailureBranch_def rateLimitModel_def Let_def split: if_splits prod.splits)

lemma identity_ensure: "ensureModelState a model = (a', s) \<Longrightarrow> identity a' = identity a"
  by (auto simp: ensureModelState_def Let_def split: option.splits)

lemma identity_modelFailure: "identity (modelFailure env r w now seq modelKey a) = identity a"
  by (simp add: modelFailure_def Let_def split: prod.splits) (auto dest!: identity_ensure identity_branch)

lemma identity_marked:
  assumes "counts_against env r a0" "plain_model (res_Model r)"
  shows "identity (fst (markAuth env r now seq a0)) =
    (auth_ID a0, auth_RegistrationEpoch a0, auth_Generation a0 + 1)"
proof -
  define b where "b = fst (noteUnauthorized env r (hasUnauthorizedAuthFailure a0) now (marked env r now seq a0))"
  have "identity b = identity a0"
    unfolding b_def marked_failure [OF assms] by (simp add: identity_modelFailure)
  then have "identity (b\<lparr>auth_Generation := auth_Generation b + 1, auth_UpdatedAt := now\<rparr>) =
      (auth_ID a0, auth_RegistrationEpoch a0, auth_Generation a0 + 1)" by (simp add: identity_def)
  then show ?thesis unfolding markAuth_eq Let_def b_def [symmetric] identity_simps(9) .
qed

lemma MarkResult_targets:
  assumes "MarkResult env r now m = (m', out)" "resultPolicy env = None" "res_AuthID r \<noteq> ''''"
    "map_of (mgr_auths m) (res_AuthID r) = Some a0" "\<not> isStaleExecutionResult r a0"
  shows "mark_Targets out = resultTargets r (resultModelKey env r a0) (mark_CredentialScoped out)"
    "mark_Result out = r"
  using assms by (auto simp: MarkResult_def markResultFor_def Let_def split: prod.splits)

text \<open>The scheduler knows nothing newer of the credential than the conductor.\<close>

definition known_by :: "Auth \<Rightarrow> authScheduler \<Rightarrow> bool" where
  "known_by a s \<longleftrightarrow>
     (\<forall>g. map_of (s_authGenerations s) (auth_ID a) = Some g \<longrightarrow> g_epoch g \<le> auth_RegistrationEpoch a \<and>
        (g_epoch g = auth_RegistrationEpoch a \<longrightarrow> g_generation g \<le> auth_Generation a))"

text \<open>
  (C4) A failure keeps its credential from being picked. When a counting failure of a model was
  recorded and handed to the scheduler, whichever state the scheduler was in, then from that moment
  until a deadline that lies ahead, and is no earlier than the one the model was waiting for, no pick
  for the model (whatever the providers, the request and the strategy) returns the credential.
\<close>

theorem failed_credential_not_picked:
  assumes "MarkResult env r now m = (m', out)" "resultPolicy env = None" "res_AuthID r \<noteq> ''''"
    and "map_of (mgr_auths m) (res_AuthID r) = Some a0" "counts_against env r a0"
    and "plain_model (res_Model r)" "transient_cooling env" "auth_ID a0 = res_AuthID r" "trimmed a0"
    and "reaches selector t s" "t \<le> now" "known_by a0 s"
  shows "\<exists>d. now < d \<and> deadlineBefore a0 (res_Model r) now \<le> d \<and>
    (\<forall>u providers model rq strategy b pk. now \<le> u \<and> u < d \<and>
       canonicalModelKey model = canonicalModelKey (res_Model r) \<and>
       fst (pickMixedWithStrategy providers model rq strategy u (notifyScheduler dir out now s)) = Inr (b, pk) \<longrightarrow>
       auth_ID b \<noteq> res_AuthID r)"
proof -
  define a where "a = fst (markAuth env r now (mgr_executionSeq m) a0)"
  define k where "k = canonicalModelKey (res_Model r)"
  have k: "canonicalModelKey k = k" "k \<noteq> ''''" using assms(6) by (simp_all add: k_def plain_model_def)
  have ok: "sched_ok t s" "0 \<le> now" using reaches_ok [OF assms(10)] assms(11) by auto
  have live: "\<not> isStaleExecutionResult r a0" using assms(5) by (simp add: counts_against_def)
  note out = MarkResult_marks [OF assms(1-4) live] MarkResult_targets [OF assms(1-4) live]
  obtain d where d: "state_at a k = Some d" "now < ms_NextRetryAfter d"
    "deadlineBefore a0 (res_Model r) now \<le> ms_NextRetryAfter d" "ms_Unavailable d"
    using failure_state [OF assms(5-7) ok(2)] unfolding a_def k_def by metis
  have id: "auth_ID a = res_AuthID r" "auth_RegistrationEpoch a = auth_RegistrationEpoch a0"
    "auth_Generation a = auth_Generation a0 + 1"
    using identity_marked [OF assms(5,6), of now "mgr_executionSeq m"] assms(8) by (simp_all add: a_def identity_def)
  have fresh: "trimmed a" "auth_ID a \<noteq> ''''"
    "\<not> isStaleScheduledAuth (auth_ID a) (auth_RegistrationEpoch a) (auth_Generation a) (auth_UpdatedAt a) s"
    using assms(3,8,9,12) id by (auto simp: isStaleScheduledAuth_def known_by_def split: option.splits)
  have targets: "mark_CredentialScoped out \<or> mark_Targets out = [] \<or> k \<in> canonicalModelKey ` set (mark_Targets out)"
    using out(2) k resultModelKey_plain [OF assms(6), of env a0] by (auto simp: resultTargets_def k_def)
  have notify: "notifyScheduler dir out now s =
      upsertAuthResultLocked dir a (mark_Targets out) (mark_CredentialScoped out) now s"
    using out(1) by (simp add: notifyScheduler_def a_def)
  have "auth_ID b \<noteq> res_AuthID r"
    if u: "now \<le> u" "u < ms_NextRetryAfter d" and model: "canonicalModelKey model = k"
      and pick: "fst (pickMixedWithStrategy providers model rq strategy u (notifyScheduler dir out now s)) = Inr (b, pk)"
    for u providers model rq strategy b pk
  proof
    assume "auth_ID b = res_AuthID r"
    then have "auth_ID b = auth_ID a" using id(1) by simp
    from result_picked [OF ok(1) assms(11) ok(2) fresh _ pick [unfolded notify] u(1) this] targets
    have "usable k u a" by (simp add: model k)
    moreover have "fst (isAuthBlockedForModel a k u)"
      using waiting_blocks [OF d(4) u(2)] u(1) ok(2) k by (intro blocked_by_state [OF d(1)]) auto
    ultimately show False by auto
  qed
  with d show ?thesis unfolding k_def by blast
qed

theorem failed_credential_not_picked_witness:
  "fst (pickMixedWithStrategy [''gemini''] ''m'' sample_request schedulerStrategyFillFirst 90
     (schedStep 1 (UpsertAuth sample_dir (sample_auth ''a'')) (newAuthScheduler NilSelector))) =
     Inr (sample_auth ''a'', ''gemini'') \<and>
   (\<exists>d > 100. \<forall>u b pk. 100 \<le> u \<and> u < d \<and>
      fst (pickMixedWithStrategy [''gemini''] ''m'' sample_request schedulerStrategyFillFirst u
        (notifyScheduler sample_dir (snd (MarkResult sample_env (sample_result ''m'' False 429 5) 100 sample_manager)) 100
           (schedStep 1 (UpsertAuth sample_dir (sample_auth ''a'')) (newAuthScheduler NilSelector)))) = Inr (b, pk) \<longrightarrow>
      auth_ID b \<noteq> ''a'')"
proof
  let ?s = "schedStep 1 (UpsertAuth sample_dir (sample_auth ''a'')) (newAuthScheduler NilSelector)"
  show "fst (pickMixedWithStrategy [''gemini''] ''m'' sample_request schedulerStrategyFillFirst 90 ?s) =
      Inr (sample_auth ''a'', ''gemini'')" by code_simp
  obtain m' out where run: "MarkResult sample_env (sample_result ''m'' False 429 5) 100 sample_manager = (m', out)"
    by fastforce
  have "trimmed (sample_auth ''a'')" by code_simp
  then have "sched_step (\<lambda>_. True) (0, newAuthScheduler NilSelector) (1, ?s)"
    by (intro sched_step.step) simp_all
  then have reach: "reaches NilSelector 1 ?s" by (rule r_into_rtranclp)
  have "map_of (s_authGenerations ?s) ''a'' = Some \<lparr>g_epoch = auth_RegistrationEpoch (sample_auth ''a''),
      g_generation = auth_Generation (sample_auth ''a''), g_updatedAt = auth_UpdatedAt (sample_auth ''a'')\<rparr>"
    by code_simp
  then have known: "known_by (sample_auth ''a'') ?s"
    by (simp add: known_by_def sample_auth_def del: schedStep.simps)
  have sample: "resultPolicy sample_env = None" "res_AuthID (sample_result ''m'' False 429 5) = ''a''"
    "res_Model (sample_result ''m'' False 429 5) = ''m''" "auth_ID (sample_auth ''a'') = ''a''"
    "map_of (mgr_auths sample_manager) ''a'' = Some (sample_auth ''a'')"
    by (simp_all add: sample_env_def sample_result_def sample_auth_def sample_manager_def)
  from failed_credential_not_picked [OF run _ _ _ sample_counts _ sample_cooling _ \<open>trimmed (sample_auth ''a'')\<close> reach _ known,
      of sample_dir, unfolded sample, OF refl _ refl sample_plain refl]
  obtain d where d: "100 < d" "\<forall>u providers model rq strategy b pk. 100 \<le> u \<and> u < d \<and>
      canonicalModelKey model = canonicalModelKey ''m'' \<and>
      fst (pickMixedWithStrategy providers model rq strategy u (notifyScheduler sample_dir out 100 ?s)) = Inr (b, pk) \<longrightarrow>
      auth_ID b \<noteq> ''a''" by auto
  show "\<exists>d > 100. \<forall>u b pk. 100 \<le> u \<and> u < d \<and>
      fst (pickMixedWithStrategy [''gemini''] ''m'' sample_request schedulerStrategyFillFirst u
        (notifyScheduler sample_dir (snd (MarkResult sample_env (sample_result ''m'' False 429 5) 100 sample_manager)) 100 ?s)) =
        Inr (b, pk) \<longrightarrow> auth_ID b \<noteq> ''a''"
    unfolding run snd_conv using d by blast
qed

section \<open>The registry\<close>

lemma mentioned_registered:
  assumes "registry_ok r" "map_of (mr_clientModels r) c = Some ids" "i \<in> set ids"
  shows "map_of (mr_models r) i \<noteq> None"
proof -
  have "wf_map (mr_clientModels r)" using clients_okD(1) [OF registry_okD(2) [OF assms(1)]] .
  from bindings_of_delete [OF this assms(2), of "get_or '''' (mr_clientProviders r)" i] assms(3)
  have "bindings r i \<noteq> {#}" by (auto simp: bindings_def count_list_0_iff)
  with registry_okD(3) [OF assms(1), of i] show ?thesis by (auto simp: counts_opt_def split: option.splits)
qed

lemma projected_suspended:
  assumes "state_at a k = Some s" "ms_Unavailable s" "selectionModelKeyForAuth env a model = k"
    and "canonicalModelKey k = k" "k \<noteq> ''''" "trim_space model = model" "model \<noteq> ''''"
  shows "pr_Suspended (projectModel env a now model)" "pr_ModelID (projectModel env a now model) = model"
  using assms by (simp_all add: projectModel_def clientModelProjectionForAuth_def existingModelState_def Let_def)

lemma projectModel_id: "pr_ModelID (projectModel env a now model) = trim_space model"
  by (simp add: projectModel_def clientModelProjectionForAuth_def Let_def)



end
