(* ===== verification/Session_Cache.thy ===== *)
theory Session_Cache
  imports Credential
begin

text \<open>
  The cache of session bindings (\<open>sdk/cliproxy/auth/session_cache.go\<close>): identifiers of one logical
  session form a group that is bound to a credential until it expires or is evicted, and a
  sequence number records the order of the selections.

  The operations follow the code on its redundant state: the entries by alias, the groups by primary
  key, the list of eviction with the map of its elements, and the index of the groups of a session.
  A list element of \<open>container/list\<close> is its identity with its value; the identity comes from a
  counter. A nil map reads as the empty map that \<open>ensureInitializedLocked\<close> makes of it. Every call
  takes what \<open>time.Now\<close> returns in it, and holds the mutex, so that calls happen one after the
  other; only \<open>Get\<close> takes the lock twice and reads the clock again.
\<close>

section \<open>State\<close>

definition maxStableSessionAliases :: nat where "maxStableSessionAliases = 64"

definition defaultMaxSessionEntries :: int where "defaultMaxSessionEntries = 65536"

record sessionBinding =
  bind_sessionID :: string
  bind_provider :: string
  bind_sequence :: nat

record sessionEntry =
  entry_authID :: string
  entry_expiresAt :: time
  entry_aliases :: "string list"
  entry_binding :: sessionBinding

record SessionCache =
  cache_entries :: "(string \<times> sessionEntry) list"
  cache_groups :: "(string \<times> sessionEntry) list"
  cache_order :: "(nat \<times> string) list"
  cache_elements :: "(string \<times> nat) list"
  cache_nextElement :: nat
  cache_maxEntries :: int
  cache_ttl :: duration
  cache_sessionGroups :: "(string \<times> (string \<times> unit) list) list"
  cache_bindingSequence :: nat

definition NewSessionCacheWithCapacity :: "duration \<Rightarrow> int \<Rightarrow> SessionCache" where
  "NewSessionCacheWithCapacity ttl maxEntries =
     \<lparr>cache_entries = [], cache_groups = [], cache_order = [], cache_elements = [],
      cache_nextElement = 0,
      cache_maxEntries = (if maxEntries \<le> 0 then defaultMaxSessionEntries else maxEntries),
      cache_ttl = (if ttl \<le> 0 then 30 * 60 * 1000000000 else ttl),
      cache_sessionGroups = [], cache_bindingSequence = 0\<rparr>"

definition NewSessionCache :: "duration \<Rightarrow> SessionCache" where
  "NewSessionCache ttl = NewSessionCacheWithCapacity ttl defaultMaxSessionEntries"

section \<open>Lists of aliases\<close>

definition addSessionAlias :: "string list \<Rightarrow> string \<Rightarrow> string list" where
  "addSessionAlias aliases alias =
     (if alias = '''' then aliases
      else if alias \<in> set aliases then aliases
      else aliases @ [alias])"

definition mergeSessionAliases :: "string list \<Rightarrow> string list \<Rightarrow> string list" where
  "mergeSessionAliases existing candidates =
     foldl addSessionAlias (foldl addSessionAlias [] existing) candidates"

text \<open>The loop carries \<open>hasPromptCacheKey\<close> and \<open>stableAliases\<close>.\<close>

fun compactAliasesFrom :: "(string \<Rightarrow> bool) \<Rightarrow> bool \<Rightarrow> nat \<Rightarrow> string list \<Rightarrow> string list" where
  "compactAliasesFrom isPromptCacheAlias hasPromptCacheKey stableAliases [] = []"
| "compactAliasesFrom isPromptCacheAlias hasPromptCacheKey stableAliases (alias # aliases) =
     (if isPromptCacheAlias alias
      then (if hasPromptCacheKey
            then compactAliasesFrom isPromptCacheAlias hasPromptCacheKey stableAliases aliases
            else alias # compactAliasesFrom isPromptCacheAlias True stableAliases aliases)
      else (if stableAliases \<ge> maxStableSessionAliases
            then compactAliasesFrom isPromptCacheAlias hasPromptCacheKey stableAliases aliases
            else alias # compactAliasesFrom isPromptCacheAlias hasPromptCacheKey (Suc stableAliases) aliases))"

definition compactSessionAliasesWith :: "string list \<Rightarrow> (string \<Rightarrow> bool) \<Rightarrow> string list" where
  "compactSessionAliasesWith aliases isPromptCacheAlias =
     compactAliasesFrom isPromptCacheAlias False 0 aliases"

text \<open>What follows the first occurrence of a separator, as in \<open>strings.Cut\<close>.\<close>

fun afterCut :: "string \<Rightarrow> string \<Rightarrow> string option" where
  "afterCut sep [] = (if sep = [] then Some [] else None)"
| "afterCut sep (c # cs) =
     (if has_prefix (c # cs) sep then Some (drop (length sep) (c # cs)) else afterCut sep cs)"

definition isLocalPromptCacheSessionAlias :: "string \<Rightarrow> bool" where
  "isLocalPromptCacheSessionAlias alias \<longleftrightarrow>
     has_prefix alias ''pck:'' \<or>
     (case afterCut ''::'' alias of
        None \<Rightarrow> False
      | Some sessionAndModel \<Rightarrow> has_prefix sessionAndModel ''pck:'')"

definition compactSessionAliases :: "string list \<Rightarrow> string list" where
  "compactSessionAliases aliases = compactSessionAliasesWith aliases isLocalPromptCacheSessionAlias"

definition compactHomeSessionAliases :: "string list \<Rightarrow> string list" where
  "compactHomeSessionAliases aliases =
     compactSessionAliasesWith aliases (\<lambda>alias. has_prefix alias ''pck:'')"

section \<open>Groups\<close>

definition sameSessionEntryGroup :: "sessionEntry \<Rightarrow> sessionEntry \<Rightarrow> bool" where
  "sameSessionEntryGroup left right \<longleftrightarrow>
     entry_authID left = entry_authID right \<and> entry_expiresAt left = entry_expiresAt right \<and>
     entry_aliases left = entry_aliases right"

definition dropElement :: "nat \<Rightarrow> string \<Rightarrow> SessionCache \<Rightarrow> SessionCache" where
  "dropElement elem primaryKey c =
     c\<lparr>cache_order := filter (\<lambda>(i, _). i \<noteq> elem) (cache_order c),
       cache_elements := AList.delete primaryKey (cache_elements c)\<rparr>"

definition dropSessionGroup :: "string \<Rightarrow> string \<Rightarrow> SessionCache \<Rightarrow> SessionCache" where
  "dropSessionGroup sessionID primaryKey c =
     (case map_of (cache_sessionGroups c) sessionID of
        None \<Rightarrow> c
      | Some groups \<Rightarrow>
          (let groups = AList.delete primaryKey groups
           in c\<lparr>cache_sessionGroups :=
                  (if groups = [] then AList.delete sessionID (cache_sessionGroups c)
                   else AList.update sessionID groups (cache_sessionGroups c))\<rparr>))"

definition dropGroup :: "sessionEntry \<Rightarrow> string \<Rightarrow> SessionCache \<Rightarrow> SessionCache" where
  "dropGroup entry primaryKey c =
     (let c = c\<lparr>cache_groups := AList.delete primaryKey (cache_groups c)\<rparr>;
          c = dropSessionGroup (bind_sessionID (entry_binding entry)) primaryKey c
      in case map_of (cache_elements c) primaryKey of
           None \<Rightarrow> c
         | Some elem \<Rightarrow> dropElement elem primaryKey c)"

definition dropAlias :: "sessionEntry \<Rightarrow> string \<Rightarrow> (string \<times> sessionEntry) list \<Rightarrow> (string \<times> sessionEntry) list" where
  "dropAlias entry alias entries =
     (case map_of entries alias of
        None \<Rightarrow> entries
      | Some current \<Rightarrow>
          (if entry_authID current \<noteq> entry_authID entry \<or>
              entry_expiresAt current \<noteq> entry_expiresAt entry \<or>
              entry_aliases current \<noteq> entry_aliases entry
           then entries else AList.delete alias entries))"

definition removeAliasGroupLocked :: "sessionEntry \<Rightarrow> SessionCache \<Rightarrow> SessionCache" where
  "removeAliasGroupLocked entry c =
     (if entry_aliases entry = [] then c
      else let primaryKey = hd (entry_aliases entry);
               c = (case map_of (cache_groups c) primaryKey of
                      None \<Rightarrow> c
                    | Some currentGroup \<Rightarrow>
                        (if sameSessionEntryGroup currentGroup entry then dropGroup entry primaryKey c else c))
           in c\<lparr>cache_entries := fold (dropAlias entry) (entry_aliases entry) (cache_entries c)\<rparr>)"

text \<open>The loop ends when the list is empty or the entries fit; that it ends is a theorem below.\<close>

partial_function (option) evictExcessLocked :: "SessionCache \<Rightarrow> SessionCache option" where
  "evictExcessLocked c =
     (if int (length (cache_entries c)) > cache_maxEntries c
      then (case cache_order c of
              [] \<Rightarrow> Some c
            | oldest # _ \<Rightarrow>
                (case map_of (cache_groups c) (snd oldest) of
                   None \<Rightarrow> evictExcessLocked (dropElement (fst oldest) (snd oldest) c)
                 | Some grp \<Rightarrow> evictExcessLocked (removeAliasGroupLocked grp c)))
      else Some c)"

definition storeAliasGroup :: "sessionEntry \<Rightarrow> string \<Rightarrow> SessionCache \<Rightarrow> SessionCache" where
  "storeAliasGroup entry primaryKey c =
     (let sessionID = bind_sessionID (entry_binding entry);
          elem = cache_nextElement c
      in c\<lparr>cache_groups := AList.update primaryKey entry (cache_groups c),
           cache_sessionGroups :=
             (if bind_sequence (entry_binding entry) \<noteq> 0
              then AList.update sessionID
                     (AList.update primaryKey () (get_or [] (cache_sessionGroups c) sessionID))
                     (cache_sessionGroups c)
              else cache_sessionGroups c),
           cache_entries := fold (\<lambda>alias. AList.update alias entry) (entry_aliases entry) (cache_entries c),
           cache_order := cache_order c @ [(elem, primaryKey)],
           cache_elements := AList.update primaryKey elem (cache_elements c),
           cache_nextElement := Suc elem\<rparr>)"

definition replaceAliasGroupsLocked ::
    "string \<Rightarrow> time \<Rightarrow> string list \<Rightarrow> sessionBinding \<Rightarrow> sessionEntry list \<Rightarrow> SessionCache \<Rightarrow> SessionCache option" where
  "replaceAliasGroupsLocked authID expiresAt aliases binding previousGroups c =
     (let c = fold removeAliasGroupLocked previousGroups c
      in if aliases = [] then Some c
         else let primaryKey = hd aliases;
                  c = (case map_of (cache_groups c) primaryKey of
                         None \<Rightarrow> c
                       | Some existing \<Rightarrow> removeAliasGroupLocked existing c);
                  c = storeAliasGroup
                        \<lparr>entry_authID = authID, entry_expiresAt = expiresAt, entry_aliases = aliases,
                         entry_binding = binding\<rparr> primaryKey c
              in if cache_maxEntries c > 0 \<and> int (length (cache_entries c)) > cache_maxEntries c
                 then evictExcessLocked c else Some c)"

section \<open>Operations\<close>

text \<open>\<open>Get\<close> under the read lock: \<open>None\<close> when it must take the lock to drop an expired entry.\<close>

definition Get_read :: "SessionCache \<Rightarrow> string \<Rightarrow> time \<Rightarrow> string option option" where
  "Get_read c sessionID now =
     (if sessionID = '''' then Some None
      else case map_of (cache_entries c) sessionID of
             None \<Rightarrow> Some None
           | Some entry \<Rightarrow> if now < entry_expiresAt entry then Some (Some (entry_authID entry)) else None)"

definition Get_expire :: "string \<Rightarrow> time \<Rightarrow> SessionCache \<Rightarrow> string option \<times> SessionCache" where
  "Get_expire sessionID now c =
     (case map_of (cache_entries c) sessionID of
        None \<Rightarrow> (None, c)
      | Some entry \<Rightarrow>
          (if now < entry_expiresAt entry then (Some (entry_authID entry), c)
           else (None, removeAliasGroupLocked entry c)))"

text \<open>Both parts with nothing between them; \<open>now'\<close> is the second reading of the clock.\<close>

definition Cache_Get :: "string \<Rightarrow> time \<Rightarrow> time \<Rightarrow> SessionCache \<Rightarrow> string option \<times> SessionCache" where
  "Cache_Get sessionID now now' c =
     (case Get_read c sessionID now of Some result \<Rightarrow> (result, c) | None \<Rightarrow> Get_expire sessionID now' c)"

definition GetAndRefresh :: "string \<Rightarrow> time \<Rightarrow> SessionCache \<Rightarrow> (string option \<times> SessionCache) option" where
  "GetAndRefresh sessionID now c =
     (if sessionID = '''' then Some (None, c)
      else case map_of (cache_entries c) sessionID of
             None \<Rightarrow> Some (None, c)
           | Some entry \<Rightarrow>
               (if \<not> now < entry_expiresAt entry then Some (None, removeAliasGroupLocked entry c)
                else let aliases = compactSessionAliases (mergeSessionAliases [sessionID] (entry_aliases entry))
                     in map_option (Pair (Some (entry_authID entry)))
                          (replaceAliasGroupsLocked (entry_authID entry) (now + cache_ttl c) aliases
                             (entry_binding entry) [entry] c)))"

text \<open>The loop of \<open>setAliases\<close> over the identifiers.\<close>

definition collectAlias ::
    "time \<Rightarrow> string \<Rightarrow> string list \<times> sessionEntry list \<times> SessionCache \<Rightarrow>
     string list \<times> sessionEntry list \<times> SessionCache" where
  "collectAlias now sessionID = (\<lambda>(aliases, previousGroups, c).
     (case map_of (cache_entries c) sessionID of
        None \<Rightarrow> (aliases, previousGroups, c)
      | Some entry \<Rightarrow>
          (if \<not> now < entry_expiresAt entry
           then (aliases, previousGroups, removeAliasGroupLocked entry c)
           else (mergeSessionAliases aliases (entry_aliases entry), previousGroups @ [entry], c))))"

definition newerBinding :: "sessionEntry \<Rightarrow> sessionBinding \<Rightarrow> sessionBinding" where
  "newerBinding previous binding =
     (if bind_sequence (entry_binding previous) > bind_sequence binding
      then entry_binding previous else binding)"

definition setAliases ::
    "string \<Rightarrow> sessionBinding \<Rightarrow> string list \<Rightarrow> time \<Rightarrow> SessionCache \<Rightarrow> SessionCache option" where
  "setAliases authID binding sessionIDs now c =
     (if authID = '''' then Some c
      else let (aliases, previousGroups, c) =
                 fold (collectAlias now) sessionIDs (mergeSessionAliases [] sessionIDs, [], c);
               aliases = compactSessionAliases aliases
           in if aliases = [] then Some c
              else if bind_sessionID binding \<noteq> '''' \<and> bind_provider binding \<noteq> ''''
              then let sequence = (cache_bindingSequence c + 1) mod 2 ^ 64
                   in replaceAliasGroupsLocked authID (now + cache_ttl c) aliases
                        (binding\<lparr>bind_sequence := sequence\<rparr>) previousGroups
                        (c\<lparr>cache_bindingSequence := sequence\<rparr>)
              else replaceAliasGroupsLocked authID (now + cache_ttl c) aliases
                     (fold newerBinding previousGroups binding) previousGroups c)"

definition zero_binding :: sessionBinding where
  "zero_binding = \<lparr>bind_sessionID = '''', bind_provider = '''', bind_sequence = 0\<rparr>"

definition SetAliases :: "string \<Rightarrow> string list \<Rightarrow> time \<Rightarrow> SessionCache \<Rightarrow> SessionCache option" where
  "SetAliases authID sessionIDs = setAliases authID zero_binding sessionIDs"

definition Cache_Set :: "string \<Rightarrow> string \<Rightarrow> time \<Rightarrow> SessionCache \<Rightarrow> SessionCache option" where
  "Cache_Set sessionID authID = SetAliases authID [sessionID]"

definition setSessionAliases ::
    "string \<Rightarrow> string \<Rightarrow> string \<Rightarrow> string list \<Rightarrow> time \<Rightarrow> SessionCache \<Rightarrow> SessionCache option" where
  "setSessionAliases authID provider sessionID keys =
     setAliases authID \<lparr>bind_sessionID = sessionID, bind_provider = provider, bind_sequence = 0\<rparr> keys"

text \<open>
  The zero entry of a missing group has sequence 0 and never wins; the loop visits the keys of the
  session in the order of the map.
\<close>

definition zero_entry :: sessionEntry where
  "zero_entry = \<lparr>entry_authID = '''', entry_expiresAt = 0, entry_aliases = [], entry_binding = zero_binding\<rparr>"

definition latestStep ::
    "SessionCache \<Rightarrow> string list \<Rightarrow> time \<Rightarrow> string \<Rightarrow> sessionEntry \<Rightarrow> sessionEntry" where
  "latestStep c providers now key latest =
     (let entry = get_or zero_entry (cache_groups c) key
      in if bind_provider (entry_binding entry) \<notin> set providers \<or> \<not> now < entry_expiresAt entry
         then latest
         else if bind_sequence (entry_binding entry) > bind_sequence (entry_binding latest)
         then entry else latest)"

definition latestSessionAuth :: "SessionCache \<Rightarrow> string \<Rightarrow> string list \<Rightarrow> time \<Rightarrow> string" where
  "latestSessionAuth c sessionID providers now =
     (if sessionID = '''' \<or> providers = [] then ''''
      else entry_authID (fold (latestStep c providers now)
             (map fst (get_or [] (cache_sessionGroups c) sessionID)) zero_entry))"

definition Touch :: "string \<Rightarrow> string \<Rightarrow> time \<Rightarrow> SessionCache \<Rightarrow> (bool \<times> SessionCache) option" where
  "Touch sessionID expectedAuthID now c =
     (if sessionID = '''' \<or> expectedAuthID = '''' then Some (False, c)
      else case map_of (cache_entries c) sessionID of
             None \<Rightarrow> Some (False, c)
           | Some entry \<Rightarrow>
               (if entry_authID entry \<noteq> expectedAuthID \<or> \<not> now < entry_expiresAt entry then Some (False, c)
                else let aliases = compactSessionAliases (mergeSessionAliases [sessionID] (entry_aliases entry))
                     in map_option (Pair True)
                          (replaceAliasGroupsLocked expectedAuthID (now + cache_ttl c) aliases
                             (entry_binding entry) [entry] c)))"

text \<open>The common end of \<open>CompareAndDelete\<close> and \<open>Invalidate\<close>: the other aliases stay bound.\<close>

definition removeOneAlias :: "string \<Rightarrow> sessionEntry \<Rightarrow> SessionCache \<Rightarrow> SessionCache option" where
  "removeOneAlias sessionID entry c =
     (let c = removeAliasGroupLocked entry c;
          surviving = filter (\<lambda>alias. alias \<noteq> sessionID) (entry_aliases entry)
      in if length surviving > 0
         then replaceAliasGroupsLocked (entry_authID entry) (entry_expiresAt entry) surviving
                (entry_binding entry) [] c
         else Some c)"

definition CompareAndDelete :: "string \<Rightarrow> string \<Rightarrow> SessionCache \<Rightarrow> (bool \<times> SessionCache) option" where
  "CompareAndDelete sessionID expectedAuthID c =
     (if sessionID = '''' \<or> expectedAuthID = '''' then Some (False, c)
      else case map_of (cache_entries c) sessionID of
             None \<Rightarrow> Some (False, c)
           | Some entry \<Rightarrow>
               (if entry_authID entry \<noteq> expectedAuthID then Some (False, c)
                else map_option (Pair True) (removeOneAlias sessionID entry c)))"

definition Invalidate :: "string \<Rightarrow> SessionCache \<Rightarrow> SessionCache option" where
  "Invalidate sessionID c =
     (if sessionID = '''' then Some c
      else case map_of (cache_entries c) sessionID of
             None \<Rightarrow> Some c
           | Some entry \<Rightarrow> removeOneAlias sessionID entry c)"

definition InvalidateAuth :: "string \<Rightarrow> SessionCache \<Rightarrow> SessionCache" where
  "InvalidateAuth authID c =
     (if authID = '''' then c
      else fold (\<lambda>(_, grp) c. if entry_authID grp = authID then removeAliasGroupLocked grp c else c)
             (cache_groups c) c)"

definition Cache_Len :: "SessionCache \<Rightarrow> nat" where
  "Cache_Len c = length (cache_entries c)"

definition cleanup :: "time \<Rightarrow> SessionCache \<Rightarrow> SessionCache" where
  "cleanup now c =
     fold (\<lambda>(_, grp) c. if \<not> now < entry_expiresAt grp then removeAliasGroupLocked grp c else c)
       (cache_groups c) c"

text \<open>The interval of the ticker of \<open>cleanupLoop\<close>.\<close>

definition cleanupInterval :: "duration \<Rightarrow> duration" where
  "cleanupInterval ttl = (let interval = go_div ttl 2 in if interval < 1000000 then 1000000 else interval)"

end
