(* ===== verification/Session_Groups.thy ===== *)
theory Session_Groups
  imports Session_Cache
begin

text \<open>
  The specification of the session cache: a list of groups, the oldest first, whose aliases are
  disjoint. \<open>cache_rep\<close> says that the redundant state of the code describes such a list, and every
  operation is shown to do to it what the specification says; in particular the loop of the eviction
  ends.
\<close>

named_theorems session_ops \<open>what the operations do to a represented cache\<close>

abbreviation group_key :: "sessionEntry \<Rightarrow> string" where
  "group_key g \<equiv> hd (entry_aliases g)"

abbreviation group_seq :: "sessionEntry \<Rightarrow> nat" where
  "group_seq g \<equiv> bind_sequence (entry_binding g)"

abbreviation group_session :: "sessionEntry \<Rightarrow> string" where
  "group_session g \<equiv> bind_sessionID (entry_binding g)"

section \<open>Lists of disjoint groups\<close>

definition groups_ok :: "sessionEntry list \<Rightarrow> bool" where
  "groups_ok gs \<longleftrightarrow>
     (\<forall>g \<in> set gs. entry_aliases g \<noteq> [] \<and> '''' \<notin> set (entry_aliases g)) \<and>
     distinct (concat (map entry_aliases gs))"

lemma groups_ok_Nil [simp]: "groups_ok []"
  by (simp add: groups_ok_def)

lemma groups_ok_append: "groups_ok (gs @ [g]) \<longleftrightarrow>
    groups_ok gs \<and> entry_aliases g \<noteq> [] \<and> '''' \<notin> set (entry_aliases g) \<and> distinct (entry_aliases g) \<and>
    (\<forall>h \<in> set gs. set (entry_aliases h) \<inter> set (entry_aliases g) = {})"
  by (auto simp: groups_ok_def)

lemma distinct_concat_filter: "distinct (concat (map f xs)) \<Longrightarrow> distinct (concat (map f (filter P xs)))"
  by (induction xs) auto

lemma groups_ok_filter [simp]: "groups_ok gs \<Longrightarrow> groups_ok (filter P gs)"
  by (auto simp: groups_ok_def distinct_concat_filter)

lemma distinct_concat_common:
  "distinct (concat (map f xs)) \<Longrightarrow> x \<in> set xs \<Longrightarrow> y \<in> set xs \<Longrightarrow> a \<in> set (f x) \<Longrightarrow> a \<in> set (f y) \<Longrightarrow> x = y"
  by (induction xs) auto

lemma groups_ok_common:
  "groups_ok gs \<Longrightarrow> g \<in> set gs \<Longrightarrow> h \<in> set gs \<Longrightarrow> a \<in> set (entry_aliases g) \<Longrightarrow> a \<in> set (entry_aliases h) \<Longrightarrow> g = h"
  unfolding groups_ok_def by (blast dest: distinct_concat_common)

lemma groups_ok_member:
  "groups_ok gs \<Longrightarrow> g \<in> set gs \<Longrightarrow> entry_aliases g \<noteq> [] \<and> '''' \<notin> set (entry_aliases g) \<and> distinct (entry_aliases g)"
  by (auto simp: groups_ok_def distinct_concat_iff)

lemma group_key_alias: "groups_ok gs \<Longrightarrow> g \<in> set gs \<Longrightarrow> group_key g \<in> set (entry_aliases g)"
  by (simp add: groups_ok_def)

lemma groups_ok_key:
  assumes "groups_ok gs" "g \<in> set gs" "h \<in> set gs" "group_key g = group_key h"
  shows "g = h"
  using groups_ok_common [OF assms(1-3)] group_key_alias [OF assms(1)] assms by metis

lemma groups_ok_distinct: "groups_ok gs \<Longrightarrow> distinct (map group_key gs)"
  by (induction gs) (fastforce simp: groups_ok_def dest: hd_in_set)+

lemma groups_ok_same:
  assumes "groups_ok gs" "g \<in> set gs" "h \<in> set gs" "sameSessionEntryGroup g h"
  shows "g = h"
  using groups_ok_key [OF assms(1-3)] assms(4) by (simp add: sameSessionEntryGroup_def)

section \<open>What the state represents\<close>

definition entries_rep :: "(string \<times> sessionEntry) list \<Rightarrow> sessionEntry list \<Rightarrow> bool" where
  "entries_rep m gs \<longleftrightarrow> wf_map m \<and> (\<forall>a g. map_of m a = Some g \<longleftrightarrow> g \<in> set gs \<and> a \<in> set (entry_aliases g))"

definition groups_rep :: "(string \<times> sessionEntry) list \<Rightarrow> sessionEntry list \<Rightarrow> bool" where
  "groups_rep m gs \<longleftrightarrow> wf_map m \<and> (\<forall>k g. map_of m k = Some g \<longleftrightarrow> g \<in> set gs \<and> group_key g = k)"

definition order_rep :: "(nat \<times> string) list \<Rightarrow> (string \<times> nat) list \<Rightarrow> nat \<Rightarrow> sessionEntry list \<Rightarrow> bool" where
  "order_rep ord el n gs \<longleftrightarrow>
     map snd ord = map group_key gs \<and> distinct (map fst ord) \<and> (\<forall>i \<in> fst ` set ord. i < n) \<and>
     wf_map el \<and> (\<forall>k i. map_of el k = Some i \<longleftrightarrow> (i, k) \<in> set ord)"

definition sessions_rep :: "(string \<times> (string \<times> unit) list) list \<Rightarrow> sessionEntry list \<Rightarrow> bool" where
  "sessions_rep m gs \<longleftrightarrow>
     wf_map m \<and> (\<forall>s ks. map_of m s = Some ks \<longrightarrow> ks \<noteq> [] \<and> wf_map ks) \<and>
     (\<forall>s k. map_of (get_or [] m s) k = Some () \<longleftrightarrow>
        (\<exists>g \<in> set gs. group_key g = k \<and> group_seq g \<noteq> 0 \<and> group_session g = s))"

definition cache_rep :: "SessionCache \<Rightarrow> sessionEntry list \<Rightarrow> bool" where
  "cache_rep c gs \<longleftrightarrow>
     groups_ok gs \<and> entries_rep (cache_entries c) gs \<and> groups_rep (cache_groups c) gs \<and>
     order_rep (cache_order c) (cache_elements c) (cache_nextElement c) gs \<and>
     sessions_rep (cache_sessionGroups c) gs"

lemma cache_rep_ok [simp]: "cache_rep c gs \<Longrightarrow> groups_ok gs"
  by (simp add: cache_rep_def)

lemma cache_rep_lookup: "cache_rep c gs \<Longrightarrow>
    map_of (cache_entries c) a = Some g \<longleftrightarrow> g \<in> set gs \<and> a \<in> set (entry_aliases g)"
  by (simp add: cache_rep_def entries_rep_def)

lemma cache_rep_group: "cache_rep c gs \<Longrightarrow>
    map_of (cache_groups c) k = Some g \<longleftrightarrow> g \<in> set gs \<and> group_key g = k"
  by (simp add: cache_rep_def groups_rep_def)

lemma cache_rep_bindingSequence [simp]: "cache_rep (c\<lparr>cache_bindingSequence := n\<rparr>) gs \<longleftrightarrow> cache_rep c gs"
  by (simp add: cache_rep_def)

lemma cache_rep_empty: "cache_rep (NewSessionCacheWithCapacity ttl m) []"
  by (simp add: cache_rep_def entries_rep_def groups_rep_def order_rep_def sessions_rep_def
      NewSessionCacheWithCapacity_def get_or_def)

text \<open>The number of entries is the number of aliases.\<close>

definition alias_count :: "sessionEntry list \<Rightarrow> nat" where
  "alias_count gs = (\<Sum>g \<leftarrow> gs. length (entry_aliases g))"

lemma alias_count_simps [simp]:
  "alias_count [] = 0" "alias_count (g # gs) = length (entry_aliases g) + alias_count gs"
  "alias_count (gs @ hs) = alias_count gs + alias_count hs"
  by (simp_all add: alias_count_def)

lemma alias_count_filter: "alias_count (filter P gs) \<le> alias_count gs"
  by (induction gs) auto

lemma wf_map_length_card: "wf_map m \<Longrightarrow> length m = card (fst ` set m)"
  using distinct_card [of "map fst m"] by simp

lemma cache_rep_Len:
  assumes "cache_rep c gs"
  shows "Cache_Len c = alias_count gs"
proof -
  let ?m = "cache_entries c" and ?as = "concat (map entry_aliases gs)"
  have "fst ` set ?m = set ?as"
    unfolding dom_map_of_conv_image_fst [symmetric] dom_def
    using assms by (auto simp: cache_rep_lookup)
  moreover have "length ?as = alias_count gs"
    by (simp add: length_concat alias_count_def comp_def)
  moreover have "distinct ?as" "wf_map ?m"
    using assms by (simp_all add: cache_rep_def groups_ok_def entries_rep_def)
  ultimately show ?thesis
    by (metis Cache_Len_def distinct_card wf_map_length_card)
qed

section \<open>Removing a group\<close>

lemma wf_map_dropAlias [simp]: "wf_map m \<Longrightarrow> wf_map (dropAlias e a m)"
  by (simp add: dropAlias_def split: option.splits)

lemma fold_dropAlias_own:
  assumes "\<And>a. a \<in> set as \<Longrightarrow> map_of m a = None \<or> map_of m a = Some e" "wf_map m"
  shows "wf_map (fold (dropAlias e) as m) \<and>
    map_of (fold (dropAlias e) as m) = (\<lambda>a. if a \<in> set as then None else map_of m a)"
  using assms
proof (induction as arbitrary: m)
  case (Cons b as)
  have "map_of (dropAlias e b m) = (map_of m)(b := None)"
    using Cons.prems(1) [of b] by (auto simp: dropAlias_def split: option.splits)
  with Cons.prems Cons.IH [of "dropAlias e b m"] show ?case by auto
qed simp

lemma fold_dropAlias_foreign:
  assumes "\<And>a g. map_of m a = Some g \<Longrightarrow> \<not> sameSessionEntryGroup g e"
  shows "fold (dropAlias e) as m = m"
  using assms
  by (induction as) (auto simp: dropAlias_def sameSessionEntryGroup_def split: option.splits)

lemma filter_other_keys:
  assumes "groups_ok gs" "e \<in> set gs"
  shows "map group_key (filter (\<lambda>g. g \<noteq> e) gs) = filter (\<lambda>k. k \<noteq> group_key e) (map group_key gs)"
  using groups_ok_key [OF assms(1)] assms(2)
  by (auto simp: filter_map comp_def intro!: arg_cong [where f = "map group_key"] filter_cong)

lemma order_rep_remove:
  assumes "order_rep ord el n gs" "groups_ok gs" "e \<in> set gs" "map_of el (group_key e) = Some i"
  shows "order_rep (filter (\<lambda>(j, _). j \<noteq> i) ord) (AList.delete (group_key e) el) n (filter (\<lambda>g. g \<noteq> e) gs)"
proof -
  note o = assms(1) [unfolded order_rep_def]
  have i: "(i, group_key e) \<in> set ord" using o assms(4) by auto
  have snd: "distinct (map snd ord)"
    using groups_ok_distinct [OF assms(2)] o by simp
  have k: "j \<noteq> i \<longleftrightarrow> k \<noteq> group_key e" if "(j, k) \<in> set ord" for j k
    using that i o inj_onD [OF snd [unfolded distinct_map, THEN conjunct2], of "(i, group_key e)" "(j, k)"]
      inj_onD [of fst "set ord" "(i, group_key e)" "(j, k)"] by (auto simp: distinct_map)
  have f: "filter (\<lambda>(j, _). j \<noteq> i) ord = filter (\<lambda>p. snd p \<noteq> group_key e) ord"
  proof (rule filter_cong [OF refl])
    fix p assume "p \<in> set ord"
    then show "(case p of (j, _) \<Rightarrow> j \<noteq> i) \<longleftrightarrow> snd p \<noteq> group_key e"
      using k [of "fst p" "snd p"] by (simp add: case_prod_beta)
  qed
  have "map snd (filter (\<lambda>p. snd p \<noteq> group_key e) ord) = filter (\<lambda>k. k \<noteq> group_key e) (map snd ord)"
    by (simp add: filter_map comp_def)
  also have "\<dots> = map group_key (filter (\<lambda>g. g \<noteq> e) gs)"
    using o by (simp add: filter_other_keys [OF assms(2,3)])
  finally show ?thesis
    using o unfolding order_rep_def f by (auto simp: distinct_map_filter)
qed

lemma sessions_rep_remove:
  assumes "sessions_rep (cache_sessionGroups c) gs" "groups_ok gs" "e \<in> set gs"
  shows "sessions_rep (cache_sessionGroups (dropSessionGroup (group_session e) (group_key e) c))
    (filter (\<lambda>g. g \<noteq> e) gs)"
proof -
  let ?m = "cache_sessionGroups c" and ?s = "group_session e" and ?k = "group_key e"
  let ?m' = "cache_sessionGroups (dropSessionGroup ?s ?k c)"
  note s = assms(1) [unfolded sessions_rep_def]
  have keep: "(\<exists>g \<in> set (filter (\<lambda>g. g \<noteq> e) gs). group_key g = k \<and> group_seq g \<noteq> 0 \<and> group_session g = t) \<longleftrightarrow>
      map_of (get_or [] ?m t) k = Some () \<and> (k, t) \<noteq> (?k, ?s)" for k t
    using s groups_ok_key [OF assms(2)] assms(3) by auto
  have look: "map_of (get_or [] ?m' t) k = (if (k, t) = (?k, ?s) then None else map_of (get_or [] ?m t) k)" for t k
  proof (cases "map_of ?m ?s")
    case None
    then show ?thesis by (simp add: dropSessionGroup_def get_or_def)
  next
    case (Some ks)
    then have "map_of (AList.delete ?k ks) = (map_of ks)(?k := None)" by simp
    with Some show ?thesis
      by (cases "AList.delete ?k ks = []") (auto simp: dropSessionGroup_def get_or_def fun_eq_iff split: if_splits)
  qed
  have "wf_map ?m' \<and> (\<forall>t ks. map_of ?m' t = Some ks \<longrightarrow> ks \<noteq> [] \<and> wf_map ks)"
    using s by (auto simp: dropSessionGroup_def Let_def simp del: map_of_eq_Some_iff split: option.splits if_splits)
  then show ?thesis
    unfolding sessions_rep_def keep look by auto
qed

lemma removeAliasGroup_member:
  assumes "cache_rep c gs" "e \<in> set gs"
  shows "cache_rep (removeAliasGroupLocked e c) (filter (\<lambda>g. g \<noteq> e) gs)"
proof -
  have ok: "groups_ok gs" using assms(1) by simp
  note mem = groups_ok_member [OF ok assms(2)]
  have g: "map_of (cache_groups c) (group_key e) = Some e"
    using assms by (simp add: cache_rep_group)
  have "group_key e \<in> snd ` set (cache_order c)"
    using assms unfolding cache_rep_def order_rep_def by (metis imageI list.set_map)
  then obtain i where i: "map_of (cache_elements c) (group_key e) = Some i"
    using assms(1) unfolding cache_rep_def order_rep_def by auto
  let ?c = "removeAliasGroupLocked e c"
  have c: "cache_entries ?c = fold (dropAlias e) (entry_aliases e) (cache_entries c)"
    "cache_groups ?c = AList.delete (group_key e) (cache_groups c)"
    "cache_order ?c = filter (\<lambda>(j, _). j \<noteq> i) (cache_order c)"
    "cache_elements ?c = AList.delete (group_key e) (cache_elements c)"
    "cache_nextElement ?c = cache_nextElement c"
    "cache_sessionGroups ?c = cache_sessionGroups (dropSessionGroup (group_session e) (group_key e) c)"
    using mem g i
    by (auto simp: removeAliasGroupLocked_def dropGroup_def dropElement_def dropSessionGroup_def Let_def
        sameSessionEntryGroup_def split: option.splits)
  have own: "map_of (cache_entries c) a = None \<or> map_of (cache_entries c) a = Some e"
    if "a \<in> set (entry_aliases e)" for a
    using that assms cache_rep_lookup [OF assms(1)] groups_ok_common [OF ok] by (metis option.exhaust)
  have "entries_rep (cache_entries ?c) (filter (\<lambda>g. g \<noteq> e) gs)"
    using fold_dropAlias_own [of "entry_aliases e" "cache_entries c" e, OF own] assms
      groups_ok_common [OF ok _ assms(2)]
    unfolding c by (auto simp: entries_rep_def cache_rep_def)
  moreover have "groups_rep (cache_groups ?c) (filter (\<lambda>g. g \<noteq> e) gs)"
    using assms groups_ok_key [OF ok _ assms(2)] unfolding c
    by (auto simp: groups_rep_def cache_rep_def)
  ultimately show ?thesis
    using assms order_rep_remove [OF _ ok assms(2) i] sessions_rep_remove [OF _ ok assms(2)] ok
    unfolding c cache_rep_def by simp
qed

lemma removeAliasGroup_foreign:
  assumes "cache_rep c gs" "\<And>g. g \<in> set gs \<Longrightarrow> \<not> sameSessionEntryGroup g e"
  shows "removeAliasGroupLocked e c = c"
proof -
  have "fold (dropAlias e) (entry_aliases e) (cache_entries c) = cache_entries c"
    using assms by (intro fold_dropAlias_foreign) (auto simp: cache_rep_lookup)
  moreover have "\<not> sameSessionEntryGroup g e" if "map_of (cache_groups c) k = Some g" for g k
    using assms that by (auto simp: cache_rep_group)
  ultimately show ?thesis
    by (auto simp: removeAliasGroupLocked_def Let_def split: option.splits)
qed

lemma removeAliasGroup_rep:
  assumes "cache_rep c (filter P gs)" "groups_ok gs" "e \<in> set gs"
  shows "cache_rep (removeAliasGroupLocked e c) (filter (\<lambda>g. P g \<and> g \<noteq> e) gs)"
proof (cases "P e")
  case True
  with removeAliasGroup_member [OF assms(1), of e] assms(3) show ?thesis by (simp add: conj_commute)
next
  case False
  have "removeAliasGroupLocked e c = c"
    using False groups_ok_same [OF assms(2) _ assms(3)]
    by (intro removeAliasGroup_foreign [OF assms(1)]) auto
  moreover have "filter (\<lambda>g. P g \<and> g \<noteq> e) gs = filter P gs"
    using False by (auto intro: filter_cong)
  ultimately show ?thesis using assms(1) by simp
qed

lemma removeAliasGroups_rep:
  assumes "cache_rep c (filter P gs)" "groups_ok gs" "set es \<subseteq> set gs"
  shows "cache_rep (fold removeAliasGroupLocked es c) (filter (\<lambda>g. P g \<and> g \<notin> set es) gs)"
  using assms(1,3)
proof (induction es arbitrary: c P)
  case (Cons e es)
  from Cons.IH [OF removeAliasGroup_rep [OF Cons.prems(1) assms(2)]] Cons.prems(2)
  show ?case by (simp add: conj_assoc)
qed simp

section \<open>Adding a group and evicting\<close>

text \<open>What the operations leave alone.\<close>

definition same_settings :: "SessionCache \<Rightarrow> SessionCache \<Rightarrow> bool" where
  "same_settings c c' \<longleftrightarrow>
     cache_maxEntries c' = cache_maxEntries c \<and> cache_ttl c' = cache_ttl c \<and>
     cache_bindingSequence c' = cache_bindingSequence c"

lemma same_settings_refl [simp]: "same_settings c c"
  by (simp add: same_settings_def)

lemma same_settings_trans: "same_settings a b \<Longrightarrow> same_settings b c \<Longrightarrow> same_settings a c"
  by (simp add: same_settings_def)

lemma removeAliasGroup_settings [simp]: "same_settings c (removeAliasGroupLocked e c)"
  by (auto simp: same_settings_def removeAliasGroupLocked_def dropGroup_def dropElement_def
      dropSessionGroup_def Let_def split: option.splits)

lemma removeAliasGroups_settings [simp]: "same_settings c (fold removeAliasGroupLocked es c)"
  by (induction es arbitrary: c) (auto intro: same_settings_trans [OF removeAliasGroup_settings])

lemma storeAliasGroup_settings [simp]: "same_settings c (storeAliasGroup e k c)"
  by (simp add: same_settings_def storeAliasGroup_def Let_def)

lemma fold_update_all:
  "wf_map m \<Longrightarrow> wf_map (fold (\<lambda>a. AList.update a e) as m)"
  "map_of (fold (\<lambda>a. AList.update a e) as m) = (\<lambda>a. if a \<in> set as then Some e else map_of m a)"
  by (induction as arbitrary: m) auto

lemma sessions_rep_store:
  assumes "sessions_rep m gs" "group_seq g \<noteq> 0"
  shows "sessions_rep (AList.update (group_session g)
      (AList.update (group_key g) () (get_or [] m (group_session g))) m) (gs @ [g])"
proof -
  have "wf_map (get_or [] m s)" for s
    using assms(1) by (auto simp: sessions_rep_def get_or_def simp del: map_of_eq_Some_iff split: option.splits)
  moreover have "AList.update k v n \<noteq> []" for k v and n :: "(string \<times> unit) list"
    by (cases n) auto
  ultimately show ?thesis
    using assms by (auto simp: sessions_rep_def simp del: map_of_eq_Some_iff)
qed

lemma order_rep_store:
  assumes "order_rep ord el n gs" "\<forall>h \<in> set gs. group_key h \<noteq> k" "group_key g = k"
  shows "order_rep (ord @ [(n, k)]) (AList.update k n el) (Suc n) (gs @ [g])"
proof -
  note o = assms(1) [unfolded order_rep_def]
  have "k \<notin> snd ` set ord"
    using o assms(2) by (metis (no_types, lifting) imageE list.set_map)
  then have "(i, k) \<notin> set ord" for i by force
  with o assms(3) show ?thesis
    by (fastforce simp: order_rep_def simp del: map_of_eq_Some_iff)
qed

lemma storeAliasGroup_rep:
  assumes "cache_rep c gs" "groups_ok (gs @ [g])" "k = group_key g"
  shows "cache_rep (storeAliasGroup g k c) (gs @ [g])"
proof -
  note ok = assms(2)
  have own: "\<forall>h \<in> set gs. \<forall>a \<in> set (entry_aliases g). a \<notin> set (entry_aliases h)"
    using ok by (auto simp: groups_ok_append)
  have fresh: "\<forall>h \<in> set gs. group_key h \<noteq> k"
    using own group_key_alias [OF ok, of g] group_key_alias [OF ok] assms(3) by fastforce
  have "entries_rep (cache_entries (storeAliasGroup g k c)) (gs @ [g])"
    using assms(1) own
    by (auto simp: cache_rep_def entries_rep_def storeAliasGroup_def Let_def fold_update_all
        simp del: map_of_eq_Some_iff split: if_splits)
  moreover have "groups_rep (cache_groups (storeAliasGroup g k c)) (gs @ [g])"
    using assms(1,3) fresh
    by (auto simp: cache_rep_def groups_rep_def storeAliasGroup_def Let_def simp del: map_of_eq_Some_iff)
  moreover have "sessions_rep (cache_sessionGroups (storeAliasGroup g k c)) (gs @ [g])"
  proof (cases "group_seq g = 0")
    case True
    then show ?thesis
      using assms(1) by (auto simp: cache_rep_def sessions_rep_def storeAliasGroup_def Let_def)
  next
    case False
    then show ?thesis
      using assms(1,3) sessions_rep_store by (simp add: cache_rep_def storeAliasGroup_def Let_def)
  qed
  ultimately show ?thesis
    using assms(1,3) ok order_rep_store [OF _ fresh]
    by (simp add: cache_rep_def storeAliasGroup_def Let_def)
qed

fun drop_oldest :: "int \<Rightarrow> sessionEntry list \<Rightarrow> sessionEntry list" where
  "drop_oldest m [] = []"
| "drop_oldest m (g # gs) = (if int (alias_count (g # gs)) \<le> m then g # gs else drop_oldest m gs)"

lemma drop_oldest_id [simp]: "int (alias_count gs) \<le> m \<Longrightarrow> drop_oldest m gs = gs"
  by (cases gs) simp_all

lemma drop_oldest_suffix: "\<exists>ds. gs = ds @ drop_oldest m gs"
proof (induction gs)
  case (Cons g gs)
  then show ?case by (metis append.left_neutral append_Cons drop_oldest.simps(2))
qed simp

lemma drop_oldest_bound: "0 \<le> m \<Longrightarrow> int (alias_count (drop_oldest m gs)) \<le> m"
  by (induction gs) simp_all

lemma drop_oldest_newest: "int (length (entry_aliases g)) \<le> m \<Longrightarrow> \<exists>hs. drop_oldest m (gs @ [g]) = hs @ [g]"
  by (induction gs) auto

lemma evictExcess_rep:
  assumes "cache_rep c gs" "0 \<le> cache_maxEntries c"
  shows "\<exists>c'. evictExcessLocked c = Some c' \<and> cache_rep c' (drop_oldest (cache_maxEntries c) gs) \<and>
    same_settings c c'"
  using assms
proof (induction gs arbitrary: c)
  case Nil
  then have "cache_entries c = []"
    using cache_rep_Len [OF Nil.prems(1)] by (simp add: Cache_Len_def)
  with Nil show ?case by (subst evictExcessLocked.simps) simp
next
  case (Cons g gs)
  note len = cache_rep_Len [OF Cons.prems(1), unfolded Cache_Len_def]
  show ?case
  proof (cases "int (alias_count (g # gs)) \<le> cache_maxEntries c")
    case True
    with Cons.prems len show ?thesis by (subst evictExcessLocked.simps) simp
  next
    case False
    obtain i rest where ord: "cache_order c = (i, group_key g) # rest"
      using Cons.prems(1) by (auto simp: cache_rep_def order_rep_def)
    have grp: "map_of (cache_groups c) (group_key g) = Some g"
      using cache_rep_group [OF Cons.prems(1)] by simp
    have "g \<notin> set gs"
      using groups_ok_distinct [OF cache_rep_ok [OF Cons.prems(1)]] by auto
    then have "filter (\<lambda>h. h \<noteq> g) (g # gs) = gs"
      by (auto simp: filter_id_conv)
    with removeAliasGroup_member [OF Cons.prems(1), of g]
    have rep: "cache_rep (removeAliasGroupLocked g c) gs" by simp
    have set: "same_settings c (removeAliasGroupLocked g c)" by simp
    then have "0 \<le> cache_maxEntries (removeAliasGroupLocked g c)"
      using Cons.prems(2) by (simp add: same_settings_def)
    from Cons.IH [OF rep this] set False
    show ?thesis
      using len ord grp by (subst evictExcessLocked.simps) (auto simp: same_settings_def)
  qed
qed

text \<open>Replacing groups by a new one: the specification of \<open>replaceAliasGroupsLocked\<close>.\<close>

definition replace_groups :: "int \<Rightarrow> sessionEntry \<Rightarrow> sessionEntry list \<Rightarrow> sessionEntry list \<Rightarrow> sessionEntry list" where
  "replace_groups m g previous gs = drop_oldest m (filter (\<lambda>h. h \<notin> set previous) gs @ [g])"

lemma replaceAliasGroups_rep:
  assumes "cache_rep c gs" "set previous \<subseteq> set gs" "0 < cache_maxEntries c"
    and "groups_ok (filter (\<lambda>h. h \<notin> set previous) gs @ [g])"
  shows "\<exists>c'. replaceAliasGroupsLocked (entry_authID g) (entry_expiresAt g) (entry_aliases g)
      (entry_binding g) previous c = Some c' \<and>
    cache_rep c' (replace_groups (cache_maxEntries c) g previous gs) \<and> same_settings c c'"
proof -
  let ?c = "fold removeAliasGroupLocked previous c" and ?gs = "filter (\<lambda>h. h \<notin> set previous) gs"
  let ?d = "storeAliasGroup g (group_key g) ?c"
  have g: "entry_aliases g \<noteq> []" using assms(4) by (simp add: groups_ok_append)
  have rep: "cache_rep ?c ?gs"
    using removeAliasGroups_rep [of c "\<lambda>_. True" gs previous] assms by simp
  have "group_key h \<noteq> group_key g" if "h \<in> set ?gs" for h
  proof -
    have "set (entry_aliases h) \<inter> set (entry_aliases g) = {}"
      using that assms(4) by (simp add: groups_ok_append)
    then show ?thesis
      using group_key_alias [OF cache_rep_ok [OF rep] that] hd_in_set [OF g] by (metis disjoint_iff)
  qed
  then have new: "map_of (cache_groups ?c) (group_key g) = None"
    using cache_rep_group [OF rep] by (metis not_None_eq)
  have eta: "\<lparr>entry_authID = entry_authID g, entry_expiresAt = entry_expiresAt g,
      entry_aliases = entry_aliases g, entry_binding = entry_binding g\<rparr> = g" by simp
  have d: "cache_rep ?d (?gs @ [g])" by (rule storeAliasGroup_rep [OF rep assms(4) refl])
  have s: "same_settings c ?d"
    by (rule same_settings_trans [OF removeAliasGroups_settings storeAliasGroup_settings])
  then have m: "cache_maxEntries ?d = cache_maxEntries c" by (simp add: same_settings_def)
  note len = cache_rep_Len [OF d, unfolded Cache_Len_def]
  show ?thesis
    using g new evictExcess_rep [OF d] d s m len assms(3) same_settings_trans [OF s]
    by (auto simp: replaceAliasGroupsLocked_def replace_groups_def Let_def eta)
qed

section \<open>Lists of aliases\<close>

lemma foldl_addAlias:
  "set (foldl addSessionAlias acc xs) = set acc \<union> (set xs - {''''})"
  "distinct acc \<Longrightarrow> distinct (foldl addSessionAlias acc xs)"
  by (induction xs arbitrary: acc) (auto simp: addSessionAlias_def)

lemma foldl_addAlias_prefix: "\<exists>ys. foldl addSessionAlias acc xs = acc @ ys"
proof (induction xs arbitrary: acc)
  case (Cons x xs)
  obtain ys where "foldl addSessionAlias (addSessionAlias acc x) xs = addSessionAlias acc x @ ys"
    using Cons by blast
  moreover have "\<exists>zs. addSessionAlias acc x = acc @ zs"
    by (simp add: addSessionAlias_def)
  ultimately show ?case by auto
qed simp

lemma foldl_addAlias_new:
  "distinct (acc @ xs) \<Longrightarrow> '''' \<notin> set xs \<Longrightarrow> foldl addSessionAlias acc xs = acc @ xs"
  by (induction xs arbitrary: acc) (auto simp: addSessionAlias_def)

lemma set_mergeSessionAliases [simp]: "set (mergeSessionAliases xs ys) = (set xs \<union> set ys) - {''''}"
  by (auto simp: mergeSessionAliases_def foldl_addAlias)

lemma distinct_mergeSessionAliases [simp]: "distinct (mergeSessionAliases xs ys)"
  by (simp add: mergeSessionAliases_def foldl_addAlias)

lemma mergeSessionAliases_hd:
  assumes "x \<noteq> ''''"
  shows "\<exists>zs. mergeSessionAliases [] (x # xs) = x # zs"
  using assms foldl_addAlias_prefix [of "[x]" xs] by (simp add: mergeSessionAliases_def addSessionAlias_def)

lemma mergeSessionAliases_idem:
  assumes "distinct xs" "'''' \<notin> set xs"
  shows "mergeSessionAliases xs ys = foldl addSessionAlias xs ys"
  using assms foldl_addAlias_new [of "[]" xs] by (simp add: mergeSessionAliases_def)

lemma mergeSessionAliases_assoc:
  "mergeSessionAliases (mergeSessionAliases [] xs) ys = mergeSessionAliases [] (xs @ ys)"
  by (subst mergeSessionAliases_idem) (simp_all, simp add: mergeSessionAliases_def)

lemma mergeSessionAliases_front:
  assumes "distinct xs" "'''' \<notin> set xs" "x \<in> set xs"
  shows "mergeSessionAliases [x] xs = x # filter (\<lambda>y. y \<noteq> x) xs"
proof -
  have "x \<noteq> ''''" using assms(2,3) by auto
  then have "foldl addSessionAlias (x # acc) ys = foldl addSessionAlias (x # acc) (filter (\<lambda>y. y \<noteq> x) ys)" for acc ys
    by (induction ys arbitrary: acc) (simp_all add: addSessionAlias_def)
  from this [of "[]" xs] assms foldl_addAlias_new [of "[x]" "filter (\<lambda>y. y \<noteq> x) xs"]
  show ?thesis by (auto simp: mergeSessionAliases_def addSessionAlias_def)
qed

definition compacted :: "string list \<Rightarrow> bool" where
  "compacted xs \<longleftrightarrow>
     length (filter isLocalPromptCacheSessionAlias xs) \<le> 1 \<and>
     length (filter (\<lambda>a. \<not> isLocalPromptCacheSessionAlias a) xs) \<le> maxStableSessionAliases"

lemma compactAliasesFrom_sublist:
  "set (compactAliasesFrom p h n xs) \<subseteq> set xs"
  "distinct xs \<Longrightarrow> distinct (compactAliasesFrom p h n xs)"
  by (induction xs arbitrary: h n) (auto dest: subsetD)

lemma compactAliasesFrom_bound:
  "n \<le> maxStableSessionAliases \<Longrightarrow>
   length (filter p (compactAliasesFrom p h n xs)) \<le> (if h then 0 else 1) \<and>
   length (filter (\<lambda>a. \<not> p a) (compactAliasesFrom p h n xs)) + n \<le> maxStableSessionAliases"
proof (induction xs arbitrary: h n)
  case (Cons a xs)
  from Cons.IH [of n True] Cons.IH [of n h] Cons.IH [of "Suc n" h] Cons.prems show ?case
    by (cases "p a"; cases h; cases "n < maxStableSessionAliases") simp_all
qed simp

lemma compactAliasesFrom_id:
  "length (filter p xs) \<le> (if h then 0 else 1) \<Longrightarrow>
   length (filter (\<lambda>a. \<not> p a) xs) + n \<le> maxStableSessionAliases \<Longrightarrow>
   compactAliasesFrom p h n xs = xs"
  by (induction xs arbitrary: h n) (auto split: if_splits)

lemma set_compact: "set (compactSessionAliases xs) \<subseteq> set xs"
  and distinct_compact: "distinct xs \<Longrightarrow> distinct (compactSessionAliases xs)"
  and compacted_compact [simp]: "compacted (compactSessionAliases xs)"
  and compact_id: "compacted xs \<Longrightarrow> compactSessionAliases xs = xs"
  using compactAliasesFrom_bound [of 0 isLocalPromptCacheSessionAlias False xs]
    compactAliasesFrom_id [of isLocalPromptCacheSessionAlias xs False 0]
  by (simp_all add: compactSessionAliases_def compactSessionAliasesWith_def compactAliasesFrom_sublist
      compacted_def)

lemma compact_Cons: "\<exists>ys. compactSessionAliases (x # xs) = x # ys"
  by (simp add: compactSessionAliases_def compactSessionAliasesWith_def maxStableSessionAliases_def)

lemma compact_Nil_iff [simp]: "compactSessionAliases xs = [] \<longleftrightarrow> xs = []"
proof (cases xs)
  case Nil
  then show ?thesis by (simp add: compactSessionAliases_def compactSessionAliasesWith_def)
next
  case (Cons x ys)
  with compact_Cons [of x ys] show ?thesis by auto
qed

lemma compacted_length: "compacted xs \<Longrightarrow> length xs \<le> Suc maxStableSessionAliases"
  using sum_length_filter_compl [of isLocalPromptCacheSessionAlias xs] by (simp add: compacted_def)

lemma compacted_filter: "compacted xs \<Longrightarrow> compacted (filter P xs)"
proof -
  assume *: "compacted xs"
  have "length (filter q (filter P xs)) \<le> length (filter q xs)" for q
    by (induction xs) auto
  from this [of isLocalPromptCacheSessionAlias] this [of "\<lambda>a. \<not> isLocalPromptCacheSessionAlias a"] *
  show ?thesis by (simp add: compacted_def del: filter_filter)
qed

lemma compacted_front:
  assumes "compacted xs" "distinct xs" "x \<in> set xs"
  shows "compacted (x # filter (\<lambda>y. y \<noteq> x) xs)"
proof -
  have "filter (\<lambda>y. y \<noteq> x) xs = remove1 x xs"
    using assms(2) by (simp add: distinct_remove1_removeAll removeAll_filter_not_eq eq_commute)
  then have "mset (x # filter (\<lambda>y. y \<noteq> x) xs) = mset xs"
    using assms(3) by simp
  then have "length (filter P (x # filter (\<lambda>y. y \<noteq> x) xs)) = length (filter P xs)" for P
    by (metis mset_filter size_mset)
  with assms(1) show ?thesis unfolding compacted_def by metis
qed

end
