(* ===== verification/Session_Runs.thy ===== *)
theory Session_Runs
  imports Session_Groups
begin

text \<open>
  Runs of the session cache. The specification is the list of groups with the limit, the lifetime and
  the last sequence number; every operation returns and refines its counterpart on this list, so
  that the properties of bindings are proved on the list and hold for the cache.
\<close>

section \<open>The invariant\<close>

definition numbered :: "nat \<Rightarrow> sessionEntry list \<Rightarrow> bool" where
  "numbered n gs \<longleftrightarrow>
     (\<forall>g \<in> set gs. group_seq g \<le> n \<and>
        (group_seq g \<noteq> 0 \<longrightarrow> group_session g \<noteq> '''' \<and> bind_provider (entry_binding g) \<noteq> '''')) \<and>
     (\<forall>g \<in> set gs. \<forall>h \<in> set gs. group_seq g \<noteq> 0 \<longrightarrow> group_seq g = group_seq h \<longrightarrow> g = h)"

definition cache_holds :: "SessionCache \<Rightarrow> sessionEntry list \<Rightarrow> bool" where
  "cache_holds c gs \<longleftrightarrow>
     cache_rep c gs \<and> 0 < cache_maxEntries c \<and> int (alias_count gs) \<le> cache_maxEntries c \<and>
     (\<forall>g \<in> set gs. compacted (entry_aliases g)) \<and> numbered (cache_bindingSequence c) gs"

definition cache_view :: "SessionCache \<Rightarrow> sessionEntry list" where
  "cache_view c = map (\<lambda>(_, k). get_or zero_entry (cache_groups c) k) (cache_order c)"

definition cache_inv :: "SessionCache \<Rightarrow> bool" where
  "cache_inv c \<longleftrightarrow> cache_holds c (cache_view c)"

lemma numbered_subset: "numbered n gs \<Longrightarrow> set hs \<subseteq> set gs \<Longrightarrow> n \<le> m \<Longrightarrow> numbered m hs"
  unfolding numbered_def by (meson le_trans subsetD)

lemma cache_view_rep:
  assumes "cache_rep c gs"
  shows "cache_view c = gs"
proof -
  have "cache_view c = map (get_or zero_entry (cache_groups c)) (map snd (cache_order c))"
    by (simp add: cache_view_def comp_def case_prod_beta)
  also have "\<dots> = map (get_or zero_entry (cache_groups c)) (map group_key gs)"
    using assms by (simp add: cache_rep_def order_rep_def)
  also have "\<dots> = gs"
  proof -
    have "get_or zero_entry (cache_groups c) (group_key g) = g" if "g \<in> set gs" for g
      using that cache_rep_group [OF assms, of "group_key g" g] by (simp add: get_or_def)
    then show ?thesis by (simp add: comp_def map_idI)
  qed
  finally show ?thesis .
qed

lemma cache_holds_rep: "cache_holds c gs \<Longrightarrow> cache_rep c gs"
  and cache_holds_ok: "cache_holds c gs \<Longrightarrow> groups_ok gs"
  by (simp_all add: cache_holds_def cache_rep_def)

lemma cache_holds_view: "cache_holds c gs \<Longrightarrow> cache_view c = gs"
  by (simp add: cache_holds_def cache_view_rep)

lemma cache_holds_inv: "cache_holds c gs \<Longrightarrow> cache_inv c"
  by (simp add: cache_inv_def cache_holds_view)

section \<open>Lookups\<close>

definition bound_group :: "sessionEntry list \<Rightarrow> string \<Rightarrow> sessionEntry option" where
  "bound_group gs a = find (\<lambda>g. a \<in> set (entry_aliases g)) gs"

lemma bound_group_iff: "groups_ok gs \<Longrightarrow>
    bound_group gs a = Some g \<longleftrightarrow> g \<in> set gs \<and> a \<in> set (entry_aliases g)"
proof -
  assume ok: "groups_ok gs"
  have "find (\<lambda>g. a \<in> set (entry_aliases g)) gs = Some g \<Longrightarrow> g \<in> set gs \<and> a \<in> set (entry_aliases g)" for g
    by (auto simp: find_Some_iff)
  moreover have "find (\<lambda>g. a \<in> set (entry_aliases g)) gs \<noteq> None" if "g \<in> set gs" "a \<in> set (entry_aliases g)" for g
    using that by (auto simp: find_None_iff)
  ultimately show ?thesis
    unfolding bound_group_def using groups_ok_common [OF ok] by (metis option.exhaust)
qed

lemma bound_group_None: "bound_group gs a = None \<longleftrightarrow> (\<forall>g \<in> set gs. a \<notin> set (entry_aliases g))"
  by (auto simp: bound_group_def find_None_iff)

lemma cache_lookup: "cache_rep c gs \<Longrightarrow> map_of (cache_entries c) a = bound_group gs a"
  by (metis cache_rep_lookup cache_rep_ok bound_group_iff option.exhaust)

lemma bound_group_nonempty: "groups_ok gs \<Longrightarrow> bound_group gs a = Some g \<Longrightarrow> a \<noteq> ''''"
  by (auto simp: bound_group_iff groups_ok_def)

lemma bound_group_filter: "groups_ok gs \<Longrightarrow>
    bound_group (filter P gs) a = (case bound_group gs a of None \<Rightarrow> None | Some g \<Rightarrow> if P g then Some g else None)"
proof (cases "bound_group gs a")
  case None
  then have "bound_group (filter P gs) a = None" by (simp add: bound_group_None)
  with None show ?thesis by simp
next
  case (Some g)
  assume ok: "groups_ok gs"
  then have g: "g \<in> set gs" "a \<in> set (entry_aliases g)" using Some by (simp_all add: bound_group_iff)
  have "bound_group (filter P gs) a = Some g" if "P g"
    using that g ok by (simp add: bound_group_iff)
  moreover have "bound_group (filter P gs) a = None" if "\<not> P g"
    using that g groups_ok_common [OF ok g(1)] by (auto simp: bound_group_None)
  ultimately show ?thesis using Some by simp
qed

section \<open>Operations on a represented cache\<close>

lemma remove_holds:
  assumes "cache_holds c gs" "e \<in> set gs"
  shows "cache_holds (removeAliasGroupLocked e c) (filter (\<lambda>g. g \<noteq> e) gs)"
  using assms removeAliasGroup_member [of c gs e] removeAliasGroup_settings [of c e]
    alias_count_filter [of "\<lambda>g. g \<noteq> e" gs] numbered_subset [of "cache_bindingSequence c" gs]
  by (auto simp: cache_holds_def same_settings_def)

lemma removes_holds:
  assumes "cache_holds c gs" "set es \<subseteq> set gs"
  shows "cache_holds (fold removeAliasGroupLocked es c) (filter (\<lambda>g. g \<notin> set es) gs)"
  using assms removeAliasGroups_rep [of c "\<lambda>_. True" gs es] removeAliasGroups_settings [of c es]
    alias_count_filter [of "\<lambda>g. g \<notin> set es" gs] numbered_subset [of "cache_bindingSequence c" gs]
  by (auto simp: cache_holds_def same_settings_def)

lemma replace_holds:
  assumes "cache_rep c gs" "0 < cache_maxEntries c" "set previous \<subseteq> set gs"
    and "groups_ok (filter (\<lambda>h. h \<notin> set previous) gs @ [g])"
    and "\<forall>h \<in> set gs. compacted (entry_aliases h)" "compacted (entry_aliases g)"
    and "numbered (cache_bindingSequence c) (filter (\<lambda>h. h \<notin> set previous) gs @ [g])"
  shows "\<exists>c'. replaceAliasGroupsLocked (entry_authID g) (entry_expiresAt g) (entry_aliases g)
      (entry_binding g) previous c = Some c' \<and>
    cache_holds c' (replace_groups (cache_maxEntries c) g previous gs) \<and> same_settings c c'"
proof -
  let ?all = "filter (\<lambda>h. h \<notin> set previous) gs @ [g]" and ?m = "cache_maxEntries c"
  obtain c' where c': "replaceAliasGroupsLocked (entry_authID g) (entry_expiresAt g) (entry_aliases g)
      (entry_binding g) previous c = Some c'"
    "cache_rep c' (replace_groups ?m g previous gs)" "same_settings c c'"
    using replaceAliasGroups_rep [OF assms(1,3,2,4)] by blast
  obtain ds where "?all = ds @ drop_oldest ?m ?all" using drop_oldest_suffix by blast
  then have sub: "set (drop_oldest ?m ?all) \<subseteq> set ?all" by (metis Un_upper2 set_append)
  have "\<forall>h \<in> set (drop_oldest ?m ?all). compacted (entry_aliases h)"
    using sub assms(5,6) by auto
  with c' sub assms(2,7) numbered_subset [OF assms(7) sub] drop_oldest_bound [of ?m ?all]
  show ?thesis by (auto simp: cache_holds_def replace_groups_def same_settings_def)
qed

lemma alias_count_remove:
  "distinct gs \<Longrightarrow> g \<in> set gs \<Longrightarrow>
    alias_count (filter (\<lambda>h. h \<noteq> g) gs) + length (entry_aliases g) = alias_count gs"
proof (induction gs)
  case (Cons h gs)
  show ?case
  proof (cases "h = g")
    case True
    with Cons.prems have "filter (\<lambda>h. h \<noteq> g) gs = gs" by (auto intro!: filter_True)
    with True show ?thesis by simp
  next
    case False
    with Cons show ?thesis by simp
  qed
qed simp

text \<open>A group that keeps some of its aliases and its binding moves to the end and nothing is evicted.\<close>

lemma move_holds:
  assumes "cache_holds c gs" "g \<in> set gs"
    and "distinct (entry_aliases g')" "entry_aliases g' \<noteq> []" "set (entry_aliases g') \<subseteq> set (entry_aliases g)"
    and "compacted (entry_aliases g')" "entry_binding g' = entry_binding g"
  shows "\<exists>c'. replaceAliasGroupsLocked (entry_authID g') (entry_expiresAt g') (entry_aliases g')
      (entry_binding g) [g] c = Some c' \<and>
    cache_holds c' (filter (\<lambda>h. h \<noteq> g) gs @ [g']) \<and> same_settings c c'"
proof -
  note rep = cache_holds_rep [OF assms(1)] and ok = cache_holds_ok [OF assms(1)]
  have "set (entry_aliases h) \<inter> set (entry_aliases g') = {}" if "h \<in> set gs" "h \<noteq> g" for h
    using that groups_ok_common [OF ok that(1) assms(2)] assms(5) by auto
  then have ok': "groups_ok (filter (\<lambda>h. h \<notin> set [g]) gs @ [g'])"
    using assms groups_ok_member [OF ok assms(2)] ok by (auto simp: groups_ok_append)
  have "numbered (cache_bindingSequence c) gs" using assms(1) by (simp add: cache_holds_def)
  then have num: "numbered (cache_bindingSequence c) (filter (\<lambda>h. h \<notin> set [g]) gs @ [g'])"
    using assms(2,7) by (auto simp: numbered_def)
  have "length (entry_aliases g') \<le> length (entry_aliases g)"
    using assms(3,5) groups_ok_member [OF ok assms(2)] by (metis List.finite_set card_mono distinct_card)
  then have "alias_count (filter (\<lambda>h. h \<notin> set [g]) gs @ [g']) \<le> alias_count gs"
    using alias_count_remove [OF _ assms(2)] groups_ok_distinct [OF ok] by (simp add: distinct_map)
  then have "drop_oldest (cache_maxEntries c) (filter (\<lambda>h. h \<notin> set [g]) gs @ [g']) =
      filter (\<lambda>h. h \<notin> set [g]) gs @ [g']"
    using assms(1) by (intro drop_oldest_id) (simp add: cache_holds_def)
  then show ?thesis
    using replace_holds [OF rep _ _ ok' _ assms(6) num] assms(1,2,7)
    by (simp add: cache_holds_def replace_groups_def)
qed

section \<open>The specification\<close>

record sessions =
  live_bindings :: "sessionEntry list"
  session_limit :: int
  session_ttl :: duration
  session_sequence :: nat

definition abstract_cache :: "SessionCache \<Rightarrow> sessions" where
  "abstract_cache c =
     \<lparr>live_bindings = cache_view c, session_limit = cache_maxEntries c, session_ttl = cache_ttl c,
      session_sequence = cache_bindingSequence c\<rparr>"

definition without :: "sessionEntry \<Rightarrow> sessions \<Rightarrow> sessions" where
  "without g s = s\<lparr>live_bindings := filter (\<lambda>h. h \<noteq> g) (live_bindings s)\<rparr>"

definition moved_to :: "sessionEntry \<Rightarrow> sessionEntry \<Rightarrow> sessions \<Rightarrow> sessions" where
  "moved_to g g' s = s\<lparr>live_bindings := filter (\<lambda>h. h \<noteq> g) (live_bindings s) @ [g']\<rparr>"

definition spec_lookup :: "string \<Rightarrow> time \<Rightarrow> sessions \<Rightarrow> sessionEntry option" where
  "spec_lookup a now s =
     (case bound_group (live_bindings s) a of
        None \<Rightarrow> None
      | Some g \<Rightarrow> if now < entry_expiresAt g then Some g else None)"

definition spec_expire :: "string \<Rightarrow> time \<Rightarrow> sessions \<Rightarrow> sessions" where
  "spec_expire a now s =
     (case bound_group (live_bindings s) a of
        None \<Rightarrow> s
      | Some g \<Rightarrow> if now < entry_expiresAt g then s else without g s)"

text \<open>The identifier that was used moves to the front, the lifetime starts again.\<close>

definition refreshed :: "string \<Rightarrow> time \<Rightarrow> sessionEntry \<Rightarrow> sessionEntry" where
  "refreshed a t g = g\<lparr>entry_expiresAt := t, entry_aliases := a # filter (\<lambda>b. b \<noteq> a) (entry_aliases g)\<rparr>"

definition spec_refresh :: "string \<Rightarrow> time \<Rightarrow> sessions \<Rightarrow> sessions" where
  "spec_refresh a now s =
     (case bound_group (live_bindings s) a of
        None \<Rightarrow> s
      | Some g \<Rightarrow>
          (if now < entry_expiresAt g then moved_to g (refreshed a (now + session_ttl s) g) s
           else without g s))"

definition spec_touch :: "string \<Rightarrow> string \<Rightarrow> time \<Rightarrow> sessions \<Rightarrow> sessions" where
  "spec_touch a authID now s =
     (case spec_lookup a now s of
        None \<Rightarrow> s
      | Some g \<Rightarrow>
          (if authID \<noteq> '''' \<and> entry_authID g = authID
           then moved_to g (refreshed a (now + session_ttl s) g) s else s))"

definition spec_forget :: "string \<Rightarrow> (sessionEntry \<Rightarrow> bool) \<Rightarrow> sessions \<Rightarrow> sessions" where
  "spec_forget a P s =
     (case bound_group (live_bindings s) a of
        None \<Rightarrow> s
      | Some g \<Rightarrow>
          (if \<not> P g then s
           else let rest = filter (\<lambda>b. b \<noteq> a) (entry_aliases g)
                in if rest = [] then without g s else moved_to g (g\<lparr>entry_aliases := rest\<rparr>) s))"

definition spec_keep :: "(sessionEntry \<Rightarrow> bool) \<Rightarrow> sessions \<Rightarrow> sessions" where
  "spec_keep P s = s\<lparr>live_bindings := filter P (live_bindings s)\<rparr>"

definition touched_groups :: "sessionEntry list \<Rightarrow> string list \<Rightarrow> sessionEntry list" where
  "touched_groups gs ids = List.map_filter (bound_group gs) ids"

definition live_groups :: "sessionEntry list \<Rightarrow> string list \<Rightarrow> time \<Rightarrow> sessionEntry list" where
  "live_groups gs ids now = filter (\<lambda>g. now < entry_expiresAt g) (touched_groups gs ids)"

text \<open>The new group has the identifiers of the call first, then those of the groups it merges.\<close>

definition merged_group :: "string \<Rightarrow> string \<Rightarrow> string \<Rightarrow> string list \<Rightarrow> time \<Rightarrow> sessions \<Rightarrow> sessionEntry" where
  "merged_group authID sessionID provider ids now s =
     (let live = live_groups (live_bindings s) ids now
      in \<lparr>entry_authID = authID, entry_expiresAt = now + session_ttl s,
          entry_aliases = compactSessionAliases
            (mergeSessionAliases [] (ids @ concat (map entry_aliases live))),
          entry_binding =
            (if sessionID \<noteq> '''' \<and> provider \<noteq> ''''
             then \<lparr>bind_sessionID = sessionID, bind_provider = provider,
                   bind_sequence = (session_sequence s + 1) mod 2 ^ 64\<rparr>
             else fold newerBinding live
                    \<lparr>bind_sessionID = sessionID, bind_provider = provider, bind_sequence = 0\<rparr>)\<rparr>)"

definition spec_set :: "string \<Rightarrow> string \<Rightarrow> string \<Rightarrow> string list \<Rightarrow> time \<Rightarrow> sessions \<Rightarrow> sessions" where
  "spec_set authID sessionID provider ids now s =
     (if authID = '''' \<or> set ids \<subseteq> {''''} then s
      else let g = merged_group authID sessionID provider ids now s
           in s\<lparr>live_bindings :=
                  replace_groups (session_limit s) g (touched_groups (live_bindings s) ids) (live_bindings s),
                session_sequence :=
                  (if sessionID \<noteq> '''' \<and> provider \<noteq> ''''
                   then (session_sequence s + 1) mod 2 ^ 64 else session_sequence s)\<rparr>)"

section \<open>Refinement, operation by operation\<close>

definition refines :: "SessionCache \<Rightarrow> sessions \<Rightarrow> bool" where
  "refines c s \<longleftrightarrow> cache_inv c \<and> abstract_cache c = s"

lemma refinesI:
  "cache_holds c gs \<Longrightarrow> live_bindings s = gs \<Longrightarrow> session_limit s = cache_maxEntries c \<Longrightarrow>
   session_ttl s = cache_ttl c \<Longrightarrow> session_sequence s = cache_bindingSequence c \<Longrightarrow> refines c s"
  by (simp add: refines_def abstract_cache_def cache_holds_inv cache_holds_view)

lemma refinesD:
  assumes "refines c s"
  shows "cache_holds c (live_bindings s)" "session_limit s = cache_maxEntries c"
    "session_ttl s = cache_ttl c" "session_sequence s = cache_bindingSequence c"
  using assms by (auto simp: refines_def cache_inv_def abstract_cache_def)

lemma refines_rep: "refines c s \<Longrightarrow> cache_rep c (live_bindings s)"
  by (rule cache_holds_rep [OF refinesD(1)])

lemma refines_ok: "refines c s \<Longrightarrow> groups_ok (live_bindings s)"
  by (rule cache_holds_ok [OF refinesD(1)])

lemma refines_lookup: "refines c s \<Longrightarrow> map_of (cache_entries c) a = bound_group (live_bindings s) a"
  by (simp add: cache_lookup [OF refines_rep])

lemma bound_member:
  assumes "refines c s" "bound_group (live_bindings s) a = Some g"
  shows "g \<in> set (live_bindings s)" "a \<in> set (entry_aliases g)" "a \<noteq> ''''"
  using assms bound_group_iff [OF refines_ok] bound_group_nonempty [OF refines_ok] by blast+

lemma without_refines:
  assumes "refines c s" "g \<in> set (live_bindings s)"
  shows "refines (removeAliasGroupLocked g c) (without g s)"
  using remove_holds [OF refinesD(1) [OF assms(1)] assms(2)] refinesD [OF assms(1)]
    removeAliasGroup_settings [of c g]
  by (intro refinesI) (simp_all add: without_def same_settings_def)

lemma moved_refines:
  assumes "refines c s" "g \<in> set (live_bindings s)"
    and "distinct (entry_aliases g')" "entry_aliases g' \<noteq> []" "set (entry_aliases g') \<subseteq> set (entry_aliases g)"
    and "compacted (entry_aliases g')" "entry_binding g' = entry_binding g"
  shows "\<exists>c'. replaceAliasGroupsLocked (entry_authID g') (entry_expiresAt g') (entry_aliases g')
      (entry_binding g) [g] c = Some c' \<and> refines c' (moved_to g g' s)"
  using move_holds [OF refinesD(1) [OF assms(1)] assms(2-7)] refinesD [OF assms(1)]
  by (auto intro!: refinesI simp: moved_to_def same_settings_def)

lemma refresh_refines:
  assumes "refines c s" "bound_group (live_bindings s) a = Some g"
  shows "\<exists>c'. replaceAliasGroupsLocked (entry_authID g) t
      (compactSessionAliases (mergeSessionAliases [a] (entry_aliases g))) (entry_binding g) [g] c = Some c' \<and>
    refines c' (moved_to g (refreshed a t g) s)"
proof -
  note g = bound_member [OF assms]
  note mem = groups_ok_member [OF refines_ok [OF assms(1)] g(1)]
  have cp: "compacted (entry_aliases g)"
    using refinesD(1) [OF assms(1)] g(1) by (simp add: cache_holds_def)
  then have front: "compacted (a # filter (\<lambda>b. b \<noteq> a) (entry_aliases g))"
    using compacted_front g(2) mem by blast
  then have eq: "compactSessionAliases (mergeSessionAliases [a] (entry_aliases g)) = entry_aliases (refreshed a t g)"
    using g(2) mem by (simp add: mergeSessionAliases_front compact_id refreshed_def)
  show ?thesis
    unfolding eq using moved_refines [OF assms(1) g(1), of "refreshed a t g"] front mem g(2)
    by (auto simp: refreshed_def)
qed

lemma Get_expire_refines:
  assumes "refines c s"
  shows "refines (snd (Get_expire a now c)) (spec_expire a now s)"
    "fst (Get_expire a now c) = map_option entry_authID (spec_lookup a now s)"
  using assms without_refines [OF assms] bound_member [OF assms]
  by (auto simp: Get_expire_def spec_expire_def spec_lookup_def refines_lookup split: option.split)

lemma GetAndRefresh_refines:
  assumes "refines c s"
  shows "\<exists>c'. GetAndRefresh a now c = Some (map_option entry_authID (spec_lookup a now s), c') \<and>
    refines c' (spec_refresh a now s)"
proof (cases "bound_group (live_bindings s) a")
  case None
  then show ?thesis
    using assms by (simp add: GetAndRefresh_def spec_refresh_def spec_lookup_def refines_lookup)
next
  case (Some g)
  with refresh_refines [OF assms Some, of "now + cache_ttl c"] bound_member [OF assms Some]
    without_refines [OF assms, of g] refinesD(3) [OF assms] refines_lookup [OF assms, of a]
  show ?thesis by (auto simp: GetAndRefresh_def spec_refresh_def spec_lookup_def)
qed

lemma Touch_refines:
  assumes "refines c s"
  shows "\<exists>r c'. Touch a authID now c = Some (r, c') \<and> refines c' (spec_touch a authID now s)"
proof (cases "bound_group (live_bindings s) a")
  case None
  then show ?thesis
    using assms by (auto simp: Touch_def spec_touch_def spec_lookup_def refines_lookup)
next
  case (Some g)
  with refresh_refines [OF assms Some, of "now + cache_ttl c"] bound_member [OF assms Some]
    refinesD(3) [OF assms] refines_lookup [OF assms, of a] assms
  show ?thesis by (auto simp: Touch_def spec_touch_def spec_lookup_def)
qed

lemma replace_after_remove:
  "replaceAliasGroupsLocked authID t as b [] (removeAliasGroupLocked g c) =
   replaceAliasGroupsLocked authID t as b [g] c"
  by (simp add: replaceAliasGroupsLocked_def)

lemma removeOneAlias_refines:
  assumes "refines c s" "bound_group (live_bindings s) a = Some g" "P g"
  shows "\<exists>c'. removeOneAlias a g c = Some c' \<and> refines c' (spec_forget a P s)"
proof (cases "filter (\<lambda>b. b \<noteq> a) (entry_aliases g) = []")
  case True
  with assms without_refines [OF assms(1) bound_member(1) [OF assms(1,2)]]
  show ?thesis by (simp add: removeOneAlias_def spec_forget_def)
next
  case False
  let ?g = "g\<lparr>entry_aliases := filter (\<lambda>b. b \<noteq> a) (entry_aliases g)\<rparr>"
  note g = bound_member [OF assms(1,2)]
  have "compacted (entry_aliases g)"
    using refinesD(1) [OF assms(1)] g(1) by (simp add: cache_holds_def)
  with moved_refines [OF assms(1) g(1), of ?g] False assms(2,3)
    groups_ok_member [OF refines_ok [OF assms(1)] g(1)]
  show ?thesis
    by (auto simp: removeOneAlias_def spec_forget_def replace_after_remove compacted_filter Let_def)
qed

lemma CompareAndDelete_refines:
  assumes "refines c s"
  shows "\<exists>r c'. CompareAndDelete a authID c = Some (r, c') \<and>
    refines c' (spec_forget a (\<lambda>g. authID \<noteq> '''' \<and> entry_authID g = authID) s)"
  using removeOneAlias_refines [OF assms, of a _ "\<lambda>g. authID \<noteq> '''' \<and> entry_authID g = authID"]
    bound_member(3) [OF assms, of a] assms
  by (cases "bound_group (live_bindings s) a") (auto simp: CompareAndDelete_def refines_lookup spec_forget_def)

lemma Invalidate_refines:
  assumes "refines c s"
  shows "\<exists>c'. Invalidate a c = Some c' \<and> refines c' (spec_forget a (\<lambda>_. True) s)"
  using removeOneAlias_refines [OF assms, of a _ "\<lambda>_. True"] bound_member(3) [OF assms, of a] assms
  by (cases "bound_group (live_bindings s) a") (auto simp: Invalidate_def refines_lookup spec_forget_def)

text \<open>The loops over all groups visit them in the order of a Go map, which does not matter.\<close>

lemma fold_conditional:
  "fold (\<lambda>(_, x) s. if Q x then f x s else s) m s = fold f (filter Q (map snd m)) s"
  by (induction m arbitrary: s) auto

lemma cache_groups_set:
  assumes "cache_rep c gs"
  shows "snd ` set (cache_groups c) = set gs"
proof -
  have "wf_map (cache_groups c)" using assms by (simp add: cache_rep_def groups_rep_def)
  then have "snd ` set (cache_groups c) = ran (map_of (cache_groups c))"
    by (simp add: ran_map_of)
  also have "\<dots> = set gs" unfolding ran_def using assms by (auto simp: cache_rep_group)
  finally show ?thesis .
qed

lemma sweep_refines:
  assumes "refines c s"
  shows "refines (fold (\<lambda>(_, g) c. if Q g then removeAliasGroupLocked g c else c) (cache_groups c) c)
    (spec_keep (\<lambda>g. \<not> Q g) s)"
proof -
  let ?es = "filter Q (map snd (cache_groups c))" and ?gs = "live_bindings s"
  have es: "set ?es = {g \<in> set ?gs. Q g}"
    using cache_groups_set [OF refines_rep [OF assms]] by auto
  have kept: "filter (\<lambda>g. g \<notin> set ?es) ?gs = filter (\<lambda>g. \<not> Q g) ?gs"
    unfolding es by (auto intro: filter_cong)
  have "set ?es \<subseteq> set ?gs" unfolding es by blast
  from removes_holds [OF refinesD(1) [OF assms] this]
  have "cache_holds (fold removeAliasGroupLocked ?es c) (filter (\<lambda>g. \<not> Q g) ?gs)"
    unfolding kept .
  with refinesD [OF assms] removeAliasGroups_settings [of c ?es] show ?thesis
    unfolding fold_conditional by (intro refinesI) (auto simp: spec_keep_def same_settings_def)
qed

lemma InvalidateAuth_refines:
  "refines c s \<Longrightarrow> refines (InvalidateAuth authID c) (spec_keep (\<lambda>g. authID = '''' \<or> entry_authID g \<noteq> authID) s)"
  using sweep_refines [of c s "\<lambda>g. entry_authID g = authID"]
  by (cases "authID = ''''") (simp_all add: InvalidateAuth_def spec_keep_def)

lemma cleanup_refines:
  "refines c s \<Longrightarrow> refines (cleanup now c) (spec_keep (\<lambda>g. now < entry_expiresAt g) s)"
  using sweep_refines [of c s "\<lambda>g. \<not> now < entry_expiresAt g"] by (simp add: cleanup_def)

section \<open>Binding identifiers\<close>

lemma touched_groups_simps [simp]:
  "touched_groups gs [] = []"
  "touched_groups gs (a # ids) =
     (case bound_group gs a of None \<Rightarrow> touched_groups gs ids | Some g \<Rightarrow> g # touched_groups gs ids)"
  by (simp_all add: touched_groups_def split: option.split)

lemma touched_groups_member:
  "groups_ok gs \<Longrightarrow> g \<in> set (touched_groups gs ids) \<longleftrightarrow> g \<in> set gs \<and> (\<exists>a \<in> set ids. a \<in> set (entry_aliases g))"
  by (induction ids) (auto split: option.split simp: bound_group_iff bound_group_None dest: groups_ok_common)

lemma collectAlias_rep:
  assumes "groups_ok gs" "cache_rep c (filter (\<lambda>g. g \<notin> D) gs)" "\<forall>g \<in> D. \<not> now < entry_expiresAt g"
  shows "\<exists>c'. fold (collectAlias now) ids (mergeSessionAliases [] as, ps, c) =
      (mergeSessionAliases [] (as @ concat (map entry_aliases (live_groups gs ids now))),
       ps @ live_groups gs ids now, c') \<and>
    cache_rep c' (filter (\<lambda>g. g \<notin> D \<union> {g \<in> set (touched_groups gs ids). \<not> now < entry_expiresAt g}) gs) \<and>
    same_settings c c'"
  using assms(2,3)
proof (induction ids arbitrary: c D as ps)
  case Nil
  then show ?case by (simp add: live_groups_def)
next
  case (Cons a ids)
  have look: "map_of (cache_entries c) a =
      (case bound_group gs a of None \<Rightarrow> None | Some g \<Rightarrow> if g \<notin> D then Some g else None)"
    using cache_lookup [OF Cons.prems(1)] bound_group_filter [OF assms(1)] by simp
  show ?case
  proof (cases "bound_group gs a")
    case None
    with look Cons.IH [OF Cons.prems] show ?thesis by (simp add: collectAlias_def live_groups_def)
  next
    case (Some g)
    show ?thesis
    proof (cases "now < entry_expiresAt g")
      case True
      then have "g \<notin> D" using Cons.prems(2) by auto
      with True look Some
      have step: "collectAlias now a (mergeSessionAliases [] as, ps, c) =
          (mergeSessionAliases [] (as @ entry_aliases g), ps @ [g], c)"
        by (simp add: collectAlias_def mergeSessionAliases_assoc)
      have "{h \<in> set (touched_groups gs (a # ids)). \<not> now < entry_expiresAt h} =
          {h \<in> set (touched_groups gs ids). \<not> now < entry_expiresAt h}"
        using True Some by auto
      with True Some step Cons.IH [OF Cons.prems, of "as @ entry_aliases g" "ps @ [g]"]
      show ?thesis by (simp add: live_groups_def)
    next
      case False
      have g: "g \<in> set gs" using Some assms(1) by (simp add: bound_group_iff)
      let ?c = "if g \<in> D then c else removeAliasGroupLocked g c"
      from False look Some
      have step: "collectAlias now a (mergeSessionAliases [] as, ps, c) = (mergeSessionAliases [] as, ps, ?c)"
        by (simp add: collectAlias_def)
      have rep: "cache_rep ?c (filter (\<lambda>h. h \<notin> insert g D) gs)"
      proof (cases "g \<in> D")
        case True
        with Cons.prems(1) show ?thesis by (simp add: insert_absorb)
      next
        case False
        with removeAliasGroup_rep [OF Cons.prems(1) assms(1) g] show ?thesis by (simp add: conj_commute)
      qed
      have dead: "\<forall>h \<in> insert g D. \<not> now < entry_expiresAt h" using False Cons.prems(2) by auto
      have set: "same_settings c ?c" by simp
      have gone: "insert g D \<union> {h \<in> set (touched_groups gs ids). \<not> now < entry_expiresAt h} =
          D \<union> {h \<in> set (touched_groups gs (a # ids)). \<not> now < entry_expiresAt h}"
        using False Some by auto
      have live: "live_groups gs (a # ids) now = live_groups gs ids now"
        using False Some by (simp add: live_groups_def)
      show ?thesis
        using Cons.IH [OF rep dead, of as ps] same_settings_trans [OF set]
        unfolding gone live fold_Cons comp_def step by blast
    qed
  qed
qed

lemma fold_newerBinding:
  "fold newerBinding ps b = b \<or> (\<exists>p \<in> set ps. fold newerBinding ps b = entry_binding p)"
proof (induction ps arbitrary: b)
  case (Cons p ps)
  from Cons [of "newerBinding p b"] show ?case by (auto simp: newerBinding_def split: if_splits)
qed simp

lemma merged_aliases:
  "set (entry_aliases (merged_group authID sid prov ids now s)) \<subseteq>
     (set ids \<union> (\<Union>g \<in> set (live_groups (live_bindings s) ids now). set (entry_aliases g))) - {''''}"
  "distinct (entry_aliases (merged_group authID sid prov ids now s))"
  "compacted (entry_aliases (merged_group authID sid prov ids now s))"
  using set_compact [of "mergeSessionAliases [] (ids @ concat (map entry_aliases (live_groups (live_bindings s) ids now)))"]
  by (auto simp: merged_group_def Let_def distinct_compact)

lemma merged_group_empty:
  assumes "groups_ok (live_bindings s)"
  shows "entry_aliases (merged_group authID sid prov ids now s) = [] \<longleftrightarrow> set ids \<subseteq> {''''}"
proof
  assume "entry_aliases (merged_group authID sid prov ids now s) = []"
  then have "mergeSessionAliases [] (ids @ concat (map entry_aliases (live_groups (live_bindings s) ids now))) = []"
    by (simp add: merged_group_def Let_def)
  then have "set (mergeSessionAliases [] (ids @ concat (map entry_aliases (live_groups (live_bindings s) ids now)))) = {}"
    by simp
  then show "set ids \<subseteq> {''''}" by auto
next
  assume ids: "set ids \<subseteq> {''''}"
  then have "touched_groups (live_bindings s) ids = []"
  proof (induction ids)
    case (Cons a ids)
    then have "bound_group (live_bindings s) a = None"
      using assms by (auto simp: bound_group_None groups_ok_def)
    with Cons show ?case by simp
  qed simp
  then have live: "live_groups (live_bindings s) ids now = []" by (simp add: live_groups_def)
  have "set ids - {''''} = {}" using ids by auto
  with merged_aliases(1) [of authID sid prov ids now s]
  have "set (entry_aliases (merged_group authID sid prov ids now s)) = {}"
    unfolding live by (simp only: list.set UN_empty Un_empty_right subset_empty)
  then show "entry_aliases (merged_group authID sid prov ids now s) = []" by simp
qed

lemma merged_groups_ok:
  assumes "groups_ok (live_bindings s)" "\<not> set ids \<subseteq> {''''}"
  shows "groups_ok (filter (\<lambda>h. h \<notin> set (touched_groups (live_bindings s) ids)) (live_bindings s) @
    [merged_group authID sid prov ids now s])"
proof -
  let ?gs = "live_bindings s" and ?g = "merged_group authID sid prov ids now s"
  have "set (entry_aliases h) \<inter> set (entry_aliases ?g) = {}"
    if h: "h \<in> set ?gs" "h \<notin> set (touched_groups ?gs ids)" for h
  proof -
    have "a \<notin> set ids" if "a \<in> set (entry_aliases h)" for a
      using that h touched_groups_member [OF assms(1)] by blast
    moreover have "a \<notin> set (entry_aliases p)"
      if "a \<in> set (entry_aliases h)" "p \<in> set (live_groups ?gs ids now)" for a p
      using that h touched_groups_member [OF assms(1), of p ids] groups_ok_common [OF assms(1) h(1)]
      by (auto simp: live_groups_def)
    ultimately show ?thesis
      using merged_aliases(1) [of authID sid prov ids now s] by blast
  qed
  then show ?thesis
    using assms merged_aliases [of authID sid prov ids now s] merged_group_empty [OF assms(1)]
    by (auto simp: groups_ok_append)
qed

lemma numbered_append:
  assumes "numbered n gs" "group_seq g \<le> n"
    and "group_seq g \<noteq> 0 \<Longrightarrow> group_session g \<noteq> '''' \<and> bind_provider (entry_binding g) \<noteq> ''''"
    and "\<And>h. h \<in> set gs \<Longrightarrow> group_seq g \<noteq> 0 \<Longrightarrow> group_seq h \<noteq> group_seq g"
  shows "numbered n (gs @ [g])"
proof -
  have eq: "h = k" if "h \<in> set gs" "k \<in> set gs" "group_seq h \<noteq> 0" "group_seq h = group_seq k" for h k
    using that assms(1) unfolding numbered_def by blast
  have "h = k" if "h \<in> set (gs @ [g])" "k \<in> set (gs @ [g])" "group_seq h \<noteq> 0" "group_seq h = group_seq k" for h k
  proof (cases "h \<in> set gs"; cases "k \<in> set gs")
    assume "h \<in> set gs" "k \<in> set gs"
    then show ?thesis using eq that by blast
  next
    assume "h \<in> set gs" "k \<notin> set gs"
    then show ?thesis using assms(4) [of h] that by simp
  next
    assume "h \<notin> set gs" "k \<in> set gs"
    then show ?thesis using assms(4) [of k] that by simp
  qed (use that in simp)
  with assms(1-3) show ?thesis unfolding numbered_def by auto
qed

lemma merged_numbered:
  assumes "groups_ok (live_bindings s)" "numbered (session_sequence s) (live_bindings s)"
    and "session_sequence s + 1 < 2 ^ 64"
  shows "numbered (if sid \<noteq> '''' \<and> prov \<noteq> '''' then session_sequence s + 1 else session_sequence s)
    (filter (\<lambda>h. h \<notin> set (touched_groups (live_bindings s) ids)) (live_bindings s) @
      [merged_group authID sid prov ids now s])"
proof (cases "sid \<noteq> '''' \<and> prov \<noteq> ''''")
  case True
  let ?g = "merged_group authID sid prov ids now s"
  have g: "entry_binding ?g = \<lparr>bind_sessionID = sid, bind_provider = prov, bind_sequence = session_sequence s + 1\<rparr>"
    using True assms(3) by (simp add: merged_group_def Let_def)
  have "group_seq h \<noteq> session_sequence s + 1" if "h \<in> set (live_bindings s)" for h
    using that assms(2) by (fastforce simp: numbered_def)
  with g True have "numbered (session_sequence s + 1)
      (filter (\<lambda>h. h \<notin> set (touched_groups (live_bindings s) ids)) (live_bindings s) @ [?g])"
    by (intro numbered_append numbered_subset [OF assms(2)]) auto
  with True show ?thesis by simp
next
  case False
  let ?g = "merged_group authID sid prov ids now s" and ?live = "live_groups (live_bindings s) ids now"
  have "group_seq ?g = 0 \<or> (\<exists>p \<in> set ?live. entry_binding ?g = entry_binding p)"
    using False fold_newerBinding [of ?live "\<lparr>bind_sessionID = sid, bind_provider = prov, bind_sequence = 0\<rparr>"]
    by (auto simp: merged_group_def Let_def)
  moreover have "p \<in> set (live_bindings s) \<and> p \<in> set (touched_groups (live_bindings s) ids)"
    if "p \<in> set ?live" for p
    using that touched_groups_member [OF assms(1)] by (auto simp: live_groups_def)
  ultimately consider "group_seq ?g = 0"
    | p where "p \<in> set (live_bindings s)" "p \<in> set (touched_groups (live_bindings s) ids)"
        "entry_binding ?g = entry_binding p" by metis
  then have "numbered (session_sequence s)
      (filter (\<lambda>h. h \<notin> set (touched_groups (live_bindings s) ids)) (live_bindings s) @ [?g])"
  proof cases
    case 1
    then show ?thesis by (intro numbered_append numbered_subset [OF assms(2)]) auto
  next
    case 2
    have "group_seq h \<noteq> group_seq p"
      if "h \<in> set (live_bindings s)" "h \<notin> set (touched_groups (live_bindings s) ids)" "group_seq p \<noteq> 0" for h
      using that 2 assms(2) unfolding numbered_def by metis
    with 2 assms(2) show ?thesis
      by (intro numbered_append numbered_subset [OF assms(2)]) (auto simp: numbered_def)
  qed
  with False show ?thesis by auto
qed

lemma setAliases_refines:
  assumes "refines c s" "cache_bindingSequence c + 1 < 2 ^ 64"
  shows "\<exists>c'. setAliases authID \<lparr>bind_sessionID = sid, bind_provider = prov, bind_sequence = 0\<rparr> ids now c = Some c' \<and>
    refines c' (spec_set authID sid prov ids now s)"
proof (cases "authID = ''''")
  case True
  with assms(1) show ?thesis by (simp add: setAliases_def spec_set_def)
next
  case auth: False
  let ?gs = "live_bindings s" and ?g = "merged_group authID sid prov ids now s"
  let ?live = "live_groups ?gs ids now" and ?hit = "touched_groups ?gs ids"
  note ok = refines_ok [OF assms(1)] and D = refinesD [OF assms(1)]
  define gs where "gs = filter (\<lambda>g. g \<notin> {g \<in> set ?hit. \<not> now < entry_expiresAt g}) ?gs"
  obtain c1 where c1: "fold (collectAlias now) ids (mergeSessionAliases [] ids, [], c) =
      (mergeSessionAliases [] (ids @ concat (map entry_aliases ?live)), ?live, c1)"
    "cache_rep c1 gs" "same_settings c c1"
    using collectAlias_rep [OF ok, of c "{}" now ids ids "[]"] refines_rep [OF assms(1)]
    by (auto simp: gs_def)
  show ?thesis
  proof (cases "set ids \<subseteq> {''''}")
    case True
    then have "compactSessionAliases (mergeSessionAliases [] (ids @ concat (map entry_aliases ?live))) = []"
      using merged_group_empty [OF ok, of authID sid prov ids now] by (simp add: merged_group_def Let_def)
    moreover have "?hit = []"
      using True ok by (induction ids) (auto simp: bound_group_None groups_ok_def split: option.split)
    ultimately show ?thesis
      using c1 auth True D by (auto simp: setAliases_def spec_set_def gs_def Let_def same_settings_def
          cache_holds_def intro!: refinesI)
  next
    case False
    let ?named = "sid \<noteq> '''' \<and> prov \<noteq> ''''"
    let ?n = "if ?named then session_sequence s + 1 else session_sequence s"
    let ?c = "c1\<lparr>cache_bindingSequence := ?n\<rparr>"
    have rest: "filter (\<lambda>h. h \<notin> set ?live) gs = filter (\<lambda>h. h \<notin> set ?hit) ?gs"
      by (auto simp: gs_def live_groups_def intro: filter_cong)
    have live: "set ?live \<subseteq> set gs"
      using touched_groups_member [OF ok] by (auto simp: gs_def live_groups_def)
    have room: "session_sequence s + 1 < 2 ^ 64" using assms(2) D by simp
    have limits: "cache_maxEntries ?c = session_limit s" "cache_bindingSequence ?c = ?n"
      using c1(3) D by (simp_all add: same_settings_def)
    have num: "numbered (session_sequence s) ?gs" and pos: "0 < session_limit s"
      and comp: "\<forall>h \<in> set gs. compacted (entry_aliases h)"
      using D by (auto simp: cache_holds_def gs_def)
    obtain c' where c': "replaceAliasGroupsLocked authID (now + cache_ttl c) (entry_aliases ?g)
        (entry_binding ?g) ?live ?c = Some c'"
      "cache_holds c' (replace_groups (session_limit s) ?g ?live gs)" "same_settings ?c c'"
      using replace_holds [of ?c gs ?live ?g] c1(2) live pos comp limits rest
        merged_groups_ok [OF ok False, of authID sid prov now] merged_aliases(3) [of authID sid prov ids now s]
        merged_numbered [OF ok num room, of sid prov ids authID now] D
      by (auto simp: merged_group_def Let_def)
    have aliases: "entry_aliases ?g \<noteq> []" using False merged_group_empty [OF ok] by blast
    have "setAliases authID \<lparr>bind_sessionID = sid, bind_provider = prov, bind_sequence = 0\<rparr> ids now c = Some c'"
    proof (cases ?named)
      case True
      with c' c1 auth aliases room D show ?thesis
        by (simp add: setAliases_def Let_def merged_group_def same_settings_def)
    next
      case unnamed: False
      then have "?c = c1" using c1(3) D by (cases c1) (auto simp: same_settings_def)
      with c'(1) have "replaceAliasGroupsLocked authID (now + cache_ttl c) (entry_aliases ?g)
        (entry_binding ?g) ?live c1 = Some c'" by simp
      with unnamed c1 auth aliases show ?thesis
        by (auto simp: setAliases_def Let_def merged_group_def same_settings_def)
    qed
    moreover have "refines c' (spec_set authID sid prov ids now s)"
      using c' auth False c1(3) D room limits rest
      by (intro refinesI) (auto simp: spec_set_def Let_def replace_groups_def same_settings_def)
    ultimately show ?thesis by blast
  qed
qed

section \<open>Runs\<close>

text \<open>The part of \<open>Get\<close> that changes the state, and the other operations; \<open>Set\<close> is \<open>SetAliases\<close>.\<close>

datatype session_op =
    OpExpire string time
  | OpRefresh string time
  | OpSetAliases string "string list" time
  | OpSetSession string string string "string list" time
  | OpTouch string string time
  | OpCompareAndDelete string string
  | OpInvalidate string
  | OpInvalidateAuth string
  | OpCleanup time

fun session_step :: "session_op \<Rightarrow> SessionCache \<Rightarrow> SessionCache option" where
  "session_step (OpExpire a now) c = Some (snd (Get_expire a now c))"
| "session_step (OpRefresh a now) c = map_option snd (GetAndRefresh a now c)"
| "session_step (OpSetAliases authID ids now) c = SetAliases authID ids now c"
| "session_step (OpSetSession authID provider sessionID keys now) c =
     setSessionAliases authID provider sessionID keys now c"
| "session_step (OpTouch a authID now) c = map_option snd (Touch a authID now c)"
| "session_step (OpCompareAndDelete a authID) c = map_option snd (CompareAndDelete a authID c)"
| "session_step (OpInvalidate a) c = Invalidate a c"
| "session_step (OpInvalidateAuth authID) c = Some (InvalidateAuth authID c)"
| "session_step (OpCleanup now) c = Some (cleanup now c)"

primrec session_run :: "session_op list \<Rightarrow> SessionCache \<Rightarrow> SessionCache option" where
  "session_run [] c = Some c"
| "session_run (op # ops) c = (case session_step op c of None \<Rightarrow> None | Some c' \<Rightarrow> session_run ops c')"

fun spec_step :: "session_op \<Rightarrow> sessions \<Rightarrow> sessions" where
  "spec_step (OpExpire a now) s = spec_expire a now s"
| "spec_step (OpRefresh a now) s = spec_refresh a now s"
| "spec_step (OpSetAliases authID ids now) s = spec_set authID '''' '''' ids now s"
| "spec_step (OpSetSession authID provider sessionID keys now) s = spec_set authID sessionID provider keys now s"
| "spec_step (OpTouch a authID now) s = spec_touch a authID now s"
| "spec_step (OpCompareAndDelete a authID) s =
     spec_forget a (\<lambda>g. authID \<noteq> '''' \<and> entry_authID g = authID) s"
| "spec_step (OpInvalidate a) s = spec_forget a (\<lambda>_. True) s"
| "spec_step (OpInvalidateAuth authID) s = spec_keep (\<lambda>g. authID = '''' \<or> entry_authID g \<noteq> authID) s"
| "spec_step (OpCleanup now) s = spec_keep (\<lambda>g. now < entry_expiresAt g) s"

lemma session_step_refines:
  assumes "refines c s" "session_sequence s + 1 < 2 ^ 64"
  shows "\<exists>c'. session_step op c = Some c' \<and> refines c' (spec_step op s)"
proof -
  have room: "cache_bindingSequence c + 1 < 2 ^ 64" using assms refinesD(4) by simp
  show ?thesis
  proof (cases op)
    case (OpSetAliases authID ids now)
    with setAliases_refines [OF assms(1) room, of authID "''''" "''''" ids now] show ?thesis
      by (simp add: SetAliases_def zero_binding_def)
  next
    case (OpSetSession authID provider sessionID keys now)
    with setAliases_refines [OF assms(1) room] show ?thesis by (simp add: setSessionAliases_def)
  next
    case (OpRefresh a now)
    with GetAndRefresh_refines [OF assms(1), of a now] show ?thesis by auto
  next
    case (OpTouch a authID now)
    with Touch_refines [OF assms(1), of a authID now] show ?thesis by auto
  next
    case (OpCompareAndDelete a authID)
    with CompareAndDelete_refines [OF assms(1), of a authID] show ?thesis by auto
  qed (use assms(1) in \<open>simp_all add: Get_expire_refines Invalidate_refines InvalidateAuth_refines cleanup_refines\<close>)
qed

lemma spec_step_sequence: "session_sequence s + 1 < 2 ^ 64 \<Longrightarrow> session_sequence (spec_step op s) \<le> session_sequence s + 1"
  by (cases op) (auto simp: spec_expire_def spec_refresh_def spec_touch_def spec_forget_def spec_keep_def
      spec_set_def without_def moved_to_def Let_def split: option.split)

lemma spec_run_limit: "session_limit (fold spec_step ops s) = session_limit s"
proof (induction ops arbitrary: s)
  case (Cons op ops)
  have "session_limit (spec_step op s) = session_limit s"
    by (cases op) (auto simp: spec_expire_def spec_refresh_def spec_touch_def spec_forget_def spec_keep_def
        spec_set_def without_def moved_to_def Let_def split: option.split)
  with Cons show ?case by simp
qed simp

lemma session_run_refines:
  assumes "refines c s" "session_sequence s + length ops < 2 ^ 64"
  shows "\<exists>c'. session_run ops c = Some c' \<and> refines c' (fold spec_step ops s)"
  using assms
proof (induction ops arbitrary: c s)
  case (Cons op ops)
  have "session_sequence s + 1 < 2 ^ 64" using Cons.prems(2) by simp
  with session_step_refines [OF Cons.prems(1)] obtain c' where
    "session_step op c = Some c'" "refines c' (spec_step op s)" by blast
  with Cons.IH [of c' "spec_step op s"] Cons.prems(2) spec_step_sequence [of s op] show ?case by simp
qed simp

lemma new_cache_refines: "refines (NewSessionCacheWithCapacity ttl m) (abstract_cache (NewSessionCacheWithCapacity ttl m))"
proof -
  have "cache_holds (NewSessionCacheWithCapacity ttl m) []"
    using cache_rep_empty [of ttl m]
    by (simp add: cache_holds_def numbered_def NewSessionCacheWithCapacity_def defaultMaxSessionEntries_def)
  then show ?thesis by (simp add: refines_def cache_holds_inv)
qed

lemma refines_Len:
  assumes "refines c s"
  shows "int (Cache_Len c) \<le> cache_maxEntries c"
  using refinesD(1) [OF assms] cache_rep_Len [OF refines_rep [OF assms]] by (simp add: cache_holds_def)

lemma Cache_Get_lookup:
  assumes "refines c s" "now \<le> now'"
  shows "fst (Cache_Get a now now' c) = map_option entry_authID (spec_lookup a now s)"
  using assms bound_member(3) [OF assms(1), of a]
  by (auto simp: Cache_Get_def Get_read_def Get_expire_def spec_lookup_def refines_lookup split: option.split)

text \<open>(C19) Every run of operations on a new cache returns, does to the list of groups what the
  specification says, and keeps the number of aliases within the capacity; in particular the loop of
  the eviction ends. A run has fewer than \<open>2 ^ 64\<close> operations, so that the sequence number does not
  wrap around.\<close>

theorem session_cache_refines_groups:
  assumes "length ops < 2 ^ 64"
  shows "\<exists>c. session_run ops (NewSessionCacheWithCapacity ttl m) = Some c \<and>
    abstract_cache c = fold spec_step ops (abstract_cache (NewSessionCacheWithCapacity ttl m)) \<and>
    (\<forall>a now now'. now \<le> now' \<longrightarrow> fst (Cache_Get a now now' c) =
       map_option entry_authID (spec_lookup a now (abstract_cache c))) \<and>
    int (Cache_Len c) \<le> (if m \<le> 0 then defaultMaxSessionEntries else m)"
proof -
  have "session_sequence (abstract_cache (NewSessionCacheWithCapacity ttl m)) = 0"
    by (simp add: abstract_cache_def NewSessionCacheWithCapacity_def)
  with session_run_refines [OF new_cache_refines, of ttl m ops] assms obtain c where
    c: "session_run ops (NewSessionCacheWithCapacity ttl m) = Some c"
    "refines c (fold spec_step ops (abstract_cache (NewSessionCacheWithCapacity ttl m)))" by auto
  then have "abstract_cache c = fold spec_step ops (abstract_cache (NewSessionCacheWithCapacity ttl m))"
    by (simp add: refines_def)
  moreover have "cache_maxEntries c = (if m \<le> 0 then defaultMaxSessionEntries else m)"
    using refinesD(2) [OF c(2)] spec_run_limit
    by (simp add: abstract_cache_def NewSessionCacheWithCapacity_def)
  ultimately show ?thesis using c refines_Len [OF c(2)] Cache_Get_lookup [OF c(2)] by auto
qed

lemmas session_eval = NewSessionCacheWithCapacity_def abstract_cache_def cache_view_def
  spec_lookup_def spec_set_def spec_refresh_def spec_forget_def spec_keep_def without_def moved_to_def
  refreshed_def merged_group_def touched_groups_def live_groups_def replace_groups_def bound_group_def
  mergeSessionAliases_def addSessionAlias_def compactSessionAliases_def
  compactSessionAliasesWith_def maxStableSessionAliases_def isLocalPromptCacheSessionAlias_def
  has_prefix_def newerBinding_def

definition sample_binding :: "string \<Rightarrow> nat \<Rightarrow> sessionBinding" where
  "sample_binding sid n = \<lparr>bind_sessionID = sid, bind_provider = ''codex'', bind_sequence = n\<rparr>"

definition sample_group :: "string \<Rightarrow> time \<Rightarrow> string list \<Rightarrow> sessionBinding \<Rightarrow> sessionEntry" where
  "sample_group authID t as b = \<lparr>entry_authID = authID, entry_expiresAt = t, entry_aliases = as, entry_binding = b\<rparr>"

definition sample_sessions :: "int \<Rightarrow> sessionEntry list \<Rightarrow> nat \<Rightarrow> sessions" where
  "sample_sessions m gs n = \<lparr>live_bindings = gs, session_limit = m, session_ttl = 100, session_sequence = n\<rparr>"

lemmas sample_defs = sample_binding_def sample_group_def sample_sessions_def

lemma sample_session_steps:
  "abstract_cache (NewSessionCacheWithCapacity 100 3) = sample_sessions 3 [] 0"
  "spec_step (OpSetSession ''k1'' ''codex'' ''s1'' [''a'', ''b''] 10) (sample_sessions 3 [] 0) =
     sample_sessions 3 [sample_group ''k1'' 110 [''a'', ''b''] (sample_binding ''s1'' 1)] 1"
  "spec_step (OpSetSession ''k2'' ''codex'' ''s2'' [''c'', ''d''] 20)
      (sample_sessions 3 [sample_group ''k1'' 110 [''a'', ''b''] (sample_binding ''s1'' 1)] 1) =
     sample_sessions 3 [sample_group ''k2'' 120 [''c'', ''d''] (sample_binding ''s2'' 2)] 2"
  "spec_step (OpRefresh ''d'' 50)
      (sample_sessions 3 [sample_group ''k2'' 120 [''c'', ''d''] (sample_binding ''s2'' 2)] 2) =
     sample_sessions 3 [sample_group ''k2'' 150 [''d'', ''c''] (sample_binding ''s2'' 2)] 2"
  by (simp_all add: session_eval sample_defs)

theorem session_cache_refines_groups_witness:
  "\<exists>c. session_run [OpSetSession ''k1'' ''codex'' ''s1'' [''a'', ''b''] 10,
      OpSetSession ''k2'' ''codex'' ''s2'' [''c'', ''d''] 20, OpRefresh ''d'' 50]
      (NewSessionCacheWithCapacity 100 3) = Some c \<and>
    fst (Cache_Get ''a'' 60 60 c) = None \<and> fst (Cache_Get ''c'' 140 140 c) = Some ''k2''"
proof -
  let ?ops = "[OpSetSession ''k1'' ''codex'' ''s1'' [''a'', ''b''] 10,
    OpSetSession ''k2'' ''codex'' ''s2'' [''c'', ''d''] 20, OpRefresh ''d'' 50]"
  have "length ?ops < 2 ^ 64" by simp
  from session_cache_refines_groups [OF this, of 100 3] obtain c where
    c: "session_run ?ops (NewSessionCacheWithCapacity 100 3) = Some c"
    "abstract_cache c = fold spec_step ?ops (abstract_cache (NewSessionCacheWithCapacity 100 3))"
    "\<forall>a now now'. now \<le> now' \<longrightarrow> fst (Cache_Get a now now' c) =
       map_option entry_authID (spec_lookup a now (abstract_cache c))" by blast
  have "abstract_cache c = sample_sessions 3 [sample_group ''k2'' 150 [''d'', ''c''] (sample_binding ''s2'' 2)] 2"
    unfolding c(2) by (simp only: fold_simps sample_session_steps)
  then have "map_option entry_authID (spec_lookup ''a'' 60 (abstract_cache c)) = None"
    "map_option entry_authID (spec_lookup ''c'' 140 (abstract_cache c)) = Some ''k2''"
    by (simp_all add: spec_lookup_def bound_group_def sample_defs)
  then have "fst (Cache_Get ''a'' 60 60 c) = None" "fst (Cache_Get ''c'' 140 140 c) = Some ''k2''"
    using c(3) by (metis order_refl)+
  with c(1) show ?thesis by blast
qed

section \<open>What bindings promise\<close>

text \<open>What no operation but a binding brings about.\<close>

definition op_binds :: "session_op \<Rightarrow> string \<Rightarrow> bool" where
  "op_binds op authID \<longleftrightarrow>
     (case op of OpSetAliases a _ _ \<Rightarrow> a = authID | OpSetSession a _ _ _ _ \<Rightarrow> a = authID | _ \<Rightarrow> False)"

definition op_names :: "session_op \<Rightarrow> string \<Rightarrow> bool" where
  "op_names op a \<longleftrightarrow>
     (case op of OpSetAliases _ ids _ \<Rightarrow> a \<in> set ids | OpSetSession _ _ _ keys _ \<Rightarrow> a \<in> set keys | _ \<Rightarrow> False)"

text \<open>
  Where the groups after a step come from: from a group before it, with the same credential and no
  new alias, or from the binding.
\<close>

lemma drop_oldest_subset: "set (drop_oldest m gs) \<subseteq> set gs"
  by (induction gs) auto

definition stems_from :: "sessionEntry list \<Rightarrow> sessionEntry \<Rightarrow> bool" where
  "stems_from gs g \<longleftrightarrow>
     (\<exists>h \<in> set gs. entry_authID g = entry_authID h \<and> set (entry_aliases g) \<subseteq> set (entry_aliases h))"

lemma stems_from_member: "g \<in> set gs \<Longrightarrow> stems_from gs g"
  by (auto simp: stems_from_def)

lemma stems_without: "g \<in> set (live_bindings (without h s)) \<Longrightarrow> stems_from (live_bindings s) g"
  by (simp add: without_def stems_from_member)

lemma stems_moved:
  assumes "g \<in> set (live_bindings (moved_to h h' s))" "h \<in> set (live_bindings s)"
    and "entry_authID h' = entry_authID h" "set (entry_aliases h') \<subseteq> set (entry_aliases h)"
  shows "stems_from (live_bindings s) g"
  using assms by (auto simp: moved_to_def stems_from_def)

lemma spec_refresh_stems:
  assumes "groups_ok (live_bindings s)" "g \<in> set (live_bindings (spec_refresh a now s))"
  shows "stems_from (live_bindings s) g"
proof (cases "bound_group (live_bindings s) a")
  case (Some h)
  then have h: "h \<in> set (live_bindings s)" "a \<in> set (entry_aliases h)"
    using bound_group_iff [OF assms(1)] by auto
  show ?thesis
  proof (cases "now < entry_expiresAt h")
    case True
    with assms(2) Some stems_moved [of g h "refreshed a (now + session_ttl s) h" s] h
    show ?thesis by (simp add: spec_refresh_def refreshed_def)
  qed (use assms(2) Some in \<open>simp add: spec_refresh_def stems_without\<close>)
qed (use assms(2) in \<open>simp add: spec_refresh_def stems_from_member\<close>)

lemma spec_touch_stems:
  assumes "groups_ok (live_bindings s)" "g \<in> set (live_bindings (spec_touch a authID now s))"
  shows "stems_from (live_bindings s) g"
proof (cases "spec_touch a authID now s = spec_refresh a now s")
  case True
  with assms show ?thesis using spec_refresh_stems by metis
next
  case False
  then have "spec_touch a authID now s = s"
    by (auto simp: spec_touch_def spec_refresh_def spec_lookup_def split: option.splits if_splits)
  with assms(2) show ?thesis by (simp add: stems_from_member)
qed

lemma spec_forget_stems:
  assumes "groups_ok (live_bindings s)" "g \<in> set (live_bindings (spec_forget a P s))"
  shows "stems_from (live_bindings s) g"
proof (cases "bound_group (live_bindings s) a")
  case (Some h)
  then have h: "h \<in> set (live_bindings s)" using bound_group_iff [OF assms(1)] by auto
  with assms(2) Some show ?thesis
    using stems_moved [of g h "h\<lparr>entry_aliases := filter (\<lambda>b. b \<noteq> a) (entry_aliases h)\<rparr>" s] stems_without [of g h s]
    by (auto simp: spec_forget_def Let_def stems_from_member split: if_splits)
qed (use assms(2) in \<open>simp add: spec_forget_def stems_from_member\<close>)

lemma spec_set_origin:
  assumes "g \<in> set (live_bindings (spec_set authID sid prov ids now s))"
  shows "g \<in> set (live_bindings s) \<or> g = merged_group authID sid prov ids now s"
  using assms drop_oldest_subset
  by (fastforce simp: spec_set_def Let_def replace_groups_def split: if_splits)

lemma merged_group_authID [simp]: "entry_authID (merged_group authID sid prov ids now s) = authID"
  by (simp add: merged_group_def Let_def)

lemma spec_set_stems:
  assumes "groups_ok (live_bindings s)" "g \<in> set (live_bindings (spec_set authID sid prov ids now s))"
  shows "stems_from (live_bindings s) g \<or>
    (entry_authID g = authID \<and> (\<forall>a \<in> set (entry_aliases g). a \<in> set ids \<or>
      (\<exists>h \<in> set (live_bindings s). a \<in> set (entry_aliases h))))"
  using spec_set_origin [OF assms(2)]
proof
  assume g: "g = merged_group authID sid prov ids now s"
  have "set (live_groups (live_bindings s) ids now) \<subseteq> set (live_bindings s)"
    using touched_groups_member [OF assms(1)] by (auto simp: live_groups_def)
  with merged_aliases(1) [of authID sid prov ids now s] g show ?thesis by auto
qed (simp add: stems_from_member)

lemma spec_step_origin:
  assumes "groups_ok (live_bindings s)" "g \<in> set (live_bindings (spec_step op s))"
  shows "stems_from (live_bindings s) g \<or>
    (op_binds op (entry_authID g) \<and> (\<forall>a \<in> set (entry_aliases g). op_names op a \<or>
      (\<exists>h \<in> set (live_bindings s). a \<in> set (entry_aliases h))))"
proof (cases op)
  case (OpExpire a now)
  with assms(2) have "g \<in> set (live_bindings s)"
    by (auto simp: spec_expire_def without_def split: option.splits if_splits)
  then show ?thesis by (simp add: stems_from_member)
next
  case (OpSetAliases authID ids now)
  with spec_set_stems [OF assms(1)] assms(2) show ?thesis
    by (simp add: op_binds_def op_names_def) blast
next
  case (OpSetSession authID prov sid ids now)
  with spec_set_stems [OF assms(1)] assms(2) show ?thesis
    by (simp add: op_binds_def op_names_def) blast
next
  case (OpRefresh a now)
  with assms show ?thesis using spec_refresh_stems by auto
next
  case (OpTouch a authID now)
  with assms show ?thesis using spec_touch_stems by auto
qed (use assms in \<open>auto simp: spec_keep_def stems_from_member spec_forget_stems\<close>)

end
