(* ===== verification/Session_Bindings.thy ===== *)
theory Session_Bindings
  imports Session_Runs
begin

text \<open>
  What a binding in the session cache promises, along any run of operations: a credential or an alias
  that was invalidated stays gone until it is bound again, a new binding moves the whole group of its
  identifier and is found for its lifetime, and the newest selection of a session is the one with the
  greatest sequence number, whatever the order of the map.
\<close>

section \<open>Runs from a state that satisfies the invariant\<close>

definition sequence_room :: "SessionCache \<Rightarrow> nat \<Rightarrow> bool" where
  "sequence_room c n \<longleftrightarrow> cache_bindingSequence c + n < 2 ^ 64"

text \<open>A limit that holds one group of the largest size keeps the newest group.\<close>

definition holds_one_group :: "SessionCache \<Rightarrow> bool" where
  "holds_one_group c \<longleftrightarrow> int (Suc maxStableSessionAliases) \<le> cache_maxEntries c"

lemma cache_inv_refines: "cache_inv c \<Longrightarrow> refines c (abstract_cache c)"
  by (simp add: refines_def)

lemma refines_inv: "refines c s \<Longrightarrow> cache_inv c"
  by (simp add: refines_def)

lemma run_from:
  assumes "cache_inv c" "sequence_room c (length ops)"
  obtains c' where "session_run ops c = Some c'" "refines c' (fold spec_step ops (abstract_cache c))"
  using session_run_refines [OF cache_inv_refines [OF assms(1)], of ops] assms(2)
  by (auto simp: sequence_room_def abstract_cache_def)

text \<open>A property that every operation of the run keeps holds at its end.\<close>

lemma spec_run_induct:
  assumes "groups_ok (live_bindings s)" "P s" "session_sequence s + length ops < 2 ^ 64" "refines c s"
    and "\<And>op s. op \<in> set ops \<Longrightarrow> groups_ok (live_bindings s) \<Longrightarrow> P s \<Longrightarrow> P (spec_step op s)"
  shows "P (fold spec_step ops s)"
  using assms
proof (induction ops arbitrary: s c)
  case (Cons op ops)
  have "session_sequence s + 1 < 2 ^ 64" using Cons.prems(3) by simp
  with session_step_refines [OF Cons.prems(4)] obtain c' where c': "refines c' (spec_step op s)" by blast
  have "P (spec_step op s)" using Cons.prems by simp
  with Cons.IH [OF refines_ok [OF c'] this _ c'] Cons.prems spec_step_sequence [of s op] show ?case by simp
qed simp

section \<open>Invalidated credentials and aliases\<close>

definition free_of :: "string \<Rightarrow> sessions \<Rightarrow> bool" where
  "free_of authID s \<longleftrightarrow> (\<forall>g \<in> set (live_bindings s). entry_authID g \<noteq> authID)"

definition unbound :: "string \<Rightarrow> sessions \<Rightarrow> bool" where
  "unbound a s \<longleftrightarrow> (\<forall>g \<in> set (live_bindings s). a \<notin> set (entry_aliases g))"

lemma free_of_step:
  "groups_ok (live_bindings s) \<Longrightarrow> free_of authID s \<Longrightarrow> \<not> op_binds op authID \<Longrightarrow> free_of authID (spec_step op s)"
  unfolding free_of_def using spec_step_origin [of s _ op, unfolded stems_from_def] by metis

lemma unbound_step:
  "groups_ok (live_bindings s) \<Longrightarrow> unbound a s \<Longrightarrow> \<not> op_names op a \<Longrightarrow> unbound a (spec_step op s)"
  unfolding unbound_def using spec_step_origin [of s _ op] by (fastforce simp: stems_from_def)

lemma free_of_lookup: "free_of authID s \<Longrightarrow> map_option entry_authID (spec_lookup a now s) \<noteq> Some authID"
  by (auto simp: free_of_def spec_lookup_def bound_group_def find_Some_iff split: option.splits if_splits)

lemma unbound_lookup: "unbound a s \<Longrightarrow> spec_lookup a now s = None"
  by (simp add: unbound_def spec_lookup_def bound_group_None [THEN iffD2])

lemma spec_forget_unbound:
  assumes "groups_ok (live_bindings s)"
  shows "unbound a (spec_forget a (\<lambda>_. True) s)"
proof (cases "bound_group (live_bindings s) a")
  case None
  then have "unbound a s" using bound_group_None by (auto simp: unbound_def)
  with None show ?thesis by (simp add: spec_forget_def)
next
  case (Some g)
  then have "g \<in> set (live_bindings s)" "a \<in> set (entry_aliases g)"
    using bound_group_iff [OF assms] by auto
  then have "a \<notin> set (entry_aliases h)" if "h \<in> set (live_bindings s)" "h \<noteq> g" for h
    using that groups_ok_common [OF assms] by blast
  with Some show ?thesis
    by (auto simp: unbound_def spec_forget_def without_def moved_to_def Let_def split: if_splits)
qed

lemma bound_group_append:
  "bound_group (gs @ hs) a = (case bound_group gs a of None \<Rightarrow> bound_group hs a | Some g \<Rightarrow> Some g)"
  by (induction gs) (simp_all add: bound_group_def)

text \<open>Dropping one alias leaves what the others find as it is.\<close>

lemma spec_forget_lookup:
  assumes "groups_ok (live_bindings s)" "b \<noteq> a"
  shows "map_option entry_authID (spec_lookup b now (spec_forget a P s)) =
    map_option entry_authID (spec_lookup b now s)"
proof (cases "bound_group (live_bindings s) a")
  case None
  then show ?thesis by (simp add: spec_forget_def)
next
  case (Some g)
  let ?gs = "live_bindings s"
  let ?rest = "filter (\<lambda>c. c \<noteq> a) (entry_aliases g)"
  have g: "g \<in> set ?gs" using Some bound_group_iff [OF assms(1)] by auto
  have kept: "bound_group (filter (\<lambda>h. h \<noteq> g) ?gs) b =
      (case bound_group ?gs b of None \<Rightarrow> None | Some h \<Rightarrow> if h \<noteq> g then Some h else None)"
    by (rule bound_group_filter [OF assms(1)])
  have mem: "bound_group ?gs b = Some g \<longleftrightarrow> b \<in> set ?rest"
    using bound_group_iff [OF assms(1)] g assms(2) by auto
  have last: "bound_group [g\<lparr>entry_aliases := ?rest\<rparr>] b =
      (if b \<in> set ?rest then Some (g\<lparr>entry_aliases := ?rest\<rparr>) else None)"
    by (simp add: bound_group_def)
  show ?thesis
  proof (cases "bound_group ?gs b")
    case None
    with kept mem last Some show ?thesis
      by (auto simp: spec_forget_def spec_lookup_def without_def moved_to_def Let_def bound_group_append)
  next
    case (Some h)
    with kept mem last \<open>bound_group ?gs a = Some g\<close> show ?thesis
      by (cases "h = g") (auto simp: spec_forget_def spec_lookup_def without_def moved_to_def Let_def
          bound_group_append filter_empty_conv)
  qed
qed

text \<open>(C20) After the sessions of a credential were invalidated no operation finds it again, until a
  new selection binds it: neither \<open>Get\<close> nor \<open>GetAndRefresh\<close> returns it for any identifier.\<close>

theorem invalidated_credential_gone:
  assumes "cache_inv c" "sequence_room c (length ops)" "authID \<noteq> ''''"
    and "\<forall>op \<in> set ops. \<not> op_binds op authID"
  shows "\<exists>c'. session_run ops (InvalidateAuth authID c) = Some c' \<and>
    (\<forall>a now now'. now \<le> now' \<longrightarrow> fst (Cache_Get a now now' c') \<noteq> Some authID) \<and>
    (\<forall>a now. map_option fst (GetAndRefresh a now c') \<noteq> Some (Some authID))"
proof -
  let ?s = "spec_step (OpInvalidateAuth authID) (abstract_cache c)"
  have d: "refines (InvalidateAuth authID c) ?s"
    using InvalidateAuth_refines [OF cache_inv_refines [OF assms(1)]] by simp
  have seq: "session_sequence ?s + length ops < 2 ^ 64"
    using assms(2) by (simp add: sequence_room_def abstract_cache_def spec_keep_def)
  have "free_of authID ?s" using assms(3) by (simp add: free_of_def spec_keep_def)
  with spec_run_induct [OF refines_ok [OF d] _ seq d, of "free_of authID"] free_of_step assms(4)
  have free: "free_of authID (fold spec_step ops ?s)" by blast
  obtain c' where c': "session_run ops (InvalidateAuth authID c) = Some c'" "refines c' (fold spec_step ops ?s)"
    using session_run_refines [OF d seq] by blast
  have "map_option fst (GetAndRefresh a now c') \<noteq> Some (Some authID)" for a now
    using GetAndRefresh_refines [OF c'(2), of a now] free_of_lookup [OF free, of a now]
    by (metis fst_conv option.inject option.map(2))
  with c' Cache_Get_lookup [OF c'(2)] free_of_lookup [OF free] show ?thesis by fastforce
qed

text \<open>A cache with one session on a credential \<open>k1\<close>.\<close>

definition sample_cache :: SessionCache where
  "sample_cache = the (session_run [OpSetSession ''k1'' ''codex'' ''s1'' [''a'', ''b''] 10]
     (NewSessionCacheWithCapacity 100 100))"

lemma sample_cache_refines:
  "refines sample_cache (sample_sessions 100 [sample_group ''k1'' 110 [''a'', ''b''] (sample_binding ''s1'' 1)] 1)"
proof -
  have new: "abstract_cache (NewSessionCacheWithCapacity 100 100) = sample_sessions 100 [] 0"
    and set: "spec_step (OpSetSession ''k1'' ''codex'' ''s1'' [''a'', ''b''] 10) (sample_sessions 100 [] 0) =
      sample_sessions 100 [sample_group ''k1'' 110 [''a'', ''b''] (sample_binding ''s1'' 1)] 1"
    by (simp_all add: session_eval sample_defs)
  have "session_sequence (sample_sessions 100 [] 0) + length [OpSetSession ''k1'' ''codex'' ''s1'' [''a'', ''b''] 10] < 2 ^ 64"
    by (simp add: sample_sessions_def)
  from session_run_refines [OF new_cache_refines [of 100 100, unfolded new] this] obtain c' where
    "session_run [OpSetSession ''k1'' ''codex'' ''s1'' [''a'', ''b''] 10] (NewSessionCacheWithCapacity 100 100) = Some c'"
    "refines c' (fold spec_step [OpSetSession ''k1'' ''codex'' ''s1'' [''a'', ''b''] 10] (sample_sessions 100 [] 0))"
    by blast
  then show ?thesis unfolding sample_cache_def fold_simps set option.sel by simp
qed

lemma sample_cache_facts:
  "cache_inv sample_cache" "n < 1000 \<Longrightarrow> sequence_room sample_cache n" "holds_one_group sample_cache"
  "cache_ttl sample_cache = 100" "now < 110 \<Longrightarrow> fst (Cache_Get ''b'' now now sample_cache) = Some ''k1''"
  using refines_inv [OF sample_cache_refines] refinesD(2-4) [OF sample_cache_refines]
    Cache_Get_lookup [OF sample_cache_refines, of now now "''b''"]
  by (simp_all add: sequence_room_def holds_one_group_def sample_defs maxStableSessionAliases_def
      spec_lookup_def bound_group_def)

theorem invalidated_credential_gone_witness:
  "\<exists>c'. session_run [OpRefresh ''a'' 20, OpSetAliases ''k2'' [''a''] 30, OpTouch ''b'' ''k1'' 40]
      (InvalidateAuth ''k1'' sample_cache) = Some c' \<and>
    fst (Cache_Get ''b'' 50 50 c') \<noteq> Some ''k1''"
proof -
  let ?ops = "[OpRefresh ''a'' 20, OpSetAliases ''k2'' [''a''] 30, OpTouch ''b'' ''k1'' 40]"
  have ops: "\<forall>op \<in> set ?ops. \<not> op_binds op ''k1''" by (simp add: op_binds_def)
  have room: "sequence_room sample_cache (length ?ops)" by (rule sample_cache_facts(2)) simp
  have "''k1'' \<noteq> ''''" by simp
  from invalidated_credential_gone [OF sample_cache_facts(1) room this ops] show ?thesis by blast
qed

text \<open>(C21) An alias that was invalidated is not bound again by any operation on the other aliases of
  its session, until a binding names it; these keep their binding.\<close>

theorem invalidated_alias_stays_unbound:
  assumes "cache_inv c" "sequence_room c (length ops)" "\<forall>op \<in> set ops. \<not> op_names op a"
  shows "\<exists>d c'. Invalidate a c = Some d \<and> session_run ops d = Some c' \<and>
    (\<forall>now now'. now \<le> now' \<longrightarrow> fst (Cache_Get a now now' c') = None) \<and>
    (\<forall>b now now'. now \<le> now' \<longrightarrow> b \<noteq> a \<longrightarrow> fst (Cache_Get b now now' d) = fst (Cache_Get b now now' c))"
proof -
  let ?s = "abstract_cache c" and ?t = "spec_step (OpInvalidate a) (abstract_cache c)"
  note s = cache_inv_refines [OF assms(1)]
  obtain d where d: "Invalidate a c = Some d" "refines d ?t" using Invalidate_refines [OF s] by auto
  have "session_sequence ?t = session_sequence ?s"
    by (auto simp: spec_forget_def without_def moved_to_def Let_def split: option.split)
  then have seq: "session_sequence ?t + length ops < 2 ^ 64"
    using assms(2) by (simp add: sequence_room_def abstract_cache_def)
  have "unbound a ?t" using spec_forget_unbound [OF refines_ok [OF s]] by simp
  with spec_run_induct [OF refines_ok [OF d(2)] _ seq d(2), of "unbound a"] unbound_step assms(3)
  have gone: "unbound a (fold spec_step ops ?t)" by blast
  obtain c' where c': "session_run ops d = Some c'" "refines c' (fold spec_step ops ?t)"
    using session_run_refines [OF d(2) seq] by blast
  have "map_option entry_authID (spec_lookup b now ?t) = map_option entry_authID (spec_lookup b now ?s)"
    if "b \<noteq> a" for b now
    using spec_forget_lookup [OF refines_ok [OF s] that] by simp
  then show ?thesis
    using d(1) c' Cache_Get_lookup [OF c'(2)] Cache_Get_lookup [OF d(2)] Cache_Get_lookup [OF s]
      unbound_lookup [OF gone] by simp
qed

theorem invalidated_alias_stays_unbound_witness:
  "\<exists>d c'. Invalidate ''a'' sample_cache = Some d \<and> session_run [OpRefresh ''b'' 20, OpTouch ''b'' ''k1'' 30] d = Some c' \<and>
    fst (Cache_Get ''a'' 40 40 c') = None \<and> fst (Cache_Get ''b'' 40 40 d) = Some ''k1''"
proof -
  let ?ops = "[OpRefresh ''b'' 20, OpTouch ''b'' ''k1'' 30]"
  have ops: "\<forall>op \<in> set ?ops. \<not> op_names op ''a''" by (simp add: op_names_def)
  have room: "sequence_room sample_cache (length ?ops)" by (rule sample_cache_facts(2)) simp
  from invalidated_alias_stays_unbound [OF sample_cache_facts(1) room ops] obtain d c' where
    "Invalidate ''a'' sample_cache = Some d" "session_run ?ops d = Some c'"
    "\<forall>now now'. now \<le> now' \<longrightarrow> fst (Cache_Get ''a'' now now' c') = None"
    "\<forall>b now now'. now \<le> now' \<longrightarrow> b \<noteq> ''a'' \<longrightarrow>
       fst (Cache_Get b now now' d) = fst (Cache_Get b now now' sample_cache)" by blast
  moreover from this(4) have "fst (Cache_Get ''b'' 40 40 d) = Some ''k1''"
    using sample_cache_facts(5) [of 40] by simp
  ultimately show ?thesis by blast
qed

section \<open>New bindings\<close>

lemma merged_first:
  assumes "a \<noteq> ''''"
  shows "a \<in> set (entry_aliases (merged_group authID sid prov (a # ids) now s))"
proof -
  let ?xs = "mergeSessionAliases [] ((a # ids) @ concat (map entry_aliases (live_groups (live_bindings s) (a # ids) now)))"
  obtain zs where "?xs = a # zs" using mergeSessionAliases_hd [OF assms] by auto
  moreover obtain ys where "compactSessionAliases (a # zs) = a # ys" using compact_Cons by blast
  ultimately have "compactSessionAliases ?xs = a # ys" by simp
  then show ?thesis by (simp add: merged_group_def Let_def)
qed

lemma merged_expires [simp]:
  "entry_expiresAt (merged_group authID sid prov ids now s) = now + session_ttl s"
  by (simp add: merged_group_def Let_def)

lemma merged_keeps_group:
  assumes "groups_ok (live_bindings s)" "g \<in> set (live_bindings s)" "a \<in> set (entry_aliases g)"
    and "now < entry_expiresAt g" "compacted (entry_aliases g)"
  shows "set (entry_aliases (merged_group authID sid prov [a] now s)) = set (entry_aliases g)"
proof -
  have "bound_group (live_bindings s) a = Some g" using assms(1-3) by (simp add: bound_group_iff)
  then have live: "live_groups (live_bindings s) [a] now = [g]" using assms(4) by (simp add: live_groups_def)
  note mem = groups_ok_member [OF assms(1,2)]
  have "a \<noteq> ''''" using mem assms(3) by auto
  then have "mergeSessionAliases [] ([a] @ entry_aliases g) = mergeSessionAliases [a] (entry_aliases g)"
    by (simp add: mergeSessionAliases_def addSessionAlias_def)
  also have "\<dots> = a # filter (\<lambda>b. b \<noteq> a) (entry_aliases g)"
    using mergeSessionAliases_front mem assms(3) by blast
  finally have "entry_aliases (merged_group authID sid prov [a] now s) = a # filter (\<lambda>b. b \<noteq> a) (entry_aliases g)"
    using compact_id [OF compacted_front [OF assms(5) _ assms(3)]] mem live
    by (simp add: merged_group_def Let_def)
  with assms(3) show ?thesis by auto
qed



lemma spec_set_newest:
  assumes "authID \<noteq> ''''" "\<not> set ids \<subseteq> {''''}" "int (Suc maxStableSessionAliases) \<le> session_limit s"
  shows "merged_group authID sid prov ids now s \<in> set (live_bindings (spec_set authID sid prov ids now s))"
proof -
  let ?g = "merged_group authID sid prov ids now s"
  have "length (entry_aliases ?g) \<le> Suc maxStableSessionAliases"
    by (rule compacted_length [OF merged_aliases(3)])
  then have "int (length (entry_aliases ?g)) \<le> session_limit s" using assms(3) by simp
  from drop_oldest_newest [OF this] show ?thesis
    using assms(1,2) by (auto simp: spec_set_def replace_groups_def Let_def)
      (metis in_set_conv_decomp)
qed

lemma setAliases_found:
  assumes "refines c s" "sequence_room c 1" "holds_one_group c" "authID \<noteq> ''''" "\<not> set ids \<subseteq> {''''}"
    and "b \<in> set (entry_aliases (merged_group authID sid prov ids now s))"
  shows "\<exists>c'. setAliases authID \<lparr>bind_sessionID = sid, bind_provider = prov, bind_sequence = 0\<rparr> ids now c = Some c' \<and>
    refines c' (spec_set authID sid prov ids now s) \<and>
    (\<forall>t t'. t < now + cache_ttl c \<longrightarrow> t \<le> t' \<longrightarrow> fst (Cache_Get b t t' c') = Some authID)"
proof -
  let ?t = "spec_set authID sid prov ids now s" and ?g = "merged_group authID sid prov ids now s"
  obtain c' where c': "setAliases authID \<lparr>bind_sessionID = sid, bind_provider = prov, bind_sequence = 0\<rparr> ids now c = Some c'"
    "refines c' ?t"
    using setAliases_refines [OF assms(1) assms(2) [unfolded sequence_room_def]] by blast
  have "?g \<in> set (live_bindings ?t)"
    using assms(3) refinesD(2) [OF assms(1)] by (intro spec_set_newest assms(4,5)) (simp add: holds_one_group_def)
  then have "bound_group (live_bindings ?t) b = Some ?g"
    using assms(6) by (simp add: bound_group_iff [OF refines_ok [OF c'(2)]])
  then have "map_option entry_authID (spec_lookup b t ?t) = Some authID" if "t < now + cache_ttl c" for t
    using that refinesD(3) [OF assms(1)] by (simp add: spec_lookup_def)
  with c' Cache_Get_lookup [OF c'(2)] show ?thesis by auto
qed

text \<open>Binding one identifier moves all identifiers of its live group to the new credential, and
  each of them is found for the whole lifetime of the binding.\<close>

lemma binding_moves_group:
  assumes "cache_inv c" "sequence_room c 1" "holds_one_group c" "authID \<noteq> ''''" "a \<noteq> ''''"
  shows "\<exists>c'. Cache_Set a authID now c = Some c' \<and> cache_inv c' \<and>
    (\<forall>b t t'. b = a \<or> (\<exists>g \<in> set (cache_view c). {a, b} \<subseteq> set (entry_aliases g) \<and> now < entry_expiresAt g) \<longrightarrow>
       t < now + cache_ttl c \<longrightarrow> t \<le> t' \<longrightarrow> fst (Cache_Get b t t' c') = Some authID)"
proof -
  let ?s = "abstract_cache c" and ?g = "merged_group authID '''' '''' [a] now (abstract_cache c)"
  note s = cache_inv_refines [OF assms(1)]
  have found: "\<exists>c'. Cache_Set a authID now c = Some c' \<and> refines c' (spec_set authID '''' '''' [a] now ?s) \<and>
      (\<forall>t t'. t < now + cache_ttl c \<longrightarrow> t \<le> t' \<longrightarrow> fst (Cache_Get b t t' c') = Some authID)"
    if "b \<in> set (entry_aliases ?g)" for b
    using setAliases_found [OF s assms(2,3,4) _ that] assms(5)
    by (simp add: Cache_Set_def SetAliases_def zero_binding_def)
  have member: "b \<in> set (entry_aliases ?g)"
    if "b = a \<or> (\<exists>g \<in> set (cache_view c). {a, b} \<subseteq> set (entry_aliases g) \<and> now < entry_expiresAt g)" for b
    using that
  proof
    assume "\<exists>g \<in> set (cache_view c). {a, b} \<subseteq> set (entry_aliases g) \<and> now < entry_expiresAt g"
    then obtain g where g: "g \<in> set (live_bindings ?s)" "a \<in> set (entry_aliases g)" "b \<in> set (entry_aliases g)"
      "now < entry_expiresAt g" by (auto simp: abstract_cache_def)
    have "compacted (entry_aliases g)" using refinesD(1) [OF s] g(1) by (simp add: cache_holds_def)
    with merged_keeps_group [OF refines_ok [OF s] g(1,2,4)] g(3) show ?thesis by simp
  qed (use merged_first [OF assms(5)] in simp)
  obtain c' where "Cache_Set a authID now c = Some c'" "refines c' (spec_set authID '''' '''' [a] now ?s)"
    using found [OF merged_first [OF assms(5)]] by blast
  with found member refines_inv show ?thesis by (metis option.inject)
qed

section \<open>The latest selection of a session\<close>

definition session_selections :: "SessionCache \<Rightarrow> string \<Rightarrow> string list \<Rightarrow> time \<Rightarrow> sessionEntry set" where
  "session_selections c sessionID providers now =
     {g \<in> set (cache_view c). group_seq g \<noteq> 0 \<and> group_session g = sessionID \<and>
        bind_provider (entry_binding g) \<in> set providers \<and> now < entry_expiresAt g}"

definition visited :: "SessionCache \<Rightarrow> string list \<Rightarrow> time \<Rightarrow> string list \<Rightarrow> sessionEntry set" where
  "visited c providers now ks =
     {g \<in> get_or zero_entry (cache_groups c) ` set ks.
        bind_provider (entry_binding g) \<in> set providers \<and> now < entry_expiresAt g \<and> group_seq g \<noteq> 0}"

lemma fold_latest:
  "fold (latestStep c providers now) ks l \<in> insert l (visited c providers now ks) \<and>
   (\<forall>h \<in> insert l (visited c providers now ks). group_seq h \<le> group_seq (fold (latestStep c providers now) ks l))"
proof (induction ks arbitrary: l)
  case Nil
  then show ?case by (simp add: visited_def)
next
  case (Cons k ks)
  let ?l = "latestStep c providers now k l"
  from Cons.IH [of ?l]
  have IH: "fold (latestStep c providers now) ks ?l \<in> insert ?l (visited c providers now ks)"
    "\<forall>h \<in> insert ?l (visited c providers now ks). group_seq h \<le> group_seq (fold (latestStep c providers now) ks ?l)" by auto
  have S: "visited c providers now (k # ks) = visited c providers now ks \<union> visited c providers now [k]"
    by (auto simp: visited_def)
  have "?l = l \<or> ?l \<in> visited c providers now [k]"
    "\<forall>h \<in> insert l (visited c providers now [k]). group_seq h \<le> group_seq ?l"
    by (auto simp: latestStep_def visited_def Let_def)
  moreover have "group_seq ?l \<le> group_seq (fold (latestStep c providers now) ks ?l)" using IH(2) by blast
  ultimately show ?case using IH unfolding S fold_Cons comp_def by (auto intro: le_trans)
qed

text \<open>The latest selection of a session on some providers is the live group with the greatest
  sequence number, which is unique; without one the answer is empty. The order in which the code
  visits the groups does not matter.\<close>

lemma latestSessionAuth_newest:
  assumes "cache_inv c" "sessionID \<noteq> ''''"
  shows "(session_selections c sessionID providers now = {} \<and> latestSessionAuth c sessionID providers now = '''') \<or>
    (\<exists>g \<in> session_selections c sessionID providers now.
       latestSessionAuth c sessionID providers now = entry_authID g \<and>
       (\<forall>h \<in> session_selections c sessionID providers now. h \<noteq> g \<longrightarrow> group_seq h < group_seq g))"
proof -
  let ?gs = "cache_view c" and ?ks = "map fst (get_or [] (cache_sessionGroups c) sessionID)"
  let ?S = "session_selections c sessionID providers now" and ?r = "fold (latestStep c providers now) (map fst (get_or [] (cache_sessionGroups c) sessionID)) zero_entry"
  have holds: "cache_holds c ?gs" using assms(1) by (simp add: cache_inv_def)
  note rep = cache_holds_rep [OF holds]
  have keys: "k \<in> set ?ks \<longleftrightarrow> (\<exists>g \<in> set ?gs. group_key g = k \<and> group_seq g \<noteq> 0 \<and> group_session g = sessionID)" for k
  proof -
    have "k \<in> set ?ks \<longleftrightarrow> map_of (get_or [] (cache_sessionGroups c) sessionID) k = Some ()"
      using map_of_eq_None_iff [of "get_or [] (cache_sessionGroups c) sessionID" k]
      by (cases "map_of (get_or [] (cache_sessionGroups c) sessionID) k") auto
    also have "\<dots> \<longleftrightarrow> (\<exists>g \<in> set ?gs. group_key g = k \<and> group_seq g \<noteq> 0 \<and> group_session g = sessionID)"
      using rep by (simp add: cache_rep_def sessions_rep_def)
    finally show ?thesis .
  qed
  have look: "get_or zero_entry (cache_groups c) (group_key g) = g" if "g \<in> set ?gs" for g
    using that cache_rep_group [OF rep, of "group_key g" g] by (simp add: get_or_def)
  have "get_or zero_entry (cache_groups c) ` set ?ks = {g \<in> set ?gs. group_seq g \<noteq> 0 \<and> group_session g = sessionID}"
  proof (intro equalityI subsetI)
    fix g assume "g \<in> get_or zero_entry (cache_groups c) ` set ?ks"
    then obtain k where "k \<in> set ?ks" "g = get_or zero_entry (cache_groups c) k" by blast
    with keys [of k] look show "g \<in> {g \<in> set ?gs. group_seq g \<noteq> 0 \<and> group_session g = sessionID}" by auto
  next
    fix g assume g: "g \<in> {g \<in> set ?gs. group_seq g \<noteq> 0 \<and> group_session g = sessionID}"
    then have "group_key g \<in> set ?ks" using keys [of "group_key g"] by blast
    with g look [of g] show "g \<in> get_or zero_entry (cache_groups c) ` set ?ks" by (metis (mono_tags) image_eqI mem_Collect_eq)
  qed
  then have S: "visited c providers now ?ks = ?S"
    unfolding visited_def session_selections_def by auto
  have pick: "?r \<in> insert zero_entry ?S" "\<forall>h \<in> ?S. group_seq h \<le> group_seq ?r"
    using fold_latest [of c providers now ?ks zero_entry] S by auto
  have uniq: "h = g" if "h \<in> ?S" "g \<in> ?S" "group_seq h = group_seq g" for h g
    using that holds by (auto simp: session_selections_def cache_holds_def numbered_def)
  show ?thesis
  proof (cases "?S = {}")
    case True
    with pick have "?r = zero_entry" by simp
    then have "latestSessionAuth c sessionID providers now = ''''"
      by (simp add: latestSessionAuth_def zero_entry_def)
    with True show ?thesis by blast
  next
    case False
    then obtain h where "h \<in> ?S" "group_seq h \<noteq> 0" by (auto simp: session_selections_def)
    with pick have r: "?r \<in> ?S" by (auto simp: zero_entry_def zero_binding_def)
    then have "providers \<noteq> []" by (auto simp: session_selections_def)
    then have "latestSessionAuth c sessionID providers now = entry_authID ?r"
      using assms(2) by (simp add: latestSessionAuth_def)
    moreover have "\<forall>h \<in> ?S. h \<noteq> ?r \<longrightarrow> group_seq h < group_seq ?r"
      using pick(2) uniq r by (metis le_neq_implies_less)
    ultimately show ?thesis using r by blast
  qed
qed

end
