(* ===== verification/Session_Affinity.thy ===== *)
theory Session_Affinity
  imports Session_Bindings Selectors Failure
begin

text \<open>
  The selector that keeps a session on its credential (\<open>SessionAffinitySelector\<close> of
  \<open>sdk/cliproxy/auth/selector.go\<close>) for requests with an explicit session identity, which the prefix
  matcher is not asked about. The identifiers that the headers and the body of the request carry are
  fields of the request. The selector behind it is any selector: a function on its own state that
  returns an error, a credential, or neither. A call reads the clock as one instant.
\<close>

section \<open>Sessions and their parents\<close>

text \<open>\<open>strings.Index\<close> of one character, -1 when it does not occur.\<close>

definition index_of :: "char \<Rightarrow> string \<Rightarrow> int" where
  "index_of ch s = (if ch \<in> set s then int (length (takeWhile (\<lambda>x. x \<noteq> ch) s)) else -1)"

definition isHierarchyParent :: "string \<Rightarrow> string \<Rightarrow> bool" where
  "isHierarchyParent primary fallback =
     (if fallback = '''' \<or> primary = '''' \<or> primary = fallback then False
      else if contains primary '':agent:'' then True
      else let idx1 = index_of (CHR '':'') primary; idx2 = index_of (CHR '':'') fallback
           in if idx1 > 0 \<and> idx2 > 0 \<and> take (nat idx1) primary = take (nat idx2) fallback then True
              else idx1 = -1 \<and> idx2 = -1)"

definition isSubagentSession :: "string \<Rightarrow> string \<Rightarrow> bool" where
  "isSubagentSession primaryID fallbackID =
     (if contains primaryID '':agent:'' then True
      else if fallbackID = '''' \<or> primaryID = '''' \<or> primaryID = fallbackID then False
      else isHierarchyParent primaryID fallbackID)"

definition isGuardianRequest :: "(string \<times> string list) list \<Rightarrow> bool" where
  "isGuardianRequest headers =
     (case find (\<lambda>(key, values). equal_fold key ''X-Openai-Subagent'' \<and> length values > 0) headers of
        None \<Rightarrow> False
      | Some (key, values) \<Rightarrow> equal_fold (trim_space (hd values)) ''guardian'')"

section \<open>When a session leaves its credential\<close>

definition normalizeSessionAffinityRebindOn :: "string \<Rightarrow> string" where
  "normalizeSessionAffinityRebindOn value =
     (if to_lower (trim_space value) = ''quota'' then ''quota'' else ''any'')"

definition shouldRebindSessionAffinityOnError :: "(string \<Rightarrow> string \<Rightarrow> string) \<Rightarrow> AuthError option \<Rightarrow> bool" where
  "shouldRebindSessionAffinityOnError get err =
     (if err = None \<or> shouldSkipCredentialCooldown get err then False
      else if isModelSupportResultError err \<or> isCloudflareChallengeResultError err \<or>
              isInvalidGrantResultError err then True
      else statusCodeFromResult err \<in> {401, 402, 403, 404, 429})"

definition isStateBlockedByQuotaOrAuth ::
    "(string \<Rightarrow> string \<Rightarrow> string) \<Rightarrow> bool \<Rightarrow> QuotaState \<Rightarrow> time \<Rightarrow> AuthError option \<Rightarrow> time \<Rightarrow> bool" where
  "isStateBlockedByQuotaOrAuth get unavailable quota nextRetryAfter lastErr now =
     (if quota_Exceeded quota \<and> (quota_NextRecoverAt quota = 0 \<or> quota_NextRecoverAt quota > now) then True
      else let (blocked, _, _) = availabilityBlock unavailable (quota_Exceeded quota) nextRetryAfter
                                   (quota_NextRecoverAt quota) now
           in if \<not> blocked then lastErr \<noteq> None \<and> shouldRebindSessionAffinityOnError get lastErr
              else if lastErr \<noteq> None then shouldRebindSessionAffinityOnError get lastErr
              else nextRetryAfter = 0 \<and> quota_NextRecoverAt quota = 0)"

definition isAuthBlockedByQuotaOrAuthForModel ::
    "(string \<Rightarrow> string \<Rightarrow> string) \<Rightarrow> Auth \<Rightarrow> string \<Rightarrow> time \<Rightarrow> bool" where
  "isAuthBlockedByQuotaOrAuthForModel get a model now =
     (if auth_Disabled a \<or> auth_Status a = StatusDisabled then True
      else if hasUnauthorizedAuthFailure a then True
      else if tokenExpired a now then True
      else if quota_Exceeded (auth_Quota a) \<and> quota_Reason (auth_Quota a) = ''credential_quota'' \<and>
              (quota_NextRecoverAt (auth_Quota a) = 0 \<or> quota_NextRecoverAt (auth_Quota a) > now) then True
      else if model \<noteq> '''' \<and> auth_ModelStates a \<noteq> []
      then list_ex (\<lambda>(stateModel, s).
             (case s of
                None \<Rightarrow> False
              | Some state \<Rightarrow>
                  canonicalModelKey stateModel = canonicalModelKey model \<and>
                  (ms_Status state = StatusDisabled \<or>
                   isStateBlockedByQuotaOrAuth get (ms_Unavailable state) (ms_Quota state)
                     (ms_NextRetryAfter state) (ms_LastError state) now)))
             (auth_ModelStates a)
      else let quota =
                 (if auth_ModelStates a \<noteq> [] \<and> quota_Reason (auth_Quota a) \<noteq> ''credential_quota'' \<and>
                     \<not> auth_Unavailable a
                  then (auth_Quota a)\<lparr>quota_Exceeded := False\<rparr> else auth_Quota a)
           in isStateBlockedByQuotaOrAuth get (auth_Unavailable a) quota (auth_NextRetryAfter a)
                (auth_LastError a) now)"

record AffinityConfig =
  aff_weighted :: bool
  aff_subagentAffinity :: bool
  aff_rebindOnQuotaOnly :: bool

text \<open>The transient identifiers are those the manager put into the context of a request it validated.\<close>

definition shouldPreserveBindingWhenUnavailable ::
    "(string \<Rightarrow> string \<Rightarrow> string) \<Rightarrow> AffinityConfig \<Rightarrow> SelectorContext \<Rightarrow> string list \<Rightarrow> Auth list \<Rightarrow>
     string \<Rightarrow> string \<Rightarrow> time \<Rightarrow> bool" where
  "shouldPreserveBindingWhenUnavailable get conf ctx transientIDs candidates model authID now =
     (if \<not> aff_rebindOnQuotaOnly conf \<or> authID = '''' then False
      else if ctx_prevalidated ctx then authID \<in> set transientIDs
      else case find (\<lambda>candidate. auth_ID candidate = authID) candidates of
             None \<Rightarrow> False
           | Some candidate \<Rightarrow> \<not> isAuthBlockedByQuotaOrAuthForModel get candidate model now)"

section \<open>Picking\<close>

record AffinityRequest =
  req_primaryID :: string
  req_fallbackID :: string
  req_isFork :: bool
  req_headers :: "(string \<times> string list) list"
  req_provider :: string
  req_model :: string

definition sessionKey :: "string \<Rightarrow> string \<Rightarrow> string \<Rightarrow> string" where
  "sessionKey provider sessionID modelKey = provider @ ''::'' @ sessionID @ ''::'' @ modelKey"

definition cacheKey :: "AffinityRequest \<Rightarrow> string" where
  "cacheKey req = sessionKey (req_provider req) (req_primaryID req) (canonicalModelKey (req_model req))"

definition fallbackKey :: "AffinityRequest \<Rightarrow> string" where
  "fallbackKey req =
     (if req_fallbackID req \<noteq> '''' \<and> req_fallbackID req \<noteq> req_primaryID req
      then sessionKey (req_provider req) (req_fallbackID req) (canonicalModelKey (req_model req))
      else '''')"

definition isSubagent :: "AffinityRequest \<Rightarrow> bool" where
  "isSubagent req \<longleftrightarrow> \<not> req_isFork req \<and> isSubagentSession (req_primaryID req) (req_fallbackID req)"

definition bindKeys :: "AffinityRequest \<Rightarrow> string list" where
  "bindKeys req =
     (if fallbackKey req \<noteq> '''' \<and> \<not> isSubagent req \<and> \<not> req_isFork req
      then [cacheKey req, fallbackKey req] else [cacheKey req])"

definition bindingProvider :: "AffinityRequest \<Rightarrow> Auth list \<Rightarrow> string \<Rightarrow> string" where
  "bindingProvider req auths authID =
     (case find (\<lambda>candidate. auth_ID candidate = authID) auths of
        None \<Rightarrow> canonicalSchedulingProvider (req_provider req)
      | Some candidate \<Rightarrow>
          (let candidateProvider = canonicalSchedulingProvider (executorKeyFromAuth candidate)
           in if candidateProvider \<noteq> '''' then candidateProvider
              else canonicalSchedulingProvider (req_provider req)))"

text \<open>The closure \<open>bind\<close> of \<open>Pick\<close>.\<close>

definition affinityBind ::
    "AffinityRequest \<Rightarrow> Auth list \<Rightarrow> time \<Rightarrow> string \<Rightarrow> bool \<Rightarrow> SessionCache \<Rightarrow> SessionCache option" where
  "affinityBind req auths now authID recordSelection c =
     (if \<not> recordSelection then SetAliases authID (bindKeys req) now c
      else setSessionAliases authID (bindingProvider req auths authID) (req_primaryID req) (bindKeys req) now c)"

type_synonym 'f fallback_pick =
  "'f \<Rightarrow> SelectorContext \<Rightarrow> string \<Rightarrow> string \<Rightarrow> Auth list \<Rightarrow> time \<Rightarrow> (GoError + Auth option) \<times> 'f"

type_synonym 'f affinity_result = "((GoError + Auth option) \<times> 'f \<times> SessionCache) option"

text \<open>The selector behind is asked, and the binding that follows depends on its choice.\<close>

definition pickThenBind ::
    "('f \<Rightarrow> (GoError + Auth option) \<times> 'f) \<Rightarrow> (Auth \<Rightarrow> SessionCache \<Rightarrow> SessionCache option) \<Rightarrow>
     'f \<Rightarrow> SessionCache \<Rightarrow> 'f affinity_result" where
  "pickThenBind pick bind f c =
     (case pick f of
        (Inl err, f') \<Rightarrow> Some (Inl err, f', c)
      | (Inr None, f') \<Rightarrow> Some (Inr None, f', c)
      | (Inr (Some auth), f') \<Rightarrow> map_option (\<lambda>c'. (Inr (Some auth), f', c')) (bind auth c))"

definition returnBound :: "Auth \<Rightarrow> 'f \<Rightarrow> SessionCache option \<Rightarrow> 'f affinity_result" where
  "returnBound auth f bound = map_option (\<lambda>c'. (Inr (Some auth), f, c')) bound"

definition usableBound :: "Auth list \<Rightarrow> string \<Rightarrow> time \<Rightarrow> string \<Rightarrow> Auth option" where
  "usableBound available model now authID =
     find (\<lambda>auth. auth_ID auth = authID \<and> \<not> quotaCapacityExhausted auth model now) available"

text \<open>The real providers a guardian may inherit from.\<close>

definition guardianProviders :: "AffinityRequest \<Rightarrow> Auth list \<Rightarrow> string list" where
  "guardianProviders req available =
     (let schedulingProvider = canonicalSchedulingProvider (req_provider req);
          candidateProvider = (\<lambda>candidate.
             let p = canonicalSchedulingProvider (executorKeyFromAuth candidate)
             in if p = '''' then schedulingProvider else p)
      in filter (\<lambda>p. schedulingProvider = ''mixed'' \<or> p = schedulingProvider) (map candidateProvider available))"

definition guardianAuth ::
    "AffinityConfig \<Rightarrow> AffinityRequest \<Rightarrow> Auth list \<Rightarrow> time \<Rightarrow> SessionCache \<Rightarrow> Auth option" where
  "guardianAuth conf req available now c =
     (if isSubagent req \<and> aff_subagentAffinity conf \<and> isGuardianRequest (req_headers req)
      then let parentAuthID = latestSessionAuth c (req_fallbackID req) (guardianProviders req available) now
           in if parentAuthID \<noteq> '''' then find (\<lambda>auth. auth_ID auth = parentAuthID) available else None
      else None)"

text \<open>The part of \<open>Pick\<close> after the availability pass, for a session without a binding of its own.\<close>

definition pickUnbound ::
    "(string \<Rightarrow> bool) \<Rightarrow> AffinityConfig \<Rightarrow> ('f \<Rightarrow> (GoError + Auth option) \<times> 'f) \<Rightarrow> AffinityRequest \<Rightarrow>
     Auth list \<Rightarrow> Auth list \<Rightarrow> time \<Rightarrow> 'f \<Rightarrow> SessionCache \<Rightarrow> 'f affinity_result" where
  "pickUnbound preserve conf pick req auths available now f c =
     (let bind = affinityBind req auths now;
          fresh = pickThenBind pick (\<lambda>auth. bind (auth_ID auth) True)
      in case guardianAuth conf req available now c of
           Some auth \<Rightarrow> returnBound auth f (bind (auth_ID auth) True c)
         | None \<Rightarrow>
             (if fallbackKey req = '''' then fresh f c
              else case Cache_Get (fallbackKey req) now now c of
                     (None, c) \<Rightarrow> fresh f c
                   | (Some cachedAuthID, c) \<Rightarrow>
                       (case (if \<not> isSubagent req \<or> aff_subagentAffinity conf
                              then usableBound available (req_model req) now cachedAuthID else None) of
                          Some auth \<Rightarrow> returnBound auth f (bind (auth_ID auth) True c)
                        | None \<Rightarrow>
                            (if \<not> isSubagent req \<and> \<not> req_isFork req \<and> preserve cachedAuthID
                             then pickThenBind pick (\<lambda>auth. bind cachedAuthID False) f c
                             else fresh f c))))"

text \<open>The part after the availability pass.\<close>

definition pickSession ::
    "(string \<Rightarrow> bool) \<Rightarrow> AffinityConfig \<Rightarrow> ('f \<Rightarrow> (GoError + Auth option) \<times> 'f) \<Rightarrow> AffinityRequest \<Rightarrow>
     Auth list \<Rightarrow> Auth list \<Rightarrow> time \<Rightarrow> 'f \<Rightarrow> SessionCache \<Rightarrow> 'f affinity_result" where
  "pickSession preserve conf pick req auths available now f c =
     (let bind = affinityBind req auths now
      in case GetAndRefresh (cacheKey req) now c of
           None \<Rightarrow> None
         | Some (None, c) \<Rightarrow> pickUnbound preserve conf pick req auths available now f c
         | Some (Some cachedAuthID, c) \<Rightarrow>
             (case usableBound available (req_model req) now cachedAuthID of
                Some auth \<Rightarrow> returnBound auth f (bind (auth_ID auth) True c)
              | None \<Rightarrow>
                  pickThenBind pick
                    (\<lambda>auth. if preserve cachedAuthID then bind cachedAuthID False
                            else bind (auth_ID auth) True) f c))"

definition Affinity_Pick ::
    "(string \<Rightarrow> string \<Rightarrow> string) \<Rightarrow> 'f fallback_pick \<Rightarrow> AffinityConfig \<Rightarrow> SelectorContext \<Rightarrow> string list \<Rightarrow>
     AffinityRequest \<Rightarrow> Auth list \<Rightarrow> time \<Rightarrow> 'f \<Rightarrow> SessionCache \<Rightarrow> 'f affinity_result" where
  "Affinity_Pick get pick conf ctx transientIDs req auths now f c =
     (let provider = req_provider req; model = req_model req;
          candidates = (if aff_weighted conf then positiveWeightAuths auths else auths)
      in if req_primaryID req = ''''
         then (case getSelectorAvailableAuths ctx candidates provider model now of
                 Inl err \<Rightarrow> Some (Inl err, f, c)
               | Inr fallbackAuths \<Rightarrow>
                   (let (result, f') = pick f ctx provider model fallbackAuths now in Some (result, f', c)))
         else case getSelectorAvailableAuthsWithPriorityMode ctx candidates provider model now True of
                Inl err \<Rightarrow> Some (Inl err, f, c)
              | Inr available \<Rightarrow>
                  pickSession
                    (\<lambda>authID. shouldPreserveBindingWhenUnavailable get conf ctx transientIDs candidates model authID now)
                    conf (\<lambda>f. pick f ctx provider model (highestPriorityAuths available) now)
                    req auths available now f c)"

section \<open>Results\<close>

record AffinityOutcome =
  out_authID :: string
  out_success :: bool
  out_error :: "AuthError option"

text \<open>
  \<open>OnResult\<close> for a request with an explicit identity; the provider and the model of the request are
  those the metadata of the selection carries.
\<close>

definition Affinity_OnResult ::
    "(string \<Rightarrow> string \<Rightarrow> string) \<Rightarrow> AffinityConfig \<Rightarrow> AffinityRequest \<Rightarrow> AffinityOutcome \<Rightarrow> time \<Rightarrow>
     SessionCache \<Rightarrow> SessionCache option" where
  "Affinity_OnResult get conf req out now c =
     (if out_authID out = '''' then Some c
      else if out_error out \<noteq> None \<and> shouldSkipCredentialCooldown get (out_error out) then Some c
      else if \<not> out_success out \<and> aff_rebindOnQuotaOnly conf \<and>
              \<not> shouldRebindSessionAffinityOnError get (out_error out) then Some c
      else if req_primaryID req = '''' \<and> req_fallbackID req = '''' then Some c
      else let parentKey = (if isSubagentSession (req_primaryID req) (req_fallbackID req) then ''''
                            else fallbackKey req);
               step = (if out_success out then (\<lambda>key c. map_option snd (Touch key (out_authID out) now c))
                       else (\<lambda>key c. map_option snd (CompareAndDelete key (out_authID out) c)))
           in case step (cacheKey req) c of
                None \<Rightarrow> None
              | Some c \<Rightarrow> if parentKey \<noteq> '''' then step parentKey c else Some c)"

section \<open>Bindings made by a pick\<close>

definition keeps_settings :: "sessions \<Rightarrow> sessions \<Rightarrow> bool" where
  "keeps_settings s s' \<longleftrightarrow>
     session_limit s' = session_limit s \<and> session_ttl s' = session_ttl s \<and>
     session_sequence s' = session_sequence s"

lemma keeps_settings_spec [simp]:
  "keeps_settings s s" "keeps_settings s (spec_refresh a now s)" "keeps_settings s (spec_expire a now s)"
  by (auto simp: keeps_settings_def spec_refresh_def spec_expire_def without_def moved_to_def split: option.split)

lemma Cache_Get_refines:
  assumes "refines c s"
  shows "\<exists>s'. refines (snd (Cache_Get a now now' c)) s' \<and> keeps_settings s s'"
proof (cases "Get_read c a now")
  case None
  with Get_expire_refines(1) [OF assms, of a now'] show ?thesis
    by (auto simp: Cache_Get_def intro!: exI [of _ "spec_expire a now' s"])
next
  case (Some r)
  with assms show ?thesis by (auto simp: Cache_Get_def intro!: exI [of _ s])
qed

lemma cacheKey_nonempty [simp]: "cacheKey req \<noteq> ''''"
  by (simp add: cacheKey_def sessionKey_def)

lemma bindKeys_first: "\<exists>keys. bindKeys req = cacheKey req # keys"
  by (simp add: bindKeys_def)

text \<open>What a binding needs: room for a sequence number and for one group.\<close>

definition can_bind :: "sessions \<Rightarrow> bool" where
  "can_bind s \<longleftrightarrow> session_sequence s + 1 < 2 ^ 64 \<and> int (Suc maxStableSessionAliases) \<le> session_limit s"

lemma can_bind_keeps: "keeps_settings s s' \<Longrightarrow> can_bind s' = can_bind s"
  by (simp add: keeps_settings_def can_bind_def)

text \<open>The session is bound to the credential until the lifetime has passed.\<close>

definition session_bound :: "SessionCache \<Rightarrow> AffinityRequest \<Rightarrow> time \<Rightarrow> string \<Rightarrow> bool" where
  "session_bound c req until authID \<longleftrightarrow>
     (\<forall>t t'. t < until \<longrightarrow> t \<le> t' \<longrightarrow> fst (Cache_Get (cacheKey req) t t' c) = Some authID)"

lemma affinityBind_bound:
  assumes "refines c s" "can_bind s" "authID \<noteq> ''''" "affinityBind req auths now authID rec c = Some c'"
  shows "cache_inv c' \<and> cache_ttl c' = cache_ttl c \<and> cache_maxEntries c' = cache_maxEntries c \<and>
    cache_bindingSequence c' \<le> cache_bindingSequence c + 1 \<and> session_bound c' req (now + cache_ttl c) authID"
proof -
  obtain keys where keys: "bindKeys req = cacheKey req # keys" using bindKeys_first by blast
  have room: "sequence_room c 1" "holds_one_group c"
    using assms(2) refinesD [OF assms(1)] by (simp_all add: sequence_room_def holds_one_group_def can_bind_def)
  have ids: "\<not> set (bindKeys req) \<subseteq> {''''}" by (simp add: keys)
  define sid where "sid = (if rec then req_primaryID req else '''')"
  define prov where "prov = (if rec then bindingProvider req auths authID else '''')"
  have "cacheKey req \<in> set (entry_aliases (merged_group authID sid prov (bindKeys req) now s))"
    unfolding keys by (rule merged_first) simp
  from setAliases_found [OF assms(1) room assms(3) ids this] obtain d where
    d: "setAliases authID \<lparr>bind_sessionID = sid, bind_provider = prov, bind_sequence = 0\<rparr> (bindKeys req) now c = Some d"
    "refines d (spec_set authID sid prov (bindKeys req) now s)"
    "\<forall>t t'. t < now + cache_ttl c \<longrightarrow> t \<le> t' \<longrightarrow> fst (Cache_Get (cacheKey req) t t' d) = Some authID" by blast
  have "d = c'"
    using d(1) assms(4)
    by (simp add: affinityBind_def setSessionAliases_def SetAliases_def zero_binding_def sid_def prov_def split: if_splits)
  moreover have "cache_ttl d = cache_ttl c \<and> cache_maxEntries d = cache_maxEntries c \<and>
      cache_bindingSequence d \<le> cache_bindingSequence c + 1"
    using refinesD(2-4) [OF d(2)] refinesD(2-4) [OF assms(1)] by (simp add: spec_set_def Let_def split: if_splits)
  ultimately show ?thesis using d(2,3) refines_inv by (simp add: session_bound_def)
qed

lemma pickThenBind_Some:
  "pickThenBind pick bind f c = Some (Inr (Some a), f', c') \<Longrightarrow>
   pick f = (Inr (Some a), f') \<and> bind a c = Some c'"
  by (auto simp: pickThenBind_def split: prod.splits sum.splits option.splits)

text \<open>
  Every pick of a credential ends with a binding of the session: to the credential, or, where the
  binding is to be preserved, to the one it had.
\<close>

lemma pickUnbound_binds:
  assumes "refines c s" "pickUnbound preserve conf pick req auths available now f c = Some (Inr (Some a), f', c')"
  shows "\<exists>d t authID rec. refines d t \<and> keeps_settings s t \<and>
    affinityBind req auths now authID rec d = Some c' \<and> (authID = auth_ID a \<or> preserve authID)"
proof -
  let ?get = "Cache_Get (fallbackKey req) now now c"
  obtain t where t: "refines (snd ?get) t" "keeps_settings s t"
    using Cache_Get_refines [OF assms(1)] by blast
  have "\<exists>authID rec. affinityBind req auths now authID rec c = Some c' \<and> (authID = auth_ID a \<or> preserve authID) \<or>
      affinityBind req auths now authID rec (snd ?get) = Some c' \<and> (authID = auth_ID a \<or> preserve authID)"
    using assms(2)
    by (auto simp: pickUnbound_def Let_def returnBound_def dest!: pickThenBind_Some
        split: option.splits prod.splits if_splits)
  then show ?thesis using t assms(1) keeps_settings_spec(1) by metis
qed

lemma pickSession_binds:
  assumes "refines c s" "pickSession preserve conf pick req auths available now f c = Some (Inr (Some a), f', c')"
  shows "\<exists>d t authID rec. refines d t \<and> keeps_settings s t \<and>
    affinityBind req auths now authID rec d = Some c' \<and> (authID = auth_ID a \<or> preserve authID)"
proof -
  obtain d where d: "GetAndRefresh (cacheKey req) now c =
      Some (map_option entry_authID (spec_lookup (cacheKey req) now s), d)" "refines d (spec_refresh (cacheKey req) now s)"
    using GetAndRefresh_refines [OF assms(1)] by blast
  show ?thesis
  proof (cases "spec_lookup (cacheKey req) now s")
    case None
    with d(1) assms(2) have "pickUnbound preserve conf pick req auths available now f d = Some (Inr (Some a), f', c')"
      by (simp add: pickSession_def Let_def)
    from pickUnbound_binds [OF d(2) this] show ?thesis
      using keeps_settings_spec(2) by (force simp: keeps_settings_def)
  next
    case (Some g)
    with d(1) assms(2) have "\<exists>authID rec. affinityBind req auths now authID rec d = Some c' \<and>
        (authID = auth_ID a \<or> preserve authID)"
      by (auto simp: pickSession_def Let_def returnBound_def dest!: pickThenBind_Some
          split: option.splits if_splits) blast+
    with d(2) keeps_settings_spec(2) show ?thesis by blast
  qed
qed

lemma pickSession_sticks:
  assumes "refines c s" "fst (Cache_Get (cacheKey req) now now c) = Some authID"
    and "usableBound available (req_model req) now authID = Some b"
  shows "\<exists>d. refines d (spec_refresh (cacheKey req) now s) \<and>
    (\<forall>preserve conf (pick :: 'f \<Rightarrow> _) auths f. pickSession preserve conf pick req auths available now f c =
      map_option (\<lambda>c'. (Inr (Some b), f, c')) (affinityBind req auths now (auth_ID b) True d))"
proof -
  have "map_option entry_authID (spec_lookup (cacheKey req) now s) = Some authID"
    using assms(2) Cache_Get_lookup [OF assms(1), of now now] by simp
  with GetAndRefresh_refines [OF assms(1), of "cacheKey req" now] obtain d where
    "GetAndRefresh (cacheKey req) now c = Some (Some authID, d)" "refines d (spec_refresh (cacheKey req) now s)"
    by auto
  with assms(3) show ?thesis by (auto simp: pickSession_def Let_def returnBound_def)
qed

lemma usableBound_ID: "usableBound available model now authID = Some b \<Longrightarrow> auth_ID b = authID \<and> b \<in> set available"
  by (auto simp: usableBound_def find_Some_iff)

lemma affinityBind_returns:
  assumes "refines c s" "can_bind s"
  shows "\<exists>c'. affinityBind req auths now authID rec c = Some c'"
proof -
  have room: "cache_bindingSequence c + 1 < 2 ^ 64"
    using assms(2) refinesD(4) [OF assms(1)] by (simp add: can_bind_def)
  show ?thesis
    using setAliases_refines [OF assms(1) room]
    by (auto simp: affinityBind_def setSessionAliases_def SetAliases_def zero_binding_def) blast+
qed

section \<open>Sessions stay where they are\<close>

lemma find_only:
  "x \<in> set xs \<Longrightarrow> P x \<Longrightarrow> (\<And>y. y \<in> set xs \<Longrightarrow> P y \<Longrightarrow> y = x) \<Longrightarrow> find P xs = Some x"
proof (induction xs)
  case (Cons y ys)
  show ?case
  proof (cases "P y")
    case True
    with Cons.prems(3) [of y] show ?thesis by simp
  next
    case False
    with Cons show ?thesis by (metis find.simps(2) list.set_intros(2) set_ConsD)
  qed
qed simp

lemma can_bind_room: "cache_inv c \<Longrightarrow> sequence_room c n \<Longrightarrow> 1 \<le> n \<Longrightarrow> holds_one_group c \<Longrightarrow> can_bind (abstract_cache c)"
  by (simp add: can_bind_def abstract_cache_def sequence_room_def holds_one_group_def)

abbreviation affinity_candidates :: "AffinityConfig \<Rightarrow> Auth list \<Rightarrow> Auth list" where
  "affinity_candidates conf auths \<equiv> (if aff_weighted conf then positiveWeightAuths auths else auths)"

definition affinity_available ::
    "AffinityConfig \<Rightarrow> SelectorContext \<Rightarrow> AffinityRequest \<Rightarrow> Auth list \<Rightarrow> time \<Rightarrow> GoError + Auth list" where
  "affinity_available conf ctx req auths now =
     getSelectorAvailableAuthsWithPriorityMode ctx (affinity_candidates conf auths) (req_provider req) (req_model req) now True"

lemma Affinity_Pick_session:
  assumes "req_primaryID req \<noteq> ''''" "affinity_available conf ctx req auths now = Inr available"
  shows "Affinity_Pick get pick conf ctx ids req auths now f c =
    pickSession (\<lambda>authID. shouldPreserveBindingWhenUnavailable get conf ctx ids (affinity_candidates conf auths) (req_model req) authID now)
      conf (\<lambda>f. pick f ctx (req_provider req) (req_model req) (highestPriorityAuths available) now)
      req auths available now f c"
  using assms by (simp add: Affinity_Pick_def affinity_available_def Let_def)

lemma Affinity_Pick_available:
  assumes "req_primaryID req \<noteq> ''''" "Affinity_Pick get pick conf ctx ids req auths now f c = Some (Inr (Some a), f', c')"
  obtains available where "affinity_available conf ctx req auths now = Inr available"
proof (cases "affinity_available conf ctx req auths now")
  case (Inl err)
  then have "Affinity_Pick get pick conf ctx ids req auths now f c = Some (Inl err, f, c)"
    using assms(1) by (simp add: Affinity_Pick_def affinity_available_def Let_def)
  with assms(2) show ?thesis by simp
qed (rule that)


definition sample_affinity :: "bool \<Rightarrow> AffinityConfig" where
  "sample_affinity quotaOnly =
     \<lparr>aff_weighted = False, aff_subagentAffinity = True, aff_rebindOnQuotaOnly = quotaOnly\<rparr>"

definition sample_request :: AffinityRequest where
  "sample_request = \<lparr>req_primaryID = ''codex:s1'', req_fallbackID = '''', req_isFork = False, req_headers = [],
     req_provider = ''codex'', req_model = ''m''\<rparr>"

definition validated_ctx :: SelectorContext where
  "validated_ctx = \<lparr>ctx_prevalidated = True, ctx_downstreamWebsocket = False, ctx_stateModel = ''''\<rparr>"

lemma sample_not_exhausted [simp]: "\<not> quotaCapacityExhausted (sample_auth i) model now"
  by (simp add: quotaCapacityExhausted_def quotaCapacityRank_def sample_auth_def zero_rank_def)

lemma sample_available:
  "auths \<noteq> [] \<Longrightarrow> affinity_available (sample_affinity q) validated_ctx req auths now = Inr auths"
  by (simp add: affinity_available_def getSelectorAvailableAuthsWithPriorityMode_def sample_affinity_def validated_ctx_def)

text \<open>A new session on a new cache goes to the choice of the selector behind.\<close>

lemma sample_first_pick:
  assumes "pick f ctx ''codex'' ''m'' [sample_auth ''k1''] 10 = (Inr (Some (sample_auth ''k1'')), f)"
    and av: "affinity_available (sample_affinity q) ctx sample_request [sample_auth ''k1''] 10 = Inr [sample_auth ''k1'']"
  obtains c' where "Affinity_Pick get pick (sample_affinity q) ctx [] sample_request [sample_auth ''k1''] 10 f
      (NewSessionCacheWithCapacity 100 100) = Some (Inr (Some (sample_auth ''k1'')), f, c')"
    "cache_inv c'" "sequence_room c' 1" "holds_one_group c'" "session_bound c' sample_request 110 ''k1''"
    "cache_ttl c' = 100"
proof -
  let ?c = "NewSessionCacheWithCapacity 100 100"
  have id: "req_primaryID sample_request \<noteq> ''''" by (simp add: sample_request_def)
  have bind: "can_bind (abstract_cache ?c)"
    by (simp add: can_bind_def abstract_cache_def NewSessionCacheWithCapacity_def maxStableSessionAliases_def)
  from affinityBind_returns [OF new_cache_refines this] obtain c' where
    c': "affinityBind sample_request [sample_auth ''k1''] 10 (auth_ID (sample_auth ''k1'')) True ?c = Some c'" by blast
  have k1: "auth_ID (sample_auth ''k1'') = ''k1''" "''k1'' \<noteq> ''''" by (simp_all add: sample_auth_def)
  note bound = affinityBind_bound [OF new_cache_refines bind k1(2) c' [unfolded k1(1)]]
  have "GetAndRefresh (cacheKey sample_request) 10 ?c = Some (None, ?c)"
    by (simp add: GetAndRefresh_def NewSessionCacheWithCapacity_def)
  moreover have "guardianAuth (sample_affinity q) sample_request [sample_auth ''k1''] 10 ?c = None"
    "fallbackKey sample_request = ''''"
    by (simp_all add: guardianAuth_def isGuardianRequest_def fallbackKey_def sample_request_def)
  moreover have "pick f ctx (req_provider sample_request) (req_model sample_request)
      (highestPriorityAuths [sample_auth ''k1'']) 10 = (Inr (Some (sample_auth ''k1'')), f)"
    using assms(1) by (simp add: highestPriorityAuths_def sample_request_def)
  ultimately have "Affinity_Pick get pick (sample_affinity q) ctx [] sample_request [sample_auth ''k1''] 10 f ?c =
      Some (Inr (Some (sample_auth ''k1'')), f, c')"
    unfolding Affinity_Pick_session [OF id av]
    using c' by (simp add: pickSession_def pickUnbound_def pickThenBind_def Let_def)
  moreover have "cache_inv c'" "sequence_room c' 1" "holds_one_group c'" "session_bound c' sample_request 110 ''k1''"
    "cache_ttl c' = 100"
    using bound by (auto simp: NewSessionCacheWithCapacity_def sequence_room_def holds_one_group_def maxStableSessionAliases_def)
  ultimately show ?thesis by (rule that)
qed


text \<open>(C16) When the selector keeps sessions through transient failures, a failover returns the choice
  of the selector behind for this request and leaves the session on its credential.\<close>

theorem transient_failover_keeps_binding:
  assumes "cache_inv c" "sequence_room c 1" "holds_one_group c" "req_primaryID req \<noteq> ''''"
    and "fst (Cache_Get (cacheKey req) now now c) = Some authID"
    and "shouldPreserveBindingWhenUnavailable get conf ctx ids (affinity_candidates conf auths) (req_model req) authID now"
    and av: "affinity_available conf ctx req auths now = Inr available"
    and "usableBound available (req_model req) now authID = None"
    and pick: "pick f ctx (req_provider req) (req_model req) (highestPriorityAuths available) now = (Inr (Some a), f')"
  shows "\<exists>c'. Affinity_Pick get pick conf ctx ids req auths now f c = Some (Inr (Some a), f', c') \<and>
    session_bound c' req (now + cache_ttl c) authID"
proof -
  note s = cache_inv_refines [OF assms(1)]
  let ?s = "spec_refresh (cacheKey req) now (abstract_cache c)"
  have "map_option entry_authID (spec_lookup (cacheKey req) now (abstract_cache c)) = Some authID"
    using assms(5) Cache_Get_lookup [OF s, of now now] by simp
  with GetAndRefresh_refines [OF s, of "cacheKey req" now] obtain d where
    d: "GetAndRefresh (cacheKey req) now c = Some (Some authID, d)" "refines d ?s" by auto
  have keep: "keeps_settings (abstract_cache c) ?s" by simp
  have bind: "can_bind ?s" using can_bind_room [OF assms(1,2) _ assms(3)] can_bind_keeps [OF keep] by simp
  from affinityBind_returns [OF d(2) bind] obtain c' where
    c': "affinityBind req auths now authID False d = Some c'" by blast
  have ttl: "cache_ttl d = cache_ttl c"
    using refinesD(3) [OF d(2)] keep by (simp add: keeps_settings_def abstract_cache_def)
  have "authID \<noteq> ''''" using assms(6) by (auto simp: shouldPreserveBindingWhenUnavailable_def)
  from affinityBind_bound [OF d(2) bind this c'] ttl
  have "session_bound c' req (now + cache_ttl c) authID" by simp
  moreover have "Affinity_Pick get pick conf ctx ids req auths now f c = Some (Inr (Some a), f', c')"
    unfolding Affinity_Pick_session [OF assms(4) av]
    using d(1) assms(6,8) pick c' by (simp add: pickSession_def pickThenBind_def Let_def)
  ultimately show ?thesis by blast
qed

text \<open>The session of \<open>k1\<close> is served by \<open>k0\<close> once and stays bound to \<open>k1\<close>.\<close>

theorem transient_failover_keeps_binding_witness:
  "\<exists>c c'. Affinity_Pick (\<lambda>_ _. '''') (\<lambda>f ctx provider model auths now. (Inr (Some (hd auths)), f)) (sample_affinity True)
      validated_ctx [''k1''] sample_request [sample_auth ''k0''] 50 () c = Some (Inr (Some (sample_auth ''k0'')), (), c') \<and>
    fst (Cache_Get (cacheKey sample_request) 100 100 c') = Some ''k1''"
proof -
  let ?pick = "\<lambda>f ctx provider model auths now. (Inr (Some (hd auths)), f)" and ?get = "\<lambda>_ _. ''''"
  obtain c where c: "cache_inv c" "sequence_room c 1" "holds_one_group c" "session_bound c sample_request 110 ''k1''"
    and ttl: "cache_ttl c = 100"
    by (rule sample_first_pick [of ?pick "()" validated_ctx True ?get]) (simp_all add: sample_available)
  have av: "affinity_available (sample_affinity True) validated_ctx sample_request [sample_auth ''k0''] 50 = Inr [sample_auth ''k0'']"
    by (rule sample_available) simp
  have "req_primaryID sample_request \<noteq> ''''"
    "fst (Cache_Get (cacheKey sample_request) 50 50 c) = Some ''k1''"
    "shouldPreserveBindingWhenUnavailable ?get (sample_affinity True) validated_ctx [''k1'']
      (affinity_candidates (sample_affinity True) [sample_auth ''k0'']) (req_model sample_request) ''k1'' 50"
    "usableBound [sample_auth ''k0''] (req_model sample_request) 50 ''k1'' = None"
    "?pick () validated_ctx (req_provider sample_request) (req_model sample_request)
      (highestPriorityAuths [sample_auth ''k0'']) 50 = (Inr (Some (sample_auth ''k0'')), ())"
    using c(4) by (simp_all add: sample_request_def session_bound_def shouldPreserveBindingWhenUnavailable_def
        sample_affinity_def validated_ctx_def usableBound_def highestPriorityAuths_def sample_auth_def)
  from transient_failover_keeps_binding [of c sample_request 50 "''k1''" ?get "sample_affinity True" validated_ctx "[''k1'']"
      "[sample_auth ''k0'']" "[sample_auth ''k0'']" ?pick "()", OF c(1-3) this(1-3) av this(4,5)] obtain c' where
    c': "Affinity_Pick ?get ?pick (sample_affinity True) validated_ctx [''k1''] sample_request [sample_auth ''k0''] 50 () c =
      Some (Inr (Some (sample_auth ''k0'')), (), c')" "session_bound c' sample_request (50 + cache_ttl c) ''k1''" by blast
  then have "fst (Cache_Get (cacheKey sample_request) 100 100 c') = Some ''k1''"
    using ttl by (simp add: session_bound_def)
  with c'(1) show ?thesis by blast
qed

section \<open>Results release the session\<close>

lemma spec_forget_other:
  assumes "groups_ok (live_bindings s)" "authID \<noteq> ''''"
  shows "map_option entry_authID (spec_lookup a now
      (spec_forget a (\<lambda>g. authID \<noteq> '''' \<and> entry_authID g = authID) s)) \<noteq> Some authID"
proof (cases "map_option entry_authID (bound_group (live_bindings s) a) = Some authID")
  case True
  then have "spec_forget a (\<lambda>g. authID \<noteq> '''' \<and> entry_authID g = authID) s = spec_forget a (\<lambda>_. True) s"
    using assms(2) by (auto simp: spec_forget_def)
  with unbound_lookup [OF spec_forget_unbound [OF assms(1)]] show ?thesis by simp
next
  case False
  then have "spec_forget a (\<lambda>g. authID \<noteq> '''' \<and> entry_authID g = authID) s = s"
    by (auto simp: spec_forget_def split: option.split)
  with False show ?thesis by (auto simp: spec_lookup_def split: option.splits if_splits)
qed

text \<open>\<open>CompareAndDelete\<close> takes its alias off the credential and puts nothing on it.\<close>

definition off_credential :: "sessions \<Rightarrow> string \<Rightarrow> string \<Rightarrow> bool" where
  "off_credential s a authID \<longleftrightarrow> (\<forall>t. map_option entry_authID (spec_lookup a t s) \<noteq> Some authID)"

lemma CompareAndDelete_off:
  assumes "refines c s" "authID \<noteq> ''''"
  obtains d u where "map_option snd (CompareAndDelete a authID c) = Some d" "refines d u"
    "off_credential u a authID" "\<And>b. off_credential s b authID \<Longrightarrow> off_credential u b authID"
proof -
  let ?u = "spec_forget a (\<lambda>g. authID \<noteq> '''' \<and> entry_authID g = authID) s"
  obtain r d where d: "CompareAndDelete a authID c = Some (r, d)" "refines d ?u"
    using CompareAndDelete_refines [OF assms(1)] by blast
  have a: "off_credential ?u a authID"
    unfolding off_credential_def using spec_forget_other [OF refines_ok [OF assms(1)] assms(2)] by blast
  have "off_credential ?u b authID" if "off_credential s b authID" for b
  proof (cases "b = a")
    case False
    then have "map_option entry_authID (spec_lookup b t ?u) = map_option entry_authID (spec_lookup b t s)" for t
      by (intro spec_forget_lookup [OF refines_ok [OF assms(1)]]) auto
    with that show ?thesis unfolding off_credential_def by metis
  qed (use a in simp)
  with that [OF _ d(2) a] d(1) show ?thesis by simp
qed

lemma off_credential_Get:
  assumes "refines c s" "off_credential s a authID"
  shows "cache_inv c \<and> (\<forall>t t'. t \<le> t' \<longrightarrow> fst (Cache_Get a t t' c) \<noteq> Some authID)"
  using assms Cache_Get_lookup [OF assms(1)] refines_inv [OF assms(1)] by (auto simp: off_credential_def)

text \<open>(C17) A failure that counts for the session takes it off the credential; one that is the fault of
  the request, or transient where sessions are kept through transient failures, changes nothing.\<close>

theorem failure_releases_session:
  assumes "cache_inv c" "out_authID out \<noteq> ''''" "\<not> out_success out" "req_primaryID req \<noteq> ''''"
  shows "\<exists>c'. Affinity_OnResult get conf req out now c = Some c' \<and> cache_inv c' \<and>
    (if out_error out \<noteq> None \<and> shouldSkipCredentialCooldown get (out_error out) \<or>
        aff_rebindOnQuotaOnly conf \<and> \<not> shouldRebindSessionAffinityOnError get (out_error out)
     then c' = c
     else \<forall>t t'. t \<le> t' \<longrightarrow> fst (Cache_Get (cacheKey req) t t' c') \<noteq> Some (out_authID out))"
proof (cases "out_error out \<noteq> None \<and> shouldSkipCredentialCooldown get (out_error out) \<or>
    aff_rebindOnQuotaOnly conf \<and> \<not> shouldRebindSessionAffinityOnError get (out_error out)")
  case True
  with assms have "Affinity_OnResult get conf req out now c = Some c" by (auto simp: Affinity_OnResult_def)
  with True assms(1) show ?thesis by simp
next
  case False
  define key where "key = (if isSubagentSession (req_primaryID req) (req_fallbackID req) then '''' else fallbackKey req)"
  obtain d u where d: "map_option snd (CompareAndDelete (cacheKey req) (out_authID out) c) = Some d"
    "refines d u" "off_credential u (cacheKey req) (out_authID out)"
    by (rule CompareAndDelete_off [OF cache_inv_refines [OF assms(1)] assms(2)]) (rule that)
  obtain e v where e: "map_option snd (CompareAndDelete key (out_authID out) d) = Some e"
    "refines e v" "off_credential v (cacheKey req) (out_authID out)"
    by (rule CompareAndDelete_off [OF d(2) assms(2)]) (rule that, assumption+, use d(3) in simp)
  have "Affinity_OnResult get conf req out now c =
      (case map_option snd (CompareAndDelete (cacheKey req) (out_authID out) c) of None \<Rightarrow> None
       | Some c' \<Rightarrow> if key \<noteq> '''' then map_option snd (CompareAndDelete key (out_authID out) c') else Some c')"
    unfolding Affinity_OnResult_def key_def [symmetric]
    using False assms(2-4) by (simp only: Let_def if_False if_True de_Morgan_disj not_False_eq_True simp_thms)
  then have res: "Affinity_OnResult get conf req out now c = Some (if key \<noteq> '''' then e else d)"
    by (simp add: d(1) e(1))
  moreover have "cache_inv (if key \<noteq> '''' then e else d) \<and> (\<forall>t t'. t \<le> t' \<longrightarrow>
      fst (Cache_Get (cacheKey req) t t' (if key \<noteq> '''' then e else d)) \<noteq> Some (out_authID out))"
    using off_credential_Get [OF d(2,3)] off_credential_Get [OF e(2,3)] by (simp split: if_split)
  ultimately show ?thesis using False by (simp only: if_False) blast
qed

theorem failure_releases_session_witness:
  "\<exists>c c'. cache_inv c \<and> fst (Cache_Get (cacheKey sample_request) 50 50 c) = Some ''k1'' \<and>
    Affinity_OnResult (\<lambda>_ _. '''') (sample_affinity False) sample_request
      \<lparr>out_authID = ''k1'', out_success = False, out_error = None\<rparr> 50 c = Some c' \<and>
    fst (Cache_Get (cacheKey sample_request) 60 60 c') \<noteq> Some ''k1''"
proof -
  let ?out = "\<lparr>out_authID = ''k1'', out_success = False, out_error = None\<rparr>" and ?get = "\<lambda>_ _. ''''"
  let ?pick = "\<lambda>f ctx provider model auths now. (Inr (Some (hd auths)), f)"
  obtain c where c: "cache_inv c" "session_bound c sample_request 110 ''k1''"
    by (rule sample_first_pick [of ?pick "()" validated_ctx False ?get]) (simp_all add: sample_available)
  have "out_authID ?out \<noteq> ''''" "\<not> out_success ?out" "req_primaryID sample_request \<noteq> ''''"
    by (simp_all add: sample_request_def)
  from failure_releases_session [OF c(1) this, of ?get "sample_affinity False" 50] obtain c' where
    "Affinity_OnResult ?get (sample_affinity False) sample_request ?out 50 c = Some c'"
    "\<forall>t t'. t \<le> t' \<longrightarrow> fst (Cache_Get (cacheKey sample_request) t t' c') \<noteq> Some ''k1''"
    by (auto simp: sample_affinity_def)
  moreover have "fst (Cache_Get (cacheKey sample_request) 50 50 c) = Some ''k1''"
    using c(2) by (simp add: session_bound_def)
  ultimately show ?thesis using c(1) by blast
qed

section \<open>The selector behind\<close>

text \<open>A selector behind returns one of the candidates it is offered.\<close>

locale affinity_fallback =
  fixes pick :: "'f fallback_pick"
  assumes pick_offered: "request_ok ctx auths now \<Longrightarrow>
    pick f ctx provider model auths now = (Inr (Some a), f') \<Longrightarrow> a \<in> set auths"
begin

lemma pickThenBind_offered:
  assumes "request_ok ctx auths now"
    and "pickThenBind (\<lambda>f. pick f ctx provider model auths now) bind f c = Some (Inr (Some a), f', c')"
  shows "a \<in> set auths"
  using pickThenBind_Some [OF assms(2)] pick_offered [OF assms(1)] by blast

lemma pickSession_offered:
  assumes "request_ok ctx (highestPriorityAuths available) now" "set (highestPriorityAuths available) \<subseteq> set available"
    and "pickSession preserve conf (\<lambda>f. pick f ctx provider model (highestPriorityAuths available) now)
      req auths available now f c = Some (Inr (Some a), f', c')"
  shows "a \<in> set available"
proof -
  let ?pick = "\<lambda>f. pick f ctx provider model (highestPriorityAuths available) now"
  have fallback: "a \<in> set available" if "pickThenBind ?pick bind f d = Some (Inr (Some a), f', c')" for bind d
    using pickThenBind_offered [OF assms(1) that] assms(2) by blast
  have bound: "b \<in> set available" if "returnBound b f x = Some (Inr (Some b'), f', c')"
    "usableBound available (req_model req) now k = Some b" for b b' x k
    using usableBound_ID [OF that(2)] by simp
  have guardian: "b \<in> set available" if "guardianAuth conf req available now d = Some b" for b d
    using that by (auto simp: guardianAuth_def Let_def find_Some_iff split: if_splits)
  have unbound: "a \<in> set available"
    if "pickUnbound preserve conf ?pick req auths available now f d = Some (Inr (Some a), f', c')" for d
  proof (cases "guardianAuth conf req available now d")
    case (Some b)
    with that guardian [OF Some] show ?thesis by (auto simp: pickUnbound_def returnBound_def Let_def)
  next
    case None
    with that fallback show ?thesis
      by (auto simp: pickUnbound_def returnBound_def Let_def dest!: usableBound_ID
          split: if_splits option.splits prod.splits)
  qed
  show ?thesis
    using assms(3) unbound fallback
    by (auto simp: pickSession_def returnBound_def Let_def dest!: usableBound_ID split: option.splits prod.splits)
qed

end

lemma request_ok_subset:
  assumes "request_ok ctx auths now"
  shows "request_ok ctx (filter P auths) now"
  using assms by (auto simp: request_ok_def distinct_map_filter strict_filter)

lemma distinct_buckets:
  assumes "wf_map m" "\<And>p t. (p, t) \<in> set m \<Longrightarrow> distinct t \<and> (\<forall>a \<in> set t. authPriority a = p)"
  shows "distinct (concat (map snd m))"
  using assms
proof (induction m)
  case (Cons x m)
  have "distinct (concat (map snd m))"
    by (rule Cons.IH) (use Cons.prems(1) in simp, rule Cons.prems(2), simp)
  moreover have "a \<notin> set (snd x)" if a: "a \<in> set (concat (map snd m))" for a
  proof -
    obtain y where "y \<in> set m" "a \<in> set (snd y)" using a by auto
    then have "authPriority a = fst y" using Cons.prems(2) [of "fst y" "snd y"] by auto
    moreover have "fst y \<noteq> fst x" using Cons.prems(1) \<open>y \<in> set m\<close> by (metis distinct.simps(2) image_eqI list.map(2) list.set_map)
    ultimately show ?thesis using Cons.prems(2) [of "fst x" "snd x"] by auto
  qed
  ultimately show ?case using Cons.prems(2) [of "fst x" "snd x"] by auto
qed simp

lemma across_priorities_exact:
  assumes "0 \<le> now" "getAvailableAuthsWithPriorityMode auths provider model now True = Inr available"
  shows "set available = {a \<in> set auths. usable model now a} \<and> (distinct auths \<longrightarrow> distinct available)"
proof -
  obtain m n e where c: "collectAvailableByPriority auths model now = (m, n, e)" "wf_map m"
    "\<And>p. map_of m p = (if tier model now p auths = [] then None else Some (tier model now p auths))"
    using collect_spec [OF assms(1), of auths model] by blast
  then have av: "available = sort_key auth_ID (concat (map snd m))"
    using assms(2) by (auto simp: getAvailableAuthsWithPriorityMode_def availableAuthsFromPriorityBuckets_def
        newAuthUnavailableErrorWithCause_def WithCause_def Let_def split: if_splits)
  have mem: "(p, t) \<in> set m \<longleftrightarrow> t = tier model now p auths \<and> t \<noteq> []" for p t
    using c(2) c(3) [of p] by (metis map_of_is_SomeI map_of_SomeD not_None_eq option.inject)
  have "set (concat (map snd m)) = {a \<in> set auths. usable model now a}"
  proof (intro equalityI subsetI)
    fix a assume "a \<in> set (concat (map snd m))"
    then obtain p t where "(p, t) \<in> set m" "a \<in> set t" by auto
    then show "a \<in> {a \<in> set auths. usable model now a}" using mem [of p t] by (simp add: tier_def)
  next
    fix a assume "a \<in> {a \<in> set auths. usable model now a}"
    then have a: "a \<in> set (tier model now (authPriority a) auths)" by (simp add: tier_def)
    then have "(authPriority a, tier model now (authPriority a) auths) \<in> set m"
      using mem by (metis empty_iff empty_set)
    with a show "a \<in> set (concat (map snd m))" by force
  qed
  moreover have "distinct (concat (map snd m))" if "distinct auths"
    using that mem by (intro distinct_buckets [OF c(2)]) (auto simp: tier_def)
  ultimately show ?thesis unfolding av by simp
qed

lemma affinity_available_ok:
  assumes "request_ok ctx auths now" "affinity_available conf ctx req auths now = Inr available"
  shows "request_ok ctx available now \<and> set available \<subseteq> set auths \<and>
    (\<not> ctx_prevalidated ctx \<longrightarrow> (\<forall>a \<in> set available. usable (req_model req) now a))"
proof -
  let ?cs = "affinity_candidates conf auths"
  have "\<exists>P. ?cs = filter P auths"
    by (cases "aff_weighted conf") (auto simp: positiveWeightAuths_def intro: exI [of _ "\<lambda>_. True"])
  then obtain P where P: "?cs = filter P auths" by blast
  have cs: "request_ok ctx ?cs now" "set ?cs \<subseteq> set auths"
    unfolding P using request_ok_subset [OF assms(1)] by auto
  show ?thesis
  proof (cases "ctx_prevalidated ctx \<and> ?cs \<noteq> []")
    case True
    with assms(2) have "available = ?cs"
      by (simp add: affinity_available_def getSelectorAvailableAuthsWithPriorityMode_def)
    with True cs show ?thesis by simp
  next
    case False
    with assms(2) have get: "getAvailableAuthsWithPriorityMode ?cs (req_provider req) (req_model req) now True = Inr available"
      by (simp add: affinity_available_def getSelectorAvailableAuthsWithPriorityMode_def del: if_split)
    then have ne: "?cs \<noteq> []" by (auto simp: getAvailableAuthsWithPriorityMode_def)
    have now: "0 \<le> now" using cs(1) by (simp add: request_ok_def)
    note exact = across_priorities_exact [OF now get]
    have dist: "distinct ?cs" "inj_on auth_ID (set ?cs)" using cs(1) by (auto simp: request_ok_def distinct_map)
    then have "distinct (map auth_ID available)"
      using exact by (auto simp: distinct_map intro: inj_on_subset)
    then have "request_ok ctx available now"
      using False ne cs(1) exact by (auto simp: request_ok_def)
    with exact cs(2) show ?thesis by auto
  qed
qed

text \<open>(C18) A session is only ever sent to a candidate of the request, and to an available one when the
  manager has not validated the candidates itself, whichever selector stands behind.\<close>

theorem affinity_pick_available:
  assumes "affinity_fallback pick" "request_ok ctx auths now" "req_primaryID req \<noteq> ''''"
    and pick: "Affinity_Pick get pick conf ctx ids req auths now f c = Some (Inr (Some a), f', c')"
  shows "a \<in> set auths \<and> (\<not> ctx_prevalidated ctx \<longrightarrow> usable (req_model req) now a)"
proof -
  obtain available where av: "affinity_available conf ctx req auths now = Inr available"
    by (rule Affinity_Pick_available [OF assms(3) pick])
  note ok = affinity_available_ok [OF assms(2) av]
  obtain P where P: "highestPriorityAuths available = filter P available" using highestPriorityAuths_filter by blast
  have "request_ok ctx (highestPriorityAuths available) now" "set (highestPriorityAuths available) \<subseteq> set available"
    unfolding P using ok request_ok_subset by auto
  from affinity_fallback.pickSession_offered [OF assms(1) this pick [unfolded Affinity_Pick_session [OF assms(3) av]]]
  show ?thesis using ok by blast
qed

text \<open>The selectors of the pool as selectors behind.\<close>

definition as_fallback ::
    "('f \<Rightarrow> SelectorContext \<Rightarrow> string \<Rightarrow> string \<Rightarrow> Auth list \<Rightarrow> time \<Rightarrow> (GoError + Auth) \<times> 'f) \<Rightarrow> 'f fallback_pick" where
  "as_fallback pick f ctx provider model auths now =
     (let (result, f') = pick f ctx provider model auths now in (map_sum id Some result, f'))"

definition fill_first_fallback :: "unit fallback_pick" where
  "fill_first_fallback = as_fallback (\<lambda>f ctx provider model auths now. (FillFirst_Pick ctx provider model auths now, f))"

lemma as_fallback_Some:
  "as_fallback pick f ctx provider model auths now = (Inr (Some a), f') \<Longrightarrow>
   fst (pick f ctx provider model auths now) = Inr a"
  by (cases "pick f ctx provider model auths now"; cases "fst (pick f ctx provider model auths now)")
    (auto simp: as_fallback_def)

interpretation round_robin_behind: affinity_fallback "as_fallback RoundRobin_Pick"
proof unfold_locales
  fix ctx auths now f provider model a f'
  assume ok: "request_ok ctx auths now" and "as_fallback RoundRobin_Pick f ctx provider model auths now = (Inr (Some a), f')"
  then have a: "fst (RoundRobin_Pick f ctx provider model auths now) = Inr a" by (auto dest: as_fallback_Some)
  then obtain av where "getSelectorAvailableAuths ctx auths provider model now = Inr av"
    by (cases "getSelectorAvailableAuths ctx auths provider model now") (auto simp: RoundRobin_Pick_def)
  from RoundRobin_Pick_ring [OF ok pool_nonempty [OF ok this], of f] selectorPool_sorted(2) [OF ok] a
  show "a \<in> set auths" by fastforce
qed

interpretation fill_first_behind: affinity_fallback fill_first_fallback
proof unfold_locales
  fix ctx auths now f provider model a f'
  assume ok: "request_ok ctx auths now" and "fill_first_fallback f ctx provider model auths now = (Inr (Some a), f')"
  then have a: "FillFirst_Pick ctx provider model auths now = Inr a"
    using as_fallback_Some unfolding fill_first_fallback_def by fastforce
  then obtain av where av: "getSelectorAvailableAuths ctx auths provider model now = Inr av"
    by (cases "getSelectorAvailableAuths ctx auths provider model now") (auto simp: FillFirst_Pick_def)
  let ?pool = "preferCodexWebsocketAuths ctx provider av"
  have "?pool = selectorPool ctx provider model auths now" using av by (simp add: selectorPool_def)
  then have "?pool \<noteq> []" "set ?pool \<subseteq> set auths"
    using pool_nonempty [OF ok av] selectorPool_sorted(2) [OF ok] by metis+
  moreover have "a = ?pool ! 0" using a av by (simp add: FillFirst_Pick_def)
  ultimately show "a \<in> set auths" by auto
qed

interpretation weighted_behind: affinity_fallback "as_fallback WeightedRoundRobin_Pick"
proof unfold_locales
  fix ctx auths now f provider model a f'
  assume ok: "request_ok ctx auths now"
    and "as_fallback WeightedRoundRobin_Pick f ctx provider model auths now = (Inr (Some a), f')"
  then have a: "fst (WeightedRoundRobin_Pick f ctx provider model auths now) = Inr a" by (auto dest: as_fallback_Some)
  let ?cs = "positiveWeightAuths auths"
  have cs: "request_ok ctx ?cs now" unfolding positiveWeightAuths_def by (rule request_ok_subset [OF ok])
  obtain av where av: "getSelectorAvailableAuths ctx ?cs provider model now = Inr av"
    using a by (cases "getSelectorAvailableAuths ctx ?cs provider model now") (auto simp: WeightedRoundRobin_Pick_def)
  let ?pool = "preferCodexWebsocketAuths ctx provider av"
  have "fst (pickSmoothWeightedAuth ?pool cur) = Some p \<Longrightarrow> p \<in> set ?pool" for cur p
    using auth_weighted.pick_in [of "\<lambda>_. True" ?pool cur p] by (simp add: auth_weighted.candidates_def)
  with a av have "a \<in> set ?pool"
    by (auto simp: WeightedRoundRobin_Pick_def Let_def split: prod.splits option.splits) (metis fst_conv)+
  moreover have "set ?pool \<subseteq> set ?cs"
    using selectorPool_sorted(2) [OF cs, of provider model] av by (simp add: selectorPool_def)
  ultimately show "a \<in> set auths" by (auto simp: positiveWeightAuths_def)
qed

theorem affinity_pick_available_witness:
  "\<exists>c'. Affinity_Pick (\<lambda>_ _. '''') fill_first_fallback (sample_affinity False) sample_ctx [] sample_request
      [sample_auth ''k1''] 10 () (NewSessionCacheWithCapacity 100 100) = Some (Inr (Some (sample_auth ''k1'')), (), c') \<and>
    usable ''m'' 10 (sample_auth ''k1'')"
proof -
  have "collectAvailableByPriority [sample_auth ''k1''] ''m'' 10 = ([(0, [sample_auth ''k1''])], 0, 0)"
    by (simp add: collectAvailableByPriority_def collectStep_def get_or_def)
  then have get: "getAvailableAuthsWithPriorityMode [sample_auth ''k1''] provider ''m'' 10 b = Inr [sample_auth ''k1'']" for b provider
    by (simp add: getAvailableAuthsWithPriorityMode_def availableAuthsFromPriorityBuckets_def betterPriority_def get_or_def)
  have pick: "fill_first_fallback () sample_ctx ''codex'' ''m'' [sample_auth ''k1''] 10 = (Inr (Some (sample_auth ''k1'')), ())"
    using get by (simp add: fill_first_fallback_def as_fallback_def FillFirst_Pick_def sample_ctx_def
        getSelectorAvailableAuthsWithPriorityMode_def preferCodexWebsocketAuths_def)
  have av: "affinity_available (sample_affinity False) sample_ctx sample_request [sample_auth ''k1''] 10 = Inr [sample_auth ''k1'']"
    using get by (simp add: affinity_available_def getSelectorAvailableAuthsWithPriorityMode_def sample_affinity_def
        sample_ctx_def sample_request_def)
  obtain c' where c': "Affinity_Pick (\<lambda>_ _. '''') fill_first_fallback (sample_affinity False) sample_ctx [] sample_request
      [sample_auth ''k1''] 10 () (NewSessionCacheWithCapacity 100 100) = Some (Inr (Some (sample_auth ''k1'')), (), c')"
    by (rule sample_first_pick [of fill_first_fallback "()" sample_ctx False "\<lambda>_ _. ''''", OF pick av])
  have "request_ok sample_ctx [sample_auth ''k1''] 10" "req_primaryID sample_request \<noteq> ''''"
    by (simp_all add: request_ok_def sample_ctx_def sample_request_def sample_auth_def)
  from affinity_pick_available [OF fill_first_behind.affinity_fallback_axioms this c'] c'
  show ?thesis by (simp add: sample_ctx_def sample_request_def)
qed

end
