(* ===== verification/Spec2Isabelle.thy ===== *)
theory Spec2Isabelle
  imports Thinking Execution_Registry Result_Routing Session_Affinity
begin

text \<open>
  A verification development of the routing core of vibe-proxy (the Go program under
  \<^verbatim>\<open>src/CLIProxyAPI\<close>), a proxy that serves OpenAI, Claude and Gemini compatible requests from
  a pool of upstream credentials.

  \<^bold>\<open>The program.\<close> A request names a model, possibly with a suffix that configures thinking.
  The conductor asks a selector for a credential that may serve the model, an executor sends the
  request upstream, and the result is recorded on the credential: a model may become unavailable
  or exhausted until a time. In a cluster every dispatched request also owns a scope of the
  execution registry, which counts releases per credential and model and can be drained.

  \<^bold>\<open>Theories.\<close>
  \<^item> \<open>Proxy_Prelude\<close>: what the program uses of Go's library. 64-bit integers are \<open>int\<close> with
    \<open>wrap64\<close> and \<open>clamp64\<close> written out; times and durations are nanoseconds, the zero time is 0;
    \<open>strings.TrimSpace\<close>, \<open>ToLower\<close>, \<open>strconv\<close> on ASCII strings; \<open>sort.Search\<close> as its binary
    search with the proof that it finds the least hit; maps are association lists with unique
    keys. The locale \<open>transition_system\<close> carries invariants along the steps of a system.
  \<^item> \<open>Thinking\<close> (\<^verbatim>\<open>internal/thinking\<close>): suffixes, levels and budgets, \<open>ValidateConfig\<close> cut into the
    stages the function has, the registry of provider appliers. Shown: an accepted configuration
    has a supported level and a budget in range, strict requests are rejected and not clamped,
    automatic or disabled thinking reaches only models that allow it, clamping goes to the
    nearest level, suffixes round-trip, registration order does not matter.
  \<^item> \<open>Execution_Registry\<close> (\<^verbatim>\<open>sdk/cliproxy/executionregistry\<close>): every operation cut into its
    critical sections, and \<open>registry_step\<close>, in which any number of goroutines interleave them.
    Shown for every reachable state: release sequences count each accounted scope once, draining
    closes all resources, can always finish, and is final once it returned; a published barrier
    has no older dispatch outstanding.
  \<^item> \<open>Credential\<close> (\<^verbatim>\<open>sdk/cliproxy/auth\<close>: types, weight, priority, errors and the availability test
    of selector.go). Shown: weights and priorities round-trip through metadata; the availability
    test reports exactly when a block ends, is monotone in time and independent of the iteration
    order of Go's map.
  \<^item> \<open>Capacity\<close> (capacity.go, quota_pin.go): ranks of remaining quota and the sticky pin.
  \<^item> \<open>Rotation\<close>: the two disciplines of rotation the selectors share, as the locales \<open>rotation\<close>
    (a ring ordered by key) and \<open>smooth_weighted\<close>, with the proofs of freedom from starvation and
    of exact shares.
  \<^item> \<open>Selectors\<close> (selector.go): the four selectors with their state, as interpretations of these
    locales. Shown: the pool is exactly the available credentials of the highest priority;
    round robin starves nobody; weighted round robin gives each credential its exact share;
    fill-first and quota drain choose as documented and fail only when they must.
  \<^item> \<open>Shard\<close> (scheduler.go, \<open>modelScheduler\<close>): the credentials of one provider that support one model,
    with their state at the last evaluation and the indexes picking reads. \<open>Shard_Runs\<close> relates runs of
    a shard to a plain map from identifiers to credentials (\<open>shard_refines_map\<close>), shows that promotion
    lists exactly what a fresh evaluation finds usable, and carries freedom from starvation and exact
    shares over to shards, whose members come and go.
  \<^item> \<open>Scheduler\<close> (scheduler.go, \<open>authScheduler\<close> and \<open>providerScheduler\<close>): credentials with their
    generations, tombstones and owners, rebuilds, and picks for one or several providers, with the
    invariant \<open>sched_ok\<close> and its preservation. \<open>Scheduler_Picks\<close> says what a pick may return.
    \<open>Scheduler_Runs\<close> is the step relation and holds the properties: the invariant in every reachable
    state, picks of the highest priority that serve their request, removals that no older snapshot
    undoes, rebuilds after which nothing is left to synchronize.
  \<^item> \<open>Model_Registry\<close> (internal/registry/model_registry.go): which client serves which model, with the
    counts per model and provider, quota marks, suspensions, epochs, fences and listings, operation by
    operation; the reconciliation of a client that registers again is cut into the stages of the code.
    \<open>Registry_Bindings\<close> says what each stage does to one model and that the counters stay the
    multiset of bindings of the clients (\<open>registry_ok\<close>). \<open>Registry_Runs\<close> shows that runs refine a plain
    map of clients with epochs, what counters and web-search flags mean in every reachable state, and
    that a fence admits one writer per epoch. \<open>Registry_Listing\<close> says what makes a model available and
    that the cached listings cannot be told from fresh ones, and what a projection sets.
  \<^item> \<open>Routing\<close>: the scheduler and the model registry side by side, the scheduler reading first the epoch
    and then the models of a credential with requests in between; the check that compares epochs is
    enough to know that the scheduler has the registry's models.
  \<^item> \<open>Json\<close>: \<open>encoding/json\<close> as far as the program uses it to look into error bodies, as a lexer and a
    parser with an explicit stack and the nesting limit of the library; and the helpers of \<open>strings\<close>.
  \<^item> \<open>Failure\<close> (conductor_cooldown.go, errors.go, conductor_request_scoped_errors.go,
    internal/clienterror, executor/tls_handshake_timeout.go): an error is the tree its \<open>Unwrap\<close> methods give, a node
    carrying what the methods the code asks for return; \<open>errors.As\<close> and \<open>errors.Is\<close> search it in the order of the
    library. Every classification of upstream errors is a function of it. Shown: rate limits count
    against the credential whatever their text, and the marker that stops a request changes
    nothing about what is recorded.
  \<^item> \<open>Cooldown\<close>, \<open>Mark_Result\<close>, \<open>Quota_Signals\<close>, \<open>Cooldown_Records\<close>, \<open>Cooldown_Manager\<close>, \<open>Cooldown_View\<close>
    (conductor_cooldown.go, conductor_refresh.go, conductor_models.go, quota_signals.go, cooldown_state.go, cooldown_view.go):
    how long a failure blocks, the two layers of a model state while a quota covers the whole credential, the summary
    of the credential, \<open>MarkResult\<close> cut into the stages of the code, records of cooldowns and their
    restoration, resets, the projection for the registry and the view of the management interface.
    \<open>Cooldown_Facts\<close> holds the shared lemmas and the ladder of rate limits; \<open>Cooldown_Runs\<close> shows over whole
    results that a counting failure blocks its model and never shortens a block, that a success from
    before the failure unblocks nothing and a later one unblocks the model; \<open>Cooldown_Layers\<close> that a quota of the
    credential blocks every model, that lifting it gives back each model's own block, that a stored
    block comes back, and where the code falls short of its comments.
  \<^item> \<open>Result_Routing\<close>: the end of \<open>MarkResult\<close>, which hands the credential to the scheduler and its projections to
    the registry; a failed credential is not picked for the model and the model is suspended for it.
  \<^item> \<open>Session_Cache\<close> (session_cache.go): the bindings of sessions to credentials, operation by operation on the
    redundant state of the code (entries by alias, groups by primary key, the list of eviction and the map of its
    elements, the groups of a session). \<open>Session_Groups\<close> says when this state represents a list of groups with
    disjoint aliases, the oldest first (\<open>cache_rep\<close>), and what each operation does to that list; the loop that
    evicts ends. \<open>Session_Runs\<close> shows that runs refine the list (\<open>session_cache_refines_groups\<close>), within the
    limit of aliases. \<open>Session_Bindings\<close>: what is invalidated stays gone until it is bound again, a new binding
    moves its whole group, the newest selection of a session is found whatever the order of the map.
  \<^item> \<open>Session_Affinity\<close> (selector.go, \<open>SessionAffinitySelector\<close>; home_session_alias.go): \<open>Pick\<close>, the binding of
    what it picks, and \<open>OnResult\<close>, for requests with an explicit session. The selector behind it is an argument;
    the locale \<open>affinity_fallback\<close> states what is asked of it and is interpreted on round robin, fill-first and
    weighted round robin. Shown: a session stays on its credential while the binding lives and the
    credential is available, failing over for a transient block does not move the binding, a failure that counts
    releases the session from the failed credential, and only available credentials are picked.

  \<^bold>\<open>Idealisations.\<close> Strings are ASCII; \<open>float64\<close> quota percentages are rationals (NaN and the
  infinities are constructors); counters of the registry are unbounded; a function reads the clock
  once; lists of windows are short enough for \<open>sort.SliceStable\<close> to be its insertion sort;
  pointers to credentials are not nil. The expiration of an access token is a field of the
  credential, because its computation parses tokens. What the scheduler asks the model registry, and
  whether a request allows a credential, are arguments; identifiers of scheduled credentials carry
  no surrounding space (the code keeps owners under the trimmed identifier and entries under the
  other, so a padded one stays scheduled after its removal). Texts of errors are kept only as far as the
  program compares them. In the conductor, sequence numbers and generations are natural numbers,
  the tokens of a credential and the model a route resolves to are fields or arguments, so are the
  field access of \<open>gjson\<close> and the result policy; the map of model states is taken in the order of its
  association list. In the model registry cloned values stand for pointers to model information,
  the calls of the hook are a log, times of quota marks are not negative, the clock does not go back,
  clients that register have a name, and a mutation of capabilities does not rename a model. In the session
  cache a nil map is the empty map; the sequence of bindings is \<open>uint64\<close> and wraps, and properties of runs say
  that fewer than 2^64 selections are made. The session identifiers found in a request are fields of the request.

  \<^bold>\<open>Termination.\<close> Every function is total; no fuel is used. The one loop without an obvious measure,
  the eviction of the session cache, is a partial function, and it is proved to return whenever the invariant
  of the cache holds. Epochs and generations of the model registry are
  \<open>uint64\<close> and wrap; where a property compares epochs it says how many requests may pass. Loops that wait (\<open>Drain\<close>,
  \<open>WaitPending\<close>) are steps that become enabled, and it is proved that they can be reached.

  \<^bold>\<open>Not modelled.\<close> Translators and executors (JSON rewriting and network calls), the HTTP server,
  the configuration and its watcher, stores, plugins, logins, the terminal and web interfaces. Of the
  conductor: the loop over attempts, refresh over HTTP, alias tables, persistence of credentials, hooks, the ring of
  recent requests, the files of cooldown records, the rules of the configuration that reclassify errors. Of session affinity: how
  identifiers are read from headers and bodies, the prefix matcher for requests without a session, and
  \<open>LookupAffinity\<close>.
\<close>

end
